(* ===== verification/Prelude.thy ===== *)
theory Prelude
  imports Main "HOL-Library.Monad_Syntax" "HOL-Library.Sublist"
begin

text \<open>
  Shared vocabulary of the development: byte strings, the exceptions the sources throw, checked
  access to vectors, decimal and hexadecimal printing as \<^verbatim>\<open>std::to_string\<close> and
  \<^verbatim>\<open>std::hex\<close> do it, and the generic lemmas on lists and options that the
  components use.

  Conventions.
  \<^item> A \<^verbatim>\<open>std::string\<close> or byte buffer is a \<^typ>\<open>string\<close>: a \<^typ>\<open>char\<close> is one byte.
  \<^item> An operation that may run into undefined behaviour (an access past the end of a vector,
    a recursion that never returns) has an \<open>option\<close> result, \<open>None\<close> standing for that.
  \<^item> An operation that may throw has a result \<open>exn + 'a\<close>.
\<close>

section \<open>Types\<close>

datatype exn =
    Invalid_argument string
  | Out_of_range string
  | Logic_error string
  | Runtime_error string
  | Literal string
  | Json_error string

type_synonym 'a throws = "exn + 'a"

abbreviation throw :: "exn \<Rightarrow> 'a throws" where
  "throw e \<equiv> Inl e"

abbreviation return :: "'a \<Rightarrow> 'a throws" where
  "return x \<equiv> Inr x"

text \<open>
  The outcome of an operation that may throw and may also not return at all: \<open>None\<close> for undefined behaviour
  or a process aborted by a failed \<^verbatim>\<open>CHECK\<close>, otherwise an exception or a result.
\<close>

type_synonym 'a outcome = "'a throws option"

definition succeed :: "'a \<Rightarrow> 'a outcome" where
  "succeed x = Some (return x)"

definition and_then :: "'a outcome \<Rightarrow> ('a \<Rightarrow> 'b outcome) \<Rightarrow> 'b outcome" where
  "and_then m f = (case m of None \<Rightarrow> None | Some (Inl e) \<Rightarrow> Some (throw e) | Some (Inr x) \<Rightarrow> f x)"

lemma and_then_cong [fundef_cong]:
  "m = m' \<Longrightarrow> (\<And>x. m' = Some (Inr x) \<Longrightarrow> f x = f' x) \<Longrightarrow> and_then m f = and_then m' f'"
  by (auto simp: and_then_def split: option.splits sum.splits)

lemma and_then_succeed [simp]: "and_then (succeed x) f = f x" "and_then (Some (Inr x)) f = f x"
  by (simp_all add: and_then_def succeed_def)

named_theorems view_simps \<open>how each operation changes the fields of the state it works on\<close>

section \<open>Vectors\<close>

text \<open>Reading and writing an element; past the end both are undefined behaviour.\<close>

definition vec_get :: "'a list \<Rightarrow> nat \<Rightarrow> 'a option" where
  "vec_get xs i = (if i < length xs then Some (xs ! i) else None)"

definition vec_set :: "'a list \<Rightarrow> nat \<Rightarrow> 'a \<Rightarrow> 'a list option" where
  "vec_set xs i x = (if i < length xs then Some (xs[i := x]) else None)"

lemma vec_get_in [simp]: "i < length xs \<Longrightarrow> vec_get xs i = Some (xs ! i)"
  by (simp add: vec_get_def)

lemma vec_get_out [simp]: "length xs \<le> i \<Longrightarrow> vec_get xs i = None"
  by (simp add: vec_get_def)

lemma vec_set_in [simp]: "i < length xs \<Longrightarrow> vec_set xs i x = Some (xs[i := x])"
  by (simp add: vec_set_def)

lemma vec_get_Some_iff: "vec_get xs i = Some x \<longleftrightarrow> i < length xs \<and> x = xs ! i"
  by (auto simp: vec_get_def)

lemma vec_set_Some_iff: "vec_set xs i x = Some ys \<longleftrightarrow> i < length xs \<and> ys = xs[i := x]"
  by (auto simp: vec_set_def)

lemma vec_set_get: "vec_set xs i x = Some ys \<Longrightarrow> vec_get ys i = Some x"
  by (auto simp: vec_set_Some_iff)

lemma vec_set_get_other: "vec_set xs i x = Some ys \<Longrightarrow> j \<noteq> i \<Longrightarrow> vec_get ys j = vec_get xs j"
  by (auto simp: vec_set_Some_iff vec_get_def)

section \<open>Printing numbers\<close>

text \<open>A digit of a number in base at most 16, in lower case as \<^verbatim>\<open>std::hex\<close> prints it.\<close>

definition digit :: "nat \<Rightarrow> char" where
  "digit d = (if d < 10 then char_of (48 + d) else char_of (87 + d))"

text \<open>Digits of \<open>n\<close> in base \<open>b\<close>, most significant first, without leading zeros; zero is one digit.\<close>

function print_base :: "nat \<Rightarrow> nat \<Rightarrow> string" where
  "print_base b n =
     (if n < b \<or> b < 2 then [digit n] else print_base b (n div b) @ [digit (n mod b)])"
  by pat_completeness auto
termination
  by (relation "measure snd") auto

declare print_base.simps [simp del]

definition to_string :: "nat \<Rightarrow> string" where
  "to_string n = print_base 10 n"

definition int_to_string :: "int \<Rightarrow> string" where
  "int_to_string i = (if i < 0 then CHR ''-'' # to_string (nat (- i)) else to_string (nat i))"

lemma print_base_not_Nil [simp]: "print_base b n \<noteq> []"
  by (subst print_base.simps) simp

lemma print_base_digits: "2 \<le> b \<Longrightarrow> set (print_base b n) \<subseteq> digit ` {..<b}"
proof (induction b n rule: print_base.induct)
  case (1 b n)
  show ?case
  proof (cases "n < b")
    case True
    then show ?thesis by (subst print_base.simps) auto
  next
    case False
    with 1 show ?thesis by (subst print_base.simps) auto
  qed
qed

text \<open>The value a digit string denotes, for the inverse direction.\<close>

definition digits_value :: "nat \<Rightarrow> (char \<Rightarrow> nat) \<Rightarrow> string \<Rightarrow> nat" where
  "digits_value b v s = foldl (\<lambda>a c. a * b + v c) 0 s"

lemma digits_value_snoc: "digits_value b v (s @ [c]) = digits_value b v s * b + v c"
  by (simp add: digits_value_def)

lemma digits_value_print:
  assumes "2 \<le> b" and "\<And>d. d < b \<Longrightarrow> v (digit d) = d"
  shows "digits_value b v (print_base b n) = n"
  using assms
proof (induction b n rule: print_base.induct)
  case (1 b n)
  show ?case
  proof (cases "n < b")
    case True
    with 1 show ?thesis by (subst print_base.simps) (simp add: digits_value_def)
  next
    case False
    with 1 have "digits_value b v (print_base b (n div b)) = n div b" by simp
    moreover have "v (digit (n mod b)) = n mod b" using 1 by simp
    moreover have "print_base b n = print_base b (n div b) @ [digit (n mod b)]"
      using False 1 by (subst print_base.simps) simp
    ultimately show ?thesis by (simp only: digits_value_snoc) simp
  qed
qed

lemma print_base_length: "2 \<le> b \<Longrightarrow> n < b ^ k \<Longrightarrow> 0 < k \<Longrightarrow> length (print_base b n) \<le> k"
proof (induction b n arbitrary: k rule: print_base.induct)
  case (1 b n)
  show ?case
  proof (cases "n < b")
    case True
    with 1 show ?thesis by (subst print_base.simps) simp
  next
    case False
    from 1 obtain j where k: "k = Suc j" by (cases k) auto
    have j: "0 < j" using 1 False k by (cases j) auto
    from 1 k have "n div b < b ^ j" by (simp add: less_mult_imp_div_less mult.commute)
    with 1 False j have "length (print_base b (n div b)) \<le> j" by simp
    with False 1 k show ?thesis by (subst print_base.simps) simp
  qed
qed

lemma print_base_inject:
  "2 \<le> b \<Longrightarrow> b \<le> 16 \<Longrightarrow> print_base b m = print_base b n \<Longrightarrow> m = n"
proof -
  assume b: "2 \<le> b" "b \<le> 16" and eq: "print_base b m = print_base b n"
  define v :: "char \<Rightarrow> nat" where "v c = (if of_char c < (58::nat) then of_char c - 48 else of_char c - 87)" for c
  have v: "v (digit d) = d" if "d < b" for d
    using that b by (auto simp: v_def digit_def)
  from eq have "digits_value b v (print_base b m) = digits_value b v (print_base b n)" by simp
  then show "m = n" by (simp add: digits_value_print[OF b(1) v])
qed

section \<open>Lists and options\<close>

lemma prefix_total:
  "prefix xs zs \<Longrightarrow> prefix ys zs \<Longrightarrow> prefix xs ys \<or> strict_prefix ys xs"
  by (metis prefix_order.le_less prefix_same_cases)

lemma strict_prefix_split:
  "strict_prefix xs ys \<Longrightarrow> \<exists>c zs. ys = xs @ c # zs"
  by (metis strict_prefixE')

lemma bind_Some_iff: "(m \<bind> f = Some y) \<longleftrightarrow> (\<exists>x. m = Some x \<and> f x = Some y)"
  by (cases m) auto

lemma take_Suc_drop: "drop i xs = c # cs \<Longrightarrow> take (Suc i) xs = take i xs @ [c]"
  by (metis drop_eq_Nil hd_drop_conv_nth leI list.discI list.sel(1) take_Suc_conv_app_nth)

lemma drop_Suc_Cons: "drop i xs = c # cs \<Longrightarrow> drop (Suc i) xs = cs"
  by (metis drop_Suc list.sel(3) tl_drop)

lemma finite_ex_greatest:
  fixes f :: "'a \<Rightarrow> nat"
  assumes "finite A" and "a \<in> A"
  shows "\<exists>b\<in>A. \<forall>x\<in>A. f x \<le> f b"
proof -
  have "Max (f ` A) \<in> f ` A" using assms by (intro Max_in) auto
  then obtain b where "b \<in> A" "f b = Max (f ` A)" by auto
  moreover have "\<forall>x\<in>A. f x \<le> Max (f ` A)" using assms by simp
  ultimately show ?thesis by metis
qed

end
