(* ===== verification/Hex_IO.thy ===== *)
theory Hex_IO
  imports Prelude
begin

unbundle bit_operations_syntax

text \<open>
  The conversions of \<^verbatim>\<open>core/io/io.cc\<close> and the byte buffer of \<^verbatim>\<open>core/io/blob.h\<close>.
  Shown: \<open>hex2bin\<close> inverts \<open>bin2hex\<close>, \<open>hex2bin\<close> accepts exactly the hexadecimal strings and
  always yields half as many bytes (rounded up), \<open>hex2dec\<close> inverts \<open>dec2hex\<close>, and the bounds
  check of \<open>blob::set\<close> lets no write through.
\<close>

section \<open>Operations\<close>

definition hex_lut :: string where
  "hex_lut = ''0123456789ABCDEF''"

definition bin2hex_byte :: "char \<Rightarrow> string" where
  "bin2hex_byte c = [hex_lut ! drop_bit 4 (of_char c), hex_lut ! (of_char c AND 15)]"

definition bin2hex :: "string \<Rightarrow> string" where
  "bin2hex input = concat (map bin2hex_byte input)"

text \<open>A plain \<^verbatim>\<open>char\<close> is signed.\<close>

definition schar :: "char \<Rightarrow> int" where
  "schar c = (if of_char c < (128::nat) then int (of_char c) else int (of_char c) - 256)"

definition hex2nibble :: "char \<Rightarrow> nat throws" where
  "hex2nibble c =
     (if schar CHR ''0'' \<le> schar c \<and> schar c \<le> schar CHR ''9'' then
        return (nat (schar c - schar CHR ''0''))
      else if schar CHR ''A'' \<le> schar c \<and> schar c \<le> schar CHR ''F'' then
        return (nat (schar c - schar CHR ''A'' + 10))
      else if schar CHR ''a'' \<le> schar c \<and> schar c \<le> schar CHR ''f'' then
        return (nat (schar c - schar CHR ''a'' + 10))
      else throw (Invalid_argument (int_to_string (schar c) @ ''not a hex digit!'')))"

text \<open>The loop over pairs of nibbles.\<close>

fun hex2bin_pairs :: "string \<Rightarrow> string throws" where
  "hex2bin_pairs (a # b # s) =
     (case hex2nibble a of Inl e \<Rightarrow> throw e
      | Inr n1 \<Rightarrow> (case hex2nibble b of Inl e \<Rightarrow> throw e
      | Inr n2 \<Rightarrow> (case hex2bin_pairs s of Inl e \<Rightarrow> throw e
      | Inr out \<Rightarrow> return (char_of (push_bit 4 n1 OR n2) # out))))"
| "hex2bin_pairs _ = return []"

definition hex2bin :: "string \<Rightarrow> string throws" where
  "hex2bin input =
     (if length input = 0 then return []
      else if odd (length input) then
        (case hex2nibble (hd input) of Inl e \<Rightarrow> throw e
         | Inr n \<Rightarrow> (case hex2bin_pairs (tl input) of Inl e \<Rightarrow> throw e
         | Inr out \<Rightarrow> return (char_of n # out)))
      else hex2bin_pairs input)"

definition dec2hex :: "nat \<Rightarrow> string" where
  "dec2hex n =
     (let s = print_base 16 n in if odd (length s) then CHR ''0'' # s else s)"

text \<open>
  Extraction of an unsigned 32 bit number from a stream in \<^verbatim>\<open>std::hex\<close> mode: white space, an
  optional sign, an optional \<open>0x\<close>, digits; no digit gives 0 and overflow gives the maximum.
\<close>

definition is_space :: "char \<Rightarrow> bool" where
  "is_space c = (of_char c \<in> {32, 9, 10, 11, 12, 13 :: nat})"

definition hex_digit_value :: "char \<Rightarrow> nat option" where
  "hex_digit_value c = (case hex2nibble c of Inl _ \<Rightarrow> None | Inr n \<Rightarrow> Some n)"

fun strip_0x :: "string \<Rightarrow> string" where
  "strip_0x (z # x # s) = (if z = CHR ''0'' \<and> (x = CHR ''x'' \<or> x = CHR ''X'') then s else z # x # s)"
| "strip_0x s = s"

definition hex2dec :: "string \<Rightarrow> nat" where
  "hex2dec hex =
     (let s = dropWhile is_space hex;
          neg = (s \<noteq> [] \<and> hd s = CHR ''-'');
          s = (if s \<noteq> [] \<and> (hd s = CHR ''-'' \<or> hd s = CHR ''+'') then tl s else s);
          ds = takeWhile (\<lambda>c. hex_digit_value c \<noteq> None) (strip_0x s);
          v = digits_value 16 (\<lambda>c. the (hex_digit_value c)) ds
      in if ds = [] then 0
         else if v > 2 ^ 32 - 1 then 2 ^ 32 - 1
         else if neg then (2 ^ 32 - v) mod 2 ^ 32 else v)"

definition zero_padded :: "int \<Rightarrow> nat \<Rightarrow> string" where
  "zero_padded num width =
     (let s = int_to_string num in replicate (width - length s) (CHR ''0'') @ s)"

subsection \<open>The blob buffer\<close>

text \<open>
  \<^verbatim>\<open>CHECK_GT(key, buffer.size())\<close> aborts the process unless the comparison holds; the write
  \<^verbatim>\<open>buffer[key]\<close> and the read in \<open>get\<close> are unchecked.
\<close>

datatype check_failure = Check_failed

definition blob_new :: "nat \<Rightarrow> string" where
  "blob_new sz = replicate sz (char_of (0::nat))"

definition blob_set :: "string \<Rightarrow> nat \<Rightarrow> int \<Rightarrow> (check_failure + string) option" where
  "blob_set buffer key v =
     (if \<not> key > length buffer then Some (Inl Check_failed)
      else map_option Inr (vec_set buffer key (char_of v)))"

definition blob_get :: "string \<Rightarrow> nat \<Rightarrow> char option" where
  "blob_get buffer key = vec_get buffer key"

definition blob_resize :: "string \<Rightarrow> nat \<Rightarrow> string" where
  "blob_resize buffer new_size =
     take new_size buffer @ replicate (new_size - length buffer) (char_of (0::nat))"

definition blob_tostring :: "string \<Rightarrow> string" where
  "blob_tostring buffer = bin2hex buffer"

section \<open>Hexadecimal text\<close>

definition is_hex_digit :: "char \<Rightarrow> bool" where
  "is_hex_digit c =
     (let n = of_char c :: nat
      in 48 \<le> n \<and> n \<le> 57 \<or> 65 \<le> n \<and> n \<le> 70 \<or> 97 \<le> n \<and> n \<le> 102)"

lemma of_char_le: "(of_char c :: nat) \<le> 255"
  using nat_of_char_less_256 [of c] by linarith

lemma char_eqI: "of_char c = (of_char d :: nat) \<Longrightarrow> c = d"
  by simp

lemma hex_lut_nth:
  assumes "n < 16"
  shows "hex_lut ! n = (if n < 10 then char_of (48 + n) else char_of (55 + n))"
proof -
  have "list_all (\<lambda>n. hex_lut ! n = (if n < 10 then char_of (48 + n) else char_of (55 + n))) [0..<16]"
    by code_simp
  with assms show ?thesis by (simp add: list_all_iff)
qed

lemma hex2nibble_lut [simp]: "n < 16 \<Longrightarrow> hex2nibble (hex_lut ! n) = return n"
  by (simp add: hex_lut_nth hex2nibble_def schar_def)

lemma hex2nibble_digit [simp]: "n < 16 \<Longrightarrow> hex2nibble (digit n) = return n"
  by (simp add: digit_def hex2nibble_def schar_def)

lemma hex2nibbleE:
  assumes "hex2nibble c = return n"
  obtains "of_char c = 48 + n" "n < 10" | "of_char c = 55 + n" "10 \<le> n" "n < 16"
    | "of_char c = 87 + n" "10 \<le> n" "n < 16"
  using assms of_char_le [of c]
  by (auto simp: hex2nibble_def schar_def split: if_splits)

lemma hex2nibble_bound: "hex2nibble c = return n \<Longrightarrow> n < 16"
  by (erule hex2nibbleE) simp_all

lemma hex2nibble_iff: "(\<exists>n. hex2nibble c = return n) \<longleftrightarrow> is_hex_digit c"
  using of_char_le [of c]
  by (auto simp: hex2nibble_def schar_def is_hex_digit_def Let_def split: if_splits)

lemma hi_nibble: "drop_bit 4 (n::nat) = n div 16"
  by (simp add: drop_bit_eq_div)

lemma lo_nibble: "(n::nat) AND 15 = n mod 16"
  using take_bit_eq_mask [of 4 n]
  by (simp add: mask_eq_exp_minus_1 take_bit_eq_mod)

lemma nibbles_combine:
  assumes "b < (16::nat)"
  shows "push_bit 4 a OR b = a * 16 + b"
proof -
  have b: "b = take_bit 4 b" using assms by (simp add: take_bit_eq_mod)
  have "push_bit 4 a AND take_bit 4 b = 0"
    by (rule bit_eqI) (auto simp: bit_simps)
  then have "push_bit 4 a + take_bit 4 b = push_bit 4 a OR take_bit 4 b"
    by (rule disjunctive_add_eq_or)
  with b show ?thesis by (simp add: push_bit_eq_mult)
qed

lemma hex2bin_pairs_bin2hex: "hex2bin_pairs (bin2hex s) = return s"
proof (induction s)
  case Nil
  then show ?case by (simp add: bin2hex_def)
next
  case (Cons c s)
  have "bin2hex (c # s) =
      hex_lut ! (of_char c div 16) # hex_lut ! (of_char c mod 16) # bin2hex s"
    by (simp add: bin2hex_def bin2hex_byte_def hi_nibble lo_nibble)
  moreover have "of_char c div 16 < (16::nat)"
    using nat_of_char_less_256 [of c] by (simp add: less_mult_imp_div_less)
  moreover have "(of_char c :: nat) div 16 * 16 + of_char c mod 16 = of_char c"
    by simp
  ultimately show ?case using Cons by (simp add: nibbles_combine)
qed

lemma length_bin2hex [simp]: "length (bin2hex s) = 2 * length s"
  by (induction s) (simp_all add: bin2hex_def bin2hex_byte_def)

text \<open>The upper-case letter of a hexadecimal digit.\<close>

definition to_upper :: "char \<Rightarrow> char" where
  "to_upper c = (if (97::nat) \<le> of_char c \<and> of_char c \<le> (122::nat) then char_of (of_char c - 32 :: nat) else c)"

lemma hex_lut_hex2nibble:
  assumes "hex2nibble c = return n"
  shows "hex_lut ! n = to_upper c"
  using assms by (cases rule: hex2nibbleE) (rule char_eqI, simp add: hex_lut_nth to_upper_def)+

text \<open>What an accepted input of \<open>hex2bin_pairs\<close> looks like, and its output.\<close>

lemma hex2bin_pairs_Cons2:
  "hex2bin_pairs (a # b # s) = return out \<longleftrightarrow>
     (\<exists>n1 n2 out'. hex2nibble a = return n1 \<and> hex2nibble b = return n2 \<and>
        hex2bin_pairs s = return out' \<and> out = char_of (push_bit 4 n1 OR n2) # out')"
  by (auto split: sum.splits)

lemma hex2bin_pairs_accepts:
  "even (length s) \<Longrightarrow> (\<exists>out. hex2bin_pairs s = return out) \<longleftrightarrow> list_all is_hex_digit s"
proof (induction "length s" arbitrary: s rule: less_induct)
  case less
  show ?case
  proof (cases s rule: hex2bin_pairs.cases)
    case (1 a b t)
    with less have "(\<exists>out. hex2bin_pairs t = return out) \<longleftrightarrow> list_all is_hex_digit t" by simp
    with 1 hex2nibble_iff [of a] hex2nibble_iff [of b] show ?thesis
      by (simp only: hex2bin_pairs_Cons2 list.pred_inject) blast
  qed (use less in auto)
qed

lemma hex2bin_pairs_bytes:
  "even (length s) \<Longrightarrow> hex2bin_pairs s = return out \<Longrightarrow> bin2hex out = map to_upper s"
proof (induction "length s" arbitrary: s out rule: less_induct)
  case less
  show ?case
  proof (cases s rule: hex2bin_pairs.cases)
    case (1 a b t)
    with less.prems obtain n1 n2 out' where n: "hex2nibble a = return n1" "hex2nibble b = return n2"
      and out': "hex2bin_pairs t = return out'"
      and out: "out = char_of (push_bit 4 n1 OR n2) # out'"
      by (auto simp only: hex2bin_pairs_Cons2)
    note lt = n [THEN hex2nibble_bound]
    have IH: "bin2hex out' = map to_upper t" using less 1 out' by simp
    have "(of_char (char_of (n1 * 16 + n2) :: char) :: nat) = n1 * 16 + n2" using lt by simp
    then have "bin2hex_byte (char_of (push_bit 4 n1 OR n2)) = [hex_lut ! n1, hex_lut ! n2]"
      using lt by (simp add: nibbles_combine bin2hex_byte_def hi_nibble lo_nibble)
    with IH n [THEN hex_lut_hex2nibble] 1 show ?thesis by (simp add: out bin2hex_def)
  qed (use less in \<open>auto simp: bin2hex_def\<close>)
qed

lemma hex2nibble_throws: "hex2nibble c = throw e \<Longrightarrow> \<exists>m. e = Invalid_argument m"
  by (auto simp: hex2nibble_def split: if_splits)

lemma hex2bin_pairs_throws: "hex2bin_pairs s = throw e \<Longrightarrow> \<exists>m. e = Invalid_argument m"
  by (induction s rule: hex2bin_pairs.induct) (auto split: sum.splits dest: hex2nibble_throws)

lemma hex2bin_odd:
  "odd (length s) \<Longrightarrow> hex2bin s = hex2bin_pairs (CHR ''0'' # s)"
  by (cases s) (auto simp: hex2bin_def hex2nibble_def schar_def split: sum.splits)

lemma digit_char:
  assumes "c \<in> digit ` {..<16}"
  shows "hex_digit_value c \<noteq> None" "\<not> is_space c" "c \<notin> {CHR ''-'', CHR ''+'', CHR ''x'', CHR ''X''}"
proof -
  from assms obtain d where d: "c = digit d" "d < 16" by auto
  then show "hex_digit_value c \<noteq> None" by (simp add: hex_digit_value_def)
  have n: "of_char c = (if d < 10 then 48 + d else 87 + d)" using d by (simp add: digit_def)
  with d(2) show "\<not> is_space c" by (auto simp: is_space_def)
  have "of_char c \<notin> {45, 43, 120, 88 :: nat}" using n d(2) by auto
  then show "c \<notin> {CHR ''-'', CHR ''+'', CHR ''x'', CHR ''X''}" by auto
qed

lemma hex2dec_digits:
  assumes "set s \<subseteq> digit ` {..<16}" and "s \<noteq> []"
  shows "hex2dec s = min (digits_value 16 (\<lambda>c. the (hex_digit_value c)) s) (2 ^ 32 - 1)"
proof -
  have dig: "c \<in> digit ` {..<16}" if "c \<in> set s" for c using that assms(1) by auto
  note dc = digit_char [OF dig]
  have "strip_0x s = s"
    using dc(3) by (cases s rule: strip_0x.cases) auto
  moreover have "takeWhile (\<lambda>c. hex_digit_value c \<noteq> None) s = s"
    using dc(1) by (auto simp: takeWhile_eq_all_conv)
  moreover have "dropWhile is_space s = s"
    using dc(2) assms(2) by (cases s) auto
  moreover have "hd s \<noteq> CHR ''-''" "hd s \<noteq> CHR ''+''"
    using dc(3) [of "hd s"] assms(2) by auto
  ultimately show ?thesis using assms(2)
    by (simp add: hex2dec_def Let_def min_def del: not_None_eq takeWhile_eq_all_conv)
qed

lemma dec2hex_digits: "set (dec2hex n) \<subseteq> digit ` {..<16}" "dec2hex n \<noteq> []"
proof -
  have "CHR ''0'' = digit 0" by (rule char_eqI) (simp add: digit_def)
  then show "set (dec2hex n) \<subseteq> digit ` {..<16}"
    using print_base_digits [of 16 n] by (auto simp: dec2hex_def Let_def)
  show "dec2hex n \<noteq> []" by (simp add: dec2hex_def Let_def)
qed

lemma digits_value_dec2hex: "digits_value 16 (\<lambda>c. the (hex_digit_value c)) (dec2hex n) = n"
proof -
  have "digits_value 16 (\<lambda>c. the (hex_digit_value c)) (print_base 16 n) = n"
    by (rule digits_value_print) (simp_all add: hex_digit_value_def)
  moreover have "the (hex_digit_value CHR ''0'') = 0"
    by (simp add: hex_digit_value_def hex2nibble_def schar_def)
  ultimately show ?thesis by (simp add: dec2hex_def Let_def digits_value_def)
qed

lemma even_length_dec2hex: "even (length (dec2hex n))"
  by (simp add: dec2hex_def Let_def)

lemma dec2hex_hex_digits: "list_all is_hex_digit (dec2hex n)"
  using dec2hex_digits(1) [of n] hex2nibble_iff hex2nibble_digit by (fastforce simp: list_all_iff)

section \<open>Properties\<close>

text \<open>
  Round trip of the byte-to-hexadecimal conversion: decoding what \<open>bin2hex\<close> prints
  for any byte string gives exactly that string back, and never raises.
\<close>

theorem hex2bin_bin2hex: "hex2bin (bin2hex s) = return s"
proof (cases s)
  case Nil
  then show ?thesis by (simp add: hex2bin_def bin2hex_def)
next
  case (Cons c t)
  then have "length (bin2hex s) \<noteq> 0" by simp
  then show ?thesis by (simp add: hex2bin_def hex2bin_pairs_bin2hex)
qed

text \<open>
  \<open>hex2bin\<close> raises exactly on the inputs that hold a non-hexadecimal character. Otherwise it
  returns, and printing its result again gives the input in upper case, with a leading zero where
  the input had an odd number of digits (so the result has half as many bytes, rounded up).
\<close>

theorem hex2bin_complete:
  "if list_all is_hex_digit s
   then \<exists>out. hex2bin s = return out \<and>
          bin2hex out = (if odd (length s) then ''0'' else []) @ map to_upper s
   else \<exists>m. hex2bin s = throw (Invalid_argument m)"
proof -
  define t where "t = (if odd (length s) then CHR ''0'' # s else s)"
  have ev: "even (length t)" by (simp add: t_def)
  have eq: "hex2bin s = hex2bin_pairs t"
    by (auto simp: t_def hex2bin_odd) (auto simp: hex2bin_def)
  have hex: "list_all is_hex_digit t \<longleftrightarrow> list_all is_hex_digit s"
    by (simp add: t_def is_hex_digit_def)
  have upper: "map to_upper t = (if odd (length s) then ''0'' else []) @ map to_upper s"
    by (simp add: t_def to_upper_def)
  show ?thesis
  proof (cases "list_all is_hex_digit s")
    case True
    with hex2bin_pairs_accepts [OF ev] hex obtain out where "hex2bin_pairs t = return out" by auto
    with hex2bin_pairs_bytes [OF ev this] True show ?thesis by (simp add: eq upper)
  next
    case False
    with hex2bin_pairs_accepts [OF ev] hex have "\<nexists>out. hex2bin_pairs t = return out" by auto
    with hex2bin_pairs_throws show ?thesis using False by (metis eq sum.exhaust)
  qed
qed

text \<open>
  Reading back the hexadecimal text that \<open>dec2hex\<close> prints for a 32 bit number gives the number,
  and that text always has an even number of digits.
\<close>

theorem hex2dec_dec2hex:
  assumes "n < 2 ^ 32"
  shows "hex2dec (dec2hex n) = n \<and> even (length (dec2hex n))"
  using assms hex2dec_digits [OF dec2hex_digits] even_length_dec2hex
  by (simp add: digits_value_dec2hex)

theorem hex2dec_dec2hex_witness: "hex2dec (dec2hex 5000) = 5000"
  using hex2dec_dec2hex [of 5000] by simp

text \<open>
  \<open>blob::set\<close> never writes: its check demands \<^verbatim>\<open>key > size\<close>, so every key inside the buffer
  aborts the process and every key that passes the check is out of range.
\<close>

theorem blob_set_never_writes: "blob_set buffer key v \<noteq> Some (Inr buffer')"
  by (simp add: blob_set_def vec_set_def)

end
