(* ===== verification/Status.thy ===== *)
theory Status
  imports Prelude
begin

text \<open>
  The status values of \<^verbatim>\<open>core/common/status.h\<close> and \<^verbatim>\<open>status.cc\<close>, with their printing. Shown: the printed form determines the status.
\<close>

section \<open>Data and operations\<close>

datatype status_code =
    OK | CANCELLED | UNKNOWN | INVALID_ARGUMENT | DEADLINE_EXCEEDED | NOT_FOUND | ALREADY_EXISTS
  | PERMISSION_DENIED | UNAUTHENTICATED | RESOURCE_EXHAUSTED | FAILED_PRECONDITION | ABORTED
  | OUT_OF_RANGE | UNIMPLEMENTED | INTERNAL | UNAVAILABLE | DATA_LOSS

record status =
  code :: status_code
  msg :: string

definition is_ok :: "status \<Rightarrow> bool" where
  "is_ok s = (code s = OK)"

abbreviation status_ok :: status where
  "status_ok \<equiv> \<lparr>code = OK, msg = []\<rparr>"

definition status_ok_msg :: "string \<Rightarrow> status" where
  "status_ok_msg m = \<lparr>code = OK, msg = m\<rparr>"

definition status_canceled :: "string \<Rightarrow> status" where
  "status_canceled m = \<lparr>code = CANCELLED, msg = m\<rparr>"

definition status_invalid_argument :: "string \<Rightarrow> status" where
  "status_invalid_argument m = \<lparr>code = INVALID_ARGUMENT, msg = m\<rparr>"

definition status_unknown :: "string \<Rightarrow> status" where
  "status_unknown m = \<lparr>code = UNKNOWN, msg = m\<rparr>"

definition status_not_found :: "string \<Rightarrow> status" where
  "status_not_found m = \<lparr>code = NOT_FOUND, msg = m\<rparr>"

definition status_permission_denied :: "string \<Rightarrow> status" where
  "status_permission_denied m = \<lparr>code = PERMISSION_DENIED, msg = m\<rparr>"

definition status_resource_exhausted :: "string \<Rightarrow> status" where
  "status_resource_exhausted m = \<lparr>code = RESOURCE_EXHAUSTED, msg = m\<rparr>"

definition status_failed_precondition :: "string \<Rightarrow> status" where
  "status_failed_precondition m = \<lparr>code = FAILED_PRECONDITION, msg = m\<rparr>"

definition status_aborted :: "string \<Rightarrow> status" where
  "status_aborted m = \<lparr>code = ABORTED, msg = m\<rparr>"

definition status_out_of_range :: "string \<Rightarrow> status" where
  "status_out_of_range m = \<lparr>code = OUT_OF_RANGE, msg = m\<rparr>"

definition status_unimplemented :: "string \<Rightarrow> status" where
  "status_unimplemented m = \<lparr>code = UNIMPLEMENTED, msg = m\<rparr>"

definition status_internal :: "string \<Rightarrow> status" where
  "status_internal m = \<lparr>code = INTERNAL, msg = m\<rparr>"

definition status_unavailable :: "string \<Rightarrow> status" where
  "status_unavailable m = \<lparr>code = UNAVAILABLE, msg = m\<rparr>"

definition status_data_loss :: "string \<Rightarrow> status" where
  "status_data_loss m = \<lparr>code = DATA_LOSS, msg = m\<rparr>"

fun code_name :: "status_code \<Rightarrow> string" where
  "code_name OK = ''OK''"
| "code_name CANCELLED = ''CANCELLED''"
| "code_name UNKNOWN = ''UNKNOWN''"
| "code_name INVALID_ARGUMENT = ''INVALID_ARGUMENT''"
| "code_name DEADLINE_EXCEEDED = ''DEADLINE_EXCEEDED''"
| "code_name NOT_FOUND = ''NOT_FOUND''"
| "code_name ALREADY_EXISTS = ''ALREADY_EXISTS''"
| "code_name PERMISSION_DENIED = ''PERMISSION_DENIED''"
| "code_name UNAUTHENTICATED = ''UNAUTHENTICATED''"
| "code_name RESOURCE_EXHAUSTED = ''RESOURCE_EXHAUSTED''"
| "code_name FAILED_PRECONDITION = ''FAILED_PRECONDITION''"
| "code_name ABORTED = ''ABORTED''"
| "code_name OUT_OF_RANGE = ''OUT_OF_RANGE''"
| "code_name UNIMPLEMENTED = ''UNIMPLEMENTED''"
| "code_name INTERNAL = ''INTERNAL''"
| "code_name UNAVAILABLE = ''UNAVAILABLE''"
| "code_name DATA_LOSS = ''DATA_LOSS''"

definition status_to_string :: "status \<Rightarrow> string" where
  "status_to_string s = code_name (code s) @ (if msg s \<noteq> [] then '': '' @ msg s else [])"

section \<open>Properties\<close>

lemma code_name_no_colon: "CHR '':'' \<notin> set (code_name c)"
  by (cases c) simp_all

lemma code_name_inject: "code_name a = code_name b \<Longrightarrow> a = b"
  by (cases a; cases b; simp)

text \<open>Where a text without the separator is followed by one, the two parts are determined.\<close>

lemma append_sep_eq:
  assumes "c \<notin> set xs" and "c \<notin> set ys" and "xs @ c # us = ys @ c # vs"
  shows "xs = ys \<and> us = vs"
  using assms
proof (induction xs arbitrary: ys)
  case Nil
  then show ?case by (cases ys) auto
next
  case (Cons x xs)
  then show ?case by (cases ys) auto
qed

text \<open>
  The printed form of a status loses nothing: two statuses that print the same have the same
  code and the same message.
\<close>

theorem status_to_string_inject:
  assumes "status_to_string s = status_to_string t"
  shows "code s = code t \<and> msg s = msg t"
proof -
  have split: "status_to_string s = code_name (code s) \<or>
      status_to_string s = code_name (code s) @ CHR '':'' # CHR '' '' # msg s" for s
    by (simp add: status_to_string_def)
  have colon: "CHR '':'' \<in> set (status_to_string s) \<longleftrightarrow> msg s \<noteq> []" for s
    by (simp add: status_to_string_def code_name_no_colon)
  show ?thesis
  proof (cases "msg s = []")
    case True
    with colon assms have "msg t = []" by metis
    with True assms show ?thesis by (auto simp: status_to_string_def dest: code_name_inject)
  next
    case False
    with colon assms have "msg t \<noteq> []" by metis
    with False assms have "code_name (code s) @ CHR '':'' # CHR '' '' # msg s =
        code_name (code t) @ CHR '':'' # CHR '' '' # msg t"
      by (simp add: status_to_string_def)
    from append_sep_eq [OF code_name_no_colon code_name_no_colon this] show ?thesis
      by (auto dest: code_name_inject)
  qed
qed

theorem status_to_string_inject_witness:
  "status_to_string (status_internal ''x'') = status_to_string \<lparr>code = INTERNAL, msg = ''x''\<rparr> \<and>
   code (status_internal ''x'') = INTERNAL \<and> msg (status_internal ''x'') = ''x''"
  using status_to_string_inject [of "status_internal ''x''" "\<lparr>code = INTERNAL, msg = ''x''\<rparr>"]
  by (simp add: status_internal_def)

end
