(* ===== verification/Trie_Links.thy ===== *)
theory Trie_Links
  imports Prelude
begin

text \<open>
  The link structure of the prefix tries of \<^verbatim>\<open>core/state\<close>, on its own: a set of live node
  indices with a parent, an edge label (the \<^verbatim>\<open>prefix\<close> of a node) and a child for every byte, 0
  standing for no child as in the sources. A node is identified by the concatenation of the labels
  on the way from the root, its path. Shown: the path determines the node, and how adding a leaf,
  splitting an edge, removing a leaf and merging a node into its only child keep the structure and
  the paths of all other nodes.
\<close>

section \<open>Well-formed links\<close>

definition links ::
  "(nat \<Rightarrow> nat) \<Rightarrow> (nat \<Rightarrow> string) \<Rightarrow> (nat \<Rightarrow> char \<Rightarrow> nat) \<Rightarrow> nat set \<Rightarrow> (nat \<Rightarrow> string) \<Rightarrow> bool"
  where
  "links par pre ch L p \<longleftrightarrow>
     finite L \<and> 0 \<in> L \<and> pre 0 = [] \<and> p 0 = [] \<and>
     (\<forall>i\<in>L. \<forall>c. ch i c \<noteq> 0 \<longrightarrow>
        ch i c \<in> L \<and> par (ch i c) = i \<and> pre (ch i c) \<noteq> [] \<and> hd (pre (ch i c)) = c) \<and>
     (\<forall>j\<in>L. j \<noteq> 0 \<longrightarrow>
        pre j \<noteq> [] \<and> par j \<in> L \<and> ch (par j) (hd (pre j)) = j \<and> p j = p (par j) @ pre j)"

lemma links_root: "links par pre ch L p \<Longrightarrow> finite L \<and> 0 \<in> L \<and> pre 0 = [] \<and> p 0 = []"
  by (simp add: links_def)

lemma links_child:
  assumes "links par pre ch L p" and "i \<in> L" and "ch i c \<noteq> 0"
  shows "ch i c \<in> L \<and> par (ch i c) = i \<and> pre (ch i c) \<noteq> [] \<and> hd (pre (ch i c)) = c \<and>
         p (ch i c) = p i @ pre (ch i c)"
  using assms unfolding links_def by metis

lemma links_parent:
  assumes "links par pre ch L p" and "j \<in> L" and "j \<noteq> 0"
  shows "pre j \<noteq> [] \<and> par j \<in> L \<and> ch (par j) (hd (pre j)) = j \<and> p j = p (par j) @ pre j"
  using assms unfolding links_def by metis

lemma links_parent_prefix:
  assumes "links par pre ch L p" and "j \<in> L" and "j \<noteq> 0"
  shows "prefix (p (par j)) (p j)"
  using links_parent [OF assms] by (metis prefixI)

lemma links_path_Nil:
  assumes "links par pre ch L p" and "j \<in> L" and "p j = []"
  shows "j = 0"
  using links_parent [OF assms(1,2)] assms(3) by fastforce

text \<open>The next byte of a longer path leads to a child on that path; equal paths, equal nodes.\<close>

lemma links_descend_unique:
  assumes l: "links par pre ch L p"
  shows "(\<forall>a\<in>L. \<forall>i\<in>L. \<forall>c r. length (p i) \<le> n \<and> p i = p a @ c # r \<longrightarrow>
            ch a c \<noteq> 0 \<and> prefix (p (ch a c)) (p i)) \<and>
         (\<forall>i\<in>L. \<forall>j\<in>L. length (p i) \<le> n \<and> p i = p j \<longrightarrow> i = j)"
proof (induction n rule: less_induct)
  case (less n)
  have E: "ch a c \<noteq> 0 \<and> prefix (p (ch a c)) (p i)"
    if "a \<in> L" "i \<in> L" "length (p i) < n" "p i = p a @ c # r" for a i c r
    using less that by blast
  have U: "i = j" if "i \<in> L" "j \<in> L" "length (p i) < n" "p i = p j" for i j
    using less that by blast
  have 1: "ch a c \<noteq> 0 \<and> prefix (p (ch a c)) (p i)"
    if a: "a \<in> L" and i: "i \<in> L" and n: "length (p i) \<le> n" and pi: "p i = p a @ c # r" for a i c r
  proof -
    have "i \<noteq> 0" using links_root [OF l] pi by (metis append_is_Nil_conv list.discI)
    note pa = links_parent [OF l i this]
    let ?b = "par i"
    have shorter: "length (p ?b) < length (p i)" using pa by simp
    have "prefix (p a) (p i)" using pi by simp
    moreover have "prefix (p ?b) (p i)" by (rule links_parent_prefix [OF l i \<open>i \<noteq> 0\<close>])
    ultimately consider "p ?b = p a" | "strict_prefix (p a) (p ?b)" | "strict_prefix (p ?b) (p a)"
      using prefix_total prefix_order.le_less by metis
    then show ?thesis
    proof cases
      case 1
      have "length (p ?b) < n" using shorter n by simp
      then have "?b = a" using U [of ?b a] pa a 1 by blast
      moreover have "c = hd (pre i)" using pi pa 1 by (metis hd_append2 list.sel(1) same_append_eq)
      ultimately have "ch a c = i" using pa by simp
      then show ?thesis using \<open>i \<noteq> 0\<close> by simp
    next
      case 2
      then obtain d s where d: "p ?b = p a @ d # s" using strict_prefix_split by blast
      have "length (p ?b) < n" using shorter n by simp
      then have "ch a d \<noteq> 0 \<and> prefix (p (ch a d)) (p ?b)"
        using E [of a ?b d s] pa a d by blast
      moreover have "d = c" using d pi pa by simp
      moreover have "prefix (p ?b) (p i)" by (rule links_parent_prefix [OF l i \<open>i \<noteq> 0\<close>])
      ultimately show ?thesis by (metis prefix_order.trans)
    next
      case 3
      then obtain d s where d: "p a = p ?b @ d # s" using strict_prefix_split by blast
      moreover have "length (p a) < n" using pi n by simp
      ultimately have *: "ch ?b d \<noteq> 0 \<and> prefix (p (ch ?b d)) (p a)"
        using E [of ?b a d s] pa a by simp
      have "d # s @ c # r = pre i" using d pi pa by simp
      then have "d = hd (pre i)" by (metis list.sel(1))
      then have "prefix (p i) (p a)" using * pa by simp
      then show ?thesis using pi by (simp add: prefix_def)
    qed
  qed
  have 2: "i = j" if i: "i \<in> L" and j: "j \<in> L" and n: "length (p i) \<le> n" and eq: "p i = p j" for i j
  proof (cases "i = 0 \<or> j = 0")
    case True
    then show ?thesis using links_path_Nil [OF l] links_root [OF l] i j eq by metis
  next
    case False
    then have i0: "i \<noteq> 0" and j0: "j \<noteq> 0" by auto
    note pi = links_parent [OF l i i0] and pj = links_parent [OF l j j0]
    have step: False if "u \<in> L" "v \<in> L" "u \<noteq> 0" "v \<noteq> 0" "p u = p v" "length (p u) \<le> n"
      "strict_prefix (p (par u)) (p (par v))" for u v
    proof -
      note pu = links_parent [OF l that(1,3)] and pv = links_parent [OF l that(2,4)]
      from that(7) obtain d s where d: "p (par v) = p (par u) @ d # s"
        using strict_prefix_split by blast
      have "d # s @ pre v = pre u" using d pu pv that(5) by simp
      then have "d = hd (pre u)" by (metis list.sel(1))
      moreover have "length (p (par v)) < length (p v)" using pv by simp
      then have lt: "length (p (par v)) < n" using that(5,6) by simp
      ultimately have "prefix (p u) (p (par v))" using E [OF _ _ lt d] pu pv by simp
      then show False using pv that(5) by (simp add: prefix_def)
    qed
    have "prefix (p (par i)) (p i)" "prefix (p (par j)) (p i)"
      using links_parent_prefix [OF l i] links_parent_prefix [OF l j] False eq by simp_all
    then have "p (par i) = p (par j)"
      using step [of i j] step [of j i] i j False eq n prefix_total prefix_order.le_less by metis
    moreover have "length (p (par i)) < length (p i)" using pi by simp
    then have "length (p (par i)) < n" using n by simp
    ultimately have parents: "par i = par j" using U [of "par i" "par j"] pi pj by simp
    then have "p (par i) @ pre i = p (par i) @ pre j" using pi pj eq by metis
    then have "pre i = pre j" by simp
    with parents show ?thesis using pi pj by metis
  qed
  from 1 2 show ?case by blast
qed

lemma links_descend:
  assumes "links par pre ch L p" and "a \<in> L" and "i \<in> L" and "p i = p a @ c # r"
  shows "ch a c \<noteq> 0 \<and> prefix (p (ch a c)) (p i)"
  using links_descend_unique [OF assms(1)] assms(2-4) by blast

lemma links_unique:
  assumes "links par pre ch L p" and "i \<in> L" and "j \<in> L" and "p i = p j"
  shows "i = j"
  using links_descend_unique [OF assms(1)] assms(2-4) by blast

text \<open>No node lies strictly inside an edge.\<close>

lemma links_enter:
  assumes l: "links par pre ch L p" and i: "i \<in> L" "i \<noteq> 0" and j: "j \<in> L"
    and pj: "prefix (p (par i) @ [hd (pre i)]) (p j)"
  shows "prefix (p i) (p j)"
proof -
  note pi = links_parent [OF l i]
  from pj obtain r where "p j = p (par i) @ hd (pre i) # r" by (auto simp: prefix_def)
  with links_descend [OF l _ j] pi show ?thesis by metis
qed

text \<open>Nodes whose path is a prefix of a node's path are its ancestors.\<close>

lemma links_ancestor_cases:
  assumes l: "links par pre ch L p" and i: "i \<in> L" and j: "j \<in> L" "j \<noteq> 0" and "prefix (p i) (p j)"
  shows "i = j \<or> prefix (p i) (p (par j))"
proof (cases "p i = p j")
  case True
  then show ?thesis using links_unique [OF l i j(1)] by simp
next
  case False
  note pj = links_parent [OF l j]
  show ?thesis
  proof (rule ccontr)
    assume n: "\<not> ?thesis"
    have "prefix (p (par j)) (p j)" by (rule links_parent_prefix [OF l j])
    with assms(5) n have "strict_prefix (p (par j)) (p i)" using prefix_total by metis
    then obtain d s where d: "p i = p (par j) @ d # s" using strict_prefix_split by blast
    with assms(5) pj have "d = hd (pre j)"
      by (metis append_Cons hd_append2 list.sel(1) prefixE same_append_eq append_assoc)
    with links_descend [OF l _ i d] pj have "prefix (p j) (p i)" by simp
    with assms(5) False show False by (simp add: prefix_order.antisym)
  qed
qed

section \<open>Changing the links\<close>

lemma linksI:
  assumes "finite L" and "0 \<in> L" and "pre 0 = []" and "p 0 = []"
    and "\<And>i c. i \<in> L \<Longrightarrow> ch i c \<noteq> 0 \<Longrightarrow>
           ch i c \<in> L \<and> par (ch i c) = i \<and> pre (ch i c) \<noteq> [] \<and> hd (pre (ch i c)) = c"
    and "\<And>j. j \<in> L \<Longrightarrow> j \<noteq> 0 \<Longrightarrow>
           pre j \<noteq> [] \<and> par j \<in> L \<and> ch (par j) (hd (pre j)) = j \<and> p j = p (par j) @ pre j"
  shows "links par pre ch L p"
  using assms unfolding links_def by blast

lemma links_child_inj:
  assumes l: "links par pre ch L p" and "i \<in> L" "j \<in> L" "ch i c \<noteq> 0" "ch i c = ch j d"
  shows "i = j \<and> c = d"
proof -
  have "par (ch i c) = i" "hd (pre (ch i c)) = c" using links_child [OF l] assms(2,4) by auto
  moreover have "par (ch j d) = j" "hd (pre (ch j d)) = d"
    using links_child [OF l] assms(3,4,5) by auto
  ultimately show ?thesis using assms(5) by metis
qed

lemma links_cong:
  assumes l: "links par pre ch L p"
    and "\<And>i. i \<in> L \<Longrightarrow> par' i = par i \<and> pre' i = pre i \<and> ch' i = ch i \<and> p' i = p i"
  shows "links par' pre' ch' L p'"
proof (rule linksI)
  fix i c assume "i \<in> L" "ch' i c \<noteq> 0"
  then show "ch' i c \<in> L \<and> par' (ch' i c) = i \<and> pre' (ch' i c) \<noteq> [] \<and> hd (pre' (ch' i c)) = c"
    using links_child [OF l, of i c] assms(2) by simp
next
  fix j assume "j \<in> L" "j \<noteq> 0"
  then show "pre' j \<noteq> [] \<and> par' j \<in> L \<and> ch' (par' j) (hd (pre' j)) = j \<and> p' j = p' (par' j) @ pre' j"
    using links_parent [OF l, of j] assms(2) by simp
qed (use links_root [OF l] assms(2) in auto)

text \<open>A new leaf under \<open>i\<close>.\<close>

lemma links_add_leaf:
  assumes l: "links par pre ch L p" and i: "i \<in> L" and c: "ch i c = 0" and n: "n \<notin> L"
    and par': "\<And>j. j \<in> L \<Longrightarrow> par' j = par j" "par' n = i"
    and pre': "\<And>j. j \<in> L \<Longrightarrow> pre' j = pre j" "pre' n = c # w"
    and ch': "\<And>j. j \<in> L \<Longrightarrow> j \<noteq> i \<Longrightarrow> ch' j = ch j" "ch' i = (ch i)(c := n)" "ch' n = (\<lambda>_. 0)"
  shows "links par' pre' ch' (insert n L) (p(n := p i @ c # w))"
proof (rule linksI)
  have n0: "n \<noteq> 0" using n links_root [OF l] by metis
  show "pre' 0 = []" "(p(n := p i @ c # w)) 0 = []"
    using links_root [OF l] pre' n0 by auto
  fix a d assume a: "a \<in> insert n L" "ch' a d \<noteq> 0"
  then have aL: "a \<in> L" using ch' by auto
  show "ch' a d \<in> insert n L \<and> par' (ch' a d) = a \<and> pre' (ch' a d) \<noteq> [] \<and> hd (pre' (ch' a d)) = d"
  proof (cases "a = i \<and> d = c")
    case True
    then show ?thesis using ch' par' pre' by simp
  next
    case False
    then have "ch' a d = ch a d" using ch' aL by (cases "a = i") auto
    then show ?thesis using links_child [OF l aL, of d] a par' pre' by simp
  qed
next
  fix j assume j: "j \<in> insert n L" "j \<noteq> 0"
  show "pre' j \<noteq> [] \<and> par' j \<in> insert n L \<and> ch' (par' j) (hd (pre' j)) = j \<and>
      (p(n := p i @ c # w)) j = (p(n := p i @ c # w)) (par' j) @ pre' j"
  proof (cases "j = n")
    case True
    then show ?thesis using par' pre' ch' i n by auto
  next
    case False
    with j have jL: "j \<in> L" by simp
    note pj = links_parent [OF l jL j(2)]
    have ne: "\<not> (par j = i \<and> hd (pre j) = c)" using pj c j by auto
    have "ch' (par j) (hd (pre j)) = j"
      using ch' pj ne by (cases "par j = i") auto
    then show ?thesis using pj False n par' pre' jL by auto
  qed
qed (use links_root [OF l] in auto)

text \<open>A node \<open>s\<close> put into the edge that leads to \<open>j\<close>.\<close>

lemma links_split:
  assumes l: "links par pre ch L p" and j: "j \<in> L" "j \<noteq> 0" and s: "s \<notin> L"
    and uv: "pre j = u @ v" "u \<noteq> []" "v \<noteq> []"
    and par': "\<And>i. i \<in> L \<Longrightarrow> i \<noteq> j \<Longrightarrow> par' i = par i" "par' j = s" "par' s = par j"
    and pre': "\<And>i. i \<in> L \<Longrightarrow> i \<noteq> j \<Longrightarrow> pre' i = pre i" "pre' j = v" "pre' s = u"
    and ch': "\<And>i. i \<in> L \<Longrightarrow> i \<noteq> par j \<Longrightarrow> ch' i = ch i"
      "ch' (par j) = (ch (par j))(hd u := s)" "ch' s = (\<lambda>_. 0)(hd v := j)"
  shows "links par' pre' ch' (insert s L) (p(s := p (par j) @ u))"
proof (rule linksI)
  have s0: "s \<noteq> 0" using s links_root [OF l] by metis
  note pj = links_parent [OF l j]
  have hdu: "hd (pre j) = hd u" using uv by simp
  show "pre' 0 = []" "(p(s := p (par j) @ u)) 0 = []"
    using links_root [OF l] pre' s0 j by auto
  fix a d assume a: "a \<in> insert s L" "ch' a d \<noteq> 0"
  show "ch' a d \<in> insert s L \<and> par' (ch' a d) = a \<and> pre' (ch' a d) \<noteq> [] \<and> hd (pre' (ch' a d)) = d"
  proof (cases "a = s")
    case True
    then show ?thesis using a ch' par' pre' j uv by (auto split: if_splits)
  next
    case False
    with a have aL: "a \<in> L" by simp
    show ?thesis
    proof (cases "a = par j \<and> d = hd u")
      case True
      then show ?thesis using ch' par' pre' uv by simp
    next
      case f: False
      have eq: "ch' a d = ch a d" using ch' aL f by (cases "a = par j") auto
      have "ch a d \<noteq> j" using f links_child_inj [OF l aL, of "par j" d "hd (pre j)"] pj hdu j
        by auto
      then show ?thesis using links_child [OF l aL, of d] a eq par' pre' by simp
    qed
  qed
next
  fix i assume i: "i \<in> insert s L" "i \<noteq> 0"
  note pj = links_parent [OF l j]
  have hdu: "hd (pre j) = hd u" using uv by simp
  have parj: "par j \<noteq> s" using pj s by auto
  have ps: "(p(s := p (par j) @ u)) a = p a" if "a \<in> L" for a using that s by auto
  consider "i = s" | "i = j" | "i \<in> L" "i \<noteq> s" "i \<noteq> j" using i by blast
  then show "pre' i \<noteq> [] \<and> par' i \<in> insert s L \<and> ch' (par' i) (hd (pre' i)) = i \<and>
      (p(s := p (par j) @ u)) i = (p(s := p (par j) @ u)) (par' i) @ pre' i"
  proof cases
    case 1
    then show ?thesis using par' pre' ch' uv pj parj by simp
  next
    case 2
    then show ?thesis using par' pre' ch' uv pj parj ps [OF j(1)] by auto
  next
    case 3
    note pi = links_parent [OF l 3(1) i(2)]
    have "\<not> (par i = par j \<and> hd (pre i) = hd u)" using pi pj hdu 3 by metis
    then have "ch' (par i) (hd (pre i)) = i" using ch' pi by (cases "par i = par j") auto
    then show ?thesis using pi par' pre' 3 ps by simp
  qed
qed (use links_root [OF l] in auto)

text \<open>Cutting off the subtree at \<open>j\<close>; for a leaf that is \<open>j\<close> alone.\<close>

lemma links_cut:
  assumes l: "links par pre ch L p" and j: "j \<in> L" "j \<noteq> 0"
    and L': "L' = {i \<in> L. \<not> prefix (p j) (p i)}"
    and par': "\<And>i. i \<in> L' \<Longrightarrow> par' i = par i"
    and pre': "\<And>i. i \<in> L' \<Longrightarrow> pre' i = pre i"
    and ch': "\<And>i. i \<in> L' \<Longrightarrow> i \<noteq> par j \<Longrightarrow> ch' i = ch i"
      "ch' (par j) = (ch (par j))(hd (pre j) := 0)"
  shows "links par' pre' ch' L' p"
proof (rule linksI)
  note pj = links_parent [OF l j]
  have r: "0 \<in> L'" using links_root [OF l] pj by (auto simp: L')
  then show "finite L'" "0 \<in> L'" "pre' 0 = []" "p 0 = []"
    using links_root [OF l] pre' by (auto simp: L')
  fix a d assume a: "a \<in> L'" "ch' a d \<noteq> 0"
  then have aL: "a \<in> L" by (simp add: L')
  have ne: "\<not> (a = par j \<and> d = hd (pre j))" using a ch' by auto
  then have eq: "ch' a d = ch a d" using a ch' by (cases "a = par j") auto
  note c = links_child [OF l aL, of d]
  have "ch a d \<noteq> j" using ne c a eq by auto
  moreover have "\<not> prefix (p j) (p a)" using a by (simp add: L')
  ultimately have "\<not> prefix (p j) (p (ch a d))"
    using links_ancestor_cases [OF l j(1), of "ch a d"] c a eq by auto
  with c a eq have "ch a d \<in> L'" by (simp add: L')
  then show "ch' a d \<in> L' \<and> par' (ch' a d) = a \<and> pre' (ch' a d) \<noteq> [] \<and> hd (pre' (ch' a d)) = d"
    using c a eq par' pre' by simp
next
  fix i assume i: "i \<in> L'" "i \<noteq> 0"
  then have iL: "i \<in> L" by (simp add: L')
  note pi = links_parent [OF l iL i(2)]
  have "prefix (p (par i)) (p i)" by (rule links_parent_prefix [OF l iL i(2)])
  then have par_in: "par i \<in> L'" using i pi by (auto simp: L' dest: prefix_order.trans)
  have "i \<noteq> j" using i by (auto simp: L')
  then have "\<not> (par i = par j \<and> hd (pre i) = hd (pre j))"
    using pi links_parent [OF l j] by metis
  then have "ch' (par i) (hd (pre i)) = i" using ch' par_in pi by (cases "par i = par j") auto
  then show "pre' i \<noteq> [] \<and> par' i \<in> L' \<and> ch' (par' i) (hd (pre' i)) = i \<and> p i = p (par' i) @ pre' i"
    using pi par_in par' pre' i by simp
qed

text \<open>Merging a node \<open>m\<close> with its only child \<open>k\<close>.\<close>

lemma links_merge:
  assumes l: "links par pre ch L p" and m: "m \<in> L" "m \<noteq> 0"
    and k: "ch m c = k" "k \<noteq> 0" and only: "\<And>d. d \<noteq> c \<Longrightarrow> ch m d = 0"
    and par': "\<And>i. i \<in> L \<Longrightarrow> i \<noteq> k \<Longrightarrow> i \<noteq> m \<Longrightarrow> par' i = par i" "par' k = par m"
    and pre': "\<And>i. i \<in> L \<Longrightarrow> i \<noteq> k \<Longrightarrow> i \<noteq> m \<Longrightarrow> pre' i = pre i" "pre' k = pre m @ pre k"
    and ch': "\<And>i. i \<in> L \<Longrightarrow> i \<noteq> par m \<Longrightarrow> i \<noteq> m \<Longrightarrow> ch' i = ch i"
      "ch' (par m) = (ch (par m))(hd (pre m) := k)"
  shows "links par' pre' ch' (L - {m}) p"
proof (rule linksI)
  note pm = links_parent [OF l m] and ck = links_child [OF l m(1), of c]
  have kL: "k \<in> L" "k \<noteq> m" "p k = p m @ pre k" "par k = m" "pre k \<noteq> []"
    using ck k pm by auto
  have pm_ne: "par m \<noteq> m" using pm by (metis append_self_conv)
  have pm_nek: "par m \<noteq> k" using kL pm by (metis append_assoc append_is_Nil_conv append_self_conv)
  show "pre' 0 = []" using links_root [OF l] m k pre' by metis
  fix a d assume a: "a \<in> L - {m}" "ch' a d \<noteq> 0"
  show "ch' a d \<in> L - {m} \<and> par' (ch' a d) = a \<and> pre' (ch' a d) \<noteq> [] \<and> hd (pre' (ch' a d)) = d"
  proof (cases "a = par m \<and> d = hd (pre m)")
    case True
    then show ?thesis using ch' kL par' pre' pm by simp
  next
    case False
    then have eq: "ch' a d = ch a d" using a ch' by (cases "a = par m") auto
    note c = links_child [OF l, of a d]
    have "ch a d \<noteq> m" using False c a eq by auto
    moreover have "ch a d \<noteq> k" using links_child_inj [OF l, of a m d c] a k m eq by auto
    ultimately show ?thesis using c a eq par' pre' by auto
  qed
next
  note pm = links_parent [OF l m] and ck = links_child [OF l m(1), of c]
  have kL: "k \<in> L" "k \<noteq> m" "p k = p m @ pre k" "par k = m" "pre k \<noteq> []"
    using ck k pm by auto
  have pm_ne: "par m \<noteq> m" using pm by (metis append_self_conv)
  fix i assume i: "i \<in> L - {m}" "i \<noteq> 0"
  then have iL: "i \<in> L" "i \<noteq> m" by auto
  note pi = links_parent [OF l iL(1) i(2)]
  show "pre' i \<noteq> [] \<and> par' i \<in> L - {m} \<and> ch' (par' i) (hd (pre' i)) = i \<and> p i = p (par' i) @ pre' i"
  proof (cases "i = k")
    case True
    then show ?thesis using par' pre' ch' kL pm pm_ne by simp
  next
    case False
    have "par i \<noteq> m" using pi only k False i by metis
    moreover have "\<not> (par i = par m \<and> hd (pre i) = hd (pre m))" using pi pm iL by metis
    then have "ch' (par i) (hd (pre i)) = i"
      using ch' pi \<open>par i \<noteq> m\<close> by (cases "par i = par m") auto
    ultimately show ?thesis using pi par' pre' False iL by simp
  qed
qed (use links_root [OF l] m in auto)

end
