(* ===== verification/State_Impl.thy ===== *)
theory State_Impl
  imports Prelude Hex_IO Trie_Links
begin

text \<open>
  The in-memory Merkle trie of \<^verbatim>\<open>core/state/state_impl.h\<close> and \<^verbatim>\<open>state_impl.cc\<close>: its record, its
  nodes and every operation. \<open>None\<close> is a call that leaves the defined behaviour of the program (an
  access past the end of the node vector, a recursion that never ends, a \<^verbatim>\<open>substr\<close> out of range);
  \<open>Some (Inl e)\<close> is a call that throws \<open>e\<close>. The hash function is a parameter \<open>H\<close>: the digest of the
  bytes fed to \<^verbatim>\<open>hasher->update\<close> since \<^verbatim>\<open>hasher->restart\<close>. Node indices and string positions are
  unbounded: the casts to 32 bits of the source are the identity below \<open>2 ^ 31\<close> nodes and bytes.
\<close>

section \<open>State\<close>

type_synonym hash_function = "string \<Rightarrow> string"

record node =
  n_parent :: nat
  n_prefix :: string
  n_hash :: string
  n_value :: string
  n_children :: "char \<Rightarrow> nat"

record state_impl =
  nodes :: "node list"
  backup :: "(nat \<times> node) list"
  free_locations :: "nat set"
  nodes_current_state :: nat
  permanent_nodes_count :: nat

definition new_node :: node where
  "new_node = \<lparr>n_parent = 0, n_prefix = [], n_hash = [], n_value = [], n_children = (\<lambda>_. 0)\<rparr>"

definition upd_node :: "nat \<Rightarrow> (node \<Rightarrow> node) \<Rightarrow> state_impl \<Rightarrow> state_impl option" where
  "upd_node i f s = do {
     n \<leftarrow> vec_get (nodes s) i;
     Some (s\<lparr>nodes := (nodes s)[i := f n]\<rparr>) }"

text \<open>The first character of a \<^verbatim>\<open>std::string\<close>; of an empty one it is the terminating zero.\<close>

definition char0 :: "string \<Rightarrow> char" where
  "char0 s = (case s of [] \<Rightarrow> char_of (0::nat) | c # _ \<Rightarrow> c)"

text \<open>The bytes with a child, in increasing order: what the loops over \<^verbatim>\<open>children[256]\<close> visit.\<close>

definition child_bytes :: "node \<Rightarrow> char list" where
  "child_bytes n = filter (\<lambda>c. n_children n c \<noteq> 0) Enum.enum"

section \<open>Private operations\<close>

definition has_children :: "state_impl \<Rightarrow> nat \<Rightarrow> bool option" where
  "has_children s node_index = do {
     n \<leftarrow> vec_get (nodes s) node_index;
     Some (child_bytes n \<noteq> []) }"

function backup_nodes :: "state_impl \<Rightarrow> nat \<Rightarrow> state_impl option" where
  "backup_nodes s cur_node =
     (if cur_node < length (nodes s) then
        if map_of (backup s) cur_node = None then
          let s' = s\<lparr>backup := (cur_node, nodes s ! cur_node) # backup s\<rparr>
          in if cur_node \<noteq> 0 \<and> cur_node < permanent_nodes_count s
             then backup_nodes s' (n_parent (nodes s ! cur_node))
             else Some s'
        else Some s
      else None)"
  by pat_completeness auto
termination
proof (relation "measure (\<lambda>(s, i). card ({..<permanent_nodes_count s} - fst ` set (backup s)))")
  fix s :: state_impl and i s'
  assume "i < length (nodes s)" and none: "map_of (backup s) i = None"
    and s': "s' = s\<lparr>backup := (i, nodes s ! i) # backup s\<rparr>"
    and i: "i \<noteq> 0 \<and> i < permanent_nodes_count s"
  have "i \<notin> fst ` set (backup s)" using none by (simp add: map_of_eq_None_iff)
  with i have "{..<permanent_nodes_count s'} - fst ` set (backup s')
      \<subset> {..<permanent_nodes_count s} - fst ` set (backup s)"
    by (auto simp: s')
  then show "((s', n_parent (nodes s ! i)), s, i)
      \<in> measure (\<lambda>(s, i). card ({..<permanent_nodes_count s} - fst ` set (backup s)))"
    by (simp add: psubset_card_mono)
qed auto

declare backup_nodes.simps [simp del]

text \<open>The location of a new node: the end of the vector, or the first fragmented location.\<close>

definition take_location :: "state_impl \<Rightarrow> (state_impl \<times> nat) option" where
  "take_location s =
     (if free_locations s = {} then Some (s\<lparr>nodes := nodes s @ [new_node]\<rparr>, length (nodes s))
      else let location = Min (free_locations s) in do {
        s \<leftarrow> backup_nodes s location;
        ns \<leftarrow> vec_set (nodes s) location new_node;
        Some (s\<lparr>nodes := ns, free_locations := free_locations s - {location}\<rparr>, location) })"

definition add_node :: "state_impl \<Rightarrow> nat \<Rightarrow> char \<Rightarrow> (state_impl \<times> nat) option" where
  "add_node s from edge = do {
     (s, new_index) \<leftarrow> take_location s;
     s \<leftarrow> upd_node from (\<lambda>n. n\<lparr>n_children := (n_children n)(edge := new_index)\<rparr>) s;
     s \<leftarrow> upd_node new_index (\<lambda>n. n\<lparr>n_parent := from\<rparr>) s;
     s \<leftarrow> upd_node new_index (\<lambda>n. n\<lparr>n_prefix := [edge]\<rparr>) s;
     Some (s, new_index) }"

text \<open>The bytes hashed for a node: its value, its prefix and the hashes of its children in order.\<close>

definition hash_input :: "node list \<Rightarrow> node \<Rightarrow> string option" where
  "hash_input ns n = do {
     hs \<leftarrow> those (map (\<lambda>c. map_option n_hash (vec_get ns (n_children n c))) (child_bytes n));
     Some (n_value n @ n_prefix n @ concat hs) }"

partial_function (option) calculate_hash ::
  "hash_function \<Rightarrow> state_impl \<Rightarrow> nat \<Rightarrow> state_impl option" where
  "calculate_hash H s cur_node = do {
     n \<leftarrow> vec_get (nodes s) cur_node;
     if cur_node = 0 \<and> child_bytes n = [] then upd_node cur_node (\<lambda>n. n\<lparr>n_hash := []\<rparr>) s
     else do {
       input \<leftarrow> hash_input (nodes s) n;
       s \<leftarrow> upd_node cur_node (\<lambda>n. n\<lparr>n_hash := H input\<rparr>) s;
       (if cur_node \<noteq> 0 then calculate_hash H s (n_parent n) else Some s) } }"

declare calculate_hash.simps [code]

text \<open>
  Marking a subtrie free. The recursion visits the children in order; it ends exactly when no node
  is its own descendant, and then its depth is at most the number of nodes, which is the fuel the
  caller gives it.
\<close>

fun subtrie_mark_free :: "nat \<Rightarrow> node list \<Rightarrow> nat \<Rightarrow> nat set \<Rightarrow> nat set option" where
  "subtrie_mark_free 0 ns cur_node free = None"
| "subtrie_mark_free (Suc fuel) ns cur_node free = do {
     n \<leftarrow> vec_get ns cur_node;
     fold (\<lambda>c acc. do { free \<leftarrow> acc; subtrie_mark_free fuel ns (n_children n c) free })
       (child_bytes n) (Some (insert cur_node free)) }"

definition substr :: "string \<Rightarrow> nat \<Rightarrow> nat \<Rightarrow> string option" where
  "substr s pos len = (if pos \<le> length s then Some (take len (drop pos s)) else None)"

text \<open>The loop of \<open>get_node_index\<close>; \<open>i - 1\<close> wraps around at 0 and is then out of range.\<close>

function get_node_index_loop :: "node list \<Rightarrow> string \<Rightarrow> nat \<Rightarrow> nat \<Rightarrow> bool \<Rightarrow> int option" where
  "get_node_index_loop ns path cur_node i key_ended_at_edge =
     (if i < length path then do {
        n \<leftarrow> vec_get ns cur_node;
        if length (n_prefix n) \<le> 1 then
          (if n_children n (path ! i) = 0 then Some (- 1)
           else get_node_index_loop ns path (n_children n (path ! i)) (Suc i) True)
        else if length (n_prefix n) - 1 < length path - i then do {
          sub \<leftarrow> (if i = 0 then None else substr path (i - 1) (length (n_prefix n)));
          if n_prefix n = sub then
            let i' = i + (length (n_prefix n) - 1) in
            (if n_children n (path ! i') \<noteq> 0
             then get_node_index_loop ns path (n_children n (path ! i')) (Suc i') True
             else Some (- 1))
          else Some (- 1) }
        else if length (n_prefix n) - 1 = length path - i then do {
          sub \<leftarrow> (if i = 0 then None else substr path (i - 1) (length path));
          (if n_prefix n = sub then Some (int cur_node) else Some (- 1)) }
        else Some (- 1) }
      else if key_ended_at_edge then do {
        n \<leftarrow> vec_get ns cur_node;
        (if length (n_prefix n) \<noteq> 1 then Some (- 1) else Some (int cur_node)) }
      else Some (int cur_node))"
  by pat_completeness auto
termination
  by (relation "measure (\<lambda>(ns, path, cur, i, e). length path - i)") auto

declare get_node_index_loop.simps [simp del]

definition get_node_index :: "state_impl \<Rightarrow> string \<Rightarrow> int option" where
  "get_node_index s path = get_node_index_loop (nodes s) path 0 0 False"

section \<open>Public operations\<close>

definition state_impl_new :: "hash_function \<Rightarrow> state_impl option" where
  "state_impl_new H = do {
     s \<leftarrow> calculate_hash H \<lparr>nodes = [new_node], backup = [], free_locations = {},
       nodes_current_state = 1, permanent_nodes_count = 0\<rparr> 0;
     Some (s\<lparr>permanent_nodes_count := 1\<rparr>) }"

definition state_get :: "state_impl \<Rightarrow> string \<Rightarrow> string option" where
  "state_get s key = do {
     node_index \<leftarrow> get_node_index s key;
     if node_index = - 1 then Some []
     else do { n \<leftarrow> vec_get (nodes s) (nat node_index); Some (n_value n) } }"

definition get_node_hash :: "state_impl \<Rightarrow> string \<Rightarrow> string option" where
  "get_node_hash s path = do {
     node_index \<leftarrow> get_node_index s path;
     if node_index = - 1 then Some []
     else do { n \<leftarrow> vec_get (nodes s) (nat node_index); Some (n_hash n) } }"

definition get_node_children :: "state_impl \<Rightarrow> string \<Rightarrow> string list throws option" where
  "get_node_children s path = do {
     node_index \<leftarrow> get_node_index s path;
     if node_index = - 1 then Some (throw (Out_of_range ''No node at this path''))
     else do {
       n \<leftarrow> vec_get (nodes s) (nat node_index);
       ps \<leftarrow> those (map (\<lambda>c. map_option n_prefix (vec_get (nodes s) (n_children n c))) (child_bytes n));
       Some (return ps) } }"

text \<open>
  Splitting the edge of \<open>cur_node\<close> after \<open>cur_prefix_index\<close> bytes: the two places in \<open>set\<close> that do
  this have the same code.
\<close>

definition split_edge ::
  "hash_function \<Rightarrow> state_impl \<Rightarrow> nat \<Rightarrow> nat \<Rightarrow> (state_impl \<times> nat) option" where
  "split_edge H s cur_node cur_prefix_index = do {
     n \<leftarrow> vec_get (nodes s) cur_node;
     s \<leftarrow> backup_nodes s cur_node;
     (s, split_node) \<leftarrow> add_node s (n_parent n) (char0 (n_prefix n));
     s \<leftarrow> upd_node cur_node (\<lambda>n. n\<lparr>n_parent := split_node\<rparr>) s;
     s \<leftarrow> upd_node split_node (\<lambda>m. m\<lparr>n_children :=
            (n_children m)(char0 (drop cur_prefix_index (n_prefix n)) := cur_node)\<rparr>) s;
     s \<leftarrow> upd_node split_node (\<lambda>m. m\<lparr>n_prefix := take cur_prefix_index (n_prefix n)\<rparr>) s;
     s \<leftarrow> upd_node cur_node (\<lambda>m. m\<lparr>n_prefix := drop cur_prefix_index (n_prefix n)\<rparr>) s;
     s \<leftarrow> calculate_hash H s cur_node;
     Some (s, split_node) }"

text \<open>
  The loop of \<open>set\<close> over the key, of which \<open>rest\<close> is what is left from position \<open>i\<close> on. It returns
  the state, the current node, the position in its prefix and the position in the key, which is
  below the length of the key exactly after a \<^verbatim>\<open>break\<close>.
\<close>

fun set_loop :: "hash_function \<Rightarrow> state_impl \<Rightarrow> nat \<Rightarrow> nat \<Rightarrow> nat \<Rightarrow> string \<Rightarrow>
    (state_impl \<times> nat \<times> nat \<times> nat) option" where
  "set_loop H s cur_node cur_prefix_index i [] = Some (s, cur_node, cur_prefix_index, i)"
| "set_loop H s cur_node cur_prefix_index i (path_element # rest) = do {
     n \<leftarrow> vec_get (nodes s) cur_node;
     if cur_prefix_index = length (n_prefix n) then
       (if n_children n path_element \<noteq> 0 then
          set_loop H s (n_children n path_element) 1 (Suc i) rest
        else if child_bytes n \<noteq> [] \<or> n_value n \<noteq> [] \<or> cur_node = 0 then do {
          s \<leftarrow> backup_nodes s cur_node;
          (s, cur_node) \<leftarrow> add_node s cur_node path_element;
          set_loop H s cur_node 1 (Suc i) rest }
        else do {
          s \<leftarrow> upd_node cur_node (\<lambda>n. n\<lparr>n_prefix := n_prefix n @ path_element # rest\<rparr>) s;
          Some (s, cur_node, cur_prefix_index, i) })
     else if path_element \<noteq> char0 (drop cur_prefix_index (n_prefix n)) then do {
       (s, split_node) \<leftarrow> split_edge H s cur_node cur_prefix_index;
       (s, cur_node) \<leftarrow> add_node s split_node path_element;
       set_loop H s cur_node 1 (Suc i) rest }
     else set_loop H s cur_node (Suc cur_prefix_index) (Suc i) rest }"

text \<open>
  After the loop: a key that ends inside the prefix of \<open>cur_node\<close> splits the edge there. \<open>set_locate\<close>
  is the part of \<open>set\<close> that finds or makes the node of the key.
\<close>

definition split_at_end ::
  "hash_function \<Rightarrow> string \<Rightarrow> state_impl \<times> nat \<times> nat \<times> nat \<Rightarrow> (state_impl \<times> nat) option" where
  "split_at_end H key = (\<lambda>(s, cur_node, cur_prefix_index, i). do {
     n \<leftarrow> vec_get (nodes s) cur_node;
     if length (n_prefix n) \<noteq> cur_prefix_index \<and> i = length key
     then split_edge H s cur_node cur_prefix_index
     else Some (s, cur_node) })"

definition set_locate :: "hash_function \<Rightarrow> state_impl \<Rightarrow> string \<Rightarrow> (state_impl \<times> nat) option" where
  "set_locate H s key = set_loop H s 0 0 0 key \<bind> split_at_end H key"

definition set_node :: "hash_function \<Rightarrow> state_impl \<Rightarrow> string \<Rightarrow> string \<Rightarrow> state_impl option" where
  "set_node H s key v = do {
     (s, cur_node) \<leftarrow> set_locate H s key;
     s \<leftarrow> backup_nodes s cur_node;
     s \<leftarrow> upd_node cur_node (\<lambda>n. n\<lparr>n_value := v\<rparr>) s;
     calculate_hash H s cur_node }"

text \<open>
  Merging \<open>cur_node\<close> into its only child \<open>child\<close> and unlinking it: the common end of \<open>erase\<close> and
  \<open>delete_node_tree\<close>. The result is the index to continue with.
\<close>

definition merge_with_child ::
  "state_impl \<Rightarrow> nat \<Rightarrow> nat \<Rightarrow> (state_impl \<times> nat) option" where
  "merge_with_child s cur_node child = do {
     n \<leftarrow> vec_get (nodes s) cur_node;
     s \<leftarrow> backup_nodes s child;
     s \<leftarrow> upd_node child (\<lambda>m. m\<lparr>n_prefix := n_prefix n @ n_prefix m\<rparr>) s;
     s \<leftarrow> upd_node (n_parent n) (\<lambda>m. m\<lparr>n_children := (n_children m)(char0 (n_prefix n) := child)\<rparr>) s;
     s \<leftarrow> upd_node child (\<lambda>m. m\<lparr>n_parent := n_parent n\<rparr>) s;
     Some (s\<lparr>free_locations := insert cur_node (free_locations s)\<rparr>, child) }"

text \<open>
  A node without value that is left with one child, and is not the root, is merged with that child.
\<close>

definition merge_if_single :: "state_impl \<Rightarrow> nat \<Rightarrow> (state_impl \<times> nat) option" where
  "merge_if_single s cur_node = do {
     n \<leftarrow> vec_get (nodes s) cur_node;
     (case child_bytes n of
        [c] \<Rightarrow> (if n_value n = [] \<and> cur_node \<noteq> 0
                then merge_with_child s cur_node (n_children n c) else Some (s, cur_node))
      | _ \<Rightarrow> Some (s, cur_node)) }"

text \<open>Unlinking \<open>cur_node\<close> from its parent, which is then the current node.\<close>

definition unlink_node :: "state_impl \<Rightarrow> nat \<Rightarrow> (state_impl \<times> nat) option" where
  "unlink_node s cur_node = do {
     n \<leftarrow> vec_get (nodes s) cur_node;
     s \<leftarrow> upd_node (n_parent n) (\<lambda>m. m\<lparr>n_children := (n_children m)(char0 (n_prefix n) := 0)\<rparr>) s;
     merge_if_single (s\<lparr>free_locations := insert cur_node (free_locations s)\<rparr>) (n_parent n) }"

definition no_set_node :: "string \<Rightarrow> exn" where
  "no_set_node path = Out_of_range (''No set node at path: '' @ bin2hex path)"

definition erase :: "hash_function \<Rightarrow> state_impl \<Rightarrow> string \<Rightarrow> state_impl throws option" where
  "erase H s path = do {
     cur \<leftarrow> get_node_index s path;
     if cur = - 1 then Some (throw (no_set_node path))
     else let cur_node = nat cur in do {
       n \<leftarrow> vec_get (nodes s) cur_node;
       if n_value n = [] then Some (throw (no_set_node path))
       else do {
         s \<leftarrow> backup_nodes s cur_node;
         (s, cur_node) \<leftarrow>
           (case child_bytes n of
              [] \<Rightarrow> unlink_node s cur_node
            | [c] \<Rightarrow> merge_with_child s cur_node (n_children n c)
            | _ \<Rightarrow> do { s \<leftarrow> upd_node cur_node (\<lambda>n. n\<lparr>n_value := []\<rparr>) s; Some (s, cur_node) });
         s \<leftarrow> calculate_hash H s cur_node;
         Some (return s) } } }"

definition delete_node_tree :: "hash_function \<Rightarrow> state_impl \<Rightarrow> string \<Rightarrow> state_impl throws option" where
  "delete_node_tree H s path = do {
     cur \<leftarrow> get_node_index s path;
     if cur = - 1 then Some (throw (no_set_node path))
     else let cur_node = nat cur in do {
       n \<leftarrow> vec_get (nodes s) cur_node;
       if n_value n = [] then Some (throw (no_set_node path))
       else do {
         s \<leftarrow> backup_nodes s (n_parent n);
         free \<leftarrow> subtrie_mark_free (length (nodes s)) (nodes s) cur_node (free_locations s);
         (s, cur_node) \<leftarrow> unlink_node (s\<lparr>free_locations := free\<rparr>) cur_node;
         s \<leftarrow> calculate_hash H s cur_node;
         Some (return s) } } }"

definition state_set ::
  "hash_function \<Rightarrow> state_impl \<Rightarrow> string \<Rightarrow> string \<Rightarrow> state_impl throws option" where
  "state_set H s key v = (if v = [] then erase H s key else map_option Inr (set_node H s key v))"

text \<open>
  The loop of \<open>commit_changes\<close> that fills free locations from the end of the vector; \<open>fl\<close> holds the
  free locations from \<^verbatim>\<open>*it_low\<close> to \<^verbatim>\<open>*rit_high\<close>.
\<close>

function move_loop :: "nat list \<Rightarrow> node list \<Rightarrow> nat \<Rightarrow> (nat list \<times> node list \<times> nat) option" where
  "move_loop fl ns last_element =
     (if fl = [] \<or> hd fl = last fl then Some (fl, ns, last_element)
      else if last_element = last fl then move_loop (butlast fl) ns (last_element - 1)
      else do {
        n \<leftarrow> vec_get ns last_element;
        ns \<leftarrow> vec_set ns (hd fl) n;
        m \<leftarrow> vec_get ns (n_parent n);
        ns \<leftarrow> vec_set ns (n_parent n)
          (m\<lparr>n_children := (n_children m)(char0 (n_prefix n) := hd fl)\<rparr>);
        move_loop (tl fl) ns (last_element - 1) })"
  by pat_completeness auto
termination
  by (relation "measure (length \<circ> fst)") auto

declare move_loop.simps [simp del]

definition commit_changes :: "state_impl \<Rightarrow> state_impl option" where
  "commit_changes s =
     (let s = s\<lparr>backup := []\<rparr> in
      if free_locations s = {} then Some (s\<lparr>permanent_nodes_count := length (nodes s)\<rparr>)
      else do {
        (fl, ns, last_element) \<leftarrow>
          move_loop (sorted_list_of_set (free_locations s)) (nodes s) (length (nodes s) - 1);
        n \<leftarrow> vec_get ns last_element;
        ns \<leftarrow> vec_set ns (hd fl) n;
        let ns = take (length ns - card (free_locations s)) ns;
        Some (s\<lparr>nodes := ns, permanent_nodes_count := length ns, free_locations := {}\<rparr>) })"

text \<open>\<^verbatim>\<open>std::vector::resize\<close> cuts the vector or fills it with new nodes.\<close>

definition resize :: "node list \<Rightarrow> nat \<Rightarrow> node list" where
  "resize ns k = take k ns @ replicate (k - length ns) new_node"

definition discard_changes :: "state_impl \<Rightarrow> state_impl option" where
  "discard_changes s = do {
     ns \<leftarrow> fold (\<lambda>(i, n) acc. do { ns \<leftarrow> acc; vec_set ns i n }) (backup s) (Some (nodes s));
     Some (s\<lparr>nodes := resize ns (permanent_nodes_count s), free_locations := {}\<rparr>) }"

definition state_size :: "state_impl \<Rightarrow> nat" where
  "state_size s = length (nodes s)"

end
