(* ===== verification/State_Trie.thy ===== *)
theory State_Trie
  imports State_Impl
begin

text \<open>
  The trie that the node vector of \<^verbatim>\<open>state_impl\<close> stores, seen as a function from indices to nodes
  and a set of live indices. It says what the vector means (\<open>contents\<close>: the map from keys to values),
  when it is well formed (\<open>trie\<close>, \<open>compact\<close>) and when the stored hashes are the Merkle hashes
  (\<open>hash_ok\<close>), and shows what the pointer changes made by \<open>set\<close>, \<open>erase\<close> and \<open>delete_node_tree\<close> do to
  all of these. The canonical form of a compact trie gives that the hashes depend on the contents only.
\<close>

section \<open>Meaning of the nodes\<close>

type_synonym store = "nat \<Rightarrow> node"

definition trie :: "store \<Rightarrow> nat set \<Rightarrow> (nat \<Rightarrow> string) \<Rightarrow> bool" where
  "trie N L p \<longleftrightarrow>
     links (\<lambda>i. n_parent (N i)) (\<lambda>i. n_prefix (N i)) (\<lambda>i. n_children (N i)) L p"

text \<open>The map a trie stands for; the empty string is the value of a key that is not set.\<close>

definition contents :: "store \<Rightarrow> nat set \<Rightarrow> (nat \<Rightarrow> string) \<Rightarrow> (string \<Rightarrow> string) \<Rightarrow> bool" where
  "contents N L p m \<longleftrightarrow> (\<forall>i\<in>L. m (p i) = n_value (N i)) \<and> (\<forall>k. k \<notin> p ` L \<longrightarrow> m k = [])"

definition two_children :: "node \<Rightarrow> bool" where
  "two_children n \<longleftrightarrow> (\<exists>c d. c \<noteq> d \<and> n_children n c \<noteq> 0 \<and> n_children n d \<noteq> 0)"

definition compact :: "store \<Rightarrow> nat set \<Rightarrow> bool" where
  "compact N L \<longleftrightarrow> (\<forall>i\<in>L. i \<noteq> 0 \<longrightarrow> n_value (N i) \<noteq> [] \<or> two_children (N i))"

definition node_hash :: "hash_function \<Rightarrow> store \<Rightarrow> nat \<Rightarrow> string" where
  "node_hash H N i =
     (if i = 0 \<and> child_bytes (N i) = [] then []
      else H (n_value (N i) @ n_prefix (N i) @
        concat (map (\<lambda>c. n_hash (N (n_children (N i) c))) (child_bytes (N i)))))"

definition hash_ok :: "hash_function \<Rightarrow> store \<Rightarrow> nat set \<Rightarrow> bool" where
  "hash_ok H N L \<longleftrightarrow> (\<forall>i\<in>L. n_hash (N i) = node_hash H N i)"

lemma set_child_bytes [simp]: "c \<in> set (child_bytes n) \<longleftrightarrow> n_children n c \<noteq> 0"
  by (simp add: child_bytes_def UNIV_enum [symmetric])

lemma distinct_child_bytes: "distinct (child_bytes n)"
  by (simp add: child_bytes_def enum_distinct)

lemma child_bytes_Nil: "child_bytes n = [] \<longleftrightarrow> (\<forall>c. n_children n c = 0)"
  using set_child_bytes [of _ n] by (metis list.set_intros(1) neq_Nil_conv empty_iff list.set(1))

lemma child_bytes_single:
  assumes "child_bytes n = [c]"
  shows "n_children n c \<noteq> 0" and "d \<noteq> c \<Longrightarrow> n_children n d = 0"
  using assms set_child_bytes [of _ n] by (metis list.set_intros(1), metis empty_iff empty_set set_ConsD)

lemma child_bytes_many: "child_bytes n = c # d # cs \<Longrightarrow> two_children n"
  using distinct_child_bytes [of n] set_child_bytes [of _ n] unfolding two_children_def
  by (metis distinct_length_2_or_more list.set_intros)

lemma child_bytes_cases:
  obtains (none) "child_bytes n = []" | (one) c where "child_bytes n = [c]"
  | (many) c d cs where "child_bytes n = c # d # cs"
  by (metis neq_Nil_conv)

lemma two_children_not_single: "two_children n \<Longrightarrow> child_bytes n \<noteq> [] \<and> child_bytes n \<noteq> [c]"
  unfolding two_children_def by (metis child_bytes_Nil child_bytes_single(2))

text \<open>Replacing a child by another and adding a child keep two children; removing one leaves one.\<close>

lemma two_children_upd:
  "two_children n \<Longrightarrow> j \<noteq> 0 \<Longrightarrow> n_children n' = (n_children n)(c := j) \<Longrightarrow> two_children n'"
  unfolding two_children_def by (metis fun_upd_apply)

lemma two_children_remove:
  "two_children n \<Longrightarrow> n_children n' = (n_children n)(c := 0) \<Longrightarrow> child_bytes n' \<noteq> []"
  unfolding two_children_def child_bytes_Nil by (metis fun_upd_apply)

lemma trie_root: "trie N L p \<Longrightarrow> finite L \<and> 0 \<in> L \<and> n_prefix (N 0) = [] \<and> p 0 = []"
  unfolding trie_def by (drule links_root) simp

lemma trie_child:
  assumes "trie N L p" and "i \<in> L" and "n_children (N i) c \<noteq> 0"
  shows "n_children (N i) c \<in> L" and "n_parent (N (n_children (N i) c)) = i"
    and "n_prefix (N (n_children (N i) c)) \<noteq> []" and "hd (n_prefix (N (n_children (N i) c))) = c"
    and "p (n_children (N i) c) = p i @ n_prefix (N (n_children (N i) c))"
  using links_child [OF assms(1) [unfolded trie_def] assms(2), of c] assms(3) by auto

lemma trie_parent:
  assumes "trie N L p" and "j \<in> L" and "j \<noteq> 0"
  shows "n_prefix (N j) \<noteq> []" and "n_parent (N j) \<in> L"
    and "n_children (N (n_parent (N j))) (hd (n_prefix (N j))) = j"
    and "p j = p (n_parent (N j)) @ n_prefix (N j)"
  using links_parent [OF assms(1) [unfolded trie_def] assms(2,3)] by auto

lemma trie_parent_shorter:
  "trie N L p \<Longrightarrow> j \<in> L \<Longrightarrow> j \<noteq> 0 \<Longrightarrow> length (p (n_parent (N j))) < length (p j)"
  using trie_parent(1,4) [of N L p j] by simp

lemma trie_parent_neq: "trie N L p \<Longrightarrow> j \<in> L \<Longrightarrow> j \<noteq> 0 \<Longrightarrow> n_parent (N j) \<noteq> j"
  using trie_parent_shorter by fastforce

lemma trie_unique: "trie N L p \<Longrightarrow> i \<in> L \<Longrightarrow> j \<in> L \<Longrightarrow> p i = p j \<Longrightarrow> i = j"
  unfolding trie_def by (rule links_unique)

lemma trie_descend:
  assumes "trie N L p" and "a \<in> L" and "i \<in> L" and "p i = p a @ c # r"
  shows "n_children (N a) c \<noteq> 0" and "prefix (p (n_children (N a) c)) (p i)"
  using links_descend [OF assms(1) [unfolded trie_def] assms(2-4)] by auto

lemma trie_ancestor_cases:
  assumes "trie N L p" and "i \<in> L" and "j \<in> L" and "j \<noteq> 0" and "prefix (p i) (p j)"
  shows "i = j \<or> prefix (p i) (p (n_parent (N j)))"
  using links_ancestor_cases [OF assms(1) [unfolded trie_def] assms(2-5)] .

lemma trie_enter:
  assumes "trie N L p" and "i \<in> L" and "i \<noteq> 0" and "j \<in> L"
    and "prefix (p (n_parent (N i)) @ [hd (n_prefix (N i))]) (p j)"
  shows "prefix (p i) (p j)"
  using links_enter [OF assms(1) [unfolded trie_def] assms(2-5)] .

lemma contents_at: "contents N L p m \<Longrightarrow> i \<in> L \<Longrightarrow> m (p i) = n_value (N i)"
  by (simp add: contents_def)

lemma contents_off: "contents N L p m \<Longrightarrow> k \<notin> p ` L \<Longrightarrow> m k = []"
  by (simp add: contents_def)

section \<open>Pointer changes\<close>

text \<open>Changes that keep parents, prefixes and children.\<close>

lemma trie_cong:
  assumes "trie N L p"
    and "\<And>i. i \<in> L \<Longrightarrow> n_parent (N' i) = n_parent (N i) \<and> n_prefix (N' i) = n_prefix (N i) \<and>
           n_children (N' i) = n_children (N i)"
  shows "trie N' L p"
  unfolding trie_def by (rule links_cong [OF assms(1) [unfolded trie_def]]) (use assms(2) in auto)

lemma contents_value:
  assumes "trie N L p" and "contents N L p m" and "i \<in> L" and "n_value (N' i) = v"
    and "\<And>j. j \<in> L \<Longrightarrow> j \<noteq> i \<Longrightarrow> n_value (N' j) = n_value (N j)"
  shows "contents N' L p (m(p i := v))"
  unfolding contents_def
proof (intro conjI ballI allI impI)
  fix j assume "j \<in> L"
  then show "(m(p i := v)) (p j) = n_value (N' j)"
    using assms trie_unique [OF assms(1) _ assms(3), of j] by (cases "j = i") (auto simp: contents_def)
next
  fix k assume "k \<notin> p ` L"
  then show "(m(p i := v)) k = []" using assms by (auto simp: contents_def)
qed

lemma contents_cong:
  "contents N L p m \<Longrightarrow> (\<And>i. i \<in> L \<Longrightarrow> n_value (N' i) = n_value (N i)) \<Longrightarrow> contents N' L p m"
  by (simp add: contents_def)

text \<open>A new leaf \<open>n\<close> below \<open>i\<close>.\<close>

lemma trie_leaf:
  assumes t: "trie N L p" and i: "i \<in> L" and c: "n_children (N i) c = 0" and n: "n \<notin> L"
    and N': "N' = N(i := (N i)\<lparr>n_children := (n_children (N i))(c := n)\<rparr>, n := X)"
    and X: "n_parent X = i" "n_prefix X = c # w" "n_children X = (\<lambda>_. 0)"
  shows "trie N' (insert n L) (p(n := p i @ c # w))"
proof -
  have ni: "n \<noteq> i" using n i by auto
  show ?thesis
    unfolding trie_def
    by (rule links_add_leaf [OF t [unfolded trie_def] i c n]) (use ni n X in \<open>auto simp: N'\<close>)
qed

lemma leaf_path_new:
  assumes t: "trie N L p" and i: "i \<in> L" and c: "n_children (N i) c = 0"
  shows "p i @ c # w \<notin> p ` L"
proof
  assume "p i @ c # w \<in> p ` L"
  then obtain j where "j \<in> L" "p j = p i @ c # w" by auto
  with trie_descend(1) [OF t i] c show False by metis
qed

lemma contents_insert:
  assumes k: "contents N L p m" and n: "n \<notin> L" and new: "q \<notin> p ` L"
    and val: "\<And>j. j \<in> L \<Longrightarrow> n_value (N' j) = n_value (N j)" "n_value (N' n) = v"
  shows "contents N' (insert n L) (p(n := q)) (m(q := v))"
  unfolding contents_def
proof (intro conjI ballI allI impI)
  fix j assume j: "j \<in> insert n L"
  show "(m(q := v)) ((p(n := q)) j) = n_value (N' j)"
  proof (cases "j = n")
    case False
    with j have "j \<in> L" by simp
    moreover have "p j \<noteq> q" using \<open>j \<in> L\<close> new by auto
    ultimately show ?thesis using val k False by (simp add: contents_def)
  qed (simp add: val)
next
  fix x assume x: "x \<notin> (p(n := q)) ` insert n L"
  then have "x \<noteq> q" by auto
  moreover have "x \<notin> p ` L" using x n by (auto simp: image_iff split: if_splits)
  ultimately show "(m(q := v)) x = []" using k by (simp add: contents_def)
qed

text \<open>A node \<open>s\<close> inside the edge to \<open>j\<close>.\<close>

lemma trie_split:
  assumes t: "trie N L p" and j: "j \<in> L" "j \<noteq> 0" and s: "s \<notin> L"
    and uv: "n_prefix (N j) = u @ v" "u \<noteq> []" "v \<noteq> []"
    and N': "N' = N(n_parent (N j) := (N (n_parent (N j)))\<lparr>n_children :=
                       (n_children (N (n_parent (N j))))(hd u := s)\<rparr>,
                    s := S, j := (N j)\<lparr>n_parent := s, n_prefix := v\<rparr>)"
    and S: "n_parent S = n_parent (N j)" "n_prefix S = u" "n_children S = (\<lambda>_. 0)(hd v := j)"
  shows "trie N' (insert s L) (p(s := p (n_parent (N j)) @ u))"
proof -
  have ne: "n_parent (N j) \<noteq> j" "n_parent (N j) \<noteq> s" "s \<noteq> j"
    using trie_parent(2) [OF t j] trie_parent_neq [OF t j] s j by auto
  show ?thesis
    unfolding trie_def
    by (rule links_split [OF t [unfolded trie_def] j s uv]) (use ne s S in \<open>auto simp: N'\<close>)
qed

text \<open>No node lies strictly inside an edge.\<close>

lemma split_path_new:
  assumes t: "trie N L p" and j: "j \<in> L" "j \<noteq> 0"
    and uv: "n_prefix (N j) = u @ v" "u \<noteq> []" "v \<noteq> []"
  shows "p (n_parent (N j)) @ u \<notin> p ` L"
proof
  assume "p (n_parent (N j)) @ u \<in> p ` L"
  then obtain i where i: "i \<in> L" "p i = p (n_parent (N j)) @ u" by auto
  have "hd (n_prefix (N j)) = hd u" using uv by simp
  moreover have "prefix [hd u] u" using uv(2) by (cases u) auto
  ultimately have "prefix (p (n_parent (N j)) @ [hd (n_prefix (N j))]) (p i)" using i by simp
  then have "prefix (p j) (p i)" by (rule trie_enter [OF t j i(1)])
  then show False using trie_parent(4) [OF t j] i uv by (simp add: prefix_def)
qed

text \<open>Cutting off the subtrie of \<open>j\<close>.\<close>

lemma trie_cut:
  assumes t: "trie N L p" and j: "j \<in> L" "j \<noteq> 0" and L': "L' = {i \<in> L. \<not> prefix (p j) (p i)}"
    and N': "N' = N(n_parent (N j) := (N (n_parent (N j)))\<lparr>n_children :=
               (n_children (N (n_parent (N j))))(hd (n_prefix (N j)) := 0)\<rparr>)"
  shows "trie N' L' p"
  unfolding trie_def
  by (rule links_cut [OF t [unfolded trie_def] j L']) (auto simp: N')

lemma contents_cut:
  assumes t: "trie N L p" and k: "contents N L p m" and j: "j \<in> L"
    and L': "L' = {i \<in> L. \<not> prefix (p j) (p i)}"
    and val: "\<And>i. i \<in> L' \<Longrightarrow> n_value (N' i) = n_value (N i)"
  shows "contents N' L' p (\<lambda>x. if prefix (p j) x then [] else m x)"
  unfolding contents_def
proof (intro conjI ballI allI impI)
  fix x assume "x \<notin> p ` L'"
  then show "(if prefix (p j) x then [] else m x) = []"
    using contents_off [OF k, of x] by (auto simp: L')
next
  fix i assume "i \<in> L'"
  then show "(if prefix (p j) (p i) then [] else m (p i)) = n_value (N' i)"
    using val k by (auto simp: L' contents_def)
qed

text \<open>Merging \<open>i\<close> with its only child \<open>k\<close>.\<close>

lemma trie_merge:
  assumes t: "trie N L p" and i: "i \<in> L" "i \<noteq> 0"
    and k: "n_children (N i) c = k" "k \<noteq> 0" and only: "\<And>d. d \<noteq> c \<Longrightarrow> n_children (N i) d = 0"
    and N': "N' = N(n_parent (N i) := (N (n_parent (N i)))\<lparr>n_children :=
                       (n_children (N (n_parent (N i))))(hd (n_prefix (N i)) := k)\<rparr>,
                    k := (N k)\<lparr>n_prefix := n_prefix (N i) @ n_prefix (N k), n_parent := n_parent (N i)\<rparr>)"
  shows "trie N' (L - {i}) p"
proof -
  have p: "length (p (n_parent (N i))) < length (p i)" by (rule trie_parent_shorter [OF t i])
  have "length (p i) < length (p k)" using trie_child(3,5) [OF t i(1), of c] k by auto
  with p have ne: "n_parent (N i) \<noteq> k" "n_parent (N i) \<noteq> i" "k \<noteq> i" by auto
  show ?thesis
    unfolding trie_def
    by (rule links_merge [OF t [unfolded trie_def] i k only]) (use ne in \<open>auto simp: N'\<close>)
qed

lemma contents_remove:
  assumes t: "trie N L p" and k: "contents N L p m" and i: "i \<in> L" and m: "m (p i) = []"
    and val: "\<And>j. j \<in> L \<Longrightarrow> j \<noteq> i \<Longrightarrow> n_value (N' j) = n_value (N j)"
  shows "contents N' (L - {i}) p m"
  unfolding contents_def
proof (intro conjI ballI allI impI)
  fix x assume "x \<notin> p ` (L - {i})"
  then show "m x = []" using contents_off [OF k, of x] m by (cases "x = p i") auto
qed (use val k in \<open>auto simp: contents_def\<close>)

section \<open>Hashes\<close>

text \<open>
  After a change that touched only nodes on the way to \<open>cur\<close>, the hashes of the others are still
  right: the state in which \<open>calculate_hash(cur)\<close> is called.
\<close>

definition hash_ok_off :: "hash_function \<Rightarrow> store \<Rightarrow> nat set \<Rightarrow> (nat \<Rightarrow> string) \<Rightarrow> string \<Rightarrow> bool" where
  "hash_ok_off H N L p k \<longleftrightarrow> (\<forall>i\<in>L. \<not> prefix (p i) k \<longrightarrow> n_hash (N i) = node_hash H N i)"

lemma node_hash_cong:
  assumes "n_value (N' i) = n_value (N i)" and "n_prefix (N' i) = n_prefix (N i)"
    and "n_children (N' i) = n_children (N i)"
    and "\<And>c. n_children (N i) c \<noteq> 0 \<Longrightarrow>
           n_hash (N' (n_children (N i) c)) = n_hash (N (n_children (N i) c))"
  shows "node_hash H N' i = node_hash H N i"
proof -
  have b: "child_bytes (N' i) = child_bytes (N i)" using assms(3) by (simp add: child_bytes_def)
  have "map (\<lambda>c. n_hash (N' (n_children (N' i) c))) (child_bytes (N i)) =
        map (\<lambda>c. n_hash (N (n_children (N i) c))) (child_bytes (N i))"
    using assms(3,4) by simp
  then show ?thesis by (simp only: node_hash_def b assms(1,2))
qed

lemma trie_child_off_path:
  assumes "trie N L p" and "i \<in> L" and "n_children (N i) c \<noteq> 0" and "\<not> prefix (p i) k"
  shows "\<not> prefix (p (n_children (N i) c)) k"
  using trie_child(5) [OF assms(1-3)] assms(4) by (metis append_prefixD)

lemma hash_ok_off_change:
  assumes h: "hash_ok H N L" and t: "trie N' L' p"
    and same: "\<And>i. i \<in> L' \<Longrightarrow> \<not> prefix (p i) k \<Longrightarrow> i \<in> L \<and> N' i = N i"
  shows "hash_ok_off H N' L' p k"
  unfolding hash_ok_off_def
proof (intro ballI impI)
  fix i assume i: "i \<in> L'" "\<not> prefix (p i) k"
  have "node_hash H N' i = node_hash H N i"
  proof (rule node_hash_cong)
    fix c assume "n_children (N i) c \<noteq> 0"
    then have c: "n_children (N' i) c \<noteq> 0" using same [OF i] by simp
    then have "\<not> prefix (p (n_children (N' i) c)) k" by (rule trie_child_off_path [OF t i(1) _ i(2)])
    then show "n_hash (N' (n_children (N i) c)) = n_hash (N (n_children (N i) c))"
      using same [OF trie_child(1) [OF t i(1) c]] same [OF i] by simp
  qed (use same [OF i] in auto)
  then show "n_hash (N' i) = node_hash H N' i" using h same [OF i] by (simp add: hash_ok_def)
qed

text \<open>One step of \<open>calculate_hash\<close>.\<close>

lemma hash_ok_off_step:
  assumes t: "trie N L p" and h: "hash_ok_off H N L p (p cur)" and cur: "cur \<in> L"
    and N': "N' = N(cur := (N cur)\<lparr>n_hash := node_hash H N cur\<rparr>)"
  shows "cur \<noteq> 0 \<Longrightarrow> hash_ok_off H N' L p (p (n_parent (N cur)))"
    and "cur = 0 \<Longrightarrow> hash_ok H N' L"
proof -
  have self: "n_children (N cur) c \<noteq> cur" if "n_children (N cur) c \<noteq> 0" for c
    using trie_child(3,5) [OF t cur that] by auto
  have right: "n_hash (N' i) = node_hash H N' i" if i: "i \<in> L" and "i = cur \<or> \<not> prefix (p i) (p cur)" for i
  proof (cases "i = cur")
    case True
    have "node_hash H N' cur = node_hash H N cur"
      by (rule node_hash_cong) (use self in \<open>auto simp: N'\<close>)
    then show ?thesis by (simp add: True N')
  next
    case False
    with that have np: "\<not> prefix (p i) (p cur)" by simp
    have "node_hash H N' i = node_hash H N i"
    proof (rule node_hash_cong)
      fix c assume "n_children (N i) c \<noteq> 0"
      from trie_child_off_path [OF t i this np]
      show "n_hash (N' (n_children (N i) c)) = n_hash (N (n_children (N i) c))"
        by (cases "n_children (N i) c = cur") (auto simp: N')
    qed (use False in \<open>auto simp: N'\<close>)
    then show ?thesis using h i np False by (simp add: hash_ok_off_def N')
  qed
  { assume "cur \<noteq> 0"
    then show "hash_ok_off H N' L p (p (n_parent (N cur)))"
      unfolding hash_ok_off_def using right trie_ancestor_cases [OF t _ cur] by metis }
  { assume c0: "cur = 0"
    have "i = cur \<or> \<not> prefix (p i) (p cur)" if "i \<in> L" for i
      using trie_root [OF t] trie_unique [OF t that cur] c0 by auto
    then show "hash_ok H N' L" unfolding hash_ok_def using right by blast }
qed

section \<open>Canonical form\<close>

text \<open>Below every node but the root of a compact trie there is a value.\<close>

lemma compact_value_below:
  assumes t: "trie N L p" and cp: "compact N L" and i: "i \<in> L" "i \<noteq> 0"
  shows "\<exists>j\<in>L. prefix (p i) (p j) \<and> n_value (N j) \<noteq> []"
proof -
  let ?D = "{j \<in> L. prefix (p i) (p j)}"
  have "finite ?D" "i \<in> ?D" using trie_root [OF t] i by auto
  then obtain j where j: "j \<in> ?D" and max: "\<And>a. a \<in> ?D \<Longrightarrow> length (p a) \<le> length (p j)"
    using finite_ex_greatest [of ?D i "\<lambda>a. length (p a)"] by blast
  have "j \<noteq> 0"
    using j trie_root [OF t] trie_unique [OF t i(1)] i by (metis (mono_tags, lifting) mem_Collect_eq prefix_Nil)
  have "\<not> two_children (N j)"
  proof
    assume "two_children (N j)"
    then obtain c where c: "n_children (N j) c \<noteq> 0" by (auto simp: two_children_def)
    note ch = trie_child [OF t _ c]
    have "n_children (N j) c \<in> ?D" using ch(1,5) j by (auto simp: prefix_def)
    from max [OF this] show False using ch(3,5) j by auto
  qed
  with cp j \<open>j \<noteq> 0\<close> show ?thesis by (auto simp: compact_def)
qed

definition branching :: "(string \<Rightarrow> string) \<Rightarrow> string \<Rightarrow> bool" where
  "branching m k \<longleftrightarrow> (\<exists>c d x y. c \<noteq> d \<and> m (k @ c # x) \<noteq> [] \<and> m (k @ d # y) \<noteq> [])"

lemma branching_node:
  assumes t: "trie N L p" and k: "contents N L p m" and b: "branching m q"
  shows "q \<in> p ` L"
proof -
  from b obtain c d x y where cd: "c \<noteq> d" and m: "m (q @ c # x) \<noteq> []" "m (q @ d # y) \<noteq> []"
    by (auto simp: branching_def)
  have "q @ c # x \<in> p ` L" "q @ d # y \<in> p ` L" using contents_off [OF k] m by blast+
  then obtain i j where i: "i \<in> L" "p i = q @ c # x" and j: "j \<in> L" "p j = q @ d # y"
    by (metis imageE)
  let ?A = "{a \<in> L. prefix (p a) q}"
  have "finite ?A" "0 \<in> ?A" using trie_root [OF t] by auto
  then obtain a where a: "a \<in> ?A" and max: "\<And>b. b \<in> ?A \<Longrightarrow> length (p b) \<le> length (p a)"
    using finite_ex_greatest [of ?A 0 "\<lambda>a. length (p a)"] by blast
  have aL: "a \<in> L" and pa: "prefix (p a) q" using a by auto
  have "p a = q"
  proof (rule ccontr)
    assume "p a \<noteq> q"
    with pa obtain e r where q: "q = p a @ e # r" using strict_prefix_split by (metis prefix_order.le_less)
    have ai: "p i = p a @ e # (r @ c # x)" "p j = p a @ e # (r @ d # y)" using i j q by auto
    let ?b = "n_children (N a) e"
    have pre: "prefix (p ?b) (q @ c # x)" "prefix (p ?b) (q @ d # y)"
      using trie_descend(2) [OF t aL i(1) ai(1)] trie_descend(2) [OF t aL j(1) ai(2)] i j by auto
    have "prefix (p ?b) q"
      using pre cd by (auto simp: prefix_append prefix_Cons)
    moreover have e0: "?b \<noteq> 0" by (rule trie_descend(1) [OF t aL i(1) ai(1)])
    ultimately have "?b \<in> ?A" using trie_child(1) [OF t aL e0] by simp
    from max [OF this] show False using trie_child(3,5) [OF t aL e0] by simp
  qed
  then show ?thesis using aL by auto
qed

theorem compact_paths:
  assumes t: "trie N L p" and k: "contents N L p m" and cp: "compact N L"
  shows "q \<in> p ` L \<longleftrightarrow> q = [] \<or> m q \<noteq> [] \<or> branching m q"
proof
  assume "q \<in> p ` L"
  then obtain i where i: "i \<in> L" "q = p i" by auto
  have "branching m q" if i0: "i \<noteq> 0" and v: "n_value (N i) = []"
  proof -
    from cp i i0 v obtain c d where cd: "c \<noteq> d" and ch: "n_children (N i) c \<noteq> 0" "n_children (N i) d \<noteq> 0"
      by (auto simp: compact_def two_children_def)
    have below: "\<exists>x. m (q @ c # x) \<noteq> []" if c: "n_children (N i) c \<noteq> 0" for c
    proof -
      note ci = trie_child [OF t i(1) c]
      obtain j where j: "j \<in> L" "prefix (p (n_children (N i) c)) (p j)" "n_value (N j) \<noteq> []"
        using compact_value_below [OF t cp ci(1) c] by auto
      obtain w where w: "n_prefix (N (n_children (N i) c)) = c # w" using ci(3,4) by (metis list.collapse)
      from j(2) obtain z where "p j = q @ c # w @ z" using ci(5) w i by (auto simp: prefix_def)
      with contents_at [OF k j(1)] j(3) show ?thesis by metis
    qed
    show ?thesis unfolding branching_def using below ch cd by metis
  qed
  then show "q = [] \<or> m q \<noteq> [] \<or> branching m q"
    using trie_root [OF t] contents_at [OF k i(1)] i by metis
next
  assume "q = [] \<or> m q \<noteq> [] \<or> branching m q"
  then show "q \<in> p ` L"
    using trie_root [OF t] contents_off [OF k, of q] branching_node [OF t k] by (metis image_eqI)
qed

text \<open>Two compact tries with the same contents have the same nodes, up to their indices.\<close>

lemma same_child:
  assumes t: "trie N L p" "trie N' L' p'" and K: "p ` L = p' ` L'"
    and i: "i \<in> L" "j \<in> L'" "p i = p' j" and c: "n_children (N i) c \<noteq> 0"
  shows "n_children (N' j) c \<noteq> 0 \<and> prefix (p' (n_children (N' j) c)) (p (n_children (N i) c))"
proof -
  note ci = trie_child [OF t(1) i(1) c]
  from K ci(1) obtain a where a: "a \<in> L'" "p' a = p (n_children (N i) c)" by (metis imageE imageI)
  obtain w where "n_prefix (N (n_children (N i) c)) = c # w" using ci(3,4) by (metis list.collapse)
  with a ci(5) i have "p' a = p' j @ c # w" by simp
  with trie_descend [OF t(2) i(2) a(1) this] a show ?thesis by simp
qed

lemma same_parent:
  assumes t: "trie N L p" "trie N' L' p'" and K: "p ` L = p' ` L'"
    and i: "i \<in> L" "j \<in> L'" "p i = p' j" "i \<noteq> 0"
  shows "prefix (p (n_parent (N i))) (p' (n_parent (N' j)))"
proof -
  have j0: "j \<noteq> 0" using i trie_root [OF t(2)] trie_root [OF t(1)] trie_unique [OF t(1) i(1)] by metis
  note pi = trie_parent [OF t(1) i(1,4)]
  from K pi(2) obtain a where a: "a \<in> L'" "p' a = p (n_parent (N i))" by (metis imageE imageI)
  have "prefix (p' a) (p' j)" using a pi i by (metis prefixI)
  moreover have "a \<noteq> j" using a i pi by auto
  ultimately show ?thesis using trie_ancestor_cases [OF t(2) a(1) i(2) j0] a by auto
qed

lemma same_prefix:
  assumes t: "trie N L p" "trie N' L' p'" and K: "p ` L = p' ` L'"
    and i: "i \<in> L" "j \<in> L'" "p i = p' j"
  shows "n_prefix (N i) = n_prefix (N' j)" and "i = 0 \<longleftrightarrow> j = 0"
proof -
  show ij: "i = 0 \<longleftrightarrow> j = 0"
    using i trie_root [OF t(1)] trie_root [OF t(2)] trie_unique [OF t(1) i(1)] trie_unique [OF t(2) i(2)]
    by metis
  show "n_prefix (N i) = n_prefix (N' j)"
  proof (cases "i = 0")
    case True
    then show ?thesis using ij trie_root [OF t(1)] trie_root [OF t(2)] by simp
  next
    case False
    then have "p (n_parent (N i)) = p' (n_parent (N' j))"
      using same_parent [OF t K i] same_parent [OF t(2,1) K [symmetric] i(2,1)] i(3) ij
      by (metis prefix_order.antisym)
    then show ?thesis using trie_parent(4) [OF t(1) i(1)] trie_parent(4) [OF t(2) i(2)] False ij i(3)
      by (metis same_append_eq)
  qed
qed

lemma same_hash:
  assumes t: "trie N L p" "trie N' L' p'" and k: "contents N L p m" "contents N' L' p' m"
    and h: "hash_ok H N L" "hash_ok H N' L'" and K: "p ` L = p' ` L'"
    and i: "i \<in> L" "j \<in> L'" "p i = p' j"
  shows "n_hash (N i) = n_hash (N' j)"
proof -
  have "\<exists>b. \<forall>a\<in>L. length (p a) \<le> b"
    using trie_root [OF t(1)] finite_nat_set_iff_bounded_le [of "(\<lambda>a. length (p a)) ` L"] by auto
  then obtain b where b: "\<And>a. a \<in> L \<Longrightarrow> length (p a) \<le> b" by blast
  show ?thesis using i
  proof (induction "b - length (p i)" arbitrary: i j rule: less_induct)
    case less
    note i = less.prems
    note pre = same_prefix [OF t K i]
    have bytes: "child_bytes (N i) = child_bytes (N' j)"
      using same_child [OF t K i] same_child [OF t(2,1) K [symmetric] i(2,1) i(3) [symmetric]]
      by (auto simp: child_bytes_def intro!: filter_cong)
    have hs: "n_hash (N (n_children (N i) c)) = n_hash (N' (n_children (N' j) c))"
      if c: "n_children (N i) c \<noteq> 0" for c
    proof -
      note ci = trie_child [OF t(1) i(1) c]
      have c': "n_children (N' j) c \<noteq> 0" using same_child [OF t K i c] by simp
      have eq: "p (n_children (N i) c) = p' (n_children (N' j) c)"
        using same_child [OF t K i c] same_child [OF t(2,1) K [symmetric] i(2,1) i(3) [symmetric] c']
        by (simp add: prefix_order.antisym)
      have "b - length (p (n_children (N i) c)) < b - length (p i)"
        using b [OF ci(1)] ci(3,5) by (simp add: diff_less_mono2 flip: length_greater_0_conv)
      from less.hyps [OF this ci(1) trie_child(1) [OF t(2) i(2) c'] eq] show ?thesis .
    qed
    have "map (\<lambda>c. n_hash (N (n_children (N i) c))) (child_bytes (N i)) =
          map (\<lambda>c. n_hash (N' (n_children (N' j) c))) (child_bytes (N i))"
      using hs by simp
    moreover have "n_value (N i) = n_value (N' j)"
      using contents_at [OF k(1) i(1)] contents_at [OF k(2) i(2)] i(3) by simp
    ultimately have "node_hash H N i = node_hash H N' j"
      by (simp only: node_hash_def pre bytes)
    then show ?case using h i by (simp add: hash_ok_def)
  qed
qed

end
