(* ===== verification/State_Ops.thy ===== *)
theory State_Ops
  imports State_Trie
begin

text \<open>
  What the private operations of \<^verbatim>\<open>state_impl\<close> do to the node vector: \<open>backup_nodes\<close>, \<open>add_node\<close> and
  \<open>calculate_hash\<close>, with the invariant \<open>snap\<close> of the backup map that \<open>discard_changes\<close> relies on.
\<close>

section \<open>The vector as a store\<close>

definition nd :: "state_impl \<Rightarrow> store" where
  "nd s i = (if i < length (nodes s) then nodes s ! i else new_node)"

definition live :: "state_impl \<Rightarrow> nat set" where
  "live s = {..<length (nodes s)} - free_locations s"

text \<open>Free locations lie in the vector, not at the root; every node's parent does, the root's is itself.\<close>

definition bounded :: "state_impl \<Rightarrow> bool" where
  "bounded s \<longleftrightarrow> free_locations s \<subseteq> {0<..<length (nodes s)} \<and> n_parent (nd s 0) = 0 \<and>
     (\<forall>i. n_parent (nd s i) < length (nodes s))"

text \<open>Locations that \<open>discard_changes\<close> restores or drops.\<close>

definition saved :: "state_impl \<Rightarrow> nat set" where
  "saved s = fst ` set (backup s) \<union> {permanent_nodes_count s..}"

text \<open>
  The vector \<open>c\<close> of the last commit can be restored: the backup holds its nodes, a location that is
  not backed up is unchanged, and with a location that may change so may its parent.
\<close>

definition restorable :: "node list \<Rightarrow> state_impl \<Rightarrow> bool" where
  "restorable c s \<longleftrightarrow>
     permanent_nodes_count s = length c \<and> length c \<le> length (nodes s) \<and>
     (\<forall>(i, n) \<in> set (backup s). i < length (nodes s) \<and> (i < length c \<longrightarrow> n = c ! i)) \<and>
     (\<forall>i<length c. i \<notin> fst ` set (backup s) \<longrightarrow> nd s i = c ! i)"

definition snap :: "node list \<Rightarrow> state_impl \<Rightarrow> bool" where
  "snap c s \<longleftrightarrow> restorable c s \<and>
     (\<forall>i<length (nodes s). i \<in> saved s \<longrightarrow> i \<noteq> 0 \<longrightarrow> n_parent (nd s i) \<in> saved s)"

lemma live_less: "i \<in> live s \<Longrightarrow> i < length (nodes s)"
  by (simp add: live_def)

lemma nth_nodes: "i < length (nodes s) \<Longrightarrow> nodes s ! i = nd s i"
  by (simp add: nd_def)

lemma vec_get_live: "i \<in> live s \<Longrightarrow> vec_get (nodes s) i = Some (nd s i)"
  by (simp add: live_less nth_nodes)

lemma bounded_finite: "bounded s \<Longrightarrow> finite (free_locations s)"
  unfolding bounded_def using finite_subset by blast

lemma bounded_parent: "bounded s \<Longrightarrow> n_parent (nd s i) < length (nodes s)"
  by (simp add: bounded_def)

text \<open>Writing one location.\<close>

definition put :: "nat \<Rightarrow> node \<Rightarrow> state_impl \<Rightarrow> state_impl" where
  "put i n s = s\<lparr>nodes := (nodes s)[i := n]\<rparr>"

lemma put_fields [simp]:
  "length (nodes (put i n s)) = length (nodes s)" "free_locations (put i n s) = free_locations s"
  "backup (put i n s) = backup s" "permanent_nodes_count (put i n s) = permanent_nodes_count s"
  "live (put i n s) = live s" "saved (put i n s) = saved s"
  by (simp_all add: put_def live_def saved_def)

lemma nd_put [simp]: "i < length (nodes s) \<Longrightarrow> nd (put i n s) = (nd s)(i := n)"
  by (auto simp: nd_def put_def fun_eq_iff)

lemma upd_node_put [simp]:
  "i < length (nodes s) \<Longrightarrow> upd_node i f s = Some (put i (f (nd s i)) s)"
  by (simp add: upd_node_def put_def nd_def)

lemma bounded_root: "bounded s \<Longrightarrow> n_parent (nd s 0) = 0"
  by (simp add: bounded_def)

lemma bounded_put:
  "bounded s \<Longrightarrow> i < length (nodes s) \<Longrightarrow> n_parent n < length (nodes s) \<Longrightarrow>
   (i = 0 \<Longrightarrow> n_parent n = 0) \<Longrightarrow> bounded (put i n s)"
  by (auto simp: bounded_def)

lemma snap_put:
  assumes "snap c s" and "i < length (nodes s)" and "i \<in> saved s"
    and "i \<noteq> 0 \<Longrightarrow> n_parent n \<in> saved s"
  shows "snap c (put i n s)"
  using assms by (auto simp: snap_def restorable_def saved_def)

lemma fields_backup [simp]:
  "nd (s\<lparr>backup := b\<rparr>) = nd s" "live (s\<lparr>backup := b\<rparr>) = live s" "bounded (s\<lparr>backup := b\<rparr>) = bounded s"
  by (auto simp: nd_def live_def bounded_def fun_eq_iff)

lemma fields_free [simp]:
  "nd (s\<lparr>free_locations := F\<rparr>) = nd s" "saved (s\<lparr>free_locations := F\<rparr>) = saved s"
  "snap c (s\<lparr>free_locations := F\<rparr>) = snap c s"
  by (auto simp: nd_def saved_def snap_def restorable_def fun_eq_iff)

section \<open>backup_nodes\<close>

lemma backup_nodes_result:
  "bounded s \<Longrightarrow> i < length (nodes s) \<Longrightarrow>
   \<exists>b. backup_nodes s i = Some (s\<lparr>backup := b\<rparr>) \<and> i \<in> fst ` set b \<and> set (backup s) \<subseteq> set b \<and>
     (\<forall>(j, n) \<in> set b - set (backup s). j \<notin> fst ` set (backup s) \<and> j < length (nodes s) \<and> n = nd s j \<and>
        (j \<noteq> 0 \<longrightarrow> j < permanent_nodes_count s \<longrightarrow> n_parent n \<in> fst ` set b))"
proof (induction s i rule: backup_nodes.induct)
  case (1 s i)
  show ?case
  proof (cases "map_of (backup s) i = None")
    case False
    then have "backup_nodes s i = Some (s\<lparr>backup := backup s\<rparr>)"
      using 1(3) by (subst backup_nodes.simps) auto
    moreover have "i \<in> fst ` set (backup s)" using False by (simp add: map_of_eq_None_iff)
    ultimately show ?thesis by (intro exI [of _ "backup s"]) simp
  next
    case True
    then have new: "i \<notin> fst ` set (backup s)" by (simp add: map_of_eq_None_iff)
    define s' where "s' = s\<lparr>backup := (i, nodes s ! i) # backup s\<rparr>"
    have i: "nodes s ! i = nd s i" using 1 by (simp add: nd_def)
    show ?thesis
    proof (cases "i \<noteq> 0 \<and> i < permanent_nodes_count s")
      case False
      then have "backup_nodes s i = Some (s\<lparr>backup := (i, nodes s ! i) # backup s\<rparr>)"
        using 1(3) True by (subst backup_nodes.simps) (auto simp: Let_def)
      then show ?thesis using new 1 i False by (intro exI [of _ "(i, nodes s ! i) # backup s"]) auto
    next
      case rec: True
      have "bounded s'" "n_parent (nodes s ! i) < length (nodes s')"
        using 1 bounded_parent [of s i] i by (simp_all add: s'_def)
      then obtain b where b: "backup_nodes s' (n_parent (nodes s ! i)) = Some (s'\<lparr>backup := b\<rparr>)"
        "n_parent (nodes s ! i) \<in> fst ` set b" "set (backup s') \<subseteq> set b"
        "\<forall>(j, n) \<in> set b - set (backup s'). j \<notin> fst ` set (backup s') \<and> j < length (nodes s') \<and> n = nd s' j \<and>
          (j \<noteq> 0 \<longrightarrow> j < permanent_nodes_count s' \<longrightarrow> n_parent n \<in> fst ` set b)"
        using 1 True rec s'_def by blast
      have "backup_nodes s i = Some (s\<lparr>backup := b\<rparr>)"
        using 1(3) True rec b(1) by (subst backup_nodes.simps) (simp add: Let_def s'_def)
      moreover have "i \<in> fst ` set b" using b(3) by (force simp: s'_def)
      moreover have "set (backup s) \<subseteq> set b" using b(3) by (auto simp: s'_def)
      moreover have "\<forall>(j, n) \<in> set b - set (backup s). j \<notin> fst ` set (backup s) \<and>
          j < length (nodes s) \<and> n = nd s j \<and>
          (j \<noteq> 0 \<longrightarrow> j < permanent_nodes_count s \<longrightarrow> n_parent n \<in> fst ` set b)"
      proof (rule ballI, rule prod.case_eq_if [THEN iffD2])
        fix x assume x: "x \<in> set b - set (backup s)"
        show "fst x \<notin> fst ` set (backup s) \<and> fst x < length (nodes s) \<and> snd x = nd s (fst x) \<and>
          (fst x \<noteq> 0 \<longrightarrow> fst x < permanent_nodes_count s \<longrightarrow> n_parent (snd x) \<in> fst ` set b)"
        proof (cases "x = (i, nodes s ! i)")
          case True
          then show ?thesis using new 1(3) i b(2) by simp
        next
          case False
          with x have "x \<in> set b - set (backup s')" by (auto simp: s'_def)
          from bspec [OF b(4) this] show ?thesis by (auto simp: s'_def split: prod.splits)
        qed
      qed
      ultimately show ?thesis by (intro exI [of _ b] conjI)
    qed
  qed
qed

lemma backup_nodes_spec:
  assumes "bounded s" and "i < length (nodes s)"
  obtains b where "backup_nodes s i = Some (s\<lparr>backup := b\<rparr>)" and "i \<in> saved (s\<lparr>backup := b\<rparr>)"
    and "saved s \<subseteq> saved (s\<lparr>backup := b\<rparr>)" and "\<And>c. snap c s \<Longrightarrow> snap c (s\<lparr>backup := b\<rparr>)"
proof -
  from backup_nodes_result [OF assms] obtain b where
    r: "backup_nodes s i = Some (s\<lparr>backup := b\<rparr>)" and i: "i \<in> fst ` set b" and sub: "set (backup s) \<subseteq> set b"
    and all: "\<forall>(j, n) \<in> set b - set (backup s). j \<notin> fst ` set (backup s) \<and> j < length (nodes s) \<and>
        n = nd s j \<and> (j \<noteq> 0 \<longrightarrow> j < permanent_nodes_count s \<longrightarrow> n_parent n \<in> fst ` set b)"
    by (elim exE conjE)
  have new: "j \<notin> fst ` set (backup s) \<and> j < length (nodes s) \<and> n = nd s j \<and>
        (j \<noteq> 0 \<longrightarrow> j < permanent_nodes_count s \<longrightarrow> n_parent n \<in> fst ` set b)"
    if "(j, n) \<in> set b" "(j, n) \<notin> set (backup s)" for j n
    using bspec [OF all, of "(j, n)"] that by auto
  have snap: "snap c (s\<lparr>backup := b\<rparr>)" if c: "snap c s" for c
  proof -
    have R: "restorable c s" using c by (simp add: snap_def)
    have "j < length (nodes s) \<and> (j < length c \<longrightarrow> n = c ! j)" if "(j, n) \<in> set b" for j n
      using new [OF that] R by (cases "(j, n) \<in> set (backup s)") (auto simp: restorable_def)
    moreover have "nd s j = c ! j" if "j < length c" "j \<notin> fst ` set b" for j
      using that R subsetD [OF image_mono [OF sub, of fst], of j] by (auto simp only: restorable_def)
    ultimately have 1: "restorable c (s\<lparr>backup := b\<rparr>)" using R by (auto simp: restorable_def)
    have "n_parent (nd s j) \<in> saved (s\<lparr>backup := b\<rparr>)"
      if j: "j < length (nodes s)" "j \<in> saved (s\<lparr>backup := b\<rparr>)" "j \<noteq> 0" for j
    proof (cases "j \<in> saved s")
      case True
      with c j have "n_parent (nd s j) \<in> saved s" by (simp add: snap_def)
      then show ?thesis using sub by (auto simp: saved_def)
    next
      case False
      with j obtain n where "(j, n) \<in> set b" "(j, n) \<notin> set (backup s)" "j < permanent_nodes_count s"
        by (force simp: saved_def)
      with new [of j n] j show ?thesis by (auto simp: saved_def)
    qed
    with 1 show ?thesis by (simp add: snap_def)
  qed
  show thesis by (rule that [OF r]) (use i sub snap in \<open>auto simp: saved_def\<close>)
qed

section \<open>add_node\<close>

definition leaf_node :: "nat \<Rightarrow> string \<Rightarrow> node" where
  "leaf_node i w = new_node\<lparr>n_parent := i, n_prefix := w\<rparr>"

lemma leaf_node_fields [simp]:
  "n_parent (leaf_node i w) = i" "n_prefix (leaf_node i w) = w" "n_value (leaf_node i w) = []"
  "n_children (leaf_node i w) = (\<lambda>_. 0)"
  by (simp_all add: leaf_node_def new_node_def)

lemma take_location_spec:
  assumes s: "bounded s" and ne: "0 < length (nodes s)"
  obtains s' n where "take_location s = Some (s', n)"
    and "n \<notin> live s" and "n \<noteq> 0" and "live s' = insert n (live s)" and "nd s' = (nd s)(n := new_node)"
    and "bounded s'" and "length (nodes s) \<le> length (nodes s')" and "n < length (nodes s')"
    and "saved s \<subseteq> saved s'" and "\<And>c. snap c s \<Longrightarrow> 0 \<in> saved s \<Longrightarrow> snap c s' \<and> n \<in> saved s'"
proof (cases "free_locations s = {}")
  case True
  define s' where "s' = s\<lparr>nodes := nodes s @ [new_node]\<rparr>"
  have nd': "nd s' = (nd s)(length (nodes s) := new_node)"
    by (auto simp: nd_def s'_def fun_eq_iff nth_append)
  have eq: "nd s' = nd s" by (simp add: nd' nd_def fun_eq_iff)
  have f: "length (nodes s') = Suc (length (nodes s))" "free_locations s' = {}" "saved s' = saved s"
    "backup s' = backup s" "permanent_nodes_count s' = permanent_nodes_count s"
    using True by (simp_all add: s'_def saved_def)
  have "bounded s'" using s by (auto simp: bounded_def f eq less_SucI)
  moreover have "snap c s' \<and> length (nodes s) \<in> saved s'" if c: "snap c s" and z: "0 \<in> saved s" for c
  proof -
    have "length (nodes s) \<in> saved s" using c by (simp add: snap_def restorable_def saved_def)
    moreover have "n_parent (nd s (length (nodes s))) \<in> saved s" using z by (simp add: nd_def new_node_def)
    ultimately show ?thesis using c by (auto simp: snap_def restorable_def f eq less_Suc_eq)
  qed
  moreover have "length (nodes s) \<notin> live s" "live s' = insert (length (nodes s)) (live s)"
    using True by (auto simp: live_def f)
  ultimately show thesis
    using that [of s' "length (nodes s)"] True f nd' ne by (simp add: take_location_def s'_def)
next
  case False
  define l where "l = Min (free_locations s)"
  have l: "l \<in> free_locations s" using False bounded_finite [OF s] by (simp add: l_def)
  then have ll: "l < length (nodes s)" using s by (auto simp: bounded_def)
  from backup_nodes_spec [OF s ll] obtain b where
    b: "backup_nodes s l = Some (s\<lparr>backup := b\<rparr>)" "l \<in> saved (s\<lparr>backup := b\<rparr>)"
      "saved s \<subseteq> saved (s\<lparr>backup := b\<rparr>)" "\<And>c. snap c s \<Longrightarrow> snap c (s\<lparr>backup := b\<rparr>)" by blast
  let ?sb = "s\<lparr>backup := b\<rparr>"
  define s' where "s' = (put l new_node ?sb)\<lparr>free_locations := free_locations s - {l}\<rparr>"
  have nd': "nd s' = (nd s)(l := new_node)" using ll by (simp add: s'_def)
  have f: "length (nodes s') = length (nodes s)" "free_locations s' = free_locations s - {l}"
    "saved s' = saved ?sb" by (simp_all add: s'_def)
  have "bounded s'" using s ne l by (auto simp: bounded_def f nd' new_node_def)
  moreover have "live s' = insert l (live s)" using l ll by (auto simp: live_def f)
  moreover have "snap c s' \<and> l \<in> saved s'" if c: "snap c s" and z: "0 \<in> saved s" for c
  proof -
    have "n_parent new_node \<in> saved ?sb" using z b(3) by (auto simp: new_node_def)
    then show ?thesis using snap_put [OF b(4) [OF c], of l new_node] ll b(2) f by (simp add: s'_def)
  qed
  moreover have "take_location s = Some (s', l)"
    using False b(1) ll by (simp add: take_location_def Let_def l_def [symmetric] s'_def put_def)
  moreover have "l \<notin> live s" "l \<noteq> 0" using l s by (auto simp: live_def bounded_def)
  ultimately show thesis using that [of s' l] nd' f ll b(3) by simp
qed

text \<open>
  \<open>add_node(from, c)\<close> puts an empty leaf into a location that was not live and links it. Everything
  else is as before, and the backup stays good if \<open>from\<close> has been backed up.
\<close>

lemma add_node_spec:
  assumes s: "bounded s" and i: "i \<in> live s"
  obtains s' n where "add_node s i c = Some (s', n)" and "n \<notin> live s" and "live s' = insert n (live s)"
    and "nd s' = (nd s)(i := (nd s i)\<lparr>n_children := (n_children (nd s i))(c := n)\<rparr>, n := leaf_node i [c])"
    and "bounded s'" and "saved s \<subseteq> saved s'"
    and "\<And>k. snap k s \<Longrightarrow> 0 \<in> saved s \<Longrightarrow> i \<in> saved s \<Longrightarrow> snap k s' \<and> n \<in> saved s'"
proof -
  have il: "i < length (nodes s)" using i by (rule live_less)
  then have "0 < length (nodes s)" by linarith
  from take_location_spec [OF s this] obtain s1 n where r: "take_location s = Some (s1, n)"
    and n: "n \<notin> live s" "n \<noteq> 0" and l: "live s1 = insert n (live s)" and nd1: "nd s1 = (nd s)(n := new_node)"
    and b1: "bounded s1" and len: "length (nodes s) \<le> length (nodes s1)" "n < length (nodes s1)"
    and sv: "saved s \<subseteq> saved s1" and sn: "\<And>c. snap c s \<Longrightarrow> 0 \<in> saved s \<Longrightarrow> snap c s1 \<and> n \<in> saved s1"
    by blast
  have ni: "n \<noteq> i" "i < length (nodes s1)" using n i il len by auto
  define I where "I = (nd s i)\<lparr>n_children := (n_children (nd s i))(c := n)\<rparr>"
  define s' where "s' = put n (leaf_node i [c]) (put n (new_node\<lparr>n_parent := i\<rparr>) (put i I s1))"
  have nd': "nd s' = (nd s)(i := I, n := leaf_node i [c])"
    using ni len nd1 by (auto simp: s'_def fun_eq_iff)
  have "add_node s i c = Some (s', n)"
    unfolding add_node_def r using ni len nd1
    by (simp add: s'_def I_def leaf_node_def)
  moreover have "bounded s'"
    unfolding s'_def using ni len nd1 n bounded_parent [OF b1, of i] bounded_root [OF b1]
    by (intro bounded_put) (auto simp: I_def b1)
  moreover have "snap k s' \<and> n \<in> saved s'" if "snap k s" "0 \<in> saved s" "i \<in> saved s" for k
  proof -
    have k1: "snap k s1" "n \<in> saved s1" "i \<in> saved s1" using sn [OF that(1,2)] sv that(3) by auto
    have "n_parent I \<in> saved s1" if "i \<noteq> 0"
      using k1 ni nd1 that by (auto simp: I_def snap_def)
    then have "snap k (put i I s1)" using snap_put [OF k1(1) ni(2) k1(3)] by blast
    then show ?thesis unfolding s'_def
      using snap_put k1 ni len by (simp add: snap_put)
  qed
  ultimately show thesis
    using that [of s' n] n l nd' sv unfolding I_def by (simp add: s'_def)
qed

section \<open>calculate_hash\<close>

definition rehash :: "state_impl \<Rightarrow> state_impl \<Rightarrow> bool" where
  "rehash s s' \<longleftrightarrow> s'\<lparr>nodes := nodes s\<rparr> = s \<and> length (nodes s') = length (nodes s) \<and>
     (\<forall>i. (nd s' i)\<lparr>n_hash := []\<rparr> = (nd s i)\<lparr>n_hash := []\<rparr>)"

lemma rehash_fields:
  assumes "rehash s s'"
  shows "live s' = live s" and "saved s' = saved s" and "free_locations s' = free_locations s"
    and "n_parent (nd s' i) = n_parent (nd s i)" and "n_prefix (nd s' i) = n_prefix (nd s i)"
    and "n_value (nd s' i) = n_value (nd s i)" and "n_children (nd s' i) = n_children (nd s i)"
proof -
  have eq: "free_locations s' = free_locations s" "backup s' = backup s"
    "permanent_nodes_count s' = permanent_nodes_count s" "length (nodes s') = length (nodes s)"
    using assms by (metis rehash_def state_impl.select_convs state_impl.surjective state_impl.update_convs(1))+
  then show "live s' = live s" "saved s' = saved s" "free_locations s' = free_locations s"
    by (simp_all add: live_def saved_def)
  have "(nd s' i)\<lparr>n_hash := []\<rparr> = (nd s i)\<lparr>n_hash := []\<rparr>" using assms by (simp add: rehash_def)
  then show "n_parent (nd s' i) = n_parent (nd s i)" "n_prefix (nd s' i) = n_prefix (nd s i)"
    "n_value (nd s' i) = n_value (nd s i)" "n_children (nd s' i) = n_children (nd s i)"
    by (cases "nd s i"; cases "nd s' i"; simp)+
qed

lemma rehash_trie: "rehash s s' \<Longrightarrow> trie (nd s) (live s) p \<Longrightarrow> trie (nd s') (live s') p"
  using rehash_fields [of s s'] by (auto intro: trie_cong)

lemma rehash_contents: "rehash s s' \<Longrightarrow> contents (nd s) (live s) p m \<Longrightarrow> contents (nd s') (live s') p m"
  using rehash_fields [of s s'] by (auto simp: contents_def)

lemma rehash_compact: "rehash s s' \<Longrightarrow> compact (nd s) (live s) \<Longrightarrow> compact (nd s') (live s')"
  using rehash_fields [of s s'] by (simp add: compact_def two_children_def)

lemma rehash_bounded: "rehash s s' \<Longrightarrow> bounded s \<Longrightarrow> bounded s'"
  using rehash_fields [of s s'] by (simp add: bounded_def rehash_def)

lemma rehash_iff:
  "rehash s s' \<longleftrightarrow> backup s' = backup s \<and> free_locations s' = free_locations s \<and>
     nodes_current_state s' = nodes_current_state s \<and>
     permanent_nodes_count s' = permanent_nodes_count s \<and> length (nodes s') = length (nodes s) \<and>
     (\<forall>i. (nd s' i)\<lparr>n_hash := []\<rparr> = (nd s i)\<lparr>n_hash := []\<rparr>)"
  by (cases s; cases s') (auto simp: rehash_def)

lemma rehash_put:
  assumes i: "i < length (nodes s)" and r: "rehash (put i ((nd s i)\<lparr>n_hash := h\<rparr>) s) s'"
  shows "rehash s s'"
proof -
  have "((nd s)(i := (nd s i)\<lparr>n_hash := h\<rparr>)) j\<lparr>n_hash := []\<rparr> = (nd s j)\<lparr>n_hash := []\<rparr>" for j
    by simp
  then show ?thesis using r i by (simp add: rehash_iff) (simp add: put_def)
qed

lemma rehash_refl: "rehash s s"
  by (simp add: rehash_def)

lemma those_map_Some: "(\<And>x. x \<in> set xs \<Longrightarrow> f x = Some (g x)) \<Longrightarrow> those (map f xs) = Some (map g xs)"
  by (induction xs) auto

lemma hash_input_live:
  assumes t: "trie (nd s) (live s) p" and i: "i \<in> live s"
  shows "hash_input (nodes s) (nd s i) = Some (n_value (nd s i) @ n_prefix (nd s i) @
     concat (map (\<lambda>c. n_hash (nd s (n_children (nd s i) c))) (child_bytes (nd s i))))"
proof -
  have "map_option n_hash (vec_get (nodes s) (n_children (nd s i) c)) =
      Some (n_hash (nd s (n_children (nd s i) c)))" if "c \<in> set (child_bytes (nd s i))" for c
    using vec_get_live [OF trie_child(1) [OF t i]] that by simp
  then have "those (map (\<lambda>c. map_option n_hash (vec_get (nodes s) (n_children (nd s i) c))) (child_bytes (nd s i)))
      = Some (map (\<lambda>c. n_hash (nd s (n_children (nd s i) c))) (child_bytes (nd s i)))"
    by (rule those_map_Some)
  then show ?thesis by (simp add: hash_input_def)
qed

text \<open>
  \<open>calculate_hash(cur)\<close>, called when all hashes off the way from \<open>cur\<close> to the root are right, ends
  with all hashes right and changes nothing else.
\<close>

lemma calculate_hash_spec:
  assumes "trie (nd s) (live s) p" and "cur \<in> live s" and "hash_ok_off H (nd s) (live s) p (p cur)"
  shows "\<exists>s'. calculate_hash H s cur = Some s' \<and> rehash s s' \<and> hash_ok H (nd s') (live s') \<and>
    (\<forall>c. snap c s \<longrightarrow> cur \<in> saved s \<longrightarrow> snap c s')"
  using assms
proof (induction "length (p cur)" arbitrary: s cur rule: less_induct)
  case less
  note t = less.prems(1) and cur = less.prems(2) and h = less.prems(3)
  have cl: "cur < length (nodes s)" using cur by (rule live_less)
  define s1 where "s1 = put cur ((nd s cur)\<lparr>n_hash := node_hash H (nd s) cur\<rparr>) s"
  have nd1: "nd s1 = (nd s)(cur := (nd s cur)\<lparr>n_hash := node_hash H (nd s) cur\<rparr>)"
    and l1: "live s1 = live s" "saved s1 = saved s" using cl by (simp_all add: s1_def)
  have t1: "trie (nd s1) (live s1) p" using trie_cong [OF t, of "nd s1"] by (simp add: nd1 l1)
  have sn: "snap c s1" if "snap c s" "cur \<in> saved s" for c
    unfolding s1_def using that cl by (intro snap_put) (auto simp: snap_def)
  have r1: "rehash s s1" unfolding s1_def by (rule rehash_put [OF cl]) (rule rehash_refl)
  have eq: "calculate_hash H s cur =
      (if cur = 0 then Some s1 else calculate_hash H s1 (n_parent (nd s cur)))"
    unfolding calculate_hash.simps [of H s cur] s1_def
    using vec_get_live [OF cur] hash_input_live [OF t cur] cl
    by (cases "cur = 0"; cases "child_bytes (nd s cur) = []"; simp add: node_hash_def)
  show ?case
  proof (cases "cur = 0")
    case True
    then show ?thesis
      using eq r1 sn hash_ok_off_step(2) [OF t h cur nd1] l1 by simp
  next
    case False
    let ?q = "n_parent (nd s cur)"
    note pa = trie_parent [OF t cur False]
    have "hash_ok_off H (nd s1) (live s1) p (p ?q)"
      using hash_ok_off_step(1) [OF t h cur nd1 False] l1 by simp
    then obtain s' where s': "calculate_hash H s1 ?q = Some s'" "rehash s1 s'"
      "hash_ok H (nd s') (live s')" "\<And>c. snap c s1 \<Longrightarrow> ?q \<in> saved s1 \<Longrightarrow> snap c s'"
      using less.hyps [OF _ t1] pa(2) trie_parent_shorter [OF t cur False] l1 by metis
    have "snap c s'" if c: "snap c s" "cur \<in> saved s" for c
      using s'(4) [OF sn [OF c]] c cl False l1 by (auto simp: snap_def)
    moreover have "rehash s s'" using rehash_put [OF cl] s'(2) by (simp add: s1_def)
    ultimately show ?thesis using eq False s' by auto
  qed
qed

end
