(* ===== verification/State_Lookup.thy ===== *)
theory State_Lookup
  imports State_Ops
begin

text \<open>
  Reading the state: \<open>get_node_index\<close> returns the node whose path is the given one, or \<open>-1\<close>; with it
  \<open>get\<close>, \<open>get_node_hash\<close> and \<open>get_node_children\<close>.
\<close>

section \<open>The invariant\<close>

definition state_ok ::
  "hash_function \<Rightarrow> state_impl \<Rightarrow> (nat \<Rightarrow> string) \<Rightarrow> (string \<Rightarrow> string) \<Rightarrow> bool" where
  "state_ok H s p m \<longleftrightarrow> bounded s \<and> trie (nd s) (live s) p \<and> contents (nd s) (live s) p m \<and>
     compact (nd s) (live s) \<and> hash_ok H (nd s) (live s)"

text \<open>The state \<open>s\<close> stands for the map \<open>m\<close> from keys to values.\<close>

definition represents :: "hash_function \<Rightarrow> state_impl \<Rightarrow> (string \<Rightarrow> string) \<Rightarrow> bool" where
  "represents H s m \<longleftrightarrow> (\<exists>p. state_ok H s p m)"

section \<open>get_node_index\<close>

definition found :: "nat set \<Rightarrow> (nat \<Rightarrow> string) \<Rightarrow> string \<Rightarrow> int \<Rightarrow> bool" where
  "found L p q r \<longleftrightarrow> (if q \<in> p ` L then \<exists>j\<in>L. p j = q \<and> r = int j else r = - 1)"

lemma found_node: "trie N L p \<Longrightarrow> j \<in> L \<Longrightarrow> p j = q \<Longrightarrow> found L p q (int j)"
  by (auto simp: found_def)

lemma found_none: "q \<notin> p ` L \<Longrightarrow> found L p q (- 1)"
  by (simp add: found_def)

lemma trie_step:
  assumes t: "trie N L p" and cur: "cur \<in> L" and q: "q < length path" "p cur = take q path"
  shows "n_children N' (path ! q) = 0 \<Longrightarrow> N' = N cur \<Longrightarrow> path \<notin> p ` L"
    and "n_children (N cur) (path ! q) = k \<Longrightarrow> k \<noteq> 0 \<Longrightarrow>
      k \<in> L \<and> take (Suc q) path = p (n_parent (N k)) @ [hd (n_prefix (N k))]"
proof -
  have path: "path = p cur @ path ! q # drop (Suc q) path" using q by (simp add: id_take_nth_drop)
  show "path \<notin> p ` L" if "n_children N' (path ! q) = 0" "N' = N cur"
    using leaf_path_new [OF t cur, of "path ! q" "drop (Suc q) path"] that path by metis
  show "k \<in> L \<and> take (Suc q) path = p (n_parent (N k)) @ [hd (n_prefix (N k))]"
    if "n_children (N cur) (path ! q) = k" "k \<noteq> 0"
    using trie_child [OF t cur, of "path ! q"] that q by (simp add: take_Suc_conv_app_nth)
qed

lemma edge_prefix:
  assumes t: "trie N L p" and cur: "cur \<in> L" "cur \<noteq> 0"
    and ti: "take i path = p (n_parent (N cur)) @ [hd (n_prefix (N cur))]" and path: "path \<in> p ` L"
  shows "prefix (p cur) path"
proof -
  from path obtain j where j: "j \<in> L" "path = p j" by auto
  have "prefix (p (n_parent (N cur)) @ [hd (n_prefix (N cur))]) (p j)"
    using ti j take_is_prefix by metis
  with trie_enter [OF t cur j(1)] j show ?thesis by simp
qed

lemma get_node_index_loop_found:
  assumes t: "trie (nd s) (live s) p" and "cur \<in> live s" and "cur \<noteq> 0" and "0 < i" and "i \<le> length path"
    and "take i path = p (n_parent (nd s cur)) @ [hd (n_prefix (nd s cur))]"
  shows "\<exists>r. get_node_index_loop (nodes s) path cur i True = Some r \<and> found (live s) p path r"
  using assms(2-)
proof (induction "length path - i" arbitrary: cur i rule: less_induct)
  case less
  note cur = less.prems(1,2) and i = less.prems(3,4) and ti = less.prems(5)
  let ?n = "nd s cur"
  let ?pre = "n_prefix ?n" and ?b = "p (n_parent ?n)"
  note pa = trie_parent [OF t cur]
  have lb: "Suc (length ?b) = i" using arg_cong [OF ti, of length] i by simp
  have pb: "?b = take (i - 1) path" using arg_cong [OF ti, of butlast] i by (simp add: butlast_take)
  have none: "path \<notin> p ` live s" if "\<not> prefix (p cur) path"
    using edge_prefix [OF t cur ti] that by blast
  have lp: "length (p cur) = i - 1 + length ?pre" using pa(4) lb by simp
  have get: "vec_get (nodes s) cur = Some ?n" by (rule vec_get_live [OF cur(1)])
  have step: "\<exists>r. (if n_children ?n (path ! q) = 0 then Some (- 1)
      else get_node_index_loop (nodes s) path (n_children ?n (path ! q)) (Suc q) True) = Some r \<and>
      found (live s) p path r"
    if q: "q < length path" "i \<le> q" "p cur = take q path" for q
  proof (cases "n_children ?n (path ! q) = 0")
    case True
    then show ?thesis using trie_step(1) [OF t cur(1) q(1,3) True] found_none by simp
  next
    case False
    with trie_step(2) [OF t cur(1) q(1,3) refl] less.hyps [of "Suc q" "n_children ?n (path ! q)"] q
    show ?thesis by simp
  qed
  consider (end_) "i = length path" | (one) "i < length path" "length ?pre = 1"
    | (short) "i < length path" "1 < length ?pre" "length ?pre - 1 < length path - i"
    | (full) "i < length path" "1 < length ?pre" "length ?pre - 1 = length path - i"
    | (long) "i < length path" "1 < length ?pre" "length path - i < length ?pre - 1"
    using i pa(1) by (metis One_nat_def Suc_lessI le_neq_implies_less length_greater_0_conv linorder_neqE_nat)
  then show ?case
  proof cases
    case end_
    show ?thesis
    proof (cases "length ?pre = 1")
      case True
      then have "p cur = path" using pa(4) ti end_ by (cases ?pre) auto
      then show ?thesis using True end_ get found_node [OF t cur(1)]
        by (subst get_node_index_loop.simps) simp
    next
      case False
      have "\<not> prefix (p cur) path" using False lp end_ pa(1) i
        by (auto dest!: prefix_length_le simp: Suc_le_eq neq_Nil_conv)
      with none False end_ get show ?thesis
        by (subst get_node_index_loop.simps) (simp add: found_none)
    qed
  next
    case one
    then have "p cur = take i path" using pa(4) ti by (cases ?pre) auto
    from step [OF one(1) _ this] one get show ?thesis
      by (subst get_node_index_loop.simps) simp
  next
    case short
    let ?q = "i + (length ?pre - 1)"
    have sub: "substr path (i - 1) (length ?pre) = Some (take (length ?pre) (drop (i - 1) path))"
      using i by (simp add: substr_def)
    have q: "i - 1 + length ?pre = ?q" using short i by simp
    have tq: "take ?q path = take (i - 1) path @ take (length ?pre) (drop (i - 1) path)"
      by (simp only: q [symmetric] take_add)
    show ?thesis
    proof (cases "?pre = take (length ?pre) (drop (i - 1) path)")
      case True
      then have "p cur = take ?q path" using pa(4) pb tq by simp
      from step [OF _ _ this] short
      have r: "\<exists>r. (if n_children ?n (path ! ?q) = 0 then Some (- 1)
        else get_node_index_loop (nodes s) path (n_children ?n (path ! ?q)) (Suc ?q) True) = Some r \<and>
        found (live s) p path r" by simp
      have "get_node_index_loop (nodes s) path cur i True = (if n_children ?n (path ! ?q) = 0 then Some (- 1)
        else get_node_index_loop (nodes s) path (n_children ?n (path ! ?q)) (Suc ?q) True)"
        using True short sub i get by (subst get_node_index_loop.simps) (simp add: Let_def not_le)
      with r show ?thesis by (simp only:)
    next
      case False
      have "\<not> prefix (p cur) path"
      proof
        assume "prefix (p cur) path"
        then have "p cur = take ?q path" using lp q by (metis append_eq_conv_conj prefixE)
        then show False using pa(4) pb tq False by simp
      qed
      with none False short sub i get show ?thesis
        by (subst get_node_index_loop.simps) (simp add: found_none not_le)
    qed
  next
    case full
    have sub: "substr path (i - 1) (length path) = Some (drop (i - 1) path)"
      using i by (simp add: substr_def)
    show ?thesis
    proof (cases "?pre = drop (i - 1) path")
      case True
      then have "p cur = path" using pa(4) pb by simp
      then show ?thesis using True full sub i get found_node [OF t cur(1)]
        by (subst get_node_index_loop.simps) (simp add: not_le)
    next
      case False
      have "\<not> prefix (p cur) path"
      proof
        assume "prefix (p cur) path"
        moreover have "length (p cur) = length path" using lp full i by simp
        ultimately have "p cur = path" by (metis append_eq_conv_conj prefixE take_all order_refl)
        then show False using pa(4) pb False by (metis append_eq_conv_conj lb diff_Suc_1)
      qed
      with none False full sub i get show ?thesis
        by (subst get_node_index_loop.simps) (simp add: found_none not_le)
    qed
  next
    case long
    have "\<not> prefix (p cur) path" using lp long i by (auto dest!: prefix_length_le)
    with none long i get show ?thesis
      by (subst get_node_index_loop.simps) (simp add: found_none not_le)
  qed
qed

lemma get_node_index_found:
  assumes t: "trie (nd s) (live s) p"
  shows "\<exists>r. get_node_index s path = Some r \<and> found (live s) p path r"
proof (cases "path = []")
  case True
  then show ?thesis
    using trie_root [OF t] found_node [OF t, of 0 "[]"]
    by (simp add: get_node_index_def get_node_index_loop.simps)
next
  case False
  then have q: "0 < length path" by simp
  have r: "0 \<in> live s" "n_prefix (nd s 0) = []" "p 0 = take 0 path" using trie_root [OF t] by auto
  have get: "vec_get (nodes s) 0 = Some (nd s 0)" by (rule vec_get_live [OF r(1)])
  show ?thesis
  proof (cases "n_children (nd s 0) (path ! 0) = 0")
    case True
    then show ?thesis using trie_step(1) [OF t r(1) q r(3) True] found_none get r q
      unfolding get_node_index_def by (subst get_node_index_loop.simps) simp
  next
    case c: False
    note st = trie_step(2) [OF t r(1) q r(3) refl c]
    have "\<exists>r. get_node_index_loop (nodes s) path (n_children (nd s 0) (path ! 0)) (Suc 0) True = Some r \<and>
        found (live s) p path r"
      by (rule get_node_index_loop_found [OF t _ c]) (use st q in \<open>auto simp: Suc_le_eq\<close>)
    then show ?thesis using get r q c
      unfolding get_node_index_def by (subst get_node_index_loop.simps) simp
  qed
qed

lemma get_node_index_cases:
  assumes t: "trie (nd s) (live s) p"
  obtains (node) i where "i \<in> live s" "p i = k" "get_node_index s k = Some (int i)"
    "vec_get (nodes s) i = Some (nd s i)"
  | (none) "k \<notin> p ` live s" "get_node_index s k = Some (- 1)"
proof -
  from get_node_index_found [OF t] obtain r where
    r: "get_node_index s k = Some r" "found (live s) p k r" by blast
  show thesis
  proof (cases "k \<in> p ` live s")
    case True
    then show thesis using r node vec_get_live by (auto simp: found_def)
  qed (use r none in \<open>auto simp: found_def\<close>)
qed

section \<open>Reading\<close>

lemma state_get_represents:
  assumes "represents H s m"
  shows "state_get s k = Some (m k)"
proof -
  from assms obtain p where ok: "state_ok H s p m" by (auto simp: represents_def)
  then have t: "trie (nd s) (live s) p" and c: "contents (nd s) (live s) p m" by (auto simp: state_ok_def)
  from t show ?thesis
  proof (cases rule: get_node_index_cases [where k = k])
    case (node i)
    then show ?thesis using contents_at [OF c node(1)] by (simp add: state_get_def)
  next
    case none
    then show ?thesis using contents_off [OF c none(1)] by (simp add: state_get_def)
  qed
qed

text \<open>The hash of a node depends on the contents only.\<close>

lemma get_node_hash_unique:
  assumes "represents H s m" and "represents H s' m"
  shows "get_node_hash s k = get_node_hash s' k"
proof -
  from assms obtain p p' where ok: "state_ok H s p m" and ok': "state_ok H s' p' m"
    by (auto simp: represents_def)
  note d = ok [unfolded state_ok_def] and d' = ok' [unfolded state_ok_def]
  have t: "trie (nd s) (live s) p" "trie (nd s') (live s') p'"
    and c: "contents (nd s) (live s) p m" "contents (nd s') (live s') p' m"
    and h: "hash_ok H (nd s) (live s)" "hash_ok H (nd s') (live s')" using d d' by auto
  have K: "p ` live s = p' ` live s'"
    using compact_paths [OF t(1) c(1)] compact_paths [OF t(2) c(2)] d d' by blast
  from t(1) show ?thesis
  proof (cases rule: get_node_index_cases [where k = k])
    case (node i)
    from t(2) show ?thesis
    proof (cases rule: get_node_index_cases [where k = k])
      case (node j)
      with same_hash [OF t c h K \<open>i \<in> live s\<close> node(1)] \<open>p i = k\<close>
        \<open>get_node_index s k = Some (int i)\<close> \<open>vec_get (nodes s) i = Some (nd s i)\<close>
      show ?thesis by (simp add: get_node_hash_def)
    qed (use node K in auto)
  next
    case none
    from t(2) none(2) K none(1) show ?thesis
      by (cases rule: get_node_index_cases [where k = k]) (auto simp: get_node_hash_def)
  qed
qed

text \<open>
  The children of a node: the labels, in increasing order of their first byte, of the nodes directly
  below; below is what extends the path without another node in between.
\<close>

lemma get_node_children_spec:
  assumes t: "trie (nd s) (live s) p"
  shows "i \<in> live s \<Longrightarrow> get_node_children s (p i) = Some (return
      (map (\<lambda>c. n_prefix (nd s (n_children (nd s i) c))) (child_bytes (nd s i))))"
    and "k \<notin> p ` live s \<Longrightarrow> get_node_children s k = Some (throw (Out_of_range ''No node at this path''))"
proof -
  assume i: "i \<in> live s"
  have "map_option n_prefix (vec_get (nodes s) (n_children (nd s i) c)) =
      Some (n_prefix (nd s (n_children (nd s i) c)))" if "c \<in> set (child_bytes (nd s i))" for c
    using vec_get_live [OF trie_child(1) [OF t i]] that by simp
  then have ps: "those (map (\<lambda>c. map_option n_prefix (vec_get (nodes s) (n_children (nd s i) c))) (child_bytes (nd s i)))
      = Some (map (\<lambda>c. n_prefix (nd s (n_children (nd s i) c))) (child_bytes (nd s i)))"
    by (rule those_map_Some)
  from t show "get_node_children s (p i) = Some (return
      (map (\<lambda>c. n_prefix (nd s (n_children (nd s i) c))) (child_bytes (nd s i))))"
  proof (cases rule: get_node_index_cases [where k = "p i"])
    case (node j)
    then have "j = i" using trie_unique [OF t _ i] by simp
    with node ps show ?thesis by (simp add: get_node_children_def)
  qed (use i in auto)
next
  assume "k \<notin> p ` live s"
  with t show "get_node_children s k = Some (throw (Out_of_range ''No node at this path''))"
    by (cases rule: get_node_index_cases [where k = k]) (auto simp: get_node_children_def)
qed

end
