(* ===== verification/State_Update.thy ===== *)
theory State_Update
  imports State_Lookup
begin

text \<open>
  Writing the state: \<open>set\<close> with a value makes the trie stand for the updated map, from every trie it can
  meet: an existing node, a new leaf, an edge split at the end of the key and an edge split with a new
  leaf beside it.
\<close>

lemma char0_hd: "w \<noteq> [] \<Longrightarrow> char0 w = hd w"
  by (cases w) (simp_all add: char0_def)

lemma saved_root:
  assumes t: "trie (nd s) (live s) p" and sn: "snap c s"
  shows "i \<in> live s \<Longrightarrow> i \<in> saved s \<Longrightarrow> 0 \<in> saved s"
proof (induction "length (p i)" arbitrary: i rule: less_induct)
  case less
  show ?case
  proof (cases "i = 0")
    case False
    have "n_parent (nd s i) \<in> saved s" using sn less.prems False live_less by (auto simp: snap_def)
    then show ?thesis
      using less.hyps [OF trie_parent_shorter [OF t less.prems(1) False]]
        trie_parent(2) [OF t less.prems(1) False] by blast
  qed (use less in auto)
qed

section \<open>Storing the value\<close>

definition compact_but :: "nat \<Rightarrow> store \<Rightarrow> nat set \<Rightarrow> bool" where
  "compact_but k N L \<longleftrightarrow> (\<forall>i\<in>L. i \<noteq> 0 \<longrightarrow> i \<noteq> k \<longrightarrow> n_value (N i) \<noteq> [] \<or> two_children (N i))"

lemma compact_compact_but: "compact N L \<Longrightarrow> compact_but k N L"
  by (simp add: compact_def compact_but_def)

text \<open>The node of the key has been found or made; all other keys are as in \<open>m\<close>.\<close>

definition located ::
  "hash_function \<Rightarrow> state_impl \<Rightarrow> state_impl \<Rightarrow> (nat \<Rightarrow> string) \<Rightarrow> (string \<Rightarrow> string) \<Rightarrow> string \<Rightarrow> nat \<Rightarrow> bool"
  where
  "located H s s' p m key cur \<longleftrightarrow> bounded s' \<and> trie (nd s') (live s') p \<and> cur \<in> live s' \<and> p cur = key \<and>
     (\<exists>m'. contents (nd s') (live s') p m' \<and> (\<forall>x. x \<noteq> key \<longrightarrow> m' x = m x)) \<and>
     hash_ok_off H (nd s') (live s') p key \<and> compact_but cur (nd s') (live s') \<and>
     (\<forall>c. snap c s \<longrightarrow> snap c s')"

lemma hash_ok_off_weaken: "hash_ok H N L \<Longrightarrow> hash_ok_off H N L p k"
  by (simp add: hash_ok_def hash_ok_off_def)

lemma store_value:
  assumes l: "located H s s1 p m key cur" and v: "v \<noteq> []"
  shows "\<exists>s'. do { s \<leftarrow> backup_nodes s1 cur; s \<leftarrow> upd_node cur (\<lambda>n. n\<lparr>n_value := v\<rparr>) s;
      calculate_hash H s cur } = Some s' \<and> state_ok H s' p (m(key := v)) \<and> (\<forall>c. snap c s \<longrightarrow> snap c s')"
proof -
  from l obtain m' where bd: "bounded s1" and t: "trie (nd s1) (live s1) p" and cur: "cur \<in> live s1"
    and key: "p cur = key" and k: "contents (nd s1) (live s1) p m'" and m': "\<And>x. x \<noteq> key \<Longrightarrow> m' x = m x"
    and h: "hash_ok_off H (nd s1) (live s1) p key" and cp: "compact_but cur (nd s1) (live s1)"
    and sn: "\<And>c. snap c s \<Longrightarrow> snap c s1" by (auto simp: located_def)
  have cl: "cur < length (nodes s1)" using cur by (rule live_less)
  obtain b where
    b: "backup_nodes s1 cur = Some (s1\<lparr>backup := b\<rparr>)" "cur \<in> saved (s1\<lparr>backup := b\<rparr>)"
      "\<And>c. snap c s1 \<Longrightarrow> snap c (s1\<lparr>backup := b\<rparr>)" by (metis backup_nodes_spec [OF bd cl])
  define s2 where "s2 = put cur ((nd s1 cur)\<lparr>n_value := v\<rparr>) (s1\<lparr>backup := b\<rparr>)"
  have nd2: "nd s2 = (nd s1)(cur := (nd s1 cur)\<lparr>n_value := v\<rparr>)" and l2: "live s2 = live s1"
    using cl by (simp_all add: s2_def)
  have t2: "trie (nd s2) (live s2) p" using trie_cong [OF t, of "nd s2"] by (simp add: nd2 l2)
  have k2: "contents (nd s2) (live s2) p (m'(p cur := v))"
    unfolding l2 by (rule contents_value [OF t k cur]) (auto simp: nd2)
  have "m'(p cur := v) = m(key := v)" using m' key by auto
  note k2 = k2 [unfolded this]
  have "hash_ok_off H (nd s2) (live s2) p (p cur)"
    unfolding hash_ok_off_def
  proof (intro ballI impI)
    fix i assume i: "i \<in> live s2" "\<not> prefix (p i) (p cur)"
    then have "i \<noteq> cur" by auto
    then have "node_hash H (nd s2) i = node_hash H (nd s1) i"
      by (intro node_hash_cong) (auto simp: nd2)
    then show "n_hash (nd s2 i) = node_hash H (nd s2) i"
      using h i key \<open>i \<noteq> cur\<close> by (simp add: hash_ok_off_def nd2 l2)
  qed
  with calculate_hash_spec [OF t2, of cur H] cur l2 obtain s' where
    s': "calculate_hash H s2 cur = Some s'" "rehash s2 s'" "hash_ok H (nd s') (live s')"
      "\<And>c. snap c s2 \<Longrightarrow> cur \<in> saved s2 \<Longrightarrow> snap c s'" by auto
  have "compact (nd s2) (live s2)"
    using cp v by (auto simp: compact_def compact_but_def nd2 l2 two_children_def)
  moreover have "bounded s2" unfolding s2_def
    using bd cl bounded_parent [OF bd, of cur] bounded_root [OF bd] by (intro bounded_put) simp_all
  ultimately have "state_ok H s' p (m(key := v))"
    using s' t2 k2 rehash_trie rehash_contents rehash_compact rehash_bounded
    by (simp add: state_ok_def)
  moreover have "snap c s'" if "snap c s" for c
  proof (rule s'(4))
    have "snap c (s1\<lparr>backup := b\<rparr>)" using that sn b(3) by blast
    then show "snap c s2" unfolding s2_def using cl b(2) by (intro snap_put) (auto simp: snap_def)
  qed (simp add: s2_def b(2))
  ultimately show ?thesis using b(1) s'(1) cl by (simp add: s2_def)
qed

section \<open>Splitting an edge\<close>

lemma split_edge_spec:
  assumes ok: "state_ok H s p m" and j: "j \<in> live s" "j \<noteq> 0"
    and uv: "n_prefix (nd s j) = u @ v" "u \<noteq> []" "v \<noteq> []"
  obtains s' n where "split_edge H s j (length u) = Some (s', n)"
    and "n \<notin> live s" and "n \<in> live s'" and "bounded s'"
    and "trie (nd s') (live s') (p(n := p (n_parent (nd s j)) @ u))"
    and "contents (nd s') (live s') (p(n := p (n_parent (nd s j)) @ u)) m"
    and "hash_ok H (nd s') (live s')" and "compact_but n (nd s') (live s')"
    and "n_children (nd s' n) = (\<lambda>_. 0)(hd v := j)" and "n_value (nd s' n) = []"
    and "\<And>c. snap c s \<Longrightarrow> snap c s' \<and> n \<in> saved s'"
proof -
  have bd: "bounded s" and t: "trie (nd s) (live s) p" and k: "contents (nd s) (live s) p m"
    and cp: "compact (nd s) (live s)" and h: "hash_ok H (nd s) (live s)"
    using ok by (auto simp: state_ok_def)
  let ?q = "n_parent (nd s j)"
  note pa = trie_parent [OF t j]
  have jl: "j < length (nodes s)" using j by (simp add: live_less)
  obtain b where
    b: "backup_nodes s j = Some (s\<lparr>backup := b\<rparr>)" "j \<in> saved (s\<lparr>backup := b\<rparr>)"
      "\<And>c. snap c s \<Longrightarrow> snap c (s\<lparr>backup := b\<rparr>)" by (metis backup_nodes_spec [OF bd jl])
  let ?s1 = "s\<lparr>backup := b\<rparr>"
  have t1: "trie (nd ?s1) (live ?s1) p" and q1: "?q \<in> live ?s1" and b1: "bounded ?s1"
    using t pa(2) bd by simp_all
  from add_node_spec [OF b1 q1, of "hd u"] obtain s2 n where
    a: "add_node ?s1 ?q (hd u) = Some (s2, n)" and n: "n \<notin> live s" and l2: "live s2 = insert n (live s)"
    and nd2: "nd s2 = (nd s)(?q := (nd s ?q)\<lparr>n_children := (n_children (nd s ?q))(hd u := n)\<rparr>,
        n := leaf_node ?q [hd u])"
    and b2: "bounded s2" and sv2: "saved ?s1 \<subseteq> saved s2"
    and sn2: "\<And>k. snap k ?s1 \<Longrightarrow> 0 \<in> saved ?s1 \<Longrightarrow> ?q \<in> saved ?s1 \<Longrightarrow> snap k s2 \<and> n \<in> saved s2"
    by auto
  have ne: "?q \<noteq> j" "?q \<noteq> n" "n \<noteq> j" "n \<noteq> 0"
    using trie_parent_neq [OF t j] pa(2) n j trie_root [OF t] by metis+
  have jl2: "j < length (nodes s2)" and nl2: "n < length (nodes s2)"
    using j l2 by (auto intro!: live_less)
  let ?S = "(leaf_node ?q u)\<lparr>n_children := (\<lambda>_. 0)(hd v := j)\<rparr>"
  let ?J = "(nd s j)\<lparr>n_parent := n, n_prefix := v\<rparr>"
  define s3 where "s3 = put n ((leaf_node ?q [hd u])\<lparr>n_children := (\<lambda>_. 0)(hd v := j)\<rparr>)
    (put j ((nd s j)\<lparr>n_parent := n\<rparr>) s2)"
  define s4 where "s4 = put j ?J (put n ?S s3)"
  have hv: "char0 (drop (length u) (n_prefix (nd s j))) = hd v" "char0 (n_prefix (nd s j)) = hd u"
    using uv by (simp_all add: char0_hd)
  have l4: "live s4 = insert n (live s)" "saved s4 = saved s2" by (simp_all add: s4_def s3_def l2)
  have nd4: "nd s4 = (nd s)(?q := (nd s ?q)\<lparr>n_children := (n_children (nd s ?q))(hd u := n)\<rparr>, n := ?S, j := ?J)"
    using ne jl2 nl2 by (auto simp: s4_def s3_def nd2 fun_eq_iff)
  let ?p = "p(n := p ?q @ u)"
  have t4: "trie (nd s4) (live s4) ?p"
    unfolding l4 by (rule trie_split [OF t j n uv nd4]) simp_all
  have new: "p ?q @ u \<notin> p ` live s" by (rule split_path_new [OF t j uv])
  have "contents (nd s4) (live s4) ?p (m(p ?q @ u := []))"
    unfolding l4 by (rule contents_insert [OF k n new]) (use ne n in \<open>auto simp: nd4\<close>)
  then have k4: "contents (nd s4) (live s4) ?p m"
    using contents_off [OF k new] by (metis fun_upd_triv)
  have "hash_ok_off H (nd s4) (live s4) ?p (p j)"
  proof (rule hash_ok_off_change [OF h t4])
    fix i assume i: "i \<in> live s4" "\<not> prefix (?p i) (p j)"
    have "prefix (p ?q @ u) (p j)" "prefix (p ?q) (p j)" using pa(4) uv by simp_all
    with i ne have "i \<noteq> n" "i \<noteq> ?q" "i \<noteq> j" by auto
    then show "i \<in> live s \<and> nd s4 i = nd s i" using i by (simp add: l4 nd4)
  qed
  moreover have "?p j = p j" using ne by simp
  ultimately obtain s' where s': "calculate_hash H s4 j = Some s'" "rehash s4 s'"
      "hash_ok H (nd s') (live s')" "\<And>c. snap c s4 \<Longrightarrow> j \<in> saved s4 \<Longrightarrow> snap c s'"
    using calculate_hash_spec [OF t4, of j H] j l4 by auto
  note f = rehash_fields [OF s'(2)]
  have "bounded s4"
    unfolding s4_def s3_def using b2 jl2 nl2 ne j(2) bounded_parent [OF bd, of j] bounded_parent [OF b2, of n]
    by (intro bounded_put) (auto simp: nd2)
  then have B: "bounded s'" using rehash_bounded [OF s'(2)] by simp
  have T: "trie (nd s') (live s') ?p" by (rule rehash_trie [OF s'(2) t4])
  have K: "contents (nd s') (live s') ?p m" by (rule rehash_contents [OF s'(2) k4])
  have C: "compact_but n (nd s') (live s')"
    unfolding compact_but_def
  proof (intro ballI impI)
    fix i assume i: "i \<in> live s'" "i \<noteq> 0" "i \<noteq> n"
    then have "n_value (nd s i) \<noteq> [] \<or> two_children (nd s i)" using cp f(1) l4 by (simp add: compact_def)
    then show "n_value (nd s' i) \<noteq> [] \<or> two_children (nd s' i)"
      using two_children_upd [of "nd s i" n "nd s' i" "hd u"] i ne f
      by (cases "i = ?q") (auto simp: nd4 two_children_def)
  qed
  have N: "n_children (nd s' n) = (\<lambda>_. 0)(hd v := j)" "n_value (nd s' n) = []" "n \<in> live s'"
    using f ne l4 by (simp_all add: nd4)
  have S: "snap c s' \<and> n \<in> saved s'" if c: "snap c s" for c
  proof -
    have c1: "snap c ?s1" using b(3) c by blast
    have z: "0 \<in> saved ?s1" using saved_root [OF t1 c1] j b(2) by simp
    have q: "?q \<in> saved ?s1" using c1 b(2) j jl by (auto simp: snap_def)
    note c2 = sn2 [OF c1 z q]
    have j2: "j \<in> saved s2" "?q \<in> saved s2" using b(2) q sv2 by auto
    have "snap c s4" unfolding s4_def s3_def
      using c2 j2 jl2 nl2 ne by (intro snap_put) (simp_all add: leaf_node_fields)
    then show ?thesis using s'(4) j2 l4 f(2) c2 by simp
  qed
  have "split_edge H s j (length u) = Some (s', n)"
    unfolding split_edge_def
    using vec_get_live [OF j(1)] b(1) a s'(1) jl2 nl2 ne hv uv(1)
    by (simp add: s4_def s3_def nd2 leaf_node_def new_node_def)
  then show thesis using that n N(3) B T K s'(3) C N(1,2) S by blast
qed

section \<open>Adding a leaf\<close>

text \<open>The loop on a node that has just been added: the rest of the key becomes its prefix.\<close>

lemma set_loop_fresh:
  assumes n: "n < length (nodes s)" "n \<noteq> 0" and leaf: "nd s n = leaf_node i [c]"
    and key: "k + length r = length key"
  shows "set_loop H s n 1 k r \<bind> split_at_end H key = Some (put n (leaf_node i (c # r)) s, n)"
proof (cases r)
  case Nil
  have "put n (leaf_node i [c]) s = s"
    using n leaf by (simp add: put_def leaf [symmetric] nd_def)
  then show ?thesis using Nil n leaf by (simp add: split_at_end_def nth_nodes)
next
  case (Cons d ds)
  have "child_bytes (nd s n) = []" using leaf by (simp add: child_bytes_Nil)
  then have "set_loop H s n 1 k r = Some (put n (leaf_node i (c # r)) s, n, 1, k)"
    using Cons n leaf by (simp add: nth_nodes leaf_node_def new_node_def)
  moreover have "vec_get (nodes (put n (leaf_node i (c # r)) s)) n = Some (leaf_node i (c # r))"
    using n by (simp add: put_def)
  ultimately show ?thesis using key Cons by (simp add: split_at_end_def)
qed

lemma add_leaf:
  assumes bd: "bounded s" and t: "trie (nd s) (live s) p" and k: "contents (nd s) (live s) p m"
    and h: "hash_ok H (nd s) (live s)" and cp: "compact_but i (nd s) (live s)"
    and i: "i \<in> live s" and c: "n_children (nd s i) c = 0"
    and ci: "\<And>n. n \<noteq> 0 \<Longrightarrow> i \<noteq> 0 \<Longrightarrow> n_value (nd s i) \<noteq> [] \<or>
        two_children ((nd s i)\<lparr>n_children := (n_children (nd s i))(c := n)\<rparr>)"
    and sv: "\<And>q. snap q s0 \<Longrightarrow> snap q s \<and> i \<in> saved s"
    and key: "j + length r = length key" "key = p i @ c # r"
  shows "\<exists>s' n p'. (do { (s, n) \<leftarrow> add_node s i c; set_loop H s n 1 j r }) \<bind> split_at_end H key
      = Some (s', n) \<and> located H s0 s' p' m key n"
proof -
  obtain s1 n where
    a: "add_node s i c = Some (s1, n)" and n: "n \<notin> live s" and l1: "live s1 = insert n (live s)"
    and nd1: "nd s1 = (nd s)(i := (nd s i)\<lparr>n_children := (n_children (nd s i))(c := n)\<rparr>, n := leaf_node i [c])"
    and b1: "bounded s1" and sv1: "saved s \<subseteq> saved s1"
    and sn1: "\<And>q. snap q s \<Longrightarrow> 0 \<in> saved s \<Longrightarrow> i \<in> saved s \<Longrightarrow> snap q s1 \<and> n \<in> saved s1"
    by (rule add_node_spec [OF bd i, of c]) (rule that)
  have nl: "n < length (nodes s1)" and il: "i < length (nodes s1)" using l1 i by (auto intro!: live_less)
  have n0: "n \<noteq> 0" "n \<noteq> i" using n i trie_root [OF t] by (metis, metis)
  define s2 where "s2 = put n (leaf_node i (c # r)) s1"
  have nd2: "nd s2 = (nd s)(i := (nd s i)\<lparr>n_children := (n_children (nd s i))(c := n)\<rparr>, n := leaf_node i (c # r))"
    using nl by (simp add: s2_def nd1)
  have l2: "live s2 = insert n (live s)" by (simp add: s2_def l1)
  have run: "(do { (s, n) \<leftarrow> add_node s i c; set_loop H s n 1 j r }) \<bind> split_at_end H key = Some (s2, n)"
    using a set_loop_fresh [OF nl n0(1), of i c j r key H] key(1) by (simp add: nd1 s2_def)
  let ?p = "p(n := p i @ c # r)"
  have t2: "trie (nd s2) (live s2) ?p"
    unfolding l2 by (rule trie_leaf [OF t i c n nd2]) simp_all
  have "contents (nd s2) (live s2) ?p (m(p i @ c # r := []))"
    unfolding l2 by (rule contents_insert [OF k n leaf_path_new [OF t i c]]) (use n0 n in \<open>auto simp: nd2\<close>)
  moreover have "hash_ok_off H (nd s2) (live s2) ?p key"
  proof (rule hash_ok_off_change [OF h t2])
    fix a assume a: "a \<in> live s2" "\<not> prefix (?p a) key"
    then have "a \<noteq> n" "a \<noteq> i" using key(2) n0 by (auto split: if_splits)
    then show "a \<in> live s \<and> nd s2 a = nd s a" using a by (simp add: l2 nd2)
  qed
  moreover have "compact_but n (nd s2) (live s2)"
    unfolding compact_but_def
  proof (intro ballI impI)
    fix a assume a: "a \<in> live s2" "a \<noteq> 0" "a \<noteq> n"
    show "n_value (nd s2 a) \<noteq> [] \<or> two_children (nd s2 a)"
    proof (cases "a = i")
      case True
      then show ?thesis using ci [OF n0(1)] a by (simp add: nd2)
    next
      case False
      then show ?thesis using cp a by (simp add: nd2 l2 compact_but_def)
    qed
  qed
  moreover have "bounded s2" unfolding s2_def using b1 nl il n0 by (intro bounded_put) simp_all
  moreover have "snap q s2" if "snap q s0" for q
  proof -
    have q: "snap q s" "i \<in> saved s" using sv that by auto
    then have "0 \<in> saved s" using saved_root [OF t _ i] by blast
    with sn1 q sv1 show ?thesis unfolding s2_def using nl by (intro snap_put) auto
  qed
  ultimately have "located H s0 s2 ?p m key n"
    using t2 key(2) by (auto simp: located_def l2 intro!: exI [of _ "m(p i @ c # r := [])"])
  then show ?thesis using run by blast
qed

section \<open>The walk along the key\<close>

lemma located_refl:
  assumes "state_ok H s p m" and "cur \<in> live s" and "p cur = key"
  shows "located H s s p m key cur"
  using assms by (auto simp: located_def state_ok_def hash_ok_off_weaken compact_compact_but)

lemma set_loop_located:
  assumes ok: "state_ok H s p m" and "cur \<in> live s" and "cur \<noteq> 0 \<longrightarrow> 0 < ci"
    and "ci \<le> length (n_prefix (nd s cur))" and "w @ drop ci (n_prefix (nd s cur)) = p cur"
    and "key = w @ rest" and "i = length w"
  shows "\<exists>s' n p'. set_loop H s cur ci i rest \<bind> split_at_end H key = Some (s', n) \<and>
    located H s s' p' m key n"
  using assms(2-)
proof (induction rest arbitrary: cur ci w i)
  have bd: "bounded s" and t: "trie (nd s) (live s) p" and k: "contents (nd s) (live s) p m"
    and cp: "compact (nd s) (live s)" and h: "hash_ok H (nd s) (live s)"
    using ok by (auto simp: state_ok_def)
  {
    case Nil
    note cur = Nil(1) and ci = Nil(2,3) and w = Nil(4) and key = Nil(5,6)
    have get: "vec_get (nodes s) cur = Some (nd s cur)" by (rule vec_get_live [OF cur])
    show ?case
    proof (cases "length (n_prefix (nd s cur)) = ci")
      case True
      then have "p cur = key" using w key by simp
      then show ?thesis using located_refl [OF ok cur] True get by (auto simp: split_at_end_def)
    next
      case False
      have c0: "cur \<noteq> 0" using False ci trie_root [OF t] by (metis le_zero_eq list.size(3))
      define u v where "u = take ci (n_prefix (nd s cur))" and "v = drop ci (n_prefix (nd s cur))"
      have uv: "n_prefix (nd s cur) = u @ v" "u \<noteq> []" "v \<noteq> []" "length u = ci"
        using ci c0 False by (auto simp: u_def v_def)
      obtain s' n where sp: "split_edge H s cur (length u) = Some (s', n)"
        "n \<notin> live s" "n \<in> live s'" "bounded s'"
        "trie (nd s') (live s') (p(n := p (n_parent (nd s cur)) @ u))"
        "contents (nd s') (live s') (p(n := p (n_parent (nd s cur)) @ u)) m"
        "hash_ok H (nd s') (live s')" "compact_but n (nd s') (live s')"
        "n_children (nd s' n) = (\<lambda>_. 0)(hd v := cur)" "n_value (nd s' n) = []"
        "\<And>c. snap c s \<Longrightarrow> snap c s' \<and> n \<in> saved s'"
        by (rule split_edge_spec [OF ok cur c0 uv(1-3)]) (rule that)
      have "w @ v = p cur" using w by (simp only: v_def)
      then have "p (n_parent (nd s cur)) @ u = w"
        using trie_parent(4) [OF t cur c0] uv(1) by simp
      then have "located H s s' (p(n := p (n_parent (nd s cur)) @ u)) m key n"
        using sp key by (auto simp: located_def hash_ok_off_weaken)
      then show ?thesis using sp(1) uv(4) False get key by (auto simp: split_at_end_def)
    qed
  next
    case (Cons c rest)
    note cur = Cons.prems(1) and ci = Cons.prems(2,3) and w = Cons.prems(4) and key = Cons.prems(5,6)
    have get: "vec_get (nodes s) cur = Some (nd s cur)" by (rule vec_get_live [OF cur])
    show ?case
    proof (cases "ci = length (n_prefix (nd s cur))")
      case True
      then have pw: "p cur = w" using w by simp
      show ?thesis
      proof (cases "n_children (nd s cur) c = 0")
        case False
        note ch = trie_child [OF t cur False]
        have "\<exists>s' n p'. set_loop H s (n_children (nd s cur) c) 1 (Suc i) rest \<bind> split_at_end H key
            = Some (s', n) \<and> located H s s' p' m key n"
        proof (rule Cons.IH [where w = "w @ [c]"])
          show "(w @ [c]) @ drop 1 (n_prefix (nd s (n_children (nd s cur) c))) = p (n_children (nd s cur) c)"
            using ch(3-5) pw by (metis append_Cons append_Nil append_assoc drop0 drop_Suc_Cons One_nat_def list.collapse)
        qed (use ch key in \<open>auto simp: Suc_le_eq\<close>)
        then show ?thesis using True False get by simp
      next
        case c0: True
        have grow: "child_bytes (nd s cur) \<noteq> [] \<or> n_value (nd s cur) \<noteq> [] \<or> cur = 0"
          using cp cur two_children_not_single by (auto simp: compact_def)
        obtain b where b: "backup_nodes s cur = Some (s\<lparr>backup := b\<rparr>)" "cur \<in> saved (s\<lparr>backup := b\<rparr>)"
          "saved s \<subseteq> saved (s\<lparr>backup := b\<rparr>)" "\<And>c. snap c s \<Longrightarrow> snap c (s\<lparr>backup := b\<rparr>)"
          by (rule backup_nodes_spec [OF bd live_less [OF cur]]) (rule that)
        have "\<exists>s' n p'. (do { (s, n) \<leftarrow> add_node (s\<lparr>backup := b\<rparr>) cur c; set_loop H s n 1 (Suc i) rest })
            \<bind> split_at_end H key = Some (s', n) \<and> located H s s' p' m key n"
        proof (rule add_leaf [where p = p])
          show "n_value (nd (s\<lparr>backup := b\<rparr>) cur) \<noteq> [] \<or> two_children ((nd (s\<lparr>backup := b\<rparr>) cur)
              \<lparr>n_children := (n_children (nd (s\<lparr>backup := b\<rparr>) cur))(c := n)\<rparr>)"
            if "n \<noteq> 0" "cur \<noteq> 0" for n
            using cp cur that two_children_upd [of "nd s cur" n] by (auto simp: compact_def)
        qed (use bd t k h cp cur c0 b key pw in \<open>auto simp: compact_compact_but\<close>)
        then show ?thesis using True c0 grow get b(1) by simp
      qed
    next
      case False
      define u v where "u = take ci (n_prefix (nd s cur))" and "v = drop ci (n_prefix (nd s cur))"
      have c0: "cur \<noteq> 0" using False ci trie_root [OF t] by (metis le_zero_eq list.size(3))
      have uv: "n_prefix (nd s cur) = u @ v" "u \<noteq> []" "v \<noteq> []" "length u = ci"
        using ci c0 False by (auto simp: u_def v_def)
      have "w @ v = p cur" using w by (simp only: v_def)
      then have pu: "p (n_parent (nd s cur)) @ u = w"
        using trie_parent(4) [OF t cur c0] uv(1) by simp
      show ?thesis
      proof (cases "c = hd v")
        case True
        have "\<exists>s' n p'. set_loop H s cur (Suc ci) (Suc i) rest \<bind> split_at_end H key
            = Some (s', n) \<and> located H s s' p' m key n"
        proof (rule Cons.IH [where w = "w @ [c]"])
          show "(w @ [c]) @ drop (Suc ci) (n_prefix (nd s cur)) = p cur"
            using w True uv(3) v_def by (metis append_Cons append_Nil append_assoc drop_Suc_Cons list.collapse)
        qed (use cur ci False key in auto)
        then show ?thesis using True False get uv(3) by (simp add: char0_hd v_def)
      next
        case ne: False
        obtain s1 n where sp: "split_edge H s cur (length u) = Some (s1, n)"
          "n \<notin> live s" "n \<in> live s1" "bounded s1"
          "trie (nd s1) (live s1) (p(n := p (n_parent (nd s cur)) @ u))"
          "contents (nd s1) (live s1) (p(n := p (n_parent (nd s cur)) @ u)) m"
          "hash_ok H (nd s1) (live s1)" "compact_but n (nd s1) (live s1)"
          "n_children (nd s1 n) = (\<lambda>_. 0)(hd v := cur)" "n_value (nd s1 n) = []"
          "\<And>c. snap c s \<Longrightarrow> snap c s1 \<and> n \<in> saved s1"
          by (rule split_edge_spec [OF ok cur c0 uv(1-3)]) (rule that)
        have "\<exists>s' n' p'. (do { (s, n) \<leftarrow> add_node s1 n c; set_loop H s n 1 (Suc i) rest })
            \<bind> split_at_end H key = Some (s', n') \<and> located H s s' p' m key n'"
        proof (rule add_leaf [OF sp(4-8,3)])
          show "n_value (nd s1 n) \<noteq> [] \<or> two_children ((nd s1 n)\<lparr>n_children := (n_children (nd s1 n))(c := n')\<rparr>)"
            if "n' \<noteq> 0" "n \<noteq> 0" for n'
            using sp(9) ne that c0 unfolding two_children_def
            by (intro disjI2 exI [of _ c] exI [of _ "hd v"]) simp
        qed (use sp ne pu key in auto)
        then show ?thesis using False ne get uv(3,4) sp(1) by (simp add: char0_hd v_def)
      qed
    qed
  }
qed

theorem set_node_represents:
  assumes "represents H s m" and v: "v \<noteq> []"
  shows "\<exists>s'. set_node H s key v = Some s' \<and> represents H s' (m(key := v)) \<and> (\<forall>c. snap c s \<longrightarrow> snap c s')"
proof -
  from assms obtain p where ok: "state_ok H s p m" by (auto simp: represents_def)
  then have t: "trie (nd s) (live s) p" by (simp add: state_ok_def)
  have "\<exists>s' n p'. set_loop H s 0 0 0 key \<bind> split_at_end H key = Some (s', n) \<and>
      located H s s' p' m key n"
    by (rule set_loop_located [OF ok, where w = "[]"]) (use trie_root [OF t] in auto)
  then obtain s1 n p' where l: "set_locate H s key = Some (s1, n)" "located H s s1 p' m key n"
    by (auto simp: set_locate_def)
  from store_value [OF l(2) v] l(1) show ?thesis
    by (auto simp: set_node_def represents_def)
qed

end
