(* ===== verification/State_Remove.thy ===== *)
theory State_Remove
  imports State_Update
begin

text \<open>
  Removing from the state: \<open>erase\<close> unsets one key, \<open>delete_node_tree\<close> every key below a path. Both keep
  the trie compact by merging a node that is left without value and with one child.
\<close>

section \<open>Merging a node with its only child\<close>

lemma merge_with_child_spec:
  assumes bd: "bounded s" and t: "trie (nd s) (live s) p" and i: "i \<in> live s" "i \<noteq> 0"
    and cb: "child_bytes (nd s i) = [c]" and k: "k = n_children (nd s i) c"
  obtains s' where "merge_with_child s i k = Some (s', k)" and "live s' = live s - {i}" and "bounded s'"
    and "nd s' = (nd s)(n_parent (nd s i) := (nd s (n_parent (nd s i)))\<lparr>n_children :=
           (n_children (nd s (n_parent (nd s i))))(hd (n_prefix (nd s i)) := k)\<rparr>,
         k := (nd s k)\<lparr>n_prefix := n_prefix (nd s i) @ n_prefix (nd s k), n_parent := n_parent (nd s i)\<rparr>)"
    and "trie (nd s') (live s') p" and "k \<in> live s'" and "k \<noteq> n_parent (nd s i)"
    and "\<And>c. snap c s \<Longrightarrow> snap c s' \<and> k \<in> saved s'"
proof -
  let ?q = "n_parent (nd s i)"
  note one = child_bytes_single [OF cb]
  have k0: "k \<noteq> 0" using one(1) k by simp
  have kL: "k \<in> live s" and kp: "n_parent (nd s k) = i" and lk: "length (p i) < length (p k)"
    using trie_child [OF t i(1) one(1)] k by auto
  note pa = trie_parent [OF t i]
  have ne: "?q \<noteq> k" "?q \<noteq> i" "k \<noteq> i"
    using trie_parent_shorter [OF t i] lk by auto
  obtain b where b: "backup_nodes s k = Some (s\<lparr>backup := b\<rparr>)" "k \<in> saved (s\<lparr>backup := b\<rparr>)"
      "\<And>c. snap c s \<Longrightarrow> snap c (s\<lparr>backup := b\<rparr>)"
    by (metis backup_nodes_spec [OF bd live_less [OF kL]])
  let ?s1 = "s\<lparr>backup := b\<rparr>"
  let ?K = "(nd s k)\<lparr>n_prefix := n_prefix (nd s i) @ n_prefix (nd s k), n_parent := ?q\<rparr>"
  let ?Q = "(nd s ?q)\<lparr>n_children := (n_children (nd s ?q))(hd (n_prefix (nd s i)) := k)\<rparr>"
  define s2 where "s2 = put k ?K (put ?q ?Q (put k ((nd s k)\<lparr>n_prefix := n_prefix (nd s i) @ n_prefix (nd s k)\<rparr>) ?s1))"
  define s' where "s' = s2\<lparr>free_locations := insert i (free_locations s)\<rparr>"
  have len: "k < length (nodes s)" "?q < length (nodes s)" "i < length (nodes s)"
    using kL pa(2) i(1) live_less by auto
  have nd2: "nd s2 = (nd s)(?q := ?Q, k := ?K)" using len ne by (auto simp: s2_def fun_eq_iff)
  then have nd': "nd s' = (nd s)(?q := ?Q, k := ?K)" by (simp add: s'_def)
  have ln: "length (nodes s') = length (nodes s)" by (simp add: s'_def s2_def)
  have l': "live s' = live s - {i}" using ln by (auto simp: live_def s'_def)
  have "bounded s2" unfolding s2_def
    using bd len k0 bounded_parent [OF bd] bounded_root [OF bd] by (intro bounded_put) simp_all
  then have b': "bounded s'" using len i(2) by (auto simp: s'_def s2_def bounded_def)
  have t': "trie (nd s') (live s') p"
    unfolding l' by (rule trie_merge [OF t i k [symmetric] k0 one(2) nd'])
  have S: "snap c s' \<and> k \<in> saved s'" if "snap c s" for c
  proof -
    have c1: "snap c ?s1" using b(3) that .
    have i1: "i \<in> saved ?s1" using c1 b(2) kp k0 len by (auto simp: snap_def)
    have q1: "?q \<in> saved ?s1" using c1 i1 i(2) len by (auto simp: snap_def)
    have "?q \<noteq> 0 \<Longrightarrow> n_parent (nd s ?q) \<in> saved ?s1" using c1 q1 len by (auto simp: snap_def)
    then have "snap c s2" unfolding s2_def
      using c1 b(2) i1 q1 kp len by (intro snap_put) simp_all
    then show ?thesis using b(2) by (simp add: s'_def s2_def)
  qed
  have "merge_with_child s i k = Some (s', k)"
    unfolding merge_with_child_def
    using vec_get_live [OF i(1)] b(1) len ne pa(1)
    by (simp add: s'_def s2_def char0_hd)
  then show thesis using that l' b' nd' t' kL ne S by auto
qed

lemma merge_result:
  assumes t: "trie (nd s) (live s) p" and k: "contents (nd s) (live s) p m"
    and i: "i \<in> live s" "i \<noteq> 0" and m: "m (p i) = []"
    and cp: "compact_but i (nd s) (live s)"
    and l': "live s' = live s - {i}" and k0: "k \<noteq> 0" "k \<noteq> n_parent (nd s i)"
    and nd': "nd s' = (nd s)(n_parent (nd s i) := (nd s (n_parent (nd s i)))\<lparr>n_children :=
           (n_children (nd s (n_parent (nd s i))))(hd (n_prefix (nd s i)) := k)\<rparr>,
         k := (nd s k)\<lparr>n_prefix := n_prefix (nd s i) @ n_prefix (nd s k), n_parent := n_parent (nd s i)\<rparr>)"
  shows "contents (nd s') (live s') p m" and "compact (nd s') (live s')"
proof -
  show "contents (nd s') (live s') p m"
    unfolding l' by (rule contents_remove [OF t k i(1) m]) (use k0 in \<open>auto simp: nd'\<close>)
  show "compact (nd s') (live s')"
    unfolding compact_def
  proof (intro ballI impI)
    fix a assume a: "a \<in> live s'" "a \<noteq> 0"
    then have "n_value (nd s a) \<noteq> [] \<or> two_children (nd s a)" using cp l' by (auto simp: compact_but_def)
    then show "n_value (nd s' a) \<noteq> [] \<or> two_children (nd s' a)"
      using two_children_upd [of "nd s a" k "nd s' a" "hd (n_prefix (nd s i))"] k0
      by (cases "a = n_parent (nd s i)") (auto simp: nd' two_children_def)
  qed
qed

section \<open>Unlinking a subtrie\<close>

text \<open>
  The state in which \<open>unlink_node\<close> is called: the trie with live nodes \<open>L\<close> is intact, and of the nodes
  below \<open>j\<close> at most \<open>j\<close> itself is not yet marked free.
\<close>

lemma unlink_node_spec:
  assumes bd: "bounded s" and t: "trie (nd s) L p" and k: "contents (nd s) L p m"
    and cp: "compact (nd s) L" and h: "hash_ok H (nd s) L" and j: "j \<in> L" "j \<noteq> 0" "j < length (nodes s)"
    and L: "live s - {j} = {i \<in> L. \<not> prefix (p j) (p i)}"
  obtains s' cur where "unlink_node s j = Some (s', cur)" and "bounded s'" and "cur \<in> live s'"
    and "trie (nd s') (live s') p"
    and "contents (nd s') (live s') p (\<lambda>x. if prefix (p j) x then [] else m x)"
    and "compact (nd s') (live s')" and "hash_ok_off H (nd s') (live s') p (p cur)"
    and "\<And>c. snap c s \<Longrightarrow> n_parent (nd s j) \<in> saved s \<Longrightarrow> snap c s' \<and> cur \<in> saved s'"
proof -
  let ?q = "n_parent (nd s j)" and ?m = "\<lambda>x. if prefix (p j) x then [] else m x"
  note pa = trie_parent [OF t j(1,2)]
  have qj: "\<not> prefix (p j) (p ?q)"
    using trie_parent_shorter [OF t j(1,2)] by (auto dest: prefix_length_le)
  then have qL: "?q \<in> live s" "?q \<noteq> j" using L pa(2) by auto
  let ?Q = "(nd s ?q)\<lparr>n_children := (n_children (nd s ?q))(hd (n_prefix (nd s j)) := 0)\<rparr>"
  define s1 where "s1 = (put ?q ?Q s)\<lparr>free_locations := insert j (free_locations s)\<rparr>"
  have ql: "?q < length (nodes s)" using qL live_less by blast
  have nd1: "nd s1 = (nd s)(?q := ?Q)" using ql by (simp add: s1_def)
  have l1: "live s1 = {i \<in> L. \<not> prefix (p j) (p i)}"
    using L by (auto simp: live_def s1_def)
  have t1: "trie (nd s1) (live s1) p" unfolding l1 by (rule trie_cut [OF t j(1,2) refl nd1])
  have k1: "contents (nd s1) (live s1) p ?m"
    unfolding l1 by (rule contents_cut [OF t k j(1) refl]) (simp add: nd1)
  have b1: "bounded s1"
    using bounded_put [OF bd ql, of ?Q] bounded_parent [OF bd] bounded_root [OF bd] j(2,3)
    by (auto simp: s1_def bounded_def)
  have s1: "snap c s1 \<and> ?q \<in> saved s1" if "snap c s" "?q \<in> saved s" for c
  proof -
    have "?q \<noteq> 0 \<Longrightarrow> n_parent ?Q \<in> saved s" using that ql by (simp add: snap_def)
    from snap_put [OF that(1) ql that(2) this] that(2) show ?thesis by (simp add: s1_def)
  qed
  have q1: "?q \<in> live s1" using pa(2) qj by (simp add: l1)
  have keep: "i \<in> L \<and> nd s1 i = nd s i" if "i \<in> live s1" "i \<noteq> ?q" for i
    using that by (simp add: l1 nd1)
  have "unlink_node s j = merge_if_single s1 ?q"
    using j(3) ql pa(1) by (simp add: unlink_node_def nth_nodes s1_def char0_hd)
  then have run: "unlink_node s j = (case child_bytes (nd s1 ?q) of
        [c] \<Rightarrow> (if n_value (nd s1 ?q) = [] \<and> ?q \<noteq> 0
                then merge_with_child s1 ?q (n_children (nd s1 ?q) c) else Some (s1, ?q))
      | _ \<Rightarrow> Some (s1, ?q))"
    by (simp add: merge_if_single_def vec_get_live [OF q1])
  have cp1: "compact_but ?q (nd s1) (live s1)"
    using cp by (auto simp: compact_but_def compact_def l1 nd1)
  show thesis
  proof (cases "(\<exists>c. child_bytes (nd s1 ?q) = [c]) \<and> n_value (nd s1 ?q) = [] \<and> ?q \<noteq> 0")
    case True
    then obtain c where c: "child_bytes (nd s1 ?q) = [c]" by auto
    obtain s' where mg: "merge_with_child s1 ?q (n_children (nd s1 ?q) c) = Some (s', n_children (nd s1 ?q) c)"
      "live s' = live s1 - {?q}" "bounded s'"
      "nd s' = (nd s1)(n_parent (nd s1 ?q) := (nd s1 (n_parent (nd s1 ?q)))\<lparr>n_children :=
           (n_children (nd s1 (n_parent (nd s1 ?q))))(hd (n_prefix (nd s1 ?q)) := n_children (nd s1 ?q) c)\<rparr>,
         n_children (nd s1 ?q) c := (nd s1 (n_children (nd s1 ?q) c))\<lparr>n_prefix :=
           n_prefix (nd s1 ?q) @ n_prefix (nd s1 (n_children (nd s1 ?q) c)), n_parent := n_parent (nd s1 ?q)\<rparr>)"
      "trie (nd s') (live s') p" "n_children (nd s1 ?q) c \<in> live s'"
      "n_children (nd s1 ?q) c \<noteq> n_parent (nd s1 ?q)"
      "\<And>k. snap k s1 \<Longrightarrow> snap k s' \<and> n_children (nd s1 ?q) c \<in> saved s'"
      by (rule merge_with_child_spec [OF b1 t1 q1 _ c refl]) (use True that in auto)
    have m: "?m (p ?q) = []" using contents_at [OF k1 q1] True by simp
    have k0: "n_children (nd s1 ?q) c \<noteq> 0" by (rule child_bytes_single(1) [OF c])
    note r = merge_result [OF t1 k1 q1 _ m cp1 mg(2) k0 mg(7,4)]
    have pp: "prefix (p (n_parent (nd s1 ?q))) (p (n_children (nd s1 ?q) c))"
      using trie_child(5) [OF t1 q1 k0] trie_parent(4) [OF t1 q1] True by simp
    have "hash_ok_off H (nd s') (live s') p (p (n_children (nd s1 ?q) c))"
    proof (rule hash_ok_off_change [OF h mg(5)])
      fix i assume i: "i \<in> live s'" "\<not> prefix (p i) (p (n_children (nd s1 ?q) c))"
      then have "i \<noteq> n_parent (nd s1 ?q)" "i \<noteq> n_children (nd s1 ?q) c" using pp by auto
      then show "i \<in> L \<and> nd s' i = nd s i" using keep [of i] i by (simp add: mg(2,4))
    qed
    moreover have "snap k s' \<and> n_children (nd s1 ?q) c \<in> saved s'" if "snap k s" "?q \<in> saved s" for k
      using s1 [OF that] mg(8) by blast
    moreover have "unlink_node s j = Some (s', n_children (nd s1 ?q) c)" using True run c mg(1) by simp
    ultimately show thesis using that [OF _ mg(3,6,5)] r True by blast
  next
    case False
    then have "unlink_node s j = Some (s1, ?q)" unfolding run by (auto split: list.splits)
    moreover have "compact (nd s1) (live s1)"
    proof -
      have "n_value (nd s1 ?q) \<noteq> [] \<or> two_children (nd s1 ?q)" if "?q \<noteq> 0"
      proof (rule disjCI)
        assume "\<not> two_children (nd s1 ?q)"
        then have few: "child_bytes (nd s1 ?q) = [] \<or> (\<exists>c. child_bytes (nd s1 ?q) = [c])"
          using child_bytes_many by (cases "nd s1 ?q" rule: child_bytes_cases) auto
        show "n_value (nd s1 ?q) \<noteq> []"
        proof
          assume v: "n_value (nd s1 ?q) = []"
          then have "two_children (nd s ?q)" using cp pa(2) that by (auto simp: compact_def nd1)
          then have "child_bytes (nd s1 ?q) \<noteq> []"
            by (rule two_children_remove) (simp add: nd1)
          with few False v that show False by simp
        qed
      qed
      then show ?thesis using cp1 by (auto simp: compact_def compact_but_def)
    qed
    moreover have "hash_ok_off H (nd s1) (live s1) p (p ?q)"
      by (rule hash_ok_off_change [OF h t1]) (use keep in auto)
    ultimately show thesis using that [of s1 ?q] b1 q1 t1 k1 s1 by simp
  qed
qed

section \<open>subtrie_mark_free\<close>

definition below :: "state_impl \<Rightarrow> (nat \<Rightarrow> string) \<Rightarrow> nat \<Rightarrow> nat set" where
  "below s p i = {a \<in> live s. prefix (p i) (p a)}"

lemma below_children:
  assumes t: "trie (nd s) (live s) p" and i: "i \<in> live s"
  shows "below s p i = insert i (\<Union>c\<in>set (child_bytes (nd s i)). below s p (n_children (nd s i) c))"
proof (intro equalityI subsetI)
  fix a assume "a \<in> below s p i"
  then have a: "a \<in> live s" "prefix (p i) (p a)" by (auto simp: below_def)
  show "a \<in> insert i (\<Union>c\<in>set (child_bytes (nd s i)). below s p (n_children (nd s i) c))"
  proof (cases "p a = p i")
    case True
    then show ?thesis using trie_unique [OF t a(1) i] by simp
  next
    case False
    with a(2) obtain c r where "p a = p i @ c # r" using strict_prefix_split by (metis prefix_order.le_less)
    from trie_descend [OF t i a(1) this] a(1) show ?thesis by (auto simp: below_def)
  qed
next
  fix a assume "a \<in> insert i (\<Union>c\<in>set (child_bytes (nd s i)). below s p (n_children (nd s i) c))"
  then show "a \<in> below s p i"
    using i trie_child(5) [OF t i] by (auto simp: below_def dest: append_prefixD)
qed

lemma below_child_less:
  assumes t: "trie (nd s) (live s) p" and i: "i \<in> live s" and c: "n_children (nd s i) c \<noteq> 0"
  shows "card (below s p (n_children (nd s i) c)) < card (below s p i)"
proof (rule psubset_card_mono)
  note ch = trie_child [OF t i c]
  show "finite (below s p i)" using trie_root [OF t] by (simp add: below_def)
  have "i \<in> below s p i" "i \<notin> below s p (n_children (nd s i) c)"
    using i ch(3,5) by (auto simp: below_def dest: prefix_length_le)
  moreover have "below s p (n_children (nd s i) c) \<subseteq> below s p i"
    using ch(5) by (auto simp: below_def dest: append_prefixD)
  ultimately show "below s p (n_children (nd s i) c) \<subset> below s p i" by blast
qed

lemma fold_mark:
  assumes "\<And>c F. c \<in> set cs \<Longrightarrow> g c F = Some (F \<union> D c)"
  shows "fold (\<lambda>c acc. do { F \<leftarrow> acc; g c F }) cs (Some F) = Some (F \<union> (\<Union>c\<in>set cs. D c))"
  using assms by (induction cs arbitrary: F) (auto simp: Un_assoc)

text \<open>With the number of nodes as fuel the recursion ends, and marks exactly the nodes below.\<close>

lemma subtrie_mark_free_spec:
  assumes t: "trie (nd s) (live s) p"
  shows "i \<in> live s \<Longrightarrow> card (below s p i) \<le> fuel \<Longrightarrow>
    subtrie_mark_free fuel (nodes s) i F = Some (F \<union> below s p i)"
proof (induction fuel arbitrary: i F)
  case 0
  then have "i \<in> below s p i" "finite (below s p i)" using trie_root [OF t] by (auto simp: below_def)
  with 0 show ?case by auto
next
  case (Suc fuel)
  have g: "subtrie_mark_free fuel (nodes s) (n_children (nd s i) c) F = Some (F \<union> below s p (n_children (nd s i) c))"
    if "c \<in> set (child_bytes (nd s i))" for c F
    using Suc.IH [OF trie_child(1) [OF t Suc.prems(1)]] below_child_less [OF t Suc.prems(1), of c] that Suc.prems(2)
    by simp
  have "fold (\<lambda>c acc. do { F \<leftarrow> acc; subtrie_mark_free fuel (nodes s) (n_children (nd s i) c) F })
      (child_bytes (nd s i)) (Some (insert i F)) =
    Some (insert i F \<union> (\<Union>c\<in>set (child_bytes (nd s i)). below s p (n_children (nd s i) c)))"
    by (rule fold_mark) (rule g)
  then show ?case
    using below_children [OF t Suc.prems(1)] vec_get_live [OF Suc.prems(1)] by simp
qed

lemma mark_free:
  assumes t: "trie (nd s) (live s) p" and i: "i \<in> live s"
  shows "subtrie_mark_free (length (nodes s)) (nodes s) i F = Some (F \<union> below s p i)"
proof (rule subtrie_mark_free_spec [OF t i])
  have "card (below s p i) \<le> card {..<length (nodes s)}"
    by (rule card_mono) (auto simp: below_def live_def)
  then show "card (below s p i) \<le> length (nodes s)" by simp
qed

section \<open>erase and delete_node_tree\<close>

lemma finish_hash:
  assumes "bounded s" and t: "trie (nd s) (live s) p" and "contents (nd s) (live s) p m"
    and "compact (nd s) (live s)" and "hash_ok_off H (nd s) (live s) p (p cur)" and "cur \<in> live s"
    and sn: "\<And>c. snap c s0 \<Longrightarrow> snap c s \<and> cur \<in> saved s"
  shows "\<exists>s'. calculate_hash H s cur = Some s' \<and> represents H s' m \<and> (\<forall>c. snap c s0 \<longrightarrow> snap c s')"
proof -
  from calculate_hash_spec [OF t assms(6,5)] obtain s' where
    s': "calculate_hash H s cur = Some s'" "rehash s s'" "hash_ok H (nd s') (live s')"
      "\<forall>c. snap c s \<longrightarrow> cur \<in> saved s \<longrightarrow> snap c s'" by (elim exE conjE)
  then have "state_ok H s' p m"
    using assms rehash_trie rehash_contents rehash_compact rehash_bounded by (simp add: state_ok_def)
  then show ?thesis using s' sn by (auto simp: represents_def)
qed

lemma erase_unset:
  assumes "represents H s m" and "m key = []"
  shows "erase H s key = Some (throw (no_set_node key))"
    and "delete_node_tree H s key = Some (throw (no_set_node key))"
proof -
  from assms obtain p where ok: "state_ok H s p m" by (auto simp: represents_def)
  then have t: "trie (nd s) (live s) p" and k: "contents (nd s) (live s) p m" by (auto simp: state_ok_def)
  from t have "erase H s key = Some (throw (no_set_node key)) \<and>
      delete_node_tree H s key = Some (throw (no_set_node key))"
  proof (cases rule: get_node_index_cases [where k = key])
    case (node i)
    then show ?thesis using contents_at [OF k node(1)] assms(2)
      by (simp add: erase_def delete_node_tree_def Let_def)
  qed (simp add: erase_def delete_node_tree_def)
  then show "erase H s key = Some (throw (no_set_node key))"
    "delete_node_tree H s key = Some (throw (no_set_node key))" by auto
qed

lemma root_two_children:
  assumes t: "trie N L p" and k: "contents N L p m" and b: "branching m []"
  shows "two_children (N 0)"
proof -
  from b obtain c d x y where cd: "c \<noteq> d" "m (c # x) \<noteq> []" "m (d # y) \<noteq> []" by (auto simp: branching_def)
  have "n_children (N 0) e \<noteq> 0" if "m (e # z) \<noteq> []" for e z
  proof -
    from contents_off [OF k] that obtain a where a: "a \<in> L" "p a = e # z" by force
    then show ?thesis using trie_descend(1) [OF t _ a(1), of 0 e z] trie_root [OF t] by simp
  qed
  with cd show ?thesis unfolding two_children_def by metis
qed

text \<open>The node of a key with a value, after its backup.\<close>

lemma set_node_at:
  assumes ok: "state_ok H s p m" and m: "m key \<noteq> []"
  obtains i where "i \<in> live s" and "p i = key" and "get_node_index s key = Some (int i)"
    and "vec_get (nodes s) i = Some (nd s i)" and "n_value (nd s i) \<noteq> []"
proof -
  have t: "trie (nd s) (live s) p" and k: "contents (nd s) (live s) p m" using ok by (auto simp: state_ok_def)
  from t show thesis
  proof (cases rule: get_node_index_cases [where k = key])
    case (node i)
    then show thesis using that contents_at [OF k node(1)] m by simp
  qed (use contents_off [OF k] m in auto)
qed

lemma erase_value_step:
  assumes ok: "state_ok H s p m" and i: "i \<in> live s" "i \<noteq> 0 \<or> branching m []"
    and b: "backup_nodes s i = Some (s\<lparr>backup := b\<rparr>)" "i \<in> saved (s\<lparr>backup := b\<rparr>)"
      "\<And>c. snap c s \<Longrightarrow> snap c (s\<lparr>backup := b\<rparr>)"
  obtains s' cur where "(case child_bytes (nd s i) of
        [] \<Rightarrow> unlink_node (s\<lparr>backup := b\<rparr>) i
      | [c] \<Rightarrow> merge_with_child (s\<lparr>backup := b\<rparr>) i (n_children (nd s i) c)
      | _ \<Rightarrow> do { s \<leftarrow> upd_node i (\<lambda>n. n\<lparr>n_value := []\<rparr>) (s\<lparr>backup := b\<rparr>); Some (s, i) }) = Some (s', cur)"
    and "bounded s'" and "cur \<in> live s'" and "trie (nd s') (live s') p"
    and "contents (nd s') (live s') p (m(p i := []))" and "compact (nd s') (live s')"
    and "hash_ok_off H (nd s') (live s') p (p cur)" and "\<And>c. snap c s \<Longrightarrow> snap c s' \<and> cur \<in> saved s'"
proof -
  let ?s1 = "s\<lparr>backup := b\<rparr>"
  have bd: "bounded ?s1" and t: "trie (nd ?s1) (live ?s1) p" and k: "contents (nd ?s1) (live ?s1) p m"
    and cp: "compact (nd ?s1) (live ?s1)" and h: "hash_ok H (nd ?s1) (live ?s1)" and i1: "i \<in> live ?s1"
    using ok i by (auto simp: state_ok_def)
  have il: "i < length (nodes s)" using i live_less by blast
  have i0: "i \<noteq> 0" if "\<not> two_children (nd s i)"
    using root_two_children [OF t k] i(2) that by (metis fields_backup(1))
  show thesis
  proof (cases "nd s i" rule: child_bytes_cases)
    case none
    then have "i \<noteq> 0" using i0 two_children_not_single by blast
    have leaf: "prefix (p i) (p a) \<longleftrightarrow> a = i" if "a \<in> live s" for a
    proof
      assume "prefix (p i) (p a)"
      moreover have "p a \<noteq> p i @ c # r" for c r
        using trie_descend(1) [OF t i1, of a c r] that none by (auto simp: child_bytes_Nil)
      ultimately have "p a = p i" by (metis prefix_order.le_less strict_prefix_split)
      then show "a = i" using trie_unique [OF t _ i1] that by simp
    qed simp
    obtain s' cur where u: "unlink_node ?s1 i = Some (s', cur)" "bounded s'" "cur \<in> live s'"
      "trie (nd s') (live s') p" "contents (nd s') (live s') p (\<lambda>x. if prefix (p i) x then [] else m x)"
      "compact (nd s') (live s')" "hash_ok_off H (nd s') (live s') p (p cur)"
      "\<And>c. snap c ?s1 \<Longrightarrow> n_parent (nd ?s1 i) \<in> saved ?s1 \<Longrightarrow> snap c s' \<and> cur \<in> saved s'"
      by (rule unlink_node_spec [OF bd t k cp h i1 \<open>i \<noteq> 0\<close>, of thesis]) (use il leaf in auto)
    have "(\<lambda>x. if prefix (p i) x then [] else m x) = m(p i := [])"
    proof (rule ext)
      fix x show "(if prefix (p i) x then [] else m x) = (m(p i := [])) x"
        using leaf contents_off [OF k, of x] by (cases "x \<in> p ` live s") auto
    qed
    note u = u [unfolded this]
    have S: "snap c s' \<and> cur \<in> saved s'" if "snap c s" for c
    proof (rule u(8))
      show "snap c ?s1" by (rule b(3) [OF that])
      then show "n_parent (nd ?s1 i) \<in> saved ?s1" using b(2) il \<open>i \<noteq> 0\<close> by (auto simp: snap_def)
    qed
    show thesis by (rule that [OF _ u(2-7) S]) (use none u(1) in auto)
  next
    case (one c)
    then have n0: "i \<noteq> 0" using i0 two_children_not_single by blast
    let ?k = "n_children (nd s i) c"
    note at = trie_child [OF t i1, of c]
    obtain s' where mg: "merge_with_child ?s1 i ?k = Some (s', ?k)" "live s' = live ?s1 - {i}" "bounded s'"
      "nd s' = (nd ?s1)(n_parent (nd ?s1 i) := (nd ?s1 (n_parent (nd ?s1 i)))\<lparr>n_children :=
           (n_children (nd ?s1 (n_parent (nd ?s1 i))))(hd (n_prefix (nd ?s1 i)) := ?k)\<rparr>,
         ?k := (nd ?s1 ?k)\<lparr>n_prefix := n_prefix (nd ?s1 i) @ n_prefix (nd ?s1 ?k), n_parent := n_parent (nd ?s1 i)\<rparr>)"
      "trie (nd s') (live s') p" "?k \<in> live s'" "?k \<noteq> n_parent (nd ?s1 i)"
      "\<And>q. snap q ?s1 \<Longrightarrow> snap q s' \<and> ?k \<in> saved s'"
      by (rule merge_with_child_spec [OF bd t i1 n0, of c ?k thesis]) (use one in auto)
    have k0: "?k \<noteq> 0" by (rule child_bytes_single(1) [OF one])
    have "contents (nd s') (live s') p (m(p i := []))"
    proof -
      have "contents ((nd s)(i := (nd s i)\<lparr>n_value := []\<rparr>)) (live s) p (m(p i := []))"
        by (rule contents_value [OF _ _ i(1)]) (use t k in auto)
      moreover have "trie ((nd s)(i := (nd s i)\<lparr>n_value := []\<rparr>)) (live s) p"
        using trie_cong [OF t] by simp
      moreover have "n_value (nd s' a) = n_value (((nd s)(i := (nd s i)\<lparr>n_value := []\<rparr>)) a)" if "a \<noteq> i" for a
        using that mg(7) by (simp add: mg(4))
      ultimately show ?thesis using contents_remove [OF _ _ i(1)] mg(2) by simp
    qed
    moreover have "compact (nd s') (live s')"
    proof -
      have "n_value (nd s' a) = n_value (nd s a)" for a using mg(7) by (simp add: mg(4))
      moreover have "two_children (nd s a) \<Longrightarrow> two_children (nd s' a)" for a
        using two_children_upd [of "nd s a" ?k "nd s' a" "hd (n_prefix (nd s i))"] k0 mg(7)
        by (cases "a = n_parent (nd s i)"; cases "a = ?k") (auto simp: mg(4) two_children_def)
      ultimately show ?thesis using cp mg(2) by (auto simp: compact_def)
    qed
    moreover have "hash_ok_off H (nd s') (live s') p (p ?k)"
    proof (rule hash_ok_off_change [OF h mg(5)])
      fix a assume a: "a \<in> live s'" "\<not> prefix (p a) (p ?k)"
      have "prefix (p (n_parent (nd s i))) (p ?k)"
        using at(5) k0 trie_parent(4) [OF t i1 n0] by simp
      with a have "a \<noteq> n_parent (nd s i)" "a \<noteq> ?k" by auto
      then show "a \<in> live ?s1 \<and> nd s' a = nd ?s1 a" using a by (simp add: mg(2,4))
    qed
    moreover have "snap q s' \<and> ?k \<in> saved s'" if "snap q s" for q using mg(8) [OF b(3) [OF that]] .
    ultimately show thesis using that [OF _ mg(3,6,5)] one mg(1) by simp
  next
    case (many c d cs)
    define s' where "s' = put i ((nd s i)\<lparr>n_value := []\<rparr>) ?s1"
    have nd': "nd s' = (nd s)(i := (nd s i)\<lparr>n_value := []\<rparr>)" and l': "live s' = live s"
      using il by (simp_all add: s'_def)
    have t': "trie (nd s') (live s') p" using trie_cong [OF t, of "nd s'"] by (simp add: nd' l')
    have "contents (nd s') (live s') p (m(p i := []))"
      unfolding l' by (rule contents_value [OF _ _ i(1)]) (use t k in \<open>auto simp: nd'\<close>)
    moreover have "compact (nd s') (live s')"
      using cp child_bytes_many [OF many] by (auto simp: compact_def nd' l' two_children_def)
    moreover have "hash_ok_off H (nd s') (live s') p (p i)"
      by (rule hash_ok_off_change [OF h t']) (auto simp: nd' l')
    moreover have "bounded s'" unfolding s'_def
      using bd il bounded_parent [OF bd, of i] bounded_root [OF bd] by (intro bounded_put) simp_all
    moreover have "snap c s' \<and> i \<in> saved s'" if "snap c s" for c
    proof -
      have "snap c s'" unfolding s'_def
        using b(3) [OF that] b(2) il by (intro snap_put) (auto simp: snap_def)
      then show ?thesis using b(2) by (simp add: s'_def)
    qed
    ultimately show thesis
      using that [of s' i] t' i(1) il many by (simp add: s'_def)
  qed
qed

theorem erase_represents:
  assumes "represents H s m" and m: "m key \<noteq> []" and key: "key \<noteq> [] \<or> branching m []"
  shows "\<exists>s'. erase H s key = Some (return s') \<and> represents H s' (m(key := [])) \<and>
    (\<forall>c. snap c s \<longrightarrow> snap c s')"
proof -
  from assms obtain p where ok: "state_ok H s p m" by (auto simp: represents_def)
  then have bd: "bounded s" and t: "trie (nd s) (live s) p" by (auto simp: state_ok_def)
  obtain i where i: "i \<in> live s" "p i = key" "get_node_index s key = Some (int i)"
    "vec_get (nodes s) i = Some (nd s i)" "n_value (nd s i) \<noteq> []" by (rule set_node_at [OF ok m])
  have i0: "i \<noteq> 0 \<or> branching m []" using key i(2) trie_root [OF t] by metis
  obtain b where b: "backup_nodes s i = Some (s\<lparr>backup := b\<rparr>)" "i \<in> saved (s\<lparr>backup := b\<rparr>)"
      "\<And>c. snap c s \<Longrightarrow> snap c (s\<lparr>backup := b\<rparr>)"
    by (metis backup_nodes_spec [OF bd live_less [OF i(1)]])
  obtain s1 cur where r: "(case child_bytes (nd s i) of
        [] \<Rightarrow> unlink_node (s\<lparr>backup := b\<rparr>) i
      | [c] \<Rightarrow> merge_with_child (s\<lparr>backup := b\<rparr>) i (n_children (nd s i) c)
      | _ \<Rightarrow> do { s \<leftarrow> upd_node i (\<lambda>n. n\<lparr>n_value := []\<rparr>) (s\<lparr>backup := b\<rparr>); Some (s, i) }) = Some (s1, cur)"
    and f: "bounded s1" "cur \<in> live s1" "trie (nd s1) (live s1) p"
      "contents (nd s1) (live s1) p (m(p i := []))" "compact (nd s1) (live s1)"
      "hash_ok_off H (nd s1) (live s1) p (p cur)" "\<And>c. snap c s \<Longrightarrow> snap c s1 \<and> cur \<in> saved s1"
    by (rule erase_value_step [OF ok i(1) i0 b(1,2)]) (erule b(3), rule that)
  from finish_hash [OF f(1,3,4,5,6,2,7)] obtain s' where
    s': "calculate_hash H s1 cur = Some s'" "represents H s' (m(p i := []))" "\<forall>c. snap c s \<longrightarrow> snap c s'"
    by blast
  then show ?thesis using i b(1) r by (simp add: erase_def Let_def)
qed

theorem delete_node_tree_represents:
  assumes "represents H s m" and m: "m key \<noteq> []" and key: "key \<noteq> []"
  shows "\<exists>s'. delete_node_tree H s key = Some (return s') \<and>
    represents H s' (\<lambda>x. if prefix key x then [] else m x) \<and> (\<forall>c. snap c s \<longrightarrow> snap c s')"
proof -
  from assms obtain p where ok: "state_ok H s p m" by (auto simp: represents_def)
  then have bd: "bounded s" and t: "trie (nd s) (live s) p" and k: "contents (nd s) (live s) p m"
    and cp: "compact (nd s) (live s)" and h: "hash_ok H (nd s) (live s)" by (auto simp: state_ok_def)
  obtain i where i: "i \<in> live s" "p i = key" "get_node_index s key = Some (int i)"
    "vec_get (nodes s) i = Some (nd s i)" "n_value (nd s i) \<noteq> []" by (rule set_node_at [OF ok m])
  have i0: "i \<noteq> 0" using key i(2) trie_root [OF t] by metis
  let ?q = "n_parent (nd s i)"
  obtain b where b: "backup_nodes s ?q = Some (s\<lparr>backup := b\<rparr>)" "?q \<in> saved (s\<lparr>backup := b\<rparr>)"
      "\<And>c. snap c s \<Longrightarrow> snap c (s\<lparr>backup := b\<rparr>)"
    by (metis backup_nodes_spec [OF bd bounded_parent [OF bd]])
  define F where "F = free_locations s \<union> below s p i"
  have mark: "subtrie_mark_free (length (nodes s)) (nodes s) i (free_locations s) = Some F"
    unfolding F_def by (rule mark_free [OF t i(1)])
  define s1 where "s1 = s\<lparr>backup := b, free_locations := F\<rparr>"
  have nd1: "nd s1 = nd s" by (simp add: s1_def)
  have "0 \<notin> below s p i" using trie_root [OF t] i(2) key by (auto simp: below_def)
  moreover have "below s p i \<subseteq> {..<length (nodes s)}" by (auto simp: below_def live_def)
  ultimately have "below s p i \<subseteq> {0<..<length (nodes s)}"
    by (metis bot_nat_0.not_eq_extremum greaterThanLessThan_iff lessThan_iff subset_iff)
  then have b1: "bounded s1" using bd by (simp add: bounded_def nd1 s1_def F_def)
  have L: "live s1 - {i} = {a \<in> live s. \<not> prefix (p i) (p a)}"
    by (auto simp: s1_def live_def F_def below_def)
  have il: "i < length (nodes s1)" using i(1) live_less by (simp add: s1_def)
  obtain s2 cur where u: "unlink_node s1 i = Some (s2, cur)" "bounded s2" "cur \<in> live s2"
      "trie (nd s2) (live s2) p" "contents (nd s2) (live s2) p (\<lambda>x. if prefix (p i) x then [] else m x)"
      "compact (nd s2) (live s2)" "hash_ok_off H (nd s2) (live s2) p (p cur)"
      "\<And>c. snap c s1 \<Longrightarrow> n_parent (nd s1 i) \<in> saved s1 \<Longrightarrow> snap c s2 \<and> cur \<in> saved s2"
    by (rule unlink_node_spec [OF b1, of "live s" p m H i thesis]) (use t k cp h i i0 il L nd1 in auto)
  have S: "snap c s2 \<and> cur \<in> saved s2" if "snap c s" for c
    using u(8) [of c] b(2) b(3) [OF that] nd1 by (simp add: s1_def)
  from finish_hash [OF u(2,4,5,6,7,3) S] obtain s' where
    s': "calculate_hash H s2 cur = Some s'" "represents H s' (\<lambda>x. if prefix (p i) x then [] else m x)"
      "\<forall>c. snap c s \<longrightarrow> snap c s'"
    by blast
  then show ?thesis using i b(1) mark u(1) by (simp add: delete_node_tree_def Let_def s1_def)
qed

end
