(* ===== verification/State_Interface.thy ===== *)
theory State_Interface
  imports Prelude
begin

text \<open>
  The interface \<^verbatim>\<open>core/state/state.h\<close>: what a user of a \<^verbatim>\<open>state\<close> relies on. A state stands for a map from
  keys to values, the empty string being the value of a key that is not set; \<open>get\<close> reads it, \<open>set\<close> and
  \<open>erase\<close> change it at one key. A Merkle state has in addition hashes that depend on that map only.
\<close>

section \<open>Several updates\<close>

text \<open>A sequence of calls of \<open>set\<close>; the first that throws ends it.\<close>

fun set_all ::
  "('s \<Rightarrow> string \<Rightarrow> string \<Rightarrow> 's throws option) \<Rightarrow> (string \<times> string) list \<Rightarrow> 's \<Rightarrow> 's throws option" where
  "set_all st [] s = Some (return s)"
| "set_all st ((k, v) # kvs) s = do {
     r \<leftarrow> st s k v;
     (case r of Inl e \<Rightarrow> Some (throw e) | Inr s' \<Rightarrow> set_all st kvs s') }"

fun upd_all :: "(string \<times> string) list \<Rightarrow> (string \<Rightarrow> string) \<Rightarrow> string \<Rightarrow> string" where
  "upd_all [] m = m"
| "upd_all ((k, v) # kvs) m = upd_all kvs (m(k := v))"

lemma upd_all_distinct:
  "distinct (map fst kvs) \<Longrightarrow> upd_all kvs m k = (case map_of kvs k of Some v \<Rightarrow> v | None \<Rightarrow> m k)"
  by (induction kvs m rule: upd_all.induct) (auto split: option.splits dest: map_of_SomeD simp: rev_image_eqI)

lemma upd_all_perm:
  assumes "distinct (map fst kvs)" and "distinct (map fst kvs')" and "set kvs = set kvs'"
  shows "upd_all kvs m = upd_all kvs' m"
  using assms map_of_inject_set [OF assms(1,2)] by (simp add: fun_eq_iff upd_all_distinct)

section \<open>The contract\<close>

locale state_contract =
  fixes rep :: "'s \<Rightarrow> (string \<Rightarrow> string) \<Rightarrow> bool"
    and get_value :: "'s \<Rightarrow> string \<Rightarrow> string option"
    and set_value :: "'s \<Rightarrow> string \<Rightarrow> string \<Rightarrow> 's throws option"
    and remove :: "'s \<Rightarrow> string \<Rightarrow> 's throws option"
  assumes get_rep: "rep s m \<Longrightarrow> get_value s k = Some (m k)"
    and set_rep: "rep s m \<Longrightarrow> v \<noteq> [] \<Longrightarrow> \<exists>s'. set_value s k v = Some (return s') \<and> rep s' (m(k := v))"
    and remove_rep: "rep s m \<Longrightarrow> m k \<noteq> [] \<Longrightarrow> k \<noteq> [] \<Longrightarrow>
      \<exists>s'. remove s k = Some (return s') \<and> rep s' (m(k := []))"
begin

lemma get_after_set:
  assumes "rep s m" and "v \<noteq> []"
  shows "\<exists>s'. set_value s k v = Some (return s') \<and>
    (\<forall>k'. get_value s' k' = (if k' = k then Some v else get_value s k'))"
  using set_rep [OF assms, of k] get_rep [OF assms(1)] get_rep by fastforce

lemma get_after_remove:
  assumes "rep s m" and "get_value s k \<noteq> Some []" and "k \<noteq> []"
  shows "\<exists>s'. remove s k = Some (return s') \<and>
    (\<forall>k'. get_value s' k' = (if k' = k then Some [] else get_value s k'))"
  using remove_rep [OF assms(1) _ assms(3)] get_rep [OF assms(1)] get_rep assms(2) by fastforce

lemma set_all_rep:
  "rep s m \<Longrightarrow> \<forall>(k, v) \<in> set kvs. v \<noteq> [] \<Longrightarrow>
   \<exists>s'. set_all set_value kvs s = Some (return s') \<and> rep s' (upd_all kvs m)"
proof (induction kvs arbitrary: s m)
  case (Cons kv kvs)
  obtain k v where kv: "kv = (k, v)" by (cases kv)
  with Cons.prems set_rep [of s m v k] obtain s' where
    s': "set_value s k v = Some (return s')" "rep s' (m(k := v))" by auto
  have "\<forall>(k, v) \<in> set kvs. v \<noteq> []" using Cons.prems(2) by simp
  from Cons.IH [OF s'(2) this] s'(1) kv show ?case by (simp del: fun_upd_apply)
qed auto

end

locale merkle_contract = state_contract +
  fixes hash_at :: "'a \<Rightarrow> string \<Rightarrow> string option"
  assumes hash_rep: "rep s m \<Longrightarrow> rep s' m \<Longrightarrow> hash_at s k = hash_at s' k"
begin

text \<open>The order in which distinct keys are set does not show in the hashes.\<close>

lemma hash_order_independent:
  assumes r: "rep s m" and ne: "\<forall>(k, v) \<in> set kvs. v \<noteq> []"
    and d: "distinct (map fst kvs)" "distinct (map fst kvs')" and eq: "set kvs = set kvs'"
  shows "\<exists>s1 s2. set_all set_value kvs s = Some (return s1) \<and> set_all set_value kvs' s = Some (return s2) \<and>
    (\<forall>k. hash_at s1 k = hash_at s2 k)"
proof -
  obtain s1 where s1: "set_all set_value kvs s = Some (return s1)" "rep s1 (upd_all kvs m)"
    using set_all_rep [OF r ne] by blast
  obtain s2 where s2: "set_all set_value kvs' s = Some (return s2)" "rep s2 (upd_all kvs' m)"
    using set_all_rep [OF r, of kvs'] ne eq by blast
  show ?thesis using s1 s2 hash_rep upd_all_perm [OF d eq] by metis
qed

text \<open>Erasing a key that was set after not being set gives the old hashes back.\<close>

lemma hash_set_remove:
  assumes r: "rep s m" and "get_value s k = Some []" and "v \<noteq> []" and "k \<noteq> []"
  shows "\<exists>s1 s2. set_value s k v = Some (return s1) \<and> remove s1 k = Some (return s2) \<and>
    (\<forall>q. hash_at s2 q = hash_at s q)"
proof -
  obtain s1 where s1: "set_value s k v = Some (return s1)" "rep s1 (m(k := v))"
    using set_rep [OF r assms(3)] by blast
  obtain s2 where s2: "remove s1 k = Some (return s2)" "rep s2 (m(k := v, k := []))"
    using remove_rep [OF s1(2) _ assms(4)] assms(3) by auto
  have "m(k := v, k := []) = m" using get_rep [OF r, of k] assms(2) by auto
  with s2 r have "hash_at s2 q = hash_at s q" for q by (metis hash_rep)
  with s1 s2 show ?thesis by blast
qed

end

end
