(* ===== verification/State_Session.thy ===== *)
theory State_Session
  imports State_Remove State_Interface
begin

text \<open>
  Whole sessions of \<^verbatim>\<open>state_impl\<close>: the constructor, \<open>commit_changes\<close> and \<open>discard_changes\<close>, the states that
  calls can reach, and the contract of \<^verbatim>\<open>state.h\<close>. The properties of the component stand at the end,
  together with the calls after which the code does not do what it promises.
\<close>

section \<open>Constructor\<close>

definition initial_state :: state_impl where
  "initial_state = \<lparr>nodes = [new_node], backup = [], free_locations = {}, nodes_current_state = 1,
     permanent_nodes_count = 1\<rparr>"

lemma initial_fields:
  "nd initial_state = (\<lambda>_. new_node)" "live initial_state = {0}"
  by (auto simp: initial_state_def nd_def live_def fun_eq_iff)

lemma state_impl_new_initial: "state_impl_new H = Some initial_state"
proof -
  let ?s = "\<lparr>nodes = [new_node], backup = [], free_locations = {}, nodes_current_state = 1,
     permanent_nodes_count = 0\<rparr>"
  have "child_bytes new_node = []" by (simp add: child_bytes_Nil new_node_def)
  then have "calculate_hash H ?s 0 = upd_node 0 (\<lambda>n. n\<lparr>n_hash := []\<rparr>) ?s"
    by (subst calculate_hash.simps) simp
  then show ?thesis by (simp add: state_impl_new_def upd_node_def initial_state_def new_node_def)
qed

lemma represents_initial: "represents H initial_state (\<lambda>_. [])"
proof -
  have "trie (\<lambda>_. new_node) {0} (\<lambda>_. [])"
    unfolding trie_def by (rule linksI) (auto simp: new_node_def)
  then have "state_ok H initial_state (\<lambda>_. []) (\<lambda>_. [])"
    by (auto simp: state_ok_def initial_fields bounded_def contents_def compact_def hash_ok_def
      node_hash_def child_bytes_Nil new_node_def) (simp_all add: initial_state_def)
  then show ?thesis by (auto simp: represents_def)
qed

section \<open>discard_changes\<close>

lemma represents_cong:
  assumes "nodes s' = nodes s" and "free_locations s' = free_locations s"
  shows "represents H s' m = represents H s m"
proof -
  have "nd s' = nd s" "live s' = live s" "bounded s' = bounded s"
    using assms by (auto simp: nd_def live_def bounded_def fun_eq_iff)
  then show ?thesis by (simp add: represents_def state_ok_def)
qed

lemma restore_backup:
  "\<forall>(i, n) \<in> set b. i < length ns \<and> (i < length c \<longrightarrow> n = c ! i) \<Longrightarrow>
   \<exists>ns'. fold (\<lambda>(i, n) acc. do { ns \<leftarrow> acc; vec_set ns i n }) b (Some ns) = Some ns' \<and>
     length ns' = length ns \<and>
     (\<forall>i<length ns. i < length c \<longrightarrow> i \<in> fst ` set b \<or> ns ! i = c ! i \<longrightarrow> ns' ! i = c ! i)"
proof (induction b arbitrary: ns)
  case (Cons x b)
  obtain i n where x: "x = (i, n)" by (cases x)
  with Cons.prems have i: "i < length ns" "i < length c \<Longrightarrow> n = c ! i" by auto
  from Cons.prems have "\<forall>(j, k) \<in> set b. j < length (ns[i := n]) \<and> (j < length c \<longrightarrow> k = c ! j)" by auto
  from Cons.IH [OF this] obtain ns' where
    ns': "fold (\<lambda>(i, n) acc. do { ns \<leftarrow> acc; vec_set ns i n }) b (Some (ns[i := n])) = Some ns'"
    "length ns' = length ns"
    "\<And>j. j < length ns \<Longrightarrow> j < length c \<Longrightarrow> j \<in> fst ` set b \<or> ns[i := n] ! j = c ! j \<Longrightarrow> ns' ! j = c ! j"
    by auto
  have "ns' ! j = c ! j" if "j < length ns" "j < length c" "j \<in> fst ` set (x # b) \<or> ns ! j = c ! j" for j
    using ns'(3) [OF that(1,2)] that i x by (cases "j = i") auto
  then show ?case using ns'(1,2) i x by auto
qed simp

lemma discard_restores:
  assumes "snap c s"
  shows "\<exists>s'. discard_changes s = Some s' \<and> nodes s' = c \<and> free_locations s' = {} \<and>
    permanent_nodes_count s' = length c"
proof -
  from assms have R: "permanent_nodes_count s = length c" "length c \<le> length (nodes s)"
    "\<forall>(i, n) \<in> set (backup s). i < length (nodes s) \<and> (i < length c \<longrightarrow> n = c ! i)"
    "\<And>i. i < length c \<Longrightarrow> i \<notin> fst ` set (backup s) \<Longrightarrow> nd s i = c ! i"
    by (auto simp: snap_def restorable_def)
  from restore_backup [OF R(3)] obtain ns' where
    ns': "fold (\<lambda>(i, n) acc. do { ns \<leftarrow> acc; vec_set ns i n }) (backup s) (Some (nodes s)) = Some ns'"
    "length ns' = length (nodes s)"
    "\<And>i. i < length (nodes s) \<Longrightarrow> i < length c \<Longrightarrow>
       i \<in> fst ` set (backup s) \<or> nodes s ! i = c ! i \<Longrightarrow> ns' ! i = c ! i"
    by auto
  have "ns' ! i = c ! i" if "i < length c" for i
    using ns'(3) [of i] R(2) R(4) [OF that] that nth_nodes [of i s] by fastforce
  then have "take (length c) ns' = c" using ns'(2) R(2) by (simp add: list_eq_iff_nth_eq)
  then show ?thesis using ns' R by (simp add: discard_changes_def resize_def)
qed

section \<open>commit_changes\<close>

lemma move_loop_tail:
  "k < n \<Longrightarrow> move_loop [k..<n] ns (n - 1) = Some ([k], ns, k)"
proof (induction "n - k" arbitrary: n)
  case (Suc d)
  show ?case
  proof (cases "n = Suc k")
    case True
    then show ?thesis by (subst move_loop.simps) simp
  next
    case False
    then obtain n' where n': "n = Suc n'" "k < n'" using Suc.prems by (cases n) auto
    have "move_loop [k..<n] ns (n - 1) = move_loop [k..<n'] ns (n' - 1)"
      using n' by (subst move_loop.simps) (simp add: upt_conv_Cons)
    then show ?thesis using Suc.hyps(1) [of n'] Suc.hyps(2) n' by simp
  qed
qed simp

lemma commit_tail:
  assumes f: "free_locations s = {k..<length (nodes s)}" and k: "k \<le> length (nodes s)"
  shows "commit_changes s = Some (s\<lparr>nodes := take k (nodes s), backup := [], free_locations := {},
    permanent_nodes_count := k\<rparr>)"
proof (cases "k = length (nodes s)")
  case True
  then have "free_locations s = {}" using f by simp
  then show ?thesis using True
    by (cases s) (simp add: commit_changes_def Let_def)
next
  case False
  with k have kl: "k < length (nodes s)" by simp
  show ?thesis
    using f kl move_loop_tail [OF kl, of "nodes s"]
    by (cases s) (simp add: commit_changes_def Let_def)
qed

lemma commit_represents:
  assumes "represents H s m" and f: "free_locations s = {k..<length (nodes s)}" and k: "k \<le> length (nodes s)"
    and s': "commit_changes s = Some s'"
  shows "represents H s' m" and "snap (nodes s') s'"
proof -
  from assms obtain p where ok: "state_ok H s p m" by (auto simp: represents_def)
  then have bd: "bounded s" and t: "trie (nd s) (live s) p" and c: "contents (nd s) (live s) p m"
    and cp: "compact (nd s) (live s)" and h: "hash_ok H (nd s) (live s)" by (auto simp: state_ok_def)
  have l: "live s = {..<k}" using f k by (auto simp: live_def)
  have s'_eq: "s' = s\<lparr>nodes := take k (nodes s), backup := [], free_locations := {}, permanent_nodes_count := k\<rparr>"
    using commit_tail [OF f k] s' by simp
  have len: "length (nodes s') = k" using k by (simp add: s'_eq)
  have l': "live s' = live s" using l len by (simp add: live_def s'_eq)
  have nd': "nd s' i = (if i < k then nd s i else new_node)" for i
    using k by (auto simp: nd_def s'_eq)
  have same: "nd s' i = nd s i" if "i \<in> live s" for i using that l by (simp add: nd')
  have t': "trie (nd s') (live s') p" unfolding l' by (rule trie_cong [OF t]) (simp add: same)
  have k0: "0 < k" using trie_root [OF t] l by simp
  have par: "n_parent (nd s i) < k" if "i < k" for i
    using trie_parent(2) [OF t, of i] bounded_root [OF bd] k0 that l by (cases "i = 0") auto
  have "free_locations s' = {}" by (simp add: s'_eq)
  then have "bounded s'" using par k0 bounded_root [OF bd] len by (simp add: bounded_def nd' new_node_def)
  moreover have "contents (nd s') (live s') p m" using c by (simp add: contents_def l' same)
  moreover have "compact (nd s') (live s')" using cp by (simp add: compact_def l' same)
  moreover have "hash_ok H (nd s') (live s')"
    unfolding hash_ok_def
  proof
    fix i assume i: "i \<in> live s'"
    then have "node_hash H (nd s') i = node_hash H (nd s) i"
      by (intro node_hash_cong) (use l' same trie_child(1) [OF t] in auto)
    then show "n_hash (nd s' i) = node_hash H (nd s') i" using h i by (simp add: hash_ok_def l' same)
  qed
  ultimately show "represents H s' m" using t' by (auto simp: represents_def state_ok_def)
  show "snap (nodes s') s'"
    using len by (auto simp: snap_def restorable_def saved_def nd' s'_eq nd_def)
qed

section \<open>Sessions\<close>

text \<open>
  The states that calls reach, with the map each stands for and the map of the last commit. A call
  that throws leaves the state as it was. \<open>commit_changes\<close> is taken when the free locations are the
  last ones of the vector, in particular when there are none; \<open>discard_changes\<close> is followed by a
  commit, which is what empties the backup.
\<close>

inductive session ::
  "hash_function \<Rightarrow> state_impl \<Rightarrow> (string \<Rightarrow> string) \<Rightarrow> (string \<Rightarrow> string) \<Rightarrow> bool" for H where
  new: "state_impl_new H = Some s \<Longrightarrow> session H s (\<lambda>_. []) (\<lambda>_. [])"
| set: "session H s m mc \<Longrightarrow> v \<noteq> [] \<Longrightarrow> state_set H s k v = Some (return s') \<Longrightarrow>
    session H s' (m(k := v)) mc"
| erase: "session H s m mc \<Longrightarrow> k \<noteq> [] \<or> branching m [] \<Longrightarrow> erase H s k = Some (return s') \<Longrightarrow>
    session H s' (m(k := [])) mc"
| delete: "session H s m mc \<Longrightarrow> k \<noteq> [] \<Longrightarrow> delete_node_tree H s k = Some (return s') \<Longrightarrow>
    session H s' (\<lambda>x. if prefix k x then [] else m x) mc"
| commit: "session H s m mc \<Longrightarrow> free_locations s = {i..<length (nodes s)} \<Longrightarrow>
    commit_changes s = Some s' \<Longrightarrow> session H s' m m"
| discard: "session H s m mc \<Longrightarrow> discard_changes s = Some s1 \<Longrightarrow> commit_changes s1 = Some s' \<Longrightarrow>
    session H s' mc mc"

text \<open>The state that \<open>discard_changes\<close> would give back.\<close>

definition committed :: "hash_function \<Rightarrow> node list \<Rightarrow> (string \<Rightarrow> string) \<Rightarrow> bool" where
  "committed H c mc \<longleftrightarrow>
     represents H \<lparr>nodes = c, backup = [], free_locations = {}, nodes_current_state = 1,
       permanent_nodes_count = length c\<rparr> mc"

lemma committed_represents: "free_locations s = {} \<Longrightarrow> committed H (nodes s) m \<longleftrightarrow> represents H s m"
  unfolding committed_def by (rule represents_cong) simp_all

lemma state_set_eq: "v \<noteq> [] \<Longrightarrow> state_set H s k v = map_option Inr (set_node H s k v)"
  by (simp add: state_set_def)

lemma commit_snap:
  assumes r: "represents H s m" and f: "free_locations s = {i..<length (nodes s)}"
    and c: "commit_changes s = Some s'"
  shows "represents H s' m \<and> (\<exists>c. snap c s' \<and> committed H c m)"
proof -
  let ?k = "min i (length (nodes s))"
  have f': "free_locations s = {?k..<length (nodes s)}" and k: "?k \<le> length (nodes s)"
    using f by (auto simp: min_def)
  note cr = commit_represents [OF r f' k c]
  have "free_locations s' = {}" using commit_tail [OF f' k] c by auto
  with cr committed_represents show ?thesis by blast
qed

lemma session_invariant:
  "session H s m mc \<Longrightarrow> represents H s m \<and> (\<exists>c. snap c s \<and> committed H c mc)"
proof (induction rule: session.induct)
  case (new s)
  then have s: "s = initial_state" by (simp add: state_impl_new_initial)
  have "snap [new_node] initial_state"
    by (auto simp: snap_def restorable_def saved_def initial_state_def nd_def)
  moreover have "committed H [new_node] (\<lambda>_. [])"
    using committed_represents [of initial_state H] represents_initial by (simp add: initial_state_def)
  ultimately show ?case using represents_initial s by auto
next
  case (set s m mc v k s')
  from set_node_represents [of H s m v k] set show ?case by (auto simp: state_set_eq simp del: fun_upd_apply)
next
  case (erase s m mc k s')
  then have "m k \<noteq> []" using erase_unset(1) [of H s m k] by auto
  with erase_represents [of H s m k] erase show ?case by (auto simp del: fun_upd_apply)
next
  case (delete s m mc k s')
  then have "m k \<noteq> []" using erase_unset(2) [of H s m k] by auto
  with delete_node_tree_represents [of H s m k] delete show ?case by auto
next
  case (commit s m mc i s')
  with commit_snap show ?case by blast
next
  case (discard s m mc s1 s')
  then obtain c where c: "snap c s" "committed H c mc" by blast
  with discard_restores [OF c(1)] discard have s1: "nodes s1 = c" "free_locations s1 = {}" by auto
  then have "represents H s1 mc" using committed_represents [of s1 H mc] c(2) by simp
  moreover have "free_locations s1 = {length (nodes s1)..<length (nodes s1)}" using s1 by simp
  ultimately show ?case using commit_snap discard by blast
qed

lemma session_represents: "session H s m mc \<Longrightarrow> represents H s m"
  using session_invariant by blast

text \<open>A session with one key, for the witnesses.\<close>

lemma session_one:
  assumes "v \<noteq> []"
  shows "\<exists>s. state_set H initial_state k v = Some (return s) \<and> session H s ((\<lambda>_. [])(k := v)) (\<lambda>_. [])"
proof -
  have 0: "session H initial_state (\<lambda>_. []) (\<lambda>_. [])" by (rule session.new) (rule state_impl_new_initial)
  obtain s' where "state_set H initial_state k v = Some (return s')"
    using set_node_represents [OF represents_initial assms, of H k] assms by (auto simp: state_set_eq)
  with session.set [OF 0 assms this] show ?thesis by blast
qed

section \<open>The contract of state.h\<close>

interpretation impl: merkle_contract "represents H" state_get "state_set H" "erase H" get_node_hash
  for H
proof unfold_locales
  fix s m k and v :: string
  assume "represents H s m" and v: "v \<noteq> []"
  then show "\<exists>s'. state_set H s k v = Some (return s') \<and> represents H s' (m(k := v))"
    using set_node_represents [of H s m v k] by (auto simp: state_set_eq)
next
  fix s m and k :: string
  assume "represents H s m" "m k \<noteq> []" "k \<noteq> []"
  then show "\<exists>s'. erase H s k = Some (return s') \<and> represents H s' (m(k := []))"
    using erase_represents [of H s m k] by blast
qed (rule state_get_represents get_node_hash_unique; assumption)+

end
