(* ===== verification/State_Properties.thy ===== *)
theory State_Properties
  imports State_Session
begin

text \<open>The properties of the Merkle trie \<^verbatim>\<open>state_impl\<close>, and the calls that break its promises.\<close>

section \<open>What sessions guarantee\<close>

lemma session_reads: "session H s m mc \<Longrightarrow> state_get s k = Some (m k)"
  by (rule state_get_represents [OF session_represents])

text \<open>C1: in every state of a session, \<open>get\<close> returns, for every key, the value the calls so far have given
  it: the trie refines the map from keys to values. A session is made of the constructor, \<open>set\<close> with a
  non-empty value, \<open>erase\<close> of a non-empty key (or of the empty one while the root branches),
  \<open>delete_node_tree\<close> of a non-empty key, \<open>commit_changes\<close> when no free location lies before a live node,
  and \<open>discard_changes\<close> followed at once by \<open>commit_changes\<close>; the calls left out do break the map, as the
  theorems of the last section show.\<close>

theorem session_get:
  assumes "session H s m mc"
  shows "state_get s k = Some (m k)"
  by (rule session_reads [OF assms])

theorem session_get_witness:
  "\<exists>s. session (\<lambda>_. ''h'') s ((\<lambda>_. [])(''abc'' := ''v'')) (\<lambda>_. []) \<and> state_get s ''abc'' = Some ''v'' \<and>
     state_get s ''ab'' = Some []"
proof -
  obtain s where s: "session (\<lambda>_. ''h'') s ((\<lambda>_. [])(''abc'' := ''v'')) (\<lambda>_. [])"
    using session_one [of "''v''" "\<lambda>_. ''h''" "''abc''"] by auto
  from s session_get [OF s, of "''abc''"] session_get [OF s, of "''ab''"] show ?thesis by auto
qed

text \<open>C3: \<open>set\<close> with a value always returns in a session: it never reads or writes outside the node
  vector, whatever edges it has to split. Afterwards \<open>get\<close> of the key returns the new value, \<open>get\<close> of
  every other key what it returned before, and the session goes on from there.\<close>

theorem session_set:
  assumes "session H s m mc" and "v \<noteq> []"
  shows "\<exists>s'. state_set H s k v = Some (return s') \<and> session H s' (m(k := v)) mc \<and>
    state_get s' k = Some v \<and> (\<forall>x. x \<noteq> k \<longrightarrow> state_get s' x = state_get s x)"
proof -
  obtain s' where s': "state_set H s k v = Some (return s')"
    using impl.set_rep [OF session_represents [OF assms(1)] assms(2)] by blast
  note n = session.set [OF assms s']
  show ?thesis
    using s' n session_reads [OF n] session_reads [OF assms(1)] by auto
qed

theorem session_set_witness:
  "\<exists>s s'. state_set (\<lambda>_. ''h'') s ''abd'' ''w'' = Some (return s') \<and>
     session (\<lambda>_. ''h'') s' ((\<lambda>_. [])(''abc'' := ''v'', ''abd'' := ''w'')) (\<lambda>_. []) \<and>
     state_get s' ''abd'' = Some ''w'' \<and> state_get s' ''abc'' = state_get s ''abc''"
proof -
  obtain s where s: "session (\<lambda>_. ''h'') s ((\<lambda>_. [])(''abc'' := ''v'')) (\<lambda>_. [])"
    using session_one [of "''v''" "\<lambda>_. ''h''" "''abc''"] by auto
  from session_set [OF s, of "''w''" "''abd''"] obtain s' where
    "state_set (\<lambda>_. ''h'') s ''abd'' ''w'' = Some (return s')"
    "session (\<lambda>_. ''h'') s' ((\<lambda>_. [])(''abc'' := ''v'', ''abd'' := ''w'')) (\<lambda>_. [])"
    "state_get s' ''abd'' = Some ''w''" "\<forall>x. x \<noteq> ''abd'' \<longrightarrow> state_get s' x = state_get s x" by blast
  then show ?thesis by (intro exI [of _ s] exI [of _ s']) (simp del: fun_upd_apply)
qed

text \<open>C4: in a session, \<open>erase\<close> of a key without a value throws \<^verbatim>\<open>out_of_range\<close>, whatever the key. \<open>erase\<close> of a
  key with a value returns, unsets that key and leaves what \<open>get\<close> returns for every other one, whatever
  nodes it has to remove or merge, when the key is not empty or the root branches; the empty key at a
  root that does not branch is left out, where the value stays (\<open>erase_root_keeps_value\<close> below).\<close>

theorem session_erase:
  assumes "session H s m mc"
  shows "if m k = [] then erase H s k = Some (throw (no_set_node k))
    else k \<noteq> [] \<or> branching m [] \<longrightarrow> (\<exists>s'. erase H s k = Some (return s') \<and> session H s' (m(k := [])) mc \<and>
      state_get s' k = Some [] \<and> (\<forall>x. x \<noteq> k \<longrightarrow> state_get s' x = state_get s x))"
proof -
  note r = session_represents [OF assms(1)]
  have "\<exists>s'. erase H s k = Some (return s') \<and> session H s' (m(k := [])) mc \<and>
      state_get s' k = Some [] \<and> (\<forall>x. x \<noteq> k \<longrightarrow> state_get s' x = state_get s x)"
    if k: "m k \<noteq> []" "k \<noteq> [] \<or> branching m []"
  proof -
    from erase_represents [OF r k] obtain s' where s': "erase H s k = Some (return s')" by blast
    note n = session.erase [OF assms k(2) s']
    show ?thesis using s' n session_reads [OF n] session_reads [OF assms] by auto
  qed
  then show ?thesis using erase_unset(1) [OF r] by simp
qed

theorem session_erase_witness:
  "\<exists>s s'. erase (\<lambda>_. ''h'') s ''abc'' = Some (return s') \<and> state_get s ''abc'' = Some ''v'' \<and>
     state_get s' ''abc'' = Some [] \<and> state_get s' ''ab'' = state_get s ''ab'' \<and>
     erase (\<lambda>_. ''h'') s ''ab'' = Some (throw (no_set_node ''ab''))"
proof -
  obtain s where s: "session (\<lambda>_. ''h'') s ((\<lambda>_. [])(''abc'' := ''v'')) (\<lambda>_. [])"
    using session_one [of "''v''" "\<lambda>_. ''h''" "''abc''"] by auto
  from session_erase [OF s, of "''abc''"] obtain s' where
    "erase (\<lambda>_. ''h'') s ''abc'' = Some (return s')" "state_get s' ''abc'' = Some []"
    "\<forall>x. x \<noteq> ''abc'' \<longrightarrow> state_get s' x = state_get s x" by auto
  with session_erase [OF s, of "''ab''"] session_reads [OF s, of "''abc''"]
  show ?thesis by (intro exI [of _ s] exI [of _ s']) simp
qed



text \<open>C6: \<open>discard_changes\<close> at any point of a session gives back, for every key, the value of the last
  commit, however the nodes have been split, merged, freed and reused since.\<close>

theorem session_discard:
  assumes "session H s m mc"
  shows "\<exists>s'. discard_changes s = Some s' \<and> (\<forall>k. state_get s' k = Some (mc k))"
proof -
  from session_invariant [OF assms] obtain c where c: "snap c s" "committed H c mc" by blast
  from discard_restores [OF c(1)] obtain s' where
    s': "discard_changes s = Some s'" "nodes s' = c" "free_locations s' = {}" by blast
  then have "represents H s' mc" using committed_represents [of s' H mc] c(2) by simp
  with s'(1) state_get_represents show ?thesis by blast
qed

theorem session_discard_witness:
  "\<exists>s s'. state_get s ''abc'' = Some ''v'' \<and> discard_changes s = Some s' \<and> state_get s' ''abc'' = Some []"
proof -
  obtain s where s: "session (\<lambda>_. ''h'') s ((\<lambda>_. [])(''abc'' := ''v'')) (\<lambda>_. [])"
    using session_one [of "''v''" "\<lambda>_. ''h''" "''abc''"] by auto
  from session_discard [OF s] state_get_represents [OF session_represents [OF s], of "''abc''"]
  show ?thesis by auto
qed

text \<open>C7: \<open>commit_changes\<close>, when the free locations are the last ones of the node vector (no hole before a
  live node), keeps every value, makes it permanent and leaves no free location.\<close>

theorem session_commit:
  assumes "session H s m mc" and "free_locations s = {i..<length (nodes s)}"
  shows "\<exists>s'. commit_changes s = Some s' \<and> free_locations s' = {} \<and> session H s' m m \<and>
    (\<forall>k. state_get s' k = Some (m k))"
proof -
  let ?k = "min i (length (nodes s))"
  have f: "free_locations s = {?k..<length (nodes s)}" and k: "?k \<le> length (nodes s)"
    using assms(2) by (auto simp: min_def)
  note c = commit_tail [OF f k]
  note s' = session.commit [OF assms c]
  from c s' state_get_represents [OF session_represents [OF s']] show ?thesis by auto
qed

theorem session_commit_witness:
  "\<exists>s'. commit_changes initial_state = Some s' \<and> free_locations s' = {} \<and>
     session (\<lambda>_. ''h'') s' (\<lambda>_. []) (\<lambda>_. [])"
proof -
  have "session (\<lambda>_. ''h'') initial_state (\<lambda>_. []) (\<lambda>_. [])" by (rule session.new) (rule state_impl_new_initial)
  moreover have "free_locations initial_state = {1..<length (nodes initial_state)}"
    by (simp add: initial_state_def)
  ultimately show ?thesis using session_commit by blast
qed

text \<open>C9: the hashes depend on the contents only: two sessions that end with the same values have the same
  hash at every path, whatever the order of their calls, their commits and the free locations they
  left.\<close>

theorem session_hash_unique:
  assumes "session H s m mc" and "session H s' m mc'"
  shows "get_node_hash s k = get_node_hash s' k"
  by (rule get_node_hash_unique [OF session_represents [OF assms(1)] session_represents [OF assms(2)]])

theorem session_hash_unique_witness:
  "\<exists>s s'. state_set (\<lambda>_. ''h'') initial_state ''a'' ''v'' = Some (return s) \<and>
     erase (\<lambda>_. ''h'') s ''a'' = Some (return s') \<and>
     get_node_hash s' ''a'' = get_node_hash initial_state ''a''"
proof -
  have 0: "session (\<lambda>_. ''h'') initial_state (\<lambda>_. []) (\<lambda>_. [])"
    by (rule session.new) (rule state_impl_new_initial)
  obtain s where set: "state_set (\<lambda>_. ''h'') initial_state ''a'' ''v'' = Some (return s)"
    and s: "session (\<lambda>_. ''h'') s ((\<lambda>_. [])(''a'' := ''v'')) (\<lambda>_. [])"
    using session_one [of "''v''" "\<lambda>_. ''h''" "''a''"] by auto
  have e: "((\<lambda>_. [])(''a'' := ''v'', ''a'' := [])) = (\<lambda>_. [])" by auto
  obtain s' where er: "erase (\<lambda>_. ''h'') s ''a'' = Some (return s')"
    using erase_represents [OF session_represents [OF s], of "''a''"] by auto
  from session.erase [OF s _ er] e have "session (\<lambda>_. ''h'') s' (\<lambda>_. []) (\<lambda>_. [])" by simp
  from session_hash_unique [OF this 0, of "''a''"] set er show ?thesis by blast
qed

text \<open>The hashes of the nodes below a path.\<close>

definition child_hashes :: "state_impl \<Rightarrow> string \<Rightarrow> string list \<Rightarrow> string list option" where
  "child_hashes s k ps = those (map (\<lambda>p. get_node_hash s (k @ p)) ps)"

lemma get_node_hash_at:
  assumes "trie (nd s) (live s) p" and "i \<in> live s"
  shows "get_node_hash s (p i) = Some (n_hash (nd s i))"
  using assms(1)
proof (cases rule: get_node_index_cases [where k = "p i"])
  case (node j)
  then have "j = i" using trie_unique [OF assms(1) _ assms(2)] by simp
  with node show ?thesis by (simp add: get_node_hash_def)
qed (use assms(2) in auto)

lemma child_hashes_at:
  assumes t: "trie (nd s) (live s) p" and i: "i \<in> live s"
  shows "child_hashes s (p i) (map (\<lambda>c. n_prefix (nd s (n_children (nd s i) c))) (child_bytes (nd s i))) =
    Some (map (\<lambda>c. n_hash (nd s (n_children (nd s i) c))) (child_bytes (nd s i)))"
proof -
  have "get_node_hash s (p i @ n_prefix (nd s (n_children (nd s i) c))) = Some (n_hash (nd s (n_children (nd s i) c)))"
    if "c \<in> set (child_bytes (nd s i))" for c
    using get_node_hash_at [OF t trie_child(1) [OF t i]] trie_child(5) [OF t i] that by simp
  then show ?thesis unfolding child_hashes_def map_map o_def by (rule those_map_Some)
qed

text \<open>C8: in a session, the stored hashes are Merkle hashes. For a node with label \<open>q\<close> below the node at \<open>k\<close>,
  with a value or only branching, the hash is the digest of its value, its label and the hashes of its
  children in the order of their first bytes. The root is the exception: its hash is the digest of its
  value and its children's hashes when it has children, and empty without, even with a value.\<close>

theorem session_merkle:
  assumes "session H s m mc" and "get_node_children s k = Some (return ps)"
  shows "\<exists>hs. child_hashes s k ps = Some hs \<and>
    (k = [] \<longrightarrow> get_node_hash s k = Some (if ps = [] then [] else H (m k @ concat hs))) \<and>
    (\<forall>q\<in>set ps. \<exists>qs hs. get_node_children s (k @ q) = Some (return qs) \<and>
      child_hashes s (k @ q) qs = Some hs \<and> get_node_hash s (k @ q) = Some (H (m (k @ q) @ q @ concat hs)))"
proof -
  from session_represents [OF assms(1)] obtain p where ok: "state_ok H s p m" by (auto simp: represents_def)
  then have t: "trie (nd s) (live s) p" and c: "contents (nd s) (live s) p m"
    and h: "hash_ok H (nd s) (live s)" by (auto simp: state_ok_def)
  have "k \<in> p ` live s" using get_node_children_spec(2) [OF t, of k] assms(2) by force
  then obtain i where i: "i \<in> live s" "k = p i" by auto
  let ?cs = "child_bytes (nd s i)"
  have ps: "ps = map (\<lambda>c. n_prefix (nd s (n_children (nd s i) c))) ?cs"
    using get_node_children_spec(1) [OF t i(1)] assms(2) i(2) by simp
  have hash: "get_node_hash s (p j) = Some (node_hash H (nd s) j)" if "j \<in> live s" for j
    using get_node_hash_at [OF t that] h that by (simp add: hash_ok_def)
  have root: "get_node_hash s k = Some (if ps = [] then [] else
      H (m k @ concat (map (\<lambda>c. n_hash (nd s (n_children (nd s i) c))) ?cs)))" if "k = []"
  proof -
    have "i = 0" using trie_unique [OF t i(1), of 0] trie_root [OF t] i(2) that by simp
    then show ?thesis
      using hash [OF i(1)] contents_at [OF c i(1)] trie_root [OF t] i(2) ps by (simp add: node_hash_def)
  qed
  have child: "\<exists>qs hs. get_node_children s (k @ q) = Some (return qs) \<and>
      child_hashes s (k @ q) qs = Some hs \<and> get_node_hash s (k @ q) = Some (H (m (k @ q) @ q @ concat hs))"
    if q: "q \<in> set ps" for q
  proof -
    obtain b where b: "n_children (nd s i) b \<noteq> 0" "q = n_prefix (nd s (n_children (nd s i) b))"
      using q ps by auto
    let ?j = "n_children (nd s i) b"
    note ch = trie_child [OF t i(1) b(1)]
    have pj: "p ?j = k @ q" using ch(5) i(2) b(2) by simp
    have "get_node_hash s (p ?j) = Some (H (m (p ?j) @ q @
        concat (map (\<lambda>c. n_hash (nd s (n_children (nd s ?j) c))) (child_bytes (nd s ?j)))))"
      using hash [OF ch(1)] contents_at [OF c ch(1)] b by (simp add: node_hash_def)
    with get_node_children_spec(1) [OF t ch(1)] child_hashes_at [OF t ch(1)]
    show ?thesis unfolding pj by blast
  qed
  have "child_hashes s k ps = Some (map (\<lambda>c. n_hash (nd s (n_children (nd s i) c))) ?cs)"
    using child_hashes_at [OF t i(1)] i(2) ps by simp
  with root child show ?thesis by blast
qed

theorem session_merkle_witness:
  "\<exists>s. state_set (\<lambda>x. CHR ''#'' # x) initial_state ''ab'' ''v'' = Some (return s) \<and>
     get_node_children s [] = Some (return [''ab'']) \<and> get_node_hash s ''ab'' = Some ''#vab'' \<and>
     (\<exists>hs. child_hashes s [] [''ab''] = Some hs \<and> get_node_hash s [] = Some (CHR ''#'' # concat hs))"
proof -
  let ?H = "\<lambda>x. CHR ''#'' # x"
  have run: "map_option (map_sum id (\<lambda>s. (get_node_children s [], get_node_hash s ''ab'')))
      (state_set ?H initial_state ''ab'' ''v'') = Some (Inr (Some (return [''ab'']), Some ''#vab''))" by code_simp
  obtain s where st: "state_set ?H initial_state ''ab'' ''v'' = Some (return s)"
    and s: "session ?H s ((\<lambda>_. [])(''ab'' := ''v'')) (\<lambda>_. [])"
    using session_one [of "''v''" ?H "''ab''"] by auto
  from run st have c: "get_node_children s [] = Some (return [''ab''])" "get_node_hash s ''ab'' = Some ''#vab''" by auto
  from session_merkle [OF s c(1)] st c show ?thesis by auto
qed

text \<open>the order of the calls of \<open>set\<close> on distinct keys does not show in the hashes.\<close>

theorem session_set_order:
  assumes "session H s m mc" and "\<forall>(k, v) \<in> set kvs. v \<noteq> []"
    and "distinct (map fst kvs)" and "distinct (map fst kvs')" and "set kvs = set kvs'"
  shows "\<exists>s1 s2. set_all (state_set H) kvs s = Some (return s1) \<and>
    set_all (state_set H) kvs' s = Some (return s2) \<and> (\<forall>k. get_node_hash s1 k = get_node_hash s2 k)"
  by (rule impl.hash_order_independent [OF session_represents [OF assms(1)] assms(2-)])

theorem session_set_order_witness:
  "\<exists>s1 s2. set_all (state_set (\<lambda>_. ''h'')) [(''ab'', ''1''), (''ac'', ''2'')] initial_state = Some (return s1) \<and>
     set_all (state_set (\<lambda>_. ''h'')) [(''ac'', ''2''), (''ab'', ''1'')] initial_state = Some (return s2) \<and>
     (\<forall>k. get_node_hash s1 k = get_node_hash s2 k)"
  by (rule session_set_order [OF session.new [OF state_impl_new_initial]]) auto

section \<open>Where the code breaks its promises\<close>

text \<open>
  A lookup that comes to a node \<open>l\<close> at the end of the vector, when the vector has lost its last location
  and is otherwise, at the nodes in use, as before.
\<close>

lemma lookup_lost_loop:
  assumes t: "trie (nd s) (live s) p" and l: "l \<in> live s" "length ns \<le> l"
    and same: "\<And>i. i \<in> live s \<Longrightarrow> i \<noteq> l \<Longrightarrow> vec_get ns i = Some (nd s i)"
    and path: "prefix (p l) path" and "cur \<in> live s" and "cur \<noteq> 0" and "0 < i" and "i \<le> length path"
    and "take i path = p (n_parent (nd s cur)) @ [hd (n_prefix (nd s cur))]" and "prefix (p cur) (p l)"
  shows "get_node_index_loop ns path cur i True = None"
  using assms(6-)
proof (induction "length path - i" arbitrary: cur i rule: less_induct)
  case less
  note cur = less.prems(1,2) and i = less.prems(3,4) and ti = less.prems(5) and pre = less.prems(6)
  let ?n = "nd s cur"
  let ?pre = "n_prefix ?n" and ?b = "p (n_parent ?n)"
  let ?q = "length (p cur)"
  have none: "vec_get ns l = None" using l(2) by (simp add: vec_get_def)
  show ?case
  proof (cases "cur = l")
    case True
    with none show ?thesis by (subst get_node_index_loop.simps) simp
  next
    case False
    note pa = trie_parent [OF t cur] and get = same [OF cur(1) False]
    have lb: "Suc (length ?b) = i" using arg_cong [OF ti, of length] i by simp
    have q: "?q = i + (length ?pre - 1)" using pa(1,4) lb by (cases ?pre) auto
    have pq: "p cur = take ?q path" "p cur = take ?q (p l)"
      using pre path prefix_order.trans [OF pre path] by (auto simp: prefix_def)
    have "p cur \<noteq> p l" using trie_unique [OF t cur(1) l(1)] False by blast
    with pre have ql: "?q < length (p l)" by (metis prefix_length_less prefix_order.le_imp_less_or_eq strict_prefixI)
    with path have qp: "?q < length path" and same_byte: "path ! ?q = p l ! ?q"
      and tk: "take (Suc ?q) path = take (Suc ?q) (p l)" by (auto simp: prefix_def nth_append)
    define k where "k = n_children ?n (path ! ?q)"
    have k0: "k \<noteq> 0" using trie_step(1) [OF t cur(1) ql pq(2) _ refl] l(1) same_byte k_def by auto
    with trie_step(2) [OF t cur(1) ql pq(2)] same_byte tk
    have k: "k \<in> live s" "take (Suc ?q) path = p (n_parent (nd s k)) @ [hd (n_prefix (nd s k))]"
      and kl: "take (Suc ?q) (p l) = p (n_parent (nd s k)) @ [hd (n_prefix (nd s k))]" by (auto simp: k_def)
    have "prefix (p k) (p l)" using edge_prefix [OF t k(1) k0 kl] l(1) by simp
    with less.hyps [of "Suc ?q" k] k k0 qp q i have rec: "get_node_index_loop ns path k (Suc ?q) True = None" by simp
    show ?thesis
    proof (cases "length ?pre = 1")
      case True
      with get rec k0 q qp show ?thesis by (subst get_node_index_loop.simps) (simp add: k_def)
    next
      case False
      then have l2: "1 < length ?pre" using pa(1) by (cases ?pre) auto
      have "?b = take (i - 1) path" using arg_cong [OF ti, of butlast] i by (simp add: butlast_take)
      moreover have "take ?q path = take (i - 1) path @ take (length ?pre) (drop (i - 1) path)"
        using take_add [of "i - 1" "length ?pre" path] q i l2 by simp
      ultimately have "substr path (i - 1) (length ?pre) = Some ?pre"
        using pa(4) pq(1) i by (simp add: substr_def)
      moreover have "length ?pre - 1 < length path - i" "i < length path" using q qp by auto
      ultimately show ?thesis using get rec k0 q i l2
        by (subst get_node_index_loop.simps) (simp add: k_def Let_def not_le)
    qed
  qed
qed

lemma lookup_lost:
  assumes t: "trie (nd s) (live s) p" and l: "l \<in> live s" "length (nodes s') \<le> l" "l \<noteq> 0"
    and same: "\<And>i. i \<in> live s \<Longrightarrow> i \<noteq> l \<Longrightarrow> vec_get (nodes s') i = Some (nd s i)"
    and path: "prefix (p l) path"
  shows "state_get s' path = None"
proof -
  have r: "0 \<in> live s" "n_prefix (nd s 0) = []" "p 0 = []" using trie_root [OF t] by auto
  have "p l \<noteq> []" using trie_unique [OF t l(1) r(1)] r(3) l(3) by auto
  with path have q: "0 < length (p l)" "0 < length path" "path ! 0 = p l ! 0"
    "take (Suc 0) path = take (Suc 0) (p l)"
    by (auto simp: prefix_def nth_append neq_Nil_conv)
  define k where "k = n_children (nd s 0) (path ! 0)"
  have k0: "k \<noteq> 0" using trie_step(1) [OF t r(1) q(1) _ _ refl] r(3) l(1) q(3) k_def by auto
  with trie_step(2) [OF t r(1) q(1)] r(3) q(3)
  have k: "k \<in> live s" "take (Suc 0) (p l) = p (n_parent (nd s k)) @ [hd (n_prefix (nd s k))]"
    by (auto simp: k_def)
  have "prefix (p k) (p l)" using edge_prefix [OF t k(1) k0 k(2)] l(1) by simp
  with lookup_lost_loop [OF t l(1,2) same path k(1) k0, of "Suc 0"] k(2) q
  have "get_node_index_loop (nodes s') path k (Suc 0) True = None" by simp
  moreover have "vec_get (nodes s') 0 = Some (nd s 0)" using same [OF r(1)] l(3) by simp
  ultimately have "get_node_index s' path = None"
    unfolding get_node_index_def using r k0 q by (subst get_node_index_loop.simps) (simp add: k_def)
  then show ?thesis by (simp add: state_get_def)
qed

lemma commit_one_hole:
  assumes "free_locations s = {h}" and "Suc h < length (nodes s)"
  shows "commit_changes s = Some (s\<lparr>nodes := (butlast (nodes s))[h := last (nodes s)], backup := [],
    free_locations := {}, permanent_nodes_count := length (nodes s) - 1\<rparr>)"
proof -
  have ne: "nodes s \<noteq> []" using assms(2) by auto
  have "move_loop [h] (nodes s) (length (nodes s) - 1) = Some ([h], nodes s, length (nodes s) - 1)"
    by (subst move_loop.simps) simp
  with assms ne show ?thesis
    by (simp add: commit_changes_def Let_def vec_get_def vec_set_def last_conv_nth butlast_conv_take take_update_swap)
qed

text \<open>
  C38: \<open>commit_changes\<close> with a hole loses keys: in every session whose only free location lies before the
  last node of the vector, it moves the last node into the hole without telling its parent. Some key that
  has a value before the commit is afterwards looked up past the end of the vector.
\<close>

theorem commit_loses_key:
  assumes "session H s m mc" and "free_locations s = {h}" and "Suc h < length (nodes s)"
  shows "\<exists>s' k v. v \<noteq> [] \<and> state_get s k = Some v \<and> commit_changes s = Some s' \<and> state_get s' k = None"
proof -
  from session_represents [OF assms(1)] obtain p where ok: "state_ok H s p m" by (auto simp: represents_def)
  then have t: "trie (nd s) (live s) p" and c: "contents (nd s) (live s) p m"
    and cp: "compact (nd s) (live s)" by (auto simp: state_ok_def)
  let ?l = "length (nodes s) - 1"
  have l: "?l \<in> live s" "?l \<noteq> 0" using assms(2,3) by (auto simp: live_def)
  note s' = commit_one_hole [OF assms(2,3)]
  have same: "vec_get ((butlast (nodes s))[h := last (nodes s)]) i = Some (nd s i)" if "i \<in> live s" "i \<noteq> ?l" for i
  proof -
    have "i < length (nodes s)" "i \<noteq> h" using that assms(2) by (auto simp: live_def)
    then show ?thesis using that(2) by (simp add: vec_get_def nd_def nth_butlast)
  qed
  from compact_value_below [OF t cp l] obtain j where "j \<in> live s" "prefix (p ?l) (p j)" "n_value (nd s j) \<noteq> []"
    by blast
  then have k: "prefix (p ?l) (p j)" "m (p j) \<noteq> []" using contents_at [OF c] by auto
  define r where "r = s\<lparr>nodes := (butlast (nodes s))[h := last (nodes s)], backup := [],
    free_locations := {}, permanent_nodes_count := length (nodes s) - 1\<rparr>"
  have n: "nodes r = (butlast (nodes s))[h := last (nodes s)]" by (simp add: r_def)
  have "length (nodes r) \<le> ?l" unfolding n by simp
  moreover have "vec_get (nodes r) i = Some (nd s i)" if "i \<in> live s" "i \<noteq> ?l" for i
    unfolding n by (rule same [OF that])
  ultimately have "state_get r (p j) = None" by (rule lookup_lost [OF t l(1) _ l(2) _ k(1)])
  with s' [folded r_def] k(2) session_reads [OF assms(1), of "p j"] show ?thesis by blast
qed

text \<open>Three keys, the first of them erased again.\<close>

definition with_hole :: "hash_function \<Rightarrow> state_impl throws option" where
  "with_hole H = do {
     r \<leftarrow> set_all (state_set H) [(''a'', ''1''), (''b'', ''2''), (''c'', ''3'')] initial_state;
     (case r of Inl e \<Rightarrow> Some (Inl e) | Inr s \<Rightarrow> erase H s ''a'') }"

theorem commit_loses_key_witness:
  "\<exists>s s' k v. with_hole (\<lambda>_. ''h'') = Some (return s) \<and> v \<noteq> [] \<and> state_get s k = Some v \<and>
     commit_changes s = Some s' \<and> state_get s' k = None"
proof -
  let ?H = "\<lambda>_. ''h''"
  have run: "map_option (map_sum id (\<lambda>s. (free_locations s, length (nodes s)))) (with_hole ?H) =
      Some (Inr ({1}, 4))" by code_simp
  obtain s1 where s1: "state_set ?H initial_state ''a'' ''1'' = Some (return s1)"
    "session ?H s1 ((\<lambda>_. [])(''a'' := ''1'')) (\<lambda>_. [])"
    using session_one [of "''1''" ?H "''a''"] by auto
  obtain s2 where s2: "state_set ?H s1 ''b'' ''2'' = Some (return s2)"
    using impl.set_rep [OF session_represents [OF s1(2)], of "''2''"] by blast
  note n2 = session.set [OF s1(2) _ s2]
  obtain s3 where s3: "state_set ?H s2 ''c'' ''3'' = Some (return s3)"
    using impl.set_rep [OF session_represents [OF n2], of "''3''"] by auto
  note n3 = session.set [OF n2 _ s3]
  have hole: "with_hole ?H = erase ?H s3 ''a''" using s1(1) s2 s3 by (simp add: with_hole_def)
  with run obtain s where s: "with_hole ?H = Some (return s)" "free_locations s = {1}" "length (nodes s) = 4"
    by (cases "with_hole ?H"; cases "the (with_hole ?H)") auto
  have "session ?H s (((\<lambda>_. [])(''a'' := ''1'', ''b'' := ''2'', ''c'' := ''3''))(''a'' := [])) (\<lambda>_. [])"
    by (rule session.erase [OF n3]) (use s(1) hole in simp_all)
  from commit_loses_key [OF this s(2)] s(1,3) show ?thesis by auto
qed

text \<open>\<open>discard_changes\<close> keeps its backup, so that a second one writes past the end of the vector.\<close>

theorem discard_twice_undefined:
  "(case state_set H initial_state ''a'' ''1'' of
      Some (Inr s) \<Rightarrow> map_option discard_changes (discard_changes s) | _ \<Rightarrow> None) = Some None"
  by code_simp

text \<open>\<open>erase\<close> of the empty key in a trie with no other key reports success, keeps the value and puts
  the root among the free locations.\<close>

theorem erase_root_keeps_value:
  "(case state_set H initial_state [] ''1'' of
      Some (Inr s) \<Rightarrow> (case erase H s [] of
        Some (Inr s') \<Rightarrow> Some (state_get s' [], free_locations s') | _ \<Rightarrow> None)
    | _ \<Rightarrow> None) = Some (Some ''1'', {0})"
  by code_simp

text \<open>\<open>delete_node_tree\<close> of the empty key reports success, keeps the values and puts every node, the root
  among them, into the free locations.\<close>

theorem delete_root_keeps_values:
  "(case set_all (state_set H) [([], ''1''), (''a'', ''2'')] initial_state of
      Some (Inr s) \<Rightarrow> (case delete_node_tree H s [] of
        Some (Inr s') \<Rightarrow> Some (state_get s' [], state_get s' ''a'', free_locations s') | _ \<Rightarrow> None)
    | _ \<Rightarrow> None) = Some (Some ''1'', Some ''2'', {0, 1})"
  by code_simp

text \<open>the bytes hashed for a node do not tell where its value ends and its label begins, so that two
  states with different contents have the same root hash, whatever the hash function.\<close>

theorem root_hash_ambiguous:
  "\<exists>s1 s2. state_set H initial_state ''bc'' ''a'' = Some (return s1) \<and>
     state_set H initial_state ''c'' ''ab'' = Some (return s2) \<and>
     get_node_hash s1 [] = get_node_hash s2 [] \<and> get_node_hash s1 [] = Some (H (H ''abc'')) \<and>
     state_get s1 ''c'' \<noteq> state_get s2 ''c''"
proof -
  have 1: "map_option (map_sum id (\<lambda>s. (get_node_hash s [], state_get s ''c'')))
      (state_set H initial_state ''bc'' ''a'') = Some (Inr (Some (H (H ''abc'')), Some []))" by (code_simp; simp)
  have 2: "map_option (map_sum id (\<lambda>s. (get_node_hash s [], state_get s ''c'')))
      (state_set H initial_state ''c'' ''ab'') = Some (Inr (Some (H (H ''abc'')), Some ''ab''))" by (code_simp; simp)
  have lift: "\<exists>s. r = Some (return s) \<and> g s = x" if "map_option (map_sum id g) r = Some (Inr x)"
    for r :: "state_impl throws option" and g and x :: "string option \<times> string option"
    using that by (cases r; cases "the r") auto
  from lift [OF 1] lift [OF 2] show ?thesis by auto
qed

end
