(* ===== verification/Bytes.thy ===== *)
theory Bytes
  imports Prelude
begin

text \<open>
  Integers as bytes, in both orders, and byte-addressed memory: what the sources do with
  \<^verbatim>\<open>reinterpret_cast\<close>, shifts and \<^verbatim>\<open>memcpy\<close>. Memory is a function from addresses to bytes; whether an
  access is inside a buffer is checked by its user.
\<close>

section \<open>Integers\<close>

text \<open>The \<open>k\<close> lowest bytes of a number, least significant first.\<close>

fun le_bytes :: "nat \<Rightarrow> nat \<Rightarrow> string" where
  "le_bytes 0 v = []"
| "le_bytes (Suc k) v = char_of (v mod 256) # le_bytes k (v div 256)"

fun le_value :: "string \<Rightarrow> nat" where
  "le_value [] = 0"
| "le_value (c # cs) = of_char c + 256 * le_value cs"

definition be_bytes :: "nat \<Rightarrow> nat \<Rightarrow> string" where
  "be_bytes k v = rev (le_bytes k v)"

definition be_value :: "string \<Rightarrow> nat" where
  "be_value s = le_value (rev s)"

lemma length_le_bytes [simp]: "length (le_bytes k v) = k"
  by (induction k arbitrary: v) auto

lemma length_be_bytes [simp]: "length (be_bytes k v) = k"
  by (simp add: be_bytes_def)

lemma le_value_bytes: "le_value (le_bytes k v) = v mod 256 ^ k"
proof (induction k arbitrary: v)
  case (Suc k)
  have "v mod 256 ^ Suc k = v mod 256 + 256 * (v div 256 mod 256 ^ k)"
    by (simp add: mod_mult2_eq)
  then show ?case by (simp add: Suc)
qed simp

lemma be_value_bytes: "be_value (be_bytes k v) = v mod 256 ^ k"
  by (simp add: be_value_def be_bytes_def le_value_bytes)

lemma le_bytes_inject: "le_bytes k u = le_bytes k v \<Longrightarrow> u < 256 ^ k \<Longrightarrow> v < 256 ^ k \<Longrightarrow> u = v"
  using le_value_bytes by (metis mod_less)

lemma be_bytes_inject: "be_bytes k u = be_bytes k v \<Longrightarrow> u < 256 ^ k \<Longrightarrow> v < 256 ^ k \<Longrightarrow> u = v"
  by (metis be_bytes_def le_bytes_inject rev_rev_ident)

lemma digit_less: "a < 256 \<Longrightarrow> x < y \<Longrightarrow> a + 256 * x < 256 * (y::nat)"
  by linarith

lemma le_value_less: "le_value s < 256 ^ length s"
proof (induction s)
  case (Cons c s)
  define y :: nat where "y = 256 ^ length s"
  have "of_char c < (256::nat)" by simp
  moreover have "le_value s < y" using Cons by (simp only: y_def)
  ultimately have "of_char c + 256 * le_value s < 256 * y" by (rule digit_less)
  then show ?case by (simp add: y_def)
qed simp

lemma le_bytes_value: "le_bytes (length s) (le_value s) = s"
proof (induction s)
  case (Cons c s)
  have "of_char c < (256::nat)" by simp
  then have "(of_char c + 256 * le_value s) mod 256 = of_char c" "(of_char c + 256 * le_value s) div 256 = le_value s"
    by simp_all
  then show ?case using Cons by simp
qed simp

section \<open>Memory\<close>

type_synonym memory = "nat \<Rightarrow> char"

definition mem_read :: "memory \<Rightarrow> nat \<Rightarrow> nat \<Rightarrow> string" where
  "mem_read mem a n = map mem [a..<a + n]"

definition mem_write :: "memory \<Rightarrow> nat \<Rightarrow> string \<Rightarrow> memory" where
  "mem_write mem a bs = (\<lambda>i. if a \<le> i \<and> i < a + length bs then bs ! (i - a) else mem i)"

lemma length_mem_read [simp]: "length (mem_read mem a n) = n"
  by (simp add: mem_read_def)

lemma mem_read_write [simp]: "mem_read (mem_write mem a bs) a (length bs) = bs"
  by (rule nth_equalityI) (simp_all add: mem_read_def mem_write_def)

lemma mem_read_write_same: "n = length bs \<Longrightarrow> mem_read (mem_write mem a bs) a n = bs"
  by simp

lemma mem_read_write_other:
  "a + n \<le> b \<or> b + length bs \<le> a \<Longrightarrow> mem_read (mem_write mem b bs) a n = mem_read mem a n"
  by (rule nth_equalityI) (auto simp: mem_read_def mem_write_def)

text \<open>A 32 bit word of a memory addressed in words.\<close>

definition read32 :: "memory \<Rightarrow> nat \<Rightarrow> nat" where
  "read32 mem i = le_value (mem_read mem (4 * i) 4)"

definition write32 :: "memory \<Rightarrow> nat \<Rightarrow> nat \<Rightarrow> memory" where
  "write32 mem i v = mem_write mem (4 * i) (le_bytes 4 v)"

lemma read32_write32: "v < 2 ^ 32 \<Longrightarrow> read32 (write32 mem i v) i = v"
  by (simp add: read32_def write32_def mem_read_write_same le_value_bytes)

lemma read32_write32_other: "i \<noteq> j \<Longrightarrow> read32 (write32 mem j v) i = read32 mem i"
  unfolding read32_def write32_def by (subst mem_read_write_other) auto

end
