(* ===== verification/Blobstore.thy ===== *)
theory Blobstore
  imports Bytes
begin

text \<open>
  The append-only stores of \<^verbatim>\<open>core/storage/blobstore.cc\<close> and \<^verbatim>\<open>persistent_blobstore.cc\<close>: a blob is one
  32 bit word with its size in bytes followed by the bytes, padded to whole words; its id is the index
  of that word. Memory is addressed in bytes, the capacity and the ids count words. A result \<open>None\<close> is an
  access outside the allocated memory. The contract that users of a blob store rely on is a locale, of
  which both stores are instances.
\<close>

section \<open>blobstore\<close>

record blobstore =
  b_storage :: memory
  b_next_free :: nat
  b_capacity :: nat

text \<open>Memory from \<^verbatim>\<open>new uint32_t[1ULL << 28]\<close> holds arbitrary bytes, here \<open>junk\<close>.\<close>

definition blobstore_new :: "memory \<Rightarrow> blobstore" where
  "blobstore_new junk = \<lparr>b_storage = junk, b_next_free = 0, b_capacity = 2 ^ 28\<rparr>"

definition size_in_int32 :: "nat \<Rightarrow> nat" where
  "size_in_int32 n = (if n mod 4 \<noteq> 0 then n div 4 + 1 else n div 4)"

text \<open>The result holds the id and the address of the first byte of the blob.\<close>

definition create_blob :: "blobstore \<Rightarrow> nat \<Rightarrow> (blobstore \<times> nat \<times> nat) option" where
  "create_blob b n =
     (let i = b_next_free b;
          capacity = (if i + size_in_int32 n \<ge> b_capacity b then b_capacity b * 2 else b_capacity b)
      in if i < capacity
         then Some (b\<lparr>b_capacity := capacity, b_storage := write32 (b_storage b) i n,
                b_next_free := i + size_in_int32 n + 1\<rparr>, i, 4 * (i + 1))
         else None)"

definition blob_store :: "blobstore \<Rightarrow> string \<Rightarrow> (blobstore \<times> nat) option" where
  "blob_store b d = do {
     (b, i, p) \<leftarrow> create_blob b (length d);
     if p + length d \<le> 4 * b_capacity b
     then Some (b\<lparr>b_storage := mem_write (b_storage b) p d\<rparr>, i) else None }"

text \<open>The inner \<open>None\<close> is a null pointer; otherwise the size and the address of the first byte.\<close>

definition blob_get_ptr :: "blobstore \<Rightarrow> nat \<Rightarrow> (nat \<times> nat) option" where
  "blob_get_ptr b i =
     (if i + 1 \<ge> b_capacity b then None else Some (read32 (b_storage b) i, 4 * (i + 1)))"

definition blob_free :: "blobstore \<Rightarrow> nat \<Rightarrow> (blobstore \<times> bool) option" where
  "blob_free b i = (if i < b_capacity b
     then Some (b\<lparr>b_storage := write32 (b_storage b) i 0\<rparr>, True) else None)"

text \<open>What a user makes of \<open>get\<close>: \<^verbatim>\<open>std::string(pointer, size)\<close>.\<close>

definition blob_fetch :: "blobstore \<Rightarrow> nat \<Rightarrow> string option" where
  "blob_fetch b i = do {
     (n, p) \<leftarrow> blob_get_ptr b i;
     if p + n \<le> 4 * b_capacity b then Some (mem_read (b_storage b) p n) else None }"

section \<open>persistent_blobstore\<close>

text \<open>
  A file is its bytes and their number; \<open>map_file\<close> gets the file that exists at the path, if there is
  one. The mapped memory is the file: \<open>pblob_file\<close> is what a later process finds.
\<close>

type_synonym disk_file = "memory \<times> nat"

record pblobstore =
  pb_storage :: memory
  pb_is_mapped :: bool
  pb_header_version :: nat
  pb_next_free :: nat
  pb_capacity :: nat

definition cur_version :: nat where "cur_version = 10000"

definition pblobstore_new :: "memory \<Rightarrow> pblobstore" where
  "pblobstore_new junk = \<lparr>pb_storage = junk, pb_is_mapped = False, pb_header_version = 0,
     pb_next_free = 1024 div 4, pb_capacity = 1024\<rparr>"

definition pblob_map_file :: "pblobstore \<Rightarrow> disk_file option \<Rightarrow> pblobstore \<times> bool" where
  "pblob_map_file b f =
     (if pb_is_mapped b then (b, False)
      else case f of
        Some (mem, n) \<Rightarrow> (b\<lparr>pb_storage := mem, pb_capacity := n div 4, pb_is_mapped := True,
          pb_header_version := le_value (mem_read mem 0 8)\<rparr>, True)
      | None \<Rightarrow> (b\<lparr>pb_storage := mem_write (\<lambda>_. char_of (0::nat)) 0 (le_bytes 8 cur_version),
          pb_capacity := 2 ^ 10 div 4, pb_is_mapped := True, pb_header_version := cur_version\<rparr>, True))"

definition pblob_file :: "pblobstore \<Rightarrow> disk_file" where
  "pblob_file b = (pb_storage b, 4 * pb_capacity b)"

text \<open>Resizing the file fills it with zeros.\<close>

definition pblob_grow :: "pblobstore \<Rightarrow> pblobstore" where
  "pblob_grow b = b\<lparr>pb_capacity := pb_capacity b * 2,
     pb_storage := (\<lambda>a. if a < 4 * pb_capacity b then pb_storage b a else char_of (0::nat))\<rparr>"

definition pblob_create :: "pblobstore \<Rightarrow> nat \<Rightarrow> (pblobstore \<times> nat \<times> nat) throws option" where
  "pblob_create b n =
     (if \<not> pb_is_mapped b then Some (throw (Logic_error ''not mapped''))
      else let i = pb_next_free b;
               b = (if i + size_in_int32 n \<ge> pb_capacity b then pblob_grow b else b)
           in if i < pb_capacity b
              then Some (return (b\<lparr>pb_storage := write32 (pb_storage b) i n,
                     pb_next_free := i + size_in_int32 n + 1\<rparr>, i, 4 * (i + 1)))
              else None)"

definition pblob_store :: "pblobstore \<Rightarrow> string \<Rightarrow> (pblobstore \<times> nat) throws option" where
  "pblob_store b d = do {
     r \<leftarrow> pblob_create b (length d);
     (case r of Inl e \<Rightarrow> Some (throw e)
      | Inr (b, i, p) \<Rightarrow>
          if p + length d \<le> 4 * pb_capacity b
          then Some (return (b\<lparr>pb_storage := mem_write (pb_storage b) p d\<rparr>, i)) else None) }"

text \<open>The size, and the address unless the size is 0.\<close>

definition pblob_get :: "pblobstore \<Rightarrow> nat \<Rightarrow> (nat \<times> nat option) throws" where
  "pblob_get b i =
     (if \<not> pb_is_mapped b then throw (Logic_error ''not mapped'')
      else if i + 1 \<ge> pb_capacity b then throw (Out_of_range ''Object out of range'')
      else let n = read32 (pb_storage b) i
           in return (n, if n = 0 then None else Some (4 * (i + 1))))"

text \<open>\<^verbatim>\<open>storage[id] * (-1)\<close> on an unsigned word.\<close>

definition pblob_free :: "pblobstore \<Rightarrow> nat \<Rightarrow> (pblobstore \<times> bool) throws" where
  "pblob_free b i =
     (if \<not> pb_is_mapped b then throw (Logic_error ''not mapped'')
      else if i + 1 \<ge> pb_capacity b then throw (Out_of_range ''Object out of range'')
      else return (b\<lparr>pb_storage := write32 (pb_storage b) i ((2 ^ 32 - read32 (pb_storage b) i) mod 2 ^ 32)\<rparr>, True))"

definition pblob_fetch :: "pblobstore \<Rightarrow> nat \<Rightarrow> string throws option" where
  "pblob_fetch b i =
     (case pblob_get b i of Inl e \<Rightarrow> Some (throw e)
      | Inr (n, None) \<Rightarrow> Some (return [])
      | Inr (n, Some p) \<Rightarrow> if p + n \<le> 4 * pb_capacity b then Some (return (mem_read (pb_storage b) p n)) else None)"

section \<open>Layout\<close>

text \<open>From word \<open>start\<close> to word \<open>stop\<close> memory holds exactly the given blobs, one after the other.\<close>

fun layout :: "memory \<Rightarrow> nat \<Rightarrow> (nat \<times> string) list \<Rightarrow> nat \<Rightarrow> bool" where
  "layout mem start [] stop \<longleftrightarrow> start = stop"
| "layout mem start ((i, d) # bs) stop \<longleftrightarrow>
     i = start \<and> read32 mem i = length d \<and> mem_read mem (4 * (i + 1)) (length d) = d \<and>
     layout mem (i + size_in_int32 (length d) + 1) bs stop"

lemma size_in_int32_bytes: "n \<le> 4 * size_in_int32 n"
  by (simp add: size_in_int32_def) presburger

lemma blob_bytes_fit:
  assumes "i + size_in_int32 n + 1 \<le> c"
  shows "4 * (i + 1) + n \<le> 4 * c"
  using assms size_in_int32_bytes [of n] by simp

lemma size_in_int32_le: "n \<le> 4 * k \<Longrightarrow> size_in_int32 n \<le> k"
  unfolding size_in_int32_def by presburger

lemma layout_le: "layout mem start bs stop \<Longrightarrow> start \<le> stop"
  by (induction bs arbitrary: start) fastforce+

lemma layout_append:
  "layout mem start (bs @ cs) stop \<longleftrightarrow> (\<exists>mid. layout mem start bs mid \<and> layout mem mid cs stop)"
  by (induction mem start bs stop rule: layout.induct) auto

lemma layout_cong:
  assumes "\<And>a. a < 4 * stop \<Longrightarrow> mem' a = mem a"
  shows "layout mem start bs stop \<Longrightarrow> layout mem' start bs stop"
proof (induction bs arbitrary: start)
  case (Cons x bs)
  obtain i d where x: "x = (i, d)" by (cases x)
  with Cons.prems have l: "layout mem (i + size_in_int32 (length d) + 1) bs stop" by auto
  have "i + size_in_int32 (length d) + 1 \<le> stop" by (rule layout_le [OF l])
  then have "4 * (i + 1) + length d \<le> 4 * stop" using size_in_int32_bytes [of "length d"] by simp
  then have "mem_read mem' (4 * (i + 1)) (length d) = mem_read mem (4 * (i + 1)) (length d)"
    "mem_read mem' (4 * i) 4 = mem_read mem (4 * i) 4"
    by (auto simp: mem_read_def intro!: assms)
  then show ?case using Cons.IH [OF l] Cons.prems x by (auto simp: read32_def)
qed simp

lemma layout_member:
  assumes "layout mem start bs stop" and "(i, d) \<in> set bs"
  shows "start \<le> i \<and> i + size_in_int32 (length d) + 1 \<le> stop \<and> read32 mem i = length d \<and>
    mem_read mem (4 * (i + 1)) (length d) = d"
  using assms
proof (induction bs arbitrary: start)
  case (Cons x bs)
  obtain j e where x: "x = (j, e)" by (cases x)
  with Cons.prems have l: "layout mem (j + size_in_int32 (length e) + 1) bs stop" by auto
  show ?case
  proof (cases "(i, d) = (j, e)")
    case True
    then show ?thesis using Cons.prems x layout_le [OF l] by auto
  next
    case False
    then have "(i, d) \<in> set bs" using Cons.prems(2) x by auto
    from Cons.IH [OF l this] show ?thesis using Cons.prems(1) x by auto
  qed
qed simp

text \<open>Appending a blob behind a layout.\<close>

lemma layout_store:
  assumes l: "layout mem start bs i" and d: "length d < 2 ^ 32"
  shows "layout (mem_write (write32 mem i (length d)) (4 * (i + 1)) d) start (bs @ [(i, d)])
    (i + size_in_int32 (length d) + 1)"
proof -
  let ?m1 = "write32 mem i (length d)"
  let ?m2 = "mem_write ?m1 (4 * (i + 1)) d"
  have same: "?m2 a = mem a" if "a < 4 * i" for a
    using that by (simp add: mem_write_def write32_def)
  have "layout ?m2 start bs i" by (rule layout_cong [OF _ l]) (rule same)
  moreover have "read32 ?m2 i = length d"
    unfolding read32_def
    by (subst mem_read_write_other) (use read32_write32 [OF d, of mem i] in \<open>simp_all add: read32_def\<close>)
  ultimately show ?thesis
    unfolding layout_append by (intro exI [of _ i]) (simp add: mem_read_write_same)
qed

section \<open>The contract\<close>

text \<open>
  \<open>holds b bs\<close>: the store \<open>b\<close> has the blobs \<open>bs\<close>, oldest first. A store that has \<open>room\<close> takes a blob under
  a new id and keeps the others; a fetch by id gives the bytes back.
\<close>

locale blob_contract =
  fixes holds :: "'b \<Rightarrow> (nat \<times> string) list \<Rightarrow> bool"
    and room :: "'b \<Rightarrow> nat \<Rightarrow> bool"
    and store :: "'b \<Rightarrow> string \<Rightarrow> ('b \<times> nat) throws option"
    and fetch :: "'b \<Rightarrow> nat \<Rightarrow> string throws option"
  assumes store_holds: "holds b bs \<Longrightarrow> room b (length d) \<Longrightarrow>
      \<exists>b' i. store b d = Some (return (b', i)) \<and> i \<notin> fst ` set bs \<and> holds b' (bs @ [(i, d)])"
    and fetch_holds: "holds b bs \<Longrightarrow> (i, d) \<in> set bs \<Longrightarrow> fetch b i = Some (return d)"
begin

lemma store_fetch:
  assumes "holds b bs" and "room b (length d)"
  shows "\<exists>b' i. store b d = Some (return (b', i)) \<and> holds b' (bs @ [(i, d)]) \<and> fetch b' i = Some (return d) \<and>
    (\<forall>(j, e) \<in> set bs. j \<noteq> i \<and> fetch b' j = Some (return e))"
proof -
  from store_holds [OF assms] obtain b' i where
    s: "store b d = Some (return (b', i))" "i \<notin> fst ` set bs" "holds b' (bs @ [(i, d)])" by blast
  then have "j \<noteq> i \<and> fetch b' j = Some (return e)" if "(j, e) \<in> set bs" for j e
    using that fetch_holds [OF s(3), of j e] by force
  with s fetch_holds [OF s(3), of i d] show ?thesis by auto
qed

end

section \<open>Both stores keep it\<close>

definition blob_holds :: "blobstore \<Rightarrow> (nat \<times> string) list \<Rightarrow> bool" where
  "blob_holds b bs \<longleftrightarrow> layout (b_storage b) 0 bs (b_next_free b) \<and> b_next_free b \<le> b_capacity b \<and>
     0 < b_capacity b \<and> (\<forall>(i, d) \<in> set bs. i + 1 < b_capacity b)"

text \<open>The capacity after at most one doubling has space for the blob, and for a pointer behind its size.\<close>

definition fits :: "nat \<Rightarrow> nat \<Rightarrow> nat \<Rightarrow> bool" where
  "fits next_free capacity n \<longleftrightarrow> n < 2 ^ 32 \<and>
     (let c = (if capacity \<le> next_free + size_in_int32 n then capacity * 2 else capacity)
      in next_free + size_in_int32 n + 1 \<le> c \<and> next_free + 1 < c)"

lemma layout_ids_less: "layout mem start bs stop \<Longrightarrow> i \<in> fst ` set bs \<Longrightarrow> i < stop"
  using layout_member by fastforce

lemma blob_store_holds:
  assumes h: "blob_holds b bs" and f: "fits (b_next_free b) (b_capacity b) (length d)"
  shows "\<exists>b'. blob_store b d = Some (b', b_next_free b) \<and> blob_holds b' (bs @ [(b_next_free b, d)])"
proof -
  let ?i = "b_next_free b"
  define c where "c = (if b_capacity b \<le> ?i + size_in_int32 (length d) then b_capacity b * 2 else b_capacity b)"
  let ?mem = "mem_write (write32 (b_storage b) ?i (length d)) (4 * (?i + 1)) d"
  let ?b' = "b\<lparr>b_capacity := c, b_storage := ?mem, b_next_free := ?i + size_in_int32 (length d) + 1\<rparr>"
  have c: "?i + size_in_int32 (length d) + 1 \<le> c" "?i + 1 < c" "length d < 2 ^ 32"
    using f by (simp_all add: fits_def Let_def c_def)
  have "4 * (?i + 1) + length d \<le> 4 * c" by (rule blob_bytes_fit [OF c(1)])
  then have run: "blob_store b d = Some (?b', ?i)"
    using c by (simp add: blob_store_def create_blob_def Let_def c_def [symmetric] del: mult_Suc_right)
  have l: "layout (b_storage b) 0 bs ?i" using h by (simp add: blob_holds_def)
  have "b_capacity b \<le> c" by (simp add: c_def)
  then have "j + 1 < c" if "(j, e) \<in> set bs" for j e
    using h that by (fastforce simp: blob_holds_def)
  then have "blob_holds ?b' (bs @ [(?i, d)])"
    using layout_store [OF l c(3)] c h by (auto simp: blob_holds_def)
  with run show ?thesis by blast
qed

interpretation mem: blob_contract blob_holds "\<lambda>b. fits (b_next_free b) (b_capacity b)"
  "\<lambda>b d. map_option return (blob_store b d)" "\<lambda>b i. map_option return (blob_fetch b i)"
proof unfold_locales
  fix b bs and d :: string
  assume h: "blob_holds b bs" and "fits (b_next_free b) (b_capacity b) (length d)"
  from blob_store_holds [OF this] layout_ids_less [of "b_storage b" 0 bs "b_next_free b" "b_next_free b"] h
  show "\<exists>b' i. map_option return (blob_store b d) = Some (return (b', i)) \<and> i \<notin> fst ` set bs \<and>
      blob_holds b' (bs @ [(i, d)])"
    by (fastforce simp: blob_holds_def)
next
  fix b bs i and d :: string
  assume h: "blob_holds b bs" and m: "(i, d) \<in> set bs"
  note lm = layout_member [of "b_storage b" 0 bs "b_next_free b" i d]
  have "4 * (i + 1) + length d \<le> 4 * b_capacity b"
    using lm h m by (intro blob_bytes_fit) (auto simp: blob_holds_def)
  then show "map_option return (blob_fetch b i) = Some (return d)"
    using lm h m by (fastforce simp: blob_holds_def blob_fetch_def blob_get_ptr_def)
qed

definition pblob_holds :: "pblobstore \<Rightarrow> (nat \<times> string) list \<Rightarrow> bool" where
  "pblob_holds b bs \<longleftrightarrow> pb_is_mapped b \<and> layout (pb_storage b) 256 bs (pb_next_free b) \<and>
     pb_next_free b \<le> pb_capacity b \<and> (\<forall>(i, d) \<in> set bs. i + 1 < pb_capacity b)"

lemma pblob_store_holds:
  assumes h: "pblob_holds b bs" and f: "fits (pb_next_free b) (pb_capacity b) (length d)"
  shows "\<exists>b'. pblob_store b d = Some (return (b', pb_next_free b)) \<and>
    pblob_holds b' (bs @ [(pb_next_free b, d)])"
proof -
  let ?i = "pb_next_free b"
  define b1 where "b1 = (if pb_capacity b \<le> ?i + size_in_int32 (length d) then pblob_grow b else b)"
  let ?mem = "mem_write (write32 (pb_storage b1) ?i (length d)) (4 * (?i + 1)) d"
  let ?b' = "b1\<lparr>pb_storage := ?mem, pb_next_free := ?i + size_in_int32 (length d) + 1\<rparr>"
  have c: "?i + size_in_int32 (length d) + 1 \<le> pb_capacity b1" "?i + 1 < pb_capacity b1" "length d < 2 ^ 32"
    using f by (simp_all add: fits_def Let_def b1_def pblob_grow_def split: if_splits)
  have "4 * (?i + 1) + length d \<le> 4 * pb_capacity b1"
    by (rule blob_bytes_fit [OF c(1)])
  moreover have mp: "pb_is_mapped b" "pb_is_mapped b1" "?i \<le> pb_capacity b"
    using h by (auto simp: pblob_holds_def b1_def pblob_grow_def)
  ultimately have run: "pblob_store b d = Some (return (?b', ?i))"
    using c by (simp add: pblob_store_def pblob_create_def Let_def b1_def [symmetric] del: mult_Suc_right)
  have "layout (pb_storage b1) 256 bs ?i"
    by (rule layout_cong [of _ _ "pb_storage b"])
      (use h mp in \<open>auto simp: pblob_holds_def b1_def pblob_grow_def\<close>)
  from layout_store [OF this c(3)]
  have l: "layout ?mem 256 (bs @ [(?i, d)]) (?i + size_in_int32 (length d) + 1)" .
  have "pb_capacity b \<le> pb_capacity b1" by (simp add: b1_def pblob_grow_def)
  then have "j + 1 < pb_capacity b1" if "(j, e) \<in> set bs" for j e
    using h that by (fastforce simp: pblob_holds_def)
  then have "pblob_holds ?b' (bs @ [(?i, d)])"
    using l c mp by (auto simp: pblob_holds_def)
  with run show ?thesis by blast
qed

interpretation disk: blob_contract pblob_holds "\<lambda>b. fits (pb_next_free b) (pb_capacity b)"
  pblob_store pblob_fetch
proof unfold_locales
  fix b bs and d :: string
  assume h: "pblob_holds b bs" and "fits (pb_next_free b) (pb_capacity b) (length d)"
  from pblob_store_holds [OF this] layout_ids_less [of "pb_storage b" 256 bs "pb_next_free b" "pb_next_free b"] h
  show "\<exists>b' i. pblob_store b d = Some (return (b', i)) \<and> i \<notin> fst ` set bs \<and> pblob_holds b' (bs @ [(i, d)])"
    by (fastforce simp: pblob_holds_def)
next
  fix b bs i and d :: string
  assume h: "pblob_holds b bs" and m: "(i, d) \<in> set bs"
  then have l: "layout (pb_storage b) 256 bs (pb_next_free b)" "i + 1 < pb_capacity b" "pb_is_mapped b"
    "pb_next_free b \<le> pb_capacity b"
    by (auto simp: pblob_holds_def)
  note lm = layout_member [OF l(1) m]
  have "4 * (i + 1) + length d \<le> 4 * pb_capacity b"
    using lm l(4) by (intro blob_bytes_fit) simp
  then show "pblob_fetch b i = Some (return d)"
    using lm l by (cases "d = []") (simp_all add: pblob_fetch_def pblob_get_def Let_def del: mult_Suc_right)
qed

section \<open>Properties\<close>

lemma blobstore_new_holds: "blob_holds (blobstore_new junk) []"
  by (simp add: blob_holds_def blobstore_new_def)

definition pblob_create_file :: "memory \<Rightarrow> pblobstore" where
  "pblob_create_file junk = fst (pblob_map_file (pblobstore_new junk) None)"

lemma pblob_create_file_fields [simp]:
  "pb_is_mapped (pblob_create_file junk)" "pb_next_free (pblob_create_file junk) = 256"
  "pb_capacity (pblob_create_file junk) = 256"
  by (simp_all add: pblob_create_file_def pblob_map_file_def pblobstore_new_def)

lemma pblob_create_file_holds: "pblob_holds (pblob_create_file junk) []"
  by (simp add: pblob_holds_def)

text \<open>what \<open>blobstore::store\<close> has taken, \<open>get\<close> gives back under the returned id, and the blobs stored
  before are still there under theirs, also when the store grows.\<close>

theorem blob_store_fetch:
  assumes "blob_holds b bs" and "fits (b_next_free b) (b_capacity b) (length d)"
  shows "\<exists>b' i. blob_store b d = Some (b', i) \<and> blob_holds b' (bs @ [(i, d)]) \<and> blob_fetch b' i = Some d \<and>
    (\<forall>(j, e) \<in> set bs. j \<noteq> i \<and> blob_fetch b' j = Some e)"
  using mem.store_fetch [OF assms] by auto

theorem blob_store_fetch_witness:
  "\<exists>b' i. blob_store (blobstore_new (\<lambda>_. CHR ''x'')) ''hello'' = Some (b', i) \<and> blob_fetch b' i = Some ''hello''"
  using blob_store_fetch [OF blobstore_new_holds, of "\<lambda>_. CHR ''x''" "''hello''"]
  by (auto simp: fits_def blobstore_new_def size_in_int32_def)



text \<open>a new \<open>persistent_blobstore\<close> doubles its capacity once, from 256 to 512 words, so that a first
  blob of more than 1020 bytes is written past the end of the mapped file.\<close>

theorem pblob_first_blob_too_large:
  assumes "1020 < length d"
  shows "pblob_store (pblob_create_file junk) d = None"
proof -
  let ?b = "pblob_create_file junk"
  let ?w = "size_in_int32 (length d)"
  define b1 where "b1 = (pblob_grow ?b)\<lparr>pb_storage := write32 (pb_storage (pblob_grow ?b)) 256 (length d),
    pb_next_free := 256 + ?w + 1\<rparr>"
  have "pb_capacity (pblob_grow ?b) = 512" by (simp add: pblob_grow_def)
  then have "pblob_create ?b (length d) = Some (return (b1, 256, 1028))" and "pb_capacity b1 = 512"
    by (simp_all add: pblob_create_def Let_def b1_def)
  then show ?thesis using assms by (simp add: pblob_store_def)
qed

theorem pblob_first_blob_too_large_witness:
  "pblob_store (pblob_create_file (\<lambda>_. CHR ''x'')) (replicate 2000 CHR ''a'') = None"
  by (rule pblob_first_blob_too_large) simp

text \<open>mapping an existing file does not restore \<^verbatim>\<open>next_free\<close>: the first blob stored by a later process
  gets the id of the first blob of the file and overwrites it.\<close>

theorem pblob_reopen_overwrites:
  assumes "length d \<le> 1000" and "length e \<le> 1000"
  shows "\<exists>b1 b2. pblob_store (pblob_create_file junk) d = Some (return (b1, 256)) \<and>
    pblob_store (fst (pblob_map_file (pblobstore_new junk') (Some (pblob_file b1)))) e = Some (return (b2, 256)) \<and>
    pblob_fetch b2 256 = Some (return e)"
proof -
  have w: "size_in_int32 (length d) \<le> 250" "size_in_int32 (length e) \<le> 250"
    using assms size_in_int32_le [of _ 250] by simp_all
  then have "fits 256 256 (length d)" using assms by (simp add: fits_def)
  then obtain b1 where b1: "pblob_store (pblob_create_file junk) d = Some (return (b1, 256))"
    "pblob_holds b1 ([] @ [(256, d)])"
    using pblob_store_holds [OF pblob_create_file_holds, of junk d] by auto
  have cap: "pb_capacity b1 = 512"
    using b1(1) by (auto simp: pblob_store_def pblob_create_def pblob_grow_def Let_def bind_eq_Some_conv
      split: if_splits sum.splits)
  let ?b = "fst (pblob_map_file (pblobstore_new junk') (Some (pblob_file b1)))"
  have f: "pb_is_mapped ?b" "pb_next_free ?b = 256" "pb_capacity ?b = 512"
    using cap by (simp_all add: pblob_map_file_def pblobstore_new_def pblob_file_def)
  then have "pblob_holds ?b []" by (simp add: pblob_holds_def)
  moreover have "fits (pb_next_free ?b) (pb_capacity ?b) (length e)"
    using w assms f by (simp add: fits_def)
  ultimately obtain b2 where "pblob_store ?b e = Some (return (b2, 256))" "pblob_holds b2 ([] @ [(256, e)])"
    using pblob_store_holds [of ?b "[]" e] f(2) by auto
  with b1 disk.fetch_holds [of b2 "[] @ [(256, e)]" 256 e] show ?thesis by auto
qed

theorem pblob_reopen_overwrites_witness:
  "\<exists>b1 b2. pblob_store (pblob_create_file (\<lambda>_. CHR ''x'')) ''first'' = Some (return (b1, 256)) \<and>
     pblob_store (fst (pblob_map_file (pblobstore_new (\<lambda>_. CHR ''x'')) (Some (pblob_file b1)))) ''second''
       = Some (return (b2, 256)) \<and>
     pblob_fetch b2 256 = Some (return ''second'')"
  by (rule pblob_reopen_overwrites) simp_all

text \<open>a blob that was freed in a \<open>persistent_blobstore\<close> is still handed out, with a size that is the
  negated one modulo \<open>2 ^ 32\<close>: \<open>get\<close> tests an unsigned size for being at most 0.\<close>

theorem pblob_free_still_found:
  assumes "pblob_holds b bs" and "(i, d) \<in> set bs" and "d \<noteq> []" and "length d < 2 ^ 32"
  shows "\<exists>b'. pblob_free b i = return (b', True) \<and>
    pblob_get b' i = return (2 ^ 32 - length d, Some (4 * (i + 1)))"
proof -
  have m: "pb_is_mapped b" "i + 1 < pb_capacity b" "layout (pb_storage b) 256 bs (pb_next_free b)"
    using assms(1,2) by (auto simp: pblob_holds_def)
  have n: "read32 (pb_storage b) i = length d" using layout_member [OF m(3) assms(2)] by simp
  have "(2 ^ 32 - length d) mod 2 ^ 32 = 2 ^ 32 - length d" using assms(3) by simp
  moreover have "read32 (write32 (pb_storage b) i (2 ^ 32 - length d)) i = 2 ^ 32 - length d"
    using assms(3) by (intro read32_write32) simp
  ultimately show ?thesis using m n assms(4) by (simp add: pblob_free_def pblob_get_def Let_def)
qed

theorem pblob_free_still_found_witness:
  "\<exists>b i b'. pblob_free b i = return (b', True) \<and> pblob_get b' i = return (2 ^ 32 - 5, Some (4 * (i + 1)))"
proof -
  obtain b i where "pblob_holds b ([] @ [(i, ''hello'')])"
    using pblob_store_holds [OF pblob_create_file_holds, of "\<lambda>_. CHR ''x''" "''hello''"]
    by (auto simp: fits_def size_in_int32_def)
  from pblob_free_still_found [OF this, of i "''hello''"] show ?thesis by auto
qed

end
