(* ===== verification/Persistent_Vector.thy ===== *)
theory Persistent_Vector
  imports Blobstore
begin

text \<open>
  Objects of one size in a memory mapped file: \<^verbatim>\<open>core/storage/persistent_storage.cc\<close> and the vector of
  \<^verbatim>\<open>persistent_vector.h\<close> on top of it. An object is its bytes. The header of the file has 1024 bytes, of
  which word 0 is the version and word 8 the number of elements. Shown: the file is a faithful image of
  a sequence of objects, also for the next process that maps it.
\<close>

section \<open>persistent_storage\<close>

record pstorage =
  ps_storage :: memory
  ps_is_mapped :: bool
  ps_header_version :: nat
  ps_object_size :: nat
  ps_capacity :: nat

definition header_size :: nat where "header_size = 1024"

definition ps_map_file :: "'a pstorage_scheme \<Rightarrow> disk_file option \<Rightarrow> nat \<Rightarrow> 'a pstorage_scheme \<times> bool" where
  "ps_map_file b f object_sz =
     (if ps_is_mapped b then (b, False)
      else let (mem, n) = (case f of Some (mem, n) \<Rightarrow> (mem, n)
             | None \<Rightarrow> (mem_write (\<lambda>_. char_of (0::nat)) 0 (le_bytes 8 cur_version), 2 ^ 20))
           in (b\<lparr>ps_object_size := object_sz, ps_storage := mem, ps_capacity := n,
                 ps_header_version := le_value (mem_read mem 0 8), ps_is_mapped := True\<rparr>, True))"

definition ps_file :: "'a pstorage_scheme \<Rightarrow> disk_file" where
  "ps_file b = (ps_storage b, ps_capacity b)"

text \<open>The loop that doubles the capacity; it would not end for a capacity of 0.\<close>

function grow :: "nat \<Rightarrow> nat \<Rightarrow> nat option" where
  "grow need capacity =
     (if need \<le> capacity then Some capacity
      else if capacity = 0 then None else grow need (capacity * 2))"
  by pat_completeness auto
termination
  by (relation "measure (\<lambda>(need, capacity). need - capacity)") auto

declare grow.simps [simp del]

definition ps_store :: "'a pstorage_scheme \<Rightarrow> nat \<Rightarrow> string \<Rightarrow> 'a pstorage_scheme throws option" where
  "ps_store b at d =
     (if \<not> ps_is_mapped b then Some (throw (Logic_error ''not mapped''))
      else let location = at * ps_object_size b + header_size in do {
        c \<leftarrow> grow (location + ps_object_size b) (ps_capacity b);
        let mem = (\<lambda>a. if a < ps_capacity b then ps_storage b a else char_of (0::nat));
        if ps_object_size b \<le> length d
        then Some (return (b\<lparr>ps_capacity := c, ps_storage := mem_write mem location (take (ps_object_size b) d)\<rparr>))
        else None })"

definition ps_get :: "'a pstorage_scheme \<Rightarrow> nat \<Rightarrow> nat throws" where
  "ps_get b at =
     (if \<not> ps_is_mapped b then throw (Logic_error ''not mapped'')
      else let location = at * ps_object_size b + header_size
           in if location \<ge> ps_capacity b then throw (Out_of_range ''index out of range'') else return location)"

definition ps_mapped :: "'a pstorage_scheme \<Rightarrow> bool" where
  "ps_mapped b = ps_is_mapped b"

section \<open>persistent_vector\<close>

record pvector = pstorage +
  pv_next_free :: nat

text \<open>Reading and assigning through the reference that \<^verbatim>\<open>operator[]\<close> returns.\<close>

definition pv_get :: "pvector \<Rightarrow> nat \<Rightarrow> string throws option" where
  "pv_get v n =
     (if \<not> ps_mapped v then Some (throw (Literal ''not mapped''))
      else case ps_get v n of Inl e \<Rightarrow> Some (throw e)
        | Inr location \<Rightarrow> if location + ps_object_size v \<le> ps_capacity v
            then Some (return (mem_read (ps_storage v) location (ps_object_size v))) else None)"

definition pv_set :: "pvector \<Rightarrow> nat \<Rightarrow> string \<Rightarrow> pvector throws option" where
  "pv_set v n d =
     (if \<not> ps_mapped v then Some (throw (Literal ''not mapped''))
      else case ps_get v n of Inl e \<Rightarrow> Some (throw e)
        | Inr location \<Rightarrow> if location + ps_object_size v \<le> ps_capacity v \<and> length d = ps_object_size v
            then Some (return (v\<lparr>ps_storage := mem_write (ps_storage v) location d\<rparr>)) else None)"

text \<open>Word 8 of the header.\<close>

definition header8 :: "'a pstorage_scheme \<Rightarrow> nat" where
  "header8 b = le_value (mem_read (ps_storage b) 64 8)"

definition set_header8 :: "nat \<Rightarrow> 'a pstorage_scheme \<Rightarrow> 'a pstorage_scheme" where
  "set_header8 n b = b\<lparr>ps_storage := mem_write (ps_storage b) 64 (le_bytes 8 n)\<rparr>"

definition pv_push_back :: "pvector \<Rightarrow> string \<Rightarrow> pvector throws option" where
  "pv_push_back v d =
     (if \<not> ps_mapped v then Some (throw (Literal ''not mapped''))
      else do {
        r \<leftarrow> ps_store v (pv_next_free v) d;
        (case r of Inl e \<Rightarrow> Some (throw e)
         | Inr v \<Rightarrow> let v = v\<lparr>pv_next_free := pv_next_free v + 1\<rparr>
             in Some (return (set_header8 (header8 v + 1) v))) })"

definition pv_map_file :: "pvector \<Rightarrow> disk_file option \<Rightarrow> nat \<Rightarrow> pvector \<times> bool" where
  "pv_map_file v f object_sz =
     (case ps_map_file v f object_sz of
        (v, True) \<Rightarrow> (v\<lparr>pv_next_free := header8 v\<rparr>, True)
      | (v, False) \<Rightarrow> (v, False))"

definition pv_size :: "pvector \<Rightarrow> nat" where
  "pv_size v = pv_next_free v"

definition pv_resize :: "pvector \<Rightarrow> nat \<Rightarrow> pvector" where
  "pv_resize v n = set_header8 n (v\<lparr>pv_next_free := n\<rparr>)"

definition pvector_new :: "memory \<Rightarrow> pvector" where
  "pvector_new junk = \<lparr>ps_storage = junk, ps_is_mapped = False, ps_header_version = 0, ps_object_size = 0,
     ps_capacity = 0, pv_next_free = 0\<rparr>"

section \<open>The vector as a sequence\<close>

definition pv_rep :: "pvector \<Rightarrow> string list \<Rightarrow> bool" where
  "pv_rep v xs \<longleftrightarrow> ps_is_mapped v \<and> 0 < ps_object_size v \<and> pv_next_free v = length xs \<and>
     length xs < 2 ^ 64 \<and> header8 v = length xs \<and>
     header_size + length xs * ps_object_size v \<le> ps_capacity v \<and>
     (\<forall>i<length xs. mem_read (ps_storage v) (i * ps_object_size v + header_size) (ps_object_size v) = xs ! i)"

lemma grow_spec: "0 < capacity \<Longrightarrow> \<exists>c. grow need capacity = Some c \<and> need \<le> c \<and> capacity \<le> c"
proof (induction need capacity rule: grow.induct)
  case (1 need capacity)
  show ?case
  proof (cases "need \<le> capacity")
    case True
    then show ?thesis by (subst grow.simps) simp
  next
    case False
    with 1 obtain c where "grow need (capacity * 2) = Some c" "need \<le> c" "capacity * 2 \<le> c" by auto
    then show ?thesis using False 1(2) by (subst grow.simps) simp
  qed
qed

text \<open>The object at \<open>i\<close> lies behind the header and before the object at any later \<open>k\<close>.\<close>

lemma object_bounds:
  assumes "i < k"
  shows "i * sz + header_size + sz \<le> k * sz + header_size"
proof -
  have "Suc i * sz \<le> k * sz" using assms by (intro mult_le_mono1) simp
  then show ?thesis by simp
qed

lemma mem_read_cut:
  "a + n \<le> c \<Longrightarrow> mem_read (\<lambda>i. if i < c then mem i else z) a n = mem_read mem a n"
  by (auto simp: mem_read_def)

lemma pv_get_rep: "pv_rep v xs \<Longrightarrow> i < length xs \<Longrightarrow> pv_get v i = Some (return (xs ! i))"
  using object_bounds [of i "length xs" "ps_object_size v"]
  by (auto simp: pv_rep_def pv_get_def ps_mapped_def ps_get_def Let_def)

lemma pv_set_rep:
  assumes r: "pv_rep v xs" and i: "i < length xs" and d: "length d = ps_object_size v"
  shows "\<exists>v'. pv_set v i d = Some (return v') \<and> pv_rep v' (xs[i := d]) \<and> ps_object_size v' = ps_object_size v"
proof -
  let ?sz = "ps_object_size v"
  let ?l = "i * ?sz + header_size"
  let ?v' = "v\<lparr>ps_storage := mem_write (ps_storage v) ?l d\<rparr>"
  have f: "ps_is_mapped v" "0 < ?sz" "header_size + length xs * ?sz \<le> ps_capacity v" using r by (auto simp: pv_rep_def)
  have b: "?l + ?sz \<le> ps_capacity v" using object_bounds [OF i, of ?sz] f(3) by linarith
  have run: "pv_set v i d = Some (return ?v')"
    using f b d by (simp add: pv_set_def ps_mapped_def ps_get_def Let_def)
  have h: "header8 ?v' = header8 v"
    unfolding header8_def using d by (simp add: mem_read_write_other header_size_def)
  have "mem_read (ps_storage ?v') (j * ?sz + header_size) ?sz = xs[i := d] ! j" if j: "j < length xs" for j
  proof (cases "j = i")
    case True
    then show ?thesis using d j by (simp add: mem_read_write_same)
  next
    case False
    then have "j * ?sz + header_size + ?sz \<le> ?l \<or> ?l + length d \<le> j * ?sz + header_size"
      using object_bounds [of i j ?sz] object_bounds [of j i ?sz] d by linarith
    then have "mem_read (ps_storage ?v') (j * ?sz + header_size) ?sz = mem_read (ps_storage v) (j * ?sz + header_size) ?sz"
      by (simp add: mem_read_write_other)
    then show ?thesis using r j False by (simp add: pv_rep_def)
  qed
  then have "pv_rep ?v' (xs[i := d])" using r h by (simp add: pv_rep_def)
  with run show ?thesis by auto
qed

lemma pv_push_back_rep:
  assumes r: "pv_rep v xs" and d: "length d = ps_object_size v" and n: "length xs + 1 < 2 ^ 64"
  shows "\<exists>v'. pv_push_back v d = Some (return v') \<and> pv_rep v' (xs @ [d]) \<and> ps_object_size v' = ps_object_size v"
proof -
  let ?sz = "ps_object_size v"
  let ?l = "length xs * ?sz + header_size"
  have f: "ps_is_mapped v" "0 < ?sz" "?l \<le> ps_capacity v" "pv_next_free v = length xs" "header8 v = length xs"
    using r by (auto simp: pv_rep_def)
  have "0 < ps_capacity v" using f(3) by (simp add: header_size_def)
  from grow_spec [OF this, of "?l + ?sz"] obtain c where
    c: "grow (?l + ?sz) (ps_capacity v) = Some c" "?l + ?sz \<le> c" "ps_capacity v \<le> c" by blast
  let ?mem = "\<lambda>a. if a < ps_capacity v then ps_storage v a else char_of (0::nat)"
  let ?m1 = "mem_write ?mem ?l d"
  define v1 where "v1 = v\<lparr>ps_capacity := c, ps_storage := ?m1, pv_next_free := length xs + 1\<rparr>"
  have st: "ps_store v (pv_next_free v) d = Some (return (v\<lparr>ps_capacity := c, ps_storage := ?m1\<rparr>))"
    using f c d by (simp add: ps_store_def Let_def)
  have h1: "header8 v1 = length xs"
  proof -
    have "mem_read ?m1 64 8 = mem_read ?mem 64 8"
      by (rule mem_read_write_other) (simp add: header_size_def)
    also have "\<dots> = mem_read (ps_storage v) 64 8"
      by (rule mem_read_cut) (use f(3) in \<open>simp add: header_size_def\<close>)
    finally show ?thesis using f(5) by (simp add: header8_def v1_def)
  qed
  let ?v' = "set_header8 (length xs + 1) v1"
  have run: "pv_push_back v d = Some (return ?v')"
    using st f h1 by (simp add: pv_push_back_def ps_mapped_def Let_def v1_def)
  have far: "64 + length (le_bytes 8 (length xs + 1)) \<le> i * ?sz + header_size" for i
    by (simp add: header_size_def)
  have get: "mem_read (ps_storage ?v') (i * ?sz + header_size) ?sz = (xs @ [d]) ! i" if i: "i < length xs + 1" for i
  proof -
    have "mem_read (ps_storage ?v') (i * ?sz + header_size) ?sz = mem_read ?m1 (i * ?sz + header_size) ?sz"
      unfolding set_header8_def v1_def using far by (simp add: mem_read_write_other)
    also have "\<dots> = (xs @ [d]) ! i"
    proof (cases "i = length xs")
      case True
      then show ?thesis using d by (simp add: mem_read_write_same)
    next
      case False
      with i have i': "i < length xs" by simp
      note ob = object_bounds [OF i', of ?sz]
      have "mem_read ?m1 (i * ?sz + header_size) ?sz = mem_read ?mem (i * ?sz + header_size) ?sz"
        by (rule mem_read_write_other) (use ob in simp)
      also have "\<dots> = mem_read (ps_storage v) (i * ?sz + header_size) ?sz"
        by (rule mem_read_cut) (use ob f(3) in linarith)
      finally show ?thesis using r i' by (simp add: pv_rep_def nth_append)
    qed
    finally show ?thesis .
  qed
  have "header8 ?v' = length xs + 1"
    using n by (simp add: header8_def set_header8_def v1_def mem_read_write_same le_value_bytes)
  then have "pv_rep ?v' (xs @ [d])"
    using f c n get by (simp add: pv_rep_def set_header8_def v1_def)
  with run show ?thesis by (auto simp: set_header8_def v1_def)
qed

lemma pv_resize_rep:
  assumes r: "pv_rep v xs" and k: "k \<le> length xs"
  shows "pv_rep (pv_resize v k) (take k xs)"
proof -
  have len: "k < 2 ^ 64" using r k by (simp add: pv_rep_def)
  have far: "64 + length (le_bytes 8 k) \<le> i * ps_object_size v + header_size" for i
    by (simp add: header_size_def)
  have "k * ps_object_size v \<le> length xs * ps_object_size v" using k by (rule mult_le_mono1)
  moreover have "header_size + length xs * ps_object_size v \<le> ps_capacity v" using r by (simp add: pv_rep_def)
  ultimately have "header_size + k * ps_object_size v \<le> ps_capacity v" by linarith
  moreover have "header8 (pv_resize v k) = k"
    using len by (simp add: header8_def pv_resize_def set_header8_def mem_read_write_same le_value_bytes)
  ultimately show ?thesis
    using r k len far by (simp add: pv_rep_def pv_resize_def set_header8_def mem_read_write_other)
qed

section \<open>The contract of a vector\<close>

fun push_all :: "('v \<Rightarrow> 'e \<Rightarrow> 'v throws option) \<Rightarrow> 'e list \<Rightarrow> 'v \<Rightarrow> 'v throws option" where
  "push_all push [] v = Some (return v)"
| "push_all push (x # xs) v = do {
     r \<leftarrow> push v x;
     (case r of Inl e \<Rightarrow> Some (throw e) | Inr v \<Rightarrow> push_all push xs v) }"

text \<open>
  A vector stands for a list of at most \<open>max_length\<close> elements that satisfy \<open>elem\<close>; the operations are
  those of the list.
\<close>

locale vector_contract =
  fixes rep :: "'v \<Rightarrow> 'e list \<Rightarrow> bool"
    and elem :: "'e \<Rightarrow> bool"
    and max_length :: nat
    and get :: "'v \<Rightarrow> nat \<Rightarrow> 'e throws option"
    and assign :: "'v \<Rightarrow> nat \<Rightarrow> 'e \<Rightarrow> 'v throws option"
    and push :: "'v \<Rightarrow> 'e \<Rightarrow> 'v throws option"
    and cut :: "'v \<Rightarrow> nat \<Rightarrow> 'v"
  assumes get_rep: "rep v xs \<Longrightarrow> i < length xs \<Longrightarrow> get v i = Some (return (xs ! i))"
    and assign_rep: "rep v xs \<Longrightarrow> i < length xs \<Longrightarrow> elem x \<Longrightarrow>
      \<exists>v'. assign v i x = Some (return v') \<and> rep v' (xs[i := x])"
    and push_rep: "rep v xs \<Longrightarrow> elem x \<Longrightarrow> length xs < max_length \<Longrightarrow>
      \<exists>v'. push v x = Some (return v') \<and> rep v' (xs @ [x])"
    and cut_rep: "rep v xs \<Longrightarrow> k \<le> length xs \<Longrightarrow> rep (cut v k) (take k xs)"
begin

lemma push_all_rep:
  "rep v xs \<Longrightarrow> \<forall>y\<in>set ys. elem y \<Longrightarrow> length xs + length ys \<le> max_length \<Longrightarrow>
   \<exists>v'. push_all push ys v = Some (return v') \<and> rep v' (xs @ ys)"
proof (induction ys arbitrary: v xs)
  case (Cons y ys)
  then have "elem y" "length xs < max_length" by auto
  from push_rep [OF Cons.prems(1) this] obtain v' where
    "push v y = Some (return v')" "rep v' (xs @ [y])" by blast
  with Cons.IH [of v' "xs @ [y]"] Cons.prems show ?case by auto
qed simp

lemma push_all_get:
  assumes "rep v xs" and "\<forall>y\<in>set ys. elem y" and "length xs + length ys \<le> max_length"
  shows "\<exists>v'. push_all push ys v = Some (return v') \<and>
    (\<forall>i<length xs + length ys. get v' i = Some (return ((xs @ ys) ! i)))"
  using push_all_rep [OF assms] get_rep by fastforce

end

interpretation pv: vector_contract "\<lambda>v xs. pv_rep v xs \<and> ps_object_size v = sz" "\<lambda>d. length d = sz"
  "2 ^ 64 - 1" pv_get pv_set pv_push_back pv_resize
  for sz
proof unfold_locales
  fix v xs i assume "pv_rep v xs \<and> ps_object_size v = sz" "i < length xs"
  then show "pv_get v i = Some (return (xs ! i))" using pv_get_rep by blast
next
  fix v xs i and x :: string assume "pv_rep v xs \<and> ps_object_size v = sz" "i < length xs" "length x = sz"
  then show "\<exists>v'. pv_set v i x = Some (return v') \<and> pv_rep v' (xs[i := x]) \<and> ps_object_size v' = sz"
    using pv_set_rep by blast
next
  fix v xs and x :: string
  assume "pv_rep v xs \<and> ps_object_size v = sz" "length x = sz" "length xs < 2 ^ 64 - 1"
  then show "\<exists>v'. pv_push_back v x = Some (return v') \<and> pv_rep v' (xs @ [x]) \<and> ps_object_size v' = sz"
    using pv_push_back_rep [of v xs x] by auto
next
  fix v xs k assume "pv_rep v xs \<and> ps_object_size v = sz" "k \<le> length xs"
  then show "pv_rep (pv_resize v k) (take k xs) \<and> ps_object_size (pv_resize v k) = sz"
    using pv_resize_rep [of v xs k] by (simp add: pv_resize_def set_header8_def)
qed

section \<open>Properties\<close>

definition pv_create_file :: "memory \<Rightarrow> nat \<Rightarrow> pvector" where
  "pv_create_file junk sz = fst (pv_map_file (pvector_new junk) None sz)"

lemma pv_create_file_rep:
  assumes "0 < sz"
  shows "pv_rep (pv_create_file junk sz) [] \<and> ps_object_size (pv_create_file junk sz) = sz"
proof -
  let ?m = "mem_write (\<lambda>_. char_of (0::nat)) 0 (le_bytes 8 cur_version)"
  have "mem_read ?m 64 8 = mem_read (\<lambda>_. char_of (0::nat)) 64 8" by (rule mem_read_write_other) simp
  also have "le_value \<dots> = 0" by (simp add: mem_read_def upt_rec)
  finally have "le_value (mem_read ?m 64 8) = 0" .
  with assms show ?thesis
    by (simp add: pv_create_file_def pv_map_file_def ps_map_file_def pvector_new_def pv_rep_def header8_def
      header_size_def)
qed

text \<open>a \<open>persistent_vector\<close> gives back every object pushed to it, at its index, however often the file has
  to grow in between.\<close>

theorem pv_push_all_get:
  assumes "pv_rep v xs" and "\<forall>d\<in>set ds. length d = ps_object_size v" and "length xs + length ds \<le> 2 ^ 64 - 1"
  shows "\<exists>v'. push_all pv_push_back ds v = Some (return v') \<and>
    (\<forall>i<length xs + length ds. pv_get v' i = Some (return ((xs @ ds) ! i)))"
  using pv.push_all_get [of v xs "ps_object_size v" ds] assms by blast

theorem pv_push_all_get_witness:
  "\<exists>v'. push_all pv_push_back [''ab'', ''cd''] (pv_create_file (\<lambda>_. CHR ''x'') 2) = Some (return v') \<and>
     pv_get v' 1 = Some (return ''cd'')"
  using pv_push_all_get [of "pv_create_file (\<lambda>_. CHR ''x'') 2" "[]" "[''ab'', ''cd'']"]
    pv_create_file_rep [of 2 "\<lambda>_. CHR ''x''"]
  by auto

text \<open>C33: a process that maps the file of a \<open>persistent_vector\<close> finds the same objects.\<close>

theorem pv_reopen:
  assumes "pv_rep v xs"
  shows "pv_rep (fst (pv_map_file (pvector_new junk) (Some (ps_file v)) (ps_object_size v))) xs"
  using assms
  by (simp add: pv_map_file_def ps_map_file_def pvector_new_def ps_file_def pv_rep_def header8_def)

theorem pv_reopen_witness:
  "\<exists>v. pv_rep v [''ab''] \<and>
     pv_rep (fst (pv_map_file (pvector_new (\<lambda>_. CHR ''x'')) (Some (ps_file v)) (ps_object_size v))) [''ab'']"
proof -
  obtain v where "pv_rep v [''ab'']"
    using pv.push_rep [of "pv_create_file (\<lambda>_. CHR ''x'') 2" "[]" 2 "''ab''"]
      pv_create_file_rep [of 2 "\<lambda>_. CHR ''x''"] by auto
  with pv_reopen [OF this, of "\<lambda>_. CHR ''x''"] show ?thesis by blast
qed

end
