(* ===== verification/Blockchain.thy ===== *)
theory Blockchain
  imports Prelude Bytes Hex_IO
begin

text \<open>
  The blockchain node of \<^verbatim>\<open>examples/node/blockchain_cpp_node\<close>: validation of blocks, the reorganisation of
  the main chain, mining, and the messages the handlers send. The hash function (SHA3-256 of the
  third-party library) is the parameter \<open>sha\<close>; messages are values, their encoding is the protocol's. Sent
  messages are returned as a list of peer and message. A result \<open>None\<close> is an access out of bounds.
\<close>

section \<open>Blocks\<close>

record block =
  b_miner :: string
  b_prev_hash :: string
  b_height :: nat
  b_nonce :: string

definition default_block :: block where
  "default_block = \<lparr>b_miner = [], b_prev_hash = [], b_height = 0, b_nonce = []\<rparr>"

definition block_to_string :: "block \<Rightarrow> string" where
  "block_to_string b = ''miner: '' @ b_miner b @ '' prev_hash(hex): '' @ bin2hex (b_prev_hash b) @
     '' height: '' @ to_string (b_height b) @ '' nonce(hex): '' @ bin2hex (b_nonce b)"

definition block_data :: "block \<Rightarrow> string" where
  "block_data b = b_miner b @ b_prev_hash b @ to_string (b_height b) @ b_nonce b"

definition block_hash :: "(string \<Rightarrow> string) \<Rightarrow> block \<Rightarrow> string" where
  "block_hash sha b = sha (block_data b)"

definition genesis_hash :: "(string \<Rightarrow> string) \<Rightarrow> string" where
  "genesis_hash sha = sha ''automaton''"

text \<open>\<^verbatim>\<open>hex.substr(hex.size() - 8)\<close>; for a shorter string the position wraps around and throws.\<close>

definition hashstr :: "string \<Rightarrow> string throws" where
  "hashstr h = (let hex = bin2hex h in
     if 8 \<le> length hex then return (drop (length hex - 8) hex) else throw (Out_of_range ''substr''))"

datatype block_validity = VALID | INVALID | DUPLICATE | NO_PARENT

definition validity_to_str :: "block_validity \<Rightarrow> string" where
  "validity_to_str v = (case v of VALID \<Rightarrow> ''Valid'' | INVALID \<Rightarrow> ''Invalid'' | DUPLICATE \<Rightarrow> ''Duplicate''
     | NO_PARENT \<Rightarrow> ''No_parent'')"

section \<open>Node\<close>

record chain_node =
  c_nodeid :: string
  c_blocks :: "string \<rightharpoonup> block"
  c_blockchain :: "string list"
  c_nonce :: string
  c_peer_names :: "nat \<rightharpoonup> string"

datatype wire_msg = Hello string | Block block | Other string

type_synonym sent = "(nat \<times> wire_msg) list"

definition init_node :: "string \<Rightarrow> chain_node" where
  "init_node nodeid = \<lparr>c_nodeid = nodeid, c_blocks = Map.empty, c_blockchain = [],
     c_nonce = replicate 16 (char_of (0::nat)), c_peer_names = [0 \<mapsto> ''ME['' @ nodeid @ '']'']\<rparr>"

text \<open>\<^verbatim>\<open>a.compare(b) <= 0\<close>: lexicographic on unsigned bytes.\<close>

fun compare_le :: "string \<Rightarrow> string \<Rightarrow> bool" where
  "compare_le [] bs = True"
| "compare_le (a # as) [] = False"
| "compare_le (a # as) (b # bs) = (of_char a < (of_char b :: nat) \<or> a = b \<and> compare_le as bs)"

definition get_target :: "string throws" where
  "get_target = hex2bin (replicate (1 * 2) CHR ''0'' @ ''00FFFF'' @ replicate ((32 - 1 - 3) * 2) CHR ''0'')"

definition target :: string where
  "target = [CHR 0x00, CHR 0x00, CHR 0xFF, CHR 0xFF] @ replicate 28 CHR 0x00"

text \<open>\<^verbatim>\<open>blocks[h]\<close> of the map: a missing entry is made, with a default block.\<close>

definition blocks_at :: "(string \<rightharpoonup> block) \<Rightarrow> string \<Rightarrow> (string \<rightharpoonup> block) \<times> block" where
  "blocks_at m h = (case m h of Some b \<Rightarrow> (m, b) | None \<Rightarrow> (m(h \<mapsto> default_block), default_block))"

definition validate_block ::
  "(string \<Rightarrow> string) \<Rightarrow> chain_node \<Rightarrow> block \<Rightarrow> chain_node \<times> block_validity" where
  "validate_block sha s b =
     (if c_blocks s (block_hash sha b) \<noteq> None then (s, DUPLICATE)
      else if \<not> compare_le (block_hash sha b) target then (s, INVALID)
      else if b_height b < 1 then (s, INVALID)
      else if b_prev_hash b \<noteq> genesis_hash sha \<and> c_blocks s (b_prev_hash b) = None then (s, NO_PARENT)
      else if b_height b = 1 \<and> b_prev_hash b \<noteq> genesis_hash sha then (s, INVALID)
      else if b_height b > 1 then
        (let (m, pb) = blocks_at (c_blocks s) (b_prev_hash b); s = s\<lparr>c_blocks := m\<rparr>
         in if b_height pb \<noteq> b_height b - 1 then (s, INVALID) else (s, VALID))
      else (s, VALID))"

definition get_block :: "chain_node \<Rightarrow> string \<Rightarrow> block" where
  "get_block s h = (case c_blocks s h of Some b \<Rightarrow> b | None \<Rightarrow> default_block)"

definition get_current_hash :: "(string \<Rightarrow> string) \<Rightarrow> chain_node \<Rightarrow> string" where
  "get_current_hash sha s = (if c_blockchain s \<noteq> [] then last (c_blockchain s) else genesis_hash sha)"

definition send_block :: "chain_node \<Rightarrow> nat \<Rightarrow> string \<Rightarrow> sent" where
  "send_block s p_id h = (let b = get_block s h in if b_height b = 0 then [] else [(p_id, Block b)])"

text \<open>Blocks from number \<open>starting_block\<close>, counted from 1, to the top; 1 is subtracted in 32 bits.\<close>

definition send_blocks :: "chain_node \<Rightarrow> nat \<Rightarrow> nat \<Rightarrow> sent" where
  "send_blocks s p_id starting_block =
     concat (map (send_block s p_id) (drop ((starting_block + 2 ^ 32 - 1) mod 2 ^ 32) (c_blockchain s)))"

definition gossip :: "nat list \<Rightarrow> chain_node \<Rightarrow> nat \<Rightarrow> nat \<Rightarrow> sent" where
  "gossip connected s peer_from starting_block =
     concat (map (\<lambda>i. if i \<noteq> peer_from then send_blocks s i starting_block else []) connected)"

text \<open>
  The loop that follows a new head down to the main chain, replacing the hashes in between: the map of
  blocks, the chain, the number of elements still to check and the hash that belongs below.
\<close>

fun reorganise ::
  "(string \<rightharpoonup> block) \<Rightarrow> string list \<Rightarrow> nat \<Rightarrow> string \<Rightarrow> (string \<rightharpoonup> block) \<times> string list \<times> nat" where
  "reorganise m chain 0 h = (m, chain, 0)"
| "reorganise m chain (Suc i) h =
     (if chain ! i = h then (m, chain, Suc i)
      else let (m, b) = blocks_at m h in reorganise m (chain[i := h]) i (b_prev_hash b))"

definition on_block ::
  "(string \<Rightarrow> string) \<Rightarrow> nat list \<Rightarrow> chain_node \<Rightarrow> nat \<Rightarrow> block \<Rightarrow> chain_node \<times> sent" where
  "on_block sha connected s p_id b =
     (let (s, validity) = validate_block sha s b; bhash = block_hash sha b
      in if validity = VALID then
           (let s = s\<lparr>c_blocks := (c_blocks s)(bhash \<mapsto> b)\<rparr>
            in if b_height b = length (c_blockchain s) + 1 then
                 (let chain = c_blockchain s @ [bhash];
                      (m, chain, block_height) =
                        reorganise (c_blocks s) chain (length chain - 1) (b_prev_hash b);
                      s = s\<lparr>c_blocks := m, c_blockchain := chain\<rparr>
                  in (s, gossip connected s p_id (block_height + 1)))
               else (s, []))
         else (s, []))"

definition on_hello :: "chain_node \<Rightarrow> nat \<Rightarrow> string \<Rightarrow> chain_node \<times> sent" where
  "on_hello s p_id name =
     (let s = s\<lparr>c_peer_names := (c_peer_names s)(p_id \<mapsto> name)\<rparr> in (s, send_blocks s p_id 1))"

definition get_peer_name :: "chain_node \<Rightarrow> nat \<Rightarrow> string" where
  "get_peer_name s i = (case c_peer_names s i of None \<Rightarrow> ''Unknown'' | Some n \<Rightarrow> n)"

text \<open>The handlers the node base class calls. \<open>parse\<close> stands for \<open>get_wire_msg\<close>.\<close>

definition s_on_blob_received ::
  "(string \<Rightarrow> string) \<Rightarrow> nat list \<Rightarrow> (string \<Rightarrow> wire_msg) \<Rightarrow> chain_node \<Rightarrow> nat \<Rightarrow> string \<Rightarrow> chain_node \<times> sent" where
  "s_on_blob_received sha connected parse s i blob =
     (case parse blob of Hello name \<Rightarrow> on_hello s i name
      | Block b \<Rightarrow> on_block sha connected s i b
      | Other _ \<Rightarrow> (s, []))"

definition s_on_connected :: "chain_node \<Rightarrow> nat \<Rightarrow> chain_node \<times> sent" where
  "s_on_connected s p_id =
     (s\<lparr>c_peer_names := (c_peer_names s)(p_id \<mapsto> ''N/A'')\<rparr>, [(p_id, Hello (c_nodeid s))])"

definition s_on_disconnected :: "chain_node \<Rightarrow> nat \<Rightarrow> chain_node" where
  "s_on_disconnected s i = s\<lparr>c_peer_names := (c_peer_names s)(i := None)\<rparr>"

section \<open>Mining\<close>

text \<open>
  The loop counter is unsigned, so that the test \<^verbatim>\<open>i >= 0\<close> never ends the loop: past index 0 it wraps
  around and is used as an index.
\<close>

fun increment_from :: "string \<Rightarrow> nat \<Rightarrow> string option" where
  "increment_from nonce i =
     (if of_char (nonce ! i) < (255::nat) then Some (nonce[i := char_of (of_char (nonce ! i) + 1 :: nat)])
      else case i of 0 \<Rightarrow> None | Suc j \<Rightarrow> increment_from (nonce[i := char_of (0::nat)]) j)"

declare increment_from.simps [simp del]

definition increment_nonce :: "chain_node \<Rightarrow> chain_node option" where
  "increment_nonce s = map_option (\<lambda>n. s\<lparr>c_nonce := n\<rparr>) (increment_from (c_nonce s) 15)"

definition mine_attempts :: nat where "mine_attempts = 10000"

fun mine_loop :: "(string \<Rightarrow> string) \<Rightarrow> nat \<Rightarrow> chain_node \<Rightarrow> block \<Rightarrow> (chain_node \<times> block) option" where
  "mine_loop sha 0 s b = Some (s, b\<lparr>b_height := 0\<rparr>)"
| "mine_loop sha (Suc k) s b =
     (let b = b\<lparr>b_nonce := c_nonce s\<rparr>
      in if compare_le (block_hash sha b) target then Some (s, b)
         else do { s \<leftarrow> increment_nonce s; mine_loop sha k s b })"

definition mine :: "(string \<Rightarrow> string) \<Rightarrow> chain_node \<Rightarrow> (chain_node \<times> block) option" where
  "mine sha s = mine_loop sha mine_attempts s
     \<lparr>b_miner = c_nodeid s, b_prev_hash = get_current_hash sha s, b_height = length (c_blockchain s) + 1,
      b_nonce = []\<rparr>"

definition s_update :: "(string \<Rightarrow> string) \<Rightarrow> nat list \<Rightarrow> chain_node \<Rightarrow> (chain_node \<times> sent) option" where
  "s_update sha connected s = do {
     (s, b) \<leftarrow> mine sha s;
     Some (if b_height b \<noteq> 0 then on_block sha connected s 0 b else (s, [])) }"

section \<open>Statistics\<close>

definition get_blockchain_top :: "(string \<Rightarrow> string) \<Rightarrow> chain_node \<Rightarrow> block" where
  "get_blockchain_top sha s = get_block s (get_current_hash sha s)"

definition node_stats :: "chain_node \<Rightarrow> nat \<Rightarrow> string" where
  "node_stats s last_blocks =
     (let n = length (c_blockchain s);
          start = (if last_blocks < n \<and> last_blocks > 0 then n - last_blocks else 0)
      in concat (map (\<lambda>h. bin2hex h @ [CHR 0x0A]) (drop start (c_blockchain s))))"

text \<open>Blocks mined per miner on the main chain, as 32 bit counters.\<close>

definition collect_balances :: "chain_node \<Rightarrow> string \<Rightarrow> nat" where
  "collect_balances s = foldl (\<lambda>m h. let b = get_block s h in m(b_miner b := (m (b_miner b) + 1) mod 2 ^ 32))
     (\<lambda>_. 0) (c_blockchain s)"

text \<open>
  The test in \<open>s_debug_html\<close> whether a stored block is on the main chain; \<^verbatim>\<open>height - 1\<close> wraps around at
  height 0.
\<close>

definition debug_on_main :: "chain_node \<Rightarrow> string \<Rightarrow> block \<Rightarrow> bool option" where
  "debug_on_main s h b = map_option (\<lambda>x. h = x) (vec_get (c_blockchain s) ((b_height b + 2 ^ 64 - 1) mod 2 ^ 64))"

section \<open>The chain invariant\<close>

text \<open>What is known of a stored block: only the placeholder under the genesis hash is not a checked block.\<close>

definition block_ok :: "(string \<Rightarrow> string) \<Rightarrow> (string \<rightharpoonup> block) \<Rightarrow> string \<Rightarrow> block \<Rightarrow> bool" where
  "block_ok sha m h b \<longleftrightarrow> h = genesis_hash sha \<and> b = default_block \<or>
     h = block_hash sha b \<and> compare_le h target \<and> 1 \<le> b_height b \<and>
     (b_height b = 1 \<longrightarrow> b_prev_hash b = genesis_hash sha) \<and>
     (1 < b_height b \<longrightarrow> (\<exists>pb. m (b_prev_hash b) = Some pb \<and> b_height pb = b_height b - 1))"

definition stored_ok :: "(string \<Rightarrow> string) \<Rightarrow> (string \<rightharpoonup> block) \<Rightarrow> bool" where
  "stored_ok sha m \<longleftrightarrow> (\<forall>h b. m h = Some b \<longrightarrow> block_ok sha m h b)"

text \<open>Element \<open>i\<close> of the main chain is a stored block of height \<open>i + 1\<close> whose parent is the element before.\<close>

definition link_ok :: "(string \<Rightarrow> string) \<Rightarrow> (string \<rightharpoonup> block) \<Rightarrow> string list \<Rightarrow> nat \<Rightarrow> bool" where
  "link_ok sha m chain i \<longleftrightarrow> (\<exists>b. m (chain ! i) = Some b \<and> b_height b = i + 1 \<and>
     b_prev_hash b = (if i = 0 then genesis_hash sha else chain ! (i - 1)))"

definition chain_ok :: "(string \<Rightarrow> string) \<Rightarrow> chain_node \<Rightarrow> bool" where
  "chain_ok sha s \<longleftrightarrow> stored_ok sha (c_blocks s) \<and>
     (\<forall>i<length (c_blockchain s). link_ok sha (c_blocks s) (c_blockchain s) i) \<and>
     (\<forall>h b. c_blocks s h = Some b \<longrightarrow> b_height b \<le> length (c_blockchain s))"

lemma get_target_target: "get_target = return target"
  by code_simp

lemma block_ok_mono: "block_ok sha m h b \<Longrightarrow> m \<subseteq>\<^sub>m m' \<Longrightarrow> block_ok sha m' h b"
  unfolding block_ok_def map_le_def by (metis domI)

lemma link_ok_mono: "link_ok sha m chain i \<Longrightarrow> m \<subseteq>\<^sub>m m' \<Longrightarrow> link_ok sha m' chain i"
  unfolding link_ok_def map_le_def by (metis domI)

lemma link_ok_append: "i < length chain \<Longrightarrow> link_ok sha m (chain @ xs) i = link_ok sha m chain i"
  by (simp add: link_ok_def nth_append less_imp_diff_less)

lemma map_le_new: "m h = None \<Longrightarrow> m \<subseteq>\<^sub>m m(h \<mapsto> b)"
  by (auto simp: map_le_def dom_def)

lemma stored_ok_insert:
  assumes "stored_ok sha m" and "m h = None" and "block_ok sha m h b"
  shows "stored_ok sha (m(h \<mapsto> b))"
  using assms block_ok_mono [OF _ map_le_new [of m h b]] by (auto simp: stored_ok_def)

text \<open>Following the new head down.\<close>

lemma reorganise_ok:
  assumes st: "stored_ok sha m"
  shows "i < length chain \<Longrightarrow> \<forall>j<i. link_ok sha m chain j \<Longrightarrow>
    \<forall>j<length chain. i < j \<longrightarrow> link_ok sha m chain j \<Longrightarrow>
    \<exists>b. m (chain ! i) = Some b \<and> b_height b = i + 1 \<and> b_prev_hash b = h \<Longrightarrow>
    \<exists>chain' k. reorganise m chain i h = (m, chain', k) \<and> length chain' = length chain \<and> k \<le> i \<and>
      (\<forall>j<length chain. link_ok sha m chain' j) \<and> (\<forall>j<length chain. i \<le> j \<or> j < k \<longrightarrow> chain' ! j = chain ! j)"
proof (induction i arbitrary: chain h)
  case 0
  then obtain b where b: "m (chain ! 0) = Some b" "b_height b = 1" "b_prev_hash b = h" by auto
  have "block_ok sha m (chain ! 0) b" using st b(1) by (simp add: stored_ok_def)
  with b have "h = genesis_hash sha" by (auto simp: block_ok_def default_block_def)
  with b have "link_ok sha m chain 0" by (simp add: link_ok_def)
  moreover have "\<forall>j<length chain. 0 < j \<longrightarrow> link_ok sha m chain j" using 0 by blast
  ultimately have "\<forall>j<length chain. link_ok sha m chain j" by (metis bot_nat_0.not_eq_extremum)
  then show ?case by simp
next
  case (Suc i)
  then obtain b where b: "m (chain ! Suc i) = Some b" "b_height b = Suc i + 1" "b_prev_hash b = h" by auto
  show ?case
  proof (cases "chain ! i = h")
    case True
    then have "link_ok sha m chain (Suc i)" using b by (simp add: link_ok_def)
    then have "\<forall>j<length chain. link_ok sha m chain j"
      using Suc.prems(2,3) by (metis linorder_neqE_nat)
    then show ?thesis using True by simp
  next
    case False
    have "block_ok sha m (chain ! Suc i) b" using st b(1) by (simp add: stored_ok_def)
    with b obtain pb where pb: "m h = Some pb" "b_height pb = i + 1"
      by (auto simp: block_ok_def default_block_def)
    let ?c = "chain[i := h]"
    have il: "i < length ?c" using Suc.prems(1) by simp
    have "link_ok sha m ?c j" if j: "j < i" for j
    proof -
      have "link_ok sha m chain j" using Suc.prems(2) j by simp
      then show ?thesis using j by (auto simp: link_ok_def)
    qed
    then have low: "\<forall>j<i. link_ok sha m ?c j" by blast
    have "link_ok sha m ?c j" if j: "j < length ?c" "i < j" for j
    proof (cases "j = Suc i")
      case True
      then show ?thesis using b j by (auto simp: link_ok_def)
    next
      case False
      with j have "link_ok sha m chain j" using Suc.prems(3) by auto
      then show ?thesis using j False by (auto simp: link_ok_def)
    qed
    then have high: "\<forall>j<length ?c. i < j \<longrightarrow> link_ok sha m ?c j" by blast
    have at: "\<exists>b. m (?c ! i) = Some b \<and> b_height b = i + 1 \<and> b_prev_hash b = b_prev_hash pb"
      using pb il by simp
    from Suc.IH [OF il low high at] obtain chain' k where
      r: "reorganise m ?c i (b_prev_hash pb) = (m, chain', k)" "length chain' = length chain" "k \<le> i"
        "\<forall>j<length chain. link_ok sha m chain' j"
        "\<forall>j<length chain. i \<le> j \<or> j < k \<longrightarrow> chain' ! j = ?c ! j" by auto
    have "\<forall>j<length chain. Suc i \<le> j \<or> j < k \<longrightarrow> chain' ! j = chain ! j"
      using r(3,5) by auto
    moreover have "reorganise m chain (Suc i) h = (m, chain', k)"
      using False pb(1) r(1) by (simp add: blocks_at_def)
    ultimately show ?thesis using r by auto
  qed
qed

lemma validate_cases:
  assumes ok: "chain_ok sha s"
  obtains (rejected) v m where "validate_block sha s b = (s\<lparr>c_blocks := m\<rparr>, v)" "v \<noteq> VALID"
      "m = c_blocks s \<or> c_blocks s (genesis_hash sha) = None \<and> m = (c_blocks s)(genesis_hash sha \<mapsto> default_block)"
  | (valid) "validate_block sha s b = (s, VALID)" "c_blocks s (block_hash sha b) = None"
      "block_ok sha (c_blocks s) (block_hash sha b) b" "1 \<le> b_height b"
      "b_height b \<le> length (c_blockchain s) + 1"
proof (cases "1 < b_height b \<and> c_blocks s (block_hash sha b) = None \<and> compare_le (block_hash sha b) target \<and>
    (b_prev_hash b = genesis_hash sha \<or> c_blocks s (b_prev_hash b) \<noteq> None)")
  case True
  show thesis
  proof (cases "c_blocks s (b_prev_hash b)")
    case None
    then have g: "b_prev_hash b = genesis_hash sha" using True by simp
    have "validate_block sha s b = (s\<lparr>c_blocks := (c_blocks s)(genesis_hash sha \<mapsto> default_block)\<rparr>, INVALID)"
      using True None g by (auto simp: validate_block_def blocks_at_def default_block_def)
    then show thesis using rejected None g by auto
  next
    case (Some pb)
    show thesis
    proof (cases "b_height pb = b_height b - 1")
      case eq: True
      have "b_height pb \<le> length (c_blockchain s)" using ok Some by (auto simp: chain_ok_def)
      then have "b_height b \<le> length (c_blockchain s) + 1" using eq by linarith
      moreover have "validate_block sha s b = (s, VALID)"
        using True Some eq by (auto simp: validate_block_def blocks_at_def)
      ultimately show thesis using valid True Some eq by (auto simp: block_ok_def)
    next
      case False
      then have r: "validate_block sha s b = (s\<lparr>c_blocks := c_blocks s\<rparr>, INVALID)"
        using True Some by (auto simp: validate_block_def blocks_at_def)
      show thesis by (rule rejected [OF r]) auto
    qed
  qed
next
  case False
  show thesis
  proof (cases "snd (validate_block sha s b) = VALID")
    case True
    with False have v: "validate_block sha s b = (s, VALID)" "b_height b = 1" "b_prev_hash b = genesis_hash sha"
      "c_blocks s (block_hash sha b) = None" "compare_le (block_hash sha b) target"
      by (auto simp: validate_block_def split: if_splits prod.splits)
    then show thesis using valid by (auto simp: block_ok_def)
  next
    case nv: False
    with False have "fst (validate_block sha s b) = s"
      by (auto simp: validate_block_def split: if_splits prod.splits)
    then have "validate_block sha s b = (s\<lparr>c_blocks := c_blocks s\<rparr>, snd (validate_block sha s b))"
      by (metis prod.collapse chain_node.surjective chain_node.update_convs(2))
    then show thesis using rejected nv by blast
  qed
qed

section \<open>on_block\<close>

lemma chain_ok_placeholder:
  assumes ok: "chain_ok sha s" and m: "m = c_blocks s \<or>
      c_blocks s (genesis_hash sha) = None \<and> m = (c_blocks s)(genesis_hash sha \<mapsto> default_block)"
  shows "chain_ok sha (s\<lparr>c_blocks := m\<rparr>)"
proof (cases "m = c_blocks s")
  case False
  with m have n: "c_blocks s (genesis_hash sha) = None"
    and m: "m = (c_blocks s)(genesis_hash sha \<mapsto> default_block)" by auto
  have "stored_ok sha m" unfolding m
    by (rule stored_ok_insert) (use ok n in \<open>auto simp: chain_ok_def block_ok_def\<close>)
  moreover have "b_height default_block = 0" by (simp add: default_block_def)
  ultimately show ?thesis
    using ok link_ok_mono [OF _ map_le_new [of "c_blocks s", OF n]] by (auto simp: chain_ok_def m)
qed (use ok in simp)

text \<open>The three outcomes: rejected, stored beside the main chain, the new head.\<close>

lemma on_block_cases:
  assumes ok: "chain_ok sha s"
  obtains (rejected) m where "on_block sha connected s p b = (s\<lparr>c_blocks := m\<rparr>, [])"
      "chain_ok sha (s\<lparr>c_blocks := m\<rparr>)" "snd (validate_block sha s b) \<noteq> VALID"
  | (side) "on_block sha connected s p b = (s\<lparr>c_blocks := (c_blocks s)(block_hash sha b \<mapsto> b)\<rparr>, [])"
      "chain_ok sha (s\<lparr>c_blocks := (c_blocks s)(block_hash sha b \<mapsto> b)\<rparr>)"
      "b_height b \<noteq> length (c_blockchain s) + 1"
  | (head) chain k where "on_block sha connected s p b =
        (s\<lparr>c_blocks := (c_blocks s)(block_hash sha b \<mapsto> b), c_blockchain := chain\<rparr>,
         gossip connected (s\<lparr>c_blocks := (c_blocks s)(block_hash sha b \<mapsto> b), c_blockchain := chain\<rparr>) p (k + 1))"
      "chain_ok sha (s\<lparr>c_blocks := (c_blocks s)(block_hash sha b \<mapsto> b), c_blockchain := chain\<rparr>)"
      "length chain = length (c_blockchain s) + 1" "last chain = block_hash sha b"
      "\<forall>j<k. chain ! j = c_blockchain s ! j" "k \<le> length (c_blockchain s)"
  using ok
proof (cases rule: validate_cases [where b = b])
  case (rejected v m)
  then have "on_block sha connected s p b = (s\<lparr>c_blocks := m\<rparr>, [])" by (simp add: on_block_def)
  then show thesis using that(1) chain_ok_placeholder [OF ok rejected(3)] rejected(1,2) by simp
next
  case valid
  let ?h = "block_hash sha b" and ?n = "length (c_blockchain s)"
  let ?m = "(c_blocks s)(?h \<mapsto> b)"
  have st: "stored_ok sha ?m"
    by (rule stored_ok_insert) (use ok valid in \<open>auto simp: chain_ok_def\<close>)
  have links: "link_ok sha ?m (c_blockchain s) i" if "i < ?n" for i
    using ok that link_ok_mono [OF _ map_le_new [of "c_blocks s", OF valid(2)]] by (auto simp: chain_ok_def)
  show thesis
  proof (cases "b_height b = ?n + 1")
    case False
    then have "on_block sha connected s p b = (s\<lparr>c_blocks := ?m\<rparr>, [])" using valid(1) by (simp add: on_block_def)
    moreover have "chain_ok sha (s\<lparr>c_blocks := ?m\<rparr>)"
      using ok st links valid(5) False by (auto simp: chain_ok_def)
    ultimately show thesis using that(2) False by blast
  next
    case True
    let ?c = "c_blockchain s @ [?h]"
    have "\<exists>chain' k. reorganise ?m ?c ?n (b_prev_hash b) = (?m, chain', k) \<and> length chain' = length ?c \<and> k \<le> ?n \<and>
      (\<forall>j<length ?c. link_ok sha ?m chain' j) \<and> (\<forall>j<length ?c. ?n \<le> j \<or> j < k \<longrightarrow> chain' ! j = ?c ! j)"
    proof (rule reorganise_ok [OF st])
      show "\<forall>j<?n. link_ok sha ?m ?c j" using links by (simp add: link_ok_append)
    qed (use True in auto)
    then obtain chain k where r: "reorganise ?m ?c ?n (b_prev_hash b) = (?m, chain, k)" "length chain = ?n + 1"
      "k \<le> ?n" "\<forall>j<?n + 1. link_ok sha ?m chain j" "\<forall>j<?n + 1. ?n \<le> j \<or> j < k \<longrightarrow> chain ! j = ?c ! j" by auto
    have "on_block sha connected s p b = (s\<lparr>c_blocks := ?m, c_blockchain := chain\<rparr>,
        gossip connected (s\<lparr>c_blocks := ?m, c_blockchain := chain\<rparr>) p (k + 1))"
      using valid(1) True r(1) by (simp add: on_block_def Let_def)
    moreover have "chain_ok sha (s\<lparr>c_blocks := ?m, c_blockchain := chain\<rparr>)"
      using ok st r(2,4) valid(5) by (force simp: chain_ok_def)
    moreover have "last chain = ?h" using r(2,5) by (simp add: last_conv_nth flip: length_0_conv)
    moreover have "\<forall>j<k. chain ! j = c_blockchain s ! j" using r(3,5) by (simp add: nth_append)
    ultimately show thesis using that(3) r(2,3) by blast
  qed
qed

text \<open>A valid block on top of the current head is appended, nothing is replaced.\<close>

lemma on_block_extend:
  assumes ok: "chain_ok sha s" and prev: "b_prev_hash b = get_current_hash sha s"
    and height: "b_height b = length (c_blockchain s) + 1"
    and new: "c_blocks s (block_hash sha b) = None" and pow: "compare_le (block_hash sha b) target"
  shows "fst (on_block sha connected s p b) = s\<lparr>c_blocks := (c_blocks s)(block_hash sha b \<mapsto> b),
    c_blockchain := c_blockchain s @ [block_hash sha b]\<rparr>"
proof -
  let ?n = "length (c_blockchain s)" and ?h = "block_hash sha b"
  have v: "validate_block sha s b = (s, VALID)"
  proof (cases "?n")
    case 0
    then show ?thesis using prev height new pow by (auto simp: validate_block_def get_current_hash_def)
  next
    case (Suc k)
    then have l: "b_prev_hash b = c_blockchain s ! k" using prev by (auto simp: get_current_hash_def last_conv_nth)
    from ok Suc have "link_ok sha (c_blocks s) (c_blockchain s) k" by (simp add: chain_ok_def)
    then obtain pb where "c_blocks s (b_prev_hash b) = Some pb" "b_height pb = k + 1"
      using l by (auto simp: link_ok_def)
    then show ?thesis using height new pow Suc by (auto simp: validate_block_def blocks_at_def)
  qed
  have "reorganise m (c_blockchain s @ [?h]) ?n (b_prev_hash b) = (m, c_blockchain s @ [?h], ?n)" for m
  proof (cases "?n")
    case (Suc k)
    then have "b_prev_hash b = c_blockchain s ! k" using prev by (auto simp: get_current_hash_def last_conv_nth)
    then show ?thesis using Suc by (simp add: nth_append)
  qed simp
  then show ?thesis using v height by (simp add: on_block_def Let_def)
qed

section \<open>Reachable nodes\<close>

text \<open>Any sequence of received messages, connections and mining rounds.\<close>

inductive chain_reach :: "(string \<Rightarrow> string) \<Rightarrow> chain_node \<Rightarrow> bool" for sha where
  init: "chain_reach sha (init_node nodeid)"
| blob: "chain_reach sha s \<Longrightarrow> chain_reach sha (fst (s_on_blob_received sha connected parse s p blob))"
| update: "chain_reach sha s \<Longrightarrow> s_update sha connected s = Some (s', msgs) \<Longrightarrow> chain_reach sha s'"
| connected: "chain_reach sha s \<Longrightarrow> chain_reach sha (fst (s_on_connected s p))"
| disconnected: "chain_reach sha s \<Longrightarrow> chain_reach sha (s_on_disconnected s p)"

lemma chain_ok_on_block: "chain_ok sha s \<Longrightarrow> chain_ok sha (fst (on_block sha connected s p b))"
  by (cases rule: on_block_cases [where connected = connected and p = p and b = b]) auto

lemma chain_ok_cong:
  "c_blocks s' = c_blocks s \<Longrightarrow> c_blockchain s' = c_blockchain s \<Longrightarrow> chain_ok sha s' = chain_ok sha s"
  by (simp add: chain_ok_def)

lemma increment_nonce_fields:
  "increment_nonce s = Some s' \<Longrightarrow> \<exists>n. s' = s\<lparr>c_nonce := n\<rparr>"
  by (auto simp: increment_nonce_def)

lemma mine_loop_result:
  "mine_loop sha k s b = Some (s', b') \<Longrightarrow> (\<exists>n. s' = s\<lparr>c_nonce := n\<rparr>) \<and>
   (b_height b' \<noteq> 0 \<longrightarrow> (\<exists>n. b' = b\<lparr>b_nonce := n\<rparr>) \<and> compare_le (block_hash sha b') target)"
proof (induction sha k s b rule: mine_loop.induct)
  case (1 sha s b)
  then show ?case by (auto intro: exI [of _ "c_nonce s"])
next
  case (2 sha k s b)
  show ?case
  proof (cases "compare_le (block_hash sha (b\<lparr>b_nonce := c_nonce s\<rparr>)) target")
    case True
    with 2 show ?thesis by (auto intro: exI [of _ "c_nonce s"])
  next
    case False
    with 2(2) obtain s1 where s1: "increment_nonce s = Some s1"
      "mine_loop sha k s1 (b\<lparr>b_nonce := c_nonce s\<rparr>) = Some (s', b')"
      by (auto simp: Let_def bind_eq_Some_conv)
    obtain n where "s1 = s\<lparr>c_nonce := n\<rparr>" using increment_nonce_fields [OF s1(1)] by blast
    with 2(1) [OF refl False s1] show ?thesis by auto
  qed
qed

lemma mine_result:
  assumes "mine sha s = Some (s', b)"
  shows "\<exists>n. s' = s\<lparr>c_nonce := n\<rparr>"
    and "b_height b \<noteq> 0 \<Longrightarrow> b_miner b = c_nodeid s \<and> b_prev_hash b = get_current_hash sha s \<and>
      b_height b = length (c_blockchain s) + 1 \<and> compare_le (block_hash sha b) target"
  using mine_loop_result [OF assms [unfolded mine_def]] by auto

lemma chain_reach_ok: "chain_reach sha s \<Longrightarrow> chain_ok sha s"
proof (induction rule: chain_reach.induct)
  case (init nodeid)
  then show ?case by (simp add: chain_ok_def stored_ok_def init_node_def)
next
  case (blob s connected parse p blob)
  have "chain_ok sha (fst (on_hello s p name))" for name
    using blob.IH by (simp add: on_hello_def Let_def chain_ok_def)
  with blob.IH show ?case
    by (simp add: s_on_blob_received_def chain_ok_on_block split: wire_msg.split)
next
  case (update s connected s' msgs)
  then obtain s1 b where m: "mine sha s = Some (s1, b)"
    "(s', msgs) = (if b_height b \<noteq> 0 then on_block sha connected s1 0 b else (s1, []))"
    by (auto simp: s_update_def bind_eq_Some_conv)
  have "chain_ok sha s1" using mine_result(1) [OF m(1)] update.IH by (auto simp: chain_ok_def)
  with m(2) chain_ok_on_block [OF this, of connected 0 b] show ?case by (metis fst_conv)
next
  case (connected s p)
  then show ?case by (simp add: s_on_connected_def chain_ok_def)
next
  case (disconnected s p)
  then show ?case by (simp add: s_on_disconnected_def chain_ok_def)
qed

end
