(* ===== verification/Blockchain_Properties.thy ===== *)
theory Blockchain_Properties
  imports Blockchain
begin

text \<open>The properties of the blockchain node.\<close>

section \<open>The main chain\<close>

lemma compare_le_refl: "compare_le s s"
  by (induction s) auto

text \<open>C22: whatever messages a node receives, connections it gets and blocks it mines, its main chain is a
  chain of stored blocks with heights 1, 2, 3 and so on from the genesis hash, each with proof of work and
  the hash of the one below, and no stored block is higher than it.\<close>

theorem main_chain_valid:
  assumes "chain_reach sha s"
  shows "(\<forall>i<length (c_blockchain s). \<exists>b. c_blocks s (c_blockchain s ! i) = Some b \<and>
      c_blockchain s ! i = block_hash sha b \<and> compare_le (block_hash sha b) target \<and> b_height b = i + 1 \<and>
      b_prev_hash b = (if i = 0 then genesis_hash sha else c_blockchain s ! (i - 1))) \<and>
    (\<forall>h b. c_blocks s h = Some b \<longrightarrow> b_height b \<le> length (c_blockchain s))"
proof -
  have ok: "chain_ok sha s" by (rule chain_reach_ok [OF assms])
  have "\<exists>b. c_blocks s (c_blockchain s ! i) = Some b \<and>
      c_blockchain s ! i = block_hash sha b \<and> compare_le (block_hash sha b) target \<and> b_height b = i + 1 \<and>
      b_prev_hash b = (if i = 0 then genesis_hash sha else c_blockchain s ! (i - 1))"
    if i: "i < length (c_blockchain s)" for i
  proof -
    from ok i have "link_ok sha (c_blocks s) (c_blockchain s) i" by (simp add: chain_ok_def)
    then obtain b where b: "c_blocks s (c_blockchain s ! i) = Some b" "b_height b = i + 1"
      "b_prev_hash b = (if i = 0 then genesis_hash sha else c_blockchain s ! (i - 1))"
      by (auto simp: link_ok_def)
    from ok b(1) have "block_ok sha (c_blocks s) (c_blockchain s ! i) b"
      by (simp add: chain_ok_def stored_ok_def)
    with b show ?thesis by (auto simp: block_ok_def default_block_def)
  qed
  with ok show ?thesis by (auto simp: chain_ok_def)
qed

theorem main_chain_valid_witness:
  "\<exists>s b. chain_reach (\<lambda>_. target) s \<and> c_blocks s (c_blockchain s ! 0) = Some b \<and> b_height b = 1 \<and>
     c_blockchain s ! 0 = block_hash (\<lambda>_. target) b \<and> b_prev_hash b = genesis_hash (\<lambda>_. target)"
proof -
  let ?s = "fst (s_on_blob_received (\<lambda>_. target) [] (\<lambda>_. Block \<lparr>b_miner = ''m'', b_prev_hash = target,
    b_height = 1, b_nonce = ''x''\<rparr>) (init_node ''n'') 1 [])"
  have r: "chain_reach (\<lambda>_. target) ?s" by (rule chain_reach.blob [OF chain_reach.init])
  have "0 < length (c_blockchain ?s)"
    by (simp add: s_on_blob_received_def on_block_def validate_block_def Let_def
      init_node_def block_hash_def genesis_hash_def compare_le_refl)
  with main_chain_valid [OF r] r show ?thesis by force
qed

lemma chain_block_props:
  assumes ok: "chain_ok sha s" and i: "i < length (c_blockchain s)"
  shows "c_blocks s (c_blockchain s ! i) = Some (get_block s (c_blockchain s ! i))"
    and "b_height (get_block s (c_blockchain s ! i)) = i + 1"
    and "b_prev_hash (get_block s (c_blockchain s ! i)) = (if i = 0 then genesis_hash sha else c_blockchain s ! (i - 1))"
    and "block_hash sha (get_block s (c_blockchain s ! i)) = c_blockchain s ! i"
    and "compare_le (c_blockchain s ! i) target"
proof -
  from ok i have "link_ok sha (c_blocks s) (c_blockchain s) i" by (simp add: chain_ok_def)
  then obtain b where b: "c_blocks s (c_blockchain s ! i) = Some b" "b_height b = i + 1"
    "b_prev_hash b = (if i = 0 then genesis_hash sha else c_blockchain s ! (i - 1))"
    by (auto simp: link_ok_def)
  then have "block_ok sha (c_blocks s) (c_blockchain s ! i) b" using ok by (simp add: chain_ok_def stored_ok_def)
  with b show "c_blocks s (c_blockchain s ! i) = Some (get_block s (c_blockchain s ! i))"
    "b_height (get_block s (c_blockchain s ! i)) = i + 1"
    "b_prev_hash (get_block s (c_blockchain s ! i)) = (if i = 0 then genesis_hash sha else c_blockchain s ! (i - 1))"
    "block_hash sha (get_block s (c_blockchain s ! i)) = c_blockchain s ! i"
    "compare_le (c_blockchain s ! i) target"
    by (auto simp: block_ok_def default_block_def get_block_def)
qed

text \<open>The last \<open>n\<close> hashes of the branch that ends with the block of hash \<open>h\<close>: that block and its ancestors.\<close>

fun branch :: "(string \<rightharpoonup> block) \<Rightarrow> nat \<Rightarrow> string \<Rightarrow> string list" where
  "branch m 0 h = []"
| "branch m (Suc n) h = branch m n (case m h of None \<Rightarrow> [] | Some b \<Rightarrow> b_prev_hash b) @ [h]"

lemma take_chain_branch:
  assumes ok: "chain_ok sha s"
  shows "n < length (c_blockchain s) \<Longrightarrow> take (Suc n) (c_blockchain s) = branch (c_blocks s) (Suc n) (c_blockchain s ! n)"
proof (induction n)
  case 0
  then show ?case by (simp add: take_Suc_conv_app_nth)
next
  case (Suc n)
  then have IH: "take (Suc n) (c_blockchain s) = branch (c_blocks s) (Suc n) (c_blockchain s ! n)" by simp
  note b = chain_block_props(1,3) [OF ok Suc.prems]
  have "take (Suc (Suc n)) (c_blockchain s) = take (Suc n) (c_blockchain s) @ [c_blockchain s ! Suc n]"
    by (rule take_Suc_conv_app_nth [OF Suc.prems])
  also have "\<dots> = branch (c_blocks s) (Suc (Suc n)) (c_blockchain s ! Suc n)"
    unfolding IH branch.simps(2) [of _ "Suc n"] using b by simp
  finally show ?case .
qed

text \<open>C23: a block that is accepted and one higher than the main chain becomes its head, whatever branch it is on:
  the block is stored, the whole main chain is then the branch of its ancestors, of which the elements below
  the fork stay, and the node sends what lies above the fork to its other peers.\<close>

theorem on_block_new_head:
  assumes "chain_reach sha s" and "snd (validate_block sha s b) = VALID"
    and "b_height b = length (c_blockchain s) + 1"
  shows "\<exists>s' k. on_block sha connected s p b = (s', gossip connected s' p (k + 1)) \<and>
    length (c_blockchain s') = b_height b \<and> c_blocks s' (block_hash sha b) = Some b \<and>
    c_blockchain s' = branch (c_blocks s') (b_height b) (block_hash sha b) \<and>
    take k (c_blockchain s') = take k (c_blockchain s)"
proof -
  have ok: "chain_ok sha s" by (rule chain_reach_ok [OF assms(1)])
  from ok show ?thesis
  proof (cases rule: on_block_cases [where connected = connected and p = p and b = b])
    case (head chain k)
    let ?s = "s\<lparr>c_blocks := (c_blocks s)(block_hash sha b \<mapsto> b), c_blockchain := chain\<rparr>"
    have "chain ! length (c_blockchain s) = block_hash sha b"
      using head(3,4) by (cases chain rule: rev_cases) (auto simp: nth_append)
    with take_chain_branch [OF head(2), of "length (c_blockchain s)"] head(3)
    have "chain = branch (c_blocks ?s) (Suc (length (c_blockchain s))) (block_hash sha b)" by (simp del: branch.simps)
    moreover have "take k chain = take k (c_blockchain s)"
      using head(3,5,6) by (intro nth_equalityI) auto
    ultimately show ?thesis using head(1,3) assms(3)
      by (intro exI [of _ ?s] exI [of _ k]) (simp del: branch.simps)
  qed (use assms in auto)
qed

text \<open>A first block, under a hash function whose every value meets the target.\<close>

definition first_block :: block where
  "first_block = \<lparr>b_miner = ''m'', b_prev_hash = target, b_height = 1, b_nonce = []\<rparr>"

lemma first_block_valid: "snd (validate_block (\<lambda>_. target) (init_node ''n'') first_block) = VALID"
  by (simp add: validate_block_def init_node_def first_block_def block_hash_def genesis_hash_def compare_le_refl)

theorem on_block_new_head_witness:
  "\<exists>s' k. on_block (\<lambda>_. target) [2] (init_node ''n'') 1 first_block = (s', gossip [2] s' 1 (k + 1)) \<and>
     c_blocks s' (block_hash (\<lambda>_. target) first_block) = Some first_block \<and>
     c_blockchain s' = branch (c_blocks s') 1 (block_hash (\<lambda>_. target) first_block)"
  using on_block_new_head [OF chain_reach.init first_block_valid, of "[2]" 1]
  by (auto simp: init_node_def first_block_def simp del: branch.simps)

section \<open>Synchronisation\<close>

text \<open>A node that gets the given messages from peer \<open>p\<close>, in order.\<close>

definition deliver :: "(string \<Rightarrow> string) \<Rightarrow> nat list \<Rightarrow> nat \<Rightarrow> sent \<Rightarrow> chain_node \<Rightarrow> chain_node" where
  "deliver sha connected p msgs r =
     foldl (\<lambda>r (_, m). fst (s_on_blob_received sha connected (\<lambda>_. m) r p [])) r msgs"

lemma deliver_Block:
  "deliver sha connected p ((q, Block b) # msgs) r = deliver sha connected p msgs (fst (on_block sha connected r p b))"
  by (simp add: deliver_def s_on_blob_received_def)

lemma sync_step:
  assumes ok: "chain_ok sha s" and r: "chain_ok sha r"
    and chain: "c_blockchain r = take k (c_blockchain s)" and k: "k < length (c_blockchain s)"
    and blocks: "c_blocks r = c_blocks s |` set (take k (c_blockchain s))"
  shows "let r' = fst (on_block sha connected r p (get_block s (c_blockchain s ! k))) in
    c_blockchain r' = take (Suc k) (c_blockchain s) \<and>
    c_blocks r' = c_blocks s |` set (take (Suc k) (c_blockchain s)) \<and> chain_ok sha r'"
proof -
  let ?b = "get_block s (c_blockchain s ! k)" and ?C = "c_blockchain s"
  note b = chain_block_props [OF ok k]
  have len: "length (c_blockchain r) = k" using chain k by simp
  have new: "?C ! k \<notin> set (take k ?C)"
  proof
    assume "?C ! k \<in> set (take k ?C)"
    then obtain j where j: "j < k" "?C ! j = ?C ! k" using k by (auto simp: in_set_conv_nth)
    have "b_height (get_block s (?C ! j)) = j + 1" using chain_block_props(2) [OF ok, of j] j k by simp
    then show False using b(2) j by simp
  qed
  have prev: "b_prev_hash ?b = get_current_hash sha r"
  proof (cases k)
    case (Suc j)
    then have "c_blockchain r \<noteq> []" "last (c_blockchain r) = ?C ! j"
      using chain k by (auto simp: take_Suc_conv_app_nth)
    then show ?thesis using b(3) Suc by (simp add: get_current_hash_def)
  qed (use b(3) chain in \<open>simp add: get_current_hash_def\<close>)
  have "fst (on_block sha connected r p ?b) = r\<lparr>c_blocks := (c_blocks r)(?C ! k \<mapsto> ?b),
      c_blockchain := c_blockchain r @ [?C ! k]\<rparr>"
    using on_block_extend [OF r prev] b(2,4,5) len new by (simp add: blocks restrict_map_def)
  moreover have "(c_blocks r)(?C ! k \<mapsto> ?b) = c_blocks s |` set (take (Suc k) ?C)"
    using b(1) k by (auto simp: blocks restrict_map_def take_Suc_conv_app_nth fun_eq_iff)
  ultimately show ?thesis
    using chain_ok_on_block [OF r, of connected p ?b] k chain by (simp add: Let_def take_Suc_conv_app_nth)
qed

lemma sync_prefix:
  assumes ok: "chain_ok sha s"
  shows "chain_ok sha r \<Longrightarrow> c_blockchain r = take k (c_blockchain s) \<Longrightarrow> k \<le> length (c_blockchain s) \<Longrightarrow>
    c_blocks r = c_blocks s |` set (take k (c_blockchain s)) \<Longrightarrow>
    c_blockchain (deliver sha connected p (concat (map (send_block s q) (drop k (c_blockchain s)))) r) = c_blockchain s"
proof (induction "length (c_blockchain s) - k" arbitrary: k r)
  case 0
  then show ?case by (simp add: deliver_def)
next
  case (Suc n)
  then have k: "k < length (c_blockchain s)" by simp
  let ?h = "c_blockchain s ! k"
  have "send_block s q ?h = [(q, Block (get_block s ?h))]"
    using chain_block_props(2) [OF ok k] by (simp add: send_block_def Let_def)
  then have e: "concat (map (send_block s q) (drop k (c_blockchain s))) =
      (q, Block (get_block s ?h)) # concat (map (send_block s q) (drop (Suc k) (c_blockchain s)))"
    using Cons_nth_drop_Suc [OF k] by (metis append_Cons append_Nil concat.simps(2) list.simps(9))
  note st = sync_step [OF ok Suc.prems(1,2) k Suc.prems(4), of connected p]
  show ?case unfolding e deliver_Block
    by (rule Suc.hyps(1)) (use st Suc.hyps(2) k in \<open>auto simp: Let_def\<close>)
qed

text \<open>C24: a new node that greets another and gets its blocks in return ends with the same main chain.\<close>

theorem new_peer_synchronises:
  assumes "chain_reach sha s"
  shows "c_blockchain (deliver sha connected p (snd (on_hello s q name)) (init_node nodeid)) = c_blockchain s"
proof -
  have ok: "chain_ok sha s" by (rule chain_reach_ok [OF assms])
  have r: "chain_ok sha (init_node nodeid)" by (rule chain_reach_ok [OF chain_reach.init])
  let ?s = "s\<lparr>c_peer_names := (c_peer_names s)(q \<mapsto> name)\<rparr>"
  have ok': "chain_ok sha ?s" using ok by (simp add: chain_ok_def)
  have "snd (on_hello s q name) = concat (map (send_block ?s q) (drop 0 (c_blockchain ?s)))"
    by (simp add: on_hello_def send_blocks_def Let_def)
  with sync_prefix [OF ok' r, of 0 connected p q] show ?thesis
    by (simp add: init_node_def restrict_map_def)
qed

theorem new_peer_synchronises_witness:
  "\<exists>s. c_blockchain s \<noteq> [] \<and> chain_reach (\<lambda>_. target) s \<and>
     c_blockchain (deliver (\<lambda>_. target) [] 1 (snd (on_hello s 2 ''x'')) (init_node ''y'')) = c_blockchain s"
proof -
  let ?s = "fst (s_on_blob_received (\<lambda>_. target) [] (\<lambda>_. Block first_block) (init_node ''n'') 1 [])"
  have r: "chain_reach (\<lambda>_. target) ?s" by (rule chain_reach.blob [OF chain_reach.init])
  have "c_blockchain ?s \<noteq> []"
    by (simp add: s_on_blob_received_def on_block_def validate_block_def Let_def
      init_node_def first_block_def block_hash_def genesis_hash_def compare_le_refl)
  with r new_peer_synchronises [OF r, of "[]" 1 2 "''x''" "''y''"] show ?thesis by blast
qed

section \<open>Mining\<close>

lemma be_value_snoc: "be_value (s @ [c]) = 256 * be_value s + of_char c"
  by (simp add: be_value_def)

lemma increment_from_spec:
  "i < length n \<Longrightarrow>
   (case increment_from n i of
      None \<Rightarrow> \<forall>j\<le>i. n ! j = CHR 0xFF
    | Some n' \<Rightarrow> length n' = length n \<and> be_value (take (Suc i) n') = be_value (take (Suc i) n) + 1 \<and>
        drop (Suc i) n' = drop (Suc i) n)"
proof (induction i arbitrary: n)
  case 0
  then obtain c cs where n: "n = c # cs" by (cases n) auto
  show ?case
  proof (cases "of_char c < (255::nat)")
    case True
    then have "of_char (char_of (of_char c + 1 :: nat) :: char) = (of_char c + 1 :: nat)" by simp
    then show ?thesis using True n by (subst increment_from.simps) (simp add: be_value_def)
  next
    case False
    then have "c = CHR 0xFF" using of_char_le [of c] by (intro char_eqI) simp
    then show ?thesis using n by (subst increment_from.simps) simp
  qed
next
  case (Suc i)
  let ?c = "n ! Suc i"
  have split: "take (Suc (Suc i)) n = take (Suc i) n @ [?c]" using Suc.prems by (simp add: take_Suc_conv_app_nth)
  show ?case
  proof (cases "of_char ?c < (255::nat)")
    case True
    let ?d = "char_of (of_char ?c + 1 :: nat)"
    have d: "of_char ?d = (of_char ?c + 1 :: nat)" using True by simp
    have "take (Suc (Suc i)) (n[Suc i := ?d]) = take (Suc i) n @ [?d]"
      using Suc.prems by (simp add: take_Suc_conv_app_nth)
    then show ?thesis using True d Suc.prems split
      by (subst increment_from.simps) (simp add: be_value_snoc)
  next
    case False
    then have ff: "?c = CHR 0xFF" using of_char_le [of ?c] by (intro char_eqI) simp
    let ?n = "n[Suc i := char_of (0::nat)]"
    have inc: "increment_from n (Suc i) = increment_from ?n i"
      using False by (subst increment_from.simps) simp
    have IH: "case increment_from ?n i of None \<Rightarrow> \<forall>j\<le>i. ?n ! j = CHR 0xFF
      | Some n' \<Rightarrow> length n' = length ?n \<and> be_value (take (Suc i) n') = be_value (take (Suc i) ?n) + 1 \<and>
        drop (Suc i) n' = drop (Suc i) ?n"
      by (rule Suc.IH) (use Suc.prems in simp)
    show ?thesis
    proof (cases "increment_from ?n i")
      case None
      with IH have "\<forall>j\<le>Suc i. n ! j = CHR 0xFF" using ff by (auto simp: le_Suc_eq)
      then show ?thesis using inc None by simp
    next
      case (Some n')
      with IH have n': "length n' = length n" "be_value (take (Suc i) n') = be_value (take (Suc i) n) + 1"
        "drop (Suc i) n' = drop (Suc i) ?n" by auto
      have "n' ! Suc i = ?n ! Suc i"
        using n'(1,3) Suc.prems by (metis hd_drop_conv_nth length_list_update)
      then have "take (Suc (Suc i)) n' = take (Suc i) n' @ [char_of (0::nat)]"
        using n'(1) Suc.prems by (simp add: take_Suc_conv_app_nth)
      moreover have "drop (Suc (Suc i)) n' = drop (Suc (Suc i)) n"
        using n'(3) by (metis drop_Suc drop_update_cancel lessI tl_drop)
      ultimately show ?thesis using inc Some n' split ff by (simp add: be_value_snoc)
    qed
  qed
qed

text \<open>\<open>increment_nonce\<close> adds one to the nonce read as a big-endian number; for the nonce with all bits
  set, and only for it, it runs past the front of the array.\<close>

theorem increment_nonce_adds_one:
  assumes "length (c_nonce s) = 16"
  shows "case increment_nonce s of
      None \<Rightarrow> c_nonce s = replicate 16 CHR 0xFF
    | Some s' \<Rightarrow> \<exists>n. s' = s\<lparr>c_nonce := n\<rparr> \<and> length n = 16 \<and> be_value n = be_value (c_nonce s) + 1"
proof -
  note sp = increment_from_spec [of 15 "c_nonce s"]
  show ?thesis
  proof (cases "increment_from (c_nonce s) 15")
    case None
    with sp assms have "\<forall>j<16. c_nonce s ! j = CHR 0xFF" by (simp add: less_Suc_eq_le [of _ 15, simplified])
    then have "c_nonce s = replicate 16 CHR 0xFF" using assms by (intro nth_equalityI) simp_all
    then show ?thesis using None by (simp add: increment_nonce_def)
  next
    case (Some n)
    then show ?thesis using sp assms by (auto simp: increment_nonce_def)
  qed
qed

theorem increment_nonce_adds_one_witness:
  "\<exists>n. increment_nonce (init_node ''n'') = Some ((init_node ''n'')\<lparr>c_nonce := n\<rparr>) \<and> be_value n = 1"
proof -
  have "be_value (c_nonce (init_node ''n'')) = 0" by code_simp
  moreover have "c_nonce (init_node ''n'') \<noteq> replicate 16 CHR 0xFF" by code_simp
  moreover have "length (c_nonce (init_node ''n'')) = 16" by (simp add: init_node_def)
  ultimately show ?thesis
    using increment_nonce_adds_one [of "init_node ''n''"] by (auto split: option.splits)
qed

text \<open>C25: a block that \<open>mine\<close> returns with a height is valid for the node that mined it and becomes the new
  head of its main chain, without changing the chain below; the only other thing mining changes is the
  nonce.\<close>

theorem mined_block_extends_chain:
  assumes "chain_reach sha s" and "mine sha s = Some (s', b)" and "b_height b \<noteq> 0"
    and "c_blocks s (block_hash sha b) = None"
  shows "c_blockchain (fst (on_block sha connected s' 0 b)) = c_blockchain s @ [block_hash sha b]"
proof -
  note m = mine_result [OF assms(2)]
  from m(1) obtain n where s': "s' = s\<lparr>c_nonce := n\<rparr>" by blast
  have "chain_ok sha s'" using chain_reach_ok [OF assms(1)] s' by (simp add: chain_ok_def)
  from on_block_extend [OF this, of b connected 0] m(2) [OF assms(3)] assms(4) s'
  show ?thesis by (simp add: get_current_hash_def)
qed

theorem mined_block_extends_chain_witness:
  "\<exists>s' b. mine (\<lambda>_. target) (init_node ''n'') = Some (s', b) \<and> b_height b = 1 \<and>
     c_blockchain (fst (on_block (\<lambda>_. target) [] s' 0 b)) = [block_hash (\<lambda>_. target) b]"
proof -
  let ?b = "\<lparr>b_miner = ''n'', b_prev_hash = target, b_height = 1, b_nonce = c_nonce (init_node ''n'')\<rparr>"
  have "mine_attempts = Suc 9999" by (simp add: mine_attempts_def)
  moreover have "mine_loop (\<lambda>_. target) (Suc 9999) (init_node ''n'') (?b\<lparr>b_nonce := []\<rparr>) = Some (init_node ''n'', ?b)"
    by (simp only: mine_loop.simps) (simp add: block_hash_def compare_le_refl Let_def)
  ultimately have m: "mine (\<lambda>_. target) (init_node ''n'') = Some (init_node ''n'', ?b)"
    by (simp add: mine_def get_current_hash_def genesis_hash_def init_node_def del: mine_loop.simps)
  from mined_block_extends_chain [OF chain_reach.init m, of "[]"] m show ?thesis by (simp add: init_node_def)
qed

section \<open>Balances\<close>

text \<open>\<open>collect_balances\<close> counts, for every miner, the blocks of the main chain it mined, as a 32 bit
  number.\<close>

theorem collect_balances_counts:
  "collect_balances s m = length (filter (\<lambda>h. b_miner (get_block s h) = m) (c_blockchain s)) mod 2 ^ 32"
proof -
  have "foldl (\<lambda>m h. let b = get_block s h in m(b_miner b := (m (b_miner b) + 1) mod 2 ^ 32)) f hs m =
      (f m + length (filter (\<lambda>h. b_miner (get_block s h) = m) hs)) mod 2 ^ 32"
    if "f m < 2 ^ 32" for f hs
    using that
  proof (induction hs arbitrary: f)
    case (Cons h hs)
    let ?f = "f(b_miner (get_block s h) := (f (b_miner (get_block s h)) + 1) mod 2 ^ 32)"
    have "?f m < 2 ^ 32" using Cons.prems by simp
    from Cons.IH [of ?f, OF this] show ?case by (simp add: Let_def mod_simps)
  qed simp
  from this [of "\<lambda>_. 0" "c_blockchain s"] show ?thesis by (simp add: collect_balances_def)
qed

section \<open>Flaws\<close>

text \<open>a rejected block leaves a trace. A block of height 2 on the genesis hash makes \<open>validate_block\<close>
  store an empty block of height 0 under the genesis hash; for that one \<open>s_debug_html\<close> computes the index
  \<open>2 ^ 64 - 1\<close> of the main chain.\<close>

theorem rejected_block_breaks_debug_html:
  assumes "b_prev_hash b = genesis_hash sha" and "b_height b = 2" and "compare_le (block_hash sha b) target"
  shows "let s = fst (on_block sha connected (init_node nodeid) p b) in
    snd (validate_block sha (init_node nodeid) b) = INVALID \<and>
    c_blocks s (genesis_hash sha) = Some default_block \<and> debug_on_main s (genesis_hash sha) default_block = None"
  using assms
  by (simp add: on_block_def validate_block_def init_node_def blocks_at_def default_block_def Let_def
    debug_on_main_def)

theorem rejected_block_breaks_debug_html_witness:
  "\<exists>b s. s = fst (on_block (\<lambda>_. target) [] (init_node ''n'') 1 b) \<and>
     debug_on_main s (genesis_hash (\<lambda>_. target)) default_block = None"
  using rejected_block_breaks_debug_html
    [of "\<lparr>b_miner = [], b_prev_hash = target, b_height = 2, b_nonce = []\<rparr>" "\<lambda>_. target" "[]" "''n''" 1]
  by (auto simp: genesis_hash_def block_hash_def compare_le_refl Let_def)

text \<open>the bytes that are hashed for a block do not separate its fields, so that blocks of different
  heights have the same hash, whatever the hash function.\<close>

theorem block_data_ambiguous:
  "\<exists>b b'. b_height b = 1 \<and> b_height b' = 12 \<and> b_prev_hash b = b_prev_hash b' \<and>
     (\<forall>sha. block_hash sha b = block_hash sha b')"
proof (intro exI conjI allI)
  let ?b = "\<lparr>b_miner = ''m'', b_prev_hash = [], b_height = 1, b_nonce = ''2''\<rparr>"
  let ?b' = "\<lparr>b_miner = ''m'', b_prev_hash = [], b_height = 12, b_nonce = []\<rparr>"
  have "block_data ?b = block_data ?b'" by code_simp
  then show "block_hash sha ?b = block_hash sha ?b'" for sha by (simp add: block_hash_def)
qed simp_all

end
