(* ===== verification/Dummy_State.thy ===== *)
theory Dummy_State
  imports State_Session "HOL-Library.RBT" "HOL-Library.Char_ord" "HOL-Library.List_Lexorder"
begin

text \<open>
  The reference implementation of a state, \<^verbatim>\<open>core/state/dummy_state.cc\<close>: the committed values and the pending
  changes, each in an ordered map (\<^verbatim>\<open>std::map\<close>, here a red-black tree) over strings, which are compared byte by
  byte as unsigned numbers. A pending empty value stands for a key that is to be removed. The hash gets the
  keys and values one after the other.
\<close>

section \<open>Operations\<close>

record dummy_state =
  ds_data :: "(string, string) rbt"
  ds_pending :: "(string, string) rbt"

definition dummy_new :: dummy_state where
  "dummy_new = \<lparr>ds_data = RBT.empty, ds_pending = RBT.empty\<rparr>"

definition dummy_get :: "dummy_state \<Rightarrow> string \<Rightarrow> string" where
  "dummy_get s key =
     (case RBT.lookup (ds_pending s) key of
        Some v \<Rightarrow> v
      | None \<Rightarrow> (case RBT.lookup (ds_data s) key of Some v \<Rightarrow> v | None \<Rightarrow> []))"

definition dummy_set :: "dummy_state \<Rightarrow> string \<Rightarrow> string \<Rightarrow> dummy_state" where
  "dummy_set s key value = s\<lparr>ds_pending := RBT.insert key value (RBT.delete key (ds_pending s))\<rparr>"

definition dummy_get_node_hash :: "(string \<Rightarrow> string) \<Rightarrow> dummy_state \<Rightarrow> string \<Rightarrow> string" where
  "dummy_get_node_hash H s path =
     (if RBT.entries (ds_data s) = [] then []
      else H (concat (map (\<lambda>(k, v). k @ v) (RBT.entries (ds_data s)))))"

definition dummy_get_node_children :: "dummy_state \<Rightarrow> string \<Rightarrow> string list" where
  "dummy_get_node_children s path = []"

text \<open>The entries from \<open>lower_bound(path)\<close> up to \<open>upper_bound(path + "\xFF")\<close>.\<close>

definition in_range :: "string \<Rightarrow> string \<Rightarrow> bool" where
  "in_range path k \<longleftrightarrow> path \<le> k \<and> k \<le> path @ [char_of (255::nat)]"

definition range_entries :: "(string, string) rbt \<Rightarrow> string \<Rightarrow> (string \<times> string) list" where
  "range_entries t path = filter (\<lambda>(k, v). in_range path k) (RBT.entries t)"

text \<open>
  The second loop erases the entry its iterator stands on and goes on with the iterator, which is
  undefined (\<open>None\<close>), as soon as a pending value of the range is not empty.
\<close>

definition dummy_delete_node_tree :: "dummy_state \<Rightarrow> string \<Rightarrow> dummy_state option" where
  "dummy_delete_node_tree s path =
     (let p = fold (\<lambda>(k, v) p. RBT.insert k [] (RBT.delete k p)) (range_entries (ds_data s) path) (ds_pending s)
      in if \<forall>(k, v) \<in> set (range_entries p path). v = [] then Some (s\<lparr>ds_pending := p\<rparr>) else None)"

definition dummy_commit_changes :: "dummy_state \<Rightarrow> dummy_state" where
  "dummy_commit_changes s =
     s\<lparr>ds_data := fold (\<lambda>(k, v) d. let d = RBT.delete k d in if v = [] then d else RBT.insert k v d)
         (RBT.entries (ds_pending s)) (ds_data s),
       ds_pending := RBT.empty\<rparr>"

definition dummy_discard_changes :: "dummy_state \<Rightarrow> dummy_state" where
  "dummy_discard_changes s = s\<lparr>ds_pending := RBT.empty\<rparr>"

section \<open>The map a state stands for\<close>

text \<open>The map of the calls so far, and the map of the last commit.\<close>

definition dummy_rep :: "dummy_state \<Rightarrow> (string \<Rightarrow> string) \<Rightarrow> bool" where
  "dummy_rep s m \<longleftrightarrow> (\<forall>k. dummy_get s k = m k)"

definition dummy_saved :: "dummy_state \<Rightarrow> string \<Rightarrow> string" where
  "dummy_saved s k = (case RBT.lookup (ds_data s) k of Some v \<Rightarrow> v | None \<Rightarrow> [])"

lemma dummy_get_set [simp]: "dummy_get (dummy_set s k v) k' = (if k' = k then v else dummy_get s k')"
  by (simp add: dummy_get_def dummy_set_def split: option.split)

lemma dummy_saved_set [simp]: "dummy_saved (dummy_set s k v) = dummy_saved s"
  by (simp add: dummy_saved_def dummy_set_def fun_eq_iff)

text \<open>The contract of \<^verbatim>\<open>state.h\<close>; setting the empty value removes a key.\<close>

interpretation dummy: state_contract dummy_rep "\<lambda>s k. Some (dummy_get s k)"
  "\<lambda>s k v. Some (return (dummy_set s k v))" "\<lambda>s k. Some (return (dummy_set s k []))"
  by unfold_locales (auto simp: dummy_rep_def)

lemma fold_commit_lookup:
  "distinct (map fst kvs) \<Longrightarrow>
   RBT.lookup (fold (\<lambda>(k, v) d. let d = RBT.delete k d in if v = [] then d else RBT.insert k v d) kvs d) k =
     (case map_of kvs k of Some v \<Rightarrow> (if v = [] then None else Some v) | None \<Rightarrow> RBT.lookup d k)"
proof (induction kvs arbitrary: d)
  case (Cons kv kvs)
  obtain k' v' where kv: "kv = (k', v')" by force
  have "map_of kvs k' = None" using Cons.prems kv by (simp add: map_of_eq_None_iff)
  then show ?case using Cons kv by (auto simp: Let_def split: option.split)
qed simp

lemma dummy_commit_fields:
  "dummy_get (dummy_commit_changes s) k = dummy_get s k" "dummy_saved (dummy_commit_changes s) k = dummy_get s k"
proof -
  have "map_of (RBT.entries (ds_pending s)) = RBT.lookup (ds_pending s)" by (rule map_of_entries)
  then have "RBT.lookup (ds_data (dummy_commit_changes s)) k =
      (case RBT.lookup (ds_pending s) k of Some v \<Rightarrow> (if v = [] then None else Some v) | None \<Rightarrow> RBT.lookup (ds_data s) k)"
    by (simp add: dummy_commit_changes_def fold_commit_lookup distinct_entries)
  moreover have "ds_pending (dummy_commit_changes s) = RBT.empty" by (simp add: dummy_commit_changes_def)
  ultimately show "dummy_get (dummy_commit_changes s) k = dummy_get s k"
    "dummy_saved (dummy_commit_changes s) k = dummy_get s k"
    by (auto simp: dummy_get_def dummy_saved_def split: option.splits)
qed

lemma dummy_discard_fields:
  "dummy_get (dummy_discard_changes s) k = dummy_saved s k" "dummy_saved (dummy_discard_changes s) k = dummy_saved s k"
  by (auto simp: dummy_get_def dummy_saved_def dummy_discard_changes_def)

section \<open>The trie agrees with the reference\<close>

text \<open>A trie and a reference state that stand for the same map, with the same map committed.\<close>

definition agree :: "hash_function \<Rightarrow> state_impl \<Rightarrow> dummy_state \<Rightarrow> bool" where
  "agree H s d \<longleftrightarrow> session H s (dummy_get d) (dummy_saved d)"

lemma agree_steps:
  "agree H initial_state dummy_new"
  "agree H s d \<Longrightarrow> state_get s k = Some (dummy_get d k)"
  "agree H s d \<Longrightarrow> v \<noteq> [] \<Longrightarrow> \<exists>s'. state_set H s k v = Some (return s') \<and> agree H s' (dummy_set d k v)"
  "agree H s d \<Longrightarrow> k \<noteq> [] \<or> branching (dummy_get d) [] \<Longrightarrow> dummy_get d k \<noteq> [] \<Longrightarrow>
     \<exists>s'. erase H s k = Some (return s') \<and> agree H s' (dummy_set d k [])"
  "agree H s d \<Longrightarrow> free_locations s = {i..<length (nodes s)} \<Longrightarrow> \<exists>s'. commit_changes s = Some s' \<and> agree H s' (dummy_commit_changes d)"
  "agree H s d \<Longrightarrow> \<exists>s1 s'. discard_changes s = Some s1 \<and> commit_changes s1 = Some s' \<and>
     agree H s' (dummy_discard_changes d)"
proof -
  show "agree H initial_state dummy_new"
    unfolding agree_def dummy_get_def dummy_saved_def dummy_new_def
    using session.new [OF state_impl_new_initial, of H] by simp
next
  assume a: "agree H s d"
  then have s: "session H s (dummy_get d) (dummy_saved d)" by (simp add: agree_def)
  note r = session_represents [OF s]
  show "state_get s k = Some (dummy_get d k)" by (rule impl.get_rep [OF r])
  show "\<exists>s'. state_set H s k v = Some (return s') \<and> agree H s' (dummy_set d k v)" if v: "v \<noteq> []"
  proof -
    obtain s' where s': "state_set H s k v = Some (return s')" using impl.set_rep [OF r v] by blast
    moreover have "dummy_get (dummy_set d k v) = (dummy_get d)(k := v)" by auto
    ultimately show ?thesis using session.set [OF s v s'] by (simp add: agree_def)
  qed
  show "\<exists>s'. erase H s k = Some (return s') \<and> agree H s' (dummy_set d k [])" if k: "k \<noteq> [] \<or> branching (dummy_get d) []" "dummy_get d k \<noteq> []"
  proof -
    obtain s' where s': "erase H s k = Some (return s')" using erase_represents [OF r k(2,1)] by blast
    moreover have "dummy_get (dummy_set d k []) = (dummy_get d)(k := [])" by auto
    ultimately show ?thesis using session.erase [OF s _ s'] k(1) by (simp add: agree_def)
  qed
  show "\<exists>s'. commit_changes s = Some s' \<and> agree H s' (dummy_commit_changes d)" if f: "free_locations s = {i..<length (nodes s)}"
  proof -
    have "free_locations s = {min i (length (nodes s))..<length (nodes s)}" using f by (auto simp: min_def)
    then obtain s' where s': "commit_changes s = Some s'" using commit_tail by auto
    moreover have "dummy_get (dummy_commit_changes d) = dummy_get d" "dummy_saved (dummy_commit_changes d) = dummy_get d"
      by (simp_all add: fun_eq_iff dummy_commit_fields)
    ultimately show ?thesis using session.commit [OF s f s'] by (simp add: agree_def)
  qed
  show "\<exists>s1 s'. discard_changes s = Some s1 \<and> commit_changes s1 = Some s' \<and> agree H s' (dummy_discard_changes d)"
  proof -
    from session_invariant [OF s] obtain c where "snap c s" by blast
    from discard_restores [OF this] obtain s1 where s1: "discard_changes s = Some s1" "free_locations s1 = {}" by blast
    have f: "free_locations s1 = {length (nodes s1)..<length (nodes s1)}" using s1(2) by simp
    obtain s' where s': "commit_changes s1 = Some s'" using commit_tail [OF f] by simp
    moreover have "dummy_get (dummy_discard_changes d) = dummy_saved d" "dummy_saved (dummy_discard_changes d) = dummy_saved d"
      by (simp_all add: fun_eq_iff dummy_discard_fields)
    ultimately show ?thesis using session.discard [OF s s1(1) s'] s1(1) by (auto simp: agree_def)
  qed
qed

text \<open>C2: the Merkle trie and the reference implementation agree: they start out equal, and as long as both are
  given the same calls every lookup gives the same value. The calls are \<open>set\<close> of a non-empty value; \<open>erase\<close> of a
  key with a value that is not empty, or is empty at a branching root (in the reference, \<open>set\<close> of the empty value);
  \<open>commit_changes\<close> when no free location of the trie lies before a live node; and \<open>discard_changes\<close> followed at
  once by a commit of the trie. \<open>delete_node_tree\<close> is not among them: the two differ there, as the next section
  shows.\<close>

theorem trie_agrees_with_reference:
  "agree H initial_state dummy_new \<and>
   (\<forall>s d k v i. agree H s d \<longrightarrow>
      state_get s k = Some (dummy_get d k) \<and>
      (v \<noteq> [] \<longrightarrow> (\<exists>s'. state_set H s k v = Some (return s') \<and> agree H s' (dummy_set d k v))) \<and>
      ((k \<noteq> [] \<or> branching (dummy_get d) []) \<and> dummy_get d k \<noteq> [] \<longrightarrow>
         (\<exists>s'. erase H s k = Some (return s') \<and> agree H s' (dummy_set d k []))) \<and>
      (free_locations s = {i..<length (nodes s)} \<longrightarrow>
         (\<exists>s'. commit_changes s = Some s' \<and> agree H s' (dummy_commit_changes d))) \<and>
      (\<exists>s1 s'. discard_changes s = Some s1 \<and> commit_changes s1 = Some s' \<and> agree H s' (dummy_discard_changes d)))"
  by (meson agree_steps)

theorem trie_agrees_with_reference_witness:
  "\<exists>s s' s''. state_set (\<lambda>_. ''h'') initial_state ''ab'' ''1'' = Some (return s) \<and>
     erase (\<lambda>_. ''h'') s ''ab'' = Some (return s') \<and> state_get s'' ''ab'' = Some ''1'' \<and>
     agree (\<lambda>_. ''h'') s' (dummy_set (dummy_set dummy_new ''ab'' ''1'') ''ab'' []) \<and>
     commit_changes s = Some s'' \<and> agree (\<lambda>_. ''h'') s'' (dummy_commit_changes (dummy_set dummy_new ''ab'' ''1''))"
proof -
  let ?H = "\<lambda>_. ''h''" and ?d = "dummy_set dummy_new ''ab'' ''1''"
  note start = trie_agrees_with_reference [of ?H, THEN conjunct1]
    and step = trie_agrees_with_reference [of ?H, THEN conjunct2, rule_format]
  obtain s where s: "state_set ?H initial_state ''ab'' ''1'' = Some (return s)" "agree ?H s ?d"
    using step [OF start, of "''ab''" "''1''"] by auto
  obtain s' where s': "erase ?H s ''ab'' = Some (return s')" "agree ?H s' (dummy_set ?d ''ab'' [])"
    using step [OF s(2), of "''ab''"] by auto
  have "map_option (map_sum id free_locations) (state_set ?H initial_state ''ab'' ''1'') = Some (Inr {})" by code_simp
  then have "free_locations s = {length (nodes s)..<length (nodes s)}" using s(1) by simp
  then obtain s'' where s'': "commit_changes s = Some s''" "agree ?H s'' (dummy_commit_changes ?d)"
    using step [OF s(2)] by blast
  have "state_get s'' ''ab'' = Some ''1''" using step [OF s''(2), of "''ab''"] by (simp add: dummy_commit_fields)
  with s s' s'' show ?thesis by blast
qed

section \<open>Deleting a subtree\<close>

lemma in_range_prefix:
  "in_range path k \<longleftrightarrow> prefix path k \<and> \<not> strict_prefix (path @ [char_of (255::nat)]) k"
proof (induction path arbitrary: k)
  case Nil
  have max: "c \<le> char_of (255::nat)" for c
  proof -
    have "of_char c < (256::nat)" by simp
    then have "of_char c \<le> (255::nat)" by linarith
    then show ?thesis by (simp add: less_eq_char_def)
  qed
  show ?case
  proof (cases k)
    case (Cons c cs)
    have "c < char_of (255::nat) \<or> c = char_of (255::nat)" using max [of c] by auto
    then show ?thesis by (cases cs) (auto simp: in_range_def Cons strict_prefix_def)
  qed (simp add: in_range_def)
next
  case (Cons a path)
  show ?case
  proof (cases k)
    case (Cons b k')
    then show ?thesis using Cons.IH [of k'] by (auto simp: in_range_def)
  qed (simp add: in_range_def)
qed

lemma fold_clear_lookup:
  "RBT.lookup (fold (\<lambda>(k, v) p. RBT.insert k [] (RBT.delete k p)) kvs p) k =
     (if k \<in> fst ` set kvs then Some [] else RBT.lookup p k)"
  by (induction kvs arbitrary: p) auto

text \<open>deleting a subtree in the reference implementation, when no pending value below the path is left: every
  key that starts with the path gets the empty value, except those in which the path is followed by the
  byte 255 and more; these, and all other keys, keep their value.\<close>

theorem dummy_delete_keeps_ff:
  assumes "dummy_delete_node_tree s path = Some s'"
  shows "dummy_get s' k =
    (if prefix path k \<and> \<not> strict_prefix (path @ [char_of (255::nat)]) k then [] else dummy_get s k)"
proof -
  let ?p = "fold (\<lambda>(k, v) p. RBT.insert k [] (RBT.delete k p)) (range_entries (ds_data s) path) (ds_pending s)"
  have p: "s' = s\<lparr>ds_pending := ?p\<rparr>" "\<forall>(k, v) \<in> set (range_entries ?p path). v = []"
    using assms by (auto simp: dummy_delete_node_tree_def Let_def split: if_splits)
  have dom: "k \<in> fst ` set (range_entries (ds_data s) path) \<longleftrightarrow> in_range path k \<and> RBT.lookup (ds_data s) k \<noteq> None"
    by (force simp: range_entries_def lookup_in_tree)
  have "v = []" if "in_range path k" "RBT.lookup ?p k = Some v" for v
  proof -
    have "(k, v) \<in> set (range_entries ?p path)" using that by (simp add: range_entries_def lookup_in_tree)
    with p(2) show ?thesis by blast
  qed
  then show ?thesis unfolding in_range_prefix [symmetric]
    using dom fold_clear_lookup [of "range_entries (ds_data s) path" "ds_pending s" k]
    by (auto simp: dummy_get_def p(1) split: option.splits)
qed

theorem dummy_delete_keeps_ff_witness:
  "\<exists>s'. dummy_delete_node_tree (dummy_commit_changes (fold (\<lambda>k d. dummy_set d k ''1'')
       [''a'', ''ab'', ''b'', CHR ''a'' # char_of (255::nat) # ''c''] dummy_new)) ''a'' = Some s' \<and>
     dummy_get s' ''ab'' = [] \<and> dummy_get s' ''b'' = ''1'' \<and> dummy_get s' (CHR ''a'' # char_of (255::nat) # ''c'') = ''1''"
proof -
  let ?s = "dummy_commit_changes (fold (\<lambda>k d. dummy_set d k ''1'')
       [''a'', ''ab'', ''b'', CHR ''a'' # char_of (255::nat) # ''c''] dummy_new)"
  have "dummy_delete_node_tree ?s ''a'' \<noteq> None" by code_simp
  then obtain s' where s': "dummy_delete_node_tree ?s ''a'' = Some s'" by blast
  from dummy_delete_keeps_ff [OF s', of "''ab''"] dummy_delete_keeps_ff [OF s', of "''b''"]
    dummy_delete_keeps_ff [OF s', of "CHR ''a'' # char_of (255::nat) # ''c''"] s'
  show ?thesis by (auto simp: dummy_commit_fields strict_prefix_def)
qed

text \<open>A pending value below the path makes the call undefined.\<close>

lemma dummy_delete_pending_undefined:
  "dummy_delete_node_tree (dummy_set dummy_new ''ab'' ''1'') ''a'' = None"
  by code_simp

end
