(* ===== verification/Smart_Protocol.thy ===== *)
theory Smart_Protocol
  imports Prelude
begin

text \<open>
  Smart protocols, \<^verbatim>\<open>core/smartproto/smart_protocol.cc\<close>: a registry of protocols, each with the files of
  its scripts, its commands and two maps between the wire identifiers of its messages and the schema
  identifiers of its message factory. Parameters: the parsed \<^verbatim>\<open>config.json\<close>, the reader of files and the
  factory's \<open>get_schema_id\<close> after the schemas of the protocol are imported. Shown: the two maps are inverse
  to each other when the wire messages have different schemas, and which entry wins when they do not.
\<close>

section \<open>Data\<close>

record cmd =
  cmd_name :: string
  cmd_input_type :: string
  cmd_output_type :: string

text \<open>The fields of \<^verbatim>\<open>config.json\<close> that \<open>load\<close> reads; \<open>cf_text\<close> is the whole file.\<close>

record config =
  cf_text :: string
  cf_update_time_slice :: nat
  cf_schemas :: "string list"
  cf_files :: "(string \<times> string list) list"
  cf_wire_msgs :: "string list"
  cf_commands :: "(string \<times> string \<times> string) list"

record smart_protocol =
  sp_update_time_slice :: nat
  sp_files :: "(string \<times> (string \<rightharpoonup> string)) list"
  sp_msgs_defs :: "string \<rightharpoonup> string"
  sp_schemas :: "string list"
  sp_wire_msgs :: "string list"
  sp_commands :: "cmd list"
  sp_config_json :: string
  sp_wire_to_factory :: "int \<rightharpoonup> int"
  sp_factory_to_wire :: "int \<rightharpoonup> int"

type_synonym protocols = "(string \<times> smart_protocol) list"

definition empty_protocol :: smart_protocol where
  "empty_protocol = \<lparr>sp_update_time_slice = 0, sp_files = [], sp_msgs_defs = Map.empty, sp_schemas = [],
     sp_wire_msgs = [], sp_commands = [], sp_config_json = [], sp_wire_to_factory = Map.empty,
     sp_factory_to_wire = Map.empty\<rparr>"

section \<open>Operations\<close>

definition get_protocol :: "protocols \<Rightarrow> string \<Rightarrow> smart_protocol option" where
  "get_protocol ps proto_id = map_of ps proto_id"

definition list_protocols :: "protocols \<Rightarrow> string list" where
  "list_protocols ps = map fst ps"

text \<open>
  The loops of \<open>load\<close>: the schema files, the files of each type (\<^verbatim>\<open>insert\<close> keeps the first of two equal
  types), and the wire identifiers. \<open>get_file_contents\<close> throws for a file it cannot read.
\<close>

fun load_schemas ::
  "(string \<Rightarrow> string throws) \<Rightarrow> string \<Rightarrow> string list \<Rightarrow> smart_protocol \<Rightarrow> smart_protocol throws" where
  "load_schemas get_file_contents path [] p = return p"
| "load_schemas get_file_contents path (f # fs) p =
     (case get_file_contents (path @ f) of
        Inl e \<Rightarrow> throw e
      | Inr c \<Rightarrow> load_schemas get_file_contents path fs
          (p\<lparr>sp_msgs_defs := (sp_msgs_defs p)(f \<mapsto> c), sp_schemas := sp_schemas p @ [c]\<rparr>))"

fun extract_files ::
  "(string \<Rightarrow> string throws) \<Rightarrow> string \<Rightarrow> string list \<Rightarrow> (string \<rightharpoonup> string) \<Rightarrow> (string \<rightharpoonup> string) throws" where
  "extract_files get_file_contents path [] m = return m"
| "extract_files get_file_contents path (f # fs) m =
     (case get_file_contents (path @ f) of
        Inl e \<Rightarrow> throw e
      | Inr c \<Rightarrow> extract_files get_file_contents path fs (m(f \<mapsto> c)))"

fun load_files ::
  "(string \<Rightarrow> string throws) \<Rightarrow> string \<Rightarrow> (string \<times> string list) list \<Rightarrow> smart_protocol \<Rightarrow> smart_protocol throws" where
  "load_files get_file_contents path [] p = return p"
| "load_files get_file_contents path ((t, fs) # r) p =
     (case extract_files get_file_contents path fs Map.empty of
        Inl e \<Rightarrow> throw e
      | Inr m \<Rightarrow> load_files get_file_contents path r
          (if t \<in> fst ` set (sp_files p) then p else p\<lparr>sp_files := sp_files p @ [(t, m)]\<rparr>))"

fun load_wire_msgs :: "(string \<Rightarrow> nat throws) \<Rightarrow> string list \<Rightarrow> int \<Rightarrow> smart_protocol \<Rightarrow> smart_protocol throws" where
  "load_wire_msgs get_schema_id [] wire_id p = return p"
| "load_wire_msgs get_schema_id (m # ms) wire_id p =
     (case get_schema_id m of
        Inl e \<Rightarrow> throw e
      | Inr factory_id \<Rightarrow> load_wire_msgs get_schema_id ms (wire_id + 1)
          (p\<lparr>sp_factory_to_wire := (sp_factory_to_wire p)(int factory_id \<mapsto> wire_id),
             sp_wire_to_factory := (sp_wire_to_factory p)(wire_id \<mapsto> int factory_id)\<rparr>))"

text \<open>
  \<open>read_config\<close> opens and parses \<^verbatim>\<open>config.json\<close>: \<open>None\<close> when it cannot be opened. The result is the
  registry and the returned flag, or the exception that leaves \<open>load\<close>.
\<close>

definition load ::
  "(string \<Rightarrow> config option) \<Rightarrow> (string \<Rightarrow> string throws) \<Rightarrow> (smart_protocol \<Rightarrow> string \<Rightarrow> nat throws) \<Rightarrow>
   protocols \<Rightarrow> string \<Rightarrow> string \<Rightarrow> (protocols \<times> bool) throws" where
  "load read_config get_file_contents get_schema_id ps proto_id path =
     (if proto_id \<in> fst ` set ps then return (ps, False)
      else case read_config (path @ ''config.json'') of
        None \<Rightarrow> return (ps, False)
      | Some j \<Rightarrow>
          (let p = empty_protocol\<lparr>sp_config_json := cf_text j, sp_update_time_slice := cf_update_time_slice j,
                 sp_wire_msgs := cf_wire_msgs j,
                 sp_commands := map (\<lambda>(n, i, out). \<lparr>cmd_name = n, cmd_input_type = i, cmd_output_type = out\<rparr>)
                   (cf_commands j)\<rparr>
           in case load_schemas get_file_contents path (cf_schemas j) p of
             Inl e \<Rightarrow> throw e
           | Inr p \<Rightarrow>
               (case load_files get_file_contents path (cf_files j) p of
                  Inl e \<Rightarrow> throw e
                | Inr p \<Rightarrow>
                    (case load_wire_msgs (get_schema_id p) (sp_wire_msgs p) 0 p of
                       Inl e \<Rightarrow> throw e
                     | Inr p \<Rightarrow> return ((proto_id, p) # ps, True)))))"

definition get_msgs_definitions :: "smart_protocol \<Rightarrow> string \<rightharpoonup> string" where
  "get_msgs_definitions p = sp_msgs_defs p"

definition get_schemas :: "smart_protocol \<Rightarrow> string list" where
  "get_schemas p = sp_schemas p"

text \<open>All files of all types for the empty type; \<^verbatim>\<open>insert\<close> keeps the entry that is there.\<close>

definition get_files :: "smart_protocol \<Rightarrow> string \<Rightarrow> string \<rightharpoonup> string" where
  "get_files p files_type =
     (if files_type = [] then foldl (\<lambda>result (t, m). m ++ result) Map.empty (sp_files p)
      else case map_of (sp_files p) files_type of Some m \<Rightarrow> m | None \<Rightarrow> Map.empty)"

definition get_wire_msgs :: "smart_protocol \<Rightarrow> string list" where
  "get_wire_msgs p = sp_wire_msgs p"

definition get_commands :: "smart_protocol \<Rightarrow> string list" where
  "get_commands p = map cmd_name (sp_commands p)"

definition get_configuration_file :: "smart_protocol \<Rightarrow> string" where
  "get_configuration_file p = sp_config_json p"

definition get_update_time_slice :: "smart_protocol \<Rightarrow> nat" where
  "get_update_time_slice p = sp_update_time_slice p"

definition get_wire_from_factory :: "smart_protocol \<Rightarrow> int \<Rightarrow> int" where
  "get_wire_from_factory p msg_schema_id = (case sp_factory_to_wire p msg_schema_id of Some w \<Rightarrow> w | None \<Rightarrow> - 1)"

definition get_factory_from_wire :: "smart_protocol \<Rightarrow> int \<Rightarrow> int" where
  "get_factory_from_wire p wire_id = (case sp_wire_to_factory p wire_id of Some f \<Rightarrow> f | None \<Rightarrow> - 1)"

section \<open>The wire maps\<close>

text \<open>
  What the loop over the wire messages leaves, for messages whose schema identifiers are all known: the
  identifiers from \<open>k\<close> on, with the later message winning where two have the same schema.
\<close>

lemma load_wire_msgs_fields:
  "load_wire_msgs gid ms k p = Inr q \<Longrightarrow> sp_files q = sp_files p \<and> sp_wire_msgs q = sp_wire_msgs p \<and>
     sp_commands q = sp_commands p \<and> sp_update_time_slice q = sp_update_time_slice p"
  by (induction ms arbitrary: k p) (fastforce split: sum.splits)+

lemma load_wire_msgs_wire:
  assumes "load_wire_msgs gid ms k p = Inr q"
  shows "sp_wire_to_factory q w =
     (if k \<le> w \<and> w < k + int (length ms) then
        (case gid (ms ! nat (w - k)) of Inr f \<Rightarrow> Some (int f) | Inl _ \<Rightarrow> None)
      else sp_wire_to_factory p w)"
  using assms
proof (induction ms arbitrary: k p)
  case (Cons m ms)
  obtain f where f: "gid m = Inr f" using Cons.prems by (auto split: sum.splits)
  define p' where "p' = p\<lparr>sp_factory_to_wire := (sp_factory_to_wire p)(int f \<mapsto> k),
    sp_wire_to_factory := (sp_wire_to_factory p)(k \<mapsto> int f)\<rparr>"
  have "load_wire_msgs gid ms (k + 1) p' = Inr q" using Cons.prems f by (simp add: p'_def)
  note IH = Cons.IH [OF this]
  consider "w = k" | "w < k \<or> k + int (length (m # ms)) \<le> w" | "k < w" "w < k + int (length (m # ms))" by linarith
  then show ?case
  proof cases
    case 3
    then have "nat (w - k) = Suc (nat (w - (k + 1)))" by linarith
    then have "(m # ms) ! nat (w - k) = ms ! nat (w - (k + 1))" by simp
    with 3 IH show ?thesis by simp
  qed (use IH f in \<open>auto simp: p'_def\<close>)
qed auto

text \<open>A schema the messages do not have keeps its entry; the last message of a schema gives the entry.\<close>

lemma load_wire_msgs_factory:
  assumes "load_wire_msgs gid ms k p = Inr q"
  shows "(Inr f \<notin> gid ` set ms \<longrightarrow> sp_factory_to_wire q (int f) = sp_factory_to_wire p (int f)) \<and>
    (\<forall>i < length ms. gid (ms ! i) = Inr f \<and> (\<forall>j < length ms. i < j \<longrightarrow> gid (ms ! j) \<noteq> Inr f) \<longrightarrow>
      sp_factory_to_wire q (int f) = Some (k + int i))"
  using assms
proof (induction ms arbitrary: k p)
  case (Cons m ms)
  obtain g where g: "gid m = Inr g" using Cons.prems by (auto split: sum.splits)
  define p' where "p' = p\<lparr>sp_factory_to_wire := (sp_factory_to_wire p)(int g \<mapsto> k),
    sp_wire_to_factory := (sp_wire_to_factory p)(k \<mapsto> int g)\<rparr>"
  have "load_wire_msgs gid ms (k + 1) p' = Inr q" using Cons.prems g by (simp add: p'_def)
  note IH = Cons.IH [OF this]
  have "sp_factory_to_wire q (int f) = Some (k + int i)"
    if i: "i < length (m # ms)" "gid ((m # ms) ! i) = Inr f"
      "\<forall>j < length (m # ms). i < j \<longrightarrow> gid ((m # ms) ! j) \<noteq> Inr f" for i
  proof (cases i)
    case 0
    have "Inr f \<notin> gid ` set ms"
    proof
      assume "Inr f \<in> gid ` set ms"
      then obtain j where "j < length ms" "gid (ms ! j) = Inr f" by (metis imageE in_set_conv_nth)
      with i(3) 0 show False by force
    qed
    then have "sp_factory_to_wire q (int f) = sp_factory_to_wire p' (int f)" using IH by simp
    with i(2) 0 g show ?thesis by (simp add: p'_def)
  next
    case (Suc i')
    have "\<forall>j < length ms. i' < j \<longrightarrow> gid (ms ! j) \<noteq> Inr f" using i(3) Suc by force
    with IH i Suc show ?thesis by simp
  qed
  moreover have "sp_factory_to_wire q (int f) = sp_factory_to_wire p (int f)" if "Inr f \<notin> gid ` set (m # ms)"
  proof -
    have "f \<noteq> g" "Inr f \<notin> gid ` set ms" using that g by auto
    with IH show ?thesis by (simp add: p'_def)
  qed
  ultimately show ?case by blast
qed simp

text \<open>A protocol in the registry has the maps that its list of wire messages gives.\<close>

lemma load_protocol:
  assumes "load rc gfc gid ps i path = Inr (ps', True)"
  obtains j p q where "rc (path @ ''config.json'') = Some j" and "ps' = (i, q) # ps"
    and "i \<notin> fst ` set ps" and "load_wire_msgs (gid p) (cf_wire_msgs j) 0 p = Inr q"
    and "sp_wire_to_factory p = Map.empty" and "sp_factory_to_wire p = Map.empty"
    and "sp_wire_msgs q = cf_wire_msgs j"
proof -
  have schemas: "load_schemas gfc path fs p = Inr q \<Longrightarrow> sp_wire_msgs q = sp_wire_msgs p \<and>
      sp_wire_to_factory q = sp_wire_to_factory p \<and> sp_factory_to_wire q = sp_factory_to_wire p" for fs p q
    by (induction fs arbitrary: p) (fastforce split: sum.splits)+
  have files: "load_files gfc path fs p = Inr q \<Longrightarrow> sp_wire_msgs q = sp_wire_msgs p \<and>
      sp_wire_to_factory q = sp_wire_to_factory p \<and> sp_factory_to_wire q = sp_factory_to_wire p" for fs p q
  proof (induction fs arbitrary: p)
    case (Cons tf fs)
    then show ?case by (cases tf) (fastforce split: sum.splits if_splits)
  qed simp
  from assms obtain j p1 p2 q where j: "rc (path @ ''config.json'') = Some j" "i \<notin> fst ` set ps"
    and p: "load_files gfc path (cf_files j) p1 = Inr p2" "load_wire_msgs (gid p2) (sp_wire_msgs p2) 0 p2 = Inr q"
      "ps' = (i, q) # ps"
    and p1: "load_schemas gfc path (cf_schemas j) (empty_protocol\<lparr>sp_config_json := cf_text j,
      sp_update_time_slice := cf_update_time_slice j, sp_wire_msgs := cf_wire_msgs j,
      sp_commands := map (\<lambda>(n, i, out). \<lparr>cmd_name = n, cmd_input_type = i, cmd_output_type = out\<rparr>) (cf_commands j)\<rparr>) = Inr p1"
    unfolding load_def Let_def by (auto split: if_splits option.splits sum.splits)
  from schemas [OF p1] files [OF p(1)]
  have "sp_wire_msgs p2 = cf_wire_msgs j" "sp_wire_to_factory p2 = Map.empty" "sp_factory_to_wire p2 = Map.empty"
    by (simp_all add: empty_protocol_def)
  moreover from load_wire_msgs_fields [OF p(2)] have "sp_wire_msgs q = sp_wire_msgs p2" by simp
  ultimately show thesis using that j p by simp
qed

end
