(* ===== verification/Network.thy ===== *)
theory Network
  imports Prelude
begin

text \<open>
  The vocabulary of \<^verbatim>\<open>core/network/connection.h\<close> and \<^verbatim>\<open>acceptor.h\<close>, which the node and the simulated
  network share: the states of connections and acceptors, and the registries through which both are created
  by the name of their type. Objects are named by numbers. Shown: what creation gives after a registration.
\<close>

datatype conn_state = Invalid_state | Connecting | Connected | Disconnected

datatype acc_state = Acc_invalid_state | Accepting | Not_accepting

text \<open>A factory function gets the identifier, the address and the handlers; it may throw.\<close>

type_synonym conn_factory = "nat \<Rightarrow> string \<Rightarrow> nat \<Rightarrow> nat throws"
type_synonym acc_factory = "nat \<Rightarrow> string \<Rightarrow> nat \<Rightarrow> nat \<Rightarrow> nat throws"

definition register_connection_type :: "(string \<rightharpoonup> conn_factory) \<Rightarrow> string \<Rightarrow> conn_factory \<Rightarrow> string \<rightharpoonup> conn_factory" where
  "register_connection_type fs ty func = fs(ty \<mapsto> func)"

definition connection_create ::
  "(string \<rightharpoonup> conn_factory) \<Rightarrow> string \<Rightarrow> nat \<Rightarrow> string \<Rightarrow> nat \<Rightarrow> nat option throws" where
  "connection_create fs ty i address handler =
     (case fs ty of Some f \<Rightarrow> map_sum id Some (f i address handler) | None \<Rightarrow> return None)"

definition register_acceptor_type :: "(string \<rightharpoonup> acc_factory) \<Rightarrow> string \<Rightarrow> acc_factory \<Rightarrow> string \<rightharpoonup> acc_factory" where
  "register_acceptor_type fs ty func = fs(ty \<mapsto> func)"

definition acceptor_create ::
  "(string \<rightharpoonup> acc_factory) \<Rightarrow> string \<Rightarrow> nat \<Rightarrow> string \<Rightarrow> nat \<Rightarrow> nat \<Rightarrow> nat option throws" where
  "acceptor_create fs ty i address handler connections_handler =
     (case fs ty of Some f \<Rightarrow> map_sum id Some (f i address handler connections_handler) | None \<Rightarrow> return None)"

lemma connection_create_registered [simp]:
  "connection_create (register_connection_type fs ty f) ty' i a h =
     (if ty' = ty then map_sum id Some (f i a h) else connection_create fs ty' i a h)"
  by (simp add: connection_create_def register_connection_type_def)

lemma acceptor_create_registered [simp]:
  "acceptor_create (register_acceptor_type fs ty f) ty' i a h k =
     (if ty' = ty then map_sum id Some (f i a h k) else acceptor_create fs ty' i a h k)"
  by (simp add: acceptor_create_def register_acceptor_type_def)

end
