(* ===== verification/Node.thy ===== *)
theory Node
  imports Bytes Status Hex_IO Smart_Protocol Network "HOL-Library.AList"
begin

text \<open>
  The node base class, \<^verbatim>\<open>core/node/node.cc\<close> and \<^verbatim>\<open>node.h\<close>: the table of known peers and the set of
  connected ones, the framing of messages, the handlers the network calls, the registry of running nodes,
  logging and the update loop with its queue of tasks.

  Every operation is a function of the state of the node. Calls that leave the node (on connections and
  acceptors, and the virtual functions of the concrete node) are returned as a list of \<open>action\<close>s in the
  order of the calls. A connection is named by a number; \<open>cs\<close> gives its current state and \<open>bufs\<close> the
  contents of the read buffers, both owned by the network. A null connection that is dereferenced gives
  \<open>None\<close>. The mutexes of the source make each operation atomic; they are not modelled.
\<close>

section \<open>State\<close>

record peer_info =
  pi_id :: nat
  pi_address :: string
  pi_connection :: "nat option"
  pi_buffer :: nat

record net_node =
  n_nodeid :: string
  n_protoid :: string
  n_peer_ids :: nat
  n_update_time_slice :: nat
  n_time_to_update :: nat
  n_acceptor :: "nat option"
  n_known_peers :: "(nat \<times> peer_info) list"
  n_connected_peers :: "nat set"
  n_logs :: "(string \<times> string list) list"
  n_tasks :: "nat list"

datatype action =
    Async_send nat string nat
  | Async_read nat nat nat nat nat
  | Conn_connect nat
  | Conn_disconnect nat
  | Start_accepting nat
  | Stop_accepting nat
  | S_on_blob_received nat string
  | S_on_msg_sent nat nat status
  | S_on_connected nat
  | S_on_disconnected nat
  | S_on_error nat string

definition max_message_size :: nat where "max_message_size = 256"
definition header_bytes :: nat where "header_bytes = 3"
definition waiting_header :: nat where "waiting_header = 1"
definition waiting_message :: nat where "waiting_message = 2"

definition default_peer_info :: peer_info where
  "default_peer_info = \<lparr>pi_id = 0, pi_address = [], pi_connection = None, pi_buffer = 0\<rparr>"

definition node_new :: "protocols \<Rightarrow> string \<Rightarrow> string \<Rightarrow> net_node throws" where
  "node_new ps nodeid proto_id =
     (case get_protocol ps proto_id of
        None \<Rightarrow> throw (Invalid_argument (''No such protocol: '' @ proto_id))
      | Some proto \<Rightarrow> return \<lparr>n_nodeid = nodeid, n_protoid = proto_id, n_peer_ids = 0,
          n_update_time_slice = get_update_time_slice proto, n_time_to_update = 0, n_acceptor = None,
          n_known_peers = [], n_connected_peers = {}, n_logs = [], n_tasks = []\<rparr>)"

section \<open>Accessors\<close>

definition get_id :: "net_node \<Rightarrow> string" where "get_id s = n_nodeid s"

definition get_protocol_id :: "net_node \<Rightarrow> string" where "get_protocol_id s = n_protoid s"

definition node_get_acceptor :: "net_node \<Rightarrow> nat option" where "node_get_acceptor s = n_acceptor s"

definition get_time_to_update :: "net_node \<Rightarrow> nat" where "get_time_to_update s = n_time_to_update s"

definition get_peer_info :: "net_node \<Rightarrow> nat \<Rightarrow> peer_info" where
  "get_peer_info s pid = (case map_of (n_known_peers s) pid of None \<Rightarrow> default_peer_info | Some p \<Rightarrow> p)"

definition list_known_peers :: "net_node \<Rightarrow> nat list" where
  "list_known_peers s = map fst (n_known_peers s)"

definition list_connected_peers :: "net_node \<Rightarrow> nat set" where
  "list_connected_peers s = n_connected_peers s"

definition get_next_peer_id :: "net_node \<Rightarrow> net_node \<times> nat" where
  "get_next_peer_id s = (let i = (n_peer_ids s + 1) mod 2 ^ 32 in (s\<lparr>n_peer_ids := i\<rparr>, i))"

section \<open>Addresses\<close>

text \<open>
  \<^verbatim>\<open>regex_match\<close> with \<^verbatim>\<open>(.+)://(.+)\<close>: the first group is greedy, so that the last possible separator
  counts, and a dot matches everything but a line terminator.
\<close>

definition line_terminator :: "char \<Rightarrow> bool" where
  "line_terminator c = (c = CHR 0x0A \<or> c = CHR 0x0D)"

definition separator_at :: "string \<Rightarrow> nat \<Rightarrow> bool" where
  "separator_at s i = (take 3 (drop i s) = ''://'' \<and> i + 3 < length s)"

fun split_last :: "string \<Rightarrow> nat \<Rightarrow> (string \<times> string) option" where
  "split_last s 0 = None"
| "split_last s (Suc i) =
     (if separator_at s (Suc i) then Some (take (Suc i) s, drop (Suc i + 3) s)
      else split_last s i)"

definition address_parser :: "string \<Rightarrow> (string \<times> string) option" where
  "address_parser s = (if list_ex line_terminator s then None else split_last s (length s))"

section \<open>Peers\<close>

definition find_address :: "net_node \<Rightarrow> string \<Rightarrow> nat option" where
  "find_address s address = map_option fst (find (\<lambda>(i, p). pi_address p = address) (n_known_peers s))"

text \<open>
  \<open>create\<close> is \<open>connection::create\<close> with this node as the handler. A connection whose \<open>init\<close> fails or throws
  is kept. \<open>buffer\<close> names the read buffer that is allocated.
\<close>

definition add_peer :: "(string \<Rightarrow> nat \<Rightarrow> string \<Rightarrow> nat option throws) \<Rightarrow> nat \<Rightarrow> net_node \<Rightarrow> string \<Rightarrow> net_node \<times> nat" where
  "add_peer create buffer s address =
     (case find_address s address of
        Some i \<Rightarrow> (s, i)
      | None \<Rightarrow>
          (let (s, i) = get_next_peer_id s;
               new_connection = (case address_parser address of
                   None \<Rightarrow> None
                 | Some (protocol, addr) \<Rightarrow> (case create protocol i addr of Inl e \<Rightarrow> None | Inr c \<Rightarrow> c));
               info = \<lparr>pi_id = i, pi_address = address, pi_connection = new_connection, pi_buffer = buffer\<rparr>
           in (s\<lparr>n_known_peers := AList.update i info (n_known_peers s)\<rparr>, i)))"

definition remove_peer :: "net_node \<Rightarrow> nat \<Rightarrow> (net_node \<times> action list) option" where
  "remove_peer s p_id =
     (case map_of (n_known_peers s) p_id of
        None \<Rightarrow> Some (s, [])
      | Some p \<Rightarrow> do {
          acts \<leftarrow> (if p_id \<in> n_connected_peers s then map_option (\<lambda>c. [Conn_disconnect c]) (pi_connection p)
                  else Some []);
          Some (s\<lparr>n_known_peers := AList.delete p_id (n_known_peers s)\<rparr>, acts) })"

definition connect :: "(nat \<Rightarrow> conn_state) \<Rightarrow> net_node \<Rightarrow> nat \<Rightarrow> action list \<times> bool" where
  "connect cs s p_id =
     (if p_id \<in> n_connected_peers s then ([], False)
      else case map_of (n_known_peers s) p_id of
        None \<Rightarrow> ([], False)
      | Some p \<Rightarrow>
          (case pi_connection p of
             None \<Rightarrow> ([], False)
           | Some c \<Rightarrow> if cs c = Disconnected then ([Conn_connect c], True) else ([], False)))"

definition disconnect :: "net_node \<Rightarrow> nat \<Rightarrow> (action list \<times> bool) option" where
  "disconnect s p_id =
     (if p_id \<in> n_connected_peers s then
        (case map_of (n_known_peers s) p_id of
           None \<Rightarrow> Some ([], False)
         | Some p \<Rightarrow> map_option (\<lambda>c. ([Conn_disconnect c], True)) (pi_connection p))
      else Some ([], False))"

text \<open>\<open>create\<close> is \<open>acceptor::create\<close> with this node as both handlers, \<open>init\<close> the acceptor's own.\<close>

definition set_acceptor ::
  "(string \<Rightarrow> nat \<Rightarrow> string \<Rightarrow> nat option throws) \<Rightarrow> (nat \<Rightarrow> bool throws) \<Rightarrow> net_node \<Rightarrow> string \<Rightarrow>
   net_node \<times> action list \<times> bool" where
  "set_acceptor create init s address =
     (case address_parser address of
        None \<Rightarrow> (s, [], False)
      | Some (protocol, addr) \<Rightarrow>
          (case create protocol 1 addr of
             Inl e \<Rightarrow> (s, [], False)
           | Inr None \<Rightarrow> (s, [], False)
           | Inr (Some a) \<Rightarrow>
               (case init a of
                  Inr True \<Rightarrow> (s\<lparr>n_acceptor := Some a\<rparr>, [Start_accepting a], True)
                | _ \<Rightarrow> (s, [], False))))"

section \<open>Sending\<close>

text \<open>The three bytes of the length, most significant first, and the message.\<close>

definition frame :: "string \<Rightarrow> string" where
  "frame blob = (let n = length blob mod 2 ^ 32
     in [char_of (n div 2 ^ 16 mod 256), char_of (n div 2 ^ 8 mod 256), char_of (n mod 256)] @ blob)"

definition send_blob :: "(nat \<Rightarrow> conn_state) \<Rightarrow> net_node \<Rightarrow> nat \<Rightarrow> string \<Rightarrow> nat \<Rightarrow> action list" where
  "send_blob cs s p_id blob msg_id =
     (if length blob mod 2 ^ 32 > max_message_size then
        [S_on_msg_sent p_id msg_id (status_failed_precondition ''Message size is too big!'')]
      else if p_id \<notin> n_connected_peers s then
        [S_on_msg_sent p_id msg_id (status_canceled ''Peer is not connected!'')]
      else case map_of (n_known_peers s) p_id of
        None \<Rightarrow> [S_on_msg_sent p_id msg_id (status_failed_precondition ''Unknown peer!'')]
      | Some p \<Rightarrow>
          (case pi_connection p of
             Some c \<Rightarrow> if cs c = Connected then [Async_send c (frame blob) msg_id] else []
           | None \<Rightarrow> [S_on_msg_sent p_id msg_id (status_not_found ''Not connected!'')]))"

text \<open>
  A message is sent with the wire identifier of its schema as first byte; \<open>serialize\<close> belongs to the
  message. \<open>None\<close> is the failed check for a message that is not part of the protocol.
\<close>

definition send_message ::
  "('m \<Rightarrow> int) \<Rightarrow> ('m \<Rightarrow> string option) \<Rightarrow> smart_protocol \<Rightarrow> (nat \<Rightarrow> conn_state) \<Rightarrow> net_node \<Rightarrow> nat \<Rightarrow> 'm \<Rightarrow> nat \<Rightarrow>
   action list option" where
  "send_message schema_id serialize proto cs s p_id m msg_id =
     (let wire_id = get_wire_from_factory proto (schema_id m)
      in if wire_id > - 1 then
           Some (case serialize m of
              Some msg_blob \<Rightarrow> send_blob cs s p_id (char_of (nat wire_id) # msg_blob) msg_id
            | None \<Rightarrow> [])
         else None)"

text \<open>
  Decoding: the first byte, a signed \<^verbatim>\<open>char\<close>, gives the schema; \<open>None\<close> is the failed check for an unknown one.
  The factory is a function-local static variable, so that the factory of the first protocol that decodes a
  message serves every later call; \<open>static_factory\<close> is that variable, and \<open>deserialize\<close> makes a message of a
  factory from an identifier and the bytes, or throws. The first byte of an empty blob is the terminating
  zero; if the check passes for it, \<^verbatim>\<open>substr(1)\<close> throws, after the static variable has been set.
\<close>

definition get_wire_msg ::
  "('f \<Rightarrow> int \<Rightarrow> string \<Rightarrow> 'm throws) \<Rightarrow> smart_protocol \<Rightarrow> 'f \<Rightarrow> 'f option \<Rightarrow> string \<Rightarrow> ('f option \<times> 'm throws) option" where
  "get_wire_msg deserialize proto proto_factory static_factory blob =
     (let wire_id = (case blob of [] \<Rightarrow> 0 | c # _ \<Rightarrow> schar c);
          msg_id = get_factory_from_wire proto wire_id
      in if msg_id > - 1 then
           (let f = (case static_factory of Some f \<Rightarrow> f | None \<Rightarrow> proto_factory)
            in Some (Some f, case blob of
                 [] \<Rightarrow> throw (Out_of_range ''basic_string::substr'')
               | _ # body \<Rightarrow> deserialize f msg_id body))
         else None)"

section \<open>Handlers called by the network\<close>

definition message_size :: "memory \<Rightarrow> nat" where
  "message_size b = of_char (b 2) + of_char (b 1) * 2 ^ 8 + of_char (b 0) * 2 ^ 16"

definition connected_conn :: "(nat \<Rightarrow> conn_state) \<Rightarrow> net_node \<Rightarrow> nat \<Rightarrow> nat option" where
  "connected_conn cs s c =
     (case map_of (n_known_peers s) c of
        None \<Rightarrow> None
      | Some p \<Rightarrow> (case pi_connection p of
          Some k \<Rightarrow> if cs k = Connected then Some k else None | None \<Rightarrow> None))"

definition error_disconnect :: "net_node \<Rightarrow> nat \<Rightarrow> string \<Rightarrow> action list option" where
  "error_disconnect s c m = map_option (\<lambda>(acts, _). S_on_error c m # acts) (disconnect s c)"

definition on_message_received ::
  "(nat \<Rightarrow> conn_state) \<Rightarrow> (nat \<Rightarrow> memory) \<Rightarrow> net_node \<Rightarrow> nat \<Rightarrow> nat \<Rightarrow> nat \<Rightarrow> nat \<Rightarrow> action list option" where
  "on_message_received cs bufs s c buffer bytes_read mid =
     (if mid = waiting_header then
        (if bytes_read \<noteq> header_bytes then error_disconnect s c ''Wrong header size received''
         else if message_size (bufs buffer) = 0 \<or> message_size (bufs buffer) > max_message_size then
           error_disconnect s c ''Invalid message size!''
         else case connected_conn cs s c of
             Some k \<Rightarrow> Some [Async_read k buffer max_message_size (message_size (bufs buffer)) waiting_message]
           | None \<Rightarrow> error_disconnect s c ''No such peer or peer disconnected!'')
      else if mid = waiting_message then
        (case connected_conn cs s c of
           Some k \<Rightarrow> Some [Async_read k buffer max_message_size header_bytes waiting_header,
               S_on_blob_received c (mem_read (bufs buffer) 0 bytes_read)]
         | None \<Rightarrow> error_disconnect s c ''No such peer or peer disconnected!'')
      else Some [])"

definition on_message_sent :: "net_node \<Rightarrow> nat \<Rightarrow> nat \<Rightarrow> status \<Rightarrow> action list" where
  "on_message_sent s c i st = [S_on_msg_sent c i st]"

definition on_connected :: "net_node \<Rightarrow> nat \<Rightarrow> (net_node \<times> action list) option" where
  "on_connected s c =
     (case map_of (n_known_peers s) c of
        None \<Rightarrow> Some (s, [])
      | Some p \<Rightarrow> do {
          k \<leftarrow> pi_connection p;
          Some (s\<lparr>n_connected_peers := insert c (n_connected_peers s)\<rparr>,
            [Async_read k (pi_buffer p) max_message_size header_bytes waiting_header, S_on_connected c]) })"

definition on_disconnected :: "net_node \<Rightarrow> nat \<Rightarrow> net_node \<times> action list" where
  "on_disconnected s c =
     (if c \<in> n_connected_peers s then
        (s\<lparr>n_connected_peers := n_connected_peers s - {c}\<rparr>, [S_on_disconnected c])
      else (s, []))"

definition on_connection_error :: "net_node \<Rightarrow> nat \<Rightarrow> status \<Rightarrow> action list option" where
  "on_connection_error s c st = error_disconnect s c (''Connection error:: '' @ status_to_string st)"

text \<open>A request is refused, with \<open>None\<close>, when a peer with the same address is known.\<close>

definition on_requested :: "nat \<Rightarrow> net_node \<Rightarrow> nat \<Rightarrow> string \<Rightarrow> net_node \<times> nat option" where
  "on_requested buffer s a address =
     (case find_address s address of
        Some i \<Rightarrow> (s, None)
      | None \<Rightarrow>
          (let (s, i) = get_next_peer_id s;
               info = \<lparr>pi_id = i, pi_address = address, pi_connection = None, pi_buffer = buffer\<rparr>
           in (s\<lparr>n_known_peers := AList.update i info (n_known_peers s)\<rparr>, Some i)))"

text \<open>A connection accepted by the acceptor; \<open>i\<close> is its \<open>get_id\<close>.\<close>

definition on_acceptor_connected :: "net_node \<Rightarrow> nat \<Rightarrow> nat \<Rightarrow> nat \<Rightarrow> string \<Rightarrow> net_node" where
  "on_acceptor_connected s a c i address =
     (case map_of (n_known_peers s) i of
        None \<Rightarrow> s
      | Some p \<Rightarrow> s\<lparr>n_known_peers := AList.update i (p\<lparr>pi_connection := Some c\<rparr>) (n_known_peers s)\<rparr>)"

section \<open>Logs\<close>

text \<open>\<^verbatim>\<open>boost::algorithm::replace_all\<close> for a search text of one character.\<close>

definition replace_all :: "char \<Rightarrow> string \<Rightarrow> string \<Rightarrow> string" where
  "replace_all c r data = concat (map (\<lambda>x. if x = c then r else [x]) data)"

definition html_escape :: "string \<Rightarrow> string" where
  "html_escape data =
     (let data = replace_all CHR ''&'' ''&amp;'' data;
          data = replace_all CHR 0x22 ''&quot;'' data;
          data = replace_all CHR 0x27 ''&apos;'' data;
          data = replace_all CHR ''<'' ''&lt;'' data
      in replace_all CHR ''>'' ''&gt;'' data)"

text \<open>\<open>date\<close> and \<open>ms\<close> are the printed date and the milliseconds of the clock.\<close>

definition log :: "string \<Rightarrow> nat \<Rightarrow> net_node \<Rightarrow> string \<Rightarrow> string \<Rightarrow> net_node" where
  "log date ms s logger m =
     (let entry = ''['' @ date @ ''.'' @ zero_padded (int (ms mod 1000)) 3 @ ''] '' @ m;
          old = (case map_of (n_logs s) logger of None \<Rightarrow> [] | Some l \<Rightarrow> l)
      in s\<lparr>n_logs := AList.update logger (old @ [entry]) (n_logs s)\<rparr>)"

text \<open>
  The page \<open>dump_logs\<close> writes: the fixed head of the page, \<open>header\<close>, a link per log, the debug text of the
  concrete node and the escaped messages.
\<close>

definition log_index :: "(string \<times> string list) list \<Rightarrow> string" where
  "log_index logs = concat (map (\<lambda>(l, _). ''<a class='button' href='#'' @ l @ [CHR 0x27, CHR ''>''] @
     l @ [CHR 0x0A] @ ''</a>'' @ [CHR 0x0A]) logs)"

definition log_sections :: "(string \<times> string list) list \<Rightarrow> string" where
  "log_sections logs = concat (map (\<lambda>(l, ms). ''<br/><span class='button' id='' @ [CHR 0x27] @ l @
     [CHR 0x27, CHR ''>''] @ l @ ''</span>'' @ ''<pre>'' @
     concat (map (\<lambda>m. html_escape m @ [CHR 0x0A]) ms) @ ''</pre>'' @ [CHR 0x0A]) logs)"

definition dump_logs :: "string \<Rightarrow> string \<Rightarrow> net_node \<Rightarrow> string" where
  "dump_logs header s_debug_html s = header @ log_index (n_logs s) @ ''<hr />'' @ [CHR 0x0A] @ s_debug_html @
     ''<hr />'' @ [CHR 0x0A] @ log_sections (n_logs s) @ ''</body></html>'' @ [CHR 0x0A]"

section \<open>Updates\<close>

text \<open>
  Tasks are closures; a number names one, and \<open>run\<close> gives its effect on the node and its result. A result
  that is not empty or an exception ends the program (\<^verbatim>\<open>LOG(FATAL)\<close>), which the flag \<open>False\<close> stands for.
  The loop may go on forever when tasks keep adding tasks.
\<close>

definition node_add_task :: "net_node \<Rightarrow> nat \<Rightarrow> net_node" where
  "node_add_task s t = s\<lparr>n_tasks := n_tasks s @ [t]\<rparr>"

partial_function (option) run_tasks ::
  "(nat \<Rightarrow> net_node \<Rightarrow> net_node \<times> string throws) \<Rightarrow> net_node \<Rightarrow> (net_node \<times> bool) option" where
  "run_tasks run s =
     (case n_tasks s of
        [] \<Rightarrow> Some (s, True)
      | t # ts \<Rightarrow>
          (let (s, result) = run t (s\<lparr>n_tasks := ts\<rparr>)
           in if result = return [] then run_tasks run s else Some (s, False)))"

definition process_update ::
  "(nat \<Rightarrow> net_node \<Rightarrow> net_node) \<Rightarrow> (nat \<Rightarrow> net_node \<Rightarrow> net_node \<times> string throws) \<Rightarrow> net_node \<Rightarrow> nat \<Rightarrow> (net_node \<times> bool) option" where
  "process_update s_update run s current_time =
     run_tasks run (s_update current_time
       (s\<lparr>n_time_to_update := (current_time + n_update_time_slice s) mod 2 ^ 64\<rparr>))"

section \<open>The registry of nodes\<close>

text \<open>\<open>factories\<close> maps a node type to its constructor followed by \<open>init\<close>.\<close>

definition register_node_type ::
  "(string \<rightharpoonup> (string \<Rightarrow> string \<Rightarrow> net_node throws)) \<Rightarrow> string \<Rightarrow> (string \<Rightarrow> string \<Rightarrow> net_node throws) \<Rightarrow>
   string \<rightharpoonup> (string \<Rightarrow> string \<Rightarrow> net_node throws)" where
  "register_node_type fs ty func = fs(ty \<mapsto> func)"

definition node_create ::
  "(string \<rightharpoonup> (string \<Rightarrow> string \<Rightarrow> net_node throws)) \<Rightarrow> string \<Rightarrow> string \<Rightarrow> string \<Rightarrow> net_node option throws" where
  "node_create fs ty i proto_id =
     (case fs ty of None \<Rightarrow> return None | Some f \<Rightarrow> map_sum id Some (f i proto_id))"

definition list_nodes :: "(string \<times> net_node) list \<Rightarrow> string list" where
  "list_nodes nodes = map fst nodes"

definition get_node :: "(string \<times> net_node) list \<Rightarrow> string \<Rightarrow> net_node option" where
  "get_node nodes node_id = map_of nodes node_id"

definition launch_node ::
  "(string \<rightharpoonup> (string \<Rightarrow> string \<Rightarrow> net_node throws)) \<Rightarrow> (string \<Rightarrow> nat \<Rightarrow> string \<Rightarrow> nat option throws) \<Rightarrow>
   (nat \<Rightarrow> bool throws) \<Rightarrow> (string \<times> net_node) list \<Rightarrow> string \<Rightarrow> string \<Rightarrow> string \<Rightarrow> string \<Rightarrow>
   ((string \<times> net_node) list \<times> action list \<times> bool) throws" where
  "launch_node fs create init nodes node_type node_id protocol_id address =
     (if map_of nodes node_id = None then
        (case node_create fs node_type node_id protocol_id of
           Inl e \<Rightarrow> throw e
         | Inr None \<Rightarrow> return (nodes, [], False)
         | Inr (Some n) \<Rightarrow>
             (let (n, acts, res) = set_acceptor create init n address
              in if res then return (AList.update node_id n nodes, acts, True) else return (nodes, acts, False)))
      else return (nodes, [], False))"

text \<open>Every connection of the node is closed; a node without an acceptor dereferences a null pointer.\<close>

definition remove_node :: "(string \<times> net_node) list \<Rightarrow> string \<Rightarrow> ((string \<times> net_node) list \<times> action list) option" where
  "remove_node nodes i =
     (case map_of nodes i of
        None \<Rightarrow> Some (nodes, [])
      | Some n \<Rightarrow> do {
          a \<leftarrow> n_acceptor n;
          Some (AList.delete i nodes, Stop_accepting a #
            concat (map (\<lambda>(_, p). case pi_connection p of Some c \<Rightarrow> [Conn_disconnect c] | None \<Rightarrow> [])
              (n_known_peers n))) })"

end
