(* ===== verification/Node_Properties.thy ===== *)
theory Node_Properties
  imports Node
begin

text \<open>
  Properties of the node: parsing of addresses, escaping of log messages, the table of peers, the wire
  format of messages and the queue of tasks.
\<close>

section \<open>Addresses\<close>

lemma separator_at_iff: "separator_at s i \<longleftrightarrow> (\<exists>p a. s = p @ ''://'' @ a \<and> length p = i \<and> a \<noteq> [])"
proof
  assume at: "separator_at s i"
  have "s = take i s @ take 3 (drop i s) @ drop 3 (drop i s)" by (metis append_take_drop_id)
  with at have "s = take i s @ ''://'' @ drop 3 (drop i s)" unfolding separator_at_def by metis
  moreover have "length (take i s) = i" "drop 3 (drop i s) \<noteq> []" using at by (auto simp: separator_at_def)
  ultimately show "\<exists>p a. s = p @ ''://'' @ a \<and> length p = i \<and> a \<noteq> []" by metis
qed (auto simp: separator_at_def)

lemma split_last_Some:
  "split_last s n = Some (p, a) \<Longrightarrow> separator_at s (length p) \<and> p = take (length p) s \<and> a = drop (length p + 3) s \<and>
     p \<noteq> [] \<and> (\<forall>i. length p < i \<and> i \<le> n \<longrightarrow> \<not> separator_at s i)"
proof (induction n)
  case (Suc n)
  show ?case
  proof (cases "separator_at s (Suc n)")
    case True
    then have pa: "p = take (Suc n) s" "a = drop (Suc n + 3) s" using Suc.prems by auto
    have "Suc n \<le> length s" using True by (simp add: separator_at_def)
    then have "length p = Suc n" using pa by simp
    with pa True show ?thesis by auto
  next
    case False
    with Suc show ?thesis using le_Suc_eq by auto
  qed
qed simp

lemma split_last_None:
  "split_last s n = None \<Longrightarrow> 0 < i \<Longrightarrow> i \<le> n \<Longrightarrow> \<not> separator_at s i"
proof (induction n)
  case (Suc n)
  then show ?case by (cases "i = Suc n") (auto split: if_splits)
qed simp

text \<open>The result of the parser, in terms of the positions of separators.\<close>

lemma address_parser_Some_iff:
  "address_parser s = Some (p, a) \<longleftrightarrow> \<not> list_ex line_terminator s \<and> p \<noteq> [] \<and> separator_at s (length p) \<and>
     p = take (length p) s \<and> a = drop (length p + 3) s \<and> (\<forall>i. separator_at s i \<longrightarrow> i \<le> length p)"
proof
  assume "address_parser s = Some (p, a)"
  then have nl: "\<not> list_ex line_terminator s" and sl: "split_last s (length s) = Some (p, a)"
    by (auto simp: address_parser_def split: if_splits)
  have "i \<le> length p" if "separator_at s i" for i
  proof (rule ccontr)
    assume "\<not> i \<le> length p"
    moreover have "i \<le> length s" using that by (simp add: separator_at_def)
    ultimately show False using split_last_Some [OF sl] that by auto
  qed
  with nl split_last_Some [OF sl]
  show "\<not> list_ex line_terminator s \<and> p \<noteq> [] \<and> separator_at s (length p) \<and>
     p = take (length p) s \<and> a = drop (length p + 3) s \<and> (\<forall>i. separator_at s i \<longrightarrow> i \<le> length p)" by blast
next
  assume r: "\<not> list_ex line_terminator s \<and> p \<noteq> [] \<and> separator_at s (length p) \<and>
     p = take (length p) s \<and> a = drop (length p + 3) s \<and> (\<forall>i. separator_at s i \<longrightarrow> i \<le> length p)"
  then have le: "length p \<le> length s" by (simp add: separator_at_def)
  have "split_last s (length s) \<noteq> None"
    using split_last_None [of s "length s" "length p"] r le length_greater_0_conv by metis
  then obtain p' a' where sl: "split_last s (length s) = Some (p', a')"
    by (cases "split_last s (length s)") auto
  note sp = split_last_Some [OF sl]
  have "length p' \<le> length p" using r sp by blast
  moreover have "\<not> length p' < length p" using sp r le by blast
  ultimately have "length p' = length p" by simp
  then have "p' = p" "a' = a" using sp r by metis+
  with sl r show "address_parser s = Some (p, a)" by (simp add: address_parser_def)
qed

text \<open>\<open>address_parser\<close> accepts exactly the texts without line breaks that have a separator with text on
  both sides, and splits at the last one: the protocol is the longest possible.\<close>

theorem address_parser_spec:
  "address_parser s = Some (p, a) \<longleftrightarrow>
     s = p @ ''://'' @ a \<and> p \<noteq> [] \<and> a \<noteq> [] \<and> \<not> list_ex line_terminator s \<and>
     (\<forall>p' a'. s = p' @ ''://'' @ a' \<longrightarrow> a' \<noteq> [] \<longrightarrow> length p' \<le> length p)"
proof -
  have "(\<forall>i. separator_at s i \<longrightarrow> i \<le> length p) \<longleftrightarrow>
      (\<forall>p' a'. s = p' @ ''://'' @ a' \<longrightarrow> a' \<noteq> [] \<longrightarrow> length p' \<le> length p)"
    unfolding separator_at_iff by blast
  moreover have "separator_at s (length p) \<and> p = take (length p) s \<and> a = drop (length p + 3) s \<longleftrightarrow>
      s = p @ ''://'' @ a \<and> a \<noteq> []"
  proof
    assume r: "separator_at s (length p) \<and> p = take (length p) s \<and> a = drop (length p + 3) s"
    then obtain p' a' where s: "s = p' @ ''://'' @ a'" "length p' = length p" "a' \<noteq> []"
      unfolding separator_at_iff by blast
    then have "p' = p" using r by (metis append_eq_conv_conj)
    with s r show "s = p @ ''://'' @ a \<and> a \<noteq> []" by auto
  qed (auto simp: separator_at_def)
  ultimately show ?thesis unfolding address_parser_Some_iff by blast
qed

theorem address_parser_spec_witness:
  "\<exists>s p a. s = ''tcp://127.0.0.1:123'' \<and> address_parser s = Some (p, a) \<and> p = ''tcp'' \<and> a = ''127.0.0.1:123'' \<and>
     s = p @ ''://'' @ a"
proof -
  have "address_parser ''tcp://127.0.0.1:123'' = Some (''tcp'', ''127.0.0.1:123'')" by code_simp
  then show ?thesis using address_parser_spec [of "''tcp://127.0.0.1:123''" "''tcp''" "''127.0.0.1:123''"] by blast
qed

section \<open>Escaping\<close>

definition escape_char :: "char \<Rightarrow> string" where
  "escape_char c =
     (if c = CHR ''&'' then ''&amp;'' else if c = CHR 0x22 then ''&quot;'' else if c = CHR 0x27 then ''&apos;''
      else if c = CHR ''<'' then ''&lt;'' else if c = CHR ''>'' then ''&gt;'' else [c])"

lemma replace_all_append [simp]: "replace_all c r (xs @ ys) = replace_all c r xs @ replace_all c r ys"
  by (simp add: replace_all_def)

lemma html_escape_append: "html_escape (xs @ ys) = html_escape xs @ html_escape ys"
  by (simp add: html_escape_def Let_def)

lemma html_escape_char: "html_escape [c] = escape_char c"
  by (simp add: html_escape_def Let_def escape_char_def replace_all_def)

text \<open>The five passes are one pass that replaces each character.\<close>

lemma html_escape_concat: "html_escape d = concat (map escape_char d)"
proof (induction d)
  case (Cons c d)
  have "html_escape (c # d) = html_escape [c] @ html_escape d" using html_escape_append [of "[c]" d] by simp
  with Cons show ?case by (simp add: html_escape_char)
qed (simp add: html_escape_def Let_def replace_all_def)

lemma escape_char_prefix_free: "escape_char c @ u = escape_char d @ v \<Longrightarrow> c = d \<and> u = v"
  by (auto simp: escape_char_def split: if_splits)

text \<open>escaping removes every character with a meaning in markup but the ampersand of its own entities,
  and loses nothing: different messages stay different.\<close>

theorem html_escape_safe:
  "set (html_escape d) \<inter> {CHR 0x22, CHR 0x27, CHR ''<'', CHR ''>''} = {} \<and>
   (html_escape d = html_escape e \<longrightarrow> d = e)"
proof
  have "set (escape_char c) \<inter> {CHR 0x22, CHR 0x27, CHR ''<'', CHR ''>''} = {}" for c
    by (auto simp: escape_char_def)
  then show "set (html_escape d) \<inter> {CHR 0x22, CHR 0x27, CHR ''<'', CHR ''>''} = {}"
    by (fastforce simp: html_escape_concat)
  have "concat (map escape_char d) = concat (map escape_char e) \<Longrightarrow> d = e"
  proof (induction d arbitrary: e)
    case Nil
    then show ?case by (cases e) (auto simp: escape_char_def split: if_splits)
  next
    case (Cons c d)
    have "e \<noteq> []" using Cons.prems by (auto simp: escape_char_def split: if_splits)
    then obtain c' e' where e: "e = c' # e'" by (cases e) auto
    with Cons.prems have "escape_char c @ concat (map escape_char d) = escape_char c' @ concat (map escape_char e')"
      by simp
    from escape_char_prefix_free [OF this] Cons.IH e show ?case by simp
  qed
  then show "html_escape d = html_escape e \<longrightarrow> d = e" by (simp add: html_escape_concat)
qed

theorem html_escape_safe_witness:
  "set (html_escape ''a<b'') \<inter> {CHR 0x22, CHR 0x27, CHR ''<'', CHR ''>''} = {} \<and> html_escape ''a<b'' \<noteq> html_escape ''a&lt;b''"
  using html_escape_safe [of "''a<b''" "''a&lt;b''"] by simp

section \<open>The wire format\<close>

text \<open>A protocol that \<open>load\<close> has put into the registry, with wire messages of different schemas.\<close>

definition loaded :: "(string \<Rightarrow> nat throws) \<Rightarrow> smart_protocol \<Rightarrow> bool" where
  "loaded gid q = (\<exists>rc gfc ps ps' i path. load rc gfc (\<lambda>_. gid) ps i path = Inr (ps', True) \<and>
     get_protocol ps' i = Some q \<and> distinct (map gid (get_wire_msgs q)))"

lemma loaded_wire_maps:
  assumes q: "loaded gid q" and k: "k < length (get_wire_msgs q)" and f: "gid (get_wire_msgs q ! k) = Inr f"
  shows "get_factory_from_wire q (int k) = int f" and "get_wire_from_factory q (int f) = int k"
proof -
  from q obtain rc gfc ps ps' i path where l: "load rc gfc (\<lambda>_. gid) ps i path = Inr (ps', True)"
    and gp: "get_protocol ps' i = Some q" and d: "distinct (map gid (get_wire_msgs q))"
    unfolding loaded_def by blast
  obtain j p q' where "rc (path @ ''config.json'') = Some j" and ps': "ps' = (i, q') # ps" and "i \<notin> fst ` set ps"
    and lw: "load_wire_msgs gid (cf_wire_msgs j) 0 p = Inr q'" and "sp_wire_to_factory p = Map.empty"
    and "sp_factory_to_wire p = Map.empty" and ms: "sp_wire_msgs q' = cf_wire_msgs j"
    by (rule load_protocol [OF l])
  have qq: "q' = q" using gp ps' by (simp add: get_protocol_def)
  then have eq: "cf_wire_msgs j = get_wire_msgs q" using ms by (simp add: get_wire_msgs_def)
  show "get_factory_from_wire q (int k) = int f"
    using load_wire_msgs_wire [OF lw, of "int k"] k f eq qq by (simp add: get_factory_from_wire_def)
  have "gid (get_wire_msgs q ! m) \<noteq> Inr f" if "m < length (get_wire_msgs q)" "k < m" for m
    using nth_eq_iff_index_eq [OF d, of k m] k that f by auto
  then have "sp_factory_to_wire q (int f) = Some (int k)"
    using load_wire_msgs_factory [OF lw, of f] k f eq qq by auto
  then show "get_wire_from_factory q (int f) = int k" by (simp add: get_wire_from_factory_def)
qed

lemma schar_small: "k < 128 \<Longrightarrow> schar (char_of k) = int k"
  by (simp add: schar_def)

text \<open>C28: a message of at most 255 bytes, of one of the first 128 wire messages of the protocol, is sent to a
  connected peer as one frame, and the receiver, with the same protocol, decodes the frame with the schema and
  the bytes of the sender; the receiver's process has not decoded messages of another protocol before, whose
  factory would be used again.\<close>

theorem wire_message_round_trip:
  assumes "loaded gid q" and "k < length (get_wire_msgs q)" and "k < 128"
    and "gid (get_wire_msgs q ! k) = Inr f" and "schema_id m = int f" and "serialize m = Some body"
    and "length body < 256"
    and "p \<in> n_connected_peers s" and "map_of (n_known_peers s) p = Some pi" and "pi_connection pi = Some c"
    and "cs c = Connected" and "st = None \<or> st = Some fac"
  shows "send_message schema_id serialize q cs s p m i = Some [Async_send c (frame (char_of k # body)) i] \<and>
    get_wire_msg deserialize q fac st (char_of k # body) = Some (Some fac, deserialize fac (int f) body)"
proof -
  note maps = loaded_wire_maps [OF assms(1,2,4)]
  have "send_blob cs s p (char_of k # body) i = [Async_send c (frame (char_of k # body)) i]"
    using assms by (simp add: send_blob_def max_message_size_def)
  then have "send_message schema_id serialize q cs s p m i = Some [Async_send c (frame (char_of k # body)) i]"
    using assms maps(2) by (simp add: send_message_def Let_def)
  moreover have "get_wire_msg deserialize q fac st (char_of k # body) = Some (Some fac, deserialize fac (int f) body)"
    using maps(1) schar_small [OF assms(3)] assms(12) by (auto simp: get_wire_msg_def Let_def)
  ultimately show ?thesis by blast
qed

text \<open>A protocol with one wire message, to apply the theorem to.\<close>

definition ping_protocols :: "protocols throws" where
  "ping_protocols = map_sum id fst (load (\<lambda>_. Some \<lparr>cf_text = [], cf_update_time_slice = 10, cf_schemas = [],
     cf_files = [], cf_wire_msgs = [''Ping''], cf_commands = []\<rparr>) (\<lambda>_. return []) (\<lambda>_ _. return 7) [] ''p'' [])"

definition ping_protocol :: smart_protocol where
  "ping_protocol = (case ping_protocols of Inr ((_, q) # _) \<Rightarrow> q | _ \<Rightarrow> empty_protocol)"

lemma ping_protocol_loaded: "loaded (\<lambda>_. return 7) ping_protocol" "get_wire_msgs ping_protocol = [''Ping'']"
proof -
  let ?rc = "\<lambda>_. Some \<lparr>cf_text = [], cf_update_time_slice = 10, cf_schemas = [],
     cf_files = [], cf_wire_msgs = [''Ping''], cf_commands = []\<rparr>"
  have l: "load ?rc (\<lambda>_. return []) (\<lambda>_ _. return 7) [] ''p'' [] = return ([(''p'', ping_protocol)], True)"
    by (simp add: load_def ping_protocol_def ping_protocols_def)
  show w: "get_wire_msgs ping_protocol = [''Ping'']"
    by (simp add: load_def ping_protocol_def ping_protocols_def get_wire_msgs_def)
  have "get_protocol [(''p'', ping_protocol)] ''p'' = Some ping_protocol" by (simp add: get_protocol_def)
  moreover have "distinct (map (\<lambda>_. return 7 :: nat throws) (get_wire_msgs ping_protocol))" by (simp add: w)
  ultimately show "loaded (\<lambda>_. return 7) ping_protocol" unfolding loaded_def using l by blast
qed

definition one_peer :: net_node where
  "one_peer = \<lparr>n_nodeid = ''n'', n_protoid = ''p'', n_peer_ids = 1, n_update_time_slice = 10, n_time_to_update = 0,
     n_acceptor = None, n_known_peers = [(1, \<lparr>pi_id = 1, pi_address = ''sim://x'', pi_connection = Some 4, pi_buffer = 0\<rparr>)],
     n_connected_peers = {1}, n_logs = [], n_tasks = []\<rparr>"

theorem wire_message_round_trip_witness:
  "send_message (\<lambda>m. 7) Some ping_protocol (\<lambda>_. Connected) one_peer 1 ''hi'' 5 =
     Some [Async_send 4 (frame (char_of (0::nat) # ''hi'')) 5] \<and>
   get_wire_msg (\<lambda>f i b. return (f, i, b)) ping_protocol ''fac'' None (char_of (0::nat) # ''hi'') =
     Some (Some ''fac'', return (''fac'', 7, ''hi''))"
  using wire_message_round_trip [OF ping_protocol_loaded(1), of 0 7 "\<lambda>_. 7" "''hi''" Some "''hi''" 1 one_peer
      "\<lparr>pi_id = 1, pi_address = ''sim://x'', pi_connection = Some 4, pi_buffer = 0\<rparr>" 4 "\<lambda>_. Connected" None
      "''fac''" 5 "\<lambda>f i b. return (f, i, b)"]
  by (simp add: ping_protocol_loaded(2) one_peer_def)

text \<open>a wire message with an identifier of 128 or more is sent, but every receiver stops on it: the first
  byte is read as a signed character, and the check for an unknown message fails.\<close>

theorem wire_id_128_aborts:
  assumes "loaded gid q" and "k < length (get_wire_msgs q)" and "128 \<le> k" and "k < 256"
  shows "get_wire_msg deserialize q fac st (char_of k # body) = None"
proof -
  obtain rc gfc ps ps' i path where l: "load rc gfc (\<lambda>_. gid) ps i path = Inr (ps', True)"
    and gp: "get_protocol ps' i = Some q" using assms(1) unfolding loaded_def by blast
  obtain j p q' where "rc (path @ ''config.json'') = Some j" and ps': "ps' = (i, q') # ps" and "i \<notin> fst ` set ps"
    and lw: "load_wire_msgs gid (cf_wire_msgs j) 0 p = Inr q'" and p: "sp_wire_to_factory p = Map.empty"
    and "sp_factory_to_wire p = Map.empty" and "sp_wire_msgs q' = cf_wire_msgs j"
    by (rule load_protocol [OF l])
  have "schar (char_of k) = int k - 256" using assms by (simp add: schar_def)
  then have "schar (char_of k) < 0" using assms by simp
  then have "sp_wire_to_factory q (schar (char_of k)) = None"
    using load_wire_msgs_wire [OF lw, of "schar (char_of k)"] gp ps' p by (simp add: get_protocol_def)
  then show ?thesis by (simp add: get_wire_msg_def get_factory_from_wire_def Let_def)
qed

lemma load_wire_msgs_total:
  "(\<And>m. gid m = Inr (g m)) \<Longrightarrow> \<exists>q. load_wire_msgs gid ms k p = Inr q"
  by (induction ms arbitrary: k p) auto

theorem wire_id_128_aborts_witness:
  "\<exists>q. loaded (\<lambda>m. return (length m)) q \<and> length (get_wire_msgs q) = 129 \<and>
     get_wire_msg (\<lambda>f i b. return (f, i, b)) q ''fac'' None (char_of (128::nat) # ''hi'') = None"
proof -
  define ms where "ms = map (\<lambda>i. replicate i CHR ''a'') [0..<129]"
  define j where "j = \<lparr>cf_text = [], cf_update_time_slice = 10, cf_schemas = [],
     cf_files = [], cf_wire_msgs = ms, cf_commands = []\<rparr>"
  define p where "p = empty_protocol\<lparr>sp_config_json := [], sp_update_time_slice := 10, sp_wire_msgs := ms,
     sp_commands := []\<rparr>"
  obtain q where q: "load_wire_msgs (\<lambda>m. return (length m)) ms 0 p = Inr q"
    using load_wire_msgs_total [of "\<lambda>m. return (length m)" length] by blast
  have l: "load (\<lambda>_. Some j) (\<lambda>_. return []) (\<lambda>_ m. return (length m)) [] ''p'' [] = return ([(''p'', q)], True)"
    using q by (simp add: load_def j_def p_def)
  have w: "get_wire_msgs q = ms"
    using load_wire_msgs_fields [OF q] by (simp add: get_wire_msgs_def p_def)
  have "map (\<lambda>m. return (length m) :: nat throws) ms = map return [0..<129]" by (simp add: ms_def)
  then have "distinct (map (\<lambda>m. return (length m) :: nat throws) (get_wire_msgs q))"
    unfolding w by (simp add: distinct_map inj_on_def)
  moreover have "get_protocol [(''p'', q)] ''p'' = Some q" by (simp add: get_protocol_def)
  ultimately have lo: "loaded (\<lambda>m. return (length m)) q" using l unfolding loaded_def by blast
  have len: "length (get_wire_msgs q) = 129" by (simp add: w ms_def)
  have "get_wire_msg (\<lambda>f i b. return (f, i, b)) q ''fac'' None (char_of (128::nat) # ''hi'') = None"
    by (rule wire_id_128_aborts [OF lo]) (simp_all add: len)
  with lo len show ?thesis by blast
qed

text \<open>the factory that decodes messages is shared by all nodes of a process: after a node of one protocol
  has decoded a message, a node of another protocol decodes its messages with the factory of the first.\<close>

theorem wire_factory_shared:
  assumes "get_wire_msg deserialize q1 fac1 None blob1 = Some (st, m1)"
    and "get_wire_msg deserialize q2 fac2 st (c # body) = Some (st', m2)"
  shows "m2 = deserialize fac1 (get_factory_from_wire q2 (schar c)) body"
  using assms by (auto simp: get_wire_msg_def Let_def split: if_splits)

theorem wire_factory_shared_witness:
  "\<exists>st. get_wire_msg (\<lambda>f i b. return (f, i, b)) ping_protocol ''one'' None (char_of (0::nat) # ''hi'') =
       Some (st, return (''one'', 7, ''hi'')) \<and>
     get_wire_msg (\<lambda>f i b. return (f, i, b)) ping_protocol ''two'' st (char_of (0::nat) # ''yo'') =
       Some (st, return (''one'', 7, ''yo''))"
proof -
  have 1: "get_wire_msg (\<lambda>f i b. return (f, i, b)) ping_protocol ''one'' None (char_of (0::nat) # ''hi'') =
      Some (Some ''one'', return (''one'', 7, ''hi''))"
    and 2: "get_wire_msg (\<lambda>f i b. return (f, i, b)) ping_protocol ''two'' (Some ''one'') (char_of (0::nat) # ''yo'') =
      Some (Some ''one'', return (''one'', 7, ''yo''))"
    by code_simp+
  show ?thesis using wire_factory_shared [OF 1 2] 1 2 by blast
qed

text \<open>An empty blob is taken for the first wire message, and then throws.\<close>

lemma empty_blob_throws:
  assumes "loaded gid q" and "get_wire_msgs q \<noteq> []" and "gid (get_wire_msgs q ! 0) = Inr f"
  shows "\<exists>st'. get_wire_msg deserialize q fac st [] = Some (st', throw (Out_of_range ''basic_string::substr''))"
  using loaded_wire_maps(1) [OF assms(1) _ assms(3)] assms(2) by (simp add: get_wire_msg_def Let_def)

section \<open>The table of peers\<close>

text \<open>
  What holds between the operations of a node: keys and identifiers agree and are among those given out,
  no address occurs twice, and a connected peer that is still known has a connection.
\<close>

definition peers_ok :: "net_node \<Rightarrow> bool" where
  "peers_ok s = (distinct (map fst (n_known_peers s)) \<and>
     (\<forall>(i, p) \<in> set (n_known_peers s). pi_id p = i \<and> 1 \<le> i \<and> i \<le> n_peer_ids s) \<and>
     distinct (map (pi_address \<circ> snd) (n_known_peers s)) \<and>
     (\<forall>i \<in> n_connected_peers s. 1 \<le> i \<and> i \<le> n_peer_ids s) \<and>
     (\<forall>(i, p) \<in> set (n_known_peers s). i \<in> n_connected_peers s \<longrightarrow> pi_connection p \<noteq> None))"

text \<open>
  The states a node can reach by its own operations and the calls of the network, in any order, while fewer
  than \<open>2 ^ 32\<close> peers have been given an identifier.
\<close>

inductive node_reach :: "net_node \<Rightarrow> bool" where
  new: "node_new ps i pid = Inr s \<Longrightarrow> node_reach s"
| add: "node_reach s \<Longrightarrow> n_peer_ids s + 1 < 2 ^ 32 \<Longrightarrow> node_reach (fst (add_peer create buffer s address))"
| remove: "node_reach s \<Longrightarrow> remove_peer s p = Some (s', acts) \<Longrightarrow> node_reach s'"
| requested: "node_reach s \<Longrightarrow> n_peer_ids s + 1 < 2 ^ 32 \<Longrightarrow> node_reach (fst (on_requested buffer s a address))"
| accepted: "node_reach s \<Longrightarrow> node_reach (on_acceptor_connected s a c i address)"
| connected: "node_reach s \<Longrightarrow> on_connected s c = Some (s', acts) \<Longrightarrow> node_reach s'"
| disconnected: "node_reach s \<Longrightarrow> node_reach (fst (on_disconnected s c))"
| acceptor: "node_reach s \<Longrightarrow> node_reach (fst (set_acceptor acreate init s address))"
| logged: "node_reach s \<Longrightarrow> node_reach (log date ms s logger m)"
| task: "node_reach s \<Longrightarrow> node_reach (node_add_task s t)"

lemma update_fresh: "i \<notin> fst ` set al \<Longrightarrow> AList.update i x al = al @ [(i, x)]"
  by (induction al) auto

lemma update_known:
  assumes "distinct (map fst al)" and "map_of al i = Some p"
  shows "set (AList.update i x al) = insert (i, x) (set al - {(i, p)})"
  using assms by (induction al) (auto simp: image_iff split: if_splits)

lemma update_known_map:
  "map_of al i = Some p \<Longrightarrow> f x = f p \<Longrightarrow> map (f \<circ> snd) (AList.update i x al) = map (f \<circ> snd) al"
  by (induction al) (auto split: if_splits)

lemma find_address_None: "find_address s a = None \<Longrightarrow> a \<notin> set (map (pi_address \<circ> snd) (n_known_peers s))"
  by (force simp: find_address_def find_None_iff)

lemma find_address_Some:
  "find_address s a = Some i \<Longrightarrow> \<exists>p. (i, p) \<in> set (n_known_peers s) \<and> pi_address p = a"
  by (auto simp: find_address_def find_Some_iff in_set_conv_nth) (metis fst_conv)

text \<open>A peer with a new identifier and a new address.\<close>

lemma peers_ok_new_peer:
  assumes ok: "peers_ok s" and b: "n_peer_ids s + 1 < 2 ^ 32" and n: "find_address s a = None"
    and p: "pi_address p = a" "pi_id p = n_peer_ids s + 1"
  shows "peers_ok (s\<lparr>n_peer_ids := n_peer_ids s + 1,
    n_known_peers := AList.update (n_peer_ids s + 1) p (n_known_peers s)\<rparr>)"
proof -
  have k: "n_peer_ids s + 1 \<notin> fst ` set (n_known_peers s)" "n_peer_ids s + 1 \<notin> n_connected_peers s"
    using ok by (force simp: peers_ok_def)+
  have "a \<notin> pi_address ` snd ` set (n_known_peers s)" using find_address_None [OF n] by (simp add: image_comp)
  with k p ok show ?thesis
    by (fastforce simp: peers_ok_def update_fresh image_comp)
qed

lemma peers_ok_add_peer:
  assumes ok: "peers_ok s" and b: "n_peer_ids s + 1 < 2 ^ 32"
  shows "peers_ok (fst (add_peer create buffer s address))"
proof (cases "find_address s address")
  case None
  then show ?thesis using peers_ok_new_peer [OF ok b None] b
    by (simp add: add_peer_def get_next_peer_id_def Let_def)
qed (use ok in \<open>simp add: add_peer_def\<close>)

lemma peers_ok_on_requested:
  assumes ok: "peers_ok s" and b: "n_peer_ids s + 1 < 2 ^ 32"
  shows "peers_ok (fst (on_requested buffer s a address))"
proof (cases "find_address s address")
  case None
  then show ?thesis using peers_ok_new_peer [OF ok b None] b
    by (simp add: on_requested_def get_next_peer_id_def Let_def)
qed (use ok in \<open>simp add: on_requested_def\<close>)

lemma peers_ok_remove_peer: "peers_ok s \<Longrightarrow> remove_peer s p = Some (s', acts) \<Longrightarrow> peers_ok s'"
  unfolding peers_ok_def remove_peer_def
  by (auto simp: AList.delete_eq bind_Some_iff distinct_map_filter split: option.splits)

lemma peers_ok_accepted:
  assumes "peers_ok s" shows "peers_ok (on_acceptor_connected s a c i address)"
proof (cases "map_of (n_known_peers s) i")
  case (Some p)
  have d: "distinct (map fst (n_known_peers s))" using assms by (simp add: peers_ok_def)
  have "(i, p) \<in> set (n_known_peers s)" using Some by (rule map_of_SomeD)
  with assms Some d show ?thesis
    by (auto simp: peers_ok_def on_acceptor_connected_def update_known AList.distinct_update
        update_known_map [where f = pi_address])
qed (use assms in \<open>simp add: on_acceptor_connected_def\<close>)

lemma peers_ok_on_connected:
  assumes ok: "peers_ok s" and c: "on_connected s c = Some (s', acts)" shows "peers_ok s'"
proof (cases "map_of (n_known_peers s) c")
  case (Some p)
  have m: "(c, p) \<in> set (n_known_peers s)" using Some by (rule map_of_SomeD)
  have "q = p" if "(c, q) \<in> set (n_known_peers s)" for q
    using that Some ok by (auto simp: peers_ok_def dest: map_of_is_SomeI)
  moreover obtain k where k: "pi_connection p = Some k"
    and s': "s' = s\<lparr>n_connected_peers := insert c (n_connected_peers s)\<rparr>"
    using c Some by (auto simp: on_connected_def bind_Some_iff)
  moreover have "1 \<le> c \<and> c \<le> n_peer_ids s" using ok m by (auto simp: peers_ok_def)
  ultimately show ?thesis using ok unfolding peers_ok_def s' by auto
qed (use ok c in \<open>simp add: on_connected_def\<close>)

lemma node_reach_ok: "node_reach s \<Longrightarrow> peers_ok s"
proof (induction rule: node_reach.induct)
  case (disconnected s c)
  then show ?case by (auto simp: peers_ok_def on_disconnected_def)
next
  case (acceptor s acreate init address)
  have "n_known_peers (fst (set_acceptor acreate init s address)) = n_known_peers s \<and>
    n_connected_peers (fst (set_acceptor acreate init s address)) = n_connected_peers s \<and>
    n_peer_ids (fst (set_acceptor acreate init s address)) = n_peer_ids s"
    by (auto simp: set_acceptor_def split: option.splits sum.splits bool.splits)
  with acceptor show ?case by (simp add: peers_ok_def)
next
  case (new ps i pid s)
  then show ?case by (auto simp: node_new_def peers_ok_def split: option.splits)
next
  case (logged s date ms logger m)
  then show ?case by (simp add: peers_ok_def log_def Let_def)
next
  case (task s t)
  then show ?case by (simp add: peers_ok_def node_add_task_def)
qed (blast intro: peers_ok_add_peer peers_ok_on_requested peers_ok_remove_peer peers_ok_accepted
    peers_ok_on_connected)+

lemma peers_ok_connection:
  "peers_ok s \<Longrightarrow> c \<in> n_connected_peers s \<Longrightarrow> map_of (n_known_peers s) c = Some p \<Longrightarrow> pi_connection p \<noteq> None"
  by (drule map_of_SomeD) (fastforce simp: peers_ok_def)

lemma peers_ok_disconnect: "peers_ok s \<Longrightarrow> disconnect s c \<noteq> None"
  by (auto simp: disconnect_def dest: peers_ok_connection split: option.splits)

text \<open>C27: in every state a node can reach, its operations and handlers never use a null connection: closing
  and removing a peer, the handler of received bytes and the handler of errors always return.\<close>

theorem node_no_null_connection:
  assumes "node_reach s"
  shows "disconnect s c \<noteq> None \<and> remove_peer s c \<noteq> None \<and> on_connection_error s c st \<noteq> None \<and>
    on_message_received cs bufs s c buffer n mid \<noteq> None"
proof -
  have ok: "peers_ok s" using assms by (rule node_reach_ok)
  have d: "disconnect s c \<noteq> None" by (rule peers_ok_disconnect [OF ok])
  then have e: "error_disconnect s c m \<noteq> None" for m by (simp add: error_disconnect_def)
  have "remove_peer s c \<noteq> None"
    using ok by (auto simp: remove_peer_def bind_eq_None_conv dest: peers_ok_connection split: option.splits)
  with d e show ?thesis
    by (auto simp: on_connection_error_def on_message_received_def split: option.splits)
qed

lemma ping_node_reach:
  "\<exists>s. node_new [(''p'', ping_protocol)] ''n'' ''p'' = Inr s \<and> node_reach s \<and> n_peer_ids s = 0"
  by (auto simp: node_new_def get_protocol_def intro!: node_reach.new [of "[(''p'', ping_protocol)]" "''n''" "''p''"])

theorem node_no_null_connection_witness:
  "\<exists>s. node_reach s \<and> n_known_peers s \<noteq> [] \<and> remove_peer s 1 \<noteq> None \<and>
     on_message_received (\<lambda>_. Connected) (\<lambda>_ _. CHR 0x00) s 1 0 3 waiting_header \<noteq> None"
proof -
  obtain s where s: "node_reach s" "n_peer_ids s = 0" using ping_node_reach by blast
  let ?s = "fst (add_peer (\<lambda>_ _ _. return None) 0 s ''a'')"
  have r: "node_reach ?s" using s by (intro node_reach.add) simp_all
  have "n_known_peers ?s \<noteq> []"
    by (auto simp: add_peer_def get_next_peer_id_def Let_def find_address_def find_None_iff update_nonempty
        split: option.splits)
  with node_no_null_connection [OF r] r show ?thesis by blast
qed

text \<open>the table of peers of a reachable node: \<open>add_peer\<close> gives the identifier of the peer with that
  address, whether it is new or not, no other peer changes, and no two peers have the same address.\<close>

theorem add_peer_table:
  assumes "node_reach s" and "n_peer_ids s + 1 < 2 ^ 32"
  shows "case add_peer create buffer s address of (s', i) \<Rightarrow>
    pi_address (get_peer_info s' i) = address \<and> pi_id (get_peer_info s' i) = i \<and> i \<in> set (list_known_peers s') \<and>
    (\<forall>j. j \<noteq> i \<longrightarrow> get_peer_info s' j = get_peer_info s j) \<and> add_peer create' buffer' s' address = (s', i) \<and>
    distinct (map (pi_address \<circ> snd) (n_known_peers s'))"
proof -
  have ok: "peers_ok s" using assms by (simp add: node_reach_ok)
  obtain s' i where ap: "add_peer create buffer s address = (s', i)" by force
  have ok': "peers_ok s'" using peers_ok_add_peer [OF ok assms(2), of create buffer address] ap by simp
  have "\<exists>p. map_of (n_known_peers s') i = Some p \<and> pi_address p = address \<and>
      (\<forall>j. j \<noteq> i \<longrightarrow> map_of (n_known_peers s') j = map_of (n_known_peers s) j)"
  proof (cases "find_address s address")
    case None
    then show ?thesis using ap assms(2)
      by (auto simp: add_peer_def get_next_peer_id_def Let_def update_conv')
  next
    case (Some k)
    then have "s' = s" "i = k" using ap by (auto simp: add_peer_def)
    with find_address_Some [OF Some] ok show ?thesis by (auto simp: peers_ok_def)
  qed
  then obtain p where p: "map_of (n_known_peers s') i = Some p" "pi_address p = address"
    and other: "\<And>j. j \<noteq> i \<Longrightarrow> map_of (n_known_peers s') j = map_of (n_known_peers s) j" by blast
  have mem: "(i, p) \<in> set (n_known_peers s')" using p(1) by (rule map_of_SomeD)
  have "find_address s' address = Some i"
  proof (cases "find_address s' address")
    case None
    with find_address_None mem p show ?thesis by force
  next
    case (Some k)
    from find_address_Some [OF this] obtain q where "(k, q) \<in> set (n_known_peers s')" "pi_address q = address" by blast
    with mem p ok' have "(k, q) = (i, p)" unfolding peers_ok_def distinct_map inj_on_def by fastforce
    with Some show ?thesis by simp
  qed
  then have "add_peer create' buffer' s' address = (s', i)" by (simp add: add_peer_def)
  with ap p other mem ok' show ?thesis
    by (force simp: get_peer_info_def list_known_peers_def peers_ok_def)
qed

theorem add_peer_table_witness:
  "\<exists>s. node_reach s \<and> pi_address (get_peer_info (fst (add_peer (\<lambda>_ _ _. return None) 0 s ''sim://1:1:1:1''))
     (snd (add_peer (\<lambda>_ _ _. return None) 0 s ''sim://1:1:1:1''))) = ''sim://1:1:1:1''"
proof -
  obtain s where s: "node_reach s" "n_peer_ids s = 0" using ping_node_reach by blast
  have "n_peer_ids s + 1 < 2 ^ 32" using s by simp
  from add_peer_table [OF s(1) this, where create = "\<lambda>_ _ _. return None" and buffer = 0 and
      address = "''sim://1:1:1:1''"] s(1)
  show ?thesis unfolding case_prod_beta by blast
qed

section \<open>Tasks\<close>

text \<open>Tasks that succeed and queue no further tasks all run, in the order they were added, and the loop ends.\<close>

lemma run_tasks_all:
  assumes "\<And>t s. run t s = (f t s, return [])" and "\<And>t s. n_tasks (f t s) = n_tasks s"
    and "n_tasks s = ts"
  shows "run_tasks run s = Some (fold (\<lambda>t s. f t (s\<lparr>n_tasks := tl (n_tasks s)\<rparr>)) ts s, True)"
  using assms(3)
proof (induction ts arbitrary: s)
  case Nil
  then show ?case by (simp add: run_tasks.simps)
next
  case (Cons t ts)
  have "run_tasks run s = run_tasks run (f t (s\<lparr>n_tasks := ts\<rparr>))"
    using Cons.prems assms(1) by (subst run_tasks.simps) simp
  also have "\<dots> = Some (fold (\<lambda>t s. f t (s\<lparr>n_tasks := tl (n_tasks s)\<rparr>)) ts (f t (s\<lparr>n_tasks := ts\<rparr>)), True)"
    using assms(2) by (intro Cons.IH) simp
  finally show ?case using Cons.prems by simp
qed

end
