(* ===== verification/Node_Updater.thy ===== *)
theory Node_Updater
  imports Node_Properties
begin

text \<open>
  The updaters of \<^verbatim>\<open>core/node/node_updater.cc\<close>, which call \<open>process_update\<close> on the nodes of a list from
  worker threads. One round of a worker is modelled: \<open>held\<close> says which node locks other workers hold,
  \<open>get_node\<close> and \<open>update\<close> stand for the registry and for \<open>process_update\<close>, and the result lists the updated
  nodes. Starting and joining threads is not modelled.
\<close>

section \<open>Operations\<close>

record updater =
  u_running :: bool
  u_node_list :: "string list"
  u_workers_number :: nat
  u_sleep_time :: nat

text \<open>The nodes are a \<^verbatim>\<open>std::set\<close>: an increasing list without repetition.\<close>

fun set_insert :: "string \<Rightarrow> string list \<Rightarrow> string list" where
  "set_insert x [] = [x]"
| "set_insert x (y # ys) =
     (if x = y then y # ys
      else if lexordp (\<lambda>a b. of_char a < (of_char b :: nat)) x y then x # y # ys else y # set_insert x ys)"

definition node_updater_new :: "nat \<Rightarrow> nat \<Rightarrow> string list \<Rightarrow> updater" where
  "node_updater_new workers_number sleep_time nodes = \<lparr>u_running = False,
     u_node_list = fold set_insert nodes [], u_workers_number = workers_number, u_sleep_time = sleep_time\<rparr>"

definition updater_add_node :: "updater \<Rightarrow> string \<Rightarrow> updater" where
  "updater_add_node u i = u\<lparr>u_node_list := set_insert i (u_node_list u)\<rparr>"

definition updater_remove_node :: "updater \<Rightarrow> string \<Rightarrow> updater" where
  "updater_remove_node u i = u\<lparr>u_node_list := removeAll i (u_node_list u)\<rparr>"

definition updater_start :: "updater \<Rightarrow> updater" where
  "updater_start u = u\<lparr>u_running := True\<rparr>"

definition updater_stop :: "updater \<Rightarrow> updater" where
  "updater_stop u = u\<lparr>u_running := False\<rparr>"

text \<open>
  One round of \<open>default_node_updater\<close> over the nodes that remain, with the registry of nodes as state. A node
  that is not in the registry is erased from the set while the loop stands on it, and the increment of the
  iterator that follows is undefined.
\<close>

fun update_nodes ::
  "(string \<Rightarrow> bool) \<Rightarrow> (string \<Rightarrow> nat \<Rightarrow> net_node \<Rightarrow> net_node) \<Rightarrow> nat \<Rightarrow> string list \<Rightarrow> (string \<times> net_node) list \<Rightarrow>
   ((string \<times> net_node) list \<times> string list) option" where
  "update_nodes held update now [] nodes = Some (nodes, [])"
| "update_nodes held update now (i # is) nodes =
     (if held i then update_nodes held update now is nodes
      else case get_node nodes i of
        None \<Rightarrow> None
      | Some n \<Rightarrow>
          if now \<ge> get_time_to_update n then
            map_option (\<lambda>(nodes, us). (nodes, i # us))
              (update_nodes held update now is (AList.update i (update i now n) nodes))
          else update_nodes held update now is nodes)"

definition default_update_function ::
  "(string \<Rightarrow> bool) \<Rightarrow> (string \<Rightarrow> nat \<Rightarrow> net_node \<Rightarrow> net_node) \<Rightarrow> nat \<Rightarrow> updater \<Rightarrow> (string \<times> net_node) list \<Rightarrow>
   ((string \<times> net_node) list \<times> string list) option" where
  "default_update_function held update now u nodes =
     (if u_running u then update_nodes held update now (u_node_list u) nodes else Some (nodes, []))"

text \<open>
  One round of \<open>node_updater_tests\<close>: a random node. The size minus one is computed in 64 bits; the remainder
  by zero, and an iterator moved past the end, are undefined.
\<close>

definition tests_update_function ::
  "(string \<Rightarrow> nat \<Rightarrow> net_node \<Rightarrow> net_node) \<Rightarrow> nat \<Rightarrow> updater \<Rightarrow> (string \<times> net_node) list \<Rightarrow>
   ((string \<times> net_node) list \<times> string option) option" where
  "tests_update_function update rnd u nodes =
     (let n = (length (u_node_list u) + 2 ^ 64 - 1) mod 2 ^ 64
      in if n = 0 then None
         else do {
           i \<leftarrow> vec_get (u_node_list u) (rnd mod n);
           Some (case get_node nodes i of
               Some m \<Rightarrow> (AList.update i (update i 0 m) nodes, Some i)
             | None \<Rightarrow> (nodes, None)) })"

section \<open>Properties\<close>

lemma set_set_insert [simp]: "set (set_insert x ys) = insert x (set ys)"
  by (induction ys) auto

text \<open>Updating one node of the registry does not touch the others.\<close>

lemma get_node_update: "get_node (AList.update i n nodes) j = (if j = i then Some n else get_node nodes j)"
  by (simp add: get_node_def update_conv')

text \<open>a round of the default updater over registered nodes returns; it updates exactly the nodes whose
  time has come and whose lock is free, each once and in order, and leaves the others alone.\<close>

theorem default_updater_round:
  assumes "u_running u" and "distinct (u_node_list u)"
    and "\<And>i. i \<in> set (u_node_list u) \<Longrightarrow> get_node nodes i \<noteq> None"
  shows "\<exists>nodes'. default_update_function held update now u nodes = Some (nodes',
      filter (\<lambda>i. \<not> held i \<and> now \<ge> get_time_to_update (the (get_node nodes i))) (u_node_list u)) \<and>
    (\<forall>i. get_node nodes' i =
      (if i \<in> set (u_node_list u) \<and> \<not> held i \<and> now \<ge> get_time_to_update (the (get_node nodes i))
       then Some (update i now (the (get_node nodes i))) else get_node nodes i))"
proof -
  have "\<exists>nodes'. update_nodes held update now is nodes = Some (nodes',
      filter (\<lambda>i. \<not> held i \<and> now \<ge> get_time_to_update (the (get_node nodes i))) is) \<and>
    (\<forall>i. get_node nodes' i =
      (if i \<in> set is \<and> \<not> held i \<and> now \<ge> get_time_to_update (the (get_node nodes i))
       then Some (update i now (the (get_node nodes i))) else get_node nodes i))"
    if "distinct is" "\<And>i. i \<in> set is \<Longrightarrow> get_node nodes i \<noteq> None" for "is"
    using that
  proof (induction "is" arbitrary: nodes)
    case (Cons i "is")
    from Cons.prems(2) obtain n where n: "get_node nodes i = Some n" by force
    show ?case
    proof (cases "\<not> held i \<and> now \<ge> get_time_to_update n")
      case True
      let ?nodes = "AList.update i (update i now n) nodes"
      have same: "get_node ?nodes j = get_node nodes j" if "j \<in> set is" for j
        using that Cons.prems(1) by (auto simp: get_node_update)
      have "get_node ?nodes j \<noteq> None" if "j \<in> set is" for j using that same Cons.prems(2) by simp
      from Cons.IH [OF _ this] Cons.prems(1) obtain nodes' where
        u: "update_nodes held update now is ?nodes = Some (nodes',
          filter (\<lambda>i. \<not> held i \<and> now \<ge> get_time_to_update (the (get_node ?nodes i))) is)" and
        g: "\<And>j. get_node nodes' j = (if j \<in> set is \<and> \<not> held j \<and> now \<ge> get_time_to_update (the (get_node ?nodes j))
          then Some (update j now (the (get_node ?nodes j))) else get_node ?nodes j)" by auto
      have f: "filter (\<lambda>i. \<not> held i \<and> now \<ge> get_time_to_update (the (get_node ?nodes i))) is =
          filter (\<lambda>i. \<not> held i \<and> now \<ge> get_time_to_update (the (get_node nodes i))) is"
        by (rule filter_cong) (simp_all add: same)
      have "get_node nodes' j = (if j \<in> set (i # is) \<and> \<not> held j \<and> now \<ge> get_time_to_update (the (get_node nodes j))
          then Some (update j now (the (get_node nodes j))) else get_node nodes j)" for j
        using g [of j] same n True Cons.prems(1) by (auto simp: get_node_update)
      with True n u f show ?thesis by simp
    next
      case False
      have "update_nodes held update now (i # is) nodes = update_nodes held update now is nodes"
        using False n by auto
      moreover have "get_node nodes j \<noteq> None" if "j \<in> set is" for j using that Cons.prems(2) by simp
      ultimately show ?thesis using Cons.IH [of nodes] Cons.prems(1) False n by auto
    qed
  qed simp
  from this [OF assms(2,3)] assms(1) show ?thesis by (simp add: default_update_function_def)
qed

theorem default_updater_round_witness:
  "\<exists>nodes'. default_update_function (\<lambda>_. False) (\<lambda>_ t n. n\<lparr>n_time_to_update := t + 5\<rparr>) 3
     (updater_start (node_updater_new 1 1 [''n''])) [(''n'', one_peer)] = Some (nodes', [''n'']) \<and>
     get_node nodes' ''n'' = Some (one_peer\<lparr>n_time_to_update := 8\<rparr>)"
  using default_updater_round [of "updater_start (node_updater_new 1 1 [''n''])" "[(''n'', one_peer)]" "\<lambda>_. False"
      "\<lambda>_ t n. n\<lparr>n_time_to_update := t + 5\<rparr>" 3]
  by (auto simp: updater_start_def node_updater_new_def get_node_def get_time_to_update_def one_peer_def)

text \<open>a node of the list that has been removed from the registry makes the next round undefined: the
  loop erases the element its iterator stands on.\<close>

theorem removed_node_breaks_updater:
  assumes "u_running u" and "i \<in> set (u_node_list u)" and "get_node nodes i = None"
  shows "default_update_function (\<lambda>_. False) update now u nodes = None"
proof -
  have "update_nodes (\<lambda>_. False) update now is nodes = None" if "i \<in> set is" "get_node nodes i = None" for "is" nodes
    using that
  proof (induction "is" arbitrary: nodes)
    case (Cons j "is")
    show ?case
    proof (cases "i = j")
      case False
      with Cons have "i \<in> set is" by simp
      moreover have "get_node (AList.update j n nodes) i = None" for n
        using False Cons.prems by (simp add: get_node_update)
      ultimately show ?thesis using Cons.IH Cons.prems(2) by (simp split: option.splits)
    qed (use Cons.prems in simp)
  qed simp
  from this [OF assms(2,3)] assms(1) show ?thesis by (simp add: default_update_function_def)
qed

theorem removed_node_breaks_updater_witness:
  "default_update_function (\<lambda>_. False) (\<lambda>_ _ n. n) 3 (updater_start (node_updater_new 1 1 [''n''])) [] = None"
  by (rule removed_node_breaks_updater [of _ "''n''"])
    (simp_all add: updater_start_def node_updater_new_def get_node_def)

text \<open>The test updater never updates the last node of its list, and is undefined for a list of one node.\<close>

lemma tests_updater_skips_last:
  assumes "distinct (u_node_list u)" and "length (u_node_list u) < 2 ^ 64"
    and "tests_update_function update rnd u nodes = Some (nodes', Some i)"
  shows "u_node_list u \<noteq> [] \<longrightarrow> i \<noteq> last (u_node_list u)"
proof
  assume ne: "u_node_list u \<noteq> []"
  define n where "n = (length (u_node_list u) + 2 ^ 64 - 1) mod 2 ^ 64"
  have "n = length (u_node_list u) - 1"
  proof -
    have "length (u_node_list u) + 2 ^ 64 - 1 = (length (u_node_list u) - 1) + 2 ^ 64" using ne by (cases "u_node_list u") auto
    then have "n = (length (u_node_list u) - 1) mod 2 ^ 64" unfolding n_def by (simp only: mod_add_self2)
    then show ?thesis using assms(2) by simp
  qed
  moreover have "n \<noteq> 0" "vec_get (u_node_list u) (rnd mod n) = Some i"
    using assms(3) by (auto simp: tests_update_function_def Let_def bind_Some_iff n_def split: if_splits option.splits)
  ultimately have "rnd mod n < length (u_node_list u) - 1" "i = u_node_list u ! (rnd mod n)"
    by (auto simp: vec_get_Some_iff)
  then show "i \<noteq> last (u_node_list u)" using assms(1) ne by (auto simp: last_conv_nth nth_eq_iff_index_eq)
qed

lemma tests_updater_one_node: "tests_update_function update rnd (u\<lparr>u_node_list := [i]\<rparr>) nodes = None"
  by (simp add: tests_update_function_def)

end
