(* ===== verification/Simulation.thy ===== *)
theory Simulation
  imports Bytes Status Network "HOL-Library.AList"
begin

text \<open>
  The simulated network, \<^verbatim>\<open>core/network/simulated_connection.cc\<close>: an event queue ordered by simulation
  time, connections with lag and bandwidth that move messages through it, acceptors, and a queue of calls to
  the handlers of the connections.

  Closures in the queues are values of \<open>task\<close> and \<open>handler_task\<close>. Connection and acceptor objects live in
  heaps addressed by numbers, read buffers in a third one. The handlers belong to the users of the network:
  \<open>'w\<close> is their state, \<open>req\<close> the synchronous call of \<open>on_requested\<close>, and \<open>call\<close> executes one queued call.
  \<open>r\<close> gives the successive results of \<^verbatim>\<open>std::rand\<close>. An operation that dereferences a null pointer has the
  result \<open>None\<close>. Time stamps are 32 bit numbers that wrap around; the 64 bit simulation time does not wrap.
\<close>

section \<open>State\<close>

record connection_params =
  min_lag :: nat
  max_lag :: nat
  bandwidth :: nat

record acceptor_params =
  max_connections :: nat
  a_bandwidth :: nat

record incoming_packet =
  ip_buffer :: nat
  ip_buffer_size :: nat
  ip_expect_to_read :: nat
  ip_id :: nat
  ip_bytes_read :: nat

record outgoing_packet =
  op_message :: string
  op_bytes_send :: nat
  op_id :: nat

record sim_conn =
  sc_id :: nat
  sc_handler :: nat
  sc_remote_address :: nat
  sc_local :: nat
  sc_remote :: nat
  sc_params :: connection_params
  sc_sending :: "outgoing_packet list"
  sc_reading :: "incoming_packet list"
  sc_recv :: "string list"
  sc_time_stamp :: nat
  sc_original :: string
  sc_state :: conn_state

record sim_acc =
  sa_id :: nat
  sa_handler :: nat
  sa_conn_handler :: nat
  sa_address :: nat
  sa_original :: string
  sa_params :: acceptor_params
  sa_state :: acc_state

datatype task =
    T_disconnect nat
  | T_request nat nat
  | T_message nat nat string
  | T_accept nat
  | T_refuse nat
  | T_ack nat status
  | T_read nat
  | T_send nat
  | T_cancel nat
  | T_no_route nat nat

datatype handler_task =
    H_message_received nat nat nat nat nat
  | H_message_sent nat nat nat status
  | H_connected nat nat
  | H_disconnected nat nat
  | H_connection_error nat nat status
  | H_accepted nat nat nat string

record 'w sim =
  sim_time :: nat
  sim_tasks :: "(nat \<times> task list) list"
  sim_handlers :: "handler_task list"
  sim_connections :: "nat \<rightharpoonup> nat"
  sim_uid :: nat
  sim_conns :: "nat \<Rightarrow> sim_conn"
  sim_next_conn :: nat
  sim_acceptors :: "nat \<rightharpoonup> nat"
  sim_accs :: "nat \<Rightarrow> sim_acc"
  sim_next_acc :: nat
  sim_bufs :: "nat \<Rightarrow> memory"
  sim_rand :: nat
  sim_world :: 'w

definition default_connection_params :: connection_params where
  "default_connection_params = \<lparr>min_lag = 0, max_lag = 0, bandwidth = 0\<rparr>"

definition default_acceptor_params :: acceptor_params where
  "default_acceptor_params = \<lparr>max_connections = 0, a_bandwidth = 0\<rparr>"

definition new_connection :: "nat \<Rightarrow> string \<Rightarrow> nat \<Rightarrow> sim_conn" where
  "new_connection i address handler = \<lparr>sc_id = i, sc_handler = handler, sc_remote_address = 0, sc_local = 0,
     sc_remote = 0, sc_params = default_connection_params, sc_sending = [], sc_reading = [], sc_recv = [],
     sc_time_stamp = 0, sc_original = address, sc_state = Invalid_state\<rparr>"

definition new_acceptor :: "nat \<Rightarrow> string \<Rightarrow> nat \<Rightarrow> nat \<Rightarrow> sim_acc" where
  "new_acceptor i address handler connections_handler = \<lparr>sa_id = i, sa_handler = handler,
     sa_conn_handler = connections_handler, sa_address = 0, sa_original = address,
     sa_params = default_acceptor_params, sa_state = Acc_invalid_state\<rparr>"

definition new_simulation :: "'w \<Rightarrow> 'w sim" where
  "new_simulation w = \<lparr>sim_time = 0, sim_tasks = [], sim_handlers = [], sim_connections = Map.empty, sim_uid = 0,
     sim_conns = (\<lambda>_. new_connection 0 [] 0), sim_next_conn = 0, sim_acceptors = Map.empty,
     sim_accs = (\<lambda>_. new_acceptor 0 [] 0 0), sim_next_acc = 0, sim_bufs = (\<lambda>_ _. CHR 0x00), sim_rand = 0,
     sim_world = w\<rparr>"

definition upd_conn :: "nat \<Rightarrow> (sim_conn \<Rightarrow> sim_conn) \<Rightarrow> 'w sim \<Rightarrow> 'w sim" where
  "upd_conn p f s = s\<lparr>sim_conns := (sim_conns s)(p := f (sim_conns s p))\<rparr>"

definition upd_acc :: "nat \<Rightarrow> (sim_acc \<Rightarrow> sim_acc) \<Rightarrow> 'w sim \<Rightarrow> 'w sim" where
  "upd_acc p f s = s\<lparr>sim_accs := (sim_accs s)(p := f (sim_accs s p))\<rparr>"

section \<open>The event queue\<close>

definition bucket :: "'w sim \<Rightarrow> nat \<Rightarrow> task list" where
  "bucket s t = (case map_of (sim_tasks s) t of None \<Rightarrow> [] | Some ts \<Rightarrow> ts)"

definition add_task :: "nat \<Rightarrow> task \<Rightarrow> 'w sim \<Rightarrow> 'w sim" where
  "add_task tm t s =
     (let tm = (if tm \<le> sim_time s then sim_time s + 1 else tm)
      in s\<lparr>sim_tasks := AList.update tm (bucket s tm @ [t]) (sim_tasks s)\<rparr>)"

definition add_handlers_task :: "handler_task \<Rightarrow> 'w sim \<Rightarrow> 'w sim" where
  "add_handlers_task h s = s\<lparr>sim_handlers := sim_handlers s @ [h]\<rparr>"

definition set_time :: "nat \<Rightarrow> 'w sim \<Rightarrow> 'w sim" where
  "set_time t s = (if t < sim_time s then s else s\<lparr>sim_time := t\<rparr>)"

definition is_queue_empty :: "'w sim \<Rightarrow> bool" where
  "is_queue_empty s = (sim_tasks s = [])"

section \<open>The tables of connections and acceptors\<close>

definition add_connection :: "nat \<Rightarrow> 'w sim \<Rightarrow> 'w sim" where
  "add_connection p s =
     (let lid = sc_local (sim_conns s p);
          cs = (if lid \<noteq> 0 \<and> sim_connections s lid \<noteq> None \<and> sim_connections s lid \<noteq> Some p
                then (sim_connections s)(lid := None) else sim_connections s);
          uid = (sim_uid s + 1) mod 2 ^ 32
      in upd_conn p (sc_local_update (\<lambda>_. uid)) (s\<lparr>sim_connections := cs(uid \<mapsto> p), sim_uid := uid\<rparr>))"

definition remove_connection :: "nat \<Rightarrow> 'w sim \<Rightarrow> 'w sim" where
  "remove_connection i s = s\<lparr>sim_connections := (sim_connections s)(i := None)\<rparr>"

definition get_connection :: "'w sim \<Rightarrow> nat \<Rightarrow> nat option" where
  "get_connection s cid = sim_connections s cid"

definition add_acceptor :: "nat \<Rightarrow> nat \<Rightarrow> 'w sim \<Rightarrow> 'w sim" where
  "add_acceptor address a s = s\<lparr>sim_acceptors := (sim_acceptors s)(address \<mapsto> a)\<rparr>"

definition get_acceptor :: "'w sim \<Rightarrow> nat \<Rightarrow> nat option" where
  "get_acceptor s address = sim_acceptors s address"

definition remove_acceptor :: "nat \<Rightarrow> 'w sim \<Rightarrow> 'w sim" where
  "remove_acceptor address s = s\<lparr>sim_acceptors := (sim_acceptors s)(address := None)\<rparr>"

section \<open>Addresses\<close>

text \<open>\<^verbatim>\<open>std::stoul\<close> of a string of digits, and matching against groups of digits separated by colons.\<close>

definition is_digit :: "char \<Rightarrow> bool" where
  "is_digit c = (48 \<le> (of_char c :: nat) \<and> (of_char c :: nat) \<le> 57)"

definition stoul :: "string \<Rightarrow> nat throws" where
  "stoul s = (let v = digits_value 10 (\<lambda>c. of_char c - 48) s
     in if v < 2 ^ 64 then return v else throw (Out_of_range ''stoul''))"

fun split_colons :: "string \<Rightarrow> string list" where
  "split_colons [] = [[]]"
| "split_colons (c # s) = (if c = CHR '':'' then [] # split_colons s
     else (case split_colons s of [] \<Rightarrow> [[c]] | f # fs \<Rightarrow> (c # f) # fs))"

definition digit_fields :: "nat \<Rightarrow> string \<Rightarrow> string list option" where
  "digit_fields n s = (let fs = split_colons s
     in if length fs = n \<and> list_all (\<lambda>f. f \<noteq> [] \<and> list_all is_digit f) fs then Some fs else None)"

text \<open>
  The values are read in order; a value that does not fit throws and leaves the ones before it set. They are
  compared before they are cut to 32 bits.
\<close>

definition conn_parse_address :: "string \<Rightarrow> sim_conn \<Rightarrow> sim_conn \<times> bool throws" where
  "conn_parse_address address c =
     (case digit_fields 4 address of
        None \<Rightarrow> (c, return False)
      | Some fs \<Rightarrow>
          (case (stoul (fs ! 0), stoul (fs ! 1)) of
             (Inr a, Inr b) \<Rightarrow>
               if a \<le> b then
                 (let c = c\<lparr>sc_params := (sc_params c)\<lparr>min_lag := a mod 2 ^ 32, max_lag := b mod 2 ^ 32\<rparr>\<rparr>
                  in case stoul (fs ! 2) of
                       Inl e \<Rightarrow> (c, throw e)
                     | Inr w \<Rightarrow>
                         (let c = c\<lparr>sc_params := (sc_params c)\<lparr>bandwidth := w mod 2 ^ 32\<rparr>\<rparr>
                          in case stoul (fs ! 3) of
                               Inl e \<Rightarrow> (c, throw e)
                             | Inr d \<Rightarrow> (c\<lparr>sc_remote_address := d mod 2 ^ 32\<rparr>, return True)))
               else (c, return False)
           | (Inl e, _) \<Rightarrow> (c, throw e)
           | (_, Inl e) \<Rightarrow> (c, throw e)))"

definition conn_init :: "nat \<Rightarrow> 'w sim \<Rightarrow> 'w sim \<times> bool throws" where
  "conn_init p s =
     (let (c, res) = conn_parse_address (sc_original (sim_conns s p)) ((sim_conns s p)\<lparr>sc_state := Disconnected\<rparr>)
      in (upd_conn p (\<lambda>_. c) s, res))"

definition acc_parse_address :: "string \<Rightarrow> sim_acc \<Rightarrow> sim_acc \<times> bool throws" where
  "acc_parse_address address a =
     (case digit_fields 3 address of
        None \<Rightarrow> (a, return False)
      | Some fs \<Rightarrow>
          (case stoul (fs ! 0) of
             Inl e \<Rightarrow> (a, throw e)
           | Inr m \<Rightarrow>
               (let a = a\<lparr>sa_params := (sa_params a)\<lparr>max_connections := m mod 2 ^ 32\<rparr>\<rparr>
                in case stoul (fs ! 1) of
                     Inl e \<Rightarrow> (a, throw e)
                   | Inr w \<Rightarrow>
                       (let a = a\<lparr>sa_params := (sa_params a)\<lparr>a_bandwidth := w mod 2 ^ 32\<rparr>\<rparr>
                        in case stoul (fs ! 2) of
                             Inl e \<Rightarrow> (a, throw e)
                           | Inr d \<Rightarrow> (a\<lparr>sa_address := d mod 2 ^ 32\<rparr>, return True)))))"

definition acc_init :: "nat \<Rightarrow> 'w sim \<Rightarrow> 'w sim \<times> bool throws" where
  "acc_init p s =
     (let (a, res) = acc_parse_address (sa_original (sim_accs s p)) (sim_accs s p);
          s = upd_acc p (\<lambda>_. a) s
      in case res of
           Inr True \<Rightarrow>
             if sa_address a = 0 then (s, return False)
             else (upd_acc p (sa_state_update (\<lambda>_. Not_accepting)) (add_acceptor (sa_address a) p s), return True)
         | _ \<Rightarrow> (s, res))"

definition start_accepting :: "nat \<Rightarrow> 'w sim \<Rightarrow> 'w sim" where
  "start_accepting p s = upd_acc p (sa_state_update (\<lambda>_. Accepting)) s"

definition stop_accepting :: "nat \<Rightarrow> 'w sim \<Rightarrow> 'w sim" where
  "stop_accepting p s = upd_acc p (sa_state_update (\<lambda>_. Not_accepting)) s"

definition conn_get_address :: "sim_conn \<Rightarrow> string" where
  "conn_get_address c = ''conn_id:'' @ to_string (sc_local c) @ ''/remote_conn_id:'' @ to_string (sc_remote c) @
     ''/accptr:'' @ to_string (sc_remote_address c)"

section \<open>Lag and time stamps\<close>

definition get_lag :: "(nat \<Rightarrow> nat) \<Rightarrow> nat \<Rightarrow> 'w sim \<Rightarrow> 'w sim \<times> nat" where
  "get_lag r p s =
     (let q = sc_params (sim_conns s p)
      in if min_lag q = max_lag q then (s, min_lag q)
         else (s\<lparr>sim_rand := sim_rand s + 1\<rparr>,
           (r (sim_rand s) mod ((max_lag q + 2 ^ 32 - min_lag q) mod 2 ^ 32) + min_lag q) mod 2 ^ 32))"

definition set_time_stamp :: "nat \<Rightarrow> nat \<Rightarrow> 'w sim \<Rightarrow> 'w sim" where
  "set_time_stamp p t s = upd_conn p (\<lambda>c. if t > sc_time_stamp c then c\<lparr>sc_time_stamp := t\<rparr> else c) s"

text \<open>The time at which the next event sent by a connection is handled, computed in 32 bits.\<close>

definition time_of_handling :: "(nat \<Rightarrow> nat) \<Rightarrow> nat \<Rightarrow> 'w sim \<Rightarrow> 'w sim \<times> nat" where
  "time_of_handling r p s =
     (let t = sim_time s mod 2 ^ 32; ts = sc_time_stamp (sim_conns s p); (s, lag) = get_lag r p s
      in (s, (max t ts + 1 + lag) mod 2 ^ 32))"

section \<open>Connections\<close>

definition conn_async_send :: "nat \<Rightarrow> string \<Rightarrow> nat \<Rightarrow> 'w sim \<Rightarrow> 'w sim" where
  "conn_async_send p m msg_id s =
     (if m = [] \<or> sc_state (sim_conns s p) = Disconnected then s
      else let s = upd_conn p (\<lambda>c. c\<lparr>sc_sending := sc_sending c @
                 [\<lparr>op_message = m, op_bytes_send = 0, op_id = msg_id\<rparr>]\<rparr>) s
           in if sc_state (sim_conns s p) = Connected then add_task (sim_time s + 1) (T_send p) s else s)"

text \<open>At most \<open>bandwidth\<close> further bytes of the first packet are put on the way.\<close>

definition handle_send :: "(nat \<Rightarrow> nat) \<Rightarrow> nat \<Rightarrow> 'w sim \<Rightarrow> 'w sim" where
  "handle_send r p s =
     (let c = sim_conns s p
      in if sc_state c \<noteq> Connected then s
         else case sc_sending c of
             [] \<Rightarrow> s
           | k # ks \<Rightarrow>
               if length (op_message k) = op_bytes_send k then s
               else (let m = take (bandwidth (sc_params c)) (drop (op_bytes_send k) (op_message k));
                         s = upd_conn p (\<lambda>c. c\<lparr>sc_sending :=
                               k\<lparr>op_bytes_send := op_bytes_send k + length m\<rparr> # ks\<rparr>) s;
                         (s, t) = time_of_handling r p s;
                         s = set_time_stamp p t s
                     in add_task t (T_message (sc_local c) (sc_remote c) m) s))"

text \<open>
  The copying loop of \<open>handle_read\<close>: the number of bytes wanted and already read, the buffer and the received
  messages, of which a part that is not wanted stays.
\<close>

fun read_loop :: "nat \<Rightarrow> nat \<Rightarrow> memory \<Rightarrow> string list \<Rightarrow> nat \<times> memory \<times> string list" where
  "read_loop max_to_read n mem [] = (n, mem, [])"
| "read_loop max_to_read n mem (m # ms) =
     (if n < max_to_read then
        (if max_to_read - n \<ge> length m then read_loop max_to_read (n + length m) (mem_write mem n m) ms
         else (max_to_read, mem_write mem n (take (max_to_read - n) m), drop (max_to_read - n) m # ms))
      else (n, mem, m # ms))"

definition handle_read :: "nat \<Rightarrow> 'w sim \<Rightarrow> 'w sim" where
  "handle_read p s =
     (let c = sim_conns s p
      in if sc_state c \<noteq> Connected then s
         else case sc_reading c of
             [] \<Rightarrow> s
           | k # ks \<Rightarrow>
               if sc_recv c = [] then s
               else (let read_some = (ip_expect_to_read k = 0);
                         max_to_read = (if read_some then ip_buffer_size k else ip_expect_to_read k);
                         (n, mem, ms) = read_loop max_to_read (ip_bytes_read k) (sim_bufs s (ip_buffer k)) (sc_recv c);
                         k = k\<lparr>ip_bytes_read := n\<rparr>;
                         s = s\<lparr>sim_bufs := (sim_bufs s)(ip_buffer k := mem)\<rparr>
                     in if read_some \<or> n = ip_expect_to_read k then
                          add_handlers_task (H_message_received (sc_handler c) (sc_id c) (ip_buffer k) n (ip_id k))
                            (add_task (sim_time s + 1) (T_read p)
                              (upd_conn p (\<lambda>c. c\<lparr>sc_reading := ks, sc_recv := ms\<rparr>) s))
                        else upd_conn p (\<lambda>c. c\<lparr>sc_reading := k # ks, sc_recv := ms\<rparr>) s))"

definition conn_async_read :: "nat \<Rightarrow> nat \<Rightarrow> nat \<Rightarrow> nat \<Rightarrow> nat \<Rightarrow> 'w sim \<Rightarrow> 'w sim" where
  "conn_async_read p buffer buffer_size num_bytes rid s =
     (if num_bytes > buffer_size then s
      else let s = upd_conn p (\<lambda>c. c\<lparr>sc_reading := sc_reading c @
                 [\<lparr>ip_buffer = buffer, ip_buffer_size = buffer_size, ip_expect_to_read = num_bytes, ip_id = rid,
                   ip_bytes_read = 0\<rparr>]\<rparr>) s
           in if sc_recv (sim_conns s p) \<noteq> [] then add_task (sim_time s + 1) (T_read p) s else s)"

definition conn_connect :: "(nat \<Rightarrow> nat) \<Rightarrow> nat \<Rightarrow> 'w sim \<Rightarrow> 'w sim" where
  "conn_connect r p s =
     (if sc_remote_address (sim_conns s p) = 0 then s
      else let s = upd_conn p (sc_state_update (\<lambda>_. Connecting)) s;
               s = add_connection p s;
               (s, t) = time_of_handling r p s;
               s = set_time_stamp p t s;
               c = sim_conns s p
           in add_task t (T_request (sc_local c) (sc_remote_address c)) s)"

definition conn_disconnect :: "(nat \<Rightarrow> nat) \<Rightarrow> nat \<Rightarrow> 'w sim \<Rightarrow> 'w sim" where
  "conn_disconnect r p s =
     (if sc_state (sim_conns s p) \<noteq> Connected then s
      else let s = upd_conn p (sc_state_update (\<lambda>_. Disconnected)) s;
               (s, t) = time_of_handling r p s;
               s = set_time_stamp p t s;
               c = sim_conns s p;
               s = remove_connection (sc_local c) s;
               s = upd_conn p (sc_local_update (\<lambda>_. 0)) s;
               s = add_task (sim_time s + 1) (T_cancel p) s;
               s = add_handlers_task (H_disconnected (sc_handler c) (sc_id c)) s;
               s = add_task t (T_disconnect (sc_remote c)) s
           in upd_conn p (sc_remote_update (\<lambda>_. 0)) s)"

definition cancel_operations :: "nat \<Rightarrow> 'w sim \<Rightarrow> 'w sim" where
  "cancel_operations p s =
     (let c = sim_conns s p;
          s = fold (\<lambda>k. add_handlers_task (H_message_sent (sc_handler c) (sc_id c) (op_id k)
                (status_aborted ''Operation cancelled!''))) (sc_sending c) s;
          s = upd_conn p (sc_sending_update (\<lambda>_. [])) s
      in fold (\<lambda>k. add_handlers_task (H_connection_error (sc_handler c) (sc_id c)
                (status_aborted ''Operation read cancelled!''))) (sc_reading c) s)"

definition clear_queues :: "nat \<Rightarrow> 'w sim \<Rightarrow> 'w sim" where
  "clear_queues p s = upd_conn p (\<lambda>c. c\<lparr>sc_sending := [], sc_reading := [], sc_recv := []\<rparr>) s"

section \<open>Events\<close>

definition handle_disconnect :: "nat \<Rightarrow> 'w sim \<Rightarrow> 'w sim" where
  "handle_disconnect dest s =
     (case get_connection s dest of
        None \<Rightarrow> s
      | Some p \<Rightarrow>
          if sc_state (sim_conns s p) = Connecting then s
          else let s = upd_conn p (sc_state_update (\<lambda>_. Disconnected)) s;
                   c = sim_conns s p;
                   s = add_handlers_task (H_disconnected (sc_handler c) (sc_id c)) s;
                   s = upd_conn p (sc_remote_update (\<lambda>_. 0)) s;
                   s = add_task (sim_time s + 1) (T_cancel p) s;
                   s = remove_connection (sc_local c) s
               in upd_conn p (sc_local_update (\<lambda>_. 0)) s)"

text \<open>
  The connection that answers an accepted request: its own address is 0, so that it cannot connect itself,
  and both ends get the smaller bandwidth. \<open>t\<close> is the time at which the source learns of it.
\<close>

definition accept_request :: "nat \<Rightarrow> nat \<Rightarrow> nat \<Rightarrow> sim_acc \<Rightarrow> nat \<Rightarrow> string \<Rightarrow> 'w sim \<Rightarrow> 'w sim" where
  "accept_request t src p a cid source_address s =
     (let c = sim_conns s p;
          bw = min (a_bandwidth (sa_params a)) (bandwidth (sc_params c));
          new_addr = to_string (min_lag (sc_params c)) @ '':'' @ to_string (max_lag (sc_params c)) @ '':'' @
            to_string bw @ '':0'';
          q = sim_next_conn s;
          s = upd_conn q (\<lambda>_. new_connection cid new_addr (sa_conn_handler a)) (s\<lparr>sim_next_conn := q + 1\<rparr>);
          (s, res) = conn_init q s
      in if res = return True then
           (let s = add_connection q s;
                l = sc_local (sim_conns s q);
                s = upd_conn p (\<lambda>c. c\<lparr>sc_params := (sc_params c)\<lparr>bandwidth := bw\<rparr>, sc_remote := l\<rparr>) s;
                l = sc_local (sim_conns s p);
                s = upd_conn q (\<lambda>d. d\<lparr>sc_params := (sc_params d)\<lparr>bandwidth := bw\<rparr>, sc_state := Connected,
                      sc_remote := l\<rparr>) s;
                s = set_time_stamp q (t mod 2 ^ 32) s;
                s = add_handlers_task (H_accepted (sa_handler a) (sa_id a) q source_address) s;
                s = add_handlers_task (H_connected (sa_conn_handler a) cid) s;
                s = add_task (sim_time s + 1) (T_read q) s;
                s = add_task (sim_time s + 1) (T_send q) s
            in add_task t (T_accept src) s)
         else s)"

text \<open>
  A request reaches an acceptor. When there is no acceptor, or it is not accepting, an error is reported to
  the source, but the function goes on: it asks the handler of the acceptor, through a null pointer if there
  is none.
\<close>

definition handle_request ::
  "(nat \<Rightarrow> nat) \<Rightarrow> ('w \<Rightarrow> nat \<Rightarrow> nat \<Rightarrow> string \<Rightarrow> 'w \<times> nat option) \<Rightarrow> nat \<Rightarrow> nat \<Rightarrow> 'w sim \<Rightarrow> 'w sim option" where
  "handle_request r req src dest s =
     (case get_connection s src of
        None \<Rightarrow> None
      | Some p \<Rightarrow>
          (let (s, lag) = get_lag r p s;
               t = sim_time s + lag + 1;
               c = sim_conns s p;
               s = (if (case get_acceptor s dest of None \<Rightarrow> True | Some a \<Rightarrow> sa_state (sim_accs s a) \<noteq> Accepting)
                    then add_task t (T_no_route (sc_handler c) (sc_id c)) s else s);
               source_address = conn_get_address c
           in case get_acceptor s dest of
                None \<Rightarrow> None
              | Some ap \<Rightarrow>
                  (let a = sim_accs s ap;
                       (w, answer) = req (sim_world s) (sa_handler a) (sa_id a) source_address;
                       s = s\<lparr>sim_world := w\<rparr>
                   in Some (case answer of
                        None \<Rightarrow> add_task t (T_refuse src) s
                      | Some cid \<Rightarrow> accept_request t src p a cid source_address s))))"

definition handle_message :: "(nat \<Rightarrow> nat) \<Rightarrow> nat \<Rightarrow> nat \<Rightarrow> string \<Rightarrow> 'w sim \<Rightarrow> 'w sim" where
  "handle_message r src dest m s =
     (case get_connection s dest of
        Some q \<Rightarrow>
          if sc_state (sim_conns s q) \<noteq> Connected then
            (case get_connection s src of
               None \<Rightarrow> s
             | Some p \<Rightarrow> (let (s, t) = time_of_handling r p s in add_task t (T_ack src (status_internal ''Broken pipe'')) s))
          else
            (let s = upd_conn q (\<lambda>c. c\<lparr>sc_recv := sc_recv c @ [m]\<rparr>) s;
                 s = (if sc_reading (sim_conns s q) \<noteq> [] then add_task (sim_time s + 1) (T_read q) s else s)
             in case get_connection s src of
                  None \<Rightarrow> s
                | Some p \<Rightarrow>
                    if (case sc_sending (sim_conns s p) of [] \<Rightarrow> False | k # _ \<Rightarrow> length (op_message k) = op_bytes_send k)
                    then (let (s, t) = time_of_handling r q s; s = set_time_stamp q t s
                          in add_task t (T_ack src status_ok) s)
                    else if sc_state (sim_conns s p) = Connected then add_task (sim_time s + 1) (T_send p) s
                    else s)
      | None \<Rightarrow>
          (case get_connection s src of
             None \<Rightarrow> s
           | Some p \<Rightarrow> (let (s, t) = time_of_handling r p s in add_task t (T_ack src (status_internal ''Broken pipe'')) s)))"

definition handle_accept :: "nat \<Rightarrow> 'w sim \<Rightarrow> 'w sim" where
  "handle_accept dest s =
     (case get_connection s dest of
        None \<Rightarrow> s
      | Some p \<Rightarrow>
          (let s = upd_conn p (sc_state_update (\<lambda>_. Connected)) s; c = sim_conns s p;
               s = add_handlers_task (H_connected (sc_handler c) (sc_id c)) s;
               s = add_task (sim_time s + 1) (T_read p) s
           in add_task (sim_time s + 1) (T_send p) s))"

definition handle_refuse :: "nat \<Rightarrow> 'w sim \<Rightarrow> 'w sim" where
  "handle_refuse dest s =
     (case get_connection s dest of
        None \<Rightarrow> s
      | Some p \<Rightarrow>
          (let s = upd_conn p (sc_state_update (\<lambda>_. Disconnected)) s; c = sim_conns s p;
               s = add_task (sim_time s + 1) (T_cancel p) s
           in add_handlers_task (H_connection_error (sc_handler c) (sc_id c) (status_internal ''Connection refused!'')) s))"

definition handle_ack :: "nat \<Rightarrow> status \<Rightarrow> 'w sim \<Rightarrow> 'w sim" where
  "handle_ack dest st s =
     (case get_connection s dest of
        None \<Rightarrow> s
      | Some p \<Rightarrow>
          (case sc_sending (sim_conns s p) of
             [] \<Rightarrow> s
           | k # ks \<Rightarrow>
               (let s = upd_conn p (sc_sending_update (\<lambda>_. ks)) s; c = sim_conns s p;
                    s = add_handlers_task (H_message_sent (sc_handler c) (sc_id c) (op_id k) st) s
                in add_task (sim_time s + 1) (T_send p) s)))"

section \<open>Running the simulation\<close>

definition run_task ::
  "(nat \<Rightarrow> nat) \<Rightarrow> ('w \<Rightarrow> nat \<Rightarrow> nat \<Rightarrow> string \<Rightarrow> 'w \<times> nat option) \<Rightarrow> task \<Rightarrow> 'w sim \<Rightarrow> 'w sim option" where
  "run_task r req t s =
     (case t of
        T_disconnect dest \<Rightarrow> Some (handle_disconnect dest s)
      | T_request src dest \<Rightarrow> handle_request r req src dest s
      | T_message src dest m \<Rightarrow> Some (handle_message r src dest m s)
      | T_accept dest \<Rightarrow> Some (handle_accept dest s)
      | T_refuse dest \<Rightarrow> Some (handle_refuse dest s)
      | T_ack dest st \<Rightarrow> Some (handle_ack dest st s)
      | T_read p \<Rightarrow> Some (handle_read p s)
      | T_send p \<Rightarrow> Some (handle_send r p s)
      | T_cancel p \<Rightarrow> Some (clear_queues p (cancel_operations p s))
      | T_no_route h c \<Rightarrow>
          Some (add_handlers_task (H_connection_error h c (status_internal ''No route to host'')) s))"

fun run_tasks_at ::
  "(nat \<Rightarrow> nat) \<Rightarrow> ('w \<Rightarrow> nat \<Rightarrow> nat \<Rightarrow> string \<Rightarrow> 'w \<times> nat option) \<Rightarrow> task list \<Rightarrow> 'w sim \<Rightarrow> 'w sim option" where
  "run_tasks_at r req [] s = Some s"
| "run_tasks_at r req (t # ts) s = do { s \<leftarrow> run_task r req t s; run_tasks_at r req ts s }"

text \<open>The loop of \<open>process\<close>: \<open>k\<close> more points of time from \<open>t\<close> on, and the number of events so far.\<close>

fun process_loop ::
  "(nat \<Rightarrow> nat) \<Rightarrow> ('w \<Rightarrow> nat \<Rightarrow> nat \<Rightarrow> string \<Rightarrow> 'w \<times> nat option) \<Rightarrow> nat \<Rightarrow> nat \<Rightarrow> nat \<Rightarrow> 'w sim \<Rightarrow> ('w sim \<times> nat) option" where
  "process_loop r req 0 t n s = Some (s, n)"
| "process_loop r req (Suc k) t n s =
     (let s = set_time t s; ts = bucket s t
      in do {
        s \<leftarrow> run_tasks_at r req ts s;
        process_loop r req k (t + 1) (n + length ts) (s\<lparr>sim_tasks := AList.delete t (sim_tasks s)\<rparr>) })"

definition process ::
  "(nat \<Rightarrow> nat) \<Rightarrow> ('w \<Rightarrow> nat \<Rightarrow> nat \<Rightarrow> string \<Rightarrow> 'w \<times> nat option) \<Rightarrow> nat \<Rightarrow> 'w sim \<Rightarrow> ('w sim \<times> nat) option" where
  "process r req time s = process_loop r req (time + 1 - sim_time s) (sim_time s) 0 s"

text \<open>The queue of handler calls; a call may queue further calls.\<close>

partial_function (option) process_handlers ::
  "(handler_task \<Rightarrow> 'w sim \<Rightarrow> 'w sim option) \<Rightarrow> 'w sim \<Rightarrow> 'w sim option" where
  "process_handlers call s =
     (case sim_handlers s of
        [] \<Rightarrow> Some s
      | h # hs \<Rightarrow> call h (s\<lparr>sim_handlers := hs\<rparr>) \<bind> process_handlers call)"

end
