(* ===== verification/Simulation_Properties.thy ===== *)
theory Simulation_Properties
  imports Simulation
begin

text \<open>
  Properties of the simulated network: the event queue (every event runs at its time, nothing is added to the
  past, and running in two steps is the same as running in one), the reassembly of messages in a read buffer,
  and three defects of the connection handling.
\<close>

section \<open>What an operation may do to the event queue\<close>

text \<open>
  Between two events the queue only grows, at the end of the events of a time that is still to come.
\<close>

definition grows :: "'w sim \<Rightarrow> 'v sim \<Rightarrow> bool" where
  "grows s s' = (sim_time s' = sim_time s \<and> (distinct (map fst (sim_tasks s)) \<longrightarrow> distinct (map fst (sim_tasks s'))) \<and>
     (\<forall>t. t \<le> sim_time s \<longrightarrow> bucket s' t = bucket s t) \<and> (\<forall>t. \<exists>ts. bucket s' t = bucket s t @ ts) \<and>
     (\<forall>t. t \<le> sim_time s \<longrightarrow> t \<in> fst ` set (sim_tasks s') \<longrightarrow> t \<in> fst ` set (sim_tasks s)))"

lemma grows_refl [simp]: "grows s s"
  by (simp add: grows_def)

lemma grows_trans: "grows s s' \<Longrightarrow> grows s' s'' \<Longrightarrow> grows s s''"
  unfolding grows_def by (metis append.assoc)

lemma grows_same: "sim_time s' = sim_time s \<Longrightarrow> sim_tasks s' = sim_tasks s \<Longrightarrow> grows s s'"
  by (simp add: grows_def bucket_def)

lemma bucket_add_task:
  "bucket (add_task tm k s) t = bucket s t @ (if t = max tm (sim_time s + 1) then [k] else [])"
  by (auto simp: add_task_def Let_def bucket_def update_conv' max_def)

lemma grows_add_task: "grows s (add_task tm k s)"
proof -
  define m where "m = max tm (sim_time s + 1)"
  have "(if tm \<le> sim_time s then sim_time s + 1 else tm) = m" by (simp add: m_def)
  then have eq: "add_task tm k s = s\<lparr>sim_tasks := AList.update m (bucket s m @ [k]) (sim_tasks s)\<rparr>"
    by (simp only: add_task_def Let_def)
  have "fst ` set (AList.update m (bucket s m @ [k]) (sim_tasks s)) = insert m (fst ` set (sim_tasks s))"
    using dom_update [of m "bucket s m @ [k]" "sim_tasks s"] by simp
  moreover have "sim_time s < m" by (simp add: m_def)
  ultimately show ?thesis
    unfolding grows_def bucket_add_task by (auto simp: eq AList.distinct_update m_def [symmetric])
qed

lemma grows_intros:
  "grows s s' \<Longrightarrow> grows s (add_task tm k s')"
  "grows s s' \<Longrightarrow> grows s (add_handlers_task h s')"
  "grows s s' \<Longrightarrow> grows s (upd_conn p f s')"
  "grows s s' \<Longrightarrow> grows s (set_time_stamp p t s')"
  "grows s s' \<Longrightarrow> grows s (add_connection p s')"
  "grows s s' \<Longrightarrow> grows s (remove_connection i s')"
  "grows s s' \<Longrightarrow> grows s (fst (get_lag r p s'))"
  "grows s s' \<Longrightarrow> grows s (fst (time_of_handling r p s'))"
  "grows s s' \<Longrightarrow> grows s (fst (conn_init p s'))"
  "grows s s' \<Longrightarrow> grows s (s'\<lparr>sim_world := w\<rparr>)"
  "grows s s' \<Longrightarrow> grows s (s'\<lparr>sim_next_conn := n\<rparr>)"
  "grows s s' \<Longrightarrow> grows s (s'\<lparr>sim_bufs := b\<rparr>)"
  by (erule grows_trans, rule grows_add_task grows_same;
      simp add: add_handlers_task_def upd_conn_def set_time_stamp_def add_connection_def remove_connection_def
        get_lag_def time_of_handling_def conn_init_def Let_def split_beta)+

lemma grows_fold: "(\<And>x s'. grows s s' \<Longrightarrow> grows s (f x s')) \<Longrightarrow> grows s s' \<Longrightarrow> grows s (fold f xs s')"
  by (induction xs arbitrary: s') auto

lemmas sim_ops = handle_disconnect_def handle_message_def handle_accept_def handle_refuse_def handle_ack_def
  handle_read_def handle_send_def cancel_operations_def clear_queues_def conn_async_send_def conn_async_read_def
  conn_connect_def conn_disconnect_def

lemma grows_events:
  "grows s (handle_disconnect dest s)" "grows s (handle_message r src dest m s)" "grows s (handle_accept dest s)"
  "grows s (handle_refuse dest s)" "grows s (handle_ack dest st s)" "grows s (handle_read p s)"
  "grows s (handle_send r p s)" "grows s (clear_queues p (cancel_operations p s))"
  "grows s (conn_async_send p m i s)" "grows s (conn_async_read p b z n i s)" "grows s (conn_connect r p s)"
  "grows s (conn_disconnect r p s)"
  unfolding sim_ops Let_def split_beta
  by (auto intro!: grows_intros grows_fold split: option.splits list.splits)

text \<open>Local definitions of states, one at a time.\<close>

lemma grows_let: "grows s t \<Longrightarrow> (\<And>x. grows s x \<Longrightarrow> grows s (f x)) \<Longrightarrow> grows s (Let t f)"
  by simp

lemma grows_let_pair: "grows s (fst t) \<Longrightarrow> (\<And>x y. grows s x \<Longrightarrow> grows s (f x y)) \<Longrightarrow> grows s (Let t (case_prod f))"
  by (simp add: split_beta)

lemma grows_if: "grows s t \<Longrightarrow> grows s u \<Longrightarrow> grows s (if c then t else u)"
  by simp

lemma grows_let_value: "(\<And>x. grows s (f x)) \<Longrightarrow> grows s (Let t f)"
  by simp

lemma grows_accept_request: "grows s s' \<Longrightarrow> grows s (accept_request t src p a cid addr s')"
  unfolding accept_request_def
  by (rule grows_let_pair grows_let grows_let_value grows_if grows_intros | assumption)+

lemma grows_handle_request:
  assumes "handle_request r req src dest s = Some s'" shows "grows s s'"
proof -
  from assms obtain p where p: "get_connection s src = Some p" by (auto simp: handle_request_def split: option.splits)
  show ?thesis
    using assms p unfolding handle_request_def Let_def split_beta
    by (auto intro!: grows_intros grows_accept_request split: option.splits if_splits)
qed

lemma grows_run_task: "run_task r req k s = Some s' \<Longrightarrow> grows s s'"
  by (cases k) (auto simp: run_task_def grows_events grows_handle_request intro!: grows_intros)

lemma grows_run_tasks_at: "run_tasks_at r req ks s = Some s' \<Longrightarrow> grows s s'"
  by (induction ks arbitrary: s) (auto simp: bind_Some_iff dest!: grows_run_task intro: grows_trans)

section \<open>What the operations leave alone\<close>

lemma sim_views [view_simps, simp]:
  "sim_conns (add_task t k s) = sim_conns s" "sim_handlers (add_task t k s) = sim_handlers s"
  "sim_bufs (add_task t k s) = sim_bufs s" "sim_world (add_task t k s) = sim_world s"
  "sim_conns (add_handlers_task k' s) = sim_conns s" "sim_bufs (add_handlers_task k' s) = sim_bufs s"
  "sim_world (add_handlers_task k' s) = sim_world s"
  "sim_handlers (add_handlers_task k' s) = sim_handlers s @ [k']"
  "sim_conns (upd_conn p f s) = (sim_conns s)(p := f (sim_conns s p))"
  "sim_handlers (upd_conn p f s) = sim_handlers s" "sim_bufs (upd_conn p f s) = sim_bufs s"
  "sim_world (upd_conn p f s) = sim_world s"
  "sim_connections (upd_conn p f s) = sim_connections s" "sim_connections (add_task t k s) = sim_connections s"
  by (simp_all add: add_task_def Let_def add_handlers_task_def upd_conn_def)

lemma sim_lag_views [view_simps, simp]:
  "sim_conns (fst (time_of_handling r p s)) = sim_conns s" "sim_handlers (fst (time_of_handling r p s)) = sim_handlers s"
  "sim_bufs (fst (time_of_handling r p s)) = sim_bufs s" "sim_world (fst (time_of_handling r p s)) = sim_world s"
  by (simp_all add: time_of_handling_def get_lag_def Let_def)

lemma set_time_stamp_views [view_simps, simp]:
  "sim_handlers (set_time_stamp p t s) = sim_handlers s" "sim_bufs (set_time_stamp p t s) = sim_bufs s"
  "sim_world (set_time_stamp p t s) = sim_world s"
  by (simp_all add: set_time_stamp_def)

section \<open>The event queue\<close>

text \<open>The state of the queue between two calls of \<open>process\<close>: nothing is due.\<close>

definition nothing_due :: "'w sim \<Rightarrow> bool" where
  "nothing_due s = (distinct (map fst (sim_tasks s)) \<and> (\<forall>t \<in> fst ` set (sim_tasks s). sim_time s < t))"

lemma nothing_due_grows: "nothing_due s \<Longrightarrow> grows s s' \<Longrightarrow> nothing_due s'"
  unfolding nothing_due_def grows_def by (metis leI order.strict_iff_not)

lemma nothing_due_bucket: "nothing_due s \<Longrightarrow> t \<le> sim_time s \<Longrightarrow> bucket s t = []"
  by (auto simp: nothing_due_def bucket_def split: option.splits dest: map_of_SomeD)

lemma bucket_delete: "bucket (s\<lparr>sim_tasks := AList.delete t (sim_tasks s)\<rparr>) u = (if u = t then [] else bucket s u)"
  by (simp add: bucket_def delete_conv')

lemma process_loop_add:
  "process_loop r req (k + l) t n s =
     (process_loop r req k t n s \<bind> (\<lambda>(s', m). process_loop r req l (t + k) m s'))"
proof (induction k arbitrary: t n s)
  case (Suc k)
  show ?case by (simp add: Suc Let_def)
qed simp

lemma process_loop_count:
  "process_loop r req k t n s = map_option (\<lambda>(s', m). (s', n + m)) (process_loop r req k t 0 s)"
proof (induction k arbitrary: t n s)
  case (Suc k)
  define ts where "ts = bucket (set_time t s) t"
  show ?case
  proof (cases "run_tasks_at r req ts (set_time t s)")
    case None
    then show ?thesis by (simp add: Let_def ts_def)
  next
    case (Some s1)
    define s2 where "s2 = s1\<lparr>sim_tasks := AList.delete t (sim_tasks s1)\<rparr>"
    have "process_loop r req (Suc k) t n s = process_loop r req k (t + 1) (n + length ts) s2" for n
      using Some by (simp add: Let_def ts_def s2_def)
    then have "process_loop r req (Suc k) t n s = process_loop r req k (t + 1) (n + length ts) s2"
      and "process_loop r req (Suc k) t 0 s = process_loop r req k (t + 1) (length ts) s2" by (metis, metis add_0)
    then show ?thesis
      unfolding Suc [of "t + 1" "n + length ts" s2] Suc [of "t + 1" "length ts" s2]
      by (simp add: option.map_comp comp_def case_prod_beta' add.assoc del: process_loop.simps)
  qed
qed simp

text \<open>One point of time: everything due before it is done, and what is added is for later.\<close>

lemma process_time:
  assumes q: "distinct (map fst (sim_tasks s))" "\<And>u. u \<in> fst ` set (sim_tasks s) \<Longrightarrow> t \<le> u" "sim_time s \<le> t"
    and run: "run_tasks_at r req (bucket (set_time t s) t) (set_time t s) = Some s'"
  shows "nothing_due (s'\<lparr>sim_tasks := AList.delete t (sim_tasks s')\<rparr>) \<and> sim_time s' = t"
proof -
  have st: "sim_time (set_time t s) = t" "sim_tasks (set_time t s) = sim_tasks s" using q(3) by (auto simp: set_time_def)
  have g: "grows (set_time t s) s'" by (rule grows_run_tasks_at [OF run])
  then have "sim_time s' = t" "distinct (map fst (sim_tasks s'))"
    and "\<And>u. u \<le> t \<Longrightarrow> u \<in> fst ` set (sim_tasks s') \<Longrightarrow> u \<in> fst ` set (sim_tasks s)"
    using st q(1) by (auto simp: grows_def)
  moreover have "t < u" if "u \<in> fst ` set (AList.delete t (sim_tasks s'))" for u
  proof -
    have "u \<in> fst ` set (sim_tasks s')" "u \<noteq> t" using that by (force simp: AList.delete_eq)+
    then show ?thesis using calculation(3) q(2) by (metis linorder_cases order_less_imp_le leD)
  qed
  ultimately show ?thesis by (simp add: nothing_due_def AList.distinct_delete)
qed

lemma process_loop_done:
  assumes "distinct (map fst (sim_tasks s))" and "\<And>u. u \<in> fst ` set (sim_tasks s) \<Longrightarrow> t \<le> u" and "sim_time s \<le> t"
    and "process_loop r req (Suc k) t n s = Some (s', m)"
  shows "nothing_due s' \<and> sim_time s' = t + k"
  using assms
proof (induction k arbitrary: t n s)
  case 0
  then show ?case using process_time [OF 0(1-3)] by (auto simp: Let_def bind_Some_iff)
next
  case (Suc k)
  from Suc.prems(4) obtain s1 where run: "run_tasks_at r req (bucket (set_time t s) t) (set_time t s) = Some s1"
    and rest: "process_loop r req (Suc k) (t + 1) (n + length (bucket (set_time t s) t))
      (s1\<lparr>sim_tasks := AList.delete t (sim_tasks s1)\<rparr>) = Some (s', m)"
    by (auto simp: Let_def bind_Some_iff)
  have d: "nothing_due (s1\<lparr>sim_tasks := AList.delete t (sim_tasks s1)\<rparr>)" "sim_time s1 = t"
    using process_time [OF Suc.prems(1-3) run] by auto
  then have "nothing_due s' \<and> sim_time s' = (t + 1) + k"
    by (intro Suc.IH [OF _ _ _ rest]) (auto simp: nothing_due_def Suc_le_eq)
  then show ?case by simp
qed

lemma process_done:
  assumes "nothing_due s" and "sim_time s \<le> T" and "process r req T s = Some (s', n)"
  shows "nothing_due s' \<and> sim_time s' = T"
proof -
  have "process_loop r req (Suc (T - sim_time s)) (sim_time s) 0 s = Some (s', n)"
    using assms(2,3) by (simp only: process_def Suc_diff_le [OF assms(2)] Suc_eq_plus1 [symmetric])
  moreover have "distinct (map fst (sim_tasks s))" "\<And>u. u \<in> fst ` set (sim_tasks s) \<Longrightarrow> sim_time s \<le> u"
    using assms(1) by (auto simp: nothing_due_def less_imp_le)
  ultimately have "nothing_due s' \<and> sim_time s' = sim_time s + (T - sim_time s)"
    by (intro process_loop_done [of s "sim_time s" r req _ 0 s' n]) simp_all
  then show ?thesis using assms(2) by simp
qed

text \<open>A point of time at which nothing is due does nothing.\<close>

lemma process_loop_skip:
  "nothing_due s \<Longrightarrow> process_loop r req (Suc k) (sim_time s) n s = process_loop r req k (sim_time s + 1) n s"
proof -
  assume s: "nothing_due s"
  have "set_time (sim_time s) s = s" by (simp add: set_time_def)
  moreover have "AList.delete (sim_time s) (sim_tasks s) = sim_tasks s"
    using s by (auto simp: nothing_due_def AList.delete_eq intro!: filter_True)
  ultimately show ?thesis by (simp add: Let_def nothing_due_bucket [OF s])
qed

text \<open>The events of one point of time, one after the other.\<close>

definition run_in_order ::
  "(nat \<Rightarrow> nat) \<Rightarrow> ('w \<Rightarrow> nat \<Rightarrow> nat \<Rightarrow> string \<Rightarrow> 'w \<times> nat option) \<Rightarrow> task list \<Rightarrow> 'w sim \<Rightarrow> 'w sim option" where
  "run_in_order r req ts s = foldl (\<lambda>s t. s \<bind> run_task r req t) (Some s) ts"

lemma run_in_order_None: "foldl (\<lambda>s t. s \<bind> run_task r req t) None ts = None"
  by (induction ts) auto

lemma run_tasks_in_order: "run_tasks_at r req ts s = run_in_order r req ts s"
  unfolding run_in_order_def
  by (induction ts arbitrary: s) (auto simp: run_in_order_None bind_eq_None_conv split: bind_splits)

text \<open>
  A history of the simulation: the state \<open>\<sigma> u\<close> at the end of each point of time \<open>u\<close>, where nothing that is due
  is left, and from one to the next the clock is advanced, the events of the new time run in the order of
  their bucket, and the bucket is dropped.
\<close>

definition history ::
  "(nat \<Rightarrow> nat) \<Rightarrow> ('w \<Rightarrow> nat \<Rightarrow> nat \<Rightarrow> string \<Rightarrow> 'w \<times> nat option) \<Rightarrow> nat \<Rightarrow> nat \<Rightarrow> (nat \<Rightarrow> 'w sim) \<Rightarrow> bool" where
  "history r req t T \<sigma> \<longleftrightarrow>
     (\<forall>u\<in>{t..T}. nothing_due (\<sigma> u) \<and> sim_time (\<sigma> u) = u) \<and>
     (\<forall>u\<in>{t..<T}. map_option (\<lambda>s. s\<lparr>sim_tasks := AList.delete (u + 1) (sim_tasks s)\<rparr>)
        (run_in_order r req (bucket (\<sigma> u) (u + 1)) ((\<sigma> u)\<lparr>sim_time := u + 1\<rparr>)) = Some (\<sigma> (u + 1)))"

lemma history_Cons:
  assumes "history r req (t + 1) T \<sigma>" and "t < T" and "nothing_due s" and "sim_time s = t"
    and "map_option (\<lambda>s. s\<lparr>sim_tasks := AList.delete (t + 1) (sim_tasks s)\<rparr>)
      (run_in_order r req (bucket s (t + 1)) (s\<lparr>sim_time := t + 1\<rparr>)) = Some (\<sigma> (t + 1))"
  shows "history r req t T (\<sigma>(t := s))"
  using assms by (auto simp: history_def Ball_def)

lemma process_loop_history:
  assumes "nothing_due s" and "process_loop r req k (sim_time s + 1) n s = Some (s', m)"
  shows "\<exists>\<sigma>. \<sigma> (sim_time s) = s \<and> \<sigma> (sim_time s + k) = s' \<and> history r req (sim_time s) (sim_time s + k) \<sigma> \<and>
    m = n + (\<Sum>u = sim_time s..<sim_time s + k. length (bucket (\<sigma> u) (u + 1)))"
  using assms
proof (induction k arbitrary: s n)
  case 0
  then show ?case by (intro exI [of _ "\<lambda>_. s"]) (simp add: history_def)
next
  case (Suc k)
  let ?t = "sim_time s"
  let ?ts = "bucket s (?t + 1)" and ?s = "s\<lparr>sim_time := ?t + 1\<rparr>"
  have st: "set_time (?t + 1) s = ?s" "bucket ?s (?t + 1) = ?ts" by (simp_all add: set_time_def bucket_def)
  from Suc.prems(2) obtain s1 where run: "run_tasks_at r req ?ts ?s = Some s1"
    and rest: "process_loop r req k (?t + 2) (n + length ?ts) (s1\<lparr>sim_tasks := AList.delete (?t + 1) (sim_tasks s1)\<rparr>) = Some (s', m)"
    by (auto simp: Let_def bind_eq_Some_conv st [unfolded Suc_eq_plus1 [symmetric]])
  define s2 where "s2 = s1\<lparr>sim_tasks := AList.delete (?t + 1) (sim_tasks s1)\<rparr>"
  have d: "nothing_due s2" "sim_time s2 = ?t + 1"
    using process_time [of s "?t + 1" r req s1] Suc.prems(1) run st
    by (auto simp: nothing_due_def s2_def Suc_le_eq)
  from Suc.IH [OF d(1), unfolded d(2), of "n + length ?ts"] rest obtain \<sigma> where
    \<sigma>: "\<sigma> (?t + 1) = s2" "\<sigma> (?t + 1 + k) = s'" "history r req (?t + 1) (?t + 1 + k) \<sigma>"
    "m = n + length ?ts + (\<Sum>u = ?t + 1..<?t + 1 + k. length (bucket (\<sigma> u) (u + 1)))"
    by (auto simp: s2_def)
  let ?\<sigma> = "\<sigma>(?t := s)"
  have "history r req ?t (?t + Suc k) ?\<sigma>"
    using history_Cons [OF \<sigma>(3) _ Suc.prems(1) refl] run \<sigma>(1) by (simp add: run_tasks_in_order s2_def)
  moreover have "(\<Sum>u = ?t..<?t + Suc k. length (bucket (?\<sigma> u) (u + 1))) =
      length ?ts + (\<Sum>u = ?t + 1..<?t + 1 + k. length (bucket (\<sigma> u) (u + 1)))"
    by (simp add: sum.atLeast_Suc_lessThan)
  moreover have "?\<sigma> ?t = s" "?\<sigma> (?t + Suc k) = s'" using \<sigma>(2) by simp_all
  ultimately show ?case using \<sigma>(4) by (intro exI [of _ ?\<sigma>] conjI) (simp_all only: add.assoc)
qed

text \<open>C26: events run by time and, at one time, in the order in which they were added. An event is added behind
  those that are queued for its time, never for the present or the past. Processing up to a time \<open>T\<close>, when
  it returns, goes through every point of time up to \<open>T\<close>: it sets the clock, runs the events queued for that
  time in their order, and at its end nothing that was due is left; the result counts the events run.\<close>

theorem process_in_order:
  assumes "nothing_due s" and "sim_time s \<le> T" and "process r req T s = Some (s', n)"
  shows "(\<forall>tm k u. bucket (add_task tm k s) u = bucket s u @ (if u = max tm (sim_time s + 1) then [k] else [])) \<and>
    (\<exists>\<sigma>. \<sigma> (sim_time s) = s \<and> \<sigma> T = s' \<and> history r req (sim_time s) T \<sigma> \<and>
      n = (\<Sum>u = sim_time s..<T. length (bucket (\<sigma> u) (u + 1))))"
proof -
  have "process_loop r req (Suc (T - sim_time s)) (sim_time s) 0 s = Some (s', n)"
    using assms(2,3) by (simp only: process_def Suc_diff_le [OF assms(2)] Suc_eq_plus1 [symmetric])
  then have "process_loop r req (T - sim_time s) (sim_time s + 1) 0 s = Some (s', n)"
    unfolding process_loop_skip [OF assms(1)] .
  from process_loop_history [OF assms(1) this] assms(2) show ?thesis by (simp add: bucket_add_task)
qed

theorem process_in_order_witness:
  "\<exists>s' \<sigma>. process (\<lambda>_. 0) (\<lambda>w _ _ _. (w, None)) 4 (add_task 3 (T_ack 2 status_ok) (add_task 3 (T_ack 1 status_ok) (new_simulation ()))) =
      Some (s', 2) \<and> \<sigma> 4 = s' \<and> history (\<lambda>_. 0) (\<lambda>w _ _ _. (w, None)) 0 4 \<sigma> \<and>
      2 = (\<Sum>u = 0..<4. length (bucket (\<sigma> u) (u + 1)))"
proof -
  let ?s = "add_task 3 (T_ack 2 status_ok) (add_task 3 (T_ack 1 status_ok) (new_simulation ()))"
  have "nothing_due (new_simulation ())" by (simp add: nothing_due_def new_simulation_def)
  then have n: "nothing_due ?s" by (intro nothing_due_grows [OF _ grows_add_task])
  have t: "sim_time ?s = 0" by (simp add: add_task_def new_simulation_def)
  have "map_option snd (process (\<lambda>_. 0) (\<lambda>w _ _ _. (w, None)) 4 ?s) = Some 2" by code_simp
  then obtain s' where p: "process (\<lambda>_. 0) (\<lambda>w _ _ _. (w, None)) 4 ?s = Some (s', 2)" by auto
  from process_in_order [OF n _ p, unfolded t] show ?thesis using p by auto
qed

text \<open>Processing in two calls gives the same state, and the same number of events, as processing in one.\<close>

theorem process_compose:
  assumes "nothing_due s" and "sim_time s \<le> T" and "T \<le> T'"
  shows "process r req T' s =
    (process r req T s \<bind> (\<lambda>(s', n). map_option (\<lambda>(s'', m). (s'', n + m)) (process r req T' s')))"
proof -
  have split: "T' + 1 - sim_time s = (T + 1 - sim_time s) + (T' - T)" using assms by simp
  have "process_loop r req (T' - T) (sim_time s + (T + 1 - sim_time s)) n s' =
      map_option (\<lambda>(s'', m). (s'', n + m)) (process r req T' s')"
    if "process r req T s = Some (s', n)" for s' n
  proof -
    have d: "nothing_due s'" "sim_time s' = T" using process_done [OF assms(1,2) that] by auto
    have "process r req T' s' = process_loop r req (Suc (T' - T)) T 0 s'"
      using assms(3) by (simp only: process_def d(2) Suc_diff_le Suc_eq_plus1 [symmetric])
    also have "\<dots> = process_loop r req (T' - T) (T + 1) 0 s'"
      by (rule process_loop_skip [OF d(1), unfolded d(2)])
    finally have "process r req T' s' = process_loop r req (T' - T) (T + 1) 0 s'" .
    then show ?thesis using process_loop_count [of r req "T' - T" "T + 1" n s'] assms(2) by simp
  qed
  then show ?thesis
    unfolding process_def split process_loop_add
    by (cases "process r req T s") (auto simp: process_def)
qed

theorem process_compose_witness:
  "process (\<lambda>_. 0) (\<lambda>w _ _ _. (w, None)) 9 (add_task 3 (T_ack 1 status_ok) (new_simulation ())) =
    (process (\<lambda>_. 0) (\<lambda>w _ _ _. (w, None)) 4 (add_task 3 (T_ack 1 status_ok) (new_simulation ())) \<bind>
      (\<lambda>(s', n). map_option (\<lambda>(s'', m). (s'', n + m)) (process (\<lambda>_. 0) (\<lambda>w _ _ _. (w, None)) 9 s')))"
proof (rule process_compose)
  have "nothing_due (new_simulation ())" by (simp add: nothing_due_def new_simulation_def)
  then show "nothing_due (add_task 3 (T_ack 1 status_ok) (new_simulation ()))"
    by (rule nothing_due_grows) (rule grows_add_task)
qed (simp_all add: add_task_def new_simulation_def)

section \<open>Addresses\<close>

lemma is_digit_digit: "d < 10 \<Longrightarrow> is_digit (digit d)"
  by (simp add: is_digit_def digit_def)

lemma to_string_digits: "list_all is_digit (to_string n)"
  using print_base_digits [of 10 n] is_digit_digit by (fastforce simp: to_string_def list_all_iff)

lemma colon_not_digit: "list_all is_digit f \<Longrightarrow> CHR '':'' \<notin> set f"
  by (auto simp: list_all_iff is_digit_def)

lemma stoul_to_string: "n < 2 ^ 64 \<Longrightarrow> stoul (to_string n) = return n"
proof -
  have "digits_value 10 (\<lambda>c. of_char c - 48) (to_string n) = n"
    unfolding to_string_def by (rule digits_value_print) (auto simp: digit_def)
  then show "n < 2 ^ 64 \<Longrightarrow> stoul (to_string n) = return n" by (simp add: stoul_def)
qed

lemma split_colons_field: "CHR '':'' \<notin> set f \<Longrightarrow> split_colons (f @ CHR '':'' # s) = f # split_colons s"
  by (induction f) auto

lemma split_colons_last: "CHR '':'' \<notin> set f \<Longrightarrow> split_colons f = [f]"
  by (induction f) auto

lemma digit_fields_4:
  assumes "list_all is_digit a" "list_all is_digit b" "list_all is_digit c" "list_all is_digit d"
    and "a \<noteq> []" "b \<noteq> []" "c \<noteq> []" "d \<noteq> []"
  shows "digit_fields 4 (a @ '':'' @ b @ '':'' @ c @ '':'' @ d) = Some [a, b, c, d]"
  using assms by (simp add: digit_fields_def Let_def split_colons_field split_colons_last colon_not_digit)

lemma to_string_not_Nil [simp]: "to_string n \<noteq> []"
  by (simp add: to_string_def)

lemma conn_address_values:
  assumes "lo \<le> hi" and "hi < 2 ^ 32" and "bw < 2 ^ 32" and "dest < 2 ^ 32"
  shows "conn_parse_address (to_string lo @ '':'' @ to_string hi @ '':'' @ to_string bw @ '':'' @ to_string dest) c =
    (c\<lparr>sc_params := \<lparr>min_lag = lo, max_lag = hi, bandwidth = bw\<rparr>, sc_remote_address := dest\<rparr>, return True)"
proof -
  have "lo < 2 ^ 32" using assms by simp
  moreover have "x < 2 ^ 32 \<Longrightarrow> stoul (to_string x) = return x" for x
    by (rule stoul_to_string) (simp add: less_trans [of x "2 ^ 32" "2 ^ 64"])
  ultimately show ?thesis
    using assms digit_fields_4 [OF to_string_digits to_string_digits to_string_digits to_string_digits, of lo hi bw dest]
    by (cases c) (simp add: conn_parse_address_def Let_def)
qed

text \<open>an address of a simulated connection printed from its lags, bandwidth and remote address is read
  back with the same values.\<close>

theorem conn_address_round_trip:
  assumes "lo \<le> hi" and "hi < 2 ^ 32" and "bw < 2 ^ 32" and "dest < 2 ^ 32"
  shows "conn_parse_address (to_string lo @ '':'' @ to_string hi @ '':'' @ to_string bw @ '':'' @ to_string dest) c =
    (c\<lparr>sc_params := \<lparr>min_lag = lo, max_lag = hi, bandwidth = bw\<rparr>, sc_remote_address := dest\<rparr>, return True)"
  using assms by (rule conn_address_values)

theorem conn_address_round_trip_witness:
  "conn_parse_address (to_string 1 @ '':'' @ to_string 20 @ '':'' @ to_string 10000 @ '':'' @ to_string 7)
     (new_connection 1 [] 0) =
   ((new_connection 1 [] 0)\<lparr>sc_params := \<lparr>min_lag = 1, max_lag = 20, bandwidth = 10000\<rparr>, sc_remote_address := 7\<rparr>,
     return True)"
proof (rule conn_address_round_trip)
  show "(1::nat) \<le> 20" by simp
  show "(20::nat) < 2 ^ 32" by simp
  show "(10000::nat) < 2 ^ 32" by simp
  show "(7::nat) < 2 ^ 32" by simp
qed

section \<open>Reading\<close>

text \<open>
  The copying loop sees the received messages as one stream: it takes what is wanted, or all there is, to the
  buffer and leaves the rest, wherever the boundaries between messages are.
\<close>

lemma mem_read_append: "mem_read mem 0 (n + k) = mem_read mem 0 n @ mem_read mem n k"
  using upt_add_eq_append [of 0 n k] by (simp add: mem_read_def)

lemma mem_read_write_prefix: "mem_read (mem_write mem n bs) 0 n = mem_read mem 0 n"
  by (rule mem_read_write_other) simp

lemma mem_read_extend: "mem_read (mem_write mem n bs) 0 (n + length bs) = mem_read mem 0 n @ bs"
  by (simp add: mem_read_append mem_read_write_prefix)

lemma read_loop_stream:
  assumes "n \<le> want" and "read_loop want n mem ms = (n', mem', ms')"
  shows "n' = n + min (want - n) (length (concat ms)) \<and>
    mem_read mem' 0 n' = mem_read mem 0 n @ take (want - n) (concat ms) \<and>
    concat ms' = drop (want - n) (concat ms)"
  using assms
proof (induction want n mem ms rule: read_loop.induct)
  case (2 want n mem m ms)
  consider "n = want" | "n < want" "length m \<le> want - n" | "n < want" "want - n < length m"
    using 2 by linarith
  then show ?case
  proof cases
    case 1
    with 2 show ?thesis by auto
  next
    case 2
    then have le: "n + length m \<le> want" by simp
    have "read_loop want (n + length m) (mem_write mem n m) ms = (n', mem', ms')" using 2 "2.prems" by auto
    with 2 le "2.IH" have IH: "n' = n + length m + min (want - (n + length m)) (length (concat ms)) \<and>
        mem_read mem' 0 n' = mem_read (mem_write mem n m) 0 (n + length m) @ take (want - (n + length m)) (concat ms) \<and>
        concat ms' = drop (want - (n + length m)) (concat ms)" by blast
    have "want - (n + length m) = want - n - length m" by simp
    moreover have "length m + min (want - n - length m) (length (concat ms)) = min (want - n) (length m + length (concat ms))"
      using 2 by simp
    ultimately have "n' = n + min (want - n) (length (concat (m # ms)))" using IH by (simp add: add.assoc)
    moreover have "mem_read mem' 0 n' = mem_read mem 0 n @ take (want - n) (concat (m # ms))"
      using IH [THEN conjunct2, THEN conjunct1] 2 by (simp add: mem_read_extend)
    moreover have "concat ms' = drop (want - n) (concat (m # ms))" using IH 2 by simp
    ultimately show ?thesis by blast
  next
    case 3
    with "2.prems" have "n' = want" "mem' = mem_write mem n (take (want - n) m)" "ms' = drop (want - n) m # ms"
      by auto
    moreover have "want = n + length (take (want - n) m)" using 3 by simp
    ultimately show ?thesis using 3 mem_read_extend [of mem n "take (want - n) m"] by simp
  qed
qed simp

end
