(* ===== verification/Simulated_Node.thy ===== *)
theory Simulated_Node
  imports Node_Properties Simulation_Properties
begin

text \<open>
  Nodes on the simulated network. The handlers of connections and acceptors are nodes: a call queued by the
  network runs the handler of the node, and the actions the handler returns are performed on the network.
  Calls of the virtual functions of the concrete node are recorded in the order in which they are made.

  Shown: whatever the fragmentation and the interleaving of arrivals, reads and handler calls, a node is given
  exactly the messages that were sent to it, in order; and as long as some of those that have arrived are
  missing, a read or a handler call is queued, which leads on to all of them.
\<close>

section \<open>The composed system\<close>

record world =
  w_nodes :: "nat \<Rightarrow> net_node"
  w_next_buf :: nat
  w_script :: "(nat \<times> action) list"

definition perform :: "(nat \<Rightarrow> nat) \<Rightarrow> nat \<Rightarrow> action \<Rightarrow> world sim \<Rightarrow> world sim" where
  "perform r h a s =
     (case a of
        Async_send c m i \<Rightarrow> conn_async_send c m i s
      | Async_read c buffer buffer_size n i \<Rightarrow> conn_async_read c buffer buffer_size n i s
      | Conn_connect c \<Rightarrow> conn_connect r c s
      | Conn_disconnect c \<Rightarrow> conn_disconnect r c s
      | Start_accepting p \<Rightarrow> start_accepting p s
      | Stop_accepting p \<Rightarrow> stop_accepting p s
      | _ \<Rightarrow> s\<lparr>sim_world := (sim_world s)\<lparr>w_script := w_script (sim_world s) @ [(h, a)]\<rparr>\<rparr>)"

definition put_node :: "nat \<Rightarrow> net_node \<Rightarrow> world sim \<Rightarrow> world sim" where
  "put_node h n s = s\<lparr>sim_world := (sim_world s)\<lparr>w_nodes := (w_nodes (sim_world s))(h := n)\<rparr>\<rparr>"

definition node_req :: "world \<Rightarrow> nat \<Rightarrow> nat \<Rightarrow> string \<Rightarrow> world \<times> nat option" where
  "node_req w h a address =
     (let (n, i) = on_requested (w_next_buf w) (w_nodes w h) a address
      in (w\<lparr>w_nodes := (w_nodes w)(h := n), w_next_buf := w_next_buf w + 1\<rparr>, i))"

definition node_call :: "(nat \<Rightarrow> nat) \<Rightarrow> handler_task \<Rightarrow> world sim \<Rightarrow> world sim option" where
  "node_call r t s =
     (let node = w_nodes (sim_world s); cs = (\<lambda>k. sc_state (sim_conns s k))
      in case t of
           H_message_received h c buffer n i \<Rightarrow>
             map_option (\<lambda>acts. fold (perform r h) acts s) (on_message_received cs (sim_bufs s) (node h) c buffer n i)
         | H_message_sent h c i st \<Rightarrow> Some (fold (perform r h) (on_message_sent (node h) c i st) s)
         | H_connected h c \<Rightarrow>
             map_option (\<lambda>(n, acts). fold (perform r h) acts (put_node h n s)) (on_connected (node h) c)
         | H_disconnected h c \<Rightarrow>
             (let (n, acts) = on_disconnected (node h) c in Some (fold (perform r h) acts (put_node h n s)))
         | H_connection_error h c st \<Rightarrow>
             map_option (\<lambda>acts. fold (perform r h) acts s) (on_connection_error (node h) c st)
         | H_accepted h a q address \<Rightarrow>
             Some (put_node h (on_acceptor_connected (node h) a q (sc_id (sim_conns s q)) address) s))"

section \<open>What the network operations leave alone\<close>

text \<open>What a message that arrives does to its destination, and to everything the reader of it depends on.\<close>

lemma handle_message_views:
  assumes "get_connection s dest = Some q"
  shows "sim_handlers (handle_message r src dest m s) = sim_handlers s"
    and "sim_bufs (handle_message r src dest m s) = sim_bufs s"
    and "sim_world (handle_message r src dest m s) = sim_world s"
    and "sc_state (sim_conns s q) = Connected \<Longrightarrow>
      sim_conns (handle_message r src dest m s) q =
        (sim_conns s q)\<lparr>sc_recv := sc_recv (sim_conns s q) @ [m],
          sc_time_stamp := sc_time_stamp (sim_conns (handle_message r src dest m s) q)\<rparr>"
  using assms
  by (auto simp: handle_message_def Let_def split_beta set_time_stamp_def split: option.splits list.splits)

section \<open>Frames\<close>

definition frame_header :: "nat \<Rightarrow> string" where
  "frame_header n = [char_of (n div 2 ^ 16 mod 256), char_of (n div 2 ^ 8 mod 256), char_of (n mod 256)]"

definition sendable :: "string \<Rightarrow> bool" where
  "sendable blob = (0 < length blob \<and> length blob \<le> max_message_size)"

lemma length_frame_header [simp]: "length (frame_header n) = 3"
  by (simp add: frame_header_def)

lemma frame_header_frame: "sendable blob \<Longrightarrow> frame blob = frame_header (length blob) @ blob"
  by (simp add: frame_def frame_header_def sendable_def max_message_size_def Let_def)

text \<open>The receiver reads the length that the sender wrote.\<close>

lemma message_size_header:
  assumes "n < 2 ^ 24" and "mem_read mem 0 3 = frame_header n" shows "message_size mem = n"
proof -
  have "mem 0 = char_of (n div 2 ^ 16 mod 256)" "mem 1 = char_of (n div 2 ^ 8 mod 256)" "mem 2 = char_of (n mod 256)"
    using assms(2) by (simp_all add: mem_read_def frame_header_def upt_rec numeral_2_eq_2)
  then have "message_size mem = n mod 256 + n div 2 ^ 8 mod 256 * 2 ^ 8 + n div 2 ^ 16 mod 256 * 2 ^ 16"
    by (simp add: message_size_def)
  also have "\<dots> = n"
  proof -
    have "n div 2 ^ 16 mod 256 = n div 2 ^ 16" using assms(1) by (simp add: less_mult_imp_div_less)
    moreover have "n div 2 ^ 8 mod 256 + 256 * (n div 2 ^ 16) = n div 2 ^ 8"
      using div_mult2_eq [of n "2 ^ 8" "2 ^ 8"] by (simp add: mod_mult_div_eq)
    moreover have "n mod 256 + 256 * (n div 2 ^ 8) = n" by (simp add: mod_mult_div_eq)
    moreover have "x + y * 2 ^ 8 + z * 2 ^ 16 = x + 256 * (y + 256 * z)" for x y z :: nat by simp
    ultimately show ?thesis by metis
  qed
  finally show ?thesis .
qed

lemma frame_header_inject: "frame_header m = frame_header n \<Longrightarrow> m < 2 ^ 24 \<Longrightarrow> n < 2 ^ 24 \<Longrightarrow> m = n"
proof -
  assume a: "frame_header m = frame_header n" "m < 2 ^ 24" "n < 2 ^ 24"
  define mem :: memory where "mem i = (if i < 3 then frame_header m ! i else CHR 0x00)" for i
  have "mem_read mem 0 3 = frame_header m" by (rule nth_equalityI) (simp_all add: mem_read_def mem_def)
  with a show "m = n" using message_size_header by metis
qed

lemma sendable_small: "sendable b \<Longrightarrow> length b < 2 ^ 24"
  by (simp add: sendable_def max_message_size_def)

lemma frame_prefix_free:
  assumes "sendable a" and "sendable b" and "prefix (frame a @ u) (frame b @ v)"
  shows "a = b \<and> prefix u v"
proof -
  from assms have p: "prefix (frame_header (length a) @ a @ u) (frame_header (length b) @ b @ v)"
    by (simp add: frame_header_frame)
  then obtain w where w: "frame_header (length b) @ b @ v = frame_header (length a) @ a @ u @ w" by (auto elim: prefixE)
  then have "frame_header (length b) = frame_header (length a)" by simp
  with assms have len: "length b = length a" by (metis frame_header_inject sendable_small)
  with w show ?thesis by (simp add: prefix_def)
qed

text \<open>A stream that starts with whole frames of messages that could have been sent.\<close>

lemma frames_prefix:
  assumes "list_all sendable ds" and "list_all sendable bs"
    and "prefix (concat (map frame ds) @ pend) (concat (map frame bs))"
  shows "take (length ds) bs = ds \<and> prefix pend (concat (map frame (drop (length ds) bs)))"
  using assms
proof (induction ds arbitrary: bs)
  case (Cons d ds)
  have "frame d \<noteq> []" by (simp add: frame_def Let_def)
  with Cons.prems obtain b bs' where bs: "bs = b # bs'" by (cases bs) auto
  with Cons.prems have "d = b \<and> prefix (concat (map frame ds) @ pend) (concat (map frame bs'))"
    by (intro frame_prefix_free) auto
  with Cons.IH [of bs'] Cons.prems bs show ?case by auto
qed simp

lemma pending_header:
  assumes "list_all sendable bs" and "prefix pend (concat (map frame bs))" and "3 \<le> length pend"
  shows "\<exists>b bs'. bs = b # bs' \<and> take 3 pend = frame_header (length b)"
proof (cases bs)
  case Nil
  with assms show ?thesis by simp
next
  case (Cons b bs')
  with assms have "prefix pend (frame_header (length b) @ b @ concat (map frame bs'))"
    by (simp add: frame_header_frame)
  then have "take 3 pend = take 3 (frame_header (length b) @ b @ concat (map frame bs'))"
    using assms(3) by (auto simp: prefix_def) (metis append_eq_append_conv_if append_take_drop_id length_frame_header take_append take_all_iff)
  with Cons show ?thesis by simp
qed

section \<open>Receiving\<close>

definition delivered :: "nat \<Rightarrow> nat \<Rightarrow> world sim \<Rightarrow> string list" where
  "delivered h c s = concat (map (\<lambda>(h', a). case a of S_on_blob_received c' blob \<Rightarrow>
     if h' = h \<and> c' = c then [blob] else [] | _ \<Rightarrow> []) (w_script (sim_world s)))"

text \<open>Connection \<open>p\<close> belongs to peer \<open>c\<close> of node \<open>h\<close> and is open; \<open>b\<close> is the buffer of the peer.\<close>

definition open_peer :: "nat \<Rightarrow> nat \<Rightarrow> nat \<Rightarrow> world sim \<Rightarrow> bool" where
  "open_peer p h c s = (sc_state (sim_conns s p) = Connected \<and> sc_handler (sim_conns s p) = h \<and>
     sc_id (sim_conns s p) = c \<and>
     (case map_of (n_known_peers (w_nodes (sim_world s) h)) c of Some i \<Rightarrow> pi_connection i = Some p | None \<Rightarrow> False))"

text \<open>The read that is under way, of a header or of a message.\<close>

definition proper_read :: "nat \<Rightarrow> incoming_packet \<Rightarrow> bool" where
  "proper_read b k = (ip_buffer k = b \<and> ip_buffer_size k = max_message_size \<and>
     (ip_id k = waiting_header \<and> ip_expect_to_read k = header_bytes \<or>
      ip_id k = waiting_message \<and> 0 < ip_expect_to_read k \<and> ip_expect_to_read k \<le> max_message_size))"

definition reading :: "nat \<Rightarrow> nat \<Rightarrow> nat \<Rightarrow> nat \<Rightarrow> incoming_packet \<Rightarrow> world sim \<Rightarrow> bool" where
  "reading p h c b k s = (open_peer p h c s \<and> proper_read b k \<and>
     (sc_reading (sim_conns s p) = [k] \<and> sim_handlers s = [] \<and> ip_bytes_read k < ip_expect_to_read k \<or>
      sc_reading (sim_conns s p) = [] \<and> ip_bytes_read k = ip_expect_to_read k \<and>
        sim_handlers s = [H_message_received h c b (ip_bytes_read k) (ip_id k)]))"

text \<open>The bytes that have arrived and are not part of a delivered message.\<close>

definition pending :: "nat \<Rightarrow> nat \<Rightarrow> incoming_packet \<Rightarrow> world sim \<Rightarrow> string" where
  "pending p b k s = (if ip_id k = waiting_message then frame_header (ip_expect_to_read k) else []) @
     mem_read (sim_bufs s b) 0 (ip_bytes_read k) @ concat (sc_recv (sim_conns s p))"

text \<open>A node that has just been connected: the first read is of a header.\<close>

definition listening :: "nat \<Rightarrow> nat \<Rightarrow> nat \<Rightarrow> nat \<Rightarrow> world sim \<Rightarrow> bool" where
  "listening p h c b s = (open_peer p h c s \<and> sim_handlers s = [] \<and> sc_recv (sim_conns s p) = [] \<and>
     sc_reading (sim_conns s p) = [\<lparr>ip_buffer = b, ip_buffer_size = max_message_size, ip_expect_to_read = header_bytes,
       ip_id = waiting_header, ip_bytes_read = 0\<rparr>] \<and> delivered h c s = [])"

text \<open>A queued event of the network, and the queue without it.\<close>

definition queued :: "task \<Rightarrow> 'w sim \<Rightarrow> bool" where
  "queued t s \<longleftrightarrow> (\<exists>tm. t \<in> set (bucket s tm))"

definition take_task :: "nat \<Rightarrow> task \<Rightarrow> 'w sim \<Rightarrow> 'w sim" where
  "take_task tm t s = s\<lparr>sim_tasks := AList.update tm (remove1 t (bucket s tm)) (sim_tasks s)\<rparr>"

lemma queued_add_task [simp]: "queued t (add_task tm t' s) \<longleftrightarrow> t = t' \<or> queued t s"
  unfolding queued_def bucket_add_task by auto

lemma queued_same [simp]:
  "queued t (upd_conn p f s) = queued t s" "queued t (set_time_stamp p tm s) = queued t s"
  "queued t (fst (time_of_handling r p s)) = queued t s" "queued t (add_handlers_task h s) = queued t s"
  "queued t (s\<lparr>sim_world := w\<rparr>) = queued t s"
  by (simp_all add: queued_def bucket_def set_time_stamp_def upd_conn_def add_handlers_task_def time_of_handling_def
      get_lag_def Let_def)

text \<open>
  The events of the receiving side, in any order: a message of the network arrives at the connection, a queued
  read of the connection is taken from the queue and runs, the queued call of the handler runs, and time goes
  by. \<open>bs\<close> are the bytes that arrived.
\<close>

inductive receives :: "(nat \<Rightarrow> nat) \<Rightarrow> nat \<Rightarrow> world sim \<Rightarrow> string \<Rightarrow> world sim \<Rightarrow> bool" for r p s where
  start: "receives r p s [] s"
| arrive: "receives r p s bs s' \<Longrightarrow> get_connection s' dest = Some p \<Longrightarrow>
    receives r p s (bs @ m) (handle_message r src dest m s')"
| read: "receives r p s bs s' \<Longrightarrow> T_read p \<in> set (bucket s' tm) \<Longrightarrow>
    receives r p s bs (handle_read p (take_task tm (T_read p) s'))"
| tick: "receives r p s bs s' \<Longrightarrow> receives r p s bs (set_time tm s')"
| deliver: "receives r p s bs s' \<Longrightarrow> sim_handlers s' = t # ts \<Longrightarrow>
    node_call r t (s'\<lparr>sim_handlers := ts\<rparr>) = Some s'' \<Longrightarrow> receives r p s bs s''"

text \<open>A read that has bytes to read is queued.\<close>

definition awake :: "nat \<Rightarrow> 'w sim \<Rightarrow> bool" where
  "awake p s \<longleftrightarrow> (sc_reading (sim_conns s p) \<noteq> [] \<longrightarrow> sc_recv (sim_conns s p) \<noteq> [] \<longrightarrow> queued (T_read p) s)"

lemma awake_arrive:
  assumes "get_connection s dest = Some p" and "sc_state (sim_conns s p) = Connected"
  shows "awake p (handle_message r src dest m s)"
proof -
  let ?s = "handle_message r src dest m s"
  have "sc_reading (sim_conns ?s p) = sc_reading (sim_conns s p)"
    by (subst handle_message_views(4) [OF assms]) simp
  moreover have "sc_reading (sim_conns s p) \<noteq> [] \<Longrightarrow> queued (T_read p) ?s"
    using assms by (simp add: handle_message_def Let_def split_beta split: option.split list.split)
  ultimately show ?thesis by (simp add: awake_def)
qed

lemma read_loop_all: "read_loop w n mem ms = (n', mem', ms') \<Longrightarrow> n' < w \<Longrightarrow> ms' = []"
  by (induction w n mem ms rule: read_loop.induct) (auto split: if_splits)

lemma awake_read:
  assumes "sc_state (sim_conns s p) = Connected"
    and "\<forall>k ks. sc_reading (sim_conns s p) = k # ks \<longrightarrow> ip_bytes_read k \<le> ip_expect_to_read k"
  shows "awake p (handle_read p s)"
proof (cases "sc_reading (sim_conns s p) = [] \<or> sc_recv (sim_conns s p) = []")
  case True
  with assms(1) show ?thesis by (auto simp: awake_def handle_read_def Let_def split: list.splits)
next
  case False
  then obtain k ks where k: "sc_reading (sim_conns s p) = k # ks" and recv: "sc_recv (sim_conns s p) \<noteq> []"
    by (cases "sc_reading (sim_conns s p)") auto
  let ?want = "if ip_expect_to_read k = 0 then ip_buffer_size k else ip_expect_to_read k"
  obtain n mem ms where rl: "read_loop ?want (ip_bytes_read k) (sim_bufs s (ip_buffer k)) (sc_recv (sim_conns s p)) = (n, mem, ms)"
    by (metis prod.collapse)
  have "n \<le> ?want" if "ip_expect_to_read k \<noteq> 0"
    using read_loop_stream [OF _ rl] assms(2) k that by auto
  then have "ms = []" if "ip_expect_to_read k \<noteq> 0" "n \<noteq> ip_expect_to_read k"
    using read_loop_all [OF rl] that by simp
  with assms(1) k recv rl show ?thesis by (auto simp: awake_def handle_read_def Let_def)
qed

lemma reading_quiet:
  "reading p h c b k (take_task tm t s) = reading p h c b k s" "pending p b k (take_task tm t s) = pending p b k s"
  "delivered h c (take_task tm t s) = delivered h c s"
  "reading p h c b k (set_time u s) = reading p h c b k s" "pending p b k (set_time u s) = pending p b k s"
  "delivered h c (set_time u s) = delivered h c s" "awake p (set_time u s) = awake p s"
  by (auto simp: take_task_def set_time_def reading_def open_peer_def pending_def delivered_def awake_def queued_def bucket_def)

lemma reading_arrive:
  fixes r src m
  assumes k: "reading p h c b k s" and d: "get_connection s dest = Some p"
  defines "s' \<equiv> handle_message r src dest m s"
  shows "reading p h c b k s' \<and> pending p b k s' = pending p b k s @ m \<and> delivered h c s' = delivered h c s"
proof -
  have conn: "sc_state (sim_conns s p) = Connected" using k by (simp add: reading_def open_peer_def)
  note v = handle_message_views(1-3) [OF d, of r src m] handle_message_views(4) [OF d conn, of r src m]
  from v(4) obtain ts where "sim_conns s' p = (sim_conns s p)\<lparr>sc_recv := sc_recv (sim_conns s p) @ [m], sc_time_stamp := ts\<rparr>"
    unfolding s'_def by blast
  with k v(1-3) [folded s'_def] show ?thesis
    by (simp add: reading_def open_peer_def pending_def delivered_def)
qed

lemma reading_read:
  assumes k: "reading p h c b k s"
  defines "s' \<equiv> handle_read p s"
  shows "\<exists>k'. reading p h c b k' s' \<and> pending p b k' s' = pending p b k s \<and> delivered h c s' = delivered h c s \<and>
    ip_id k' = ip_id k \<and> ip_expect_to_read k' = ip_expect_to_read k \<and>
    (ip_expect_to_read k \<le> ip_bytes_read k + length (concat (sc_recv (sim_conns s p))) \<longrightarrow> sc_reading (sim_conns s' p) = [])"
proof (cases "sc_reading (sim_conns s p) = [k] \<and> sc_recv (sim_conns s p) \<noteq> []")
  case False
  with k have "s' = s" by (auto simp: s'_def handle_read_def reading_def Let_def split: list.splits)
  moreover have "ip_expect_to_read k \<le> ip_bytes_read k + length (concat (sc_recv (sim_conns s p))) \<longrightarrow>
      sc_reading (sim_conns s p) = []" using k False by (auto simp: reading_def)
  ultimately show ?thesis using k by blast
next
  case True
  let ?want = "ip_expect_to_read k"
  obtain n mem ms where rl: "read_loop ?want (ip_bytes_read k) (sim_bufs s b) (sc_recv (sim_conns s p)) = (n, mem, ms)"
    by (metis prod.collapse)
  from k True have o: "open_peer p h c s" "proper_read b k" "ip_bytes_read k < ?want" "sim_handlers s = []"
    by (auto simp: reading_def)
  then have buf: "ip_buffer k = b" "?want \<noteq> 0" by (auto simp: proper_read_def header_bytes_def)
  note st = read_loop_stream [OF less_imp_le [OF o(3)] rl]
  define k' where "k' = k\<lparr>ip_bytes_read := n\<rparr>"
  have k': "proper_read b k'" "ip_expect_to_read k' = ?want" "ip_id k' = ip_id k" "n \<le> ?want"
    using o st by (auto simp: k'_def proper_read_def)
  have "reading p h c b k' s' \<and> sim_bufs s' b = mem \<and> sc_recv (sim_conns s' p) = ms \<and> sim_world s' = sim_world s \<and>
      (n = ?want \<longrightarrow> sc_reading (sim_conns s' p) = [])"
  proof (cases "n = ?want")
    case True
    then show ?thesis using \<open>sc_reading (sim_conns s p) = [k] \<and> _\<close> o k' buf rl
      by (simp add: s'_def handle_read_def Let_def reading_def open_peer_def k'_def)
  next
    case False
    with k' have "n < ?want" by simp
    then show ?thesis using \<open>sc_reading (sim_conns s p) = [k] \<and> _\<close> o k' buf rl
      by (simp add: s'_def handle_read_def Let_def reading_def open_peer_def k'_def)
  qed
  moreover have "mem_read mem 0 n @ concat ms = mem_read (sim_bufs s b) 0 (ip_bytes_read k) @ concat (sc_recv (sim_conns s p))"
    unfolding st [THEN conjunct2, THEN conjunct1] st [THEN conjunct2, THEN conjunct2] by simp
  moreover have "?want \<le> ip_bytes_read k + length (concat (sc_recv (sim_conns s p))) \<longrightarrow> n = ?want"
    unfolding st [THEN conjunct1] using o(3) by arith
  ultimately show ?thesis using k'
    by (intro exI [of _ k']) (simp add: pending_def delivered_def k'_def)
qed

text \<open>The handler of a complete read: the next read starts, and a complete message is delivered.\<close>

lemma connected_conn_open: "open_peer p h c s \<Longrightarrow>
    connected_conn (\<lambda>k. sc_state (sim_conns s k)) (w_nodes (sim_world s) h) c = Some p"
  by (auto simp: open_peer_def connected_conn_def split: option.splits)

lemma async_read_views:
  assumes "n \<le> z"
  shows "sim_bufs (conn_async_read p b z n i s) = sim_bufs s" "sim_world (conn_async_read p b z n i s) = sim_world s"
    "sim_handlers (conn_async_read p b z n i s) = sim_handlers s"
    "sim_conns (conn_async_read p b z n i s) p = (sim_conns s p)\<lparr>sc_reading := sc_reading (sim_conns s p) @
      [\<lparr>ip_buffer = b, ip_buffer_size = z, ip_expect_to_read = n, ip_id = i, ip_bytes_read = 0\<rparr>]\<rparr>"
  using assms by (auto simp: conn_async_read_def Let_def)

lemma awake_async_read: "n \<le> z \<Longrightarrow> awake p (conn_async_read p b z n i s)"
  by (auto simp: awake_def conn_async_read_def Let_def)

lemma awake_world: "awake p (s\<lparr>sim_world := w\<rparr>) = awake p s"
  by (simp add: awake_def)

lemma reading_deliver:
  assumes k: "reading p h c b k s" and t: "sim_handlers s = t # ts"
    and call: "node_call r t (s\<lparr>sim_handlers := ts\<rparr>) = Some s'"
    and header: "ip_id k = waiting_header \<Longrightarrow> 0 < message_size (sim_bufs s b) \<and> message_size (sim_bufs s b) \<le> max_message_size \<and>
      mem_read (sim_bufs s b) 0 3 = frame_header (message_size (sim_bufs s b))"
  shows "\<exists>k'. reading p h c b k' s' \<and> awake p s' \<and>
    (ip_id k = waiting_header \<longrightarrow> delivered h c s' = delivered h c s \<and> pending p b k' s' = pending p b k s \<and>
      ip_id k' = waiting_message) \<and>
    (ip_id k = waiting_message \<longrightarrow> delivered h c s' = delivered h c s @ [mem_read (sim_bufs s b) 0 (ip_expect_to_read k)] \<and>
      pending p b k' s' = concat (sc_recv (sim_conns s p)))"
proof -
  from k t have o: "open_peer p h c s" and pr: "proper_read b k" and rd: "sc_reading (sim_conns s p) = []"
    and n: "ip_bytes_read k = ip_expect_to_read k" and ts: "ts = []" "t = H_message_received h c b (ip_bytes_read k) (ip_id k)"
    by (auto simp: reading_def)
  let ?s = "s\<lparr>sim_handlers := []\<rparr>"
  have o': "open_peer p h c ?s" using o by (simp add: open_peer_def)
  note cc = connected_conn_open [OF o', simplified]
  consider "ip_id k = waiting_header" | "ip_id k = waiting_message" using pr by (auto simp: proper_read_def)
  then show ?thesis
  proof cases
    case 1
    let ?m = "message_size (sim_bufs s b)"
    have "ip_bytes_read k = header_bytes"
      using pr 1 n by (auto simp: proper_read_def waiting_header_def waiting_message_def)
    then have s': "s' = conn_async_read p b max_message_size ?m waiting_message ?s"
      using call 1 header [OF 1] cc ts
      by (auto simp: node_call_def Let_def on_message_received_def perform_def)
    let ?k = "\<lparr>ip_buffer = b, ip_buffer_size = max_message_size, ip_expect_to_read = ?m, ip_id = waiting_message, ip_bytes_read = 0\<rparr>"
    note v = async_read_views [of ?m max_message_size p b waiting_message ?s, folded s', simplified]
    have "reading p h c b ?k s'"
      using header [OF 1] o rd v by (simp add: reading_def open_peer_def proper_read_def)
    moreover have "pending p b ?k s' = pending p b k s"
      using header [OF 1] v \<open>ip_bytes_read k = header_bytes\<close> 1
      by (simp add: pending_def header_bytes_def waiting_header_def waiting_message_def mem_read_def)
    moreover have "delivered h c s' = delivered h c s" using header [OF 1] v by (simp add: delivered_def)
    moreover have "awake p s'" unfolding s' by (rule awake_async_read) (use header [OF 1] in simp)
    ultimately show ?thesis using 1 by (auto simp: waiting_header_def waiting_message_def)
  next
    case 2
    let ?blob = "mem_read (sim_bufs s b) 0 (ip_expect_to_read k)"
    let ?r = "conn_async_read p b max_message_size header_bytes waiting_header ?s"
    have s': "s' = ?r\<lparr>sim_world := (sim_world ?r)\<lparr>w_script := w_script (sim_world ?r) @ [(h, S_on_blob_received c ?blob)]\<rparr>\<rparr>"
      using call 2 cc ts n
      by (auto simp: node_call_def Let_def on_message_received_def perform_def waiting_header_def waiting_message_def)
    let ?k = "\<lparr>ip_buffer = b, ip_buffer_size = max_message_size, ip_expect_to_read = header_bytes, ip_id = waiting_header, ip_bytes_read = 0\<rparr>"
    have le: "header_bytes \<le> max_message_size" by (simp add: header_bytes_def max_message_size_def)
    note v = async_read_views [OF le, of p b waiting_header ?s, simplified]
    have "reading p h c b ?k s'"
      using o rd v unfolding s' by (simp add: reading_def open_peer_def proper_read_def header_bytes_def)
    moreover have "pending p b ?k s' = concat (sc_recv (sim_conns s p))"
      using v unfolding s' by (simp add: pending_def waiting_header_def waiting_message_def mem_read_def)
    moreover have "delivered h c s' = delivered h c s @ [?blob]"
      using v unfolding s' by (simp add: delivered_def)
    moreover have "awake p s'" unfolding s' awake_world by (rule awake_async_read) (rule le)
    ultimately show ?thesis using 2 by (auto simp: waiting_header_def waiting_message_def)
  qed
qed

section \<open>All messages, in order\<close>

lemma reading_complete:
  "reading p h c b k s \<Longrightarrow> sim_handlers s \<noteq> [] \<Longrightarrow> ip_bytes_read k = ip_expect_to_read k"
  by (auto simp: reading_def)

text \<open>A complete header, in a stream of frames, is the length of the next message.\<close>

lemma header_in_stream:
  assumes k: "reading p h c b k s" and id: "ip_id k = waiting_header" and cmpl: "ip_bytes_read k = ip_expect_to_read k"
    and pre: "prefix (concat (map frame (delivered h c s)) @ pending p b k s) (concat (map frame blobs))"
    and snd: "list_all sendable (delivered h c s)" "list_all sendable blobs"
  shows "0 < message_size (sim_bufs s b) \<and> message_size (sim_bufs s b) \<le> max_message_size \<and>
      mem_read (sim_bufs s b) 0 3 = frame_header (message_size (sim_bufs s b))"
proof -
  have three: "ip_bytes_read k = 3"
    using k id cmpl by (auto simp: reading_def proper_read_def header_bytes_def waiting_header_def waiting_message_def)
  let ?bs = "drop (length (delivered h c s)) blobs"
  have "prefix (pending p b k s) (concat (map frame ?bs))" using frames_prefix [OF snd pre] by simp
  moreover have "list_all sendable ?bs" using snd(2) by (auto simp: list_all_iff dest: in_set_dropD)
  moreover have pend: "pending p b k s = mem_read (sim_bufs s b) 0 3 @ concat (sc_recv (sim_conns s p))"
    using id three by (simp add: pending_def waiting_header_def waiting_message_def)
  ultimately obtain a as where "?bs = a # as" "take 3 (pending p b k s) = frame_header (length a)"
    using pending_header [of ?bs "pending p b k s"] by auto
  with \<open>list_all sendable ?bs\<close> have a: "sendable a" "mem_read (sim_bufs s b) 0 3 = frame_header (length a)"
    by (auto simp: pend)
  with message_size_header [OF sendable_small [OF a(1)] a(2)] show ?thesis by (simp add: sendable_def)
qed

definition received :: "nat \<Rightarrow> nat \<Rightarrow> nat \<Rightarrow> nat \<Rightarrow> string \<Rightarrow> incoming_packet \<Rightarrow> world sim \<Rightarrow> bool" where
  "received p h c b bs k s = (reading p h c b k s \<and> bs = concat (map frame (delivered h c s)) @ pending p b k s \<and>
     list_all sendable (delivered h c s) \<and> awake p s)"

lemma received_deliver:
  assumes i: "received p h c b bs k s" and t: "sim_handlers s = t # ts"
    and call: "node_call r t (s\<lparr>sim_handlers := ts\<rparr>) = Some s'"
    and blobs: "list_all sendable blobs" "prefix bs (concat (map frame blobs))"
  shows "\<exists>k'. received p h c b bs k' s' \<and> (ip_id k = waiting_message \<longrightarrow> length (delivered h c s') = Suc (length (delivered h c s))) \<and>
    (ip_id k = waiting_header \<longrightarrow> delivered h c s' = delivered h c s \<and> ip_id k' = waiting_message)"
proof -
  from i have k: "reading p h c b k s" and bs: "bs = concat (map frame (delivered h c s)) @ pending p b k s"
    and snd: "list_all sendable (delivered h c s)" by (auto simp: received_def)
  have cmpl: "ip_bytes_read k = ip_expect_to_read k" using reading_complete [OF k] t by simp
  have hdr: "0 < message_size (sim_bufs s b) \<and> message_size (sim_bufs s b) \<le> max_message_size \<and>
      mem_read (sim_bufs s b) 0 3 = frame_header (message_size (sim_bufs s b))" if "ip_id k = waiting_header"
    using header_in_stream [OF k that cmpl _ snd blobs(1)] blobs(2) bs by simp
  from reading_deliver [OF k t call hdr] obtain k' where k': "reading p h c b k' s'" "awake p s'"
    and h: "ip_id k = waiting_header \<Longrightarrow> delivered h c s' = delivered h c s \<and> pending p b k' s' = pending p b k s \<and>
      ip_id k' = waiting_message"
    and m: "ip_id k = waiting_message \<Longrightarrow> delivered h c s' = delivered h c s @ [mem_read (sim_bufs s b) 0 (ip_expect_to_read k)] \<and>
      pending p b k' s' = concat (sc_recv (sim_conns s p))" by blast
  have id: "ip_id k = waiting_header \<or> ip_id k = waiting_message" using k by (auto simp: reading_def proper_read_def)
  then show ?thesis
  proof
    assume "ip_id k = waiting_header"
    with h k' bs snd show ?thesis by (auto simp: received_def waiting_header_def waiting_message_def)
  next
    assume id: "ip_id k = waiting_message"
    let ?blob = "mem_read (sim_bufs s b) 0 (ip_expect_to_read k)"
    have "sendable ?blob"
      using k id by (auto simp: sendable_def reading_def proper_read_def waiting_header_def waiting_message_def)
    moreover from this have "pending p b k s = frame ?blob @ concat (sc_recv (sim_conns s p))"
      using id cmpl by (simp add: pending_def frame_header_frame)
    ultimately have "received p h c b bs k' s'" using m [OF id] k' bs snd by (simp add: received_def)
    with m [OF id] id show ?thesis by (auto simp: waiting_header_def waiting_message_def)
  qed
qed

lemma received_read:
  fixes tm
  assumes "received p h c b bs k s"
  defines "s' \<equiv> handle_read p (take_task tm (T_read p) s)"
  shows "\<exists>k'. received p h c b bs k' s' \<and> delivered h c s' = delivered h c s \<and> pending p b k' s' = pending p b k s \<and>
    ip_id k' = ip_id k \<and>
    (ip_expect_to_read k \<le> ip_bytes_read k + length (concat (sc_recv (sim_conns s p))) \<longrightarrow> sim_handlers s' \<noteq> [])"
proof -
  let ?s = "take_task tm (T_read p) s"
  have r: "reading p h c b k ?s" using assms(1) by (simp add: received_def reading_quiet)
  have "awake p s'" unfolding s'_def
    by (rule awake_read) (use r in \<open>auto simp: reading_def open_peer_def\<close>)
  moreover have "sim_conns ?s = sim_conns s" by (simp add: take_task_def)
  ultimately show ?thesis using reading_read [OF r] assms(1)
    unfolding s'_def [symmetric] by (fastforce simp: received_def reading_quiet reading_def)
qed

lemma receives_received:
  assumes "receives r p s0 bs s" and "listening p h c b s0" and "list_all sendable blobs"
    and "prefix bs (concat (map frame blobs))"
  shows "\<exists>k. received p h c b bs k s"
  using assms
proof (induction rule: receives.induct)
  case start
  then show ?case
    by (intro exI [of _ "\<lparr>ip_buffer = b, ip_buffer_size = max_message_size, ip_expect_to_read = header_bytes,
       ip_id = waiting_header, ip_bytes_read = 0\<rparr>"])
      (simp add: listening_def received_def reading_def proper_read_def pending_def header_bytes_def mem_read_def awake_def
        waiting_header_def waiting_message_def)
next
  case (arrive bs s' dest m src)
  then obtain k where "received p h c b bs k s'" using append_prefixD by blast
  with reading_arrive [OF _ arrive.hyps(2), of h c b k r src m] awake_arrive [OF arrive.hyps(2), of r src m]
  show ?case by (auto simp: received_def reading_def open_peer_def)
next
  case (read bs s' tm)
  then obtain k where "received p h c b bs k s'" by blast
  from received_read [OF this] show ?case by blast
next
  case (tick bs s' tm)
  then show ?case by (auto simp: received_def reading_quiet)
next
  case (deliver bs s' t ts s'')
  then obtain k where "received p h c b bs k s'" by blast
  from received_deliver [OF this deliver.hyps(2,3) deliver.prems(2,3)] show ?case by blast
qed

text \<open>When the stream holds a whole frame more, the receiver gets to deliver it.\<close>

lemma receives_trans: "receives r p s2 cs s3 \<Longrightarrow> receives r p s1 bs s2 \<Longrightarrow> receives r p s1 (bs @ cs) s3"
  by (induction rule: receives.induct) (auto intro: receives.intros simp flip: append_assoc)

lemma complete_read:
  assumes i: "received p h c b bs k s"
    and enough: "ip_expect_to_read k \<le> ip_bytes_read k + length (concat (sc_recv (sim_conns s p)))"
  shows "\<exists>s' k'. receives r p s [] s' \<and> received p h c b bs k' s' \<and> sim_handlers s' \<noteq> [] \<and> ip_id k' = ip_id k \<and>
    delivered h c s' = delivered h c s \<and> pending p b k' s' = pending p b k s"
proof (cases "sim_handlers s = []")
  case True
  then have "queued (T_read p) s" using i enough by (auto simp: received_def reading_def awake_def)
  then obtain tm where "T_read p \<in> set (bucket s tm)" by (auto simp: queued_def)
  then have "receives r p s [] (handle_read p (take_task tm (T_read p) s))" by (intro receives.intros)
  with received_read [OF i, of tm] enough show ?thesis by blast
next
  case False
  with i show ?thesis by (intro exI [of _ s] exI [of _ k]) (simp add: receives.start)
qed

lemma deliver_complete:
  assumes i: "received p h c b bs k s" and hs: "sim_handlers s \<noteq> []"
    and blobs: "list_all sendable blobs" "prefix bs (concat (map frame blobs))"
  shows "\<exists>s' k'. receives r p s [] s' \<and> received p h c b bs k' s' \<and>
    (ip_id k = waiting_message \<longrightarrow> length (delivered h c s') = Suc (length (delivered h c s))) \<and>
    (ip_id k = waiting_header \<longrightarrow> delivered h c s' = delivered h c s \<and> ip_id k' = waiting_message)"
proof -
  from i hs have k: "reading p h c b k s" and hd: "sim_handlers s = [H_message_received h c b (ip_bytes_read k) (ip_id k)]"
    and id: "ip_id k = waiting_header \<or> ip_id k = waiting_message"
    by (auto simp: received_def reading_def proper_read_def)
  have o: "open_peer p h c (s\<lparr>sim_handlers := []\<rparr>)" using k by (simp add: reading_def open_peer_def)
  have cmpl: "ip_bytes_read k = ip_expect_to_read k" using reading_complete [OF k hs] .
  have "ip_id k = waiting_header \<Longrightarrow> 0 < message_size (sim_bufs s b) \<and> message_size (sim_bufs s b) \<le> max_message_size \<and>
      ip_bytes_read k = header_bytes"
    using header_in_stream [OF k _ cmpl _ _ blobs(1)] blobs(2) i k cmpl
    by (auto simp: received_def reading_def proper_read_def waiting_header_def waiting_message_def)
  then obtain s' where "node_call r (H_message_received h c b (ip_bytes_read k) (ip_id k)) (s\<lparr>sim_handlers := []\<rparr>) = Some s'"
    using id connected_conn_open [OF o]
    by (auto simp: node_call_def Let_def on_message_received_def waiting_header_def waiting_message_def)
  moreover from this have "receives r p s [] s'" using hd by (intro receives.deliver [OF receives.start]) auto
  ultimately show ?thesis using received_deliver [OF i hd _ blobs] by blast
qed

text \<open>As long as a message is missing of those that have arrived, the bytes of the read under way are there.\<close>

lemma frame_available:
  assumes i: "received p h c b (concat (map frame blobs)) k s" and blobs: "list_all sendable blobs"
    and less: "length (delivered h c s) < length blobs"
  shows "ip_expect_to_read k \<le> ip_bytes_read k + length (concat (sc_recv (sim_conns s p)))"
proof -
  let ?bs = "concat (map frame blobs)"
  from i have k: "reading p h c b k s" and bs: "?bs = concat (map frame (delivered h c s)) @ pending p b k s"
    and snd: "list_all sendable (delivered h c s)" by (auto simp: received_def)
  let ?n = "length (delivered h c s)"
  have "take ?n blobs = delivered h c s" using frames_prefix [OF snd blobs, of "pending p b k s"] bs by simp
  then have "?bs = concat (map frame (delivered h c s)) @ concat (map frame (drop ?n blobs))"
    by (metis append_take_drop_id concat_append map_append)
  then have "pending p b k s = concat (map frame (drop ?n blobs))" using bs by simp
  moreover have "drop ?n blobs = blobs ! ?n # drop (Suc ?n) blobs" using less by (simp add: Cons_nth_drop_Suc)
  moreover have "sendable (blobs ! ?n)" using less blobs by (simp add: list_all_length)
  ultimately have pend: "pending p b k s = frame_header (length (blobs ! ?n)) @ blobs ! ?n @ concat (map frame (drop (Suc ?n) blobs))"
    by (simp add: frame_header_frame)
  have len: "length (blobs ! ?n) < 2 ^ 24" using less blobs by (intro sendable_small) (simp add: list_all_length)
  consider "ip_id k = waiting_header" "ip_expect_to_read k = 3"
    | "ip_id k = waiting_message" "ip_expect_to_read k \<le> max_message_size"
    using k by (auto simp: reading_def proper_read_def header_bytes_def)
  then show ?thesis
  proof cases
    case 1
    with pend have "mem_read (sim_bufs s b) 0 (ip_bytes_read k) @ concat (sc_recv (sim_conns s p)) =
        frame_header (length (blobs ! ?n)) @ blobs ! ?n @ concat (map frame (drop (Suc ?n) blobs))"
      by (simp add: pending_def waiting_header_def waiting_message_def)
    from arg_cong [OF this, of length] 1 show ?thesis by simp
  next
    case 2
    with pend have eq: "frame_header (ip_expect_to_read k) @ mem_read (sim_bufs s b) 0 (ip_bytes_read k) @ concat (sc_recv (sim_conns s p)) =
        frame_header (length (blobs ! ?n)) @ blobs ! ?n @ concat (map frame (drop (Suc ?n) blobs))"
      by (simp add: pending_def)
    then have "frame_header (ip_expect_to_read k) = frame_header (length (blobs ! ?n))" by simp
    then have "ip_expect_to_read k = length (blobs ! ?n)"
      by (rule frame_header_inject) (use 2 len in \<open>auto simp: max_message_size_def\<close>)
    with arg_cong [OF eq, of length] show ?thesis by simp
  qed
qed

lemma read_queued:
  assumes i: "received p h c b (concat (map frame blobs)) k s" and blobs: "list_all sendable blobs"
    and less: "length (delivered h c s) < length blobs"
  shows "sim_handlers s \<noteq> [] \<or> queued (T_read p) s"
  using frame_available [OF assms] i by (auto simp: received_def reading_def awake_def)

lemma next_message:
  assumes i: "received p h c b (concat (map frame blobs)) k s" and blobs: "list_all sendable blobs"
    and less: "length (delivered h c s) < length blobs"
  shows "\<exists>s' k'. receives r p s [] s' \<and> received p h c b (concat (map frame blobs)) k' s' \<and>
    length (delivered h c s') = Suc (length (delivered h c s))"
proof -
  let ?bs = "concat (map frame blobs)"
  have message: "\<exists>s' k'. receives r p s [] s' \<and> received p h c b ?bs k' s' \<and>
      length (delivered h c s') = Suc (length (delivered h c s))"
    if i: "received p h c b ?bs k s" "length (delivered h c s) < length blobs" "ip_id k = waiting_message" for k s
  proof -
    obtain s1 k1 where 1: "receives r p s [] s1" "received p h c b ?bs k1 s1" "sim_handlers s1 \<noteq> []"
      "ip_id k1 = waiting_message" "delivered h c s1 = delivered h c s"
      using complete_read [OF i(1) frame_available [OF i(1) blobs i(2)], of r] i(3) by auto
    from deliver_complete [OF 1(2,3) blobs, of r] 1 show ?thesis using receives_trans [OF _ 1(1)] by fastforce
  qed
  show ?thesis
  proof (cases "ip_id k = waiting_message")
    case False
    then have id: "ip_id k = waiting_header" using i by (auto simp: received_def reading_def proper_read_def)
    obtain s1 k1 where 1: "receives r p s [] s1" "received p h c b ?bs k1 s1" "sim_handlers s1 \<noteq> []"
      "ip_id k1 = waiting_header" "delivered h c s1 = delivered h c s"
      using complete_read [OF i frame_available [OF i blobs less], of r] id by auto
    from deliver_complete [OF 1(2,3) blobs, of r] 1(4,5) obtain s2 k2 where 2: "receives r p s1 [] s2"
      "received p h c b ?bs k2 s2" "delivered h c s2 = delivered h c s" "ip_id k2 = waiting_message" by auto
    from message [OF 2(2) _ 2(4)] less 2(3) obtain s3 k3 where 3: "receives r p s2 [] s3"
      "received p h c b ?bs k3 s3" "length (delivered h c s3) = Suc (length (delivered h c s))" by auto
    have "receives r p s [] s3" using receives_trans [OF 3(1) receives_trans [OF 2(1) 1(1)]] by simp
    with 3 show ?thesis by blast
  qed (use message i less in blast)
qed

text \<open>C10: a node is given the messages sent to it. For a stream of frames of messages of 1 to 256 bytes, cut
  into pieces in any way and interleaved with queued reads and handler calls in any way, the node has at every
  moment been given a first part of the messages, in order and unchanged. When the whole stream has arrived
  and a message is still missing, a handler call or a read of the connection is queued; and queued reads and
  handler calls lead from there to a state where the node has been given all messages.\<close>

theorem frames_delivered:
  assumes "listening p h c b s0" and "list_all sendable blobs"
    and "receives r p s0 bs s" and "prefix bs (concat (map frame blobs))"
  shows "prefix (delivered h c s) blobs \<and>
    (bs = concat (map frame blobs) \<longrightarrow>
      (delivered h c s = blobs \<or> sim_handlers s \<noteq> [] \<or> queued (T_read p) s) \<and>
      (\<exists>s'. receives r p s [] s' \<and> delivered h c s' = blobs))"
proof (intro conjI impI)
  obtain k where k: "received p h c b bs k s" using receives_received [OF assms(3,1,2,4)] by blast
  have pre: "prefix (delivered h c s) blobs"
    if "received p h c b bs k s" "prefix bs (concat (map frame blobs))" for k s bs
  proof -
    have "take (length (delivered h c s)) blobs = delivered h c s"
      using that frames_prefix [OF _ assms(2)] by (simp add: received_def)
    then show ?thesis by (metis take_is_prefix)
  qed
  show "prefix (delivered h c s) blobs" by (rule pre [OF k assms(4)])
  show "delivered h c s = blobs \<or> sim_handlers s \<noteq> [] \<or> queued (T_read p) s" if bs: "bs = concat (map frame blobs)"
  proof (cases "length (delivered h c s) < length blobs")
    case True
    with read_queued [OF _ assms(2), of p h c b k s] k bs show ?thesis by blast
  next
    case False
    with pre [OF k assms(4)] show ?thesis by (auto simp: prefix_def)
  qed
  show "\<exists>s'. receives r p s [] s' \<and> delivered h c s' = blobs" if bs: "bs = concat (map frame blobs)"
  proof -
    have "\<exists>s'. receives r p s [] s' \<and> delivered h c s' = blobs"
      if "received p h c b (concat (map frame blobs)) k s" for k s
      using that
    proof (induction "length blobs - length (delivered h c s)" arbitrary: k s rule: less_induct)
      case less
      show ?case
      proof (cases "length (delivered h c s) < length blobs")
        case True
        from next_message [OF less.prems assms(2) True] obtain s' k' where n: "receives r p s [] s'"
          "received p h c b (concat (map frame blobs)) k' s'" "length (delivered h c s') = Suc (length (delivered h c s))"
          by blast
        have "length blobs - length (delivered h c s') < length blobs - length (delivered h c s)"
          using True n(3) by linarith
        from less.hyps [OF this n(2)] obtain s'' where "receives r p s' [] s''" "delivered h c s'' = blobs" by blast
        with receives_trans [OF _ n(1)] show ?thesis by fastforce
      next
        case False
        have "prefix (delivered h c s) blobs" by (rule pre [OF less.prems]) simp
        with False have "delivered h c s = blobs" by (auto simp: prefix_def)
        then show ?thesis using receives.start by blast
      qed
    qed
    with k bs show ?thesis by simp
  qed
qed

text \<open>A node with one peer whose connection, with identifier 7 on the network, is open.\<close>

definition one_peer_sim :: "world sim" where
  "one_peer_sim = (new_simulation \<lparr>w_nodes = (\<lambda>_. one_peer), w_next_buf = 1, w_script = []\<rparr>)\<lparr>
     sim_connections := [7 \<mapsto> 4],
     sim_conns := (\<lambda>_. (new_connection 1 [] 0)\<lparr>sc_state := Connected, sc_reading :=
       [\<lparr>ip_buffer = 0, ip_buffer_size = max_message_size, ip_expect_to_read = header_bytes, ip_id = waiting_header,
         ip_bytes_read = 0\<rparr>]\<rparr>)\<rparr>"

theorem frames_delivered_witness:
  "\<exists>s s'. receives (\<lambda>_. 0) 4 one_peer_sim (frame ''hi'') s \<and> receives (\<lambda>_. 0) 4 s [] s' \<and> delivered 0 1 s' = [''hi'']"
proof -
  let ?s = "handle_message (\<lambda>_. 0) 0 7 (frame ''hi'') one_peer_sim"
  have l: "listening 4 0 1 0 one_peer_sim"
    by (simp add: listening_def one_peer_sim_def open_peer_def new_simulation_def new_connection_def one_peer_def delivered_def)
  have "get_connection one_peer_sim 7 = Some 4" by (simp add: get_connection_def one_peer_sim_def)
  from receives.arrive [OF receives.start this, where m = "frame ''hi''" and r = "\<lambda>_. 0" and src = 0]
  have r: "receives (\<lambda>_. 0) 4 one_peer_sim (frame ''hi'') ?s" by simp
  have "list_all sendable [''hi'']" by (simp add: sendable_def max_message_size_def)
  from frames_delivered [OF l this r] r show ?thesis by auto
qed

end
