(* ===== verification/Simulation_Defects.thy ===== *)
theory Simulation_Defects
  imports Simulation_Properties "HOL-Library.Code_Target_Numeral"
begin

text \<open>
  Behaviours of the simulated network that its users do not expect: messages that are reported as sent and
  never arrive, and requests that an acceptor answers although it does not accept connections.
\<close>

section \<open>Acknowledged and lost\<close>

text \<open>Two open connections to each other, without lag, that send two bytes at a time.\<close>

definition narrow_link :: "unit sim" where
  "narrow_link = (new_simulation ())\<lparr>sim_connections := [1 \<mapsto> 0, 2 \<mapsto> 1], sim_uid := 2, sim_next_conn := 2,
     sim_conns := (\<lambda>p. (new_connection p [] p)\<lparr>sc_state := Connected, sc_local := p + 1, sc_remote := 2 - p,
       sc_params := \<lparr>min_lag = 0, max_lag = 0, bandwidth = 2\<rparr>\<rparr>)\<rparr>"

text \<open>two messages larger than the bandwidth are sent one after the other over an open connection. Both are
  reported as sent, the queue of events runs empty, and the receiver, waiting for eight bytes, has got the
  four of the first message only: each piece of the first message that arrives after the last was sent is
  acknowledged, and the second acknowledgement removes the second message from the queue.\<close>

theorem acknowledged_message_lost:
  "map_option (\<lambda>(s, n). (sim_handlers s, sim_tasks s, sc_sending (sim_conns s 0), sc_recv (sim_conns s 1),
       map ip_bytes_read (sc_reading (sim_conns s 1)), mem_read (sim_bufs s 0) 0 4))
     (process (\<lambda>_. 0) (\<lambda>w _ _ _. (w, None)) 40
       (conn_async_read 1 0 64 8 5 (conn_async_send 0 ''wxyz'' 11 (conn_async_send 0 ''abcd'' 10 narrow_link)))) =
   Some ([H_message_sent 0 0 10 status_ok, H_message_sent 0 0 11 status_ok], [], [], [], [4], ''abcd'')"
  by code_simp

section \<open>An acceptor that does not accept\<close>

lemma set_time_stamp_state [simp]: "sc_state (sim_conns (set_time_stamp p t s) q) = sc_state (sim_conns s q)"
  by (simp add: set_time_stamp_def)

lemma accept_request_connects:
  assumes "min_lag (sc_params (sim_conns s p)) \<le> max_lag (sc_params (sim_conns s p))"
    and "max_lag (sc_params (sim_conns s p)) < 2 ^ 32" and "bandwidth (sc_params (sim_conns s p)) < 2 ^ 32"
  shows "sc_state (sim_conns (accept_request t src p a cid addr s) (sim_next_conn s)) = Connected \<and>
    (\<exists>u. T_accept src \<in> set (bucket (accept_request t src p a cid addr s) u))"
proof -
  let ?c = "sim_conns s p" and ?q = "sim_next_conn s"
  define bw where "bw = min (a_bandwidth (sa_params a)) (bandwidth (sc_params ?c))"
  define new_addr where "new_addr = to_string (min_lag (sc_params ?c)) @ '':'' @ to_string (max_lag (sc_params ?c)) @
    '':'' @ to_string bw @ '':'' @ to_string 0"
  define s1 where "s1 = upd_conn ?q (\<lambda>_. new_connection cid new_addr (sa_conn_handler a)) (s\<lparr>sim_next_conn := ?q + 1\<rparr>)"
  have "bw < 2 ^ 32" using assms(3) by (simp add: bw_def)
  then have "snd (conn_init ?q s1) = return True"
    using conn_address_values [OF assms(1,2), of bw 0]
    by (simp add: conn_init_def s1_def new_connection_def new_addr_def split_beta Let_def)
  moreover have "to_string 0 = ''0''" by code_simp
  ultimately show ?thesis
    unfolding accept_request_def Let_def split_beta bw_def [symmetric]
    by (auto simp: s1_def new_addr_def bucket_add_task)
qed

lemma get_lag_views [simp]:
  "sim_conns (fst (get_lag r p s)) = sim_conns s" "sim_world (fst (get_lag r p s)) = sim_world s"
  "sim_next_conn (fst (get_lag r p s)) = sim_next_conn s" "sim_acceptors (fst (get_lag r p s)) = sim_acceptors s"
  "sim_accs (fst (get_lag r p s)) = sim_accs s"
  by (simp_all add: get_lag_def Let_def)

lemma add_task_views [simp]:
  "sim_next_conn (add_task t k s) = sim_next_conn s" "sim_acceptors (add_task t k s) = sim_acceptors s"
  "sim_accs (add_task t k s) = sim_accs s"
  by (simp_all add: add_task_def Let_def)

text \<open>a request to an acceptor that is not accepting is answered like any other: when its handler agrees,
  both ends get an open connection, and the source is also told that there is no route to the host. A request
  to an address without an acceptor uses a null pointer.\<close>

theorem request_not_accepting:
  assumes "get_connection s src = Some p"
    and "min_lag (sc_params (sim_conns s p)) \<le> max_lag (sc_params (sim_conns s p))"
    and "max_lag (sc_params (sim_conns s p)) < 2 ^ 32" and "bandwidth (sc_params (sim_conns s p)) < 2 ^ 32"
  shows "case get_acceptor s dest of
      None \<Rightarrow> handle_request r req src dest s = None
    | Some a \<Rightarrow> sa_state (sim_accs s a) = Not_accepting \<longrightarrow>
        snd (req (sim_world s) (sa_handler (sim_accs s a)) (sa_id (sim_accs s a)) (conn_get_address (sim_conns s p))) \<noteq> None \<longrightarrow>
        (\<exists>s'. handle_request r req src dest s = Some s' \<and> sc_state (sim_conns s' (sim_next_conn s)) = Connected \<and>
          (\<exists>u. T_accept src \<in> set (bucket s' u)) \<and>
          (\<exists>u. T_no_route (sc_handler (sim_conns s p)) (sc_id (sim_conns s p)) \<in> set (bucket s' u)))"
proof (cases "get_acceptor s dest")
  case None
  then show ?thesis
    using assms(1) by (simp add: handle_request_def Let_def split_beta get_acceptor_def)
next
  case (Some a)
  show ?thesis
  proof (simp only: Some option.case, intro impI)
    assume na: "sa_state (sim_accs s a) = Not_accepting"
      and "snd (req (sim_world s) (sa_handler (sim_accs s a)) (sa_id (sim_accs s a)) (conn_get_address (sim_conns s p))) \<noteq> None"
    then obtain w cid where ans: "req (sim_world s) (sa_handler (sim_accs s a)) (sa_id (sim_accs s a))
        (conn_get_address (sim_conns s p)) = (w, Some cid)" by (metis option.exhaust prod.collapse)
    let ?l = "get_lag r p s"
    let ?t = "sim_time (fst ?l) + snd ?l + 1"
    let ?k = "T_no_route (sc_handler (sim_conns s p)) (sc_id (sim_conns s p))"
    define s1 where "s1 = (add_task ?t ?k (fst ?l))\<lparr>sim_world := w\<rparr>"
    let ?s' = "accept_request ?t src p (sim_accs s a) cid (conn_get_address (sim_conns s p)) s1"
    have "handle_request r req src dest s = Some ?s'"
      using assms(1) Some na ans
      by (simp add: handle_request_def Let_def split_beta get_acceptor_def s1_def)
    moreover have "sc_state (sim_conns ?s' (sim_next_conn s)) = Connected \<and> (\<exists>u. T_accept src \<in> set (bucket ?s' u))"
      using accept_request_connects [of s1 p] assms(2-4) by (simp add: s1_def)
    moreover have "\<exists>u. ?k \<in> set (bucket ?s' u)"
    proof -
      have "bucket s1 (max ?t (sim_time (fst ?l) + 1)) = bucket (fst ?l) (max ?t (sim_time (fst ?l) + 1)) @ [?k]"
        by (simp add: s1_def bucket_add_task bucket_def [of "_\<lparr>sim_world := w\<rparr>"] flip: bucket_def [of "add_task _ _ _"])
      moreover have "grows s1 ?s'" by (rule grows_accept_request) simp
      ultimately have "?k \<in> set (bucket ?s' (max ?t (sim_time (fst ?l) + 1)))"
        unfolding grows_def by (metis Un_iff append_is_Nil_conv in_set_conv_decomp set_append)
      then show ?thesis by blast
    qed
    ultimately show "\<exists>s'. handle_request r req src dest s = Some s' \<and> sc_state (sim_conns s' (sim_next_conn s)) = Connected \<and>
      (\<exists>u. T_accept src \<in> set (bucket s' u)) \<and> (\<exists>u. ?k \<in> set (bucket s' u))" by blast
  qed
qed

definition closed_acceptor :: "unit sim" where
  "closed_acceptor = narrow_link\<lparr>sim_acceptors := [9 \<mapsto> 0],
     sim_accs := (\<lambda>_. (new_acceptor 1 [] 0 0)\<lparr>sa_state := Not_accepting\<rparr>)\<rparr>"

theorem request_not_accepting_witness:
  "\<exists>s'. handle_request (\<lambda>_. 0) (\<lambda>w _ _ _. (w, Some 5)) 1 9 closed_acceptor = Some s' \<and>
     sc_state (sim_conns s' 2) = Connected \<and> (\<exists>u. T_no_route 0 0 \<in> set (bucket s' u))"
proof -
  have v: "get_connection closed_acceptor 1 = Some 0" "get_acceptor closed_acceptor 9 = Some 0"
    "sc_params (sim_conns closed_acceptor 0) = \<lparr>min_lag = 0, max_lag = 0, bandwidth = 2\<rparr>"
    "sa_state (sim_accs closed_acceptor 0) = Not_accepting" "sim_next_conn closed_acceptor = 2"
    "sc_handler (sim_conns closed_acceptor 0) = 0" "sc_id (sim_conns closed_acceptor 0) = 0"
    by (simp_all add: closed_acceptor_def narrow_link_def get_connection_def get_acceptor_def new_connection_def new_acceptor_def)
  show ?thesis
    using request_not_accepting [OF v(1), where dest = 9 and r = "\<lambda>_. 0" and req = "\<lambda>w _ _ _. (w, Some 5)"] v by auto
qed

end
