(* ===== verification/Testnet.thy ===== *)
theory Testnet
  imports Node_Properties
begin

text \<open>
  Test networks, \<^verbatim>\<open>core/testnet/testnet.cc\<close>: a number of nodes launched under names derived from the name of
  the network and connected along a graph. The state is the registry of nodes of \<open>Node\<close> and the registry of
  networks; \<open>fs\<close>, \<open>acreate\<close>, \<open>init\<close> and \<open>create\<close> are the factories the nodes use. The destructor of a network
  removes its nodes, also when its creation fails. Random numbers are a sequence \<open>r\<close>.
\<close>

section \<open>Networks\<close>

datatype network_protocol_type = Localhost | Sim_network

record testnet =
  tn_node_type :: string
  tn_network_id :: string
  tn_protocol_id :: string
  tn_network_type :: network_protocol_type
  tn_number_nodes :: nat
  tn_node_ids_list :: "string list"

type_synonym nodes = "(string \<times> net_node) list"

definition starting_port :: nat where "starting_port = 12300"

definition testnet_new :: "string \<Rightarrow> string \<Rightarrow> string \<Rightarrow> network_protocol_type \<Rightarrow> nat \<Rightarrow> testnet" where
  "testnet_new node_type i smart_protocol_id ntype number_nodes = \<lparr>tn_node_type = node_type, tn_network_id = i,
     tn_protocol_id = smart_protocol_id, tn_network_type = ntype, tn_number_nodes = number_nodes,
     tn_node_ids_list = replicate number_nodes []\<rparr>"

definition node_name :: "testnet \<Rightarrow> nat \<Rightarrow> string" where
  "node_name net i = tn_network_id net @ ''_'' @ to_string i"

definition node_address :: "testnet \<Rightarrow> nat \<Rightarrow> string" where
  "node_address net i = (case tn_network_type net of
       Localhost \<Rightarrow> ''tcp://127.0.0.1:'' @ to_string ((starting_port + i) mod 2 ^ 32)
     | Sim_network \<Rightarrow> ''sim://100:10000:'' @ to_string (i mod 2 ^ 32))"

definition peer_address :: "testnet \<Rightarrow> nat \<Rightarrow> string" where
  "peer_address net i = (case tn_network_type net of
       Localhost \<Rightarrow> ''tcp://127.0.0.1:'' @ to_string ((starting_port + i) mod 2 ^ 32)
     | Sim_network \<Rightarrow> ''sim://1:20:10000:'' @ to_string (i mod 2 ^ 32))"

text \<open>
  The loop of \<open>init\<close> from node \<open>i\<close> on: the network with the names set so far, the registry and the calls made;
  the flag says whether every node was launched. An exception of a constructor leaves the loop.
\<close>

fun init_loop ::
  "(string \<rightharpoonup> (string \<Rightarrow> string \<Rightarrow> net_node throws)) \<Rightarrow> (string \<Rightarrow> nat \<Rightarrow> string \<Rightarrow> nat option throws) \<Rightarrow>
   (nat \<Rightarrow> bool throws) \<Rightarrow> nat \<Rightarrow> nat \<Rightarrow> testnet \<Rightarrow> nodes \<Rightarrow> testnet \<times> nodes \<times> action list \<times> bool throws" where
  "init_loop fs acreate init 0 i net ns = (net, ns, [], return True)"
| "init_loop fs acreate init (Suc k) i net ns =
     (case launch_node fs acreate init ns (tn_node_type net) (node_name net i) (tn_protocol_id net) (node_address net i) of
        Inl e \<Rightarrow> (net, ns, [], throw e)
      | Inr (ns, acts, res) \<Rightarrow>
          if res then
            (let (net, ns, acts', res) = init_loop fs acreate init k (i + 1)
                   (net\<lparr>tn_node_ids_list := (tn_node_ids_list net)[i - 1 := node_name net i]\<rparr>) ns
             in (net, ns, acts @ acts', res))
          else (net, ns, acts, return False))"

definition testnet_init ::
  "(string \<rightharpoonup> (string \<Rightarrow> string \<Rightarrow> net_node throws)) \<Rightarrow> (string \<Rightarrow> nat \<Rightarrow> string \<Rightarrow> nat option throws) \<Rightarrow>
   (nat \<Rightarrow> bool throws) \<Rightarrow> testnet \<Rightarrow> nodes \<Rightarrow> testnet \<times> nodes \<times> action list \<times> bool throws" where
  "testnet_init fs acreate init net ns = init_loop fs acreate init (tn_number_nodes net) 1 net ns"

fun remove_nodes :: "string list \<Rightarrow> nodes \<Rightarrow> (nodes \<times> action list) option" where
  "remove_nodes [] ns = Some (ns, [])"
| "remove_nodes (i # is) ns = do {
     (ns, acts) \<leftarrow> remove_node ns i;
     (ns, acts') \<leftarrow> remove_nodes is ns;
     Some (ns, acts @ acts') }"

definition testnet_delete :: "testnet \<Rightarrow> nodes \<Rightarrow> (nodes \<times> action list) option" where
  "testnet_delete net ns = remove_nodes (tn_node_ids_list net) ns"

text \<open>
  Connecting: for each node of the list that exists, each peer is added and connected. \<open>buf\<close> gives the name of
  the buffer allocated for the next new peer, and \<open>cs\<close> the states of connections.
\<close>

fun connect_peers ::
  "(string \<Rightarrow> nat \<Rightarrow> string \<Rightarrow> nat option throws) \<Rightarrow> (nat \<Rightarrow> nat) \<Rightarrow> (nat \<Rightarrow> conn_state) \<Rightarrow> testnet \<Rightarrow> nat list \<Rightarrow>
   net_node \<Rightarrow> net_node \<times> action list" where
  "connect_peers create buf cs net [] n = (n, [])"
| "connect_peers create buf cs net (p # ps) n =
     (let (n, pid) = add_peer create (buf (n_peer_ids n)) n (peer_address net p);
          (acts, _) = connect cs n pid;
          (n, acts') = connect_peers create buf cs net ps n
      in (n, acts @ acts'))"

fun testnet_connect ::
  "(string \<Rightarrow> nat \<Rightarrow> string \<Rightarrow> nat option throws) \<Rightarrow> (nat \<Rightarrow> nat) \<Rightarrow> (nat \<Rightarrow> conn_state) \<Rightarrow> testnet \<Rightarrow>
   (nat \<times> nat list) list \<Rightarrow> nodes \<Rightarrow> nodes \<times> action list" where
  "testnet_connect create buf cs net [] ns = (ns, [])"
| "testnet_connect create buf cs net ((i, peers) # rest) ns =
     (case get_node ns (node_name net i) of
        None \<Rightarrow> testnet_connect create buf cs net rest ns
      | Some n \<Rightarrow>
          (let (n, acts) = connect_peers create buf cs net peers n;
               (ns, acts') = testnet_connect create buf cs net rest (AList.update (node_name net i) n ns)
           in (ns, acts @ acts')))"

definition list_testnet_nodes :: "testnet \<Rightarrow> string list" where
  "list_testnet_nodes net = tn_node_ids_list net"

section \<open>The registry of networks\<close>

definition get_testnet :: "(string \<times> testnet) list \<Rightarrow> string \<Rightarrow> testnet option" where
  "get_testnet nets i = map_of nets i"

definition list_testnets :: "(string \<times> testnet) list \<Rightarrow> string list" where
  "list_testnets nets = map fst nets"

definition create_testnet ::
  "(string \<rightharpoonup> (string \<Rightarrow> string \<Rightarrow> net_node throws)) \<Rightarrow> (string \<Rightarrow> nat \<Rightarrow> string \<Rightarrow> nat option throws) \<Rightarrow>
   (nat \<Rightarrow> bool throws) \<Rightarrow> (string \<Rightarrow> nat \<Rightarrow> string \<Rightarrow> nat option throws) \<Rightarrow> (nat \<Rightarrow> nat) \<Rightarrow> (nat \<Rightarrow> conn_state) \<Rightarrow>
   (string \<times> testnet) list \<Rightarrow> nodes \<Rightarrow> string \<Rightarrow> string \<Rightarrow> string \<Rightarrow> network_protocol_type \<Rightarrow> nat \<Rightarrow> (nat \<times> nat list) list \<Rightarrow>
   ((string \<times> testnet) list \<times> nodes \<times> action list \<times> bool throws) option" where
  "create_testnet fs acreate init create buf cs nets ns node_type i smart_protocol_id ntype number_nodes peer_list =
     (if map_of nets i \<noteq> None then Some (nets, ns, [], return False)
      else
        (let (net, ns, acts, res) = testnet_init fs acreate init
               (testnet_new node_type i smart_protocol_id ntype number_nodes) ns
         in if res = return True then
              (let (ns, acts') = testnet_connect create buf cs net peer_list ns
               in Some (AList.update i net nets, ns, acts @ acts', return True))
            else do {
              (ns, acts') \<leftarrow> testnet_delete net ns;
              Some (nets, ns, acts @ acts', res) }))"

text \<open>
  The entry of the registry goes; the network itself is destroyed with it only if no pointer that \<open>get_testnet\<close> has given out
  is \<open>held\<close> any more, and otherwise when the last of them goes.
\<close>

definition destroy_testnet ::
  "bool \<Rightarrow> (string \<times> testnet) list \<Rightarrow> nodes \<Rightarrow> string \<Rightarrow> ((string \<times> testnet) list \<times> nodes \<times> action list) option" where
  "destroy_testnet held nets ns i =
     (case map_of nets i of
        None \<Rightarrow> Some (nets, ns, [])
      | Some net \<Rightarrow>
          if held then Some (AList.delete i nets, ns, [])
          else do {
            (ns, acts) \<leftarrow> testnet_delete net ns;
            Some (AList.delete i nets, ns, acts) })"

section \<open>Connection graphs\<close>

definition create_connections_vector :: "nat \<Rightarrow> nat \<Rightarrow> (nat \<times> nat list) list" where
  "create_connections_vector n p =
     (if p \<ge> (n + 1) mod 2 ^ 32 div 2 then []
      else map (\<lambda>i. (i, map (\<lambda>j. (i + j) mod n + 1) [0..<p])) [1..<n + 1])"

text \<open>
  Random peers: numbers are drawn until there are enough different ones. \<open>k\<close> counts the numbers drawn; the
  peers are a set, listed in increasing order.
\<close>

partial_function (option) draw_peers ::
  "(nat \<Rightarrow> nat) \<Rightarrow> nat \<Rightarrow> nat \<Rightarrow> nat \<Rightarrow> nat \<Rightarrow> nat set \<Rightarrow> (nat \<times> nat set) option" where
  "draw_peers r n p i k peers =
     (if card peers < p then
        (let x = r k mod n + 1
         in draw_peers r n p i (k + 1) (if x = i then peers else insert x peers))
      else Some (k, peers))"

fun draw_all :: "(nat \<Rightarrow> nat) \<Rightarrow> nat \<Rightarrow> nat \<Rightarrow> nat list \<Rightarrow> nat \<Rightarrow> (nat \<times> nat list) list option" where
  "draw_all r n p [] k = Some []"
| "draw_all r n p (i # is) k = do {
     (k, peers) \<leftarrow> draw_peers r n p i k {};
     rest \<leftarrow> draw_all r n p is k;
     Some ((i, sorted_list_of_set peers) # rest) }"

definition create_rnd_connections_vector :: "(nat \<Rightarrow> nat) \<Rightarrow> nat \<Rightarrow> nat \<Rightarrow> (nat \<times> nat list) list option" where
  "create_rnd_connections_vector r n p =
     (if p \<ge> (n + 1) mod 2 ^ 32 div 2 then Some [] else draw_all r n p [1..<n + 1] 0)"

end
