(* ===== verification/Testnet_Properties.thy ===== *)
theory Testnet_Properties
  imports Testnet "HOL-Library.Code_Target_Numeral"
begin

text \<open>
  Properties of test networks: the connection graphs, that a failed creation leaves no nodes behind, that
  destroying a network undoes its creation, and when drawing random peers ends.
\<close>

section \<open>Connection graphs\<close>

lemma peer_number:
  fixes i j n :: nat
  shows "i \<le> n \<Longrightarrow> j < n \<Longrightarrow> (i + j) mod n + 1 = (if i + j < n then i + j + 1 else i + j + 1 - n)"
proof (cases "i + j < n")
  case False
  assume "i \<le> n" "j < n"
  with False have "(i + j) mod n = i + j - n"
    using mod_less [of "i + j - n" n] le_mod_geq [of n "i + j"] by linarith
  with False show ?thesis by simp
qed simp

lemma wrap_around: "j = (if c < n then c + 1 else c + 1 - n) \<Longrightarrow> j = c + 1 \<or> j + n = c + (1::nat)"
  by (auto split: if_splits)

text \<open>the regular connection graph: every node has as many peers as asked for, all different, none of them
  the node itself, and no two nodes are each in the other's list, so that no pair is connected twice.\<close>

theorem connections_vector_graph:
  assumes "n + 1 < 2 ^ 32" and "p < (n + 1) div 2"
  shows "map fst (create_connections_vector n p) = [1..<n + 1] \<and>
    (\<forall>(i, ps) \<in> set (create_connections_vector n p). length ps = p \<and> distinct ps \<and> set ps \<subseteq> {1..n} - {i}) \<and>
    (\<forall>(i, ps) \<in> set (create_connections_vector n p). \<forall>(j, qs) \<in> set (create_connections_vector n p).
       \<not> (j \<in> set ps \<and> i \<in> set qs))"
proof -
  define P where "P i = map (\<lambda>j. (i + j) mod n + 1) [0..<p]" for i
  have cv: "create_connections_vector n p = map (\<lambda>i. (i, P i)) [1..<n + 1]"
    using assms by (simp add: create_connections_vector_def P_def)
  have p: "2 * p < n" using assms(2) by linarith
  have peers: "set (P i) = {x. \<exists>j<p. x = (if i + j < n then i + j + 1 else i + j + 1 - n)}" if "i \<le> n" for i
    using that p peer_number [OF that] by (auto simp: image_iff P_def)
  have "distinct (P i) \<and> set (P i) \<subseteq> {1..n} - {i}" if i: "1 \<le> i" "i \<le> n" for i
  proof
    show "distinct (P i)"
    proof (simp only: distinct_map P_def, intro conjI inj_onI)
      fix x y assume "x \<in> set [0..<p]" "y \<in> set [0..<p]" "(i + x) mod n + 1 = (i + y) mod n + 1"
      then show "x = y" using peer_number [OF i(2), of x] peer_number [OF i(2), of y] i p by (auto split: if_splits)
    qed simp
    show "set (P i) \<subseteq> {1..n} - {i}" unfolding peers [OF i(2)] using i p by auto
  qed
  moreover have "\<not> (j \<in> set (P i) \<and> i \<in> set (P j))" if ij: "1 \<le> i" "i \<le> n" "1 \<le> j" "j \<le> n" for i j
  proof
    assume "j \<in> set (P i) \<and> i \<in> set (P j)"
    then obtain a b where ab: "a < p" "b < p" and e: "j = (if i + a < n then i + a + 1 else i + a + 1 - n)"
      "i = (if j + b < n then j + b + 1 else j + b + 1 - n)"
      unfolding peers [OF ij(2)] peers [OF ij(4)] by blast
    from wrap_around [OF e(1)] wrap_around [OF e(2)] ab ij p show False by linarith
  qed
  moreover have "length (P i) = p" for i by (simp add: P_def)
  moreover have "set (create_connections_vector n p) = (\<lambda>i. (i, P i)) ` {1..n}" unfolding cv by auto
  moreover have "map fst (create_connections_vector n p) = [1..<n + 1]" unfolding cv by (simp add: comp_def)
  ultimately show ?thesis by (auto 0 0)
qed

theorem connections_vector_graph_witness:
  "map fst (create_connections_vector 5 2) = [1, 2, 3, 4, 5] \<and> create_connections_vector 5 2 ! 4 = (5, [1, 2])"
  using connections_vector_graph [of 5 2] by (simp add: create_connections_vector_def upt_rec)

text \<open>drawing random peers ends with the wanted number of different peers, none of them the node itself,
  when every number keeps coming up in the random sequence.\<close>

theorem draw_peers_returns:
  assumes "p < n" and "1 \<le> i" and "i \<le> n"
    and fair: "\<And>x k. x < n \<Longrightarrow> \<exists>l\<ge>k. r l mod n = x"
  shows "\<exists>k' peers. draw_peers r n p i k {} = Some (k', peers) \<and> card peers = p \<and> peers \<subseteq> {1..n} - {i}"
proof -
  have "\<exists>k' peers. draw_peers r n p i k P = Some (k', peers) \<and> card peers = p \<and> peers \<subseteq> {1..n} - {i}"
    if "P \<subseteq> {1..n} - {i}" "card P \<le> p" for P k
    using that
  proof (induction "p - card P" arbitrary: P k rule: less_induct)
    case less
    have fin: "finite P" using less.prems(1) by (meson finite_Diff finite_atLeastAtMost finite_subset)
    show ?case
    proof (cases "card P < p")
      case False
      with less.prems show ?thesis by (subst draw_peers.simps) auto
    next
      case True
      have "card ({1..n} - {i} - P) = n - 1 - card P"
        using less.prems assms(2,3) fin by (simp add: card_Diff_subset)
      with True assms(1) have "{1..n} - {i} - P \<noteq> {}" by (metis card.empty diff_is_0_eq not_less Suc_pred' Suc_leI
          add_diff_inverse_nat diff_diff_left leD le_add2 less_diff_conv nat_less_le plus_1_eq_Suc zero_less_diff)
      then obtain x where x: "x \<in> {1..n}" "x \<noteq> i" "x \<notin> P" by blast
      then obtain l where l: "k \<le> l" "r l mod n = x - 1" using fair [of "x - 1" k] assms by fastforce
      from l(1) show ?thesis
      proof (induction rule: inc_induct)
        case base
        let ?y = "r l mod n + 1"
        have y: "?y = x" using l x by simp
        have "p - card (insert x P) < p - card P" "insert x P \<subseteq> {1..n} - {i}" "card (insert x P) \<le> p"
          using x fin True less.prems by auto
        from less.hyps [OF this] show ?case
          using True y x by (subst draw_peers.simps) (simp add: Let_def)
      next
        case (step m)
        let ?y = "r m mod n + 1"
        show ?case
        proof (cases "?y = i \<or> ?y \<in> P")
          case True
          then have "draw_peers r n p i m P = draw_peers r n p i (Suc m) P"
            using \<open>card P < p\<close> by (subst draw_peers.simps) (auto simp: Let_def insert_absorb)
          with step.IH show ?thesis by simp
        next
          case False
          have "?y \<le> n" using assms by (simp add: Suc_leI)
          with False have "p - card (insert ?y P) < p - card P" "insert ?y P \<subseteq> {1..n} - {i}" "card (insert ?y P) \<le> p"
            using fin \<open>card P < p\<close> less.prems by auto
          from less.hyps [OF this] show ?thesis
            using \<open>card P < p\<close> False by (subst draw_peers.simps) (simp add: Let_def)
        qed
      qed
    qed
  qed
  from this [of "{}"] show ?thesis by simp
qed

theorem draw_peers_returns_witness:
  "\<exists>k' peers. draw_peers (\<lambda>k. k) 5 2 3 0 {} = Some (k', peers) \<and> card peers = 2 \<and> peers \<subseteq> {1..5} - {3}"
proof (rule draw_peers_returns)
  show "\<exists>l\<ge>k. l mod 5 = x" if "x < 5" for x k :: nat
    using that by (intro exI [of _ "5 * k + x"]) simp
qed simp_all

section \<open>Creating and destroying\<close>

lemma launch_node_new:
  assumes "launch_node fs acreate init ns ty i pid a = Inr (ns', acts, res)"
  shows "if res then \<exists>n. ns' = ns @ [(i, n)] \<and> i \<notin> fst ` set ns \<and> n_acceptor n \<noteq> None else ns' = ns"
proof (cases "map_of ns i")
  case None
  then have f: "i \<notin> fst ` set ns" by (simp add: map_of_eq_None_iff)
  show ?thesis
  proof (cases "node_create fs ty i pid")
    case (Inr r)
    show ?thesis
    proof (cases r)
      case (Some n)
      obtain n' acts' res' where sa: "set_acceptor acreate init n a = (n', acts', res')" by (metis prod_cases3)
      then have "res' \<Longrightarrow> n_acceptor n' \<noteq> None"
        by (auto simp: set_acceptor_def split: option.splits sum.splits bool.splits prod.splits)
      with assms None Inr Some sa f show ?thesis
        by (auto simp: launch_node_def Let_def update_fresh split: if_splits)
    qed (use assms None Inr in \<open>auto simp: launch_node_def\<close>)
  qed (use assms None in \<open>auto simp: launch_node_def\<close>)
qed (use assms in \<open>auto simp: launch_node_def\<close>)

lemma to_string_inject: "to_string m = to_string n \<Longrightarrow> m = n"
  unfolding to_string_def by (rule print_base_inject [of 10]) simp_all

lemma node_name_inject [simp]: "node_name net i = node_name net j \<longleftrightarrow> i = j"
  by (auto simp: node_name_def dest: to_string_inject)

lemma node_name_not_Nil [simp]: "node_name net i \<noteq> []"
  by (simp add: node_name_def)

lemma node_name_update [simp]: "node_name (net\<lparr>tn_node_ids_list := l\<rparr>) = node_name net"
  by (simp add: node_name_def fun_eq_iff)

text \<open>The loop of \<open>init\<close> adds nodes with acceptors, under new names, and enters the names into the list.\<close>

lemma init_loop_adds:
  assumes "init_loop fs acreate init k i net ns = (net', ns', acts, res)" and "1 \<le> i"
    and "i + k \<le> length (tn_node_ids_list net) + 1"
  shows "\<exists>added. ns' = ns @ added \<and> (\<forall>(a, n) \<in> set added. n_acceptor n \<noteq> None) \<and>
    map fst added = map (node_name net) [i..<i + length added] \<and> fst ` set added \<inter> fst ` set ns = {} \<and>
    length added \<le> k \<and> (res = return True \<longrightarrow> length added = k) \<and>
    net' = net\<lparr>tn_node_ids_list := take (i - 1) (tn_node_ids_list net) @ map fst added @
      drop (i - 1 + length added) (tn_node_ids_list net)\<rparr>"
  using assms
proof (induction k arbitrary: i net ns acts)
  case (Suc k)
  let ?launch = "launch_node fs acreate init ns (tn_node_type net) (node_name net i) (tn_protocol_id net) (node_address net i)"
  show ?case
  proof (cases ?launch)
    case (Inl e)
    with Suc.prems show ?thesis by (intro exI [of _ "[]"]) auto
  next
    case (Inr x)
    obtain ns1 acts1 ok where x: "x = (ns1, acts1, ok)" by (metis prod_cases3)
    note new = launch_node_new [OF Inr [unfolded x]]
    show ?thesis
    proof (cases ok)
      case False
      with new x Inr Suc.prems show ?thesis by (intro exI [of _ "[]"]) auto
    next
      case True
      with new obtain n where n: "ns1 = ns @ [(node_name net i, n)]" "node_name net i \<notin> fst ` set ns" "n_acceptor n \<noteq> None"
        by auto
      let ?net = "net\<lparr>tn_node_ids_list := (tn_node_ids_list net)[i - 1 := node_name net i]\<rparr>"
      obtain acts2 where rest: "init_loop fs acreate init k (i + 1) ?net ns1 = (net', ns', acts2, res)"
        using Suc.prems(1) Inr x True by (auto simp: Let_def split: prod.splits)
      from Suc.IH [OF rest] Suc.prems(2,3) obtain added where a: "ns' = ns1 @ added"
        "\<forall>(a, n) \<in> set added. n_acceptor n \<noteq> None" "map fst added = map (node_name net) [i + 1..<i + 1 + length added]"
        "fst ` set added \<inter> fst ` set ns1 = {}" "length added \<le> k" "res = return True \<longrightarrow> length added = k"
        "net' = ?net\<lparr>tn_node_ids_list := take i (tn_node_ids_list ?net) @ map fst added @ drop (i + length added) (tn_node_ids_list ?net)\<rparr>"
        by auto
      let ?added = "(node_name net i, n) # added"
      have i1: "i - 1 < length (tn_node_ids_list net)" using Suc.prems by simp
      have "take i (tn_node_ids_list ?net) = take (i - 1) (tn_node_ids_list net) @ [node_name net i]"
        using i1 Suc.prems(2) take_Suc_conv_app_nth [of "i - 1" "tn_node_ids_list ?net"] by simp
      moreover have "drop (i + length added) (tn_node_ids_list ?net) = drop (i - 1 + length ?added) (tn_node_ids_list net)"
        using Suc.prems(2) by (simp add: drop_update_cancel)
      ultimately have "net' = net\<lparr>tn_node_ids_list := take (i - 1) (tn_node_ids_list net) @ map fst ?added @
          drop (i - 1 + length ?added) (tn_node_ids_list net)\<rparr>" using a(7) by simp
      moreover have "map fst ?added = map (node_name net) [i..<i + length ?added]"
        using a(3) by (simp add: upt_conv_Cons del: upt_Suc)
      ultimately show ?thesis using a n by (intro exI [of _ ?added]) auto
    qed
  qed
qed auto

lemma remove_nodes_filter:
  "(\<And>a n. (a, n) \<in> set ns \<Longrightarrow> a \<in> set is \<Longrightarrow> n_acceptor n \<noteq> None) \<Longrightarrow>
     \<exists>acts. remove_nodes is ns = Some (filter (\<lambda>(a, _). a \<notin> set is) ns, acts)"
proof (induction "is" arbitrary: ns)
  case (Cons i "is")
  have "\<exists>acts. remove_node ns i = Some (AList.delete i ns, acts)"
  proof (cases "map_of ns i")
    case None
    then have "AList.delete i ns = ns"
      by (force simp: AList.delete_eq map_of_eq_None_iff intro!: filter_True)
    with None show ?thesis by (simp add: remove_node_def)
  next
    case (Some n)
    with Cons.prems [of i n] map_of_SomeD [OF Some] obtain a where "n_acceptor n = Some a" by auto
    with Some show ?thesis by (auto simp: remove_node_def)
  qed
  then obtain acts where r: "remove_node ns i = Some (AList.delete i ns, acts)" by blast
  have "\<exists>acts. remove_nodes is (AList.delete i ns) = Some (filter (\<lambda>(a, _). a \<notin> set is) (AList.delete i ns), acts)"
    using Cons.prems by (intro Cons.IH) (auto simp: AList.delete_eq)
  moreover have "filter (\<lambda>(a, _). a \<notin> set is) (AList.delete i ns) = filter (\<lambda>(a, _). a \<notin> set (i # is)) ns"
    by (auto simp: AList.delete_eq intro: filter_cong)
  ultimately show ?case using r by auto
qed simp

text \<open>What \<open>init\<close> leaves, and that removing the nodes of its list gives back the registry.\<close>

lemma testnet_init_adds:
  assumes "testnet_init fs acreate init (testnet_new ty i pid nt n) ns = (net, ns', acts, res)"
  shows "\<exists>added. ns' = ns @ added \<and> (\<forall>(a, m) \<in> set added. n_acceptor m \<noteq> None) \<and>
    map fst added = map (node_name net) [1..<1 + length added] \<and> fst ` set added \<inter> fst ` set ns = {} \<and>
    (res = return True \<longrightarrow> length added = n) \<and>
    tn_node_ids_list net = map fst added @ replicate (n - length added) []"
proof -
  let ?net = "testnet_new ty i pid nt n"
  from init_loop_adds [OF assms [unfolded testnet_init_def]] obtain added where a: "ns' = ns @ added"
    "\<forall>(a, m) \<in> set added. n_acceptor m \<noteq> None" "map fst added = map (node_name ?net) [1..<1 + length added]"
    "fst ` set added \<inter> fst ` set ns = {}" "res = return True \<longrightarrow> length added = tn_number_nodes ?net"
    "net = ?net\<lparr>tn_node_ids_list := map fst added @ drop (length added) (tn_node_ids_list ?net)\<rparr>"
    by (auto simp: testnet_new_def)
  have "node_name net = node_name ?net" by (subst a(6)) simp
  then show ?thesis using a by (intro exI [of _ added]) (simp add: testnet_new_def)
qed

lemma delete_added:
  assumes ids: "tn_node_ids_list net = map fst added @ replicate k []" and e: "map_of ns [] = None"
    and d: "fst ` set added \<inter> fst ` set ns = {}" and acc: "\<forall>(a, m) \<in> set added. n_acceptor m \<noteq> None"
  shows "\<exists>acts. testnet_delete net (ns @ added) = Some (ns, acts)"
proof -
  have old: "a \<notin> set (tn_node_ids_list net)" if "(a, m) \<in> set ns" for a m
  proof -
    have "a \<in> fst ` set ns" using that by force
    moreover from this e have "a \<noteq> []" by (metis map_of_eq_None_iff)
    ultimately show ?thesis using d unfolding ids by auto
  qed
  have new: "a \<in> set (tn_node_ids_list net)" if "(a, m) \<in> set added" for a m
    using that unfolding ids by force
  have "\<exists>acts. remove_nodes (tn_node_ids_list net) (ns @ added) =
      Some (filter (\<lambda>(a, _). a \<notin> set (tn_node_ids_list net)) (ns @ added), acts)"
  proof (rule remove_nodes_filter)
    fix a m assume "(a, m) \<in> set (ns @ added)" "a \<in> set (tn_node_ids_list net)"
    moreover from this old have "(a, m) \<notin> set ns" by blast
    ultimately show "n_acceptor m \<noteq> None" using acc by auto
  qed
  moreover have "filter (\<lambda>(a, _). a \<notin> set (tn_node_ids_list net)) ns = ns" using old by (intro filter_True) auto
  moreover have "filter (\<lambda>(a, _). a \<notin> set (tn_node_ids_list net)) added = []" using new by (intro filter_False) auto
  ultimately show ?thesis by (simp add: testnet_delete_def)
qed

text \<open>A node factory of one protocol and acceptors that can be opened, for the examples.\<close>

definition plain_node :: "string \<Rightarrow> string \<Rightarrow> net_node throws" where
  "plain_node i pid = return \<lparr>n_nodeid = i, n_protoid = pid, n_peer_ids = 0, n_update_time_slice = 10, n_time_to_update = 0,
     n_acceptor = None, n_known_peers = [], n_connected_peers = {}, n_logs = [], n_tasks = []\<rparr>"

text \<open>creating a network always returns, and when it fails, because a node cannot be launched or its
  constructor throws, the nodes that were launched are removed again and both registries are as before.\<close>

theorem failed_creation_restores:
  assumes "map_of ns [] = None"
  shows "\<exists>nets' ns' acts res. create_testnet fs acreate init create buf cs nets ns ty i pid nt n peers =
      Some (nets', ns', acts, res) \<and> (res \<noteq> return True \<longrightarrow> nets' = nets \<and> ns' = ns)"
proof (cases "map_of nets i = None")
  case True
  obtain net ns1 acts res where ti: "testnet_init fs acreate init (testnet_new ty i pid nt n) ns = (net, ns1, acts, res)"
    by (metis prod_cases4)
  obtain added where a: "ns1 = ns @ added" "\<forall>(a, m) \<in> set added. n_acceptor m \<noteq> None"
    "map fst added = map (node_name net) [1..<1 + length added]" "fst ` set added \<inter> fst ` set ns = {}"
    "res = return True \<longrightarrow> length added = n" "tn_node_ids_list net = map fst added @ replicate (n - length added) []"
    using testnet_init_adds [OF ti] by metis
  have "\<exists>acts'. testnet_delete net ns1 = Some (ns, acts')"
    unfolding a(1) by (rule delete_added [OF a(6) assms a(4,2)])
  with True ti show ?thesis
    by (cases "res = return True") (auto simp: create_testnet_def Let_def split_beta)
qed (simp add: create_testnet_def)

theorem failed_creation_restores_witness:
  "\<exists>acts res. create_testnet [''t'' \<mapsto> plain_node] (\<lambda>_ _ _. return None) (\<lambda>_. return True) (\<lambda>_ _ _. return None)
     (\<lambda>i. i) (\<lambda>_. Disconnected) [] [] ''t'' ''net'' ''p'' Localhost 2 [] = Some ([], [], acts, res) \<and> res = return False"
proof -
  let ?c = "create_testnet [''t'' \<mapsto> plain_node] (\<lambda>_ _ _. return None) (\<lambda>_. return True) (\<lambda>_ _ _. return None)
     (\<lambda>i. i) (\<lambda>_. Disconnected) [] [] ''t'' ''net'' ''p'' Localhost 2 []"
  obtain nets' ns' acts res where c: "?c = Some (nets', ns', acts, res)" "res \<noteq> return True \<longrightarrow> nets' = [] \<and> ns' = []"
    using failed_creation_restores [of "[]" "[''t'' \<mapsto> plain_node]" "\<lambda>_ _ _. return None" "\<lambda>_. return True" "\<lambda>_ _ _. return None"
        "\<lambda>i. i" "\<lambda>_. Disconnected" "[]" "''t''" "''net''" "''p''" Localhost 2 "[]"] by auto
  have "map_option (\<lambda>(_, _, _, r). r) ?c = Some (return False)" by code_simp
  with c show ?thesis by auto
qed

lemma update_append: "k \<notin> fst ` set ns \<Longrightarrow> AList.update k v (ns @ xs) = ns @ AList.update k v xs"
  by (induction ns) auto

lemma connect_peers_acceptor: "n_acceptor (fst (connect_peers create buf cs net ps n)) = n_acceptor n"
proof (induction ps arbitrary: n)
  case (Cons p ps)
  have "n_acceptor (fst (add_peer create b n a)) = n_acceptor n" for b a
    by (auto simp: add_peer_def get_next_peer_id_def Let_def split: option.splits)
  with Cons show ?case by (simp add: Let_def split_beta)
qed simp

lemma testnet_connect_added:
  assumes "fst ` set added \<inter> fst ` set ns = {}" and "\<forall>(j, ps) \<in> set peers. node_name net j \<in> fst ` set added"
    and "\<forall>(a, m) \<in> set added. n_acceptor m \<noteq> None" and "distinct (map fst added)"
  shows "\<exists>added'. fst (testnet_connect create buf cs net peers (ns @ added)) = ns @ added' \<and> map fst added' = map fst added \<and>
    (\<forall>(a, m) \<in> set added'. n_acceptor m \<noteq> None)"
  using assms
proof (induction peers arbitrary: added)
  case (Cons jp peers)
  obtain j ps where jp: "jp = (j, ps)" by force
  from Cons.prems(2) jp have mem: "node_name net j \<in> fst ` set added" by simp
  then have fresh: "node_name net j \<notin> fst ` set ns" using Cons.prems(1) by blast
  then have "map_of ns (node_name net j) = None" by (simp add: map_of_eq_None_iff)
  moreover from mem obtain n where n: "map_of added (node_name net j) = Some n"
    by (metis map_of_eq_None_iff option.exhaust)
  ultimately have g: "get_node (ns @ added) (node_name net j) = Some n" by (simp add: get_node_def map_add_Some_iff)
  let ?n = "fst (connect_peers create buf cs net ps n)"
  let ?added = "AList.update (node_name net j) ?n added"
  have keys: "map fst ?added = map fst added" using mem by (simp add: update_keys)
  have acc: "n_acceptor m \<noteq> None" if "(a, m) \<in> set ?added" for a m
    using that update_known [OF Cons.prems(4) n, of ?n] Cons.prems(3) map_of_SomeD [OF n]
    by (auto simp: connect_peers_acceptor)
  have keys': "fst ` set ?added = fst ` set added" using keys by (metis list.set_map)
  have "\<exists>added'. fst (testnet_connect create buf cs net peers (ns @ ?added)) = ns @ added' \<and> map fst added' = map fst ?added \<and>
      (\<forall>(a, m) \<in> set added'. n_acceptor m \<noteq> None)"
    
  proof (rule Cons.IH)
    show "\<forall>(j, ps) \<in> set peers. node_name net j \<in> fst ` set ?added" using Cons.prems(2) by (simp add: keys')
  qed (use Cons.prems acc keys keys' in auto)
  with g jp keys show ?case
    by (simp add: Let_def split_beta update_append [OF fresh])
qed auto

text \<open>C36: destroying a network that nobody else holds undoes its creation: the nodes it launched, whatever peers
  they have got, are removed from the registry of nodes, and nothing else is. While somebody holds it, only
  its entry in the registry of networks goes.\<close>

theorem destroy_undoes_create:
  assumes "map_of ns [] = None" and "map_of nets i = None" and "\<And>j ps. (j, ps) \<in> set peers \<Longrightarrow> 1 \<le> j \<and> j \<le> n"
    and "create_testnet fs acreate init create buf cs nets ns ty i pid nt n peers = Some (nets', ns', acts, return True)"
  shows "(\<exists>acts'. destroy_testnet False nets' ns' i = Some (nets, ns, acts')) \<and>
    destroy_testnet True nets' ns' i = Some (nets, ns', [])"
proof -
  obtain net ns1 acts1 res where ti: "testnet_init fs acreate init (testnet_new ty i pid nt n) ns = (net, ns1, acts1, res)"
    by (metis prod_cases4)
  obtain added where a: "ns1 = ns @ added" "\<forall>(a, m) \<in> set added. n_acceptor m \<noteq> None"
    "map fst added = map (node_name net) [1..<1 + length added]" "fst ` set added \<inter> fst ` set ns = {}"
    "res = return True \<longrightarrow> length added = n" "tn_node_ids_list net = map fst added @ replicate (n - length added) []"
    using testnet_init_adds [OF ti] by metis
  have "testnet_delete net ns1 \<noteq> None"
    using delete_added [OF a(6) assms(1) a(4,2)] a(1) by auto
  then have res: "res = return True" and ns': "ns' = fst (testnet_connect create buf cs net peers ns1)"
    and nets': "nets' = AList.update i net nets"
    using assms(2,4) ti by (auto simp: create_testnet_def Let_def split_beta split: if_splits)
  have "node_name net j \<in> fst ` set added" if "(j, ps) \<in> set peers" for j ps
  proof -
    have "j \<in> set [1..<1 + length added]" using assms(3) [OF that] a(5) res by auto
    then have "node_name net j \<in> set (map fst added)" unfolding a(3) by (metis image_eqI list.set_map)
    then show ?thesis by simp
  qed
  then have names: "\<forall>(j, ps) \<in> set peers. node_name net j \<in> fst ` set added" by auto
  have "distinct (map fst added)" unfolding a(3) by (simp add: distinct_map inj_on_def)
  from testnet_connect_added [OF a(4) names a(2) this] obtain added' where c: "ns' = ns @ added'"
    "map fst added' = map fst added" "\<forall>(a, m) \<in> set added'. n_acceptor m \<noteq> None" unfolding ns' a(1) by blast
  have "fst ` set added' = fst ` set added" using c(2) by (metis list.set_map)
  then have "\<exists>acts'. testnet_delete net ns' = Some (ns, acts')"
    unfolding c(1) using a(4,6) c by (intro delete_added [OF _ assms(1)]) auto
  moreover have "AList.update i net nets = nets @ [(i, net)]" "AList.delete i nets = nets"
    using assms(2) by (auto simp: map_of_eq_None_iff update_fresh AList.delete_eq image_iff intro!: filter_True)
  ultimately show ?thesis
    using assms(2) unfolding nets' by (auto simp: destroy_testnet_def AList.delete_eq map_add_def map_of_append)
qed

theorem destroy_undoes_create_witness:
  "\<exists>nets ns acts acts'. create_testnet [''t'' \<mapsto> plain_node] (\<lambda>_ i _. return (Some i)) (\<lambda>_. return True) (\<lambda>_ _ _. return (Some 7))
     (\<lambda>i. i) (\<lambda>_. Disconnected) [] [] ''t'' ''net'' ''p'' Localhost 3 (create_connections_vector 3 1) =
       Some (nets, ns, acts, return True) \<and> map fst ns = [''net_1'', ''net_2'', ''net_3''] \<and>
     destroy_testnet False nets ns ''net'' = Some ([], [], acts')"
proof -
  let ?c = "create_testnet [''t'' \<mapsto> plain_node] (\<lambda>_ i _. return (Some i)) (\<lambda>_. return True) (\<lambda>_ _ _. return (Some 7))
     (\<lambda>i. i) (\<lambda>_. Disconnected) [] [] ''t'' ''net'' ''p'' Localhost 3 (create_connections_vector 3 1)"
  have "map_option (\<lambda>(_, ns, _, r). (map fst ns, r)) ?c = Some ([''net_1'', ''net_2'', ''net_3''], return True)" by code_simp
  then obtain nets ns acts where c: "?c = Some (nets, ns, acts, return True)" "map fst ns = [''net_1'', ''net_2'', ''net_3'']"
    by (auto simp: map_option_case split: option.splits)
  have "(\<exists>acts'. destroy_testnet False nets ns ''net'' = Some ([], [], acts')) \<and>
      destroy_testnet True nets ns ''net'' = Some ([], ns, [])"
    by (rule destroy_undoes_create [OF _ _ _ c(1)]) (auto simp: create_connections_vector_def)
  then obtain acts' where "destroy_testnet False nets ns ''net'' = Some ([], [], acts')" by blast
  with c show ?thesis by (intro exI conjI)
qed

end
