(* ===== verification/Texts.thy ===== *)
theory Texts
  imports Hex_IO "HOL-Library.Sublist"
begin

text \<open>
  Functions of the C++ library on texts that several components use: \<^verbatim>\<open>std::stoi\<close>, \<^verbatim>\<open>std::string::find\<close> of a text,
  \<^verbatim>\<open>std::getline\<close>. Shown: a printed number is read back, and where the first occurrence of a text is.
\<close>

section \<open>Numbers\<close>

text \<open>\<open>std::stoi\<close>: white space, a sign, decimal digits; the rest is ignored.\<close>

definition dec_digit :: "char \<Rightarrow> bool" where
  "dec_digit c = (48 \<le> (of_char c :: nat) \<and> (of_char c :: nat) \<le> 57)"

definition dec_value :: "string \<Rightarrow> nat" where
  "dec_value ds = digits_value 10 (\<lambda>c. of_char c - 48) ds"

definition stoi :: "string \<Rightarrow> int outcome" where
  "stoi str =
     (let s = dropWhile is_space str;
          neg = (s \<noteq> [] \<and> hd s = CHR ''-'');
          s = (if s \<noteq> [] \<and> (hd s = CHR ''-'' \<or> hd s = CHR ''+'') then tl s else s);
          ds = takeWhile dec_digit s;
          v = (if neg then - int (dec_value ds) else int (dec_value ds))
      in if ds = [] then Some (throw (Invalid_argument ''stoi''))
         else if v < - (2 ^ 31) \<or> 2 ^ 31 \<le> v then Some (throw (Out_of_range ''stoi''))
         else succeed v)"

lemma to_string_chars: "set (to_string n) \<subseteq> digit ` {..<10}"
  unfolding to_string_def by (rule print_base_digits) simp

lemma digit_10:
  assumes "c \<in> digit ` {..<10}"
  shows "dec_digit c" "\<not> is_space c" "c \<notin> {CHR ''-'', CHR ''+'', CHR ''['', CHR '']''}"
proof -
  from assms obtain d where d: "c = digit d" "d < 10" by auto
  then have n: "of_char c = 48 + d" by (simp add: digit_def)
  show "dec_digit c" "\<not> is_space c" using n d by (auto simp: dec_digit_def is_space_def)
  have "of_char c \<notin> {of_char CHR ''-'', of_char CHR ''+'', of_char CHR ''['', of_char CHR '']'' :: nat}"
    using n d(2) by simp
  then show "c \<notin> {CHR ''-'', CHR ''+'', CHR ''['', CHR '']''}" by auto
qed

lemma stoi_to_string_append:
  assumes "n < 2 ^ 31" and "r = [] \<or> \<not> dec_digit (hd r)"
  shows "stoi (to_string n @ r) = succeed (int n)"
proof -
  let ?s = "to_string n"
  have c: "dec_digit c \<and> \<not> is_space c \<and> c \<noteq> CHR ''-'' \<and> c \<noteq> CHR ''+''" if "c \<in> set ?s" for c
    using digit_10 [of c] that to_string_chars [of n] by blast
  have ne: "?s \<noteq> []" by (simp add: to_string_def)
  then have hd: "hd ?s \<in> set ?s" by simp
  have "dropWhile is_space (?s @ r) = ?s @ r" using c [OF hd] ne by (cases ?s) auto
  moreover have "takeWhile dec_digit r = []" using assms(2) by (cases r) auto
  then have "takeWhile dec_digit (?s @ r) = ?s" using c by (simp add: takeWhile_append2)
  moreover have "dec_value ?s = n" unfolding dec_value_def to_string_def
    by (rule digits_value_print) (simp_all add: digit_def)
  ultimately show ?thesis using c [OF hd] ne assms by (simp add: stoi_def Let_def)
qed

lemma stoi_to_string: "n < 2 ^ 31 \<Longrightarrow> stoi (to_string n) = succeed (int n)"
  using stoi_to_string_append [of n "[]"] by simp

section \<open>Searching\<close>

text \<open>The position of the first occurrence of a text.\<close>

fun find_sub :: "string \<Rightarrow> string \<Rightarrow> nat option" where
  "find_sub p [] = (if p = [] then Some 0 else None)"
| "find_sub p (c # s) = (if prefix p (c # s) then Some 0 else map_option Suc (find_sub p s))"

lemma find_sub_SomeD: "find_sub p s = Some i \<Longrightarrow> prefix p (drop i s) \<and> i + length p \<le> length s \<and> (\<forall>j<i. \<not> prefix p (drop j s))"
proof (induction s arbitrary: i)
  case (Cons c s)
  show ?case
  proof (cases "prefix p (c # s)")
    case True
    then have "i = 0" using Cons.prems by simp
    then show ?thesis using True by (auto dest: prefix_length_le)
  next
    case False
    then obtain k where "i = Suc k" "find_sub p s = Some k" using Cons.prems by auto
    with Cons.IH [of k] False show ?thesis by (auto simp: less_Suc_eq_0_disj)
  qed
qed (auto split: if_splits)

text \<open>An occurrence stays the first one whatever follows, and a text that ends before its end has none.\<close>

lemma find_sub_append: "find_sub p s = Some i \<Longrightarrow> find_sub p (s @ t) = Some i"
proof (induction s arbitrary: i)
  case Nil
  then show ?case by (cases t) (auto split: if_splits)
next
  case (Cons c s)
  show ?case
  proof (cases "prefix p (c # s)")
    case True
    then show ?thesis using Cons.prems prefix_prefix [of p "c # s" t] by simp
  next
    case False
    then obtain k where k: "i = Suc k" "find_sub p s = Some k" using Cons.prems by auto
    have "length p \<le> length (c # s)" using find_sub_SomeD [OF k(2)] by simp
    then have "\<not> prefix p (c # s @ t)" using False
      by (metis append_Cons append_prefixD prefix_append prefix_length_prefix prefix_order.refl prefixI)
    then show ?thesis using Cons.IH [OF k(2)] k(1) by simp
  qed
qed

lemma find_sub_before:
  assumes "find_sub p s = Some i" "length a < i + length p" "s = a @ b"
  shows "find_sub p a = None"
proof (rule ccontr)
  assume "find_sub p a \<noteq> None"
  then obtain k where k: "find_sub p a = Some k" by auto
  from find_sub_append [OF this] assms(1,3) have "k = i" by simp
  with find_sub_SomeD [OF k] assms(2) show False by simp
qed

section \<open>Lines\<close>

text \<open>The end of a line and the end of the header in HTTP.\<close>

definition crlf :: string where "crlf = [CHR 0x0D, CHR 0x0A]"

definition crlf2 :: string where "crlf2 = crlf @ crlf"

text \<open>The lines that \<^verbatim>\<open>std::getline\<close> gives one after the other.\<close>

fun lines_of :: "string \<Rightarrow> string list" where
  "lines_of [] = []"
| "lines_of (c # s) =
     (if c = CHR 0x0A then [] # lines_of s else case lines_of s of [] \<Rightarrow> [[c]] | l # ls \<Rightarrow> (c # l) # ls)"

lemma lines_of_line: "CHR 0x0A \<notin> set l \<Longrightarrow> lines_of (l @ CHR 0x0A # s) = l # lines_of s"
  by (induction l) auto

end
