(* ===== verification/Eth_Abi.thy ===== *)
theory Eth_Abi
  imports Texts
begin

text \<open>
  Encoding and decoding of the arguments of Ethereum contracts, the second half of
  \<^verbatim>\<open>core/interop/ethereum/eth_helper_functions.h\<close>. A type is a text such as \<open>uint256[2][]\<close>; the routines cut
  off the last pair of brackets again and again. The encoder writes into a growing buffer at a head and a tail
  position; the decoder prints JSON.

  JSON values are the data type below; a number is given by the integer it converts to. The parser of JSON and
  the big integers of the Crypto++ library are parameters. Outcomes are \<open>None\<close> for undefined behaviour, and an
  exception or a result otherwise.
\<close>

section \<open>Loops\<close>

fun for_each :: "('a \<Rightarrow> 's \<Rightarrow> 's outcome) \<Rightarrow> 'a list \<Rightarrow> 's \<Rightarrow> 's outcome" where
  "for_each f [] s = succeed s"
| "for_each f (x # xs) s = and_then (f x s) (for_each f xs)"

section \<open>JSON values and big integers\<close>

datatype json =
    Null
  | Bool bool
  | Number int
  | Text string
  | Array "json list"
  | Object "(string \<times> json) list"

fun json_items :: "json \<Rightarrow> json list" where
  "json_items Null = []"
| "json_items (Array js) = js"
| "json_items (Object kvs) = map snd kvs"
| "json_items j = [j]"

definition json_size :: "json \<Rightarrow> nat" where
  "json_size j = length (json_items j)"

definition get_string :: "json \<Rightarrow> string outcome" where
  "get_string j = (case j of Text s \<Rightarrow> succeed s | _ \<Rightarrow> Some (throw (Json_error ''type must be string'')))"

text \<open>Construction from a text, encoding in and decoding from 32 bytes (signed or not), and printing.\<close>

record integers =
  of_text :: "string \<Rightarrow> int"
  encode32 :: "bool \<Rightarrow> int \<Rightarrow> string"
  decode32 :: "bool \<Rightarrow> string \<Rightarrow> int"
  to_text :: "int \<Rightarrow> string"

section \<open>Types\<close>

datatype abi_type = Abi_empty | Numerical | Fixed_size_bytes | Dynamic_size_bytes | Abi_string

datatype abi_array_type = No_array | Fixed | Dynamic

record eth_type =
  t_str :: string
  t_s_type :: abi_type
  t_s_array_type :: abi_array_type
  t_array_len :: nat

definition no_type :: eth_type where
  "no_type = \<lparr>t_str = [], t_s_type = Abi_empty, t_s_array_type = No_array, t_array_len = 0\<rparr>"

text \<open>\<open>s.find(c, pos)\<close>, and the last position the loops over \<open>find\<close> end with.\<close>

definition find_from :: "char \<Rightarrow> string \<Rightarrow> nat \<Rightarrow> nat option" where
  "find_from c s pos =
     (let k = length (takeWhile (\<lambda>x. x \<noteq> c) (drop pos s))
      in if pos + k < length s then Some (pos + k) else None)"

fun last_position :: "char \<Rightarrow> string \<Rightarrow> nat option" where
  "last_position c [] = None"
| "last_position c (x # s) =
     (case last_position c s of Some k \<Rightarrow> Some (Suc k) | None \<Rightarrow> if x = c then Some 0 else None)"

text \<open>The last opening bracket, unless it is the first character, and the closing bracket after it.\<close>

definition brackets :: "string \<Rightarrow> (nat \<times> nat) option" where
  "brackets s =
     (case last_position CHR ''['' s of
        None \<Rightarrow> None
      | Some k1 \<Rightarrow>
          if k1 = 0 then None
          else (case find_from CHR '']'' s (k1 + 1) of None \<Rightarrow> None | Some k2 \<Rightarrow> Some (k1, k2)))"

definition base_type :: "string \<Rightarrow> abi_type" where
  "base_type s =
     (if s = ''function'' \<or> prefix ''bytes'' s \<and> length s > 5 \<or> s = ''address'' then Fixed_size_bytes
      else if s = ''bytes'' then Dynamic_size_bytes
      else if s = ''string'' then Abi_string
      else Numerical)"

lemma brackets_bounds:
  assumes "brackets s = Some (k1, k2)"
  shows "0 < k1" "k1 < k2" "k2 < length s"
    "min (length s) k1 < length s" "min (length s) k1 + length s - Suc k2 < length s"
    "length (take k1 s @ drop (k2 + 1) s) + 1 < length s"
proof -
  show b: "0 < k1" "k1 < k2" "k2 < length s"
    using assms by (auto simp: brackets_def find_from_def Let_def split: option.splits if_splits)
  then show "min (length s) k1 < length s" "min (length s) k1 + length s - Suc k2 < length s"
    "length (take k1 s @ drop (k2 + 1) s) + 1 < length s" by auto
qed

function get_type :: "string \<Rightarrow> eth_type outcome" where
  "get_type s =
     (case brackets s of
        None \<Rightarrow> succeed \<lparr>t_str = s, t_s_type = base_type s, t_s_array_type = No_array, t_array_len = 0\<rparr>
      | Some (k1, k2) \<Rightarrow>
          and_then (if k1 < k2 - 1 then stoi (take (k2 - k1 - 1) (drop (k1 + 1) s)) else succeed 0) (\<lambda>n.
          and_then (get_type (take k1 s)) (\<lambda>arr_type.
          let len = nat (n mod 2 ^ 32) in
          succeed \<lparr>t_str = s, t_s_type = t_s_type arr_type,
            t_s_array_type =
              (if t_s_array_type arr_type = Dynamic \<or> len = 0 \<or> t_s_type arr_type = Dynamic_size_bytes \<or>
                  t_s_type arr_type = Abi_string then Dynamic else Fixed),
            t_array_len = len\<rparr>)))"
  by pat_completeness auto
termination
  by (relation "measure length") (auto intro: brackets_bounds(4))

declare get_type.simps [simp del]

definition extract_array_type :: "string \<Rightarrow> eth_type outcome" where
  "extract_array_type s =
     (case brackets s of
        None \<Rightarrow> succeed no_type
      | Some (k1, k2) \<Rightarrow> get_type (take k1 s @ drop (k2 + 1) s))"

text \<open>The string of a type is the text it was made from, so that an element type has a shorter text.\<close>

lemma get_type_str: "get_type s = Some (Inr t) \<Longrightarrow> t_str t = s"
  by (subst (asm) get_type.simps)
    (auto simp: Let_def succeed_def and_then_def split: option.splits sum.splits)

definition type_size :: "eth_type \<Rightarrow> nat" where
  "type_size t = length (t_str t) + (if t_s_array_type t = No_array then 0 else 1)"

lemma extract_smaller:
  "extract_array_type (t_str t) = Some (Inr tp) \<Longrightarrow> t_s_array_type t \<noteq> No_array \<Longrightarrow> type_size tp < type_size t"
  using brackets_bounds(6)
  by (fastforce simp: extract_array_type_def no_type_def succeed_def type_size_def
      dest: get_type_str split: option.splits)

text \<open>The number of elements of the fixed dimensions of a type, and the size of the heads of parameters.\<close>

function element_count :: "eth_type \<Rightarrow> nat \<Rightarrow> nat outcome" where
  "element_count t n =
     (if t_s_array_type t = Fixed then
        and_then (extract_array_type (t_str t)) (\<lambda>tp. element_count tp (n * t_array_len t mod 2 ^ 32))
      else succeed n)"
  by pat_completeness auto
termination
  by (relation "measure (type_size \<circ> fst)") (auto dest: extract_smaller)

declare element_count.simps [simp del]

definition calculate_offset :: "string list \<Rightarrow> nat outcome" where
  "calculate_offset params =
     for_each (\<lambda>p tail_offset.
         and_then (get_type p) (\<lambda>t.
         if t_s_array_type t = Fixed then
           and_then (element_count t 1) (\<lambda>n. succeed ((tail_offset + 32 * n) mod 2 ^ 32))
         else succeed ((tail_offset + 32) mod 2 ^ 32)))
       params 0"

section \<open>Words\<close>

definition encode_string :: "string \<Rightarrow> string" where
  "encode_string byte_array =
     (let reminder = length byte_array mod 32
      in byte_array @ (if reminder \<noteq> 0 then replicate (32 - reminder) (char_of (0::nat)) else []))"

definition dec_to_32hex :: "nat \<Rightarrow> string" where
  "dec_to_32hex n = (let s = print_base 16 n in replicate (64 - length s) (CHR ''0'') @ s)"

definition u64_to_u256 :: "nat \<Rightarrow> string" where
  "u64_to_u256 n = replicate 24 (char_of (0::nat)) @ map (\<lambda>i. char_of (drop_bit (56 - 8 * i) n)) [0..<8]"

definition u256_to_u64 :: "string \<Rightarrow> nat" where
  "u256_to_u64 s =
     (if length s \<noteq> 32 then 0
      else fold (\<lambda>i n. n OR push_bit ((7 - i) * 8) (of_char (s ! (24 + i)))) [0..<8] 0)"

definition dec_to_i256 :: "integers \<Rightarrow> bool \<Rightarrow> string \<Rightarrow> string" where
  "dec_to_i256 I is_signed s =
     (let s = (if take 2 s = ''0x'' then CHR ''h'' # drop 2 s else s)
      in encode32 I is_signed (of_text I s))"

text \<open>32 bytes are read from the text and its terminating zero, whatever its length.\<close>

definition i256_to_dec :: "integers \<Rightarrow> bool \<Rightarrow> string \<Rightarrow> string outcome" where
  "i256_to_dec I is_signed s =
     (if s = [] then succeed []
      else if length s < 31 then None
      else succeed (butlast (to_text I (decode32 I is_signed (take 32 (s @ [char_of (0::nat)]))))))"

definition data_substr :: "string \<Rightarrow> nat \<Rightarrow> nat \<Rightarrow> string outcome" where
  "data_substr s pos n =
     (if pos > length s then Some (throw (Out_of_range ''basic_string::substr'')) else succeed (take n (drop pos s)))"

definition contains :: "string \<Rightarrow> string \<Rightarrow> bool" where
  "contains pat s = sublist pat s"

section \<open>The buffer\<close>

text \<open>
  The buffer is the list of its bytes; the bytes of a new allocation that are not copied are given
  by \<open>junk\<close>. A copy past the end of the buffer is undefined.
\<close>

definition buffer_size :: nat where "buffer_size = 2048"

function new_size :: "nat \<Rightarrow> nat \<Rightarrow> nat" where
  "new_size sz need = (if need > sz then new_size (sz + buffer_size) need else sz)"
  by pat_completeness auto
termination
  by (relation "measure (\<lambda>(sz, need). need - sz)") (auto simp: buffer_size_def)

declare new_size.simps [simp del]

definition check_and_resize_buffer :: "(nat \<Rightarrow> char) \<Rightarrow> string \<Rightarrow> nat \<Rightarrow> nat \<Rightarrow> string" where
  "check_and_resize_buffer junk buf pos data_size =
     buf @ map junk [length buf..<new_size (length buf) (pos + data_size)]"

definition copy_to :: "string \<Rightarrow> nat \<Rightarrow> string \<Rightarrow> string outcome" where
  "copy_to buf pos s =
     (if pos + length s \<le> length buf then succeed (take pos buf @ s @ drop (pos + length s) buf) else None)"

definition put_bytes :: "(nat \<Rightarrow> char) \<Rightarrow> string \<Rightarrow> nat \<Rightarrow> string \<Rightarrow> string outcome" where
  "put_bytes junk buf pos s = copy_to (check_and_resize_buffer junk buf pos (length s)) pos s"

section \<open>Encoding\<close>

text \<open>
  The word of a parameter without array: \<open>Some None\<close> when the argument is refused with a warning.
  A numerical type that is no integer type is left with an empty text, from which 32 bytes are copied.
\<close>

definition encode_word :: "integers \<Rightarrow> eth_type \<Rightarrow> json \<Rightarrow> string option outcome" where
  "encode_word I t j =
     (if t_s_type t = Fixed_size_bytes then
        (case j of
           Text s \<Rightarrow>
             and_then (Some (hex2bin s)) (\<lambda>bin_data.
             if length bin_data > 32 then succeed None
             else if t_str t = ''address'' then
               (if length bin_data \<noteq> 20 then succeed None
                else succeed (Some (replicate 12 (char_of (0::nat)) @ bin_data)))
             else succeed (Some (bin_data @ replicate (32 - length bin_data) (char_of (0::nat)))))
         | _ \<Rightarrow> succeed None)
      else if t_str t = ''bool'' then
        (case j of Bool b \<Rightarrow> succeed (Some (u64_to_u256 (if b then 1 else 0))) | _ \<Rightarrow> succeed None)
      else if contains ''int'' (t_str t) then
        (case j of
           Number n \<Rightarrow> succeed (Some (dec_to_i256 I (hd (t_str t) \<noteq> CHR ''u'') (to_string (nat (n mod 2 ^ 64)))))
         | Text s \<Rightarrow> succeed (Some (dec_to_i256 I (hd (t_str t) \<noteq> CHR ''u'') s))
         | _ \<Rightarrow> succeed None)
      else if contains ''fixed'' (t_str t) then succeed None
      else None)"

type_synonym abi_buffer = "string \<times> nat \<times> nat"

text \<open>
  Buffer, head and tail position. Where the code passes the tail position for both, only the tail
  position is used.
\<close>

function encode_param :: "(nat \<Rightarrow> char) \<Rightarrow> integers \<Rightarrow> eth_type \<Rightarrow> json \<Rightarrow> abi_buffer \<Rightarrow> abi_buffer outcome" where
  "encode_param junk I t j (buf, head, tail) =
     (if t_s_array_type t = Fixed then
        (case j of
           Array js \<Rightarrow>
             if length js \<noteq> t_array_len t then succeed (buf, head, tail)
             else and_then (extract_array_type (t_str t)) (\<lambda>tp. for_each (encode_param junk I tp) js (buf, head, tail))
         | _ \<Rightarrow> succeed (buf, head, tail))
      else if t_s_array_type t = Dynamic then
        (case j of
           Array js \<Rightarrow>
             if t_array_len t \<noteq> 0 \<and> length js \<noteq> t_array_len t then succeed (buf, head, tail)
             else
               and_then (if t_array_len t = 0 then
                   and_then (put_bytes junk buf tail (u64_to_u256 (length js))) (\<lambda>buf. succeed (buf, tail + 32))
                 else succeed (buf, tail)) (\<lambda>(buf, tail).
               and_then (extract_array_type (t_str t)) (\<lambda>tp.
               if t_s_array_type tp = Fixed then
                 and_then (calculate_offset [t_str tp]) (\<lambda>off.
                 and_then (for_each (encode_param junk I tp) js (buf, tail, tail + length js * off)) (\<lambda>(buf, _, tail').
                 succeed (buf, head, tail')))
               else if t_s_type tp = Dynamic_size_bytes \<or> t_s_type tp = Abi_string \<or> t_s_array_type tp = Dynamic then
                 and_then (for_each (\<lambda>j (buf, head', tail').
                     and_then (put_bytes junk buf head' (u64_to_u256 (tail' - tail))) (\<lambda>buf.
                     and_then (encode_param junk I tp j (buf, tail', tail')) (\<lambda>(buf, _, tail').
                     succeed (buf, head' + 32, tail'))))
                   js (buf, tail, tail + 32 * length js)) (\<lambda>(buf, _, tail').
                 succeed (buf, head, tail'))
               else if t_s_type tp = Numerical \<or> t_s_type tp = Fixed_size_bytes then
                 and_then (for_each (encode_param junk I tp) js (buf, tail, tail + 32 * length js)) (\<lambda>(buf, _, tail').
                 succeed (buf, head, tail'))
               else succeed (buf, head, tail)))
         | _ \<Rightarrow> succeed (buf, head, tail))
      else if t_s_type t = Abi_string \<or> t_s_type t = Dynamic_size_bytes then
        (case j of
           Text data \<Rightarrow>
             and_then (if t_s_type t = Dynamic_size_bytes then Some (hex2bin data) else succeed data) (\<lambda>s.
             and_then (put_bytes junk buf tail (u64_to_u256 (length s))) (\<lambda>buf.
             and_then (put_bytes junk buf (tail + 32) (encode_string s)) (\<lambda>buf.
             succeed (buf, head, tail + 32 + length (encode_string s)))))
         | _ \<Rightarrow> succeed (buf, head, tail))
      else if t_s_type t = Fixed_size_bytes \<or> t_s_type t = Numerical then
        and_then (encode_word I t j) (\<lambda>w.
        case w of
          None \<Rightarrow> succeed (buf, head, tail)
        | Some encoded \<Rightarrow> and_then (put_bytes junk buf head encoded) (\<lambda>buf. succeed (buf, head + 32, tail)))
      else succeed (buf, head, tail))"
  by pat_completeness auto
termination
  by (relation "measure (\<lambda>(_, _, t, _, _). type_size t)") (auto dest: extract_smaller)

declare encode_param.simps [simp del]

definition is_dynamic :: "eth_type \<Rightarrow> bool" where
  "is_dynamic t \<longleftrightarrow> t_s_type t = Dynamic_size_bytes \<or> t_s_type t = Abi_string \<or> t_s_array_type t = Dynamic"

definition encode_step ::
  "(nat \<Rightarrow> char) \<Rightarrow> integers \<Rightarrow> string \<times> json \<Rightarrow> abi_buffer \<Rightarrow> abi_buffer outcome" where
  "encode_step junk I = (\<lambda>(signature, j) (buf, head, tail).
     and_then (get_type signature) (\<lambda>t.
     if is_dynamic t then
       and_then (copy_to (check_and_resize_buffer junk buf tail 32) head (u64_to_u256 tail)) (\<lambda>buf.
       and_then (encode_param junk I t j (buf, tail, tail)) (\<lambda>(buf, _, tail).
       succeed (buf, head + 32, tail)))
     else encode_param junk I t j (buf, head, tail)))"

text \<open>A text that is no JSON, or arguments that do not match the signatures, give the empty text.\<close>

definition encode ::
  "(string \<Rightarrow> json option) \<Rightarrow> (nat \<Rightarrow> char) \<Rightarrow> integers \<Rightarrow> string \<Rightarrow> string \<Rightarrow> string outcome" where
  "encode parse junk I signatures_json parameters_json =
     (case (parse signatures_json, parse parameters_json) of
        (Some j_sigs, Some (Array params)) \<Rightarrow>
          if length params \<noteq> json_size j_sigs then succeed []
          else
            (case j_sigs of
               Array js \<Rightarrow>
                 if list_all (\<lambda>j. case j of Text _ \<Rightarrow> True | _ \<Rightarrow> False) js then
                   (let signatures = map (\<lambda>j. case j of Text s \<Rightarrow> s | _ \<Rightarrow> []) js
                    in and_then (calculate_offset signatures) (\<lambda>tail.
                       and_then (for_each (encode_step junk I) (zip signatures params) (map junk [0..<buffer_size], 0, tail))
                         (\<lambda>(buf, _, tail). if tail \<le> length buf then succeed (take tail buf) else None)))
                 else succeed []
             | _ \<Rightarrow> succeed [])
      | _ \<Rightarrow> succeed [])"

section \<open>Decoding\<close>

text \<open>The elements of an array from a position on, \<open>n\<close> of them and a last one.\<close>

fun decode_seq :: "(nat \<Rightarrow> string outcome) \<Rightarrow> nat \<Rightarrow> nat \<Rightarrow> nat \<Rightarrow> string outcome" where
  "decode_seq f step 0 pos = f pos"
| "decode_seq f step (Suc n) pos =
     and_then (f pos) (\<lambda>x. and_then (decode_seq f step n (pos + step)) (\<lambda>rest. succeed (x @ '','' @ rest)))"

definition bytes_suffix :: "string \<Rightarrow> nat outcome" where
  "bytes_suffix s =
     (let ds = drop 5 s
      in if s = ''function'' then succeed 24
         else if prefix ''bytes'' s \<and> ds \<noteq> [] \<and> list_all dec_digit ds then
           (if dec_value ds < 2 ^ 64 then succeed (dec_value ds mod 2 ^ 32) else Some (throw (Out_of_range ''stoul'')))
         else succeed 32)"

definition quote :: "string \<Rightarrow> string" where
  "quote s = [CHR 0x22] @ s @ [CHR 0x22]"

definition decode_word :: "integers \<Rightarrow> eth_type \<Rightarrow> string \<Rightarrow> nat \<Rightarrow> string outcome" where
  "decode_word I t data pos =
     (if t_s_type t = Dynamic_size_bytes \<or> t_s_type t = Abi_string then
        and_then (data_substr data pos 32) (\<lambda>s.
        and_then (data_substr data (pos + 32) (u256_to_u64 s)) (\<lambda>res.
        succeed (if t_s_type t = Abi_string then quote res else quote (bin2hex res))))
      else if t_s_type t = Numerical then
        and_then (data_substr data pos 32) (\<lambda>res.
        if t_str t = ''bool'' then succeed (if u256_to_u64 res > 0 then ''true'' else ''false'')
        else if contains ''int'' (t_str t) then
          and_then (i256_to_dec I (hd (t_str t) \<noteq> CHR ''u'') res) (\<lambda>n. succeed (quote n))
        else if contains ''fixed'' (t_str t) then succeed (quote [])
        else succeed [])
      else if t_s_type t = Fixed_size_bytes then
        (if t_str t = ''address'' then
           and_then (data_substr data pos 32) (\<lambda>res. and_then (data_substr res 12 20) (\<lambda>res. succeed (quote (bin2hex res))))
         else
           and_then (bytes_suffix (t_str t)) (\<lambda>k. and_then (data_substr data pos k) (\<lambda>res. succeed (quote (bin2hex res)))))
      else succeed [])"

definition signed64 :: "nat \<Rightarrow> int" where
  "signed64 n = (if n < 2 ^ 63 then int n else int n - 2 ^ 64)"

text \<open>The element behind the offset that is found at a position; offsets count from \<open>pos\<close>.\<close>

definition at_offset :: "(nat \<Rightarrow> string outcome) \<Rightarrow> string \<Rightarrow> nat \<Rightarrow> nat \<Rightarrow> string outcome" where
  "at_offset f data pos p =
     and_then (data_substr data p 32) (\<lambda>s. f ((pos + u256_to_u64 s) mod 2 ^ 64))"

definition bracketed :: "string outcome \<Rightarrow> string outcome" where
  "bracketed m = and_then m (\<lambda>s. succeed (''['' @ s @ '']''))"

text \<open>
  A length of \<open>2 ^ 63\<close> or more is negative as \<^verbatim>\<open>int64_t\<close>: then only the last element is decoded, at a
  position before the array; the multiplication may overflow.
\<close>

function decode_param :: "integers \<Rightarrow> string \<Rightarrow> eth_type \<Rightarrow> nat \<Rightarrow> string outcome" where
  "decode_param I data t pos =
     (if t_s_array_type t = Fixed then
        and_then (extract_array_type (t_str t)) (\<lambda>tp.
        bracketed
          (if t_s_array_type tp = Fixed then
             and_then (if t_array_len t > 1 then calculate_offset [t_str tp] else succeed 0) (\<lambda>off.
               decode_seq (decode_param I data tp) off (t_array_len t - 1) pos)
           else if t_s_type tp = Numerical \<or> t_s_type tp = Fixed_size_bytes then
             decode_seq (decode_param I data tp) 32 (t_array_len t - 1) pos
           else succeed []))
      else if t_s_array_type t = Dynamic then
        and_then (if t_array_len t = 0 then and_then (data_substr data pos 32) (\<lambda>s. succeed (signed64 (u256_to_u64 s), pos + 32))
                  else succeed (int (t_array_len t), pos)) (\<lambda>(len, pos).
        if len = 0 then succeed ''[]''
        else
          and_then (extract_array_type (t_str t)) (\<lambda>tp.
          if t_s_array_type tp = No_array \<and> (t_s_type tp = Numerical \<or> t_s_type tp = Fixed_size_bytes) then
            bracketed (decode_seq (decode_param I data tp) 32 (nat (len - 1)) pos)
          else if t_s_array_type tp = Fixed then
            bracketed (and_then (if len > 1 then calculate_offset [t_str tp] else succeed 0) (\<lambda>off.
              decode_seq (decode_param I data tp) off (nat (len - 1)) pos))
          else if t_s_type tp = Abi_string \<or> t_s_type tp = Dynamic_size_bytes \<or> t_s_array_type tp = Dynamic then
            bracketed
              (if 0 < len then decode_seq (at_offset (decode_param I data tp) data pos) 32 (nat (len - 1)) pos
               else if 32 * (len - 1) < - (2 ^ 63) then None
               else at_offset (decode_param I data tp) data pos (nat ((int pos + 32 * (len - 1)) mod 2 ^ 64)))
          else succeed []))
      else decode_word I t data pos)"
  by pat_completeness auto
termination
  by (relation "measure (\<lambda>(_, _, t, _). type_size t)") (auto dest: extract_smaller)

declare decode_param.simps [simp del]

fun decode_all :: "integers \<Rightarrow> string \<Rightarrow> json list \<Rightarrow> nat \<Rightarrow> string outcome" where
  "decode_all I data [] pos = succeed []"
| "decode_all I data (j # js) pos =
     and_then (get_string j) (\<lambda>signature.
     and_then (get_type signature) (\<lambda>t.
     and_then (if is_dynamic t then
         and_then (data_substr data pos 32) (\<lambda>s. decode_param I data t (u256_to_u64 s))
       else decode_param I data t pos) (\<lambda>x.
     and_then (if t_s_array_type t = Fixed then calculate_offset [t_str t] else succeed 32) (\<lambda>off.
     and_then (decode_all I data js (pos + off)) (\<lambda>rest.
     succeed (x @ (if js = [] then [] else '','') @ rest))))))"

definition decode :: "(string \<Rightarrow> json option) \<Rightarrow> integers \<Rightarrow> string \<Rightarrow> string \<Rightarrow> string outcome" where
  "decode parse I signatures_json data =
     (case parse signatures_json of
        None \<Rightarrow> succeed []
      | Some j_sigs \<Rightarrow> bracketed (decode_all I data (json_items j_sigs) 0))"

end
