(* ===== verification/Eth_Abi_Types.thy ===== *)
theory Eth_Abi_Types
  imports Eth_Abi
begin

text \<open>
  Types of contract arguments as terms, with the texts that name them and the sizes of their static parts, and
  what the routines of \<open>Eth_Abi\<close> make of these texts; lemmas on 256-bit words and on writing to the buffer.
\<close>

section \<open>Names of types\<close>

datatype aty = Elem string | Arr aty nat

text \<open>Length 0 stands for an array of any length.\<close>

fun ty_name :: "aty \<Rightarrow> string" where
  "ty_name (Elem b) = b"
| "ty_name (Arr t n) = ty_name t @ CHR ''['' # (if n = 0 then [] else to_string n) @ '']''"

fun wf_ty :: "aty \<Rightarrow> bool" where
  "wf_ty (Elem b) = (b \<noteq> [] \<and> CHR ''['' \<notin> set b)"
| "wf_ty (Arr t n) = (wf_ty t \<and> n < 2 ^ 31)"

fun elem :: "aty \<Rightarrow> string" where
  "elem (Elem b) = b"
| "elem (Arr t n) = elem t"

fun dyn :: "aty \<Rightarrow> bool" where
  "dyn (Elem b) = (base_type b = Dynamic_size_bytes \<or> base_type b = Abi_string)"
| "dyn (Arr t n) = (n = 0 \<or> dyn t)"

fun ty_rec :: "aty \<Rightarrow> eth_type" where
  "ty_rec (Elem b) = \<lparr>t_str = b, t_s_type = base_type b, t_s_array_type = No_array, t_array_len = 0\<rparr>"
| "ty_rec (Arr t n) = \<lparr>t_str = ty_name (Arr t n), t_s_type = base_type (elem t),
     t_s_array_type = (if dyn (Arr t n) then Dynamic else Fixed), t_array_len = n\<rparr>"

text \<open>The number of words of a static type.\<close>

fun words :: "aty \<Rightarrow> nat" where
  "words (Elem b) = 1"
| "words (Arr t n) = words t * n"

lemma last_position_None: "last_position c s = None \<longleftrightarrow> c \<notin> set s"
  by (induction s) (auto split: option.splits)

lemma last_position_append: "c \<notin> set b \<Longrightarrow> last_position c (a @ c # b) = Some (length a)"
  by (induction a) (auto simp: last_position_None [THEN iffD2])

lemma find_from_append: "c \<notin> set b \<Longrightarrow> find_from c (a @ b @ c # r) (length a) = Some (length a + length b)"
proof -
  assume c: "c \<notin> set b"
  have "takeWhile (\<lambda>x. x \<noteq> c) (b @ c # r) = b" using c by (subst takeWhile_append2) auto
  then show ?thesis by (simp add: find_from_def)
qed

lemma ty_name_not_Nil: "wf_ty t \<Longrightarrow> ty_name t \<noteq> []"
  by (cases t) auto

lemma brackets_Elem: "wf_ty (Elem b) \<Longrightarrow> brackets b = None"
  by (simp add: brackets_def last_position_None [THEN iffD2])

definition dims :: "nat \<Rightarrow> string" where
  "dims n = (if n = 0 then [] else to_string n)"

lemma dims_chars: "CHR ''['' \<notin> set (dims n)" "CHR '']'' \<notin> set (dims n)"
proof -
  have "c \<notin> {CHR ''['', CHR '']''}" if "c \<in> set (to_string n)" for c
    using that digit_10(3) [of c] to_string_chars [of n] by blast
  then show "CHR ''['' \<notin> set (dims n)" "CHR '']'' \<notin> set (dims n)" by (auto simp: dims_def)
qed

lemma ty_name_Arr: "ty_name (Arr t n) = ty_name t @ CHR ''['' # dims n @ '']''"
  by (simp add: dims_def)

lemma brackets_Arr:
  assumes "wf_ty t"
  shows "brackets (ty_name (Arr t n)) = Some (length (ty_name t), length (ty_name t) + 1 + length (dims n))"
proof -
  have "last_position CHR ''['' (ty_name (Arr t n)) = Some (length (ty_name t))"
    unfolding ty_name_Arr by (rule last_position_append) (simp add: dims_chars)
  moreover have "find_from CHR '']'' (ty_name (Arr t n)) (length (ty_name t) + 1) =
      Some (length (ty_name t) + 1 + length (dims n))"
    unfolding ty_name_Arr using find_from_append [OF dims_chars(2), of "ty_name t @ ''[''" n "[]"] by simp
  ultimately show ?thesis using ty_name_not_Nil [OF assms] by (simp add: brackets_def del: ty_name.simps)
qed

lemma t_str_rec [simp]: "t_str (ty_rec t) = ty_name t"
  by (cases t) auto

lemma rec_fields:
  "t_s_type (ty_rec t) = base_type (elem t)"
  "t_s_array_type (ty_rec t) = (case t of Elem _ \<Rightarrow> No_array | Arr _ _ \<Rightarrow> if dyn t then Dynamic else Fixed)"
  by (cases t; simp)+

lemma dyn_rec: "dyn t \<longleftrightarrow> t_s_array_type (ty_rec t) = Dynamic \<or> base_type (elem t) = Dynamic_size_bytes \<or> base_type (elem t) = Abi_string"
  by (induction t) auto

lemma is_dynamic_rec: "is_dynamic (ty_rec t) = dyn t"
  using dyn_rec [of t] by (auto simp: is_dynamic_def rec_fields(1))

lemma get_type_name: "wf_ty t \<Longrightarrow> get_type (ty_name t) = succeed (ty_rec t)"
proof (induction t)
  case (Elem b)
  then show ?case by (subst get_type.simps) (simp add: brackets_Elem)
next
  case (Arr t n)
  then have t: "wf_ty t" and n: "n < 2 ^ 31" and IH: "get_type (ty_name t) = succeed (ty_rec t)" by auto
  define s k where "s = ty_name (Arr t n)" and "k = length (ty_name t)"
  have s: "s = ty_name t @ CHR ''['' # dims n @ '']''" by (simp only: s_def ty_name_Arr)
  have br: "brackets s = Some (k, k + 1 + length (dims n))" unfolding s_def k_def by (rule brackets_Arr [OF t])
  have len: "(if k < k + 1 + length (dims n) - 1 then stoi (take (k + 1 + length (dims n) - k - 1) (drop (k + 1) s)) else succeed 0) =
      succeed (int n)"
    using stoi_to_string [OF n] by (cases "n = 0") (auto simp: s k_def dims_def to_string_def)
  have arr: "get_type (take k s) = succeed (ty_rec t)" using IH by (simp add: s k_def)
  have cond: "(t_s_array_type (ty_rec t) = Dynamic \<or> n = 0 \<or> base_type (elem t) = Dynamic_size_bytes \<or> base_type (elem t) = Abi_string)
      = dyn (Arr t n)" using dyn_rec [of t] by auto
  have "nat (int n mod 2 ^ 32) = n" using n by simp
  then have "get_type s = succeed \<lparr>t_str = s, t_s_type = base_type (elem t),
      t_s_array_type = (if dyn (Arr t n) then Dynamic else Fixed), t_array_len = n\<rparr>"
    unfolding cond [symmetric]
    by (subst get_type.simps) (simp only: br option.case prod.case len arr and_then_succeed Let_def rec_fields(1))
  then show ?case unfolding s_def ty_rec.simps .
qed

lemma extract_name:
  assumes "wf_ty t"
  shows "extract_array_type (ty_name (Arr t n)) = succeed (ty_rec t)"
proof -
  have "drop (length (ty_name t) + 1 + length (dims n) + 1) (ty_name (Arr t n)) = []" unfolding ty_name_Arr by simp
  then show ?thesis
    using get_type_name [OF assms] by (simp add: extract_array_type_def brackets_Arr [OF assms] del: ty_name.simps) simp
qed

lemma static_array: "\<not> dyn (Arr t n) \<Longrightarrow> t_s_array_type (ty_rec (Arr t n)) = Fixed"
  by simp

lemma for_each_single: "for_each f [x] s = f x s"
  by (cases "f x s") (auto simp: and_then_def succeed_def split: sum.splits)

lemma element_count_name:
  "wf_ty t \<Longrightarrow> \<not> dyn t \<Longrightarrow> m * words t < 2 ^ 32 \<Longrightarrow> element_count (ty_rec t) m = succeed (m * words t)"
proof (induction t arbitrary: m)
  case (Elem b)
  then show ?case by (subst element_count.simps) simp
next
  case (Arr t n)
  then have "m * n * words t < 2 ^ 32" "n \<noteq> 0" by (auto simp: algebra_simps)
  moreover have "0 < words t" using Arr.prems(1,2) by (induction t) auto
  ultimately have "m * n < 2 ^ 32" by (metis (no_types, lifting) le_less_trans mult.right_neutral mult_le_mono2 Suc_leI One_nat_def)
  with Arr extract_name [of t n] show ?case
    by (subst element_count.simps) (simp add: algebra_simps del: ty_name.simps)
qed

lemma calculate_offset_one:
  assumes "wf_ty t" and "32 * words t < 2 ^ 32"
  shows "calculate_offset [ty_name t] = succeed (if dyn t then 32 else 32 * words t)"
proof (cases t)
  case (Elem b)
  then show ?thesis using get_type_name [OF assms(1)] by (simp add: calculate_offset_def for_each_single)
next
  case (Arr u n)
  have "element_count (ty_rec t) 1 = succeed (words t)" if "\<not> dyn t"
    using element_count_name [OF assms(1) that, of 1] assms(2) by simp
  with Arr show ?thesis using get_type_name [OF assms(1)] assms(2)
    by (cases "dyn t") (simp_all add: calculate_offset_def for_each_single)
qed

end
