(* ===== verification/Eth_Abi_Encode.thy ===== *)
theory Eth_Abi_Encode
  imports Eth_Abi_Types
begin

text \<open>
  The encoder against a reference definition of the encoding, which puts the parts of a value together without
  a buffer: a static value is the sequence of its words; a sequence of dynamic values is a sequence of offsets
  followed by the values.
\<close>

section \<open>The reference encoding\<close>

text \<open>The bytes of a text or byte argument.\<close>

definition payload :: "string \<Rightarrow> json \<Rightarrow> string option" where
  "payload b j =
     (case j of
        Text s \<Rightarrow> if base_type b = Abi_string then Some s else (case hex2bin s of Inr x \<Rightarrow> Some x | Inl _ \<Rightarrow> None)
      | _ \<Rightarrow> None)"

definition static_word :: "integers \<Rightarrow> string \<Rightarrow> json \<Rightarrow> string option" where
  "static_word I b j =
     (case encode_word I (ty_rec (Elem b)) j of
        Some (Inr (Some w)) \<Rightarrow> if length w = 32 then Some w else None
      | _ \<Rightarrow> None)"

text \<open>Offsets of values that stand one after the other, the first at \<open>off\<close>.\<close>

fun offsets :: "nat \<Rightarrow> string list \<Rightarrow> string" where
  "offsets off [] = []"
| "offsets off (x # xs) = u64_to_u256 off @ offsets (off + length x) xs"

definition enc_seq :: "bool \<Rightarrow> string list \<Rightarrow> string" where
  "enc_seq d xs = (if d then offsets (32 * length xs) xs @ concat xs else concat xs)"

fun enc :: "integers \<Rightarrow> aty \<Rightarrow> json \<Rightarrow> string" where
  "enc I (Elem b) j =
     (if dyn (Elem b) then
        (case payload b j of Some s \<Rightarrow> u64_to_u256 (length s) @ encode_string s | None \<Rightarrow> [])
      else (case static_word I b j of Some w \<Rightarrow> w | None \<Rightarrow> []))"
| "enc I (Arr t n) j =
     (case j of
        Array js \<Rightarrow> (if n = 0 then u64_to_u256 (length js) else []) @ enc_seq (dyn t) (map (enc I t) js)
      | _ \<Rightarrow> [])"

text \<open>Arguments that fit a type.\<close>

fun fits_type :: "integers \<Rightarrow> aty \<Rightarrow> json \<Rightarrow> bool" where
  "fits_type I (Elem b) j = (if dyn (Elem b) then payload b j \<noteq> None else static_word I b j \<noteq> None)"
| "fits_type I (Arr t n) j =
     (case j of Array js \<Rightarrow> (n = 0 \<or> length js = n) \<and> list_all (fits_type I t) js | _ \<Rightarrow> False)"

text \<open>The sizes of static arrays can be counted in 32 bits.\<close>

fun small :: "aty \<Rightarrow> bool" where
  "small (Elem b) = True"
| "small (Arr t n) = (small t \<and> (dyn (Arr t n) \<or> 32 * words (Arr t n) < 2 ^ 32))"

lemma small_words: "small t \<Longrightarrow> \<not> dyn t \<Longrightarrow> 32 * words t < 2 ^ 32"
  by (cases t) auto

lemma length_u64 [simp]: "length (u64_to_u256 n) = 32"
  by (simp add: u64_to_u256_def)

lemma length_offsets [simp]: "length (offsets off xs) = 32 * length xs"
  by (induction xs arbitrary: off) auto

lemma offsets_append: "offsets off (xs @ ys) = offsets off xs @ offsets (off + length (concat xs)) ys"
  by (induction xs arbitrary: off) (auto simp: algebra_simps)

lemma length_concat_same: "(\<And>x. x \<in> set xs \<Longrightarrow> length x = k) \<Longrightarrow> length (concat xs) = length xs * k"
  by (induction xs) auto

lemma length_enc_static: "\<not> dyn t \<Longrightarrow> fits_type I t j \<Longrightarrow> length (enc I t j) = 32 * words t"
proof (induction t arbitrary: j)
  case (Elem b)
  then show ?case by (auto simp: static_word_def split: option.splits sum.splits if_splits)
next
  case (Arr t n)
  from Arr.prems obtain js where js: "j = Array js" "length js = n" "n \<noteq> 0" "\<not> dyn t" "\<And>x. x \<in> set js \<Longrightarrow> fits_type I t x"
    by (auto simp: list_all_iff split: json.splits)
  then have "length (concat (map (enc I t) js)) = n * (32 * words t)"
    using Arr.IH length_concat_same [of "map (enc I t) js" "32 * words t"] by auto
  with js show ?case by (simp add: enc_seq_def)
qed

section \<open>Writing to the buffer\<close>

definition at :: "nat \<Rightarrow> 'a list \<Rightarrow> nat \<Rightarrow> 'a option" where
  "at p s i = (if p \<le> i \<and> i < p + length s then Some (s ! (i - p)) else None)"

text \<open>The buffer after bytes have been written; it may have grown.\<close>

definition upd :: "string \<Rightarrow> string \<Rightarrow> (nat \<Rightarrow> char option) \<Rightarrow> bool" where
  "upd b b' w \<longleftrightarrow> length b \<le> length b' \<and> (\<forall>i c. w i = Some c \<longrightarrow> i < length b' \<and> b' ! i = c) \<and>
     (\<forall>i<length b. w i = None \<longrightarrow> b' ! i = b ! i)"

lemma dom_at: "dom (at p s) = {p..<p + length s}"
  by (auto simp: at_def dom_def)

lemma at_Nil [simp]: "at p [] = Map.empty"
  by (simp add: at_def fun_eq_iff)

lemma at_append: "at p (a @ b) = at p a ++ at (p + length a) b"
  by (auto simp: at_def fun_eq_iff map_add_def nth_append split: option.splits)

lemma at_swap: "p + length a \<le> q \<Longrightarrow> at q b ++ at p a = at p a ++ at q b"
  by (rule map_add_comm) (auto simp: dom_at)

lemma upd_refl: "upd b b Map.empty"
  by (simp add: upd_def)

lemma upd_trans: "upd b b1 w1 \<Longrightarrow> upd b1 b2 w2 \<Longrightarrow> upd b b2 (w1 ++ w2)"
  unfolding upd_def map_add_def by (fastforce split: option.splits)

lemma upd_append: "upd b b1 (at p x) \<Longrightarrow> upd b1 b2 (at (p + length x) y) \<Longrightarrow> upd b b2 (at p (x @ y))"
  using upd_trans by (metis at_append)

lemma upd_take:
  assumes "upd b b' (at 0 s)"
  shows "length s \<le> length b' \<and> take (length s) b' = s"
proof -
  have s: "i < length b' \<and> b' ! i = s ! i" if "i < length s" for i
    using assms that by (auto simp: upd_def at_def)
  have "length s \<le> length b'"
  proof (cases "length s")
    case (Suc k)
    with s [of k] show ?thesis by simp
  qed simp
  with s show ?thesis by (auto intro: nth_equalityI)
qed

lemma new_size_ge: "sz \<le> new_size sz need \<and> need \<le> new_size sz need"
proof (induction sz need rule: new_size.induct)
  case (1 sz need)
  then show ?case by (subst (1 2) new_size.simps) auto
qed

lemma length_resized:
  "length (check_and_resize_buffer junk b p k) \<ge> length b" "length (check_and_resize_buffer junk b p k) \<ge> p + k"
  using new_size_ge [of "length b" "p + k"]
  by (simp_all add: check_and_resize_buffer_def)

lemma upd_copy:
  assumes "q + length s \<le> length (check_and_resize_buffer junk b p k)"
  shows "\<exists>b'. copy_to (check_and_resize_buffer junk b p k) q s = succeed b' \<and> upd b b' (at q s)"
proof -
  let ?r = "check_and_resize_buffer junk b p k"
  have "upd ?r (take q ?r @ s @ drop (q + length s) ?r) (at q s)"
    using assms by (auto simp: upd_def at_def nth_append)
  moreover have "upd b ?r Map.empty"
    using length_resized(1) [of b junk p k] by (simp add: upd_def check_and_resize_buffer_def nth_append)
  ultimately have "upd b (take q ?r @ s @ drop (q + length s) ?r) (at q s)" using upd_trans by fastforce
  moreover have "copy_to ?r q s = succeed (take q ?r @ s @ drop (q + length s) ?r)" using assms by (simp add: copy_to_def)
  ultimately show ?thesis by blast
qed

lemma upd_put: "\<exists>b'. put_bytes junk b p s = succeed b' \<and> upd b b' (at p s)"
  unfolding put_bytes_def using upd_copy length_resized(2) by blast

section \<open>The encoder\<close>

text \<open>What the encoder does with a value of a type: static values go to the head position, the others to the tail.\<close>

definition encodes :: "(nat \<Rightarrow> char) \<Rightarrow> integers \<Rightarrow> aty \<Rightarrow> json \<Rightarrow> bool" where
  "encodes junk I t j \<longleftrightarrow> (\<forall>buf h l. \<exists>buf'. encode_param junk I (ty_rec t) j (buf, h, l) =
      succeed (buf', if dyn t then h else h + length (enc I t j), if dyn t then l + length (enc I t j) else l) \<and>
    upd buf buf' (at (if dyn t then l else h) (enc I t j)))"

lemma encodes_static:
  "encodes junk I t j \<Longrightarrow> \<not> dyn t \<Longrightarrow>
   \<exists>buf'. encode_param junk I (ty_rec t) j (buf, h, l) = succeed (buf', h + length (enc I t j), l) \<and> upd buf buf' (at h (enc I t j))"
  by (simp add: encodes_def)

lemma encodes_dynamic:
  "encodes junk I t j \<Longrightarrow> dyn t \<Longrightarrow>
   \<exists>buf'. encode_param junk I (ty_rec t) j (buf, h, l) = succeed (buf', h, l + length (enc I t j)) \<and> upd buf buf' (at l (enc I t j))"
  by (simp add: encodes_def)

lemma encode_static_seq:
  assumes "\<not> dyn t" and "\<And>j. j \<in> set js \<Longrightarrow> encodes junk I t j"
  shows "\<exists>buf'. for_each (encode_param junk I (ty_rec t)) js (buf, h, l) =
      succeed (buf', h + length (concat (map (enc I t) js)), l) \<and> upd buf buf' (at h (concat (map (enc I t) js)))"
  using assms(2)
proof (induction js arbitrary: buf h)
  case Nil
  then show ?case by (auto simp: upd_refl)
next
  case (Cons j js)
  obtain b1 where b1: "encode_param junk I (ty_rec t) j (buf, h, l) = succeed (b1, h + length (enc I t j), l)"
    "upd buf b1 (at h (enc I t j))"
    using encodes_static [OF Cons.prems assms(1)] by (meson list.set_intros(1))
  from Cons obtain b2 where b2: "for_each (encode_param junk I (ty_rec t)) js (b1, h + length (enc I t j), l) =
      succeed (b2, h + length (enc I t j) + length (concat (map (enc I t) js)), l)"
    "upd b1 b2 (at (h + length (enc I t j)) (concat (map (enc I t) js)))" by (meson list.set_intros(2))
  from b1 b2 upd_append [OF b1(2) b2(2)] show ?case by (auto simp: add.assoc)
qed

text \<open>The loop over dynamic elements: offsets from \<open>h\<close> on, values from \<open>l\<close> on.\<close>

lemma encode_dynamic_seq:
  assumes "dyn t" and "\<And>j. j \<in> set js \<Longrightarrow> encodes junk I t j" and "base \<le> l" and "h + 32 * length js \<le> l"
  shows "\<exists>buf'. for_each (\<lambda>j (buf, head', tail').
        and_then (put_bytes junk buf head' (u64_to_u256 (tail' - base))) (\<lambda>buf.
        and_then (encode_param junk I (ty_rec t) j (buf, tail', tail')) (\<lambda>(buf, _, tail').
        succeed (buf, head' + 32, tail')))) js (buf, h, l) =
      succeed (buf', h + 32 * length js, l + length (concat (map (enc I t) js))) \<and>
    upd buf buf' (at h (offsets (l - base) (map (enc I t) js)) ++ at l (concat (map (enc I t) js)))"
  using assms(2-)
proof (induction js arbitrary: buf h l)
  case Nil
  then show ?case by (auto simp: upd_refl)
next
  case (Cons j js)
  let ?f = "\<lambda>j (buf, head', tail').
        and_then (put_bytes junk buf head' (u64_to_u256 (tail' - base))) (\<lambda>buf.
        and_then (encode_param junk I (ty_rec t) j (buf, tail', tail')) (\<lambda>(buf, _, tail').
        succeed (buf, head' + 32, tail')))"
  let ?e = "enc I t j" and ?o = "u64_to_u256 (l - base)" and ?es = "concat (map (enc I t) js)"
  obtain b1 where b1: "put_bytes junk buf h ?o = succeed b1" "upd buf b1 (at h ?o)" using upd_put by blast
  obtain b2 where b2: "encode_param junk I (ty_rec t) j (b1, l, l) = succeed (b2, l, l + length ?e)" "upd b1 b2 (at l ?e)"
    using encodes_dynamic [OF Cons.prems(1) assms(1)] by (meson list.set_intros(1))
  have step: "?f j (buf, h, l) = succeed (b2, h + 32, l + length ?e)" by (simp add: b1(1) b2(1))
  obtain b3 where b3: "for_each ?f js (b2, h + 32, l + length ?e) =
      succeed (b3, h + 32 + 32 * length js, l + length ?e + length ?es)"
    "upd b2 b3 (at (h + 32) (offsets (l + length ?e - base) (map (enc I t) js)) ++ at (l + length ?e) ?es)"
    using Cons.IH [of "l + length ?e" "h + 32" b2] Cons.prems by auto
  have "at l ?e ++ at (h + 32) (offsets (l - base + length ?e) (map (enc I t) js)) =
      at (h + 32) (offsets (l - base + length ?e) (map (enc I t) js)) ++ at l ?e"
    using Cons.prems(3) by (intro at_swap) simp
  then have "at h ?o ++ at l ?e ++ (at (h + 32) (offsets (l - base + length ?e) (map (enc I t) js)) ++ at (l + length ?e) ?es) =
      at h (offsets (l - base) (map (enc I t) (j # js))) ++ at l (concat (map (enc I t) (j # js)))"
    by (simp add: at_append) (metis map_add_assoc)
  moreover have "l + length ?e - base = l - base + length ?e" using Cons.prems(2) by simp
  ultimately have "upd buf b3 (at h (offsets (l - base) (map (enc I t) (j # js))) ++ at l (concat (map (enc I t) (j # js))))"
    using upd_trans [OF upd_trans [OF b1(2) b2(2)] b3(2)] by simp
  moreover have "for_each ?f (j # js) (buf, h, l) = succeed (b3, h + 32 * length (j # js), l + length (concat (map (enc I t) (j # js))))"
    unfolding for_each.simps step and_then_succeed b3(1) by (simp add: add.assoc)
  ultimately show ?case by blast
qed

lemma encodes_Elem: "fits_type I (Elem b) j \<Longrightarrow> encodes junk I (Elem b) j"
proof (cases "dyn (Elem b)")
  case True
  assume "fits_type I (Elem b) j"
  with True obtain x s where j: "j = Text x" "payload b j = Some s" by (auto simp: payload_def split: json.splits)
  have data: "(if base_type b = Dynamic_size_bytes then Some (hex2bin x) else succeed x) = succeed s"
    using j True by (auto simp: payload_def succeed_def split: if_splits sum.splits)
  show ?thesis unfolding encodes_def
  proof (intro allI)
    fix buf h l
    obtain b1 where b1: "put_bytes junk buf l (u64_to_u256 (length s)) = succeed b1" "upd buf b1 (at l (u64_to_u256 (length s)))"
      using upd_put by blast
    obtain b2 where b2: "put_bytes junk b1 (l + 32) (encode_string s) = succeed b2" "upd b1 b2 (at (l + 32) (encode_string s))"
      using upd_put by blast
    have "upd buf b2 (at l (u64_to_u256 (length s) @ encode_string s))" using upd_append [OF b1(2)] b2(2) by simp
    then show "\<exists>buf'. encode_param junk I (ty_rec (Elem b)) j (buf, h, l) =
        succeed (buf', if dyn (Elem b) then h else h + length (enc I (Elem b) j),
          if dyn (Elem b) then l + length (enc I (Elem b) j) else l) \<and>
      upd buf buf' (at (if dyn (Elem b) then l else h) (enc I (Elem b) j))"
      using True j data b1(1) b2(1) by (subst encode_param.simps) (auto simp: add.assoc)
  qed
next
  case False
  assume "fits_type I (Elem b) j"
  with False obtain w where w: "encode_word I (ty_rec (Elem b)) j = succeed (Some w)" "length w = 32" "static_word I b j = Some w"
    by (auto simp: static_word_def succeed_def split: option.splits sum.splits if_splits)
  have "base_type b = Fixed_size_bytes \<or> base_type b = Numerical" using False by (auto simp: base_type_def)
  then have "encode_param junk I (ty_rec (Elem b)) j (buf, h, l) =
      and_then (put_bytes junk buf h w) (\<lambda>buf. succeed (buf, h + 32, l))" for buf h l
    using False w(1) by (subst encode_param.simps) (auto simp: base_type_def)
  moreover have "\<exists>buf'. and_then (put_bytes junk buf h w) (\<lambda>buf. succeed (buf, h + 32, l)) = succeed (buf', h + 32, l) \<and>
      upd buf buf' (at h w)" for buf h l using upd_put [of junk buf h w] by auto
  moreover have "enc I (Elem b) j = w" using w(3) False by simp
  ultimately show ?thesis using False w(2) unfolding encodes_def by (simp, blast)
qed

text \<open>The elements of a dynamic array, from the position \<open>l\<close> after the length on.\<close>

definition elements ::
  "(nat \<Rightarrow> char) \<Rightarrow> integers \<Rightarrow> eth_type \<Rightarrow> json list \<Rightarrow> nat \<Rightarrow> string \<Rightarrow> nat \<Rightarrow> abi_buffer outcome" where
  "elements junk I tp js h buf l =
    (if t_s_array_type tp = Fixed then
       and_then (calculate_offset [t_str tp]) (\<lambda>off.
       and_then (for_each (encode_param junk I tp) js (buf, l, l + length js * off)) (\<lambda>(buf, _, tail').
       succeed (buf, h, tail')))
     else if t_s_type tp = Dynamic_size_bytes \<or> t_s_type tp = Abi_string \<or> t_s_array_type tp = Dynamic then
       and_then (for_each (\<lambda>j (buf, head', tail').
           and_then (put_bytes junk buf head' (u64_to_u256 (tail' - l))) (\<lambda>buf.
           and_then (encode_param junk I tp j (buf, tail', tail')) (\<lambda>(buf, _, tail').
           succeed (buf, head' + 32, tail'))))
         js (buf, l, l + 32 * length js)) (\<lambda>(buf, _, tail').
       succeed (buf, h, tail'))
     else if t_s_type tp = Numerical \<or> t_s_type tp = Fixed_size_bytes then
       and_then (for_each (encode_param junk I tp) js (buf, l, l + 32 * length js)) (\<lambda>(buf, _, tail').
       succeed (buf, h, tail'))
     else succeed (buf, h, l))"

lemma encode_elements:
  assumes t: "wf_ty t" "small t" and IH: "\<And>x. x \<in> set js \<Longrightarrow> encodes junk I t x" and f: "\<And>x. x \<in> set js \<Longrightarrow> fits_type I t x"
  shows "\<exists>buf'. elements junk I (ty_rec t) js h buf l = succeed (buf', h, l + length (enc_seq (dyn t) (map (enc I t) js))) \<and>
    upd buf buf' (at l (enc_seq (dyn t) (map (enc I t) js)))"
proof (cases "dyn t")
  case True
  obtain b where b: "for_each (\<lambda>j (buf, head', tail').
           and_then (put_bytes junk buf head' (u64_to_u256 (tail' - l))) (\<lambda>buf.
           and_then (encode_param junk I (ty_rec t) j (buf, tail', tail')) (\<lambda>(buf, _, tail').
           succeed (buf, head' + 32, tail')))) js (buf, l, l + 32 * length js) =
      succeed (b, l + 32 * length js, l + 32 * length js + length (concat (map (enc I t) js)))"
    "upd buf b (at l (offsets (32 * length js) (map (enc I t) js)) ++ at (l + 32 * length js) (concat (map (enc I t) js)))"
    using encode_dynamic_seq [where js = js, OF True IH, where base = l and l = "l + 32 * length js" and h = l and buf = buf] by auto
  have "t_s_array_type (ty_rec t) \<noteq> Fixed" using True by (cases t) auto
  moreover have "t_s_type (ty_rec t) = Dynamic_size_bytes \<or> t_s_type (ty_rec t) = Abi_string \<or> t_s_array_type (ty_rec t) = Dynamic"
    using dyn_rec [of t] True by (auto simp: rec_fields(1))
  ultimately have "elements junk I (ty_rec t) js h buf l = succeed (b, h, l + 32 * length js + length (concat (map (enc I t) js)))" using b(1) by (simp add: elements_def)
  with b(2) True show ?thesis by (auto simp: enc_seq_def at_append add.assoc)
next
  case False
  have sum: "length (concat (map (enc I t) js)) = length js * (32 * words t)"
    using length_enc_static [OF False f] length_concat_same [of "map (enc I t) js" "32 * words t"] by auto
  obtain b where b: "for_each (encode_param junk I (ty_rec t)) js (buf, l, l + length js * (32 * words t)) =
      succeed (b, l + length js * (32 * words t), l + length js * (32 * words t))"
    "upd buf b (at l (concat (map (enc I t) js)))"
    using encode_static_seq [where js = js, OF False IH, where buf = buf and h = l and l = "l + length js * (32 * words t)"] sum by auto
  have "elements junk I (ty_rec t) js h buf l = and_then (for_each (encode_param junk I (ty_rec t)) js (buf, l, l + length js * (32 * words t))) (\<lambda>(buf, _, tail').
      succeed (buf, h, tail'))"
  proof (cases t)
    case (Elem x)
    then have "base_type x = Numerical \<or> base_type x = Fixed_size_bytes" using False by (auto simp: base_type_def)
    with Elem show ?thesis by (auto simp: elements_def mult.commute)
  next
    case (Arr u m)
    then have "t_s_array_type (ty_rec t) = Fixed" using False by simp
    then show ?thesis using calculate_offset_one [OF t(1) small_words [OF t(2) False]] False by (simp add: elements_def)
  qed
  with b sum False show ?thesis by (auto simp: enc_seq_def)
qed

lemma encodes_fits: "wf_ty t \<Longrightarrow> small t \<Longrightarrow> fits_type I t j \<Longrightarrow> encodes junk I t j"
proof (induction t arbitrary: j)
  case (Elem b)
  then show ?case by (simp add: encodes_Elem)
next
  case (Arr t n)
  from Arr.prems obtain js where js: "j = Array js" "n = 0 \<or> length js = n" "\<And>x. x \<in> set js \<Longrightarrow> fits_type I t x"
    by (auto simp: list_all_iff split: json.splits)
  have t: "wf_ty t" "small t" using Arr.prems by auto
  have IH: "encodes junk I t x" if "x \<in> set js" for x using Arr.IH [OF t js(3) [OF that]] .
  note ex = extract_name [OF t(1), of n]
  let ?es = "map (enc I t) js"
  show ?case unfolding encodes_def
  proof (intro allI)
    fix buf h l
    consider (static) "\<not> dyn (Arr t n)" | (dynamic) "dyn (Arr t n)" by blast
    then show "\<exists>buf'. encode_param junk I (ty_rec (Arr t n)) j (buf, h, l) =
        succeed (buf', if dyn (Arr t n) then h else h + length (enc I (Arr t n) j),
          if dyn (Arr t n) then l + length (enc I (Arr t n) j) else l) \<and>
      upd buf buf' (at (if dyn (Arr t n) then l else h) (enc I (Arr t n) j))"
    proof cases
      case static
      then have "encode_param junk I (ty_rec (Arr t n)) j (buf, h, l) = for_each (encode_param junk I (ty_rec t)) js (buf, h, l)"
        using js ex by (subst encode_param.simps) (simp del: ty_name.simps)
      moreover have "enc I (Arr t n) j = concat ?es" using static js(1) by (simp add: enc_seq_def)
      ultimately show ?thesis using encode_static_seq [where js = js, OF _ IH, where buf = buf and h = h and l = l] static by simp
    next
      case dynamic
      let ?w = "if n = 0 then u64_to_u256 (length js) else []"
      obtain b1 where b1: "(if n = 0 then and_then (put_bytes junk buf l (u64_to_u256 (length js))) (\<lambda>buf. succeed (buf, l + 32))
          else succeed (buf, l)) = succeed (b1, l + length ?w)" "upd buf b1 (at l ?w)"
        using upd_put [of junk buf l "u64_to_u256 (length js)"] upd_refl [of buf] by (cases "n = 0") auto
      obtain b2 where b2: "encode_param junk I (ty_rec (Arr t n)) j (buf, h, l) =
          succeed (b2, h, l + length ?w + length (enc_seq (dyn t) ?es))"
        "upd b1 b2 (at (l + length ?w) (enc_seq (dyn t) ?es))"
      proof -
        have "encode_param junk I (ty_rec (Arr t n)) j (buf, h, l) =
            and_then (if n = 0 then and_then (put_bytes junk buf l (u64_to_u256 (length js))) (\<lambda>buf. succeed (buf, l + 32))
              else succeed (buf, l)) (\<lambda>(buf, l). elements junk I (ty_rec t) js h buf l)"
        proof -
          have c: "(n \<noteq> 0 \<and> length js \<noteq> n) = False" using js(2) by blast
          have T: "t_s_array_type (ty_rec (Arr t n)) = Dynamic" "t_array_len (ty_rec (Arr t n)) = n" using dynamic by simp_all
          show ?thesis unfolding elements_def js(1)
            by (subst encode_param.simps)
              (simp only: T c t_str_rec ex and_then_succeed json.case if_False if_True
                abi_array_type.distinct simp_thms)
        qed
        then have "encode_param junk I (ty_rec (Arr t n)) j (buf, h, l) = elements junk I (ty_rec t) js h b1 (l + length ?w)"
          unfolding b1(1) by simp
        with encode_elements [OF t IH js(3)] that show ?thesis by metis
      qed
      have e: "enc I (Arr t n) j = ?w @ enc_seq (dyn t) ?es" using js(1) by simp
      have "upd buf b2 (at l (enc I (Arr t n) j))" unfolding e by (rule upd_append [OF b1(2) b2(2)])
      moreover have "encode_param junk I (ty_rec (Arr t n)) j (buf, h, l) = succeed (b2, h, l + length (enc I (Arr t n) j))"
        unfolding e b2(1) by (simp add: add.assoc)
      ultimately show ?thesis unfolding if_P [OF dynamic] by blast
    qed
  qed
qed

section \<open>Lists of arguments\<close>

definition head_size :: "aty \<Rightarrow> nat" where
  "head_size t = (if dyn t then 32 else 32 * words t)"

fun heads_size :: "(aty \<times> json) list \<Rightarrow> nat" where
  "heads_size [] = 0"
| "heads_size ((t, j) # r) = head_size t + heads_size r"

lemma heads_size_sum: "heads_size args = sum_list (map head_size (map fst args))"
  by (induction args rule: heads_size.induct) auto

text \<open>The heads of arguments, the first dynamic one at \<open>off\<close>, and the dynamic values.\<close>

fun arg_heads :: "integers \<Rightarrow> nat \<Rightarrow> (aty \<times> json) list \<Rightarrow> string" where
  "arg_heads I off [] = []"
| "arg_heads I off ((t, j) # r) =
     (if dyn t then u64_to_u256 off @ arg_heads I (off + length (enc I t j)) r else enc I t j @ arg_heads I off r)"

fun arg_tails :: "integers \<Rightarrow> (aty \<times> json) list \<Rightarrow> string" where
  "arg_tails I [] = []"
| "arg_tails I ((t, j) # r) = (if dyn t then enc I t j else []) @ arg_tails I r"

definition enc_args :: "integers \<Rightarrow> (aty \<times> json) list \<Rightarrow> string" where
  "enc_args I args = arg_heads I (heads_size args) args @ arg_tails I args"

lemma length_arg_heads:
  "\<forall>(t, j) \<in> set args. fits_type I t j \<Longrightarrow> length (arg_heads I off args) = heads_size args"
  by (induction args arbitrary: off) (auto simp: head_size_def length_enc_static)

lemma calculate_offset_sum:
  assumes "\<forall>t \<in> set ts. wf_ty t \<and> small t" and "sum_list (map head_size ts) < 2 ^ 32"
  shows "calculate_offset (map ty_name ts) = succeed (sum_list (map head_size ts))"
proof -
  let ?f = "\<lambda>p tail_offset. and_then (get_type p) (\<lambda>t.
         if t_s_array_type t = Fixed then
           and_then (element_count t 1) (\<lambda>n. succeed ((tail_offset + 32 * n) mod 2 ^ 32))
         else succeed ((tail_offset + 32) mod 2 ^ 32))"
  have one: "?f (ty_name t) k = succeed ((k + head_size t) mod 2 ^ 32)" if t: "wf_ty t" "small t" for t k
  proof (cases "t_s_array_type (ty_rec t) = Fixed")
    case True
    then have "\<not> dyn t" by (cases t) (auto split: if_splits)
    with True element_count_name [OF t(1), of 1] small_words [OF t(2)] show ?thesis
      by (simp add: get_type_name [OF t(1)] head_size_def)
  next
    case False
    then have "dyn t \<or> words t = 1" by (cases t) auto
    with False show ?thesis by (auto simp: get_type_name [OF t(1)] head_size_def)
  qed
  have "for_each ?f (map ty_name ts) k = succeed (k + sum_list (map head_size ts))"
    if "k + sum_list (map head_size ts) < 2 ^ 32" for k
    using assms(1) that by (induction ts arbitrary: k) (simp_all add: one add.assoc)
  from this [of 0] assms(2) show ?thesis unfolding calculate_offset_def by simp
qed

lemma encode_steps:
  assumes "\<forall>(t, j) \<in> set args. wf_ty t \<and> small t \<and> fits_type I t j" and "h + heads_size args \<le> l"
  shows "\<exists>buf'. for_each (encode_step junk I) (map (\<lambda>(t, j). (ty_name t, j)) args) (buf, h, l) =
      succeed (buf', h + heads_size args, l + length (arg_tails I args)) \<and>
    upd buf buf' (at h (arg_heads I l args) ++ at l (arg_tails I args))"
  using assms
proof (induction args arbitrary: buf h l)
  case Nil
  then show ?case by (auto simp: upd_refl)
next
  case (Cons a args)
  obtain t j where a: "a = (t, j)" by force
  with Cons.prems have t: "wf_ty t" "small t" "fits_type I t j" and room: "h + head_size t + heads_size args \<le> l"
    by auto
  have e: "encodes junk I t j" by (rule encodes_fits [OF t])
  let ?e = "enc I t j" and ?x = "if dyn t then enc I t j else []" and ?o = "if dyn t then u64_to_u256 l else enc I t j"
  have size: "length ?o = head_size t" using length_enc_static [OF _ t(3)] by (simp add: head_size_def)
  obtain b1 where b1: "encode_step junk I (ty_name t, j) (buf, h, l) = succeed (b1, h + length ?o, l + length ?x)"
    "upd buf b1 (at h ?o ++ at l ?x)"
  proof (cases "dyn t")
    case True
    have "h + length (u64_to_u256 l) \<le> length (check_and_resize_buffer junk buf l 32)"
      using length_resized(2) [of l 32 junk buf] room True by (simp add: head_size_def)
    from upd_copy [OF this] obtain b0 where
      b0: "copy_to (check_and_resize_buffer junk buf l 32) h (u64_to_u256 l) = succeed b0" "upd buf b0 (at h (u64_to_u256 l))"
      by blast
    obtain b1 where "encode_param junk I (ty_rec t) j (b0, l, l) = succeed (b1, l, l + length ?e)" "upd b0 b1 (at l ?e)"
      using encodes_dynamic [OF e True] by blast
    with True b0 upd_trans [OF b0(2)] show ?thesis
      by (intro that [of b1]) (auto simp: encode_step_def get_type_name [OF t(1)] is_dynamic_rec)
  next
    case False
    with encodes_static [OF e False, of buf h l] that show ?thesis
      by (auto simp: encode_step_def get_type_name [OF t(1)] is_dynamic_rec)
  qed
  obtain b2 where b2: "for_each (encode_step junk I) (map (\<lambda>(t, j). (ty_name t, j)) args) (b1, h + length ?o, l + length ?x) =
      succeed (b2, h + length ?o + heads_size args, l + length ?x + length (arg_tails I args))"
    "upd b1 b2 (at (h + length ?o) (arg_heads I (l + length ?x) args) ++ at (l + length ?x) (arg_tails I args))"
    using Cons.IH [of "h + length ?o" "l + length ?x" b1] Cons.prems(1) room size by auto
  have heads: "length (arg_heads I (l + length ?x) args) = heads_size args"
    using Cons.prems(1) by (intro length_arg_heads) auto
  have "at l ?x ++ at (h + length ?o) (arg_heads I (l + length ?x) args) =
      at (h + length ?o) (arg_heads I (l + length ?x) args) ++ at l ?x"
    using room size heads by (intro at_swap) simp
  then have "at h ?o ++ at l ?x ++ (at (h + length ?o) (arg_heads I (l + length ?x) args) ++ at (l + length ?x) (arg_tails I args)) =
      at h (?o @ arg_heads I (l + length ?x) args) ++ at l (?x @ arg_tails I args)"
    unfolding at_append by (metis map_add_assoc)
  moreover have "arg_heads I l (a # args) = ?o @ arg_heads I (l + length ?x) args" "arg_tails I (a # args) = ?x @ arg_tails I args"
    using a by auto
  ultimately have "upd buf b2 (at h (arg_heads I l (a # args)) ++ at l (arg_tails I (a # args)))"
    using upd_trans [OF b1(2) b2(2)] by simp
  moreover have "for_each (encode_step junk I) (map (\<lambda>(t, j). (ty_name t, j)) (a # args)) (buf, h, l) =
      succeed (b2, h + heads_size (a # args), l + length (arg_tails I (a # args)))"
    using b1(1) b2(1) size a by (simp add: add.assoc)
  ultimately show ?case by blast
qed

end
