(* ===== verification/Eth_Abi_Properties.thy ===== *)
theory Eth_Abi_Properties
  imports Eth_Abi_Encode "HOL-Library.Code_Target_Numeral"
begin

text \<open>
  Properties of the encoding of contract arguments: the encoder computes the reference encoding whatever the
  new bytes of its buffer are, and the decoder gives the arguments back.
\<close>

section \<open>Words\<close>

lemma take_bit_byte: "push_bit m (take_bit 8 (drop_bit m n)) OR take_bit m n = take_bit (m + 8) (n::nat)"
  by (rule bit_eqI) (auto simp: bit_simps)

lemma u64_bytes: "n < 2 ^ 64 \<Longrightarrow> u256_to_u64 (u64_to_u256 n) = n"
proof -
  assume n: "n < 2 ^ 64"
  let ?b = "\<lambda>k. take_bit 8 (drop_bit k n)"
  have nth: "of_char (u64_to_u256 n ! (24 + i)) = ?b (56 - 8 * i)" if "i < 8" for i
    using that by (simp add: u64_to_u256_def nth_append take_bit_eq_mod)
  have "u256_to_u64 (u64_to_u256 n) =
      fold (\<lambda>i m. m OR push_bit ((7 - i) * 8) (of_char (u64_to_u256 n ! (24 + i)))) [0..<8] 0"
    by (simp add: u256_to_u64_def)
  also have "\<dots> = push_bit 56 (?b 56) OR push_bit 48 (?b 48) OR push_bit 40 (?b 40) OR push_bit 32 (?b 32) OR
      push_bit 24 (?b 24) OR push_bit 16 (?b 16) OR push_bit 8 (?b 8) OR ?b 0"
    using nth [of 0] nth [of 1] nth [of 2] nth [of 3] nth [of 4] nth [of 5] nth [of 6] nth [of 7]
    by (simp add: upt_rec or.assoc)
  also have "\<dots> = take_bit 64 n"
    using take_bit_byte [of 8 n] take_bit_byte [of 16 n] take_bit_byte [of 24 n] take_bit_byte [of 32 n]
      take_bit_byte [of 40 n] take_bit_byte [of 48 n] take_bit_byte [of 56 n] by simp
  also have "\<dots> = n" using n by (simp add: take_bit_nat_eq_self)
  finally show ?thesis .
qed

section \<open>Parts of the data\<close>

definition holds :: "string \<Rightarrow> nat \<Rightarrow> string \<Rightarrow> bool" where
  "holds data p s \<longleftrightarrow> (\<exists>a b. data = a @ s @ b \<and> length a = p)"

lemma holds_append: "holds data p (x @ y) \<longleftrightarrow> holds data p x \<and> holds data (p + length x) y"
proof
  assume "holds data p (x @ y)"
  then obtain a b where "data = a @ x @ y @ b" "length a = p" by (auto simp: holds_def)
  then have "data = a @ x @ (y @ b) \<and> length a = p" "data = (a @ x) @ y @ b \<and> length (a @ x) = p + length x" by auto
  then show "holds data p x \<and> holds data (p + length x) y" unfolding holds_def by blast
next
  assume "holds data p x \<and> holds data (p + length x) y"
  then obtain a b c d where "data = a @ x @ b" "length a = p" "data = c @ y @ d" "length c = p + length x"
    unfolding holds_def by blast
  then have "c = a @ x" by (metis append_assoc append_eq_append_conv length_append)
  with \<open>data = c @ y @ d\<close> \<open>length a = p\<close> show "holds data p (x @ y)" unfolding holds_def by (metis append_assoc)
qed

lemma holds_length: "holds data p s \<Longrightarrow> p + length s \<le> length data"
  by (auto simp: holds_def)

lemma holds_substr: "holds data p s \<Longrightarrow> length s = k \<Longrightarrow> data_substr data p k = succeed s"
  by (auto simp: holds_def data_substr_def)

lemma holds_prefix: "holds data p (x @ y) \<Longrightarrow> holds data p x"
  by (simp add: holds_append)

lemma holds_concat_same:
  assumes "holds data p (concat xs)" and "\<And>x. x \<in> set xs \<Longrightarrow> length x = l" and "k < length xs"
  shows "holds data (p + k * l) (xs ! k)"
proof -
  have "concat xs = concat (take k xs) @ xs ! k @ concat (drop (Suc k) xs)"
    using assms(3) by (metis append.assoc concat.simps(2) concat_append id_take_nth_drop)
  moreover have "length (concat (take k xs)) = k * l"
    using length_concat_same [of "take k xs" l] assms(2,3) by (auto dest: in_set_takeD)
  ultimately show ?thesis using assms(1) by (simp add: holds_append)
qed

lemma holds_offsets:
  assumes "holds data p (offsets off xs)" and "holds data (base + off) (concat xs)" and "k < length xs"
  shows "\<exists>o'. holds data (p + k * 32) (u64_to_u256 o') \<and> holds data (base + o') (xs ! k)"
  using assms
proof (induction xs arbitrary: p off k)
  case (Cons x xs)
  show ?case
  proof (cases k)
    case 0
    with Cons.prems show ?thesis by (auto simp: holds_append)
  next
    case (Suc k')
    with Cons.prems Cons.IH [of "p + 32" "off + length x" k'] show ?thesis by (simp add: holds_append add.assoc)
  qed
qed simp

section \<open>Arguments that can be printed back\<close>

text \<open>
  The text of an argument; bytes are printed with upper-case digits. An argument is given back when it
  fits_type its type and is written the way it is printed: integers without leading zeros and in the range of
  the type, as far as the big integers give that back, bytes with two digits each.
\<close>

fun join :: "string list \<Rightarrow> string" where
  "join [] = []"
| "join [x] = x"
| "join (x # y # xs) = x @ '','' @ join (y # xs)"

fun shown :: "bool \<Rightarrow> json \<Rightarrow> string" where
  "shown up (Bool b) = (if b then ''true'' else ''false'')"
| "shown up (Text s) = quote (if up then map to_upper s else s)"
| "shown up (Array js) = ''['' @ join (map (shown up) js) @ '']''"
| "shown up (Number n) = quote (to_string (nat n))"
| "shown up _ = []"

definition uses_hex :: "string \<Rightarrow> bool" where
  "uses_hex b \<longleftrightarrow> base_type b = Fixed_size_bytes \<or> base_type b = Dynamic_size_bytes"

definition given_back :: "integers \<Rightarrow> bool \<Rightarrow> string \<Rightarrow> bool" where
  "given_back I sg s \<longleftrightarrow> take 2 s \<noteq> ''0x'' \<and> length (encode32 I sg (of_text I s)) = 32 \<and>
     decode32 I sg (encode32 I sg (of_text I s)) = of_text I s \<and> to_text I (of_text I s) = s @ ''.''"

definition byte_count :: "string \<Rightarrow> nat" where
  "byte_count b = (if b = ''address'' then 20 else if b = ''function'' then 24 else dec_value (drop 5 b))"

definition plain_elem :: "integers \<Rightarrow> string \<Rightarrow> json \<Rightarrow> bool" where
  "plain_elem I b j =
     (case base_type b of
        Abi_string \<Rightarrow> (case j of Text s \<Rightarrow> True | _ \<Rightarrow> False)
      | Dynamic_size_bytes \<Rightarrow> (case j of Text s \<Rightarrow> even (length s) \<and> list_all is_hex_digit s | _ \<Rightarrow> False)
      | Fixed_size_bytes \<Rightarrow>
          (b = ''address'' \<or> b = ''function'' \<or> list_all dec_digit (drop 5 b)) \<and> byte_count b \<le> 32 \<and>
          (case j of Text s \<Rightarrow> length s = 2 * byte_count b \<and> list_all is_hex_digit s | _ \<Rightarrow> False)
      | _ \<Rightarrow>
          if b = ''bool'' then (case j of Bool _ \<Rightarrow> True | _ \<Rightarrow> False)
          else contains ''int'' b \<and>
            (case j of
               Number n \<Rightarrow> 0 \<le> n \<and> n < 2 ^ 64 \<and> given_back I (hd b \<noteq> CHR ''u'') (to_string (nat n))
             | Text s \<Rightarrow> given_back I (hd b \<noteq> CHR ''u'') s
             | _ \<Rightarrow> False))"

fun plain :: "integers \<Rightarrow> aty \<Rightarrow> json \<Rightarrow> bool" where
  "plain I (Elem b) j = plain_elem I b j"
| "plain I (Arr t n) j =
     (case j of Array js \<Rightarrow> (n = 0 \<or> length js = n) \<and> list_all (plain I t) js | _ \<Rightarrow> False)"

lemma hex2bin_even:
  assumes "even (length s)" and "list_all is_hex_digit s"
  shows "\<exists>x. hex2bin s = return x \<and> bin2hex x = map to_upper s \<and> length s = 2 * length x"
proof -
  from hex2bin_pairs_accepts [OF assms(1)] assms(2) obtain x where x: "hex2bin_pairs s = return x" by blast
  from hex2bin_pairs_bytes [OF assms(1) x] have b: "bin2hex x = map to_upper s" .
  then have "length s = 2 * length x" by (metis length_bin2hex length_map)
  moreover have "hex2bin s = return x" using x assms(1) by (cases s) (auto simp: hex2bin_def)
  ultimately show ?thesis using b by blast
qed

section \<open>Decoding single values\<close>

lemma word_fixed_bytes:
  assumes p: "plain_elem I b j" and b: "base_type b = Fixed_size_bytes"
  shows "\<exists>w. static_word I b j = Some w \<and>
    (\<forall>data pos. holds data pos w \<longrightarrow> decode_word I (ty_rec (Elem b)) data pos = succeed (shown True j))"
proof -
  from p b obtain s where s: "j = Text s" "length s = 2 * byte_count b" "list_all is_hex_digit s" "byte_count b \<le> 32"
    "b = ''address'' \<or> b = ''function'' \<or> list_all dec_digit (drop 5 b)"
    by (auto simp: plain_elem_def split: json.splits)
  with hex2bin_even [of s] obtain x where x: "hex2bin s = return x" "bin2hex x = map to_upper s" "length x = byte_count b"
    by auto
  show ?thesis
  proof (cases "b = ''address''")
    case True
    let ?w = "replicate 12 (char_of (0::nat)) @ x"
    have len: "length x = 20" using x(3) True by (simp add: byte_count_def)
    have "static_word I b j = Some ?w"
      using x s True b len by (simp add: static_word_def encode_word_def and_then_def succeed_def)
    moreover have "decode_word I (ty_rec (Elem b)) data pos = succeed (shown True j)" if "holds data pos ?w" for data pos
    proof -
      have "data_substr data pos 32 = succeed ?w" "data_substr ?w 12 20 = succeed x"
        using holds_substr [OF that] len by (auto simp: data_substr_def)
      then show ?thesis using True b s(1) x(2) by (simp add: decode_word_def)
    qed
    ultimately show ?thesis by blast
  next
    case False
    let ?w = "x @ replicate (32 - length x) (char_of (0::nat))"
    have "static_word I b j = Some ?w"
      using x s False b by (simp add: static_word_def encode_word_def and_then_def succeed_def)
    moreover have k: "bytes_suffix b = succeed (byte_count b)"
      using False s(4,5) b by (auto simp: bytes_suffix_def byte_count_def base_type_def Let_def split: if_splits)
    have "decode_word I (ty_rec (Elem b)) data pos = succeed (shown True j)" if "holds data pos ?w" for data pos
      using holds_substr [OF holds_prefix [OF that] x(3)] k False b s(1) x(2) by (simp add: decode_word_def)
    ultimately show ?thesis by blast
  qed
qed

lemma word_numerical:
  assumes p: "plain_elem I b j" and b: "base_type b = Numerical"
  shows "\<exists>w. static_word I b j = Some w \<and>
    (\<forall>data pos. holds data pos w \<longrightarrow> decode_word I (ty_rec (Elem b)) data pos = succeed (shown False j))"
proof (cases "b = ''bool''")
  case True
  with p b obtain x where j: "j = Bool x" by (auto simp: plain_elem_def split: json.splits)
  have "static_word I b j = Some (u64_to_u256 (if x then 1 else 0))"
    using j True b by (simp add: static_word_def encode_word_def succeed_def)
  moreover have "decode_word I (ty_rec (Elem b)) data pos = succeed (shown False j)"
    if "holds data pos (u64_to_u256 (if x then 1 else 0))" for data pos
    using holds_substr [OF that] True b j u64_bytes [of 1] u64_bytes [of 0] by (simp add: decode_word_def)
  ultimately show ?thesis by blast
next
  case False
  let ?sg = "hd b \<noteq> CHR ''u''"
  from False p b obtain s where i: "contains ''int'' b" and g: "given_back I ?sg s"
    and j: "encode_word I (ty_rec (Elem b)) j = succeed (Some (dec_to_i256 I ?sg s))" "shown False j = quote s"
    by (auto simp: plain_elem_def encode_word_def nat_mod_distrib split: json.splits)
  let ?w = "encode32 I ?sg (of_text I s)"
  have w: "dec_to_i256 I ?sg s = ?w" "length ?w = 32" using g by (auto simp: given_back_def dec_to_i256_def)
  then have "static_word I b j = Some ?w" using j(1) by (simp add: static_word_def succeed_def)
  moreover have "decode_word I (ty_rec (Elem b)) data pos = succeed (shown False j)" if "holds data pos ?w" for data pos
  proof -
    have "?w \<noteq> []" using w(2) by auto
    then have "i256_to_dec I ?sg ?w = succeed s" using w(2) g by (simp add: i256_to_dec_def given_back_def)
    then show ?thesis using holds_substr [OF that w(2)] False b i j(2) by (simp add: decode_word_def)
  qed
  ultimately show ?thesis by blast
qed

lemma elem_dynamic:
  assumes p: "plain_elem I b j" and b: "dyn (Elem b)"
  shows "\<exists>s. payload b j = Some s \<and> (\<forall>data pos. holds data pos (u64_to_u256 (length s) @ encode_string s) \<longrightarrow>
    length data < 2 ^ 63 \<longrightarrow> decode_word I (ty_rec (Elem b)) data pos = succeed (shown (uses_hex b) j))"
proof -
  from p b obtain t where j: "j = Text t" "base_type b = Dynamic_size_bytes \<Longrightarrow> even (length t) \<and> list_all is_hex_digit t"
    by (auto simp: plain_elem_def split: json.splits)
  with b hex2bin_even [of t] obtain s where s: "payload b j = Some s"
    "(if base_type b = Abi_string then quote s else quote (bin2hex s)) = shown (uses_hex b) j"
    by (auto simp: payload_def uses_hex_def)
  have "decode_word I (ty_rec (Elem b)) data pos = succeed (shown (uses_hex b) j)"
    if h: "holds data pos (u64_to_u256 (length s) @ encode_string s)" and l: "length data < 2 ^ 63" for data pos
  proof -
    have "length s \<le> length data" using holds_length [OF h] by (simp add: encode_string_def Let_def)
    then have "u256_to_u64 (u64_to_u256 (length s)) = length s" using l by (intro u64_bytes) simp
    moreover have "data_substr data pos 32 = succeed (u64_to_u256 (length s))" using h by (simp add: holds_append holds_substr)
    moreover have "holds data (pos + 32) s" using h by (simp add: holds_append encode_string_def Let_def)
    then have "data_substr data (pos + 32) (length s) = succeed s" by (simp add: holds_substr)
    ultimately show ?thesis using b s(2) by (auto simp: decode_word_def split: if_splits)
  qed
  with s(1) show ?thesis by blast
qed

lemma base_static: "\<not> dyn (Elem b) \<Longrightarrow> base_type b = Fixed_size_bytes \<or> base_type b = Numerical"
  by (auto simp: base_type_def)

lemma plain_fits: "plain I t j \<Longrightarrow> fits_type I t j"
proof (induction t arbitrary: j)
  case (Elem b)
  then show ?case
    using elem_dynamic [of I b j] word_fixed_bytes [of I b j] word_numerical [of I b j] base_static [of b]
    by (cases "dyn (Elem b)") auto
next
  case (Arr t n)
  then show ?case by (auto simp: list_all_iff split: json.splits)
qed

section \<open>Decoding arrays\<close>

definition decodes :: "integers \<Rightarrow> aty \<Rightarrow> json \<Rightarrow> bool" where
  "decodes I t j \<longleftrightarrow> (\<forall>data pos. holds data pos (enc I t j) \<longrightarrow> length data < 2 ^ 63 \<longrightarrow>
     decode_param I data (ty_rec t) pos = succeed (shown (uses_hex (elem t)) j))"

lemma decodes_Elem: "plain I (Elem b) j \<Longrightarrow> decodes I (Elem b) j"
proof -
  assume p: "plain I (Elem b) j"
  have d: "decode_param I data (ty_rec (Elem b)) pos = decode_word I (ty_rec (Elem b)) data pos" for data pos
    by (subst decode_param.simps) simp
  show ?thesis
    using elem_dynamic [of I b j] word_fixed_bytes [of I b j] word_numerical [of I b j] base_static [of b] p
    unfolding decodes_def d by (cases "dyn (Elem b)") (auto simp: uses_hex_def)
qed

lemma decode_seq_join:
  assumes "js \<noteq> []" and "\<And>k. k < length js \<Longrightarrow> f (pos + k * step) = succeed (sh (js ! k))"
  shows "decode_seq f step (length js - 1) pos = succeed (join (map sh js))"
  using assms
proof (induction js arbitrary: pos)
  case (Cons j js)
  have j: "f pos = succeed (sh j)" using Cons.prems(2) [of 0] by simp
  show ?case
  proof (cases js)
    case Nil
    with j show ?thesis by simp
  next
    case (Cons j' js')
    have "f (pos + step + k * step) = succeed (sh (js ! k))" if "k < length js" for k
      using Cons.prems(2) [of "Suc k"] that by (simp add: add.assoc)
    from Cons.IH [OF _ this] Cons have "decode_seq f step (length js') (pos + step) = succeed (join (map sh js))" by simp
    with j Cons show ?thesis by simp
  qed
qed simp

lemma enc_size: "fits_type I t j \<Longrightarrow> 32 \<le> length (enc I t j)"
proof (induction t arbitrary: j)
  case (Elem b)
  then show ?case by (auto simp: static_word_def split: option.splits sum.splits if_splits)
next
  case (Arr t n)
  from Arr.prems obtain js where js: "j = Array js" "n = 0 \<or> length js = n" "\<And>x. x \<in> set js \<Longrightarrow> fits_type I t x"
    by (auto simp: list_all_iff split: json.splits)
  show ?case
  proof (cases "n = 0")
    case False
    then obtain x xs where "js = x # xs" using js(2) by (cases js) auto
    with js False Arr.IH [of x] show ?thesis by (auto simp: enc_seq_def)
  qed (use js in simp)
qed

lemma seq_size: "(\<And>x. x \<in> set xs \<Longrightarrow> 32 \<le> length x) \<Longrightarrow> length xs \<le> length (enc_seq d xs)"
proof -
  assume "\<And>x. x \<in> set xs \<Longrightarrow> 32 \<le> length x"
  then have "length xs \<le> length (concat xs)" by (induction xs) (auto simp: add_le_mono trans_le_add1, fastforce)
  then show ?thesis by (simp add: enc_seq_def)
qed

text \<open>The elements behind a position, of static and of dynamic type.\<close>

lemma decode_static_elements:
  assumes "\<not> dyn t" and "\<And>x. x \<in> set js \<Longrightarrow> fits_type I t x \<and> decodes I t x" and "js \<noteq> []"
    and "holds data pos (enc_seq False (map (enc I t) js))" and "length data < 2 ^ 63"
  shows "decode_seq (decode_param I data (ty_rec t)) (32 * words t) (length js - 1) pos =
    succeed (join (map (shown (uses_hex (elem t))) js))"
proof (rule decode_seq_join [OF assms(3)])
  fix k assume k: "k < length js"
  have "holds data (pos + k * (32 * words t)) (map (enc I t) js ! k)"
    using assms(1,2,4) k length_enc_static [OF assms(1)] by (intro holds_concat_same) (auto simp: enc_seq_def)
  then show "decode_param I data (ty_rec t) (pos + k * (32 * words t)) = succeed (shown (uses_hex (elem t)) (js ! k))"
    using assms(2) [of "js ! k"] k assms(5) by (simp add: decodes_def)
qed

lemma decode_dynamic_elements:
  assumes "\<And>x. x \<in> set js \<Longrightarrow> fits_type I t x \<and> decodes I t x" and "js \<noteq> []"
    and "holds data pos (enc_seq True (map (enc I t) js))" and "length data < 2 ^ 63"
  shows "decode_seq (at_offset (decode_param I data (ty_rec t)) data pos) 32 (length js - 1) pos =
    succeed (join (map (shown (uses_hex (elem t))) js))"
proof (rule decode_seq_join [OF assms(2)])
  fix k assume k: "k < length js"
  obtain o' where o: "holds data (pos + k * 32) (u64_to_u256 o')" "holds data (pos + o') (enc I t (js ! k))"
    using holds_offsets [of data pos "32 * length js" "map (enc I t) js" pos k] assms(3) k
    by (auto simp: enc_seq_def holds_append)
  have lt: "pos + o' < 2 ^ 63" using holds_length [OF o(2)] assms(4) by simp
  then have "u256_to_u64 (u64_to_u256 o') = o'" by (intro u64_bytes) simp
  moreover have "(pos + o') mod 2 ^ 64 = pos + o'" using lt by simp
  ultimately show "at_offset (decode_param I data (ty_rec t)) data pos (pos + k * 32) = succeed (shown (uses_hex (elem t)) (js ! k))"
    using o assms(1) [of "js ! k"] k assms(4) by (simp add: at_offset_def holds_substr decodes_def)
qed

lemma decode_seq_step:
  "wf_ty t \<Longrightarrow> small t \<Longrightarrow> \<not> dyn t \<Longrightarrow>
   and_then (if 1 < m then calculate_offset [ty_name t] else succeed 0) (\<lambda>off. decode_seq f off (m - 1) pos) =
   decode_seq f (32 * words t) (m - 1) (pos :: nat)" for m :: nat
  using calculate_offset_one [of t] small_words [of t] by (cases "1 < m") auto

lemma decode_fixed_array:
  assumes t: "wf_ty t" "small t" and st: "\<not> dyn (Arr t n)"
    and IH: "\<And>x. x \<in> set js \<Longrightarrow> fits_type I t x \<and> decodes I t x" and n: "length js = n"
    and h: "holds data pos (enc_seq False (map (enc I t) js))" "length data < 2 ^ 63"
  shows "decode_param I data (ty_rec (Arr t n)) pos = succeed (shown (uses_hex (elem t)) (Array js))"
proof -
  have ne: "js \<noteq> []" and dt: "\<not> dyn t" using st n by auto
  have T: "t_s_array_type (ty_rec (Arr t n)) = Fixed" "t_array_len (ty_rec (Arr t n)) = n" using st by simp_all
  have "(if t_s_array_type (ty_rec t) = Fixed then
             and_then (if n > 1 then calculate_offset [t_str (ty_rec t)] else succeed 0) (\<lambda>off.
               decode_seq (decode_param I data (ty_rec t)) off (n - 1) pos)
           else if t_s_type (ty_rec t) = Numerical \<or> t_s_type (ty_rec t) = Fixed_size_bytes then
             decode_seq (decode_param I data (ty_rec t)) 32 (n - 1) pos
           else succeed []) = decode_seq (decode_param I data (ty_rec t)) (32 * words t) (n - 1) pos"
  proof (cases t)
    case (Elem b)
    with base_static [of b] dt show ?thesis by auto
  next
    case (Arr u m)
    then have "t_s_array_type (ty_rec t) = Fixed" using dt by simp
    then show ?thesis by (simp only: if_True t_str_rec decode_seq_step [OF t dt] refl)
  qed
  also have "\<dots> = succeed (join (map (shown (uses_hex (elem t))) js))"
    using decode_static_elements [OF dt IH ne h] n by simp
  finally show ?thesis
    by (subst decode_param.simps) (simp only: T t_str_rec extract_name [OF t(1)] and_then_succeed if_True, simp add: bracketed_def)
qed

text \<open>The part of the decoder for arrays of dynamic size, after the length.\<close>

lemma decode_dynamic_array:
  assumes t: "wf_ty t" "small t" and IH: "\<And>x. x \<in> set js \<Longrightarrow> fits_type I t x \<and> decodes I t x" and ne: "js \<noteq> []"
    and h: "holds data pos (enc_seq (dyn t) (map (enc I t) js))" "length data < 2 ^ 63"
  shows "(if t_s_array_type (ty_rec t) = No_array \<and> (t_s_type (ty_rec t) = Numerical \<or> t_s_type (ty_rec t) = Fixed_size_bytes) then
            bracketed (decode_seq (decode_param I data (ty_rec t)) 32 (nat (int (length js) - 1)) pos)
          else if t_s_array_type (ty_rec t) = Fixed then
            bracketed (and_then (if int (length js) > 1 then calculate_offset [t_str (ty_rec t)] else succeed 0) (\<lambda>off.
              decode_seq (decode_param I data (ty_rec t)) off (nat (int (length js) - 1)) pos))
          else if t_s_type (ty_rec t) = Abi_string \<or> t_s_type (ty_rec t) = Dynamic_size_bytes \<or> t_s_array_type (ty_rec t) = Dynamic then
            bracketed
              (if 0 < int (length js) then decode_seq (at_offset (decode_param I data (ty_rec t)) data pos) 32 (nat (int (length js) - 1)) pos
               else if 32 * (int (length js) - 1) < - (2 ^ 63) then None
               else at_offset (decode_param I data (ty_rec t)) data pos (nat ((int pos + 32 * (int (length js) - 1)) mod 2 ^ 64)))
          else succeed []) = succeed (shown (uses_hex (elem t)) (Array js))"
proof -
  have m: "nat (int (length js) - 1) = length js - 1" by simp
  have pos: "0 < length js" using ne by simp
  show ?thesis
  proof (cases "dyn t")
    case True
    have c1: "t_s_array_type (ty_rec t) \<noteq> Fixed" using True by (cases t) auto
    have c2: "\<not> (t_s_array_type (ty_rec t) = No_array \<and> (t_s_type (ty_rec t) = Numerical \<or> t_s_type (ty_rec t) = Fixed_size_bytes))"
      using True by (cases t) auto
    have c3: "t_s_type (ty_rec t) = Abi_string \<or> t_s_type (ty_rec t) = Dynamic_size_bytes \<or> t_s_array_type (ty_rec t) = Dynamic"
      using dyn_rec [of t] True by (auto simp: rec_fields(1))
    have "decode_seq (at_offset (decode_param I data (ty_rec t)) data pos) 32 (length js - 1) pos =
        succeed (join (map (shown (uses_hex (elem t))) js))" using decode_dynamic_elements [OF IH ne _ h(2)] h(1) True by simp
    then show ?thesis
      unfolding if_not_P [OF c2] if_not_P [OF c1] if_P [OF c3] m using pos by (simp add: bracketed_def)
  next
    case False
    have e: "decode_seq (decode_param I data (ty_rec t)) (32 * words t) (length js - 1) pos =
        succeed (join (map (shown (uses_hex (elem t))) js))"
      using decode_static_elements [OF False IH ne] h False by simp
    show ?thesis
    proof (cases t)
      case (Elem b)
      with base_static [of b] False e m show ?thesis by (auto simp: bracketed_def)
    next
      case (Arr u k)
      then have "t_s_array_type (ty_rec t) = Fixed" using False by simp
      moreover have "(1 < int (length js)) = (1 < length js)" by simp
      ultimately show ?thesis
        by (simp only: m if_True t_str_rec decode_seq_step [OF t False] e refl, simp add: bracketed_def)
    qed
  qed
qed

lemma decodes_plain: "wf_ty t \<Longrightarrow> small t \<Longrightarrow> plain I t j \<Longrightarrow> decodes I t j"
proof (induction t arbitrary: j)
  case (Elem b)
  then show ?case by (simp add: decodes_Elem)
next
  case (Arr t n)
  from Arr.prems obtain js where js: "j = Array js" "n = 0 \<or> length js = n" "\<And>x. x \<in> set js \<Longrightarrow> plain I t x"
    by (auto simp: list_all_iff split: json.splits)
  have t: "wf_ty t" "small t" using Arr.prems by auto
  have IH: "fits_type I t x \<and> decodes I t x" if "x \<in> set js" for x using Arr.IH [OF t] js(3) [OF that] plain_fits by blast
  let ?w = "if n = 0 then u64_to_u256 (length js) else []" and ?es = "enc_seq (dyn t) (map (enc I t) js)"
  have e: "enc I (Arr t n) j = ?w @ ?es" using js(1) by simp
  show ?case unfolding decodes_def
  proof (intro allI impI)
    fix data pos
    assume h: "holds data pos (enc I (Arr t n) j)" and l: "length data < 2 ^ 63"
    then have es: "holds data (pos + length ?w) ?es" and w: "holds data pos ?w" by (simp_all only: e holds_append)
    show "decode_param I data (ty_rec (Arr t n)) pos = succeed (shown (uses_hex (elem (Arr t n))) j)"
    proof (cases "dyn (Arr t n)")
      case False
      then show ?thesis using decode_fixed_array [OF t False IH] js es l by simp
    next
      case True
      have "length js \<le> length ?es" using IH enc_size seq_size [of "map (enc I t) js" "dyn t"] by fastforce
      then have small: "length js < 2 ^ 63" using holds_length [OF es] l by simp
      then have "u256_to_u64 (u64_to_u256 (length js)) = length js" by (intro u64_bytes) simp
      then have len: "(if n = 0 then and_then (data_substr data pos 32) (\<lambda>s. succeed (signed64 (u256_to_u64 s), pos + 32))
          else succeed (int n, pos)) = succeed (int (length js), pos + length ?w)"
        using w js(2) small by (cases "n = 0") (auto simp: holds_substr signed64_def)
      have T: "t_s_array_type (ty_rec (Arr t n)) = Dynamic" "t_array_len (ty_rec (Arr t n)) = n" using True by simp_all
      have "decode_param I data (ty_rec (Arr t n)) pos = succeed (shown (uses_hex (elem t)) (Array js))"
      proof (cases "js = []")
        case True
        then show ?thesis
          by (subst decode_param.simps) (simp only: T len and_then_succeed if_True if_False prod.case abi_array_type.distinct refl, simp)
      next
        case False
        then have "int (length js) \<noteq> 0" by simp
        then show ?thesis
          using decode_dynamic_array [OF t IH False es l]
          by (subst decode_param.simps)
            (simp only: T len t_str_rec extract_name [OF t(1)] and_then_succeed if_True if_False prod.case
              abi_array_type.distinct refl)
      qed
      then show ?thesis using js(1) by simp
    qed
  qed
qed

section \<open>Lists of arguments\<close>

abbreviation signatures :: "(aty \<times> json) list \<Rightarrow> json list" where
  "signatures args \<equiv> map (\<lambda>(t, _). Text (ty_name t)) args"

lemma encode_args:
  assumes "parse sj = Some (Array (signatures args))" and "parse pj = Some (Array (map snd args))"
    and ok: "\<forall>(t, j) \<in> set args. wf_ty t \<and> small t \<and> fits_type I t j" and "heads_size args < 2 ^ 32"
  shows "encode parse junk I sj pj = succeed (enc_args I args)"
proof -
  have names: "map (\<lambda>j. case j of Text s \<Rightarrow> s | _ \<Rightarrow> []) (signatures args) = map ty_name (map fst args)" by auto
  have zip: "zip (map ty_name (map fst args)) (map snd args) = map (\<lambda>(t, j). (ty_name t, j)) args"
    by (induction args) auto
  have "list_all (\<lambda>j. case j of Text _ \<Rightarrow> True | _ \<Rightarrow> False) (signatures args)" by (auto simp: list_all_iff)
  moreover have "calculate_offset (map ty_name (map fst args)) = succeed (heads_size args)"
    using ok assms(4) unfolding heads_size_sum by (intro calculate_offset_sum) auto
  ultimately have e: "encode parse junk I sj pj =
      and_then (for_each (encode_step junk I) (map (\<lambda>(t, j). (ty_name t, j)) args) (map junk [0..<buffer_size], 0, heads_size args))
        (\<lambda>(buf, _, tail). if tail \<le> length buf then succeed (take tail buf) else None)"
    unfolding encode_def assms(1,2) option.case prod.case json.case names zip
    by (simp add: json_size_def Let_def names zip del: map_map)
  obtain buf where b: "for_each (encode_step junk I) (map (\<lambda>(t, j). (ty_name t, j)) args)
        (map junk [0..<buffer_size], 0, heads_size args) = succeed (buf, heads_size args, heads_size args + length (arg_tails I args))"
    "upd (map junk [0..<buffer_size]) buf (at 0 (arg_heads I (heads_size args) args) ++ at (heads_size args) (arg_tails I args))"
    using encode_steps [OF ok, of 0 "heads_size args" junk "map junk [0..<buffer_size]"] by auto
  have "length (arg_heads I (heads_size args) args) = heads_size args" using ok by (intro length_arg_heads) auto
  then have "at 0 (arg_heads I (heads_size args) args) ++ at (heads_size args) (arg_tails I args) = at 0 (enc_args I args)"
    and len: "length (enc_args I args) = heads_size args + length (arg_tails I args)"
    by (simp_all add: enc_args_def at_append)
  then have "length (enc_args I args) \<le> length buf \<and> take (length (enc_args I args)) buf = enc_args I args"
    using upd_take b(2) by metis
  then show ?thesis using e b(1) len by simp
qed

lemma join_Cons: "join (x # xs) = x @ (if xs = [] then [] else '','') @ join xs"
  by (cases xs) auto

lemma decode_args:
  assumes "\<forall>(t, j) \<in> set args. wf_ty t \<and> small t \<and> plain I t j" and "length data < 2 ^ 63"
    and "holds data p (arg_heads I off args)" and "holds data off (arg_tails I args)"
  shows "decode_all I data (signatures args) p = succeed (join (map (\<lambda>(t, j). shown (uses_hex (elem t)) j) args))"
  using assms
proof (induction args arbitrary: p off)
  case (Cons a args)
  obtain t j where a: "a = (t, j)" by force
  with Cons.prems have t: "wf_ty t" "small t" "plain I t j" by auto
  have d: "decodes I t j" by (rule decodes_plain [OF t])
  have step: "(if t_s_array_type (ty_rec t) = Fixed then calculate_offset [ty_name t] else succeed 32) = succeed (head_size t)"
  proof (cases t)
    case (Arr u n)
    then show ?thesis using calculate_offset_one [OF t(1)] small_words [OF t(2)] by (simp add: head_size_def del: ty_name.simps)
  qed (simp add: head_size_def)
  have now: "(if is_dynamic (ty_rec t) then and_then (data_substr data p 32) (\<lambda>s. decode_param I data (ty_rec t) (u256_to_u64 s))
      else decode_param I data (ty_rec t) p) = succeed (shown (uses_hex (elem t)) j)"
  proof (cases "dyn t")
    case True
    then have h: "holds data p (u64_to_u256 off)" "holds data off (enc I t j)" using Cons.prems a by (auto simp: holds_append)
    then have "off < 2 ^ 64" using holds_length [OF h(2)] Cons.prems(2) by simp
    then show ?thesis using True h d Cons.prems(2) by (simp add: is_dynamic_rec holds_substr u64_bytes decodes_def)
  next
    case False
    then show ?thesis using Cons.prems a d by (simp add: is_dynamic_rec holds_append decodes_def)
  qed
  have "holds data (p + head_size t) (arg_heads I (if dyn t then off + length (enc I t j) else off) args)"
    "holds data (if dyn t then off + length (enc I t j) else off) (arg_tails I args)"
    using Cons.prems a length_enc_static [OF _ plain_fits [OF t(3)]] by (auto simp: holds_append head_size_def)
  from Cons.IH [OF _ Cons.prems(2) this] Cons.prems(1) have
    "decode_all I data (signatures args) (p + head_size t) = succeed (join (map (\<lambda>(t, j). shown (uses_hex (elem t)) j) args))"
    by simp
  then show ?case
    by (simp only: a list.map prod.case decode_all.simps get_string_def json.case and_then_succeed get_type_name [OF t(1)]
        t_str_rec now step join_Cons list.map_disc_iff)
qed simp

lemma decode_enc_args:
  assumes "parse sj = Some (Array (signatures args))"
    and ok: "\<forall>(t, j) \<in> set args. wf_ty t \<and> small t \<and> plain I t j" and "length (enc_args I args) < 2 ^ 63"
  shows "decode parse I sj (enc_args I args) = succeed (''['' @ join (map (\<lambda>(t, j). shown (uses_hex (elem t)) j) args) @ '']'')"
proof -
  have len: "length (arg_heads I (heads_size args) args) = heads_size args"
    using ok plain_fits by (intro length_arg_heads) blast
  have "holds (enc_args I args) 0 (arg_heads I (heads_size args) args @ arg_tails I args)"
    unfolding holds_def enc_args_def by (intro exI [of _ "[]"]) simp
  then have "holds (enc_args I args) 0 (arg_heads I (heads_size args) args)" "holds (enc_args I args) (heads_size args) (arg_tails I args)"
    unfolding holds_append len by simp_all
  from decode_args [OF ok assms(3) this] assms(1) show ?thesis by (simp add: decode_def bracketed_def del: map_map)
qed

text \<open>Integers in two's complement and decimal notation, and arguments of several types, for the examples.\<close>

fun big_endian :: "nat \<Rightarrow> int \<Rightarrow> string" where
  "big_endian 0 v = []"
| "big_endian (Suc n) v = big_endian n (v div 256) @ [char_of (v mod 256)]"

definition decimal_integers :: integers where
  "decimal_integers = \<lparr>
     of_text = (\<lambda>s. case s of CHR ''-'' # r \<Rightarrow> - int (dec_value r) | _ \<Rightarrow> int (dec_value s)),
     encode32 = (\<lambda>sg i. big_endian 32 i),
     decode32 = (\<lambda>sg s. let v = foldl (\<lambda>a c. 256 * a + of_char c) 0 s in if sg \<and> 2 ^ 255 \<le> v then v - 2 ^ 256 else v),
     to_text = (\<lambda>i. int_to_string i @ ''.'')\<rparr>"

definition example_args :: "(aty \<times> json) list" where
  "example_args =
     [(Arr (Arr (Elem ''int64'') 2) 0, Array [Array [Text ''-7'', Number 5]]), (Elem ''string'', Text ''hi''),
      (Arr (Elem ''bool'') 2, Array [Bool True, Bool False]), (Arr (Elem ''bytes'') 0, Array [Text ''00ff'', Text []]),
      (Elem ''bytes2'', Text ''beef'')]"

definition example_parse :: "string \<Rightarrow> json option" where
  "example_parse s =
     (if s = ''types'' then Some (Array (signatures example_args))
      else if s = ''values'' then Some (Array (map snd example_args)) else None)"

lemma example_args_ok:
  "list_all (\<lambda>(t, j). wf_ty t \<and> small t \<and> plain decimal_integers t j) example_args"
  "heads_size example_args < 2 ^ 32"
  by code_simp+

lemma example_args_size: "length (enc_args decimal_integers example_args) < 2 ^ 63"
  by code_simp

lemma example_parse_texts:
  "example_parse ''types'' = Some (Array (signatures example_args))"
  "example_parse ''values'' = Some (Array (map snd example_args))"
  by (simp_all add: example_parse_def)

text \<open>C20: encoding: for arguments that fit the types, whatever types and nesting of arrays, the encoder gives the
  reference encoding, whatever the bytes of newly allocated memory are.\<close>

theorem abi_encode_reference:
  assumes "parse sj = Some (Array (signatures args))" and "parse pj = Some (Array (map snd args))"
    and "\<forall>(t, j) \<in> set args. wf_ty t \<and> small t \<and> fits_type I t j" and "heads_size args < 2 ^ 32"
  shows "encode parse junk I sj pj = succeed (enc_args I args)"
  by (rule encode_args [OF assms])

theorem abi_encode_reference_witness:
  "encode example_parse (\<lambda>_. CHR ''?'') decimal_integers ''types'' ''values'' = succeed (enc_args decimal_integers example_args)"
  using example_args_ok plain_fits
  by (intro abi_encode_reference [OF example_parse_texts]) (auto simp: list_all_iff)

text \<open>C19: decoding gives the arguments back: for integers, booleans, addresses, functions, bytes of fixed and variable
  size, texts, and any nesting of fixed and dynamic arrays of them, the text that \<open>decode\<close> gives for the result of \<open>encode\<close>
  is the text of the arguments. The arguments are written the way they are printed: integers are texts without leading
  zeros and without \<^verbatim>\<open>0x\<close>, or JSON numbers from 0 to 2 ^ 64 - 1, that the big integers give back; bytes have two digits
  each and come back with upper-case digits. Fixed-point types are left out, and the heads take less than 2 ^ 32 bytes, and the
  whole encoding less than 2 ^ 63.\<close>

theorem abi_round_trip:
  assumes "parse sj = Some (Array (signatures args))" and "parse pj = Some (Array (map snd args))"
    and ok: "\<forall>(t, j) \<in> set args. wf_ty t \<and> small t \<and> plain I t j"
    and "heads_size args < 2 ^ 32" and "length (enc_args I args) < 2 ^ 63"
  shows "\<exists>data. encode parse junk I sj pj = succeed data \<and>
    decode parse I sj data = succeed (''['' @ join (map (\<lambda>(t, j). shown (uses_hex (elem t)) j) args) @ '']'')"
proof -
  have "\<forall>(t, j) \<in> set args. wf_ty t \<and> small t \<and> fits_type I t j" using ok plain_fits by blast
  then show ?thesis
    using encode_args [OF assms(1,2) _ assms(4)] decode_enc_args [where parse = parse, OF assms(1) ok assms(5)] by blast
qed

theorem abi_round_trip_witness:
  "\<exists>data. encode example_parse (\<lambda>_. CHR ''?'') decimal_integers ''types'' ''values'' = succeed data \<and>
     decode example_parse decimal_integers ''types'' data =
       succeed (''[[['' @ quote ''-7'' @ '','' @ quote ''5'' @ '']],'' @ quote ''hi'' @ '',[true,false],['' @ quote ''00FF'' @
         '','' @ quote [] @ ''],'' @ quote ''BEEF'' @ '']'')"
proof -
  have "''['' @ join (map (\<lambda>(t, j). shown (uses_hex (elem t)) j) example_args) @ '']'' =
      ''[[['' @ quote ''-7'' @ '','' @ quote ''5'' @ '']],'' @ quote ''hi'' @ '',[true,false],['' @ quote ''00FF'' @
         '','' @ quote [] @ ''],'' @ quote ''BEEF'' @ '']''" by code_simp
  with abi_round_trip [OF example_parse_texts, of decimal_integers "\<lambda>_. CHR ''?''"] example_args_ok example_args_size
  show ?thesis by (auto simp: list_all_iff)
qed

section \<open>Where the code breaks its promises\<close>

text \<open>refusing an argument leaves the positions as they were, and the result is still cut out of the buffer up to
  the computed end of the heads: for a static array of more than 64 words this reads past the end of the buffer.\<close>

theorem abi_refused_argument_overread:
  assumes "parse sj = Some (Array [Text (ty_name (Arr t n))])" and "parse pj = Some (Array [j])"
    and t: "wf_ty (Arr t n)" "small (Arr t n)" "\<not> dyn (Arr t n)" and "buffer_size < 32 * words (Arr t n)"
    and j: "\<forall>js. j = Array js \<longrightarrow> length js \<noteq> n"
  shows "encode parse junk I sj pj = None"
proof -
  have "encode_param junk I (ty_rec (Arr t n)) j (buf, h, l) = succeed (buf, h, l)" for buf h l
    using t(3) j by (subst encode_param.simps) (auto split: json.split)
  then have "encode_step junk I (ty_name (Arr t n), j) (buf, h, l) = succeed (buf, h, l)" for buf h l
    using t(3) by (simp add: encode_step_def get_type_name [OF t(1)] is_dynamic_rec del: ty_name.simps ty_rec.simps)
  moreover have "calculate_offset [ty_name (Arr t n)] = succeed (32 * words (Arr t n))"
    using calculate_offset_one [OF t(1) small_words [OF t(2,3)]] t(3) by simp
  ultimately show ?thesis
    using assms(1,2,6) by (simp add: encode_def json_size_def for_each_single del: ty_name.simps words.simps)
qed

theorem abi_refused_argument_overread_witness:
  "encode (\<lambda>s. if s = ''t'' then Some (Array [Text ''uint256[100]'']) else Some (Array [Text ''1''])) (\<lambda>_. CHR ''?'')
     decimal_integers ''t'' ''v'' = None"
  by (rule abi_refused_argument_overread [of _ _ "Elem ''uint256''" 100 _ "Text ''1''"])
    (code_simp, simp, code_simp, code_simp, code_simp, code_simp, simp)

text \<open>An integer is decoded from 32 bytes behind the position even when fewer are left.\<close>

lemma abi_short_data_overread:
  assumes "wf_ty (Elem b)" and "base_type b = Numerical" and "b \<noteq> ''bool''" and "contains ''int'' b"
    and "parse sj = Some (Array [Text b])" and "0 < length data" and "length data < 31"
  shows "decode parse I sj data = None"
proof -
  have "decode_param I data (ty_rec (Elem b)) 0 = None"
    using assms by (subst decode_param.simps) (auto simp: decode_word_def data_substr_def i256_to_dec_def and_then_def succeed_def)
  then show ?thesis
    using assms get_type_name [OF assms(1)]
    by (simp add: decode_def bracketed_def get_string_def is_dynamic_def and_then_def succeed_def)
qed

text \<open>A negative JSON number is converted to 64 bits without sign first.\<close>

lemma abi_negative_number:
  "static_word I ''int256'' (Number (- 1)) = static_word I ''int256'' (Text ''18446744073709551615'')"
proof -
  have "to_string (nat (- 1 mod 2 ^ 64)) = ''18446744073709551615''" by code_simp
  moreover have "base_type ''int256'' = Numerical" by code_simp
  ultimately show ?thesis by (simp add: static_word_def encode_word_def contains_def)
qed

end
