(* ===== verification/Eth_Transaction.thy ===== *)
theory Eth_Transaction
  imports Eth_Abi
begin

text \<open>
  RLP encoding, signatures and transactions: parts of \<^verbatim>\<open>core/interop/ethereum/eth_helper_functions.h\<close> and
  \<^verbatim>\<open>core/interop/ethereum/eth_transaction.cc\<close>. The hash function (Keccak-256) and the functions of the secp256k1
  library are parameters. Texts are in hexadecimal, without prefix.
\<close>

section \<open>RLP\<close>

definition rlp_encode :: "string \<Rightarrow> bool \<Rightarrow> string" where
  "rlp_encode s is_list =
     (let s = (if odd (length s) then CHR ''0'' # s else s);
          len = length s mod 2 ^ 32 div 2
      in if len = 0 then ''80''
         else if len = 1 \<and> hex2dec (take 2 s) < 128 then s
         else if len < 56 then dec2hex ((if is_list then 192 else 128) + len) @ s
         else
           (let length_in_hex = dec2hex len;
                first_byte = (if is_list then 247 else 183) + length length_in_hex div 2
            in dec2hex first_byte @ length_in_hex @ s))"

section \<open>Signatures\<close>

text \<open>
  The public key of a private key in its uncompressed form of 65 bytes, or nothing for an invalid key; the
  recoverable signature of a hash, 64 bytes and the recovery number; and the key recovered from a
  signature, or nothing when the signature cannot be parsed or has no key.
\<close>

record secp256k1 =
  pubkey_create :: "string \<Rightarrow> string option"
  sign_recoverable :: "string \<Rightarrow> string \<Rightarrow> string \<times> int"
  parse_compact :: "string \<Rightarrow> int \<Rightarrow> bool"
  recover_key :: "string \<Rightarrow> int \<Rightarrow> string \<Rightarrow> string option"

definition get_address_from_prkey :: "(string \<Rightarrow> string) \<Rightarrow> secp256k1 \<Rightarrow> string \<Rightarrow> string throws" where
  "get_address_from_prkey hash L private_key_hex =
     (case hex2bin private_key_hex of
        Inl e \<Rightarrow> throw e
      | Inr key \<Rightarrow>
          (case pubkey_create L key of
             None \<Rightarrow> return []
           | Some pub \<Rightarrow> return (''0x'' @ bin2hex (drop 12 (hash (take 64 (drop 1 pub)))))))"

definition secp256k1_sign :: "secp256k1 \<Rightarrow> string \<Rightarrow> string \<Rightarrow> string" where
  "secp256k1_sign L priv_key msg_hash =
     (let (sig, v) = sign_recoverable L priv_key msg_hash in sig @ [char_of (v mod 256 + 27)])"

definition secp256k1_sign_and_verify :: "secp256k1 \<Rightarrow> string \<Rightarrow> string \<Rightarrow> string" where
  "secp256k1_sign_and_verify L priv_key message_hash =
     (let rsv = secp256k1_sign L priv_key message_hash
      in if pubkey_create L priv_key = None then [] else rsv)"

definition secp256k1_recover_address :: "(string \<Rightarrow> string) \<Rightarrow> secp256k1 \<Rightarrow> string \<Rightarrow> string \<Rightarrow> string option" where
  "secp256k1_recover_address hash L rsv message_hash =
     (if length rsv < 65 then None
      else
        (let v = of_char (rsv ! 64) - 27
         in if \<not> parse_compact L (take 64 rsv) v then Some []
            else (case recover_key L (take 64 rsv) v message_hash of
                    None \<Rightarrow> Some []
                  | Some pub \<Rightarrow> Some (drop 12 (hash (drop 1 pub))))))"

section \<open>Transactions\<close>

record eth_transaction =
  tx_nonce :: string
  tx_gas_price :: string
  tx_gas_limit :: string
  tx_to :: string
  tx_value :: string
  tx_data :: string
  tx_chain_id :: string

definition to_rlp_encoded_tx :: "eth_transaction \<Rightarrow> string" where
  "to_rlp_encoded_tx tx =
     rlp_encode (tx_nonce tx) False @ rlp_encode (tx_gas_price tx) False @ rlp_encode (tx_gas_limit tx) False @
     rlp_encode (tx_to tx) False @ rlp_encode (tx_value tx) False @ rlp_encode (tx_data tx) False"

text \<open>The last byte of the signature is read as a signed number; reading it from the empty text is undefined.\<close>

definition sign_tx :: "(string \<Rightarrow> string) \<Rightarrow> secp256k1 \<Rightarrow> eth_transaction \<Rightarrow> string \<Rightarrow> string outcome" where
  "sign_tx hash L tx private_key_hex =
     (let rlp_tx = to_rlp_encoded_tx tx;
          extended_sign_tx = rlp_encode (rlp_tx @ rlp_encode (tx_chain_id tx) False @ ''8080'') True
      in and_then (Some (hex2bin extended_sign_tx)) (\<lambda>byte_array.
         and_then (Some (hex2bin private_key_hex)) (\<lambda>pr_key.
         let rsv = secp256k1_sign_and_verify L pr_key (hash byte_array)
         in if length rsv < 64 then None
            else
              (let v = (if length rsv = 64 then 0 else schar (rsv ! 64)) - 27;
                   newv = (hex2dec (tx_chain_id tx) * 2 + (if odd v then 36 else 35)) mod 2 ^ 32
               in succeed (rlp_encode (rlp_tx @ rlp_encode (dec2hex newv) False @
                    ''a0'' @ bin2hex (take 32 rsv) @ ''a0'' @ bin2hex (take 32 (drop 32 rsv))) True)))))"

section \<open>Reading RLP\<close>

text \<open>A reader of RLP: the first byte string of the bytes, or the payload of the first list, and the rest.\<close>

definition be_bytes_value :: "string \<Rightarrow> nat" where
  "be_bytes_value s = foldl (\<lambda>a c. 256 * a + of_char c) 0 s"

definition split_at :: "nat \<Rightarrow> string \<Rightarrow> (string \<times> string) option" where
  "split_at n s = (if n \<le> length s then Some (take n s, drop n s) else None)"

definition read_payload :: "nat \<Rightarrow> nat \<Rightarrow> string \<Rightarrow> (string \<times> string) option" where
  "read_payload base n r =
     (if n < base + 56 then split_at (n - base) r
      else do { (l, r) \<leftarrow> split_at (n - base - 55) r; split_at (be_bytes_value l) r })"

fun rlp_item :: "string \<Rightarrow> (string \<times> string) option" where
  "rlp_item [] = None"
| "rlp_item (c # r) =
     (let n = of_char c in if n < 128 then Some ([c], r) else if n < 192 then read_payload 128 n r else None)"

fun rlp_list :: "string \<Rightarrow> (string \<times> string) option" where
  "rlp_list [] = None"
| "rlp_list (c # r) = (let n = of_char c in if n < 192 then None else read_payload 192 n r)"

fun rlp_items :: "nat \<Rightarrow> string \<Rightarrow> (string list \<times> string) option" where
  "rlp_items 0 s = Some ([], s)"
| "rlp_items (Suc n) s = do { (x, r) \<leftarrow> rlp_item s; (xs, r) \<leftarrow> rlp_items n r; Some (x # xs, r) }"

section \<open>Hexadecimal texts\<close>

lemma hex2bin_pairs_append:
  "even (length a) \<Longrightarrow> hex2bin_pairs a = return x \<Longrightarrow> hex2bin_pairs b = return y \<Longrightarrow> hex2bin_pairs (a @ b) = return (x @ y)"
proof (induction a arbitrary: x rule: hex2bin_pairs.induct)
  case (1 a b s)
  then show ?case by (auto split: sum.splits)
qed auto

lemma hex2bin_even_pairs: "even (length s) \<Longrightarrow> hex2bin s = hex2bin_pairs s"
  by (cases s) (auto simp: hex2bin_def)

lemma hex2bin_append:
  assumes "even (length a)" and "even (length b)" and "hex2bin a = return x" and "hex2bin b = return y"
  shows "hex2bin (a @ b) = return (x @ y)"
  using assms hex2bin_pairs_append [of a x b y] by (simp add: hex2bin_even_pairs)

lemma hex2bin_pairs_length: "even (length s) \<Longrightarrow> hex2bin_pairs s = return x \<Longrightarrow> length s = 2 * length x"
  by (induction s arbitrary: x rule: hex2bin_pairs.induct) (auto split: sum.splits)

lemma hex_char: "hex2nibble c = return n \<Longrightarrow> hex_digit_value c = Some n \<and> \<not> is_space c \<and> c \<notin> {CHR ''-'', CHR ''+'', CHR ''x'', CHR ''X''}"
  by (erule hex2nibbleE) (auto simp: hex_digit_value_def is_space_def hex2nibble_def schar_def)

lemma hex2dec_pair:
  assumes "hex2nibble a = return m" and "hex2nibble b = return n"
  shows "hex2dec [a, b] = m * 16 + n"
proof -
  have "m < 16" "n < 16" using assms hex2nibble_bound by auto
  then show ?thesis
    using hex_char [OF assms(1)] hex_char [OF assms(2)] by (simp add: hex2dec_def digits_value_def Let_def)
qed

lemma hex2bin_value:
  "even (length s) \<Longrightarrow> hex2bin_pairs s = return x \<Longrightarrow>
   foldl (\<lambda>a c. 256 * a + of_char c) (acc::nat) x = foldl (\<lambda>a c. a * 16 + the (hex_digit_value c)) acc s"
proof (induction s arbitrary: x acc rule: hex2bin_pairs.induct)
  case (1 a b s)
  from "1.prems"(2) obtain m n y where h: "hex2nibble a = return m" "hex2nibble b = return n" "hex2bin_pairs s = return y"
    "x = char_of (push_bit 4 m OR n) # y" by (auto split: sum.splits)
  have "(of_char (char_of (push_bit 4 m OR n :: nat)) :: nat) = m * 16 + n"
    using h(1,2) hex2nibble_bound [of a m] hex2nibble_bound [of b n] by (simp add: nibbles_combine)
  then show ?case using "1.IH" [OF h(1,2) _ h(3)] "1.prems"(1) h(4) hex_char [OF h(1)] hex_char [OF h(2)]
    by (simp add: algebra_simps)
qed auto

text \<open>The bytes of a printed number.\<close>

lemma dec2hex_bytes:
  "\<exists>x. hex2bin (dec2hex n) = return x \<and> be_bytes_value x = n \<and> length (dec2hex n) = 2 * length x \<and> x \<noteq> []"
proof -
  have ev: "even (length (dec2hex n))" by (rule even_length_dec2hex)
  obtain x where x: "hex2bin_pairs (dec2hex n) = return x"
    using hex2bin_pairs_accepts [OF ev] dec2hex_hex_digits by blast
  have "be_bytes_value x = n"
    using hex2bin_value [OF ev x, of 0] digits_value_dec2hex [of n] by (simp add: be_bytes_value_def digits_value_def)
  moreover have "length (dec2hex n) = 2 * length x" by (rule hex2bin_pairs_length [OF ev x])
  moreover from this have "x \<noteq> []" using dec2hex_digits(2) [of n] by auto
  ultimately show ?thesis using x ev by (auto simp: hex2bin_even_pairs)
qed

lemma dec2hex_length: "n < 16 ^ (2 * k) \<Longrightarrow> 0 < k \<Longrightarrow> length (dec2hex n) \<le> 2 * k"
proof -
  assume "n < 16 ^ (2 * k)" "0 < k"
  then have "length (print_base 16 n) \<le> 2 * k" by (intro print_base_length) auto
  moreover from this have "Suc (length (print_base 16 n)) \<le> 2 * k" if "odd (length (print_base 16 n))"
    using that by presburger
  ultimately show ?thesis by (simp add: dec2hex_def Let_def)
qed

lemma dec2hex_byte: "n < 256 \<Longrightarrow> hex2bin (dec2hex n) = return [char_of n]"
proof -
  assume n: "n < 256"
  obtain x where x: "hex2bin (dec2hex n) = return x" "be_bytes_value x = n" "length (dec2hex n) = 2 * length x" "x \<noteq> []"
    using dec2hex_bytes by blast
  have "length (dec2hex n) \<le> 2" using dec2hex_length [of n 1] n by simp
  then have "length x = 1" using x(3,4) by (cases x) auto
  then obtain c where "x = [c]" by (cases x) auto
  with x show ?thesis by (auto simp: be_bytes_value_def)
qed

section \<open>Reading back\<close>

lemma framed:
  fixes base :: nat
  assumes s: "hex2bin s = return b" "even (length s)" and len: "0 < length b" "length b < 2 ^ 31" and base: "base \<le> 192"
  defines "F \<equiv> if length b < 56 then dec2hex (base + length b) @ s
     else dec2hex (base + 55 + length (dec2hex (length b)) div 2) @ dec2hex (length b) @ s"
  shows "\<exists>c e. hex2bin F = return (c # e) \<and> even (length F) \<and> base \<le> of_char c \<and> of_char c < base + 64 \<and>
    (\<forall>r. read_payload base (of_char c) (e @ r) = Some (b, r))"
proof (cases "length b < 56")
  case True
  let ?c = "char_of (base + length b)"
  have c: "of_char ?c = base + length b" using True base by simp
  have "hex2bin F = return (?c # b)"
    using hex2bin_append [OF even_length_dec2hex s(2) dec2hex_byte s(1), of "base + length b"] True base by (simp add: F_def)
  moreover have "even (length F)" using True s(2) even_length_dec2hex by (simp add: F_def)
  moreover have "read_payload base (of_char ?c) (b @ r) = Some (b, r)" for r
    unfolding c using True by (simp add: read_payload_def split_at_def)
  ultimately show ?thesis using True c by (intro exI [of _ ?c] exI [of _ b]) auto
next
  case False
  obtain x where x: "hex2bin (dec2hex (length b)) = return x" "be_bytes_value x = length b"
    "length (dec2hex (length b)) = 2 * length x" "x \<noteq> []" using dec2hex_bytes by blast
  have k: "length x \<le> 4" using dec2hex_length [of "length b" 4] len(2) x(3) by simp
  let ?n = "base + 55 + length x"
  let ?c = "char_of ?n"
  have c: "of_char ?c = ?n" using k base by simp
  have "hex2bin (dec2hex (length b) @ s) = return (x @ b)" by (rule hex2bin_append [OF even_length_dec2hex s(2) x(1) s(1)])
  then have "hex2bin F = return (?c # x @ b)"
    using hex2bin_append [OF even_length_dec2hex _ dec2hex_byte, of "dec2hex (length b) @ s" ?n "x @ b"] False k base x(3) s(2)
    by (simp add: F_def even_length_dec2hex)
  moreover have "even (length F)" using False s(2) even_length_dec2hex by (simp add: F_def)
  moreover have "read_payload base (of_char ?c) ((x @ b) @ r) = Some (b, r)" for r
    unfolding c using x(2,4) by (simp add: read_payload_def split_at_def Suc_le_eq)
  ultimately show ?thesis using c k by (intro exI [of _ ?c] exI [of _ "x @ b"]) auto
qed

text \<open>The text of a field, brought to an even number of digits.\<close>

lemma even_text:
  assumes "hex2bin s = return b"
  shows "\<exists>s'. (if odd (length s) then CHR ''0'' # s else s) = s' \<and> hex2bin s' = return b \<and> even (length s') \<and> length s' = 2 * length b"
proof -
  let ?s = "if odd (length s) then CHR ''0'' # s else s"
  have ev: "even (length ?s)" by simp
  have h: "hex2bin ?s = return b" using assms hex2bin_odd [of s] by (auto simp: hex2bin_even_pairs)
  with ev hex2bin_pairs_length [OF ev] show ?thesis by (auto simp: hex2bin_even_pairs)
qed

lemma rlp_encode_item:
  assumes b: "hex2bin s = return b" and len: "length b < 2 ^ 31"
  shows "\<exists>e. hex2bin (rlp_encode s False) = return e \<and> even (length (rlp_encode s False)) \<and> (\<forall>r. rlp_item (e @ r) = Some (b, r))"
proof -
  obtain s' where s': "(if odd (length s) then CHR ''0'' # s else s) = s'" "hex2bin s' = return b" "even (length s')"
    "length s' = 2 * length b" using even_text [OF b] by blast
  have l: "length s' mod 2 ^ 32 div 2 = length b" using s'(4) len by simp
  note e = rlp_encode_def [of s False, unfolded s'(1) Let_def l if_False]
  consider (nil) "length b = 0" | (one) "length b = 1" "hex2dec (take 2 s') < 128" | (more) "0 < length b" "\<not> (length b = 1 \<and> hex2dec (take 2 s') < 128)"
    by linarith
  then show ?thesis
  proof cases
    case nil
    have "hex2bin ''80'' = return [char_of (128::nat)]" by code_simp
    then show ?thesis unfolding e using nil by (auto simp: read_payload_def split_at_def)
  next
    case one
    then obtain x y where xy: "s' = [x, y]" using s'(4) by (auto simp: length_Suc_conv numeral_2_eq_2)
    then obtain m n where mn: "hex2nibble x = return m" "hex2nibble y = return n" "b = [char_of (push_bit 4 m OR n)]"
      using s'(2) by (auto simp: hex2bin_def split: sum.splits)
    have "of_char (hd b) = m * 16 + n"
      using mn hex2nibble_bound [OF mn(1)] hex2nibble_bound [OF mn(2)] by (simp add: nibbles_combine)
    moreover have "m * 16 + n < 128" using one(2) hex2dec_pair [OF mn(1,2)] xy by simp
    ultimately have "\<forall>r. rlp_item (b @ r) = Some (b, r)" using mn(3) by simp
    then show ?thesis unfolding e using one s' by auto
  next
    case more
    have "rlp_encode s False = (if length b < 56 then dec2hex (128 + length b) @ s'
        else dec2hex (128 + 55 + length (dec2hex (length b)) div 2) @ dec2hex (length b) @ s')"
      unfolding e using more by auto
    with framed [OF s'(2,3) more(1) len, of 128] obtain c x where
      "hex2bin (rlp_encode s False) = return (c # x)" "even (length (rlp_encode s False))" "128 \<le> (of_char c :: nat)"
      "of_char c < (192::nat)" "\<forall>r. read_payload 128 (of_char c) (x @ r) = Some (b, r)" by auto
    then show ?thesis by (intro exI [of _ "c # x"]) auto
  qed
qed

lemma rlp_encode_list:
  assumes b: "hex2bin s = return b" and len: "2 \<le> length b" "length b < 2 ^ 31"
  shows "\<exists>e. hex2bin (rlp_encode s True) = return e \<and> (\<forall>r. rlp_list (e @ r) = Some (b, r))"
proof -
  obtain s' where s': "(if odd (length s) then CHR ''0'' # s else s) = s'" "hex2bin s' = return b" "even (length s')"
    "length s' = 2 * length b" using even_text [OF b] by blast
  have l: "length s' mod 2 ^ 32 div 2 = length b" using s'(4) len by simp
  have pos: "0 < length b" using len(1) by linarith
  have "rlp_encode s True = (if length b < 56 then dec2hex (192 + length b) @ s'
      else dec2hex (192 + 55 + length (dec2hex (length b)) div 2) @ dec2hex (length b) @ s')"
    unfolding rlp_encode_def [of s True, unfolded s'(1) Let_def l] using len(1) by auto
  with framed [OF s'(2,3) pos len(2), of 192] obtain c x where
    "hex2bin (rlp_encode s True) = return (c # x)" "192 \<le> (of_char c :: nat)"
    "\<forall>r. read_payload 192 (of_char c) (x @ r) = Some (b, r)" by auto
  then show ?thesis by (intro exI [of _ "c # x"]) auto
qed

text \<open>A text whose bytes read as a sequence of items.\<close>

definition reads :: "string \<Rightarrow> string list \<Rightarrow> bool" where
  "reads s xs \<longleftrightarrow> (\<exists>e. hex2bin s = return e \<and> even (length s) \<and> (\<forall>r. rlp_items (length xs) (e @ r) = Some (xs, r)))"

lemma rlp_items_append:
  "rlp_items m s = Some (xs, t) \<Longrightarrow> rlp_items n t = Some (ys, r) \<Longrightarrow> rlp_items (m + n) s = Some (xs @ ys, r)"
  by (induction m arbitrary: s xs) (auto simp: bind_Some_iff split: prod.splits)

lemma reads_append: "reads s xs \<Longrightarrow> reads t ys \<Longrightarrow> reads (s @ t) (xs @ ys)"
proof -
  assume "reads s xs" "reads t ys"
  then obtain e f where e: "hex2bin s = return e" "even (length s)" "\<And>r. rlp_items (length xs) (e @ r) = Some (xs, r)"
    and f: "hex2bin t = return f" "even (length t)" "\<And>r. rlp_items (length ys) (f @ r) = Some (ys, r)"
    unfolding reads_def by blast
  have "rlp_items (length (xs @ ys)) ((e @ f) @ r) = Some (xs @ ys, r)" for r
    using rlp_items_append [OF e(3) f(3), of "f @ r"] e(3) [of "f @ r"] f(3) [of r] rlp_items_append by fastforce
  with hex2bin_append [OF e(2) f(2) e(1) f(1)] e(2) f(2) show ?thesis unfolding reads_def by auto
qed

lemma reads_item: "hex2bin s = return b \<Longrightarrow> length b < 2 ^ 31 \<Longrightarrow> reads (rlp_encode s False) [b]"
  using rlp_encode_item [of s b] unfolding reads_def by fastforce

lemma reads_a0: "length b = 32 \<Longrightarrow> reads (''a0'' @ bin2hex b) [b]"
proof -
  assume l: "length b = 32"
  have "hex2bin ''a0'' = return [char_of (160::nat)]" by code_simp
  then have "hex2bin (''a0'' @ bin2hex b) = return (char_of (160::nat) # b)"
    using hex2bin_append [of "''a0''" "bin2hex b" "[char_of (160::nat)]" b] hex2bin_pairs_bin2hex [of b]
    by (simp add: hex2bin_even_pairs)
  then show ?thesis unfolding reads_def using l by (simp add: read_payload_def split_at_def)
qed

definition tx_fields :: "eth_transaction \<Rightarrow> string list" where
  "tx_fields tx = [tx_nonce tx, tx_gas_price tx, tx_gas_limit tx, tx_to tx, tx_value tx, tx_data tx]"

lemma reads_tx:
  assumes "list_all2 (\<lambda>s b. hex2bin s = return b \<and> length b < 2 ^ 31) (tx_fields tx) bs"
  shows "reads (to_rlp_encoded_tx tx) bs"
proof -
  from assms obtain a b c d e f where bs: "bs = [a] @ [b] @ [c] @ [d] @ [e] @ [f]" by (auto simp: tx_fields_def list_all2_Cons1)
  show ?thesis unfolding bs to_rlp_encoded_tx_def using assms unfolding bs tx_fields_def
    by (intro reads_append reads_item) auto
qed

lemma dec2hex_u32: "n < 2 ^ 32 \<Longrightarrow> length (dec2hex n) \<le> 8"
  using dec2hex_length [of n 4] by simp

lemma length_rlp_encode: "length (rlp_encode s l) \<le> length s + 17"
proof -
  let ?s = "if odd (length s) then CHR ''0'' # s else s"
  let ?len = "length ?s mod 2 ^ 32 div 2"
  have a: "length ?s \<le> length s + 1" by simp
  have b: "length (dec2hex ((if l then 192 else 128) + ?len)) \<le> 8" if "?len < 56" using that by (intro dec2hex_u32) auto
  have c: "length (dec2hex ?len) \<le> 8" by (intro dec2hex_u32) (simp add: less_mult_imp_div_less)
  have d: "length (dec2hex ((if l then 247 else 183) + length (dec2hex ?len) div 2)) \<le> 8"
    using c by (intro dec2hex_u32) auto
  show ?thesis unfolding rlp_encode_def Let_def using a b c d by auto
qed

lemma reads_bytes: "reads s xs \<Longrightarrow> \<exists>e. hex2bin s = return e \<and> length s = 2 * length e \<and> (\<forall>r. rlp_items (length xs) (e @ r) = Some (xs, r))"
  unfolding reads_def using hex2bin_pairs_length by (metis hex2bin_even_pairs)

text \<open>A list around items is read back.\<close>

lemma reads_list:
  assumes "reads s xs" and "4 \<le> length s" and "length s < 2 ^ 32"
  shows "\<exists>e p. hex2bin (rlp_encode s True) = return e \<and> rlp_list e = Some (p, []) \<and> rlp_items (length xs) p = Some (xs, [])"
proof -
  obtain p where p: "hex2bin s = return p" "length s = 2 * length p" "\<And>r. rlp_items (length xs) (p @ r) = Some (xs, r)"
    using reads_bytes [OF assms(1)] by blast
  have l: "2 \<le> length p" "length p < 2 ^ 31" using p(2) assms(2,3) by simp_all
  from rlp_encode_list [OF p(1) l] obtain e where "hex2bin (rlp_encode s True) = return e" "rlp_list (e @ []) = Some (p, [])"
    by blast
  with p(3) [of "[]"] show ?thesis by auto
qed

lemma reads_8080: "reads ''8080'' [[], []]"
proof -
  have "hex2bin ''8080'' = return [char_of (128::nat), char_of (128::nat)]" by code_simp
  then show ?thesis by (simp add: reads_def read_payload_def split_at_def)
qed

section \<open>Properties\<close>

text \<open>a signed transaction, read back as RLP: a list of the six fields, the recovery number combined with
  the chain, and the two halves of the signature; what was signed is the hash of the list of the six fields, the
  chain and two empty items.\<close>

theorem signed_tx_fields:
  assumes f: "list_all2 (\<lambda>s b. hex2bin s = return b \<and> length b < 2 ^ 31) (tx_fields tx) bs"
    and c: "hex2bin (tx_chain_id tx) = return ch" "length ch < 2 ^ 31"
    and size: "length (to_rlp_encoded_tx tx) + length (tx_chain_id tx) < 2 ^ 31"
    and key: "hex2bin private_key_hex = return key" "pubkey_create L key \<noteq> None"
    and sig: "\<And>h. length (fst (sign_recoverable L key h)) = 64 \<and> snd (sign_recoverable L key h) \<in> {0..3}"
  shows "\<exists>unsigned p raw e q v. rlp_list unsigned = Some (p, []) \<and> rlp_items 9 p = Some (bs @ [ch, [], []], []) \<and>
    sign_tx hash L tx private_key_hex = succeed raw \<and> hex2bin raw = return e \<and> rlp_list e = Some (q, []) \<and>
    rlp_items 9 q = Some (bs @ [v, take 32 (fst (sign_recoverable L key (hash unsigned))),
      drop 32 (fst (sign_recoverable L key (hash unsigned)))], []) \<and>
    be_bytes_value v = (hex2dec (tx_chain_id tx) * 2 + (if odd (snd (sign_recoverable L key (hash unsigned))) then 36 else 35)) mod 2 ^ 32"
proof -
  have six: "length bs = 6" using list_all2_lengthD [OF f] by (simp add: tx_fields_def)
  note tx = reads_tx [OF f]
  have lc: "length (rlp_encode (tx_chain_id tx) False) \<le> length (tx_chain_id tx) + 17" by (rule length_rlp_encode)
  let ?u = "to_rlp_encoded_tx tx @ rlp_encode (tx_chain_id tx) False @ ''8080''"
  have "reads ?u (bs @ [ch] @ [[], []])" by (intro reads_append tx reads_item [OF c] reads_8080)
  then obtain u p where u: "hex2bin (rlp_encode ?u True) = return u" "rlp_list u = Some (p, [])"
    "rlp_items 9 p = Some (bs @ [ch, [], []], [])"
    using reads_list [of ?u "bs @ [ch] @ [[], []]"] lc size six by auto
  obtain g r where s: "sign_recoverable L key (hash u) = (g, r)" by force
  have g: "length g = 64" "r \<in> {0..3}" using sig [of "hash u"] s by auto
  let ?rsv = "g @ [char_of (r mod 256 + 27)]"
  have rsv: "secp256k1_sign_and_verify L key (hash u) = ?rsv"
    using key(2) s by (simp add: secp256k1_sign_and_verify_def secp256k1_sign_def)
  have "int (of_char (char_of (r + 27))) = r + 27" using g(2) by (simp add: of_nat_of_char)
  then have "r mod 256 = r" "schar (char_of (r + 27)) = r + 27" using g(2) by (auto simp: schar_def)
  then have v: "schar (?rsv ! 64) - 27 = r" using g(1) by (simp add: nth_append)
  let ?newv = "(hex2dec (tx_chain_id tx) * 2 + (if odd r then 36 else 35)) mod 2 ^ 32"
  obtain w where w: "hex2bin (dec2hex ?newv) = return w" "be_bytes_value w = ?newv" "length (dec2hex ?newv) = 2 * length w"
    using dec2hex_bytes [of ?newv] by blast
  have lv: "length (dec2hex ?newv) \<le> 8" by (rule dec2hex_u32) simp
  let ?t = "to_rlp_encoded_tx tx @ rlp_encode (dec2hex ?newv) False @ (''a0'' @ bin2hex (take 32 g)) @ ''a0'' @ bin2hex (drop 32 g)"
  have "length w < 2 ^ 31" using lv w(3) by simp
  then have "reads ?t (bs @ [w] @ [take 32 g] @ [drop 32 g])"
    using g(1) by (intro reads_append tx reads_item [OF w(1)] reads_a0) auto
  moreover have "length ?t < 2 ^ 32" "4 \<le> length ?t"
    using length_rlp_encode [of "dec2hex ?newv" False] lv size g(1) by auto
  ultimately obtain e q where e: "hex2bin (rlp_encode ?t True) = return e" "rlp_list e = Some (q, [])"
    "rlp_items 9 q = Some (bs @ [w, take 32 g, drop 32 g], [])"
    using reads_list [of ?t "bs @ [w] @ [take 32 g] @ [drop 32 g]"] six by auto
  have "take 32 ?rsv = take 32 g" "take 32 (drop 32 ?rsv) = drop 32 g" "\<not> length ?rsv < 64" "length ?rsv \<noteq> 64" using g(1) by auto
  then have "sign_tx hash L tx private_key_hex = succeed (rlp_encode ?t True)"
    unfolding sign_tx_def Let_def u(1) key(1) and_then_succeed rsv using v by (simp only: if_False append_assoc)
  then show ?thesis
    by (intro exI [of _ u] exI [of _ p] exI [of _ "rlp_encode ?t True"] exI [of _ e] exI [of _ q] exI [of _ w] conjI)
      (simp_all only: u(2,3) e w(2) s fst_conv snd_conv)
qed

text \<open>A library with one key, for the examples.\<close>

definition one_key :: secp256k1 where
  "one_key = \<lparr>pubkey_create = (\<lambda>k. if k = ''k'' then Some (replicate 65 CHR ''p'') else None),
     sign_recoverable = (\<lambda>_ _. (replicate 64 CHR ''s'', 1)), parse_compact = (\<lambda>g v. v \<in> {0..3}),
     recover_key = (\<lambda>_ _ _. Some (replicate 65 CHR ''p''))\<rparr>"

definition transfer :: eth_transaction where
  "transfer = \<lparr>tx_nonce = ''01'', tx_gas_price = ''1388'', tx_gas_limit = ''5B8D80'', tx_to = ''22D9D6FAB361FAA969D2EFDE420472633CBB7B11'',
     tx_value = [], tx_data = ''603C'', tx_chain_id = ''01''\<rparr>"

theorem signed_tx_fields_witness:
  "\<exists>bs ch unsigned p raw e q v. list_all2 (\<lambda>s b. hex2bin s = return b) (tx_fields transfer) bs \<and> hex2bin ''01'' = return ch \<and>
     rlp_list unsigned = Some (p, []) \<and> rlp_items 9 p = Some (bs @ [ch, [], []], []) \<and>
     sign_tx (\<lambda>x. x) one_key transfer ''6B'' = succeed raw \<and> hex2bin raw = return e \<and> rlp_list e = Some (q, []) \<and>
     rlp_items 9 q = Some (bs @ [v, replicate 32 CHR ''s'', replicate 32 CHR ''s''], []) \<and> be_bytes_value v = 38"
proof -
  let ?b = "\<lambda>s. projr (hex2bin s)"
  have h: "list_all (\<lambda>s. isl (hex2bin s) = False \<and> length (?b s) < 21) (''01'' # ''6B'' # tx_fields transfer)" "?b ''6B'' = ''k''"
    by code_simp+
  have b: "hex2bin s = return (?b s)" "length (?b s) < 2 ^ 31" if "s \<in> set (''01'' # ''6B'' # tx_fields transfer)" for s
    using h(1) that by (auto simp: list_all_iff)
  have "length (to_rlp_encoded_tx transfer) \<le> length (concat (tx_fields transfer)) + 6 * 17"
    using length_rlp_encode [of "tx_nonce transfer" False] length_rlp_encode [of "tx_gas_price transfer" False]
      length_rlp_encode [of "tx_gas_limit transfer" False] length_rlp_encode [of "tx_to transfer" False]
      length_rlp_encode [of "tx_value transfer" False] length_rlp_encode [of "tx_data transfer" False]
    by (simp add: to_rlp_encoded_tx_def tx_fields_def)
  then have size: "length (to_rlp_encoded_tx transfer) + length (tx_chain_id transfer) < 2 ^ 31"
    by (simp add: transfer_def tx_fields_def)
  have "hex2dec ''01'' = 0 * 16 + 1" by (rule hex2dec_pair) (simp_all add: hex2nibble_def schar_def)
  then have c: "hex2dec (tx_chain_id transfer) = 1" by (simp add: transfer_def)
  have f: "list_all2 (\<lambda>s b. hex2bin s = return b \<and> length b < 2 ^ 31) (tx_fields transfer) (map ?b (tx_fields transfer))"
    using b by (auto simp: list_all2_map2 intro: list.rel_refl_strong)
  have ch: "hex2bin (tx_chain_id transfer) = return (?b ''01'')" "length (?b ''01'') < 2 ^ 31"
    using b [of "''01''"] by (auto simp: transfer_def)
  have key: "hex2bin ''6B'' = return ''k''" using b(1) [of "''6B''"] h(2) by simp
  have lib: "pubkey_create one_key ''k'' \<noteq> None" "\<And>x. sign_recoverable one_key ''k'' x = (replicate 64 CHR ''s'', 1)"
    by (simp_all add: one_key_def)
  have r: "take 32 (replicate 64 CHR ''s'') = replicate 32 CHR ''s''" "drop 32 (replicate 64 CHR ''s'') = replicate 32 CHR ''s''"
    "(1 * 2 + (if odd (1::int) then 36 else 35)) mod 2 ^ 32 = (38::nat)" by simp_all
  have "length (fst (sign_recoverable one_key ''k'' x)) = 64 \<and> snd (sign_recoverable one_key ''k'' x) \<in> {0..3}" for x
    by (simp add: lib(2))
  from signed_tx_fields [OF f ch size key lib(1) this, of "\<lambda>x. x"] show ?thesis
    unfolding lib(2) c fst_conv snd_conv r
  proof (elim exE conjE, intro exI conjI)
    show "list_all2 (\<lambda>s b. hex2bin s = return b) (tx_fields transfer) (map ?b (tx_fields transfer))"
      using f by (rule list_all2_mono) simp
    show "hex2bin ''01'' = return (?b ''01'')" using ch(1) by (simp add: transfer_def)
  qed assumption+
qed

text \<open>the address recovered from a signature is the address of the private key that signed, for a library
  that recovers the key of its own signatures.\<close>

theorem recovered_address:
  assumes "hex2bin private_key_hex = return key" and "pubkey_create L key = Some pub" and "length pub = 65"
    and "sign_recoverable L key h = (g, v)" and "length g = 64" and "0 \<le> v" and "v \<le> 3"
    and "parse_compact L g v" and "recover_key L g v h = Some pub"
  shows "\<exists>a. secp256k1_recover_address hash L (secp256k1_sign_and_verify L key h) h = Some a \<and>
    get_address_from_prkey hash L private_key_hex = return (''0x'' @ bin2hex a)"
proof -
  have v: "v mod 256 = v" "of_char (char_of (v + 27)) - 27 = v" using assms(6,7) by auto
  have "take 64 (drop 1 pub) = drop 1 pub" using assms(3) by simp
  then show ?thesis using assms v
    by (simp add: secp256k1_recover_address_def secp256k1_sign_and_verify_def secp256k1_sign_def get_address_from_prkey_def nth_append)
qed

theorem recovered_address_witness:
  "\<exists>a. secp256k1_recover_address (\<lambda>x. x) one_key (secp256k1_sign_and_verify one_key ''k'' ''h'') ''h'' = Some a \<and>
    get_address_from_prkey (\<lambda>x. x) one_key ''6B'' = return (''0x'' @ bin2hex a)"
proof (rule recovered_address [of "''6B''" "''k''" one_key "replicate 65 CHR ''p''" "''h''" "replicate 64 CHR ''s''" 1])
  show "hex2bin ''6B'' = return ''k''" by code_simp
qed (simp_all add: one_key_def)

text \<open>An invalid key makes the signing of a transaction read past the end of an empty text.\<close>

lemma sign_tx_invalid_key:
  "hex2bin (rlp_encode (to_rlp_encoded_tx tx @ rlp_encode (tx_chain_id tx) False @ ''8080'') True) = return u \<Longrightarrow>
   hex2bin private_key_hex = return key \<Longrightarrow> pubkey_create L key = None \<Longrightarrow> sign_tx hash L tx private_key_hex = None"
  by (simp add: sign_tx_def secp256k1_sign_and_verify_def Let_def)

text \<open>The empty list and a list of one small byte are encoded like byte strings.\<close>

lemma rlp_short_lists: "rlp_encode [] True = rlp_encode [] False" "rlp_encode ''05'' True = rlp_encode ''05'' False"
proof -
  have "hex2dec ''05'' = 0 * 16 + 5" by (rule hex2dec_pair) (simp_all add: hex2nibble_def schar_def)
  then show "rlp_encode ''05'' True = rlp_encode ''05'' False" by (simp add: rlp_encode_def)
qed (simp add: rlp_encode_def)

end
