(* ===== verification/Eth_Contract.thy ===== *)
theory Eth_Contract
  imports Eth_Abi_Properties Eth_Transaction Status "HOL-Library.AList"
begin

text \<open>
  Calls of contracts over JSON-RPC: the requests of \<^verbatim>\<open>core/interop/ethereum/eth_helper_functions.h\<close> and the contracts
  of \<^verbatim>\<open>core/interop/ethereum/eth_contract_curl.cc\<close>. The JSON library and the HTTP transfer are parameters: \<open>post\<close>
  gives what comes back for a request. In the outcomes \<open>None\<close> also stands for the end of the process by
  \<^verbatim>\<open>LOG(FATAL)\<close>.
\<close>

section \<open>Requests\<close>

record json_lib =
  jparse :: "string \<Rightarrow> json option"
  jwhat :: "string \<Rightarrow> string"
  jdump :: "json \<Rightarrow> string"

datatype curl_result = No_curl | Curl_error string | Response string

definition find_key :: "json \<Rightarrow> string \<Rightarrow> json option" where
  "find_key j k = (case j of Object kvs \<Rightarrow> map_of kvs k | _ \<Rightarrow> None)"

text \<open>When the error is a text, its member \<open>message\<close> is looked up, which the library refuses with an exception.\<close>

definition handle_result :: "json_lib \<Rightarrow> string \<Rightarrow> nat \<Rightarrow> status outcome" where
  "handle_result J message call_id =
     (case jparse J message of
        None \<Rightarrow> succeed (status_internal (''Invalid JSON! '' @ jwhat J message))
      | Some j \<Rightarrow>
          (case find_key j ''id'' of
             Some (Number n) \<Rightarrow>
               (let result_call_id = nat (n mod 2 ^ 32)
                in if result_call_id \<noteq> call_id then
                     succeed (status_internal (''Result ID '' @ to_string result_call_id @
                       '' does not match request ID: '' @ to_string call_id))
                   else
                     (case find_key j ''error'' of
                        Some (Text _) \<Rightarrow> Some (throw (Json_error ''cannot use operator[] with a string argument with string''))
                      | Some obj \<Rightarrow> succeed (status_internal (jdump J obj))
                      | None \<Rightarrow>
                          (case find_key j ''result'' of
                             Some (Text s) \<Rightarrow> succeed (status_ok_msg s)
                           | Some r \<Rightarrow> succeed (status_ok_msg (jdump J r))
                           | None \<Rightarrow> succeed (status_internal (''No result and no error!? Message: '' @ [CHR 0x0A] @ message)))))
           | _ \<Rightarrow> succeed (status_internal ''ID not found!'')))"

definition curl_post :: "json_lib \<Rightarrow> (string \<Rightarrow> string \<Rightarrow> curl_result) \<Rightarrow> string \<Rightarrow> string \<Rightarrow> nat \<Rightarrow> status outcome" where
  "curl_post J post url data call_id =
     (case post url data of
        No_curl \<Rightarrow> succeed (status_internal ''No curl!'')
      | Curl_error e \<Rightarrow> succeed (status_internal (if e \<noteq> [] then e else ''CURL error''))
      | Response msg_buf \<Rightarrow> handle_result J msg_buf call_id)"

definition request :: "string \<Rightarrow> string \<Rightarrow> nat \<Rightarrow> string" where
  \<open>request method params i = ''{"jsonrpc":"2.0","method":"'' @ method @ ''","params":['' @ params @ ''],"id":'' @ to_string i @ ''}''\<close>

definition eth_getTransactionCount :: "json_lib \<Rightarrow> (string \<Rightarrow> string \<Rightarrow> curl_result) \<Rightarrow> string \<Rightarrow> string \<Rightarrow> status outcome" where
  \<open>eth_getTransactionCount J post url address =
     curl_post J post url (request ''eth_getTransactionCount'' (''"'' @ address @ ''","latest"'') 1) 1\<close>

definition eth_getCode :: "json_lib \<Rightarrow> (string \<Rightarrow> string \<Rightarrow> curl_result) \<Rightarrow> string \<Rightarrow> string \<Rightarrow> status outcome" where
  \<open>eth_getCode J post url address = curl_post J post url (request ''eth_getCode'' (''"'' @ address @ ''","latest"'') 2) 2\<close>

definition eth_getBalance :: "json_lib \<Rightarrow> (string \<Rightarrow> string \<Rightarrow> curl_result) \<Rightarrow> string \<Rightarrow> string \<Rightarrow> status outcome" where
  \<open>eth_getBalance J post url address = curl_post J post url (request ''eth_getBalance'' (''"'' @ address @ ''","latest"'') 3) 3\<close>

definition eth_gasPrice :: "json_lib \<Rightarrow> (string \<Rightarrow> string \<Rightarrow> curl_result) \<Rightarrow> string \<Rightarrow> status outcome" where
  \<open>eth_gasPrice J post url = curl_post J post url (request ''eth_gasPrice'' [] 4) 4\<close>

definition eth_getTransactionReceipt :: "json_lib \<Rightarrow> (string \<Rightarrow> string \<Rightarrow> curl_result) \<Rightarrow> string \<Rightarrow> string \<Rightarrow> status outcome" where
  \<open>eth_getTransactionReceipt J post url tx_hash =
     curl_post J post url (request ''eth_getTransactionReceipt'' (''"'' @ tx_hash @ ''"'') 5) 5\<close>

section \<open>Contracts\<close>

record eth_contract =
  c_call_ids :: nat
  c_gas_limit :: string
  c_gas_price :: string
  c_server :: string
  c_address :: string
  c_signatures :: "(string \<times> string \<times> bool) list"
  c_inputs :: "(string \<times> string) list"
  c_outputs :: "(string \<times> string) list"

text \<open>The texts of the types of a list of parameters; a parameter without a type ends the process.\<close>

fun type_texts :: "json list \<Rightarrow> string list outcome" where
  "type_texts [] = succeed []"
| "type_texts (j # js) =
     (case find_key j ''type'' of
        None \<Rightarrow> None
      | Some t \<Rightarrow> and_then (get_string t) (\<lambda>s. and_then (type_texts js) (\<lambda>ss. succeed (s # ss))))"

definition param_types :: "json \<Rightarrow> string \<Rightarrow> string list outcome" where
  "param_types j key =
     (case find_key j key of
        None \<Rightarrow> None
      | Some (Array js) \<Rightarrow> type_texts js
      | Some _ \<Rightarrow> Some (throw (Json_error ''type must be array'')))"

definition string_list :: "string list \<Rightarrow> string" where
  "string_list ss = ''['' @ join (map quote ss) @ '']''"

definition parse_function :: "(string \<Rightarrow> string) \<Rightarrow> json \<Rightarrow> eth_contract \<Rightarrow> eth_contract outcome" where
  "parse_function hash jobj c =
     and_then (case find_key jobj ''type'' of None \<Rightarrow> succeed ''function'' | Some t \<Rightarrow> get_string t) (\<lambda>ty.
     if ty \<noteq> ''function'' then succeed c
     else
       and_then (case find_key jobj ''name'' of None \<Rightarrow> None | Some n \<Rightarrow> get_string n) (\<lambda>name.
       and_then (case find_key jobj ''stateMutability'' of None \<Rightarrow> None | Some m \<Rightarrow> get_string m) (\<lambda>mut.
       and_then (param_types jobj ''inputs'') (\<lambda>inputs.
       and_then (param_types jobj ''outputs'') (\<lambda>outputs.
       succeed (c\<lparr>c_signatures := AList.update name
             (''0x'' @ take 8 (bin2hex (hash (name @ ''('' @ join inputs @ '')''))), mut \<noteq> ''pure'' \<and> mut \<noteq> ''view'') (c_signatures c),
           c_inputs := AList.update name (string_list inputs) (c_inputs c),
           c_outputs := AList.update name (string_list outputs) (c_outputs c)\<rparr>))))))"

definition parse_abi :: "(string \<Rightarrow> string) \<Rightarrow> json \<Rightarrow> eth_contract \<Rightarrow> eth_contract outcome" where
  "parse_abi hash abi c = for_each (parse_function hash) (json_items abi) c"

definition contract_new ::
  "(string \<Rightarrow> string) \<Rightarrow> json_lib \<Rightarrow> (string \<Rightarrow> string \<Rightarrow> curl_result) \<Rightarrow> string \<Rightarrow> string \<Rightarrow> string \<Rightarrow> eth_contract outcome" where
  "contract_new hash J post url contract_address abi_json =
     (case jparse J abi_json of
        None \<Rightarrow> None
      | Some abi \<Rightarrow>
          and_then (parse_abi hash abi \<lparr>c_call_ids = 0, c_gas_limit = [], c_gas_price = [], c_server = url,
              c_address = contract_address, c_signatures = [], c_inputs = [], c_outputs = []\<rparr>) (\<lambda>c.
          and_then (eth_gasPrice J post url) (\<lambda>s.
          and_then (if code s = OK then data_substr (msg s) 2 (length (msg s)) else succeed ''1388'') (\<lambda>price.
          succeed (c\<lparr>c_gas_price := price, c_gas_limit := ''5B8D80''\<rparr>)))))"

definition register_contract ::
  "(string \<Rightarrow> string) \<Rightarrow> json_lib \<Rightarrow> (string \<Rightarrow> string \<Rightarrow> curl_result) \<Rightarrow> (string \<times> eth_contract) list \<Rightarrow>
   string \<Rightarrow> string \<Rightarrow> string \<Rightarrow> (string \<times> eth_contract) list outcome" where
  "register_contract hash J post contracts server address abi_json =
     (if map_of contracts address \<noteq> None then succeed contracts
      else and_then (contract_new hash J post server address abi_json) (\<lambda>c. succeed (AList.update address c contracts)))"

definition get_contract :: "(string \<times> eth_contract) list \<Rightarrow> string \<Rightarrow> eth_contract option" where
  "get_contract contracts address = map_of contracts address"

definition set_gas_price :: "eth_contract \<Rightarrow> string \<Rightarrow> eth_contract" where
  "set_gas_price c p = c\<lparr>c_gas_price := p\<rparr>"

definition set_gas_limit :: "eth_contract \<Rightarrow> string \<Rightarrow> eth_contract" where
  "set_gas_limit c l = c\<lparr>c_gas_limit := l\<rparr>"

definition get_next_call_id :: "eth_contract \<Rightarrow> eth_contract \<times> nat" where
  "get_next_call_id c = (let i = (c_call_ids c + 1) mod 2 ^ 32 in (c\<lparr>c_call_ids := i\<rparr>, i))"

definition decode_function_result :: "json_lib \<Rightarrow> integers \<Rightarrow> eth_contract \<Rightarrow> string \<Rightarrow> string \<Rightarrow> status outcome" where
  "decode_function_result J I c fname result =
     (if map_of (c_signatures c) fname = None then succeed (status_invalid_argument ''Function signature is not found!'')
      else
        (case map_of (c_outputs c) fname of
           None \<Rightarrow> succeed (status_invalid_argument ''Function signature is not found in function_outputs!'')
         | Some outs \<Rightarrow>
             if outs \<noteq> ''[]'' then
               and_then (Some (hex2bin (if prefix ''0x'' result then drop 2 result else result))) (\<lambda>bin.
               and_then (decode (jparse J) I outs bin) (\<lambda>decoded. succeed (status_ok_msg decoded)))
             else succeed (status_ok_msg result)))"

definition encode_inputs :: "json_lib \<Rightarrow> (nat \<Rightarrow> char) \<Rightarrow> integers \<Rightarrow> string \<Rightarrow> string \<Rightarrow> string outcome" where
  "encode_inputs J junk I ins params = (if ins \<noteq> ''[]'' then encode (jparse J) junk I ins params else succeed [])"

text \<open>The text of the request for a call.\<close>

definition call_data ::
  "(string \<Rightarrow> string) \<Rightarrow> secp256k1 \<Rightarrow> json_lib \<Rightarrow> (nat \<Rightarrow> char) \<Rightarrow> integers \<Rightarrow> eth_contract \<Rightarrow> nat \<Rightarrow> string \<Rightarrow> bool \<Rightarrow> string \<Rightarrow>
   string \<Rightarrow> string \<Rightarrow> string \<Rightarrow> string \<Rightarrow> string \<Rightarrow> (status + string) outcome" where
  \<open>call_data hash L J junk I c call_id selector is_transaction ins params private_key value gas_price gas_limit =
     (let gas = ''","gas":"0x'' @ (if gas_limit \<noteq> [] then gas_limit else c_gas_limit c) @
            ''","gasPrice":"0x'' @ (if gas_price \<noteq> [] then gas_price else c_gas_price c)
      in if \<not> is_transaction then
           and_then (encode_inputs J junk I ins params) (\<lambda>encoded.
           succeed (Inr (request ''eth_call'' (''{ "to":"'' @ c_address c @ ''","data":"'' @ selector @ bin2hex encoded @ gas @
             ''"},"latest"'') call_id)))
         else if private_key \<noteq> [] then
           and_then (Some (get_address_from_prkey hash L private_key)) (\<lambda>acc_address.
           if length acc_address \<noteq> 42 then
             succeed (Inl (status_internal ''Invalid private key! Could not generate address!''))
           else
             and_then (encode_inputs J junk I ins params) (\<lambda>encoded.
             succeed (Inr (request ''eth_sendTransaction'' (''{ "to":"'' @ c_address c @ ''","from":"'' @ acc_address @
               ''","value":"'' @ value @ ''","data":"'' @ selector @ bin2hex encoded @ gas @ ''"}'') call_id))))
         else succeed (Inr (request ''eth_sendRawTransaction'' (''"0x'' @ params @ ''"'') call_id)))\<close>

definition call ::
  "(string \<Rightarrow> string) \<Rightarrow> secp256k1 \<Rightarrow> json_lib \<Rightarrow> (nat \<Rightarrow> char) \<Rightarrow> integers \<Rightarrow> (string \<Rightarrow> string \<Rightarrow> curl_result) \<Rightarrow> eth_contract \<Rightarrow>
   string \<Rightarrow> string \<Rightarrow> string \<Rightarrow> string \<Rightarrow> string \<Rightarrow> string \<Rightarrow> eth_contract \<times> status outcome" where
  "call hash L J junk I post c fname params private_key value gas_price gas_limit =
     (let (c, call_id) = get_next_call_id c
      in (c,
          case map_of (c_signatures c) fname of
            None \<Rightarrow> succeed (status_invalid_argument ''Function signature is not found!'')
          | Some (selector, is_transaction) \<Rightarrow>
              (case map_of (c_inputs c) fname of
                 None \<Rightarrow> succeed (status_invalid_argument ''Function signature is not found in function_inputs!'')
               | Some ins \<Rightarrow>
                   and_then (call_data hash L J junk I c call_id selector is_transaction ins params private_key value
                       gas_price gas_limit) (\<lambda>r.
                   case r of
                     Inl s \<Rightarrow> succeed s
                   | Inr data \<Rightarrow>
                       and_then (curl_post J post (c_server c) data call_id) (\<lambda>s.
                       if code s = OK then
                         (if \<not> is_transaction then decode_function_result J I c fname (msg s)
                          else eth_getTransactionReceipt J post (c_server c) (msg s))
                       else succeed s)))))"

section \<open>Properties\<close>

text \<open>a response is accepted only when it is JSON with the identifier of the request, no error and a result; the
  message of an accepted response is the result, as it is when it is a text and as JSON otherwise.\<close>

theorem accepted_response:
  "(\<exists>s. handle_result J message call_id = succeed s \<and> code s = OK \<and> msg s = m) \<longleftrightarrow>
   (\<exists>j n r. jparse J message = Some j \<and> find_key j ''id'' = Some (Number n) \<and> nat (n mod 2 ^ 32) = call_id \<and>
      find_key j ''error'' = None \<and> find_key j ''result'' = Some r \<and> m = (case r of Text t \<Rightarrow> t | _ \<Rightarrow> jdump J r))"
  by (auto simp: handle_result_def succeed_def status_internal_def status_ok_msg_def Let_def split: option.splits json.splits)

text \<open>The request of a call that changes nothing.\<close>

definition view_request :: "eth_contract \<Rightarrow> string \<Rightarrow> string \<Rightarrow> nat \<Rightarrow> string \<Rightarrow> string \<Rightarrow> string" where
  \<open>view_request c selector encoded call_id price limit =
     ''{"jsonrpc":"2.0","method":"eth_call","params":[{ "to":"'' @ c_address c @ ''","data":"'' @ selector @ bin2hex encoded @
     ''","gas":"0x'' @ (if limit \<noteq> [] then limit else c_gas_limit c) @
     ''","gasPrice":"0x'' @ (if price \<noteq> [] then price else c_gas_price c) @ ''"},"latest"],"id":'' @ to_string call_id @ ''}''\<close>

lemma hex2bin_0x: "hex2bin (if prefix ''0x'' (''0x'' @ bin2hex b) then drop 2 (''0x'' @ bin2hex b) else ''0x'' @ bin2hex b) = return b"
  using hex2bin_pairs_bin2hex [of b] by (simp add: hex2bin_even_pairs)


text \<open>A contract with one function from the arguments of \<open>example_args\<close> to the same types, and a server that gives them back.\<close>

definition echo_contract :: eth_contract where
  "echo_contract = \<lparr>c_call_ids = 0, c_gas_limit = ''5B8D80'', c_gas_price = ''1388'', c_server = ''url'', c_address = ''0xA'',
     c_signatures = [(''echo'', ''0x01020304'', False)], c_inputs = [(''echo'', ''types'')], c_outputs = [(''echo'', ''types'')]\<rparr>"

definition echo_json :: json_lib where
  "echo_json = \<lparr>jparse = (\<lambda>s. if s = ''answer'' then
       Some (Object [(''jsonrpc'', Text ''2.0''), (''id'', Number 1), (''result'', Text (''0x'' @ bin2hex (enc_args decimal_integers example_args)))])
     else example_parse s), jwhat = (\<lambda>_. []), jdump = (\<lambda>_. [])\<rparr>"


end
