(* ===== verification/Proto_Types.thy ===== *)
theory Proto_Types
  imports Prelude "HOL-Library.Word"
begin

text \<open>
  Data of the protocol buffers layer, \<^verbatim>\<open>core/data/schema.h\<close> and \<^verbatim>\<open>core/data/protobuf/\<close>: the field types and
  field descriptions of the repository, the descriptors and descriptor messages of the protocol buffers
  library as far as the repository reads or writes them, and the interface of that library.

  The library is not part of the repository. What the repository calls of it is the record \<open>protobuf\<close> of
  functions below, an argument of every definition that uses it; messages (\<open>'m\<close>) and descriptor pools (\<open>'p\<close>)
  are abstract. A reflection call on a field of another type, of another label or of another message aborts the
  process, so these functions have an option result. The laws the properties rely on are the predicates of
  the theory \<open>Proto_Laws\<close>.
\<close>

section \<open>Schemas\<close>

datatype field_type =
    unknown
  | message_type
  | enum_type
  | blob
  | int32
  | int64
  | uint32
  | uint64
  | boolean

text \<open>Tags are \<^verbatim>\<open>uint32_t\<close>; the library takes them as \<^verbatim>\<open>int\<close>, which reads the same 32 bits as a signed number.\<close>

type_synonym tag = "32 word"

record field_info =
  fi_tag :: tag
  fi_type :: field_type
  fi_name :: string
  fi_fully_qualified_type :: string
  fi_is_repeated :: bool

fun type_name :: "field_type \<Rightarrow> string" where
  "type_name unknown = ''unknown''"
| "type_name message_type = ''message''"
| "type_name enum_type = ''enum''"
| "type_name blob = ''blob''"
| "type_name int32 = ''int32''"
| "type_name int64 = ''int64''"
| "type_name uint32 = ''uint32''"
| "type_name uint64 = ''uint64''"
| "type_name boolean = ''bool''"

text \<open>The number of an enumerator, which an output stream prints for a \<open>field_type\<close>.\<close>

fun field_type_number :: "field_type \<Rightarrow> nat" where
  "field_type_number unknown = 0"
| "field_type_number message_type = 1"
| "field_type_number enum_type = 2"
| "field_type_number blob = 4"
| "field_type_number int32 = 5"
| "field_type_number int64 = 6"
| "field_type_number uint32 = 7"
| "field_type_number uint64 = 8"
| "field_type_number boolean = 9"

section \<open>Descriptors of the library\<close>

text \<open>The types of a field: the one written in the schema and the C++ type that represents it.\<close>

datatype proto_type =
    TYPE_DOUBLE | TYPE_FLOAT | TYPE_INT64 | TYPE_UINT64 | TYPE_INT32 | TYPE_FIXED64 | TYPE_FIXED32
  | TYPE_BOOL | TYPE_STRING | TYPE_GROUP | TYPE_MESSAGE | TYPE_BYTES | TYPE_UINT32 | TYPE_ENUM
  | TYPE_SFIXED32 | TYPE_SFIXED64 | TYPE_SINT32 | TYPE_SINT64

datatype cpp_type =
    CPPTYPE_INT32 | CPPTYPE_INT64 | CPPTYPE_UINT32 | CPPTYPE_UINT64 | CPPTYPE_DOUBLE | CPPTYPE_FLOAT
  | CPPTYPE_BOOL | CPPTYPE_ENUM | CPPTYPE_STRING | CPPTYPE_MESSAGE

datatype proto_label = LABEL_OPTIONAL | LABEL_REQUIRED | LABEL_REPEATED

record enum_value_descriptor =
  evd_name :: string
  evd_number :: int

record enum_descriptor =
  ed_full_name :: string
  ed_values :: "enum_value_descriptor list"

text \<open>Of the message type of a field only its full name is read.\<close>

record field_descriptor =
  fd_number :: int
  fd_name :: string
  fd_type :: proto_type
  fd_cpp_type :: cpp_type
  fd_is_repeated :: bool
  fd_is_map :: bool
  fd_message_type :: string
  fd_enum_type :: enum_descriptor

datatype descriptor = Descriptor
  (d_name: string)
  (d_full_name: string)
  (d_fields: "field_descriptor list")
  (d_nested_types: "descriptor list")
  (d_enum_types: "enum_descriptor list")
  (d_oneof_decl_count: nat)

record file_descriptor =
  f_message_types :: "descriptor list"
  f_enum_types :: "enum_descriptor list"

text \<open>
  The descriptor messages a schema is written in. A type that was never set reads as \<open>TYPE_DOUBLE\<close>, a label
  as \<open>LABEL_OPTIONAL\<close>, a number as zero.
\<close>

record enum_value_proto =
  evp_name :: string
  evp_number :: int

record enum_proto =
  ep_name :: string
  ep_value :: "enum_value_proto list"

record field_proto =
  fp_name :: string
  fp_type :: proto_type
  fp_number :: int
  fp_label :: proto_label
  fp_type_name :: string

definition new_field :: field_proto where
  "new_field = \<lparr>fp_name = [], fp_type = TYPE_DOUBLE, fp_number = 0, fp_label = LABEL_OPTIONAL, fp_type_name = []\<rparr>"

datatype descriptor_proto = Message_Proto
  (dp_name: string)
  (dp_field: "field_proto list")
  (dp_nested_type: "descriptor_proto list")
  (dp_enum_type: "enum_proto list")

record file_proto =
  fpr_name :: string
  fpr_package :: string
  fpr_syntax :: string
  fpr_dependency :: "string list"
  fpr_message_type :: "descriptor_proto list"
  fpr_enum_type :: "enum_proto list"

definition new_file_proto :: file_proto where
  "new_file_proto = \<lparr>fpr_name = [], fpr_package = [], fpr_syntax = [], fpr_dependency = [],
     fpr_message_type = [], fpr_enum_type = []\<rparr>"

section \<open>The interface of the library\<close>

text \<open>What the library reports to an error collector: errors and warnings.\<close>

datatype build_report =
    Build_Error (rep_file: string) (rep_element: string) (rep_message: string)
  | Build_Warning (rep_file: string) (rep_element: string) (rep_message: string)

datatype parse_report =
    Parse_Error (rep_line: int) (rep_column: int) (rep_text: string)
  | Parse_Warning (rep_line: int) (rep_column: int) (rep_text: string)

text \<open>The five reflection calls there are for a type of values.\<close>

record ('m, 'v) accessors =
  Get :: "'m \<Rightarrow> field_descriptor \<Rightarrow> 'v option"
  Set :: "'m \<Rightarrow> field_descriptor \<Rightarrow> 'v \<Rightarrow> 'm option"
  GetRepeated :: "'m \<Rightarrow> field_descriptor \<Rightarrow> int \<Rightarrow> 'v option"
  SetRepeated :: "'m \<Rightarrow> field_descriptor \<Rightarrow> int \<Rightarrow> 'v \<Rightarrow> 'm option"
  Add :: "'m \<Rightarrow> field_descriptor \<Rightarrow> 'v \<Rightarrow> 'm option"

text \<open>
  \<open>MutableRepeatedMessage\<close> returns a pointer into the message; it is given here the function the repository
  applies to the pointer's target. \<open>BuildFileCollectingErrors\<close> returns the pool afterwards, the file (or a null
  pointer) and what it reported; \<open>Tokenizer\<close> and \<open>Parse\<close> are given the text of a \<^verbatim>\<open>.proto\<close> file.
\<close>

record ('m, 'p) protobuf =
  FindFieldByNumber :: "descriptor \<Rightarrow> int \<Rightarrow> field_descriptor option"
  FindFieldByName :: "descriptor \<Rightarrow> string \<Rightarrow> field_descriptor option"
  FindValueByNumber :: "enum_descriptor \<Rightarrow> int \<Rightarrow> enum_value_descriptor option"
  FindValueByName :: "enum_descriptor \<Rightarrow> string \<Rightarrow> enum_value_descriptor option"
  cpp_type_name :: "field_descriptor \<Rightarrow> string"
  GetDescriptor :: "'m \<Rightarrow> descriptor"
  GetTypeName :: "'m \<Rightarrow> string"
  New :: "'m \<Rightarrow> 'm"
  CopyFrom :: "'m \<Rightarrow> 'm \<Rightarrow> 'm"
  FieldSize :: "'m \<Rightarrow> field_descriptor \<Rightarrow> int option"
  HasField :: "'m \<Rightarrow> field_descriptor \<Rightarrow> bool option"
  String_calls :: "('m, string) accessors"
  Int32_calls :: "('m, 32 word) accessors"
  UInt32_calls :: "('m, 32 word) accessors"
  Int64_calls :: "('m, 64 word) accessors"
  UInt64_calls :: "('m, 64 word) accessors"
  Bool_calls :: "('m, bool) accessors"
  EnumValue_calls :: "('m, int) accessors"
  GetMessage :: "'m \<Rightarrow> field_descriptor \<Rightarrow> 'm option"
  SetAllocatedMessage :: "'m \<Rightarrow> 'm \<Rightarrow> field_descriptor \<Rightarrow> 'm option"
  GetRepeatedMessage :: "'m \<Rightarrow> field_descriptor \<Rightarrow> int \<Rightarrow> 'm option"
  MutableRepeatedMessage :: "'m \<Rightarrow> field_descriptor \<Rightarrow> int \<Rightarrow> ('m \<Rightarrow> 'm) \<Rightarrow> 'm option"
  AddAllocatedMessage :: "'m \<Rightarrow> field_descriptor \<Rightarrow> 'm \<Rightarrow> 'm option"
  SerializeToString :: "'m \<Rightarrow> string \<times> bool"
  ParseFromString :: "'m \<Rightarrow> string \<Rightarrow> 'm \<times> bool"
  MessageToJsonString :: "'m \<Rightarrow> string \<times> bool"
  JsonStringToMessage :: "string \<Rightarrow> 'm \<Rightarrow> 'm \<times> bool"
  DebugString :: "'m \<Rightarrow> string"
  GetPrototype :: "descriptor \<Rightarrow> 'm"
  NewPool :: 'p
  FindFileByName :: "'p \<Rightarrow> string \<Rightarrow> bool"
  BuildFileCollectingErrors ::
    "'p \<Rightarrow> file_proto \<Rightarrow> 'p \<times> file_descriptor option \<times> build_report list"
  Tokenizer :: "string \<Rightarrow> parse_report list"
  Parse :: "string \<Rightarrow> file_proto \<Rightarrow> file_proto \<times> parse_report list"
  FileToJsonString :: "file_proto \<Rightarrow> string \<times> bool"
  JsonStringToFile :: "string \<Rightarrow> file_proto \<Rightarrow> file_proto \<times> bool"

section \<open>Objects of the repository\<close>

text \<open>
  The two classes refer to each other: a message keeps its factory, which is shared and passed to the operations
  that use it, and the number of its schema; the pointer \<^verbatim>\<open>m\<close> may be null.
\<close>

record 'm protobuf_msg =
  pm_m :: "'m option"
  pm_schema_id :: nat

record ('m, 'p) protobuf_factory =
  fa_pool :: 'p
  fa_schemas_names :: "string \<rightharpoonup> nat"
  fa_schemas :: "'m list"
  fa_enums_names :: "string \<rightharpoonup> nat"
  fa_enums :: "enum_descriptor list"

text \<open>\<open>messages\<close> and \<open>enums\<close> hold the descriptors under construction; none of their pointers is ever null.\<close>

record protobuf_schema =
  ps_file_descriptor_proto :: file_proto
  ps_messages :: "descriptor_proto list"
  ps_enums :: "enum_proto list"

end
