(* ===== verification/Proto_Factory.thy ===== *)
theory Proto_Factory
  imports Proto_Schema
begin

text \<open>
  The message factory, \<^verbatim>\<open>core/data/protobuf/protobuf_factory.cc\<close>: schemas are built in the descriptor pool of the
  library, checked for types the repository does not support, and their messages and enumerations, nested
  ones included, get numbers and names. Sizes are below \<^verbatim>\<open>2^32\<close>, so numbers are natural numbers. This
  theory holds the definitions.
\<close>

section \<open>Types\<close>

fun protobuf_type_to_type :: "proto_type \<Rightarrow> field_type option" where
  "protobuf_type_to_type TYPE_STRING = Some blob"
| "protobuf_type_to_type TYPE_BYTES = Some blob"
| "protobuf_type_to_type TYPE_BOOL = Some boolean"
| "protobuf_type_to_type TYPE_INT32 = Some int32"
| "protobuf_type_to_type TYPE_SINT32 = Some int32"
| "protobuf_type_to_type TYPE_SFIXED32 = Some int32"
| "protobuf_type_to_type TYPE_INT64 = Some int64"
| "protobuf_type_to_type TYPE_SINT64 = Some int64"
| "protobuf_type_to_type TYPE_SFIXED64 = Some int64"
| "protobuf_type_to_type TYPE_UINT32 = Some uint32"
| "protobuf_type_to_type TYPE_FIXED32 = Some uint32"
| "protobuf_type_to_type TYPE_UINT64 = Some uint64"
| "protobuf_type_to_type TYPE_FIXED64 = Some uint64"
| "protobuf_type_to_type TYPE_ENUM = Some enum_type"
| "protobuf_type_to_type TYPE_MESSAGE = Some message_type"
| "protobuf_type_to_type _ = None"

fun protobuf_ccptype_to_type :: "cpp_type \<Rightarrow> field_type option" where
  "protobuf_ccptype_to_type CPPTYPE_STRING = Some blob"
| "protobuf_ccptype_to_type CPPTYPE_BOOL = Some boolean"
| "protobuf_ccptype_to_type CPPTYPE_INT32 = Some int32"
| "protobuf_ccptype_to_type CPPTYPE_UINT32 = Some uint32"
| "protobuf_ccptype_to_type CPPTYPE_INT64 = Some int64"
| "protobuf_ccptype_to_type CPPTYPE_UINT64 = Some uint64"
| "protobuf_ccptype_to_type CPPTYPE_ENUM = Some enum_type"
| "protobuf_ccptype_to_type CPPTYPE_MESSAGE = Some message_type"
| "protobuf_ccptype_to_type _ = None"

text \<open>\<^verbatim>\<open>std::map::at\<close>.\<close>

definition map_at :: "'v option \<Rightarrow> 'v outcome" where
  "map_at v = (case v of None \<Rightarrow> Some (throw (Out_of_range ''map::at'')) | Some x \<Rightarrow> succeed x)"

section \<open>Errors of the descriptor pool\<close>

text \<open>\<open>proto_error_collector\<close>: here warnings are counted as well.\<close>

record proto_error_collector =
  pe_errors_number :: nat
  pe_errors_list :: string

definition proto_errors_new :: proto_error_collector where
  "proto_errors_new = \<lparr>pe_errors_number = 0, pe_errors_list = []\<rparr>"

fun proto_report :: "build_report \<Rightarrow> proto_error_collector \<Rightarrow> proto_error_collector" where
  "proto_report (Build_Error sch element_name message) c =
     c\<lparr>pe_errors_number := pe_errors_number c + 1,
       pe_errors_list := pe_errors_list c @ ''Error: schema: '' @ sch @ '' <'' @ element_name @
         ''> error message:'' @ message @ endl\<rparr>"
| "proto_report (Build_Warning sch element_name message) c =
     c\<lparr>pe_errors_number := pe_errors_number c + 1,
       pe_errors_list := pe_errors_list c @ ''Warning: schema: '' @ sch @ '' <'' @ element_name @
         ''> error message:'' @ message @ endl\<rparr>"

section \<open>Import\<close>

definition new_factory :: "('m, 'p) protobuf \<Rightarrow> ('m, 'p) protobuf_factory" where
  "new_factory pb = \<lparr>fa_pool = NewPool pb, fa_schemas_names = Map.empty, fa_schemas = [],
     fa_enums_names = Map.empty, fa_enums = []\<rparr>"

text \<open>The two pairs of statements that number and name a message or an enumeration.\<close>

definition push_schema ::
  "('m, 'p) protobuf \<Rightarrow> descriptor \<Rightarrow> ('m, 'p) protobuf_factory \<Rightarrow> ('m, 'p) protobuf_factory" where
  "push_schema pb desc fa =
     (let ss = fa_schemas fa @ [GetPrototype pb desc]
      in fa\<lparr>fa_schemas := ss,
            fa_schemas_names := (fa_schemas_names fa)(d_full_name desc \<mapsto> length ss - 1)\<rparr>)"

definition push_enum :: "enum_descriptor \<Rightarrow> ('m, 'p) protobuf_factory \<Rightarrow> ('m, 'p) protobuf_factory" where
  "push_enum edesc fa =
     (let es = fa_enums fa @ [edesc]
      in fa\<lparr>fa_enums := es, fa_enums_names := (fa_enums_names fa)(ed_full_name edesc \<mapsto> length es - 1)\<rparr>)"

fun extract_nested_messages ::
  "('m, 'p) protobuf \<Rightarrow> descriptor \<Rightarrow> ('m, 'p) protobuf_factory \<Rightarrow> ('m, 'p) protobuf_factory" where
  "extract_nested_messages pb (Descriptor nm full fs ns es oc) fa =
     fold (\<lambda>desc fa. extract_nested_messages pb desc (push_schema pb desc fa)) ns fa"

fun extract_nested_enums :: "descriptor \<Rightarrow> ('m, 'p) protobuf_factory \<Rightarrow> ('m, 'p) protobuf_factory" where
  "extract_nested_enums (Descriptor nm full fs ns es oc) fa =
     fold extract_nested_enums ns (fold push_enum es fa)"

definition unsupported_field :: "field_descriptor \<Rightarrow> bool" where
  "unsupported_field fd \<longleftrightarrow> fd_is_map fd \<or> protobuf_type_to_type (fd_type fd) = None"

fun contain_invalid_data :: "descriptor \<Rightarrow> bool" where
  "contain_invalid_data (Descriptor nm full fs ns es oc) =
     (if oc > 0 then True
      else if list_ex unsupported_field fs then True
      else fold (\<lambda>desc ans. ans \<or> contain_invalid_data desc) ns False)"

definition import_message ::
  "('m, 'p) protobuf \<Rightarrow> descriptor \<Rightarrow> ('m, 'p) protobuf_factory \<Rightarrow> ('m, 'p) protobuf_factory" where
  "import_message pb desc fa =
     extract_nested_enums desc (extract_nested_messages pb desc (push_schema pb desc fa))"

text \<open>
  The result has the factory and the file descriptor afterwards, both changed before some of the
  exceptions. A null file without a report would be dereferenced.
\<close>

definition import_from_file_proto ::
  "('m, 'p) protobuf \<Rightarrow> file_proto \<Rightarrow> string \<Rightarrow> string \<Rightarrow> ('m, 'p) protobuf_factory \<Rightarrow>
   (('m, 'p) protobuf_factory \<times> file_proto \<times> unit throws) option" where
  "import_from_file_proto pb fdp name package fa =
     (let fdp = fdp\<lparr>fpr_package := package, fpr_name := name\<rparr>
      in if FindFileByName pb (fa_pool fa) name
         then Some (fa, fdp, throw (Runtime_error (''File with name <'' @ name @ ''> already exists.'')))
         else case find (\<lambda>dep. \<not> FindFileByName pb (fa_pool fa) dep) (fpr_dependency fdp) of
           Some dep \<Rightarrow>
             Some (fa, fdp, throw (Runtime_error (''Dependency <'' @ dep @ ''> was not found. Import it first.'')))
         | None \<Rightarrow>
             (let (pool, fd, reports) = BuildFileCollectingErrors pb (fa_pool fa) fdp;
                  fa = fa\<lparr>fa_pool := pool\<rparr>;
                  c = fold proto_report reports proto_errors_new
              in if pe_errors_number c > 0
                 then Some (fa, fdp,
                        throw (Runtime_error (''Errors while parsing:'' @ endl @ pe_errors_list c)))
                 else case fd of
                   None \<Rightarrow> None
                 | Some fd \<Rightarrow>
                     (case find contain_invalid_data (f_message_types fd) of
                        Some desc \<Rightarrow>
                          Some (fa, fdp, throw (Runtime_error
                            (''Message contains invalid field type! Invalid data in descriptor: '' @ d_name desc)))
                      | None \<Rightarrow>
                          Some (fold push_enum (f_enum_types fd)
                                  (fold (import_message pb) (f_message_types fd) fa), fdp, return ()))))"

text \<open>The JSON text of the schema is computed and not used.\<close>

definition import_schema ::
  "('m, 'p) protobuf \<Rightarrow> protobuf_schema \<Rightarrow> string \<Rightarrow> string \<Rightarrow> ('m, 'p) protobuf_factory \<Rightarrow>
   (('m, 'p) protobuf_factory \<times> protobuf_schema \<times> unit throws) option" where
  "import_schema pb s name package fa =
     map_option (\<lambda>(fa, fdp, r). (fa, s\<lparr>ps_file_descriptor_proto := fdp\<rparr>, r))
       (import_from_file_proto pb (ps_file_descriptor_proto s) name package fa)"

section \<open>Queries\<close>

text \<open>\<open>CHECK_LT\<close> of a schema or enumeration number, and the element.\<close>

definition checked_schema :: "('m, 'p) protobuf_factory \<Rightarrow> nat \<Rightarrow> 'm outcome" where
  "checked_schema fa schema_id = map_option Inr (vec_get (fa_schemas fa) schema_id)"

definition checked_enum :: "('m, 'p) protobuf_factory \<Rightarrow> nat \<Rightarrow> enum_descriptor outcome" where
  "checked_enum fa enum_id = map_option Inr (vec_get (fa_enums fa) enum_id)"

definition get_schema_id :: "('m, 'p) protobuf_factory \<Rightarrow> string \<Rightarrow> nat throws" where
  "get_schema_id fa message_name =
     (case fa_schemas_names fa message_name of
        None \<Rightarrow> throw (Invalid_argument (''No schema '' @ [CHR 0x27] @ message_name @ [CHR 0x27]))
      | Some i \<Rightarrow> return i)"

definition new_message_by_id ::
  "('m, 'p) protobuf \<Rightarrow> ('m, 'p) protobuf_factory \<Rightarrow> nat \<Rightarrow> 'm protobuf_msg outcome" where
  "new_message_by_id pb fa schema_id =
     and_then (checked_schema fa schema_id)
       (\<lambda>s. succeed \<lparr>pm_m = Some (New pb s), pm_schema_id = schema_id\<rparr>)"

definition new_message_by_name ::
  "('m, 'p) protobuf \<Rightarrow> ('m, 'p) protobuf_factory \<Rightarrow> string \<Rightarrow> 'm protobuf_msg outcome" where
  "new_message_by_name pb fa schema_name =
     and_then (Some (get_schema_id fa schema_name)) (new_message_by_id pb fa)"

definition get_schemas_number :: "('m, 'p) protobuf_factory \<Rightarrow> nat" where
  "get_schemas_number fa = length (fa_schemas fa)"

definition get_enums_number :: "('m, 'p) protobuf_factory \<Rightarrow> nat" where
  "get_enums_number fa = length (fa_enums fa)"

definition get_enum_id :: "('m, 'p) protobuf_factory \<Rightarrow> string \<Rightarrow> nat throws" where
  "get_enum_id fa enum_name =
     (case fa_enums_names fa enum_name of
        None \<Rightarrow> throw (Invalid_argument (''No enum '' @ [CHR 0x27] @ enum_name @ [CHR 0x27]))
      | Some i \<Rightarrow> return i)"

definition get_enum_value ::
  "('m, 'p) protobuf \<Rightarrow> ('m, 'p) protobuf_factory \<Rightarrow> nat \<Rightarrow> string \<Rightarrow> int outcome" where
  "get_enum_value pb fa enum_id value_name =
     and_then (checked_enum fa enum_id) (\<lambda>e.
       case FindValueByName pb e value_name of
         None \<Rightarrow> Some (throw (Invalid_argument (''No enum value '' @ value_name)))
       | Some evd \<Rightarrow> succeed (evd_number evd))"

definition get_enum_values :: "('m, 'p) protobuf_factory \<Rightarrow> nat \<Rightarrow> (string \<times> int) list outcome" where
  "get_enum_values fa enum_id =
     and_then (checked_enum fa enum_id) (\<lambda>e.
       succeed (map (\<lambda>evd. (evd_name evd, evd_number evd)) (ed_values e)))"

definition get_fields_number ::
  "('m, 'p) protobuf \<Rightarrow> ('m, 'p) protobuf_factory \<Rightarrow> nat \<Rightarrow> nat outcome" where
  "get_fields_number pb fa schema_id =
     and_then (checked_schema fa schema_id) (\<lambda>s. succeed (length (d_fields (GetDescriptor pb s))))"

text \<open>The exception for a tag that no field has, thrown by every operation that looks up a tag.\<close>

definition no_field_with_tag :: "tag \<Rightarrow> exn" where
  "no_field_with_tag field_tag = Invalid_argument (''No field with tag: '' @ to_string (unat field_tag))"

definition is_repeated ::
  "('m, 'p) protobuf \<Rightarrow> ('m, 'p) protobuf_factory \<Rightarrow> nat \<Rightarrow> tag \<Rightarrow> bool outcome" where
  "is_repeated pb fa schema_id field_tag =
     and_then (checked_schema fa schema_id) (\<lambda>s.
       case FindFieldByNumber pb (GetDescriptor pb s) (sint field_tag) of
         Some fdesc \<Rightarrow> succeed (fd_is_repeated fdesc)
       | None \<Rightarrow> Some (throw (no_field_with_tag field_tag)))"

definition get_nested_messages_number ::
  "('m, 'p) protobuf \<Rightarrow> ('m, 'p) protobuf_factory \<Rightarrow> nat \<Rightarrow> nat outcome" where
  "get_nested_messages_number pb fa schema_id =
     and_then (checked_schema fa schema_id) (\<lambda>s. succeed (length (d_nested_types (GetDescriptor pb s))))"

text \<open>The index is not checked; past the end \<^verbatim>\<open>nested_type\<close> is undefined.\<close>

definition get_nested_message_schema_id ::
  "('m, 'p) protobuf \<Rightarrow> ('m, 'p) protobuf_factory \<Rightarrow> nat \<Rightarrow> nat \<Rightarrow> nat outcome" where
  "get_nested_message_schema_id pb fa schema_id index =
     and_then (checked_schema fa schema_id) (\<lambda>s.
       case vec_get (d_nested_types (GetDescriptor pb s)) index of
         None \<Rightarrow> None
       | Some desc \<Rightarrow> Some (get_schema_id fa (d_full_name desc)))"

text \<open>The description of a field, made the same way from an index and from a tag.\<close>

definition field_info_of :: "field_descriptor \<Rightarrow> field_info outcome" where
  "field_info_of fdesc =
     (let info = (\<lambda>t full_type. \<lparr>fi_tag = word_of_int (fd_number fdesc), fi_type = t, fi_name = fd_name fdesc,
            fi_fully_qualified_type = full_type, fi_is_repeated = fd_is_repeated fdesc\<rparr>)
      in if fd_cpp_type fdesc = CPPTYPE_MESSAGE then succeed (info message_type (fd_message_type fdesc))
         else if fd_cpp_type fdesc = CPPTYPE_ENUM
         then succeed (info enum_type (ed_full_name (fd_enum_type fdesc)))
         else and_then (map_at (protobuf_ccptype_to_type (fd_cpp_type fdesc))) (\<lambda>t. succeed (info t [])))"

definition get_field_info ::
  "('m, 'p) protobuf \<Rightarrow> ('m, 'p) protobuf_factory \<Rightarrow> nat \<Rightarrow> nat \<Rightarrow> field_info outcome" where
  "get_field_info pb fa schema_id index =
     and_then (checked_schema fa schema_id) (\<lambda>s.
       let desc = GetDescriptor pb s
       in if index \<ge> length (d_fields desc)
          then Some (throw (Out_of_range (''No field with such index: '' @ to_string index)))
          else field_info_of (d_fields desc ! index))"

definition get_schema_name ::
  "('m, 'p) protobuf \<Rightarrow> ('m, 'p) protobuf_factory \<Rightarrow> nat \<Rightarrow> string outcome" where
  "get_schema_name pb fa schema_id =
     and_then (checked_schema fa schema_id) (\<lambda>s. succeed (GetTypeName pb s))"

definition get_field_type ::
  "('m, 'p) protobuf \<Rightarrow> ('m, 'p) protobuf_factory \<Rightarrow> nat \<Rightarrow> tag \<Rightarrow> string outcome" where
  "get_field_type pb fa schema_id field_tag =
     and_then (checked_schema fa schema_id) (\<lambda>s.
       case FindFieldByNumber pb (GetDescriptor pb s) (sint field_tag) of
         None \<Rightarrow> Some (throw (no_field_with_tag field_tag))
       | Some fdesc \<Rightarrow>
           (let res = cpp_type_name pb fdesc
            in succeed (if res = ''string'' then ''blob'' else if res = ''bool'' then ''boolean'' else res)))"

definition get_message_field_type ::
  "('m, 'p) protobuf \<Rightarrow> ('m, 'p) protobuf_factory \<Rightarrow> nat \<Rightarrow> tag \<Rightarrow> string outcome" where
  "get_message_field_type pb fa schema_id field_tag =
     and_then (checked_schema fa schema_id) (\<lambda>s.
       case FindFieldByNumber pb (GetDescriptor pb s) (sint field_tag) of
         None \<Rightarrow> Some (throw (no_field_with_tag field_tag))
       | Some fdesc \<Rightarrow>
           if fd_cpp_type fdesc \<noteq> CPPTYPE_MESSAGE
           then Some (throw (Invalid_argument ''Field is not message!''))
           else succeed (fd_message_type fdesc))"

definition get_enum_field_type ::
  "('m, 'p) protobuf \<Rightarrow> ('m, 'p) protobuf_factory \<Rightarrow> nat \<Rightarrow> tag \<Rightarrow> string outcome" where
  "get_enum_field_type pb fa schema_id field_tag =
     and_then (checked_schema fa schema_id) (\<lambda>s.
       case FindFieldByNumber pb (GetDescriptor pb s) (sint field_tag) of
         None \<Rightarrow> Some (throw (no_field_with_tag field_tag))
       | Some fdesc \<Rightarrow>
           if fd_cpp_type fdesc \<noteq> CPPTYPE_ENUM
           then Some (throw (Invalid_argument ''Field is not enum!''))
           else succeed (ed_full_name (fd_enum_type fdesc)))"

definition no_field_with_name :: "string \<Rightarrow> exn" where
  "no_field_with_name name = Invalid_argument (''No field with name: '' @ name)"

definition get_field_tag ::
  "('m, 'p) protobuf \<Rightarrow> ('m, 'p) protobuf_factory \<Rightarrow> nat \<Rightarrow> string \<Rightarrow> tag outcome" where
  "get_field_tag pb fa schema_id name =
     and_then (checked_schema fa schema_id) (\<lambda>s.
       case FindFieldByName pb (GetDescriptor pb s) name of
         None \<Rightarrow> Some (throw (no_field_with_name name))
       | Some fdesc \<Rightarrow> succeed (word_of_int (fd_number fdesc)))"

section \<open>Output\<close>

definition dump_field_descriptor :: "field_descriptor \<Rightarrow> string outcome" where
  "dump_field_descriptor fd =
     and_then
       (if fd_cpp_type fd = CPPTYPE_MESSAGE then succeed (''message type: '' @ fd_message_type fd @ endl)
        else if fd_cpp_type fd = CPPTYPE_ENUM then succeed (''enum type: '' @ ed_full_name (fd_enum_type fd) @ endl)
        else and_then (map_at (protobuf_type_to_type (fd_type fd)))
               (\<lambda>t. succeed (to_string (field_type_number t) @ endl)))
       (\<lambda>ty. succeed (endl @ tabulator @ ''Name: '' @ fd_name fd @ endl @ tabulator @ ''Type: '' @ ty @
          tabulator @ ''Repeated: '' @ (if fd_is_repeated fd then ''YES'' else ''NO'') @ endl @
          tabulator @ ''Tag: '' @ int_to_string (fd_number fd) @ endl @ endl))"

fun dump_fields :: "field_descriptor list \<Rightarrow> string \<Rightarrow> string outcome" where
  "dump_fields [] out = succeed out"
| "dump_fields (fd # fds) out =
     and_then (dump_field_descriptor fd) (\<lambda>s. dump_fields fds (out @ s))"

definition dump_message_schema ::
  "('m, 'p) protobuf \<Rightarrow> ('m, 'p) protobuf_factory \<Rightarrow> nat \<Rightarrow> string outcome" where
  "dump_message_schema pb fa schema_id =
     and_then (checked_schema fa schema_id) (\<lambda>s.
       let desc = GetDescriptor pb s
       in and_then (dump_fields (d_fields desc)
                     (''MessageType: '' @ d_full_name desc @ '' {'' @ endl @ ''Fields: '' @ endl))
            (\<lambda>out. succeed (out @ endl @ ''}'' @ endl)))"

definition dump_enum :: "('m, 'p) protobuf_factory \<Rightarrow> nat \<Rightarrow> string outcome" where
  "dump_enum fa enum_id =
     and_then (checked_enum fa enum_id) (\<lambda>e.
       succeed (ed_full_name e @ '' {'' @ endl @
         concat (map (\<lambda>v. tabulator @ evd_name v @ '' = '' @ int_to_string (evd_number v) @ endl)
           (ed_values e)) @
         ''}'' @ endl))"

end
