(* ===== verification/Proto_Msg.thy ===== *)
theory Proto_Msg
  imports Proto_Factory
begin

text \<open>
  Messages, \<^verbatim>\<open>core/data/protobuf/protobuf_msg.cc\<close>: a wrapper around a message of the library whose accessors
  check the tag, the label and the type of a field before they use the library's reflection. The checks of
  the accessors of single and of repeated fields come in different orders. Every check comes before the message
  is changed, so a throwing operation leaves it as it was. This theory holds the definitions.
\<close>

section \<open>The message\<close>

text \<open>\<open>CHECK_NOTNULL(m)\<close>; every message has a descriptor.\<close>

definition with_m :: "'m protobuf_msg \<Rightarrow> ('m \<Rightarrow> 'a outcome) \<Rightarrow> 'a outcome" where
  "with_m pm f = (case pm_m pm of None \<Rightarrow> None | Some m \<Rightarrow> f m)"

text \<open>A call of the library that does not abort the process returns normally.\<close>

definition called :: "'a option \<Rightarrow> 'a outcome" where
  "called r = map_option Inr r"

definition msg_get_schema_id :: "'m protobuf_msg \<Rightarrow> nat" where
  "msg_get_schema_id pm = pm_schema_id pm"

definition get_message_type :: "('m, 'p) protobuf \<Rightarrow> 'm protobuf_msg \<Rightarrow> string outcome" where
  "get_message_type pb pm = with_m pm (\<lambda>m. succeed (GetTypeName pb m))"

definition serialize_message :: "('m, 'p) protobuf \<Rightarrow> 'm protobuf_msg \<Rightarrow> (string \<times> bool) outcome" where
  "serialize_message pb pm = with_m pm (\<lambda>m. succeed (SerializeToString pb m))"

definition deserialize_message ::
  "('m, 'p) protobuf \<Rightarrow> string \<Rightarrow> 'm protobuf_msg \<Rightarrow> ('m protobuf_msg \<times> bool) outcome" where
  "deserialize_message pb input pm =
     with_m pm (\<lambda>m. let (m', ok) = ParseFromString pb m input in succeed (pm\<lparr>pm_m := Some m'\<rparr>, ok))"

definition msg_to_json :: "('m, 'p) protobuf \<Rightarrow> 'm protobuf_msg \<Rightarrow> (string \<times> bool) outcome" where
  "msg_to_json pb pm = with_m pm (\<lambda>m. succeed (MessageToJsonString pb m))"

definition msg_from_json ::
  "('m, 'p) protobuf \<Rightarrow> string \<Rightarrow> 'm protobuf_msg \<Rightarrow> ('m protobuf_msg \<times> bool) outcome" where
  "msg_from_json pb input pm =
     with_m pm (\<lambda>m. let (m', ok) = JsonStringToMessage pb input m in succeed (pm\<lparr>pm_m := Some m'\<rparr>, ok))"

definition msg_to_string :: "('m, 'p) protobuf \<Rightarrow> 'm protobuf_msg \<Rightarrow> string outcome" where
  "msg_to_string pb pm = with_m pm (\<lambda>m. succeed (DebugString pb m))"

section \<open>Checks\<close>

text \<open>
  The guards of an accessor of a single field: tag, label, type. Those of an accessor of a repeated field: tag,
  type, label. \<open>what\<close> is the type's name in the message of the exception.
\<close>

definition find_field :: "('m, 'p) protobuf \<Rightarrow> 'm \<Rightarrow> tag \<Rightarrow> field_descriptor outcome" where
  "find_field pb m field_tag =
     (case FindFieldByNumber pb (GetDescriptor pb m) (sint field_tag) of
        None \<Rightarrow> Some (throw (no_field_with_tag field_tag))
      | Some fdesc \<Rightarrow> succeed fdesc)"

definition single_field ::
  "('m, 'p) protobuf \<Rightarrow> cpp_type \<Rightarrow> string \<Rightarrow> 'm \<Rightarrow> tag \<Rightarrow> field_descriptor outcome" where
  "single_field pb ty what m field_tag =
     and_then (find_field pb m field_tag) (\<lambda>fdesc.
       if fd_is_repeated fdesc then Some (throw (Invalid_argument ''Field is repeated!''))
       else if fd_cpp_type fdesc \<noteq> ty then Some (throw (Invalid_argument (''Field is not '' @ what @ ''!'')))
       else succeed fdesc)"

definition repeated_field ::
  "('m, 'p) protobuf \<Rightarrow> cpp_type \<Rightarrow> string \<Rightarrow> string \<Rightarrow> 'm \<Rightarrow> tag \<Rightarrow> field_descriptor outcome" where
  "repeated_field pb ty what not_repeated m field_tag =
     and_then (find_field pb m field_tag) (\<lambda>fdesc.
       if fd_cpp_type fdesc \<noteq> ty then Some (throw (Invalid_argument (''Field is not '' @ what @ ''!'')))
       else if \<not> fd_is_repeated fdesc then Some (throw (Invalid_argument not_repeated))
       else succeed fdesc)"

text \<open>\<^verbatim>\<open>index >= 0 && index < reflect->FieldSize(*m, fdesc)\<close>, which asks for the size only when it must.\<close>

definition index_in_field ::
  "('m, 'p) protobuf \<Rightarrow> 'm \<Rightarrow> field_descriptor \<Rightarrow> int \<Rightarrow> bool outcome" where
  "index_in_field pb m fdesc index =
     (if index \<ge> 0 then and_then (called (FieldSize pb m fdesc)) (\<lambda>n. succeed (index < n)) else succeed False)"

definition get_repeated_field_size :: "('m, 'p) protobuf \<Rightarrow> tag \<Rightarrow> 'm protobuf_msg \<Rightarrow> nat outcome" where
  "get_repeated_field_size pb field_tag pm =
     with_m pm (\<lambda>m. and_then (find_field pb m field_tag) (\<lambda>fdesc.
       if \<not> fd_is_repeated fdesc then Some (throw (Invalid_argument ''Field is not repeated!''))
       else and_then (called (FieldSize pb m fdesc)) (\<lambda>n. succeed (nat n))))"

section \<open>Bodies\<close>

text \<open>What the accessors of all scalar types and of enumerations do after their checks.\<close>

definition assign :: "'m protobuf_msg \<Rightarrow> 'm option \<Rightarrow> 'm protobuf_msg outcome" where
  "assign pm r = and_then (called r) (\<lambda>m. succeed (pm\<lparr>pm_m := Some m\<rparr>))"

definition set_single ::
  "('m, 'p) protobuf \<Rightarrow> ('m, 'v) accessors \<Rightarrow> cpp_type \<Rightarrow> string \<Rightarrow> tag \<Rightarrow> 'v \<Rightarrow> 'm protobuf_msg \<Rightarrow>
   'm protobuf_msg outcome" where
  "set_single pb calls ty what field_tag v pm =
     with_m pm (\<lambda>m. and_then (single_field pb ty what m field_tag) (\<lambda>fdesc.
       assign pm (Set calls m fdesc v)))"

definition get_single ::
  "('m, 'p) protobuf \<Rightarrow> ('m, 'v) accessors \<Rightarrow> cpp_type \<Rightarrow> string \<Rightarrow> tag \<Rightarrow> 'm protobuf_msg \<Rightarrow> 'v outcome" where
  "get_single pb calls ty what field_tag pm =
     with_m pm (\<lambda>m. and_then (single_field pb ty what m field_tag) (\<lambda>fdesc. called (Get calls m fdesc)))"

definition put_repeated ::
  "('m, 'p) protobuf \<Rightarrow> ('m, 'v) accessors \<Rightarrow> 'm protobuf_msg \<Rightarrow> 'm \<Rightarrow> field_descriptor \<Rightarrow> 'v \<Rightarrow> int \<Rightarrow>
   'm protobuf_msg outcome" where
  "put_repeated pb calls pm m fdesc v index =
     and_then (index_in_field pb m fdesc index) (\<lambda>inside.
       assign pm (if inside then SetRepeated calls m fdesc index v else Add calls m fdesc v))"

definition set_repeated ::
  "('m, 'p) protobuf \<Rightarrow> ('m, 'v) accessors \<Rightarrow> cpp_type \<Rightarrow> string \<Rightarrow> tag \<Rightarrow> 'v \<Rightarrow> int \<Rightarrow> 'm protobuf_msg \<Rightarrow>
   'm protobuf_msg outcome" where
  "set_repeated pb calls ty what field_tag v index pm =
     with_m pm (\<lambda>m. and_then (repeated_field pb ty what ''Field is not repeated!'' m field_tag) (\<lambda>fdesc.
       put_repeated pb calls pm m fdesc v index))"

definition index_out_of_range :: "int \<Rightarrow> exn" where
  "index_out_of_range index = Out_of_range (''Index out of range: '' @ int_to_string index)"

definition get_repeated ::
  "('m, 'p) protobuf \<Rightarrow> ('m, 'v) accessors \<Rightarrow> cpp_type \<Rightarrow> string \<Rightarrow> tag \<Rightarrow> int \<Rightarrow> 'm protobuf_msg \<Rightarrow>
   'v outcome" where
  "get_repeated pb calls ty what field_tag index pm =
     with_m pm (\<lambda>m. and_then (repeated_field pb ty what ''Field is not repeated!'' m field_tag) (\<lambda>fdesc.
       and_then (index_in_field pb m fdesc index) (\<lambda>inside.
         if inside then called (GetRepeated calls m fdesc index)
         else Some (throw (index_out_of_range index)))))"

section \<open>Accessors of scalar fields\<close>

definition set_blob :: "('m, 'p) protobuf \<Rightarrow> tag \<Rightarrow> string \<Rightarrow> 'm protobuf_msg \<Rightarrow> 'm protobuf_msg outcome" where
  "set_blob pb = set_single pb (String_calls pb) CPPTYPE_STRING ''blob''"

definition get_blob :: "('m, 'p) protobuf \<Rightarrow> tag \<Rightarrow> 'm protobuf_msg \<Rightarrow> string outcome" where
  "get_blob pb = get_single pb (String_calls pb) CPPTYPE_STRING ''blob''"

definition set_repeated_blob ::
  "('m, 'p) protobuf \<Rightarrow> tag \<Rightarrow> string \<Rightarrow> int \<Rightarrow> 'm protobuf_msg \<Rightarrow> 'm protobuf_msg outcome" where
  "set_repeated_blob pb = set_repeated pb (String_calls pb) CPPTYPE_STRING ''blob''"

definition get_repeated_blob :: "('m, 'p) protobuf \<Rightarrow> tag \<Rightarrow> int \<Rightarrow> 'm protobuf_msg \<Rightarrow> string outcome" where
  "get_repeated_blob pb = get_repeated pb (String_calls pb) CPPTYPE_STRING ''blob''"

definition set_int32 :: "('m, 'p) protobuf \<Rightarrow> tag \<Rightarrow> 32 word \<Rightarrow> 'm protobuf_msg \<Rightarrow> 'm protobuf_msg outcome" where
  "set_int32 pb = set_single pb (Int32_calls pb) CPPTYPE_INT32 ''int32''"

definition get_int32 :: "('m, 'p) protobuf \<Rightarrow> tag \<Rightarrow> 'm protobuf_msg \<Rightarrow> 32 word outcome" where
  "get_int32 pb = get_single pb (Int32_calls pb) CPPTYPE_INT32 ''int32''"

definition set_repeated_int32 ::
  "('m, 'p) protobuf \<Rightarrow> tag \<Rightarrow> 32 word \<Rightarrow> int \<Rightarrow> 'm protobuf_msg \<Rightarrow> 'm protobuf_msg outcome" where
  "set_repeated_int32 pb = set_repeated pb (Int32_calls pb) CPPTYPE_INT32 ''int32''"

definition get_repeated_int32 :: "('m, 'p) protobuf \<Rightarrow> tag \<Rightarrow> int \<Rightarrow> 'm protobuf_msg \<Rightarrow> 32 word outcome" where
  "get_repeated_int32 pb = get_repeated pb (Int32_calls pb) CPPTYPE_INT32 ''int32''"

definition set_uint32 :: "('m, 'p) protobuf \<Rightarrow> tag \<Rightarrow> 32 word \<Rightarrow> 'm protobuf_msg \<Rightarrow> 'm protobuf_msg outcome" where
  "set_uint32 pb = set_single pb (UInt32_calls pb) CPPTYPE_UINT32 ''uint32''"

definition get_uint32 :: "('m, 'p) protobuf \<Rightarrow> tag \<Rightarrow> 'm protobuf_msg \<Rightarrow> 32 word outcome" where
  "get_uint32 pb = get_single pb (UInt32_calls pb) CPPTYPE_UINT32 ''uint32''"

definition set_repeated_uint32 ::
  "('m, 'p) protobuf \<Rightarrow> tag \<Rightarrow> 32 word \<Rightarrow> int \<Rightarrow> 'm protobuf_msg \<Rightarrow> 'm protobuf_msg outcome" where
  "set_repeated_uint32 pb = set_repeated pb (UInt32_calls pb) CPPTYPE_UINT32 ''uint32''"

definition get_repeated_uint32 :: "('m, 'p) protobuf \<Rightarrow> tag \<Rightarrow> int \<Rightarrow> 'm protobuf_msg \<Rightarrow> 32 word outcome" where
  "get_repeated_uint32 pb = get_repeated pb (UInt32_calls pb) CPPTYPE_UINT32 ''uint32''"

definition set_int64 :: "('m, 'p) protobuf \<Rightarrow> tag \<Rightarrow> 64 word \<Rightarrow> 'm protobuf_msg \<Rightarrow> 'm protobuf_msg outcome" where
  "set_int64 pb = set_single pb (Int64_calls pb) CPPTYPE_INT64 ''int64''"

definition get_int64 :: "('m, 'p) protobuf \<Rightarrow> tag \<Rightarrow> 'm protobuf_msg \<Rightarrow> 64 word outcome" where
  "get_int64 pb = get_single pb (Int64_calls pb) CPPTYPE_INT64 ''int64''"

definition set_repeated_int64 ::
  "('m, 'p) protobuf \<Rightarrow> tag \<Rightarrow> 64 word \<Rightarrow> int \<Rightarrow> 'm protobuf_msg \<Rightarrow> 'm protobuf_msg outcome" where
  "set_repeated_int64 pb = set_repeated pb (Int64_calls pb) CPPTYPE_INT64 ''int64''"

definition get_repeated_int64 :: "('m, 'p) protobuf \<Rightarrow> tag \<Rightarrow> int \<Rightarrow> 'm protobuf_msg \<Rightarrow> 64 word outcome" where
  "get_repeated_int64 pb = get_repeated pb (Int64_calls pb) CPPTYPE_INT64 ''int64''"

definition set_uint64 :: "('m, 'p) protobuf \<Rightarrow> tag \<Rightarrow> 64 word \<Rightarrow> 'm protobuf_msg \<Rightarrow> 'm protobuf_msg outcome" where
  "set_uint64 pb = set_single pb (UInt64_calls pb) CPPTYPE_UINT64 ''uint64''"

definition get_uint64 :: "('m, 'p) protobuf \<Rightarrow> tag \<Rightarrow> 'm protobuf_msg \<Rightarrow> 64 word outcome" where
  "get_uint64 pb = get_single pb (UInt64_calls pb) CPPTYPE_UINT64 ''uint64''"

definition set_repeated_uint64 ::
  "('m, 'p) protobuf \<Rightarrow> tag \<Rightarrow> 64 word \<Rightarrow> int \<Rightarrow> 'm protobuf_msg \<Rightarrow> 'm protobuf_msg outcome" where
  "set_repeated_uint64 pb = set_repeated pb (UInt64_calls pb) CPPTYPE_UINT64 ''uint64''"

definition get_repeated_uint64 :: "('m, 'p) protobuf \<Rightarrow> tag \<Rightarrow> int \<Rightarrow> 'm protobuf_msg \<Rightarrow> 64 word outcome" where
  "get_repeated_uint64 pb = get_repeated pb (UInt64_calls pb) CPPTYPE_UINT64 ''uint64''"

definition set_boolean :: "('m, 'p) protobuf \<Rightarrow> tag \<Rightarrow> bool \<Rightarrow> 'm protobuf_msg \<Rightarrow> 'm protobuf_msg outcome" where
  "set_boolean pb = set_single pb (Bool_calls pb) CPPTYPE_BOOL ''boolean''"

definition get_boolean :: "('m, 'p) protobuf \<Rightarrow> tag \<Rightarrow> 'm protobuf_msg \<Rightarrow> bool outcome" where
  "get_boolean pb = get_single pb (Bool_calls pb) CPPTYPE_BOOL ''bool''"

definition set_repeated_boolean ::
  "('m, 'p) protobuf \<Rightarrow> tag \<Rightarrow> bool \<Rightarrow> int \<Rightarrow> 'm protobuf_msg \<Rightarrow> 'm protobuf_msg outcome" where
  "set_repeated_boolean pb = set_repeated pb (Bool_calls pb) CPPTYPE_BOOL ''boolean''"

definition get_repeated_boolean :: "('m, 'p) protobuf \<Rightarrow> tag \<Rightarrow> int \<Rightarrow> 'm protobuf_msg \<Rightarrow> bool outcome" where
  "get_repeated_boolean pb = get_repeated pb (Bool_calls pb) CPPTYPE_BOOL ''boolean''"

section \<open>Enumerations\<close>

definition enum_value_known :: "('m, 'p) protobuf \<Rightarrow> field_descriptor \<Rightarrow> int \<Rightarrow> unit outcome" where
  "enum_value_known pb fdesc v =
     (case FindValueByNumber pb (fd_enum_type fdesc) v of
        None \<Rightarrow> Some (throw (Invalid_argument (''Enum doesn'' @ [CHR 0x27] @ ''t have value: '' @ int_to_string v)))
      | Some _ \<Rightarrow> succeed ())"

definition set_enum :: "('m, 'p) protobuf \<Rightarrow> tag \<Rightarrow> int \<Rightarrow> 'm protobuf_msg \<Rightarrow> 'm protobuf_msg outcome" where
  "set_enum pb field_tag v pm =
     with_m pm (\<lambda>m. and_then (single_field pb CPPTYPE_ENUM ''enum'' m field_tag) (\<lambda>fdesc.
       and_then (enum_value_known pb fdesc v) (\<lambda>_. assign pm (Set (EnumValue_calls pb) m fdesc v))))"

definition get_enum :: "('m, 'p) protobuf \<Rightarrow> tag \<Rightarrow> 'm protobuf_msg \<Rightarrow> int outcome" where
  "get_enum pb = get_single pb (EnumValue_calls pb) CPPTYPE_ENUM ''enum''"

definition set_repeated_enum ::
  "('m, 'p) protobuf \<Rightarrow> tag \<Rightarrow> int \<Rightarrow> int \<Rightarrow> 'm protobuf_msg \<Rightarrow> 'm protobuf_msg outcome" where
  "set_repeated_enum pb field_tag v index pm =
     with_m pm (\<lambda>m. and_then (repeated_field pb CPPTYPE_ENUM ''enum'' ''Field is not repeated!'' m field_tag)
       (\<lambda>fdesc. and_then (enum_value_known pb fdesc v) (\<lambda>_.
         put_repeated pb (EnumValue_calls pb) pm m fdesc v index)))"

definition get_repeated_enum :: "('m, 'p) protobuf \<Rightarrow> tag \<Rightarrow> int \<Rightarrow> 'm protobuf_msg \<Rightarrow> int outcome" where
  "get_repeated_enum pb = get_repeated pb (EnumValue_calls pb) CPPTYPE_ENUM ''enum''"

section \<open>Messages in messages\<close>

definition copy_message :: "('m, 'p) protobuf \<Rightarrow> 'm \<Rightarrow> 'm" where
  "copy_message pb m = CopyFrom pb (New pb m) m"

definition same_message_type :: "('m, 'p) protobuf \<Rightarrow> field_descriptor \<Rightarrow> 'm \<Rightarrow> unit outcome" where
  "same_message_type pb fdesc sub =
     (let message_type = fd_message_type fdesc; sub_message_type = d_full_name (GetDescriptor pb sub)
      in if message_type \<noteq> sub_message_type
         then Some (throw (Invalid_argument (''Type of the given sub message (which is <'' @ sub_message_type @
                ''>) doesn'' @ [CHR 0x27] @ ''t match the field type (which is <'' @ message_type @ ''>)'')))
         else succeed ())"

text \<open>\<open>set_message\<close> does not check that the given message is there, \<open>set_repeated_message\<close> does.\<close>

definition set_message ::
  "('m, 'p) protobuf \<Rightarrow> tag \<Rightarrow> 'm protobuf_msg \<Rightarrow> 'm protobuf_msg \<Rightarrow> 'm protobuf_msg outcome" where
  "set_message pb field_tag sub_message pm =
     with_m pm (\<lambda>m. and_then (single_field pb CPPTYPE_MESSAGE ''message'' m field_tag) (\<lambda>fdesc.
       case pm_m sub_message of
         None \<Rightarrow> None
       | Some sub_m \<Rightarrow>
           and_then (same_message_type pb fdesc sub_m) (\<lambda>_.
             assign pm (SetAllocatedMessage pb m (copy_message pb sub_m) fdesc))))"

text \<open>A copy of a part of the message, wrapped with the number of its schema.\<close>

definition wrap_copy ::
  "('m, 'p) protobuf \<Rightarrow> ('m, 'p) protobuf_factory \<Rightarrow> 'm \<Rightarrow> 'm protobuf_msg outcome" where
  "wrap_copy pb fa original =
     (let copy = copy_message pb original
      in and_then (Some (get_schema_id fa (GetTypeName pb copy)))
           (\<lambda>i. succeed \<lparr>pm_m = Some copy, pm_schema_id = i\<rparr>))"

definition get_message ::
  "('m, 'p) protobuf \<Rightarrow> ('m, 'p) protobuf_factory \<Rightarrow> tag \<Rightarrow> 'm protobuf_msg \<Rightarrow>
   'm protobuf_msg option outcome" where
  "get_message pb fa field_tag pm =
     with_m pm (\<lambda>m. and_then (single_field pb CPPTYPE_MESSAGE ''message'' m field_tag) (\<lambda>fdesc.
       and_then (called (HasField pb m fdesc)) (\<lambda>has.
         if \<not> has then succeed None
         else and_then (called (GetMessage pb m fdesc)) (\<lambda>original.
           and_then (wrap_copy pb fa original) (\<lambda>c. succeed (Some c))))))"

definition set_repeated_message ::
  "('m, 'p) protobuf \<Rightarrow> tag \<Rightarrow> 'm protobuf_msg \<Rightarrow> int \<Rightarrow> 'm protobuf_msg \<Rightarrow> 'm protobuf_msg outcome" where
  "set_repeated_message pb field_tag sub_message index pm =
     with_m pm (\<lambda>m. and_then (repeated_field pb CPPTYPE_MESSAGE ''message'' ''Field is not repeated'' m field_tag)
       (\<lambda>fdesc. case pm_m sub_message of
          None \<Rightarrow> Some (throw (Runtime_error ''No sub message!''))
        | Some sub_m \<Rightarrow>
            and_then (same_message_type pb fdesc sub_m) (\<lambda>_.
              and_then (index_in_field pb m fdesc index) (\<lambda>inside.
                assign pm
                  (if inside then MutableRepeatedMessage pb m fdesc index (\<lambda>x. CopyFrom pb x sub_m)
                   else AddAllocatedMessage pb m fdesc (copy_message pb sub_m))))))"

definition get_repeated_message ::
  "('m, 'p) protobuf \<Rightarrow> ('m, 'p) protobuf_factory \<Rightarrow> tag \<Rightarrow> int \<Rightarrow> 'm protobuf_msg \<Rightarrow>
   'm protobuf_msg outcome" where
  "get_repeated_message pb fa field_tag index pm =
     with_m pm (\<lambda>m. and_then (repeated_field pb CPPTYPE_MESSAGE ''message'' ''Field is not repeated!'' m field_tag)
       (\<lambda>fdesc. and_then (index_in_field pb m fdesc index) (\<lambda>inside.
          if inside then and_then (called (GetRepeatedMessage pb m fdesc index)) (wrap_copy pb fa)
          else Some (throw (index_out_of_range index)))))"

section \<open>Fields of a message\<close>

definition msg_get_field_tag :: "('m, 'p) protobuf \<Rightarrow> string \<Rightarrow> 'm protobuf_msg \<Rightarrow> tag outcome" where
  "msg_get_field_tag pb name pm =
     with_m pm (\<lambda>m. case FindFieldByName pb (GetDescriptor pb m) name of
         Some fdesc \<Rightarrow> succeed (word_of_int (fd_number fdesc))
       | None \<Rightarrow> Some (throw (no_field_with_name name)))"

text \<open>The pointer to the field is used without a check.\<close>

definition get_field_info_by_tag :: "('m, 'p) protobuf \<Rightarrow> tag \<Rightarrow> 'm protobuf_msg \<Rightarrow> field_info outcome" where
  "get_field_info_by_tag pb field_tag pm =
     with_m pm (\<lambda>m. case FindFieldByNumber pb (GetDescriptor pb m) (sint field_tag) of
         None \<Rightarrow> None
       | Some fdesc \<Rightarrow> field_info_of fdesc)"

end
