(* ===== verification/Proto_Laws.thy ===== *)
theory Proto_Laws
  imports Proto_Msg
begin

text \<open>
  The documented behaviour of the protocol buffers library that the properties of messages rely on, as
  predicates of its interface, and the properties of the accessors: each refuses every field that is not of its
  type and label, a value that was set is read back and nothing else changes, and a repeated field behaves as a
  list.
\<close>

section \<open>Laws of reflection\<close>

definition on_field :: "('m, 'p) protobuf \<Rightarrow> 'm \<Rightarrow> field_descriptor \<Rightarrow> cpp_type \<Rightarrow> bool \<Rightarrow> bool" where
  "on_field pb m f ty rep \<longleftrightarrow>
     f \<in> set (d_fields (GetDescriptor pb m)) \<and> fd_cpp_type f = ty \<and> fd_is_repeated f = rep"

text \<open>\<open>FindFieldByNumber\<close> searches the fields of the message; \<open>FindFieldByName\<close> as well.\<close>

definition lookup_laws :: "('m, 'p) protobuf \<Rightarrow> bool" where
  "lookup_laws pb \<longleftrightarrow>
     (\<forall>d n. FindFieldByNumber pb d n = find (\<lambda>f. fd_number f = n) (d_fields d)) \<and>
     (\<forall>d s. FindFieldByName pb d s = find (\<lambda>f. fd_name f = s) (d_fields d))"

text \<open>Two messages of one type that agree on every field but \<open>f\<close>, as far as the library can tell.\<close>

definition same_calls :: "('m, 'v) accessors \<Rightarrow> 'm \<Rightarrow> 'm \<Rightarrow> field_descriptor \<Rightarrow> bool" where
  "same_calls calls m m' g \<longleftrightarrow> Get calls m' g = Get calls m g \<and> GetRepeated calls m' g = GetRepeated calls m g"

definition same_except :: "('m, 'p) protobuf \<Rightarrow> 'm \<Rightarrow> 'm \<Rightarrow> field_descriptor \<Rightarrow> bool" where
  "same_except pb m m' f \<longleftrightarrow>
     GetDescriptor pb m' = GetDescriptor pb m \<and>
     (\<forall>g \<in> set (d_fields (GetDescriptor pb m)). g \<noteq> f \<longrightarrow>
        FieldSize pb m' g = FieldSize pb m g \<and> HasField pb m' g = HasField pb m g \<and>
        same_calls (String_calls pb) m m' g \<and> same_calls (Int32_calls pb) m m' g \<and>
        same_calls (UInt32_calls pb) m m' g \<and> same_calls (Int64_calls pb) m m' g \<and>
        same_calls (UInt64_calls pb) m m' g \<and> same_calls (Bool_calls pb) m m' g \<and>
        same_calls (EnumValue_calls pb) m m' g \<and>
        GetMessage pb m' g = GetMessage pb m g \<and> GetRepeatedMessage pb m' g = GetRepeatedMessage pb m g)"

definition single_laws :: "('m, 'p) protobuf \<Rightarrow> ('m, 'v) accessors \<Rightarrow> cpp_type \<Rightarrow> bool" where
  "single_laws pb calls ty \<longleftrightarrow>
     (\<forall>m f. on_field pb m f ty False \<longrightarrow>
        (\<exists>v. Get calls m f = Some v) \<and>
        (\<forall>v. \<exists>m'. Set calls m f v = Some m' \<and> Get calls m' f = Some v \<and> same_except pb m m' f))"

text \<open>The values of a repeated field.\<close>

definition holds_values :: "('m, 'p) protobuf \<Rightarrow> ('m, 'v) accessors \<Rightarrow> 'm \<Rightarrow> field_descriptor \<Rightarrow> 'v list \<Rightarrow> bool" where
  "holds_values pb calls m f xs \<longleftrightarrow>
     FieldSize pb m f = Some (int (length xs)) \<and>
     (\<forall>i < length xs. GetRepeated calls m f (int i) = Some (xs ! i))"

definition repeated_laws :: "('m, 'p) protobuf \<Rightarrow> ('m, 'v) accessors \<Rightarrow> cpp_type \<Rightarrow> bool" where
  "repeated_laws pb calls ty \<longleftrightarrow>
     (\<forall>m f. on_field pb m f ty True \<longrightarrow>
        (\<exists>xs. holds_values pb calls m f xs) \<and>
        (\<forall>xs v. holds_values pb calls m f xs \<longrightarrow>
           (\<exists>m'. Add calls m f v = Some m' \<and> holds_values pb calls m' f (xs @ [v]) \<and> same_except pb m m' f) \<and>
           (\<forall>i < length xs. \<exists>m'. SetRepeated calls m f (int i) v = Some m' \<and>
              holds_values pb calls m' f (xs[i := v]) \<and> same_except pb m m' f)))"

definition scalar_laws :: "('m, 'p) protobuf \<Rightarrow> ('m, 'v) accessors \<Rightarrow> cpp_type \<Rightarrow> bool" where
  "scalar_laws pb calls ty \<longleftrightarrow> single_laws pb calls ty \<and> repeated_laws pb calls ty"

definition reflection_laws :: "('m, 'p) protobuf \<Rightarrow> bool" where
  "reflection_laws pb \<longleftrightarrow>
     lookup_laws pb \<and>
     scalar_laws pb (String_calls pb) CPPTYPE_STRING \<and> scalar_laws pb (Int32_calls pb) CPPTYPE_INT32 \<and>
     scalar_laws pb (UInt32_calls pb) CPPTYPE_UINT32 \<and> scalar_laws pb (Int64_calls pb) CPPTYPE_INT64 \<and>
     scalar_laws pb (UInt64_calls pb) CPPTYPE_UINT64 \<and> scalar_laws pb (Bool_calls pb) CPPTYPE_BOOL \<and>
     scalar_laws pb (EnumValue_calls pb) CPPTYPE_ENUM"

text \<open>
  Messages in messages: a copy is the original, a field that was set is present, and the library hands out
  what was put in.
\<close>

definition message_laws :: "('m, 'p) protobuf \<Rightarrow> bool" where
  "message_laws pb \<longleftrightarrow>
     (\<forall>m. GetTypeName pb m = d_full_name (GetDescriptor pb m)) \<and>
     (\<forall>m. GetDescriptor pb (New pb m) = GetDescriptor pb m) \<and>
     (\<forall>m x. GetDescriptor pb x = GetDescriptor pb m \<longrightarrow> CopyFrom pb x m = m) \<and>
     (\<forall>m f. on_field pb m f CPPTYPE_MESSAGE False \<longrightarrow>
        (\<exists>b. HasField pb m f = Some b) \<and> (\<exists>x. GetMessage pb m f = Some x) \<and>
        (\<forall>sub. d_full_name (GetDescriptor pb sub) = fd_message_type f \<longrightarrow>
           (\<exists>m'. SetAllocatedMessage pb m sub f = Some m' \<and> HasField pb m' f = Some True \<and>
              GetMessage pb m' f = Some sub \<and> same_except pb m m' f)))"

section \<open>The checks of the accessors\<close>

lemma and_then_throw [simp]: "and_then (Some (Inl e)) f = Some (Inl e)"
  by (simp add: and_then_def)

lemma and_then_None [simp]: "and_then None f = None"
  by (simp add: and_then_def)

lemma called_Some [simp]: "called (Some x) = succeed x"
  by (simp add: called_def succeed_def)

lemma with_m_Some [simp]: "pm_m pm = Some m \<Longrightarrow> with_m pm f = f m"
  by (simp add: with_m_def)

text \<open>The field an accessor finds for a tag.\<close>

definition field_of :: "('m, 'p) protobuf \<Rightarrow> 'm \<Rightarrow> tag \<Rightarrow> field_descriptor option" where
  "field_of pb m field_tag = find (\<lambda>f. fd_number f = sint field_tag) (d_fields (GetDescriptor pb m))"

lemma field_of_in: "field_of pb m t = Some f \<Longrightarrow> f \<in> set (d_fields (GetDescriptor pb m))"
  by (auto simp: field_of_def find_Some_iff)

lemma find_field_cases:
  "lookup_laws pb \<Longrightarrow> find_field pb m t =
     (case field_of pb m t of None \<Rightarrow> Some (throw (no_field_with_tag t)) | Some f \<Rightarrow> succeed f)"
  by (simp add: find_field_def lookup_laws_def field_of_def)

text \<open>
  What an accessor of type \<open>ty\<close> and label \<open>rep\<close> does before its work: an exception \<open>std::invalid_argument\<close> for a
  tag without a field and for a field of another type or label.
\<close>

definition refuses :: "('m, 'p) protobuf \<Rightarrow> cpp_type \<Rightarrow> bool \<Rightarrow> tag \<Rightarrow> 'm \<Rightarrow> 'a outcome \<Rightarrow> bool" where
  "refuses pb ty rep t m r \<longleftrightarrow>
     (case field_of pb m t of
        None \<Rightarrow> r = Some (throw (no_field_with_tag t))
      | Some f \<Rightarrow> (fd_cpp_type f = ty \<and> fd_is_repeated f = rep) \<or> (\<exists>e. r = Some (throw (Invalid_argument e))))"

lemma single_field_ok:
  "lookup_laws pb \<Longrightarrow> field_of pb m t = Some f \<Longrightarrow> on_field pb m f ty False \<Longrightarrow>
   single_field pb ty what m t = succeed f"
  by (simp add: single_field_def find_field_cases on_field_def)

lemma repeated_field_ok:
  "lookup_laws pb \<Longrightarrow> field_of pb m t = Some f \<Longrightarrow> on_field pb m f ty True \<Longrightarrow>
   repeated_field pb ty what nr m t = succeed f"
  by (simp add: repeated_field_def find_field_cases on_field_def)

lemma refuses_single:
  "lookup_laws pb \<Longrightarrow> refuses pb ty False t m (and_then (single_field pb ty what m t) k)"
  by (auto simp: refuses_def single_field_def find_field_cases succeed_def split: option.splits)

lemma refuses_repeated:
  "lookup_laws pb \<Longrightarrow> refuses pb ty True t m (and_then (repeated_field pb ty what nr m t) k)"
  by (auto simp: refuses_def repeated_field_def find_field_cases succeed_def split: option.splits)

section \<open>Reading and writing one field\<close>

lemma set_single_ok:
  assumes "lookup_laws pb" "single_laws pb calls ty" "pm_m pm = Some m" "field_of pb m t = Some f"
    and "on_field pb m f ty False"
  shows "\<exists>m'. set_single pb calls ty what t v pm = succeed (pm\<lparr>pm_m := Some m'\<rparr>) \<and>
           same_except pb m m' f \<and> get_single pb calls ty what' t (pm\<lparr>pm_m := Some m'\<rparr>) = succeed v"
proof -
  from assms obtain m' where m': "Set calls m f v = Some m'" "Get calls m' f = Some v" "same_except pb m m' f"
    unfolding single_laws_def by blast
  have d: "GetDescriptor pb m' = GetDescriptor pb m" using m'(3) by (simp add: same_except_def)
  have "field_of pb m' t = Some f" "on_field pb m' f ty False"
    using assms(4,5) d by (simp_all add: field_of_def on_field_def)
  with assms m' show ?thesis
    by (intro exI [of _ m']) (simp add: set_single_def get_single_def single_field_ok assign_def)
qed

lemma get_single_returns:
  assumes "lookup_laws pb" "single_laws pb calls ty" "pm_m pm = Some m" "field_of pb m t = Some f"
    and "on_field pb m f ty False"
  shows "\<exists>v. get_single pb calls ty what t pm = succeed v"
proof -
  from assms obtain v where "Get calls m f = Some v" unfolding single_laws_def by blast
  with assms show ?thesis by (intro exI [of _ v]) (simp add: get_single_def single_field_ok)
qed

section \<open>Repeated fields\<close>

text \<open>The edit of a list that \<open>set_repeated\<close> makes.\<close>

definition put_at :: "int \<Rightarrow> 'v \<Rightarrow> 'v list \<Rightarrow> 'v list" where
  "put_at index v xs = (if 0 \<le> index \<and> index < int (length xs) then xs[nat index := v] else xs @ [v])"

lemma index_in_field_values:
  "holds_values pb calls m f xs \<Longrightarrow>
   index_in_field pb m f index = succeed (0 \<le> index \<and> index < int (length xs))"
  by (auto simp: index_in_field_def holds_values_def)

lemma index_outside:
  assumes "holds_values pb calls m f xs" "\<not> (0 \<le> index \<and> index < int (length xs))"
  shows "index_in_field pb m f index = succeed False"
proof -
  have "(0 \<le> index \<and> index < int (length xs)) = False" using assms(2) by simp
  then show ?thesis by (simp only: index_in_field_values [OF assms(1)])
qed

lemma put_repeated_ok:
  assumes "repeated_laws pb calls ty" "on_field pb m f ty True" "holds_values pb calls m f xs"
  shows "\<exists>m'. put_repeated pb calls pm m f v index = succeed (pm\<lparr>pm_m := Some m'\<rparr>) \<and>
           holds_values pb calls m' f (put_at index v xs) \<and> same_except pb m m' f"
proof (cases "0 \<le> index \<and> index < int (length xs)")
  case True
  then have "nat index < length xs" by (simp add: nat_less_iff)
  then obtain m' where "SetRepeated calls m f (int (nat index)) v = Some m'"
      "holds_values pb calls m' f (xs[nat index := v])" "same_except pb m m' f"
    using assms unfolding repeated_laws_def by blast
  with True show ?thesis
    by (intro exI [of _ m'])
      (simp add: put_repeated_def index_in_field_values [OF assms(3)] put_at_def assign_def)
next
  case False
  obtain m' where "Add calls m f v = Some m'"
      "holds_values pb calls m' f (xs @ [v])" "same_except pb m m' f"
    using assms unfolding repeated_laws_def by blast
  moreover have "index_in_field pb m f index = succeed False"
    by (rule index_outside [OF assms(3) False])
  moreover have "put_at index v xs = xs @ [v]" using False by (auto simp: put_at_def)
  ultimately show ?thesis by (intro exI [of _ m']) (simp add: put_repeated_def assign_def)
qed

lemma set_repeated_ok:
  assumes "lookup_laws pb" "repeated_laws pb calls ty" "pm_m pm = Some m" "field_of pb m t = Some f"
    and "on_field pb m f ty True" "holds_values pb calls m f xs"
  shows "\<exists>m'. set_repeated pb calls ty what t v index pm = succeed (pm\<lparr>pm_m := Some m'\<rparr>) \<and>
           holds_values pb calls m' f (put_at index v xs) \<and> same_except pb m m' f"
  using put_repeated_ok [OF assms(2,5,6), of pm v index] assms(1,3,4,5)
  by (simp add: set_repeated_def repeated_field_ok)

lemma get_repeated_values:
  assumes "lookup_laws pb" "pm_m pm = Some m" "field_of pb m t = Some f"
    and "on_field pb m f ty True" "holds_values pb calls m f xs"
  shows "get_repeated pb calls ty what t index pm =
           (if 0 \<le> index \<and> index < int (length xs) then succeed (xs ! nat index)
            else Some (throw (index_out_of_range index)))"
proof (cases "0 \<le> index \<and> index < int (length xs)")
  case True
  then have "GetRepeated calls m f (int (nat index)) = Some (xs ! nat index)"
    using assms(5) unfolding holds_values_def by (metis nat_0_le nat_less_iff)
  with True assms show ?thesis
    by (simp add: get_repeated_def repeated_field_ok index_in_field_values)
next
  case False
  then have "index_in_field pb m f index = succeed False"
    by (rule index_outside [OF assms(5)])
  with False assms show ?thesis by (auto simp: get_repeated_def repeated_field_ok)
qed

lemma get_repeated_field_size_values:
  assumes "lookup_laws pb" "pm_m pm = Some m" "field_of pb m t = Some f"
    and "on_field pb m f ty True" "holds_values pb calls m f xs"
  shows "get_repeated_field_size pb t pm = succeed (length xs)"
  using assms by (simp add: get_repeated_field_size_def find_field_cases on_field_def holds_values_def)

end
