(* ===== verification/Proto_Accessors.thy ===== *)
theory Proto_Accessors
  imports Proto_Laws
begin

text \<open>
  The properties of messages, stated over the accessors of \<^verbatim>\<open>protobuf_msg\<close> alone, each for all scalar types and
  enumerations at once.
\<close>

section \<open>Type safety\<close>

text \<open>
  The four accessors of a type refuse every tag whose field is missing or of another type or label, and never
  make a call that the library does not allow (their outcome is never \<open>None\<close>).
\<close>

definition type_safe ::
  "('m, 'p) protobuf \<Rightarrow> cpp_type \<Rightarrow> (tag \<Rightarrow> 'v \<Rightarrow> 'm protobuf_msg \<Rightarrow> 'm protobuf_msg outcome) \<Rightarrow>
   (tag \<Rightarrow> 'm protobuf_msg \<Rightarrow> 'v outcome) \<Rightarrow>
   (tag \<Rightarrow> 'v \<Rightarrow> int \<Rightarrow> 'm protobuf_msg \<Rightarrow> 'm protobuf_msg outcome) \<Rightarrow>
   (tag \<Rightarrow> int \<Rightarrow> 'm protobuf_msg \<Rightarrow> 'v outcome) \<Rightarrow> bool" where
  "type_safe pb ty set_x get_x set_repeated_x get_repeated_x \<longleftrightarrow>
     (\<forall>t v i pm m. pm_m pm = Some m \<longrightarrow>
        (set_x t v pm \<noteq> None \<and> refuses pb ty False t m (set_x t v pm)) \<and>
        (get_x t pm \<noteq> None \<and> refuses pb ty False t m (get_x t pm)) \<and>
        (set_repeated_x t v i pm \<noteq> None \<and> refuses pb ty True t m (set_repeated_x t v i pm)) \<and>
        (get_repeated_x t i pm \<noteq> None \<and> refuses pb ty True t m (get_repeated_x t i pm)))"

text \<open>What is left to show of an accessor that starts with the checks: its outcome on a field it accepts.\<close>

lemma single_not_None:
  assumes "lookup_laws pb" "\<And>f. field_of pb m t = Some f \<Longrightarrow> on_field pb m f ty False \<Longrightarrow> k f \<noteq> None"
  shows "and_then (single_field pb ty what m t) k \<noteq> None"
  using assms field_of_in [of pb m t]
  by (auto simp: single_field_def find_field_cases on_field_def succeed_def split: option.splits)

lemma repeated_not_None:
  assumes "lookup_laws pb" "\<And>f. field_of pb m t = Some f \<Longrightarrow> on_field pb m f ty True \<Longrightarrow> k f \<noteq> None"
  shows "and_then (repeated_field pb ty what nr m t) k \<noteq> None"
  using assms field_of_in [of pb m t]
  by (auto simp: repeated_field_def find_field_cases on_field_def succeed_def split: option.splits)

lemma succeed_not_None [simp]: "succeed x \<noteq> None"
  by (simp add: succeed_def)

lemma assign_Set_not_None: "single_laws pb calls ty \<Longrightarrow> on_field pb m f ty False \<Longrightarrow> assign pm (Set calls m f v) \<noteq> None"
  unfolding single_laws_def by (metis and_then_succeed(1) assign_def called_Some succeed_not_None)

lemma called_Get_not_None: "single_laws pb calls ty \<Longrightarrow> on_field pb m f ty False \<Longrightarrow> called (Get calls m f) \<noteq> None"
  unfolding single_laws_def by (metis called_Some succeed_not_None)

lemma put_repeated_not_None:
  assumes "repeated_laws pb calls ty" "on_field pb m f ty True"
  shows "put_repeated pb calls pm m f v index \<noteq> None"
proof -
  from assms obtain xs where "holds_values pb calls m f xs" unfolding repeated_laws_def by blast
  from put_repeated_ok [OF assms this, of pm v index] show ?thesis by (auto simp: succeed_def)
qed

lemma read_repeated_not_None:
  assumes "repeated_laws pb calls ty" "on_field pb m f ty True"
  shows "and_then (index_in_field pb m f i)
           (\<lambda>inside. if inside then called (GetRepeated calls m f i) else Some (throw e)) \<noteq> None"
proof -
  from assms obtain xs where xs: "holds_values pb calls m f xs" unfolding repeated_laws_def by blast
  have "0 \<le> i \<Longrightarrow> i < int (length xs) \<Longrightarrow> GetRepeated calls m f i = Some (xs ! nat i)"
    using xs unfolding holds_values_def by (metis nat_0_le nat_less_iff)
  then show ?thesis by (auto simp: index_in_field_values [OF xs] succeed_def)
qed

lemma scalar_type_safe:
  assumes "lookup_laws pb" "scalar_laws pb calls ty"
  shows "type_safe pb ty (set_single pb calls ty what) (get_single pb calls ty what')
           (set_repeated pb calls ty what) (get_repeated pb calls ty what)"
proof -
  have laws: "single_laws pb calls ty" "repeated_laws pb calls ty"
    using assms(2) by (simp_all add: scalar_laws_def)
  show ?thesis
    unfolding type_safe_def set_single_def get_single_def set_repeated_def get_repeated_def
    by (simp add: assms(1) refuses_single refuses_repeated single_not_None repeated_not_None
        assign_Set_not_None [OF laws(1)] called_Get_not_None [OF laws(1)]
        put_repeated_not_None [OF laws(2)] read_repeated_not_None [OF laws(2)] del: not_None_eq)
qed

lemma enum_type_safe:
  assumes "lookup_laws pb" "scalar_laws pb (EnumValue_calls pb) CPPTYPE_ENUM"
  shows "type_safe pb CPPTYPE_ENUM (set_enum pb) (get_enum pb) (set_repeated_enum pb) (get_repeated_enum pb)"
proof -
  have laws: "single_laws pb (EnumValue_calls pb) CPPTYPE_ENUM" "repeated_laws pb (EnumValue_calls pb) CPPTYPE_ENUM"
    using assms(2) by (simp_all add: scalar_laws_def)
  have known: "and_then (enum_value_known pb f v) k \<noteq> None" if "k () \<noteq> None" for f v and k :: "unit \<Rightarrow> 'c outcome"
    using that by (cases "FindValueByNumber pb (fd_enum_type f) v") (simp_all add: enum_value_known_def)
  show ?thesis
    unfolding type_safe_def set_enum_def get_enum_def set_repeated_enum_def get_repeated_enum_def
      get_single_def get_repeated_def
    by (simp add: assms(1) refuses_single refuses_repeated single_not_None repeated_not_None known
        assign_Set_not_None [OF laws(1)] called_Get_not_None [OF laws(1)]
        put_repeated_not_None [OF laws(2)] read_repeated_not_None [OF laws(2)] del: not_None_eq)
qed

lemmas scalar_accessor_defs =
  set_blob_def get_blob_def set_repeated_blob_def get_repeated_blob_def
  set_int32_def get_int32_def set_repeated_int32_def get_repeated_int32_def
  set_uint32_def get_uint32_def set_repeated_uint32_def get_repeated_uint32_def
  set_int64_def get_int64_def set_repeated_int64_def get_repeated_int64_def
  set_uint64_def get_uint64_def set_repeated_uint64_def get_repeated_uint64_def
  set_boolean_def get_boolean_def set_repeated_boolean_def get_repeated_boolean_def

text \<open>
  C14: The accessors are type safe: for every message, tag, value and index, the accessors of each of the six scalar
  types and of enumerations throw \<^verbatim>\<open>std::invalid_argument\<close> when the message has no field with the tag or the
  field has another type or label, and they never make a reflection call on such a field (which
  would abort the process).
\<close>

theorem accessors_type_safe:
  assumes "reflection_laws pb"
  shows "type_safe pb CPPTYPE_STRING (set_blob pb) (get_blob pb) (set_repeated_blob pb) (get_repeated_blob pb) \<and>
    type_safe pb CPPTYPE_INT32 (set_int32 pb) (get_int32 pb) (set_repeated_int32 pb) (get_repeated_int32 pb) \<and>
    type_safe pb CPPTYPE_UINT32 (set_uint32 pb) (get_uint32 pb) (set_repeated_uint32 pb) (get_repeated_uint32 pb) \<and>
    type_safe pb CPPTYPE_INT64 (set_int64 pb) (get_int64 pb) (set_repeated_int64 pb) (get_repeated_int64 pb) \<and>
    type_safe pb CPPTYPE_UINT64 (set_uint64 pb) (get_uint64 pb) (set_repeated_uint64 pb) (get_repeated_uint64 pb) \<and>
    type_safe pb CPPTYPE_BOOL (set_boolean pb) (get_boolean pb) (set_repeated_boolean pb) (get_repeated_boolean pb) \<and>
    type_safe pb CPPTYPE_ENUM (set_enum pb) (get_enum pb) (set_repeated_enum pb) (get_repeated_enum pb)"
  using assms unfolding reflection_laws_def scalar_accessor_defs
  by (intro conjI scalar_type_safe enum_type_safe) simp_all

section \<open>Round trips\<close>

text \<open>Every accessor reads the same of two messages under a tag.\<close>

definition reads_same :: "('m, 'p) protobuf \<Rightarrow> tag \<Rightarrow> 'm protobuf_msg \<Rightarrow> 'm protobuf_msg \<Rightarrow> bool" where
  "reads_same pb t pm pm' \<longleftrightarrow>
     get_blob pb t pm' = get_blob pb t pm \<and> get_int32 pb t pm' = get_int32 pb t pm \<and>
     get_uint32 pb t pm' = get_uint32 pb t pm \<and> get_int64 pb t pm' = get_int64 pb t pm \<and>
     get_uint64 pb t pm' = get_uint64 pb t pm \<and> get_boolean pb t pm' = get_boolean pb t pm \<and>
     get_enum pb t pm' = get_enum pb t pm \<and> (\<forall>fa. get_message pb fa t pm' = get_message pb fa t pm) \<and>
     get_repeated_field_size pb t pm' = get_repeated_field_size pb t pm \<and>
     (\<forall>i. get_repeated_blob pb t i pm' = get_repeated_blob pb t i pm \<and>
          get_repeated_int32 pb t i pm' = get_repeated_int32 pb t i pm \<and>
          get_repeated_uint32 pb t i pm' = get_repeated_uint32 pb t i pm \<and>
          get_repeated_int64 pb t i pm' = get_repeated_int64 pb t i pm \<and>
          get_repeated_uint64 pb t i pm' = get_repeated_uint64 pb t i pm \<and>
          get_repeated_boolean pb t i pm' = get_repeated_boolean pb t i pm \<and>
          get_repeated_enum pb t i pm' = get_repeated_enum pb t i pm \<and>
          (\<forall>fa. get_repeated_message pb fa t i pm' = get_repeated_message pb fa t i pm))"

lemma same_calls_single:
  assumes "same_calls calls m m' f" "pm_m pm = Some m" "pm_m pm' = Some m'" "field_of pb m t = Some f"
    and "lookup_laws pb" "GetDescriptor pb m' = GetDescriptor pb m"
  shows "get_single pb calls ty what t pm' = get_single pb calls ty what t pm"
proof -
  have "field_of pb m' t = Some f" using assms(4,6) by (simp add: field_of_def)
  with assms show ?thesis by (simp add: get_single_def single_field_def find_field_cases same_calls_def)
qed

lemma same_calls_repeated:
  assumes "same_calls calls m m' f" "pm_m pm = Some m" "pm_m pm' = Some m'" "field_of pb m t = Some f"
    and "lookup_laws pb" "GetDescriptor pb m' = GetDescriptor pb m" "FieldSize pb m' f = FieldSize pb m f"
  shows "get_repeated pb calls ty what t i pm' = get_repeated pb calls ty what t i pm"
proof -
  have "field_of pb m' t = Some f" using assms(4,6) by (simp add: field_of_def)
  moreover have "GetRepeated calls m' f = GetRepeated calls m f" using assms(1) by (simp add: same_calls_def)
  ultimately show ?thesis
    using assms(2-5,7) by (simp add: get_repeated_def repeated_field_def find_field_cases index_in_field_def
        cong: if_cong)
qed

lemma no_field_reads:
  assumes "field_of pb m t = None" "pm_m pm = Some m" "lookup_laws pb"
  shows "get_single pb calls ty what t pm = Some (throw (no_field_with_tag t))"
    "get_repeated pb calls ty what t i pm = Some (throw (no_field_with_tag t))"
    "get_message pb fa t pm = Some (throw (no_field_with_tag t))"
    "get_repeated_message pb fa t i pm = Some (throw (no_field_with_tag t))"
    "get_repeated_field_size pb t pm = Some (throw (no_field_with_tag t))"
  using assms
  by (simp_all add: get_single_def get_repeated_def get_message_def get_repeated_message_def
      get_repeated_field_size_def single_field_def repeated_field_def find_field_cases)

lemmas getter_defs =
  get_blob_def get_int32_def get_uint32_def get_int64_def get_uint64_def get_boolean_def get_enum_def
  get_repeated_blob_def get_repeated_int32_def get_repeated_uint32_def get_repeated_int64_def
  get_repeated_uint64_def get_repeated_boolean_def get_repeated_enum_def

lemma same_except_reads:
  assumes same: "same_except pb m m' f" and pm: "pm_m pm = Some m" "pm_m pm' = Some m'"
    and laws: "lookup_laws pb" and other: "field_of pb m t \<noteq> Some f"
  shows "reads_same pb t pm pm'"
proof (cases "field_of pb m t")
  case None
  moreover have "field_of pb m' t = None" using None same by (simp add: field_of_def same_except_def)
  ultimately show ?thesis
    using pm laws by (simp add: reads_same_def getter_defs no_field_reads)
next
  case (Some g)
  with same other have d: "GetDescriptor pb m' = GetDescriptor pb m" and size: "FieldSize pb m' g = FieldSize pb m g"
    and has: "HasField pb m' g = HasField pb m g"
    and calls: "same_calls (String_calls pb) m m' g" "same_calls (Int32_calls pb) m m' g"
      "same_calls (UInt32_calls pb) m m' g" "same_calls (Int64_calls pb) m m' g"
      "same_calls (UInt64_calls pb) m m' g" "same_calls (Bool_calls pb) m m' g"
      "same_calls (EnumValue_calls pb) m m' g"
    and msg: "GetMessage pb m' g = GetMessage pb m g" "GetRepeatedMessage pb m' g = GetRepeatedMessage pb m g"
    using field_of_in [OF Some] by (auto simp: same_except_def)
  note single = same_calls_single [OF _ pm Some laws d]
  note repeated = same_calls_repeated [OF _ pm Some laws d size]
  have f': "field_of pb m' t = Some g" using Some d by (simp add: field_of_def)
  have "get_message pb fa t pm' = get_message pb fa t pm"
    "get_repeated_message pb fa t i pm' = get_repeated_message pb fa t i pm"
    "get_repeated_field_size pb t pm' = get_repeated_field_size pb t pm" for fa i
    using pm laws Some f' size has msg
    by (simp_all add: get_message_def get_repeated_message_def get_repeated_field_size_def single_field_def
        repeated_field_def find_field_cases index_in_field_def cong: if_cong)
  then show ?thesis
    unfolding reads_same_def getter_defs
    by (simp add: single [OF calls(1)] single [OF calls(2)] single [OF calls(3)] single [OF calls(4)]
        single [OF calls(5)] single [OF calls(6)] single [OF calls(7)]
        repeated [OF calls(1)] repeated [OF calls(2)] repeated [OF calls(3)] repeated [OF calls(4)]
        repeated [OF calls(5)] repeated [OF calls(6)] repeated [OF calls(7)])
qed

text \<open>
  A setter and a getter of one type: on a field of that type, a value that the setter accepts (\<open>ok\<close>) is read back,
  the message keeps its schema number, and under every other tag all accessors read what they read before.
\<close>

definition stores ::
  "('m, 'p) protobuf \<Rightarrow> cpp_type \<Rightarrow> (field_descriptor \<Rightarrow> 'v \<Rightarrow> bool) \<Rightarrow>
   (tag \<Rightarrow> 'v \<Rightarrow> 'm protobuf_msg \<Rightarrow> 'm protobuf_msg outcome) \<Rightarrow> (tag \<Rightarrow> 'm protobuf_msg \<Rightarrow> 'v outcome) \<Rightarrow> bool" where
  "stores pb ty ok set_x get_x \<longleftrightarrow>
     (\<forall>t v pm m f. pm_m pm = Some m \<and> field_of pb m t = Some f \<and> fd_cpp_type f = ty \<and> \<not> fd_is_repeated f \<and> ok f v \<longrightarrow>
        (\<exists>pm'. set_x t v pm = succeed pm' \<and> get_x t pm' = succeed v \<and>
           msg_get_schema_id pm' = msg_get_schema_id pm \<and>
           (\<forall>t'. field_of pb m t' \<noteq> Some f \<longrightarrow> reads_same pb t' pm pm')))"

lemma scalar_stores:
  assumes "lookup_laws pb" "scalar_laws pb calls ty"
  shows "stores pb ty (\<lambda>_ _. True) (set_single pb calls ty what) (get_single pb calls ty what')"
  unfolding stores_def
proof (intro allI impI)
  fix t v and pm :: "'a protobuf_msg" and m f
  assume *: "pm_m pm = Some m \<and> field_of pb m t = Some f \<and> fd_cpp_type f = ty \<and> \<not> fd_is_repeated f \<and> True"
  then have on: "on_field pb m f ty False" using field_of_in [of pb m t f] by (simp add: on_field_def)
  have "single_laws pb calls ty" using assms(2) by (simp add: scalar_laws_def)
  from set_single_ok [OF assms(1) this _ _ on, of pm t what v what'] * obtain m' where
    m': "set_single pb calls ty what t v pm = succeed (pm\<lparr>pm_m := Some m'\<rparr>)" "same_except pb m m' f"
      "get_single pb calls ty what' t (pm\<lparr>pm_m := Some m'\<rparr>) = succeed v"
    by auto
  with * show "\<exists>pm'. set_single pb calls ty what t v pm = succeed pm' \<and> get_single pb calls ty what' t pm' = succeed v \<and>
      msg_get_schema_id pm' = msg_get_schema_id pm \<and> (\<forall>t'. field_of pb m t' \<noteq> Some f \<longrightarrow> reads_same pb t' pm pm')"
    by (intro exI [of _ "pm\<lparr>pm_m := Some m'\<rparr>"])
      (auto simp: msg_get_schema_id_def intro: same_except_reads [OF m'(2) _ _ assms(1)])
qed

lemma set_enum_known:
  assumes "FindValueByNumber pb (fd_enum_type f) v \<noteq> None" "lookup_laws pb" "field_of pb m t = Some f" "pm_m pm = Some m"
  shows "set_enum pb t v pm = set_single pb (EnumValue_calls pb) CPPTYPE_ENUM ''enum'' t v pm"
    "set_repeated_enum pb t v i pm = set_repeated pb (EnumValue_calls pb) CPPTYPE_ENUM ''enum'' t v i pm"
  using assms
  by (auto simp: set_enum_def set_single_def set_repeated_enum_def set_repeated_def enum_value_known_def
      single_field_def repeated_field_def find_field_cases succeed_def)

text \<open>An enumeration's values are those of its descriptor.\<close>

definition known_enum_value :: "('m, 'p) protobuf \<Rightarrow> field_descriptor \<Rightarrow> int \<Rightarrow> bool" where
  "known_enum_value pb f v \<longleftrightarrow> FindValueByNumber pb (fd_enum_type f) v \<noteq> None"

lemma enum_stores:
  assumes "lookup_laws pb" "scalar_laws pb (EnumValue_calls pb) CPPTYPE_ENUM"
  shows "stores pb CPPTYPE_ENUM (known_enum_value pb) (set_enum pb) (get_enum pb)"
  using scalar_stores [OF assms, of "''enum''" "''enum''"] assms(1)
  unfolding stores_def get_enum_def known_enum_value_def by (metis set_enum_known(1))

text \<open>
  What a setter of a scalar type or of an enumeration stores in a single field is what the getter of the type reads
  afterwards, and no other field of the message changes, whatever its type and label.
\<close>

theorem set_get_round_trip:
  assumes "reflection_laws pb"
  shows "stores pb CPPTYPE_STRING (\<lambda>_ _. True) (set_blob pb) (get_blob pb) \<and>
    stores pb CPPTYPE_INT32 (\<lambda>_ _. True) (set_int32 pb) (get_int32 pb) \<and>
    stores pb CPPTYPE_UINT32 (\<lambda>_ _. True) (set_uint32 pb) (get_uint32 pb) \<and>
    stores pb CPPTYPE_INT64 (\<lambda>_ _. True) (set_int64 pb) (get_int64 pb) \<and>
    stores pb CPPTYPE_UINT64 (\<lambda>_ _. True) (set_uint64 pb) (get_uint64 pb) \<and>
    stores pb CPPTYPE_BOOL (\<lambda>_ _. True) (set_boolean pb) (get_boolean pb) \<and>
    stores pb CPPTYPE_ENUM (known_enum_value pb) (set_enum pb) (get_enum pb)"
  using assms unfolding reflection_laws_def scalar_accessor_defs
  by (intro conjI scalar_stores enum_stores) simp_all

section \<open>Repeated fields as lists\<close>

text \<open>What the accessors read of a repeated field is the list \<open>xs\<close>: its length, its elements, and an exception past its end.\<close>

definition reads_list ::
  "('m, 'p) protobuf \<Rightarrow> (tag \<Rightarrow> int \<Rightarrow> 'm protobuf_msg \<Rightarrow> 'v outcome) \<Rightarrow> tag \<Rightarrow> 'm protobuf_msg \<Rightarrow> 'v list \<Rightarrow> bool" where
  "reads_list pb get_repeated_x t pm xs \<longleftrightarrow>
     get_repeated_field_size pb t pm = succeed (length xs) \<and>
     (\<forall>i. get_repeated_x t i pm =
        (if 0 \<le> i \<and> i < int (length xs) then succeed (xs ! nat i) else Some (throw (index_out_of_range i))))"

text \<open>A sequence of calls of a setter with values and indices, in order.\<close>

fun put_all ::
  "(tag \<Rightarrow> 'v \<Rightarrow> int \<Rightarrow> 'm protobuf_msg \<Rightarrow> 'm protobuf_msg outcome) \<Rightarrow> tag \<Rightarrow> ('v \<times> int) list \<Rightarrow>
   'm protobuf_msg \<Rightarrow> 'm protobuf_msg outcome" where
  "put_all set_repeated_x t [] pm = succeed pm"
| "put_all set_repeated_x t ((v, i) # ps) pm = and_then (set_repeated_x t v i pm) (put_all set_repeated_x t ps)"

text \<open>
  The setter and getter of a repeated field implement a list: the field reads as some list, and after any sequence
  of accepted calls it reads as that list after the corresponding edits.
\<close>

definition implements_list ::
  "('m, 'p) protobuf \<Rightarrow> cpp_type \<Rightarrow> (field_descriptor \<Rightarrow> 'v \<Rightarrow> bool) \<Rightarrow>
   (tag \<Rightarrow> 'v \<Rightarrow> int \<Rightarrow> 'm protobuf_msg \<Rightarrow> 'm protobuf_msg outcome) \<Rightarrow>
   (tag \<Rightarrow> int \<Rightarrow> 'm protobuf_msg \<Rightarrow> 'v outcome) \<Rightarrow> bool" where
  "implements_list pb ty ok set_repeated_x get_repeated_x \<longleftrightarrow>
     (\<forall>t pm m f. pm_m pm = Some m \<and> field_of pb m t = Some f \<and> fd_cpp_type f = ty \<and> fd_is_repeated f \<longrightarrow>
        (\<exists>xs. reads_list pb get_repeated_x t pm xs \<and>
           (\<forall>ps. (\<forall>p \<in> set ps. ok f (fst p)) \<longrightarrow>
              (\<exists>pm'. put_all set_repeated_x t ps pm = succeed pm' \<and>
                 reads_list pb get_repeated_x t pm' (fold (\<lambda>(v, i). put_at i v) ps xs) \<and>
                 (\<forall>t'. field_of pb m t' \<noteq> Some f \<longrightarrow> reads_same pb t' pm pm')))))"

lemma reads_same_trans: "reads_same pb t a b \<Longrightarrow> reads_same pb t b c \<Longrightarrow> reads_same pb t a c"
  by (simp add: reads_same_def)

lemma reads_same_refl: "reads_same pb t a a"
  by (simp add: reads_same_def)

lemma put_all_values:
  assumes "lookup_laws pb" "repeated_laws pb calls ty"
    and "\<forall>v i (pm :: 'm protobuf_msg) m. pm_m pm = Some m \<and> field_of pb m t = Some f \<and> ok f v \<longrightarrow>
           set_x t v i pm = set_repeated pb calls ty what t v i pm"
    and "pm_m pm = Some m" "field_of pb m t = Some f" "on_field pb m f ty True"
    and "holds_values pb calls m f xs" "\<forall>p \<in> set ps. ok f (fst p)"
  shows "\<exists>pm' m'. put_all set_x t ps pm = succeed pm' \<and> pm_m pm' = Some m' \<and>
           GetDescriptor pb m' = GetDescriptor pb m \<and>
           holds_values pb calls m' f (fold (\<lambda>(v, i). put_at i v) ps xs) \<and>
           (\<forall>t'. field_of pb m t' \<noteq> Some f \<longrightarrow> reads_same pb t' pm pm')"
  using assms(4-)
proof (induction ps arbitrary: pm m xs)
  case Nil
  then show ?case by (intro exI [of _ pm] exI [of _ m]) (simp add: reads_same_refl)
next
  case (Cons p ps)
  obtain v i where p: "p = (v, i)" by (cases p)
  with Cons.prems(5) have v: "ok f v" by simp
  from set_repeated_ok [OF assms(1,2) Cons.prems(1-4), of what v i] obtain m1 where
    m1: "set_repeated pb calls ty what t v i pm = succeed (pm\<lparr>pm_m := Some m1\<rparr>)"
      "holds_values pb calls m1 f (put_at i v xs)" "same_except pb m m1 f"
    by blast
  let ?pm = "pm\<lparr>pm_m := Some m1\<rparr>"
  have d: "GetDescriptor pb m1 = GetDescriptor pb m" using m1(3) by (simp add: same_except_def)
  have *: "pm_m ?pm = Some m1" "field_of pb m1 t = Some f" "on_field pb m1 f ty True"
    using Cons.prems(2,3) d by (simp_all add: field_of_def on_field_def)
  have "\<forall>p \<in> set ps. ok f (fst p)" using Cons.prems(5) by simp
  from Cons.IH [OF * m1(2) this] obtain pm' m' where
    IH: "put_all set_x t ps ?pm = succeed pm'" "pm_m pm' = Some m'" "GetDescriptor pb m' = GetDescriptor pb m1"
      "holds_values pb calls m' f (fold (\<lambda>(v, i). put_at i v) ps (put_at i v xs))"
      "\<forall>t'. field_of pb m1 t' \<noteq> Some f \<longrightarrow> reads_same pb t' ?pm pm'"
    by blast
  have "reads_same pb t' pm pm'" if "field_of pb m t' \<noteq> Some f" for t'
  proof -
    have "field_of pb m1 t' \<noteq> Some f" using that d by (simp add: field_of_def)
    with IH(5) have "reads_same pb t' ?pm pm'" by blast
    moreover have "reads_same pb t' pm ?pm"
      by (rule same_except_reads [OF m1(3) Cons.prems(1) _ assms(1) that]) simp
    ultimately show ?thesis by (blast intro: reads_same_trans)
  qed
  with IH m1(1) d p v Cons.prems(1,2) show ?case by (intro exI [of _ pm'] exI [of _ m']) (simp add: assms(3) [rule_format])
qed

lemma values_read:
  assumes "lookup_laws pb" "pm_m pm = Some m" "field_of pb m t = Some f" "on_field pb m f ty True"
    and "holds_values pb calls m f xs"
  shows "reads_list pb (get_repeated pb calls ty what) t pm xs"
  unfolding reads_list_def
  using get_repeated_values [OF assms] get_repeated_field_size_values [OF assms] by blast

lemma list_implemented:
  assumes "lookup_laws pb" "scalar_laws pb calls ty"
    and set_x: "\<And>v i t f pm m. pm_m pm = Some m \<Longrightarrow> field_of pb m t = Some f \<Longrightarrow> ok f v \<Longrightarrow>
           set_x t v i pm = set_repeated pb calls ty what t v i pm"
  shows "implements_list pb ty ok set_x (get_repeated pb calls ty what')"
  unfolding implements_list_def
proof (intro allI impI)
  fix t and pm :: "'a protobuf_msg" and m f
  assume *: "pm_m pm = Some m \<and> field_of pb m t = Some f \<and> fd_cpp_type f = ty \<and> fd_is_repeated f"
  then have on: "on_field pb m f ty True" using field_of_in [of pb m t f] by (simp add: on_field_def)
  have rep: "repeated_laws pb calls ty" using assms(2) by (simp add: scalar_laws_def)
  with on obtain xs where xs: "holds_values pb calls m f xs" unfolding repeated_laws_def by blast
  have "\<exists>pm'. put_all set_x t ps pm = succeed pm' \<and>
        reads_list pb (get_repeated pb calls ty what') t pm' (fold (\<lambda>(v, i). put_at i v) ps xs) \<and>
        (\<forall>t'. field_of pb m t' \<noteq> Some f \<longrightarrow> reads_same pb t' pm pm')" if ok: "\<forall>p \<in> set ps. ok f (fst p)" for ps
  proof -
    have "\<forall>v i pm m. pm_m pm = Some m \<and> field_of pb m t = Some f \<and> ok f v \<longrightarrow>
        set_x t v i pm = set_repeated pb calls ty what t v i pm"
      using set_x by blast
    from put_all_values [where ok = ok and set_x = set_x, OF assms(1) rep this _ _ on xs ok] * obtain pm' m' where
      p: "put_all set_x t ps pm = succeed pm'" "pm_m pm' = Some m'" "GetDescriptor pb m' = GetDescriptor pb m"
        "holds_values pb calls m' f (fold (\<lambda>(v, i). put_at i v) ps xs)"
        "\<forall>t'. field_of pb m t' \<noteq> Some f \<longrightarrow> reads_same pb t' pm pm'"
      by blast
    have "field_of pb m' t = Some f" "on_field pb m' f ty True"
      using * on p(3) by (simp_all add: field_of_def on_field_def)
    with p show ?thesis using values_read [OF assms(1) p(2) _ _ p(4)] by blast
  qed
  moreover have "reads_list pb (get_repeated pb calls ty what') t pm xs"
    using * on xs by (blast intro: values_read [OF assms(1)])
  ultimately show "\<exists>xs. reads_list pb (get_repeated pb calls ty what') t pm xs \<and>
      (\<forall>ps. (\<forall>p \<in> set ps. ok f (fst p)) \<longrightarrow>
         (\<exists>pm'. put_all set_x t ps pm = succeed pm' \<and>
            reads_list pb (get_repeated pb calls ty what') t pm' (fold (\<lambda>(v, i). put_at i v) ps xs) \<and>
            (\<forall>t'. field_of pb m t' \<noteq> Some f \<longrightarrow> reads_same pb t' pm pm')))"
    by blast
qed

text \<open>
  C15: A repeated field is a list: any sequence of \<open>set_repeated\<close> calls edits the list that the accessors read, an index
  inside the list replaces that element, every other index (negative ones too) appends; reading past the end
  throws \<^verbatim>\<open>std::out_of_range\<close>; no other field changes. For an enumeration the values must be known to it.
\<close>

theorem repeated_fields_are_lists:
  assumes "reflection_laws pb"
  shows "implements_list pb CPPTYPE_STRING (\<lambda>_ _. True) (set_repeated_blob pb) (get_repeated_blob pb) \<and>
    implements_list pb CPPTYPE_INT32 (\<lambda>_ _. True) (set_repeated_int32 pb) (get_repeated_int32 pb) \<and>
    implements_list pb CPPTYPE_UINT32 (\<lambda>_ _. True) (set_repeated_uint32 pb) (get_repeated_uint32 pb) \<and>
    implements_list pb CPPTYPE_INT64 (\<lambda>_ _. True) (set_repeated_int64 pb) (get_repeated_int64 pb) \<and>
    implements_list pb CPPTYPE_UINT64 (\<lambda>_ _. True) (set_repeated_uint64 pb) (get_repeated_uint64 pb) \<and>
    implements_list pb CPPTYPE_BOOL (\<lambda>_ _. True) (set_repeated_boolean pb) (get_repeated_boolean pb) \<and>
    implements_list pb CPPTYPE_ENUM (known_enum_value pb) (set_repeated_enum pb) (get_repeated_enum pb)"
proof -
  note laws = assms [unfolded reflection_laws_def]
  have "implements_list pb CPPTYPE_ENUM (known_enum_value pb) (set_repeated_enum pb) (get_repeated_enum pb)"
    unfolding get_repeated_enum_def
    by (rule list_implemented) (use laws in \<open>auto simp: known_enum_value_def set_enum_known(2)\<close>)
  then show ?thesis
    using laws unfolding scalar_accessor_defs
    by (intro conjI list_implemented [where ok = "\<lambda>_ _. True"]) (assumption | simp)+
qed

section \<open>Messages in messages\<close>

lemma copy_message_id: "message_laws pb \<Longrightarrow> copy_message pb m = m"
  by (simp add: message_laws_def copy_message_def)

text \<open>
  A message stored in a field is read back as a copy with the number of its schema, provided that its type is
  that of the field and that the factory knows the type; no other field changes. A message of another type is refused.
\<close>

theorem message_round_trip:
  assumes laws: "lookup_laws pb" "message_laws pb" and m: "pm_m pm = Some m" and sub: "pm_m sub = Some s"
    and f: "field_of pb m t = Some f" "fd_cpp_type f = CPPTYPE_MESSAGE" "\<not> fd_is_repeated f"
  shows "if d_full_name (GetDescriptor pb s) = fd_message_type f
     then \<exists>pm'. set_message pb t sub pm = succeed pm' \<and>
       (\<forall>i fa. get_schema_id fa (fd_message_type f) = return i \<longrightarrow>
          get_message pb fa t pm' = succeed (Some \<lparr>pm_m = Some s, pm_schema_id = i\<rparr>)) \<and>
       (\<forall>t'. field_of pb m t' \<noteq> Some f \<longrightarrow> reads_same pb t' pm pm')
     else \<exists>e. set_message pb t sub pm = Some (throw (Invalid_argument e))"
proof (cases "d_full_name (GetDescriptor pb s) = fd_message_type f")
  case True
  have on: "on_field pb m f CPPTYPE_MESSAGE False" using f field_of_in [OF f(1)] by (simp add: on_field_def)
  with laws(2) True obtain m' where m': "SetAllocatedMessage pb m s f = Some m'" "HasField pb m' f = Some True"
      "GetMessage pb m' f = Some s" "same_except pb m m' f"
    unfolding message_laws_def by blast
  let ?pm = "pm\<lparr>pm_m := Some m'\<rparr>"
  have d: "GetDescriptor pb m' = GetDescriptor pb m" using m'(4) by (simp add: same_except_def)
  have f': "field_of pb m' t = Some f" "on_field pb m' f CPPTYPE_MESSAGE False"
    using f on d by (simp_all add: field_of_def on_field_def)
  have name: "GetTypeName pb s = fd_message_type f" using True laws(2) by (simp add: message_laws_def)
  have "set_message pb t sub pm = succeed ?pm"
    using laws m sub f on True m'(1)
    by (simp add: set_message_def single_field_ok same_message_type_def copy_message_id assign_def)
  moreover have "get_message pb fa t ?pm = succeed (Some \<lparr>pm_m = Some s, pm_schema_id = i\<rparr>)"
    if "get_schema_id fa (fd_message_type f) = return i" for i fa
    using that laws f' m' name
    by (simp add: get_message_def single_field_ok wrap_copy_def copy_message_id Let_def)
  moreover have "reads_same pb t' pm ?pm" if "field_of pb m t' \<noteq> Some f" for t'
    by (rule same_except_reads [OF m'(4) m _ laws(1) that]) simp
  ultimately show ?thesis using True by auto
next
  case False
  have "on_field pb m f CPPTYPE_MESSAGE False" using f field_of_in [OF f(1)] by (simp add: on_field_def)
  with False laws m sub f(1) show ?thesis
    by (auto simp: set_message_def single_field_ok same_message_type_def Let_def)
qed

text \<open>A field number that no field has: the description of the field reads through a null pointer.\<close>

lemma field_info_unknown_tag:
  "lookup_laws pb \<Longrightarrow> pm_m pm = Some m \<Longrightarrow> field_of pb m t = None \<Longrightarrow> get_field_info_by_tag pb t pm = None"
  by (simp add: get_field_info_by_tag_def lookup_laws_def field_of_def)

text \<open>An empty wrapper as the value of a message field: a null pointer is read.\<close>

lemma set_message_null:
  assumes "lookup_laws pb" "pm_m pm = Some m" "field_of pb m t = Some f" "fd_cpp_type f = CPPTYPE_MESSAGE"
    "\<not> fd_is_repeated f" "pm_m sub = None"
  shows "set_message pb t sub pm = None"
  using assms field_of_in [OF assms(3)] by (simp add: set_message_def single_field_ok on_field_def)

end
