(* ===== verification/Proto_Import.thy ===== *)
theory Proto_Import
  imports Proto_Laws
begin

text \<open>
  Properties of the message factory: what an import adds, the invariant that ties names to numbers, that a
  failed import adds nothing, and that every field of an imported message has a supported description.
\<close>

section \<open>The messages of a file in order\<close>

text \<open>A message before the messages nested in it; the enumerations of a message before those of its nested messages.\<close>

fun flat :: "descriptor \<Rightarrow> descriptor list" where
  "flat (Descriptor nm full fs ns es oc) = Descriptor nm full fs ns es oc # concat (map flat ns)"

fun flat_enums :: "descriptor \<Rightarrow> enum_descriptor list" where
  "flat_enums (Descriptor nm full fs ns es oc) = es @ concat (map flat_enums ns)"

definition file_messages :: "file_descriptor \<Rightarrow> descriptor list" where
  "file_messages fd = concat (map flat (f_message_types fd))"

definition file_enums :: "file_descriptor \<Rightarrow> enum_descriptor list" where
  "file_enums fd = concat (map flat_enums (f_message_types fd)) @ f_enum_types fd"

lemma fold_fold_concat: "(\<And>x s. x \<in> set xs \<Longrightarrow> g x s = fold f (h x) s) \<Longrightarrow> fold g xs s = fold f (concat (map h xs)) s"
  by (induction xs arbitrary: s) auto

lemma extract_nested_messages_fold:
  "extract_nested_messages pb d fa = fold (push_schema pb) (concat (map flat (d_nested_types d))) fa"
proof (induction pb d fa rule: extract_nested_messages.induct)
  case (1 pb nm full fs ns es oc fa)
  have *: "extract_nested_messages pb d (push_schema pb d fa') = fold (push_schema pb) (flat d) fa'"
    if "d \<in> set ns" for d fa'
  proof -
    have "flat d = d # concat (map flat (d_nested_types d))" by (cases d) simp
    then show ?thesis using "1" that by simp
  qed
  show ?case by (simp add: fold_fold_concat [where f = "push_schema pb" and h = flat, OF *])
qed

lemma extract_nested_enums_fold: "extract_nested_enums d fa = fold push_enum (flat_enums d) fa"
proof (induction d fa rule: extract_nested_enums.induct)
  case (1 nm full fs ns es oc fa)
  then show ?case
    by (simp add: fold_fold_concat [where f = push_enum and h = flat_enums and xs = ns])
qed

lemma import_message_fold:
  "import_message pb d fa = fold push_enum (flat_enums d) (fold (push_schema pb) (flat d) fa)"
  by (cases d) (simp add: import_message_def extract_nested_messages_fold extract_nested_enums_fold)

section \<open>The tables after a series of additions\<close>

lemma push_schema_sel [simp]:
  "fa_pool (push_schema pb d fa) = fa_pool fa" "fa_enums (push_schema pb d fa) = fa_enums fa"
  "fa_enums_names (push_schema pb d fa) = fa_enums_names fa"
  "fa_schemas (push_schema pb d fa) = fa_schemas fa @ [GetPrototype pb d]"
  "fa_schemas_names (push_schema pb d fa) = (fa_schemas_names fa)(d_full_name d \<mapsto> length (fa_schemas fa))"
  by (simp_all add: push_schema_def)

lemma push_enum_sel [simp]:
  "fa_pool (push_enum e fa) = fa_pool fa" "fa_schemas (push_enum e fa) = fa_schemas fa"
  "fa_schemas_names (push_enum e fa) = fa_schemas_names fa" "fa_enums (push_enum e fa) = fa_enums fa @ [e]"
  "fa_enums_names (push_enum e fa) = (fa_enums_names fa)(ed_full_name e \<mapsto> length (fa_enums fa))"
  by (simp_all add: push_enum_def)

lemma fold_push_schema_sel [simp]:
  "fa_pool (fold (push_schema pb) ds fa) = fa_pool fa" "fa_enums (fold (push_schema pb) ds fa) = fa_enums fa"
  "fa_enums_names (fold (push_schema pb) ds fa) = fa_enums_names fa"
  "fa_schemas (fold (push_schema pb) ds fa) = fa_schemas fa @ map (GetPrototype pb) ds"
  by (induction ds arbitrary: fa) simp_all

lemma fold_push_enum_sel [simp]:
  "fa_pool (fold push_enum es fa) = fa_pool fa" "fa_schemas (fold push_enum es fa) = fa_schemas fa"
  "fa_schemas_names (fold push_enum es fa) = fa_schemas_names fa"
  "fa_enums (fold push_enum es fa) = fa_enums fa @ es"
  by (induction es arbitrary: fa) simp_all

lemma fold_import_message_sel [simp]:
  "fa_pool (fold (import_message pb) ds fa) = fa_pool fa"
  "fa_schemas (fold (import_message pb) ds fa) = fa_schemas fa @ map (GetPrototype pb) (concat (map flat ds))"
  "fa_enums (fold (import_message pb) ds fa) = fa_enums fa @ concat (map flat_enums ds)"
  by (induction ds arbitrary: fa) (simp_all add: import_message_fold)

section \<open>The invariant\<close>

text \<open>The documented relation between the type of a field and the C++ type that represents it.\<close>

fun cpp_type_of :: "proto_type \<Rightarrow> cpp_type" where
  "cpp_type_of TYPE_DOUBLE = CPPTYPE_DOUBLE"
| "cpp_type_of TYPE_FLOAT = CPPTYPE_FLOAT"
| "cpp_type_of TYPE_INT64 = CPPTYPE_INT64"
| "cpp_type_of TYPE_UINT64 = CPPTYPE_UINT64"
| "cpp_type_of TYPE_INT32 = CPPTYPE_INT32"
| "cpp_type_of TYPE_FIXED64 = CPPTYPE_UINT64"
| "cpp_type_of TYPE_FIXED32 = CPPTYPE_UINT32"
| "cpp_type_of TYPE_BOOL = CPPTYPE_BOOL"
| "cpp_type_of TYPE_STRING = CPPTYPE_STRING"
| "cpp_type_of TYPE_GROUP = CPPTYPE_MESSAGE"
| "cpp_type_of TYPE_MESSAGE = CPPTYPE_MESSAGE"
| "cpp_type_of TYPE_BYTES = CPPTYPE_STRING"
| "cpp_type_of TYPE_UINT32 = CPPTYPE_UINT32"
| "cpp_type_of TYPE_ENUM = CPPTYPE_ENUM"
| "cpp_type_of TYPE_SFIXED32 = CPPTYPE_INT32"
| "cpp_type_of TYPE_SFIXED64 = CPPTYPE_INT64"
| "cpp_type_of TYPE_SINT32 = CPPTYPE_INT32"
| "cpp_type_of TYPE_SINT64 = CPPTYPE_INT64"

definition coherent_fields :: "descriptor \<Rightarrow> bool" where
  "coherent_fields d \<longleftrightarrow> (\<forall>f \<in> set (d_fields d). fd_cpp_type f = cpp_type_of (fd_type f))"

text \<open>
  Laws of the pool and of the prototypes it makes: a prototype has the descriptor it was made for; a file built
  without a report exists, is found by its name from then on and has coherent fields.
\<close>

definition pool_laws :: "('m, 'p) protobuf \<Rightarrow> bool" where
  "pool_laws pb \<longleftrightarrow>
     (\<forall>d. GetDescriptor pb (GetPrototype pb d) = d) \<and>
     (\<forall>m. GetTypeName pb m = d_full_name (GetDescriptor pb m)) \<and>
     (\<forall>m. GetDescriptor pb (New pb m) = GetDescriptor pb m) \<and>
     (\<forall>p fdp p' fd. BuildFileCollectingErrors pb p fdp = (p', fd, []) \<longrightarrow>
        FindFileByName pb p' (fpr_name fdp) \<and>
        (\<exists>f. fd = Some f \<and> (\<forall>d \<in> set (file_messages f). coherent_fields d)))"

text \<open>
  Names and numbers of schemas and of enumerations: a name stands for the number of an entry of that name, every
  entry's name stands for some number; every schema has supported fields only.
\<close>

definition factory_ok :: "('m, 'p) protobuf \<Rightarrow> ('m, 'p) protobuf_factory \<Rightarrow> bool" where
  "factory_ok pb fa \<longleftrightarrow>
     (\<forall>name i. fa_schemas_names fa name = Some i \<longrightarrow>
        i < length (fa_schemas fa) \<and> GetTypeName pb (fa_schemas fa ! i) = name) \<and>
     (\<forall>m \<in> set (fa_schemas fa). fa_schemas_names fa (GetTypeName pb m) \<noteq> None) \<and>
     (\<forall>name i. fa_enums_names fa name = Some i \<longrightarrow>
        i < length (fa_enums fa) \<and> ed_full_name (fa_enums fa ! i) = name) \<and>
     (\<forall>e \<in> set (fa_enums fa). fa_enums_names fa (ed_full_name e) \<noteq> None) \<and>
     (\<forall>m \<in> set (fa_schemas fa). \<not> contain_invalid_data (GetDescriptor pb m) \<and> coherent_fields (GetDescriptor pb m))"

lemma invalid_nested: "fold (\<lambda>d ans. ans \<or> contain_invalid_data d) ns b \<longleftrightarrow> b \<or> (\<exists>d \<in> set ns. contain_invalid_data d)"
  by (induction ns arbitrary: b) auto

lemma flat_valid: "\<not> contain_invalid_data d \<Longrightarrow> x \<in> set (flat d) \<Longrightarrow> \<not> contain_invalid_data x"
  by (induction d rule: flat.induct) (auto simp: invalid_nested split: if_splits)

lemma factory_ok_push_schema:
  "pool_laws pb \<Longrightarrow> factory_ok pb fa \<Longrightarrow> \<not> contain_invalid_data d \<Longrightarrow> coherent_fields d \<Longrightarrow>
   factory_ok pb (push_schema pb d fa)"
  unfolding factory_ok_def pool_laws_def by (auto simp: nth_append less_Suc_eq)

lemma factory_ok_push_enum: "factory_ok pb fa \<Longrightarrow> factory_ok pb (push_enum e fa)"
  unfolding factory_ok_def by (auto simp: nth_append less_Suc_eq)

lemma factory_ok_push_schemas:
  "pool_laws pb \<Longrightarrow> factory_ok pb fa \<Longrightarrow> \<forall>d \<in> set ds. \<not> contain_invalid_data d \<and> coherent_fields d \<Longrightarrow>
   factory_ok pb (fold (push_schema pb) ds fa)"
  by (induction ds arbitrary: fa) (simp_all add: factory_ok_push_schema)

lemma factory_ok_push_enums: "factory_ok pb fa \<Longrightarrow> factory_ok pb (fold push_enum es fa)"
  by (induction es arbitrary: fa) (simp_all add: factory_ok_push_enum)

lemma factory_ok_import_messages:
  "pool_laws pb \<Longrightarrow> factory_ok pb fa \<Longrightarrow>
   \<forall>d \<in> set (concat (map flat ds)). \<not> contain_invalid_data d \<and> coherent_fields d \<Longrightarrow>
   factory_ok pb (fold (import_message pb) ds fa)"
  by (induction ds arbitrary: fa) (simp_all add: import_message_fold factory_ok_push_schemas factory_ok_push_enums)

lemma factory_ok_pool [simp]: "factory_ok pb (fa\<lparr>fa_pool := p\<rparr>) = factory_ok pb fa"
  by (simp add: factory_ok_def)

section \<open>Outcomes of an import\<close>

lemma proto_report_count: "pe_errors_number (fold proto_report rs c) = pe_errors_number c + length rs"
proof (induction rs arbitrary: c)
  case (Cons r rs)
  then show ?case by (cases r) simp_all
qed simp

text \<open>The only two outcomes: an exception, with at most the pool changed, or the messages and enumerations of the built file added.\<close>

lemma import_cases:
  assumes "pool_laws pb" "import_from_file_proto pb fdp name package fa = Some (fa', fdp', r)"
  obtains (error) e p where "r = throw (Runtime_error e)" "fa' = fa\<lparr>fa_pool := p\<rparr>"
  | (imported) p fd where "r = return ()"
      "BuildFileCollectingErrors pb (fa_pool fa) (fdp\<lparr>fpr_package := package, fpr_name := name\<rparr>) = (p, Some fd, [])"
      "\<forall>d \<in> set (f_message_types fd). \<not> contain_invalid_data d"
      "fa' = fold push_enum (f_enum_types fd) (fold (import_message pb) (f_message_types fd) (fa\<lparr>fa_pool := p\<rparr>))"
proof -
  obtain p fd rs where b: "BuildFileCollectingErrors pb (fa_pool fa) (fdp\<lparr>fpr_package := package, fpr_name := name\<rparr>) =
      (p, fd, rs)"
    by (cases "BuildFileCollectingErrors pb (fa_pool fa) (fdp\<lparr>fpr_package := package, fpr_name := name\<rparr>)") auto
  have same: "r = throw (Runtime_error e) \<Longrightarrow> fa' = fa \<Longrightarrow> thesis" for e by (rule error [of e "fa_pool fa"]) simp_all
  show thesis
    using assms(2) b same error imported
    unfolding import_from_file_proto_def Let_def
    by (auto simp: proto_report_count proto_errors_new_def find_None_iff split: if_splits option.splits)
qed

lemma import_returns:
  assumes "pool_laws pb"
  shows "\<exists>r. import_from_file_proto pb fdp name package fa = Some r"
proof -
  obtain p fd rs where b: "BuildFileCollectingErrors pb (fa_pool fa) (fdp\<lparr>fpr_package := package, fpr_name := name\<rparr>) =
      (p, fd, rs)"
    by (cases "BuildFileCollectingErrors pb (fa_pool fa) (fdp\<lparr>fpr_package := package, fpr_name := name\<rparr>)") auto
  have "rs = [] \<Longrightarrow> fd \<noteq> None" using assms b unfolding pool_laws_def by blast
  with b show ?thesis
    by (auto simp: import_from_file_proto_def Let_def proto_report_count proto_errors_new_def split: option.splits)
qed

lemma import_keeps_ok:
  assumes "pool_laws pb" "factory_ok pb fa" "import_from_file_proto pb fdp name package fa = Some (fa', fdp', r)"
  shows "factory_ok pb fa'"
  using assms(1,3)
proof (cases rule: import_cases)
  case (imported p fd)
  have "\<forall>d \<in> set (file_messages fd). coherent_fields d"
    using imported(2) assms(1) unfolding pool_laws_def by blast
  moreover have "\<forall>d \<in> set (file_messages fd). \<not> contain_invalid_data d"
    using imported(3) flat_valid by (auto simp: file_messages_def)
  ultimately have "factory_ok pb (fold (import_message pb) (f_message_types fd) (fa\<lparr>fa_pool := p\<rparr>))"
    by (intro factory_ok_import_messages assms(1)) (simp_all add: assms(2) file_messages_def)
  then show ?thesis by (simp add: imported(4) factory_ok_push_enums)
qed (simp add: assms(2))

section \<open>Factories in use\<close>

text \<open>The factories that arise from a new one by imports, successful or not.\<close>

inductive factory_reachable :: "('m, 'p) protobuf \<Rightarrow> ('m, 'p) protobuf_factory \<Rightarrow> bool" for pb where
  start: "factory_reachable pb (new_factory pb)"
| import: "factory_reachable pb fa \<Longrightarrow> import_schema pb s name package fa = Some (fa', s', r) \<Longrightarrow>
    factory_reachable pb fa'"

lemma import_schema_file:
  "import_schema pb s name package fa = Some (fa', s', r) \<Longrightarrow>
   \<exists>fdp'. import_from_file_proto pb (ps_file_descriptor_proto s) name package fa = Some (fa', fdp', r) \<and>
     s' = s\<lparr>ps_file_descriptor_proto := fdp'\<rparr>"
  by (auto simp: import_schema_def)

lemma reachable_ok: "factory_reachable pb fa \<Longrightarrow> pool_laws pb \<Longrightarrow> factory_ok pb fa"
proof (induction rule: factory_reachable.induct)
  case start
  show ?case by (simp add: factory_ok_def new_factory_def)
next
  case (import fa s name package fa' s' r)
  then show ?case by (meson import_keeps_ok import_schema_file)
qed

lemma checked_schema_in [simp]: "i < length (fa_schemas fa) \<Longrightarrow> checked_schema fa i = succeed (fa_schemas fa ! i)"
  by (simp add: checked_schema_def succeed_def)

lemma checked_enum_in [simp]: "i < length (fa_enums fa) \<Longrightarrow> checked_enum fa i = succeed (fa_enums fa ! i)"
  by (simp add: checked_enum_def succeed_def)

lemma get_schema_id_return: "get_schema_id fa name = return i \<longleftrightarrow> fa_schemas_names fa name = Some i"
  by (simp add: get_schema_id_def split: option.splits)

lemma get_enum_id_return: "get_enum_id fa name = return i \<longleftrightarrow> fa_enums_names fa name = Some i"
  by (simp add: get_enum_id_def split: option.splits)

lemma new_message_named:
  assumes "pool_laws pb" "factory_ok pb fa" "get_schema_id fa name = return i"
  shows "\<exists>pm. new_message_by_name pb fa name = succeed pm \<and> get_message_type pb pm = succeed name \<and>
           msg_get_schema_id pm = i"
proof -
  have i: "i < length (fa_schemas fa)" "GetTypeName pb (fa_schemas fa ! i) = name"
    using assms(2,3) by (auto simp: factory_ok_def get_schema_id_return)
  have "GetTypeName pb (New pb (fa_schemas fa ! i)) = name" using assms(1) i(2) by (simp add: pool_laws_def)
  with assms(3) i(1) show ?thesis
    by (intro exI [of _ "\<lparr>pm_m = Some (New pb (fa_schemas fa ! i)), pm_schema_id = i\<rparr>"])
      (simp add: new_message_by_name_def new_message_by_id_def get_message_type_def msg_get_schema_id_def)
qed

text \<open>
  C17: In every factory that arises by imports, successful or not, names and numbers of schemas belong together: a
  name that has a number names the schema with that number, a new message made from the name has this type and
  number, and every schema and every enumeration can be found by its name.
\<close>

theorem factory_names_and_numbers:
  assumes "pool_laws pb" "factory_reachable pb fa"
  shows "(\<forall>name i. get_schema_id fa name = return i \<longrightarrow>
       i < get_schemas_number fa \<and> get_schema_name pb fa i = succeed name \<and>
       (\<exists>pm. new_message_by_name pb fa name = succeed pm \<and> get_message_type pb pm = succeed name \<and>
          msg_get_schema_id pm = i)) \<and>
     (\<forall>i < get_schemas_number fa. \<exists>name j. get_schema_name pb fa i = succeed name \<and> get_schema_id fa name = return j) \<and>
     (\<forall>name i. get_enum_id fa name = return i \<longrightarrow> i < get_enums_number fa \<and> ed_full_name (fa_enums fa ! i) = name) \<and>
     (\<forall>i < get_enums_number fa. \<exists>j. get_enum_id fa (ed_full_name (fa_enums fa ! i)) = return j)"
proof -
  have ok: "factory_ok pb fa" using assms(2,1) by (rule reachable_ok)
  have "i < get_schemas_number fa \<and> get_schema_name pb fa i = succeed name"
    if "get_schema_id fa name = return i" for name i
    using ok that by (auto simp: factory_ok_def get_schema_id_return get_schemas_number_def get_schema_name_def)
  moreover have "\<exists>name j. get_schema_name pb fa i = succeed name \<and> get_schema_id fa name = return j"
    if "i < get_schemas_number fa" for i
  proof -
    have "fa_schemas_names fa (GetTypeName pb (fa_schemas fa ! i)) \<noteq> None"
      using ok that by (simp add: factory_ok_def get_schemas_number_def)
    with that show ?thesis by (auto simp: get_schema_id_return get_schemas_number_def get_schema_name_def)
  qed
  moreover have "i < get_enums_number fa \<and> ed_full_name (fa_enums fa ! i) = name"
    if "get_enum_id fa name = return i" for name i
    using ok that by (auto simp: factory_ok_def get_enum_id_return get_enums_number_def)
  moreover have "\<exists>j. get_enum_id fa (ed_full_name (fa_enums fa ! i)) = return j" if "i < get_enums_number fa" for i
  proof -
    have "fa_enums_names fa (ed_full_name (fa_enums fa ! i)) \<noteq> None"
      using ok that by (simp add: factory_ok_def get_enums_number_def)
    then show ?thesis by (auto simp: get_enum_id_return)
  qed
  ultimately show ?thesis using new_message_named [OF assms(1) ok] by blast
qed

lemma fold_push_schema_names:
  "distinct (map d_full_name ds) \<Longrightarrow> k < length ds \<Longrightarrow>
   fa_schemas_names (fold (push_schema pb) ds fa) (d_full_name (ds ! k)) = Some (length (fa_schemas fa) + k)"
proof (induction ds arbitrary: fa k)
  case (Cons d ds)
  have other: "fa_schemas_names (fold (push_schema pb) es fa') x = fa_schemas_names fa' x"
    if "x \<notin> d_full_name ` set es" for es fa' x
    using that by (induction es arbitrary: fa') auto
  show ?case
  proof (cases k)
    case 0
    with Cons.prems show ?thesis by (simp add: other)
  next
    case (Suc j)
    with Cons show ?thesis by simp
  qed
qed simp

lemma fold_import_message_names:
  "fa_schemas_names (fold (import_message pb) ds fa) = fa_schemas_names (fold (push_schema pb) (concat (map flat ds)) fa)"
proof (induction ds arbitrary: fa)
  case (Cons d ds)
  have cong: "fa_schemas_names (fold (push_schema pb) es x) = fa_schemas_names (fold (push_schema pb) es y)"
    if "fa_schemas x = fa_schemas y" "fa_schemas_names x = fa_schemas_names y" for es and x y :: "('a, 'b) protobuf_factory"
    using that by (induction es arbitrary: x y) auto
  have "fa_schemas_names (fold (push_schema pb) (concat (map flat ds)) (import_message pb d fa)) =
      fa_schemas_names (fold (push_schema pb) (concat (map flat ds)) (fold (push_schema pb) (flat d) fa))"
    by (rule cong) (simp_all add: import_message_fold)
  then show ?case by (simp add: Cons)
qed simp

text \<open>
  A successful import appends the messages of the file, each followed by the messages nested in it, to the
  schemas: earlier numbers keep their schemas, the new ones follow in order, and when the names in the file differ
  the name of the \<open>k\<close>-th message stands for the \<open>k\<close>-th new number.
\<close>

theorem import_appends_messages:
  assumes "pool_laws pb" "import_schema pb s name package fa = Some (fa', s', return ())"
  shows "\<exists>p fd. BuildFileCollectingErrors pb (fa_pool fa)
       ((ps_file_descriptor_proto s)\<lparr>fpr_package := package, fpr_name := name\<rparr>) = (p, Some fd, []) \<and>
     get_schemas_number fa' = get_schemas_number fa + length (file_messages fd) \<and>
     (\<forall>i < get_schemas_number fa. get_schema_name pb fa' i = get_schema_name pb fa i) \<and>
     (\<forall>k < length (file_messages fd).
        get_schema_name pb fa' (get_schemas_number fa + k) = succeed (d_full_name (file_messages fd ! k)) \<and>
        (distinct (map d_full_name (file_messages fd)) \<longrightarrow>
           get_schema_id fa' (d_full_name (file_messages fd ! k)) = return (get_schemas_number fa + k))) \<and>
     fa_enums fa' = fa_enums fa @ file_enums fd"
proof -
  obtain fdp' where "import_from_file_proto pb (ps_file_descriptor_proto s) name package fa = Some (fa', fdp', return ())"
    using import_schema_file [OF assms(2)] by blast
  with assms(1) show ?thesis
  proof (cases rule: import_cases)
    case (imported p fd)
    let ?ms = "file_messages fd"
    have schemas: "fa_schemas fa' = fa_schemas fa @ map (GetPrototype pb) ?ms"
      and enums: "fa_enums fa' = fa_enums fa @ file_enums fd"
      by (simp_all add: imported(4) file_messages_def file_enums_def)
    have names: "fa_schemas_names fa' = fa_schemas_names (fold (push_schema pb) ?ms (fa\<lparr>fa_pool := p\<rparr>))"
      by (simp add: imported(4) fold_import_message_names file_messages_def)
    have "get_schema_name pb fa' i = get_schema_name pb fa i" if "i < get_schemas_number fa" for i
      using that by (simp add: get_schema_name_def get_schemas_number_def schemas nth_append)
    moreover have "get_schema_name pb fa' (get_schemas_number fa + k) = succeed (d_full_name (?ms ! k))"
      if "k < length ?ms" for k
      using that assms(1) by (simp add: get_schema_name_def get_schemas_number_def schemas nth_append pool_laws_def)
    moreover have "get_schema_id fa' (d_full_name (?ms ! k)) = return (get_schemas_number fa + k)"
      if "k < length ?ms" "distinct (map d_full_name ?ms)" for k
      using fold_push_schema_names [OF that(2,1), of pb "fa\<lparr>fa_pool := p\<rparr>"]
      by (simp add: get_schema_id_return names get_schemas_number_def)
    ultimately show ?thesis using imported(2) enums by (auto simp: get_schemas_number_def schemas)
  qed simp
qed

text \<open>
  An import always returns, and one that throws leaves every schema, enumeration and name of the factory as it
  was; only the pool may have changed.
\<close>

theorem failed_import_adds_nothing:
  assumes "pool_laws pb"
  shows "\<exists>fa' s' r. import_schema pb s name package fa = Some (fa', s', r) \<and>
    (r = return () \<or> (\<exists>e. r = throw (Runtime_error e)) \<and> (\<exists>p. fa' = fa\<lparr>fa_pool := p\<rparr>))"
proof -
  obtain fa' fdp' r where i: "import_from_file_proto pb (ps_file_descriptor_proto s) name package fa = Some (fa', fdp', r)"
    using import_returns [OF assms] by (metis prod_cases3)
  then have "import_schema pb s name package fa = Some (fa', s\<lparr>ps_file_descriptor_proto := fdp'\<rparr>, r)"
    by (simp add: import_schema_def)
  moreover have "r = return () \<or> (\<exists>e. r = throw (Runtime_error e)) \<and> (\<exists>p. fa' = fa\<lparr>fa_pool := p\<rparr>)"
    using assms i by (cases rule: import_cases) auto
  ultimately show ?thesis by blast
qed

text \<open>
  A file that the pool accepts without a report but that holds an unsupported message is refused and stays in
  the pool: no schema can be imported under its name afterwards, not even a corrected one.
\<close>

theorem refused_file_blocks_its_name:
  assumes "pool_laws pb" "import_schema pb s name package fa = Some (fa', s', throw e)"
    and "BuildFileCollectingErrors pb (fa_pool fa)
       ((ps_file_descriptor_proto s)\<lparr>fpr_package := package, fpr_name := name\<rparr>) = (p, fd, [])"
    and "\<not> FindFileByName pb (fa_pool fa) name"
    and "\<forall>dep \<in> set (fpr_dependency (ps_file_descriptor_proto s)). FindFileByName pb (fa_pool fa) dep"
  shows "\<exists>s3. import_schema pb s2 name package2 fa' =
    Some (fa', s3, throw (Runtime_error (''File with name <'' @ name @ ''> already exists.'')))"
proof -
  let ?fdp = "(ps_file_descriptor_proto s)\<lparr>fpr_package := package, fpr_name := name\<rparr>"
  obtain f where f: "fd = Some f" "FindFileByName pb p name"
    using assms(1,3) unfolding pool_laws_def by fastforce
  have "find (\<lambda>dep. \<not> FindFileByName pb (fa_pool fa) dep) (fpr_dependency ?fdp) = None"
    using assms(5) by (simp add: find_None_iff)
  then have "fa' = fa\<lparr>fa_pool := p\<rparr>"
    using import_schema_file [OF assms(2)] assms(3,4) f
    by (auto simp: import_from_file_proto_def Let_def proto_report_count proto_errors_new_def split: option.splits)
  with f(2) show ?thesis by (simp add: import_schema_def import_from_file_proto_def Let_def)
qed

section \<open>Fields of imported messages\<close>

lemma supported_cpp_type:
  "protobuf_type_to_type t = Some x \<Longrightarrow> protobuf_ccptype_to_type (cpp_type_of t) = Some x"
  by (cases t) auto

text \<open>
  Every field of every schema of a factory has a description with one of the supported types, the same whether it
  is derived from the type in the schema or from the C++ type; an index past the fields throws.
\<close>

theorem field_info_supported:
  assumes "pool_laws pb" "factory_reachable pb fa" "i < get_schemas_number fa"
  shows "\<exists>n. get_fields_number pb fa i = succeed n \<and>
    (\<forall>k < n. \<exists>info f. get_field_info pb fa i k = succeed info \<and> f = d_fields (GetDescriptor pb (fa_schemas fa ! i)) ! k \<and>
       fi_name info = fd_name f \<and> fi_is_repeated info = fd_is_repeated f \<and>
       protobuf_type_to_type (fd_type f) = Some (fi_type info) \<and> fi_type info \<noteq> unknown) \<and>
    (\<forall>k \<ge> n. get_field_info pb fa i k = Some (throw (Out_of_range (''No field with such index: '' @ to_string k))))"
proof -
  let ?d = "GetDescriptor pb (fa_schemas fa ! i)"
  have ok: "factory_ok pb fa" using assms(2,1) by (rule reachable_ok)
  have i: "i < length (fa_schemas fa)" using assms(3) by (simp add: get_schemas_number_def)
  have d: "\<not> contain_invalid_data ?d" "coherent_fields ?d" using ok i by (auto simp: factory_ok_def)
  have "\<exists>info. field_info_of f = succeed info \<and> fi_name info = fd_name f \<and> fi_is_repeated info = fd_is_repeated f \<and>
      protobuf_type_to_type (fd_type f) = Some (fi_type info) \<and> fi_type info \<noteq> unknown" if "f \<in> set (d_fields ?d)" for f
  proof -
    have "\<not> unsupported_field f" using that d(1) by (cases ?d) (auto simp: list_ex_iff split: if_splits)
    then obtain x where x: "protobuf_type_to_type (fd_type f) = Some x" by (auto simp: unsupported_field_def)
    have "fd_cpp_type f = cpp_type_of (fd_type f)" using that d(2) by (simp add: coherent_fields_def)
    with x show ?thesis
      by (cases "fd_type f") (auto simp: field_info_of_def map_at_def succeed_def)
  qed
  then show ?thesis
    using i by (intro exI [of _ "length (d_fields ?d)"]) (auto simp: get_fields_number_def get_field_info_def Let_def)
qed

text \<open>A warning of the library counts as an error: the import throws although the file was built.\<close>

lemma warning_refuses_import:
  assumes "BuildFileCollectingErrors pb (fa_pool fa)
       ((ps_file_descriptor_proto s)\<lparr>fpr_package := package, fpr_name := name\<rparr>) = (p, Some fd, [Build_Warning a b c])"
    and "\<not> FindFileByName pb (fa_pool fa) name" "fpr_dependency (ps_file_descriptor_proto s) = []"
  shows "\<exists>s' e. import_schema pb s name package fa = Some (fa\<lparr>fa_pool := p\<rparr>, s', throw (Runtime_error e))"
  using assms by (simp add: import_schema_def import_from_file_proto_def Let_def proto_errors_new_def)

end
