(* ===== verification/Proto_Round_Trip.thy ===== *)
theory Proto_Round_Trip
  imports Proto_Import
begin

text \<open>
  The schema builder and the factory together: a message described field by field, imported and asked for its
  fields gives back the descriptions. Only the four scalar types that the builder can translate take part; the
  two others leave a half-made field behind.
\<close>

section \<open>Building a message\<close>

text \<open>A client that adds fields one by one and stops at the first exception.\<close>

fun add_scalar_fields :: "field_info list \<Rightarrow> int \<Rightarrow> protobuf_schema \<Rightarrow> (protobuf_schema \<times> unit throws) option" where
  "add_scalar_fields [] i s = Some (s, return ())"
| "add_scalar_fields (fi # fis) i s =
     (case add_scalar_field fi i s of
        None \<Rightarrow> None
      | Some (s, Inl e) \<Rightarrow> Some (s, throw e)
      | Some (s, Inr _) \<Rightarrow> add_scalar_fields fis i s)"

definition buildable :: "field_info \<Rightarrow> bool" where
  "buildable fi \<longleftrightarrow> fi_type fi \<in> {blob, boolean, int32, uint32}"

text \<open>The field the builder writes for a description.\<close>

definition written_field :: "field_info \<Rightarrow> field_proto" where
  "written_field fi = set_label (fi_is_repeated fi)
     (new_field\<lparr>fp_name := fi_name fi, fp_type := the (type_to_protobuf_type (fi_type fi)), fp_number := sint (fi_tag fi)\<rparr>)"

lemma add_scalar_field_buildable:
  "buildable fi \<Longrightarrow> message_in_bounds i s \<Longrightarrow>
   add_scalar_field fi i s = Some (change_message i (add_field (written_field fi)) s, return ())"
  by (auto simp: add_scalar_field_def buildable_def written_field_def)

lemma change_message_sel [simp]:
  "ps_file_descriptor_proto (change_message i f s) = ps_file_descriptor_proto s"
  "ps_enums (change_message i f s) = ps_enums s"
  "length (ps_messages (change_message i f s)) = length (ps_messages s)"
  by (simp_all add: change_message_def)

lemma add_scalar_fields_buildable:
  "\<forall>fi \<in> set fis. buildable fi \<Longrightarrow> message_in_bounds i s \<Longrightarrow>
   \<exists>s'. add_scalar_fields fis i s = Some (s', return ()) \<and>
     ps_file_descriptor_proto s' = ps_file_descriptor_proto s \<and> ps_enums s' = ps_enums s \<and>
     ps_messages s' = (ps_messages s)[nat i :=
       (let d = ps_messages s ! nat i
        in Message_Proto (dp_name d) (dp_field d @ map written_field fis) (dp_nested_type d) (dp_enum_type d))]"
proof (induction fis arbitrary: s)
  case Nil
  then show ?case by (simp add: Let_def)
next
  case (Cons fi fis)
  let ?s = "change_message i (add_field (written_field fi)) s"
  have "message_in_bounds i ?s" using Cons.prems(2) by (simp add: message_in_bounds_def)
  from Cons.IH [OF _ this] Cons.prems obtain s' where
    s': "add_scalar_fields fis i ?s = Some (s', return ())" "ps_file_descriptor_proto s' = ps_file_descriptor_proto s"
      "ps_enums s' = ps_enums s"
      "ps_messages s' = (ps_messages ?s)[nat i := (let d = ps_messages ?s ! nat i
        in Message_Proto (dp_name d) (dp_field d @ map written_field fis) (dp_nested_type d) (dp_enum_type d))]"
    by auto
  have "nat i < length (ps_messages s)" using Cons.prems(2) by (simp add: message_in_bounds_def nat_less_iff)
  then have "ps_messages s' = (ps_messages s)[nat i := (let d = ps_messages s ! nat i
      in Message_Proto (dp_name d) (dp_field d @ map written_field (fi # fis)) (dp_nested_type d) (dp_enum_type d))]"
    by (simp add: s'(4) change_message_def add_field_def Let_def)
  with s' Cons.prems show ?case by (intro exI [of _ s']) (simp add: add_scalar_field_buildable)
qed

text \<open>Creating a message, adding fields, and adding the message to the file.\<close>

definition build_message :: "string \<Rightarrow> field_info list \<Rightarrow> protobuf_schema \<Rightarrow> protobuf_schema option" where
  "build_message name fis s =
     (let (s, i) = create_message name s
      in case add_scalar_fields fis (int i) s of
           Some (s, Inr _) \<Rightarrow> add_message (int i) s
         | _ \<Rightarrow> None)"

lemma build_message_file:
  assumes "\<forall>fi \<in> set fis. buildable fi"
  shows "\<exists>s'. build_message name fis s = Some s' \<and>
    ps_file_descriptor_proto s' = (ps_file_descriptor_proto s)
      \<lparr>fpr_message_type := fpr_message_type (ps_file_descriptor_proto s) @ [Message_Proto name (map written_field fis) [] []]\<rparr>"
proof -
  let ?i = "length (ps_messages s)"
  obtain s1 where c: "create_message name s = (s1, ?i)" "ps_messages s1 = ps_messages s @ [Message_Proto name [] [] []]"
    "ps_file_descriptor_proto s1 = ps_file_descriptor_proto s"
    by (simp add: create_message_def)
  have "message_in_bounds (int ?i) s1" by (simp add: message_in_bounds_def c)
  from add_scalar_fields_buildable [OF assms this] obtain s' where
    s': "add_scalar_fields fis (int ?i) s1 = Some (s', return ())" "ps_file_descriptor_proto s' = ps_file_descriptor_proto s"
      "ps_messages s' = ps_messages s @ [Message_Proto name (map written_field fis) [] []]"
    by (auto simp: c list_update_append)
  have "message_in_bounds (int ?i) s'" by (simp add: message_in_bounds_def s')
  then have "build_message name fis s = Some (s'\<lparr>ps_file_descriptor_proto := (ps_file_descriptor_proto s)
      \<lparr>fpr_message_type := fpr_message_type (ps_file_descriptor_proto s) @ [Message_Proto name (map written_field fis) [] []]\<rparr>\<rparr>)"
    by (subst build_message_def) (simp add: c(1) s' add_message_def)
  then show ?thesis by simp
qed

section \<open>From the builder to the factory\<close>

text \<open>
  What the library documents about the descriptors it builds: messages in the order of the file, named after
  the package, with the fields as written.
\<close>

definition built_field :: "field_proto \<Rightarrow> field_descriptor \<Rightarrow> bool" where
  "built_field fp f \<longleftrightarrow> fd_name f = fp_name fp \<and> fd_number f = fp_number fp \<and> fd_type f = fp_type fp \<and>
     fd_is_repeated f = (fp_label fp = LABEL_REPEATED)"

definition qualified_name :: "string \<Rightarrow> string \<Rightarrow> string" where
  "qualified_name package name = (if package = [] then name else package @ ''.'' @ name)"

definition built_message :: "string \<Rightarrow> descriptor_proto \<Rightarrow> descriptor \<Rightarrow> bool" where
  "built_message package dp d \<longleftrightarrow>
     d_full_name d = qualified_name package (dp_name dp) \<and> list_all2 built_field (dp_field dp) (d_fields d) \<and>
     length (d_nested_types d) = length (dp_nested_type dp)"

definition build_laws :: "('m, 'p) protobuf \<Rightarrow> bool" where
  "build_laws pb \<longleftrightarrow>
     (\<forall>p fdp p' fd. BuildFileCollectingErrors pb p fdp = (p', Some fd, []) \<longrightarrow>
        list_all2 (built_message (fpr_package fdp)) (fpr_message_type fdp) (f_message_types fd))"

lemma field_info_of_written:
  assumes "buildable fi" "built_field (written_field fi) f" "fd_cpp_type f = cpp_type_of (fd_type f)"
  shows "field_info_of f = succeed (fi\<lparr>fi_fully_qualified_type := []\<rparr>)"
proof -
  have f: "fd_name f = fi_name fi" "fd_number f = sint (fi_tag fi)" "fd_is_repeated f = fi_is_repeated fi"
    "fd_type f = the (type_to_protobuf_type (fi_type fi))"
    using assms(1,2) by (auto simp: built_field_def written_field_def set_label_def new_field_def)
  show ?thesis
    using assms(1,3) by (cases fi) (auto simp: buildable_def field_info_of_def map_at_def f)
qed

text \<open>
  C16: From the builder to the factory and back: a message described by fields of the types blob, boolean,
  \<^verbatim>\<open>int32\<close> and \<^verbatim>\<open>uint32\<close>, built with the schema builder and imported as the only message of a schema, is
  found under its qualified name, and the factory describes its fields exactly as they were given, in order.
\<close>

theorem schema_round_trip:
  assumes "pool_laws pb" "build_laws pb" "\<forall>fi \<in> set fis. buildable fi"
    and "build_message message_name fis new_schema = Some s"
    and "import_schema pb s name package fa = Some (fa', s', return ())"
  shows "\<exists>i. get_schema_id fa' (qualified_name package message_name) = return i \<and>
     get_fields_number pb fa' i = succeed (length fis) \<and>
     (\<forall>k < length fis. get_field_info pb fa' i k = succeed ((fis ! k)\<lparr>fi_fully_qualified_type := []\<rparr>))"
proof -
  let ?fdp = "(ps_file_descriptor_proto s)\<lparr>fpr_package := package, fpr_name := name\<rparr>"
  obtain s0 where "build_message message_name fis new_schema = Some s0"
    "ps_file_descriptor_proto s0 = (ps_file_descriptor_proto new_schema)
       \<lparr>fpr_message_type := fpr_message_type (ps_file_descriptor_proto new_schema) @ [Message_Proto message_name (map written_field fis) [] []]\<rparr>"
    using build_message_file [OF assms(3)] by blast
  then have msg: "fpr_message_type ?fdp = [Message_Proto message_name (map written_field fis) [] []]"
    using assms(4) by (simp add: new_schema_def new_file_proto_def)
  obtain fdp' where "import_from_file_proto pb (ps_file_descriptor_proto s) name package fa = Some (fa', fdp', return ())"
    using import_schema_file [OF assms(5)] by blast
  with assms(1) show ?thesis
  proof (cases rule: import_cases)
    case (imported p fd)
    have "list_all2 (built_message package) (fpr_message_type ?fdp) (f_message_types fd)"
      using assms(2) imported(2) unfolding build_laws_def by fastforce
    then obtain d where d: "f_message_types fd = [d]" "built_message package (Message_Proto message_name (map written_field fis) [] []) d"
      by (auto simp: msg list_all2_Cons1)
    then have name: "d_full_name d = qualified_name package message_name"
      and fields: "list_all2 built_field (map written_field fis) (d_fields d)" and "d_nested_types d = []"
      by (simp_all add: built_message_def)
    then have flat: "file_messages fd = [d]" using d(1) by (cases d) (simp add: file_messages_def)
    have schemas: "fa_schemas fa' = fa_schemas fa @ [GetPrototype pb d]"
      and names: "fa_schemas_names fa' = (fa_schemas_names fa)(d_full_name d \<mapsto> length (fa_schemas fa))"
      using flat by (simp_all add: imported(4) fold_import_message_names file_messages_def)
    have coherent: "coherent_fields d"
      using assms(1) imported(2) flat unfolding pool_laws_def by fastforce
    have len: "length (d_fields d) = length fis" using list_all2_lengthD [OF fields] by simp
    have desc: "GetDescriptor pb (GetPrototype pb d) = d" using assms(1) by (simp add: pool_laws_def)
    have "field_info_of (d_fields d ! k) = succeed ((fis ! k)\<lparr>fi_fully_qualified_type := []\<rparr>)" if "k < length fis" for k
      using that assms(3) coherent list_all2_nthD2 [OF fields, of k] len
      by (intro field_info_of_written) (auto simp: coherent_fields_def)
    then show ?thesis
      using len desc
      by (intro exI [of _ "length (fa_schemas fa)"])
        (simp add: get_schema_id_return names name get_fields_number_def get_field_info_def schemas Let_def)
  qed simp
qed

section \<open>64-bit fields\<close>

text \<open>
  The builder has no translation for the types \<^verbatim>\<open>int64\<close> and \<^verbatim>\<open>uint64\<close>, although they are scalar types of the
  schema: adding such a field throws \<^verbatim>\<open>std::out_of_range\<close> after a field was appended to the message, with the
  name given, number zero and the default type of a floating point number.
\<close>

theorem add_int64_leaves_half_field:
  assumes "fi_type fi = int64 \<or> fi_type fi = uint64" "message_in_bounds i s"
  shows "\<exists>s'. add_scalar_field fi i s = Some (s', throw (Out_of_range ''map::at'')) \<and>
     dp_field (ps_messages s' ! nat i) = dp_field (ps_messages s ! nat i) @ [new_field\<lparr>fp_name := fi_name fi\<rparr>] \<and>
     fp_type (last (dp_field (ps_messages s' ! nat i))) = TYPE_DOUBLE \<and>
     fp_number (last (dp_field (ps_messages s' ! nat i))) = 0"
proof -
  have "nat i < length (ps_messages s)" using assms(2) by (simp add: message_in_bounds_def nat_less_iff)
  with assms show ?thesis
    by (auto simp: add_scalar_field_def change_message_def add_field_def new_field_def)
qed

theorem add_int64_leaves_half_field_witness:
  "fi_type \<lparr>fi_tag = 1, fi_type = int64, fi_name = ''n'', fi_fully_qualified_type = [], fi_is_repeated = False\<rparr> = int64 \<and>
   message_in_bounds 0 (fst (create_message ''m'' new_schema)) \<and>
   (\<exists>s'. add_scalar_field \<lparr>fi_tag = 1, fi_type = int64, fi_name = ''n'', fi_fully_qualified_type = [], fi_is_repeated = False\<rparr>
      0 (fst (create_message ''m'' new_schema)) = Some (s', throw (Out_of_range ''map::at'')) \<and>
      dp_field (ps_messages s' ! 0) = [new_field\<lparr>fp_name := ''n''\<rparr>])"
proof -
  have "message_in_bounds 0 (fst (create_message ''m'' new_schema))"
    by (simp add: message_in_bounds_def create_message_def new_schema_def)
  moreover from add_int64_leaves_half_field [OF _ this, of
      "\<lparr>fi_tag = 1, fi_type = int64, fi_name = ''n'', fi_fully_qualified_type = [], fi_is_repeated = False\<rparr>"]
  have "\<exists>s'. add_scalar_field \<lparr>fi_tag = 1, fi_type = int64, fi_name = ''n'', fi_fully_qualified_type = [], fi_is_repeated = False\<rparr>
      0 (fst (create_message ''m'' new_schema)) = Some (s', throw (Out_of_range ''map::at'')) \<and>
      dp_field (ps_messages s' ! 0) = [new_field\<lparr>fp_name := ''n''\<rparr>]"
    by (auto simp: create_message_def new_schema_def)
  ultimately show ?thesis by simp
qed

end
