(* ===== verification/Proto_Instance.thy ===== *)
theory Proto_Instance
  imports Proto_Accessors Proto_Round_Trip
begin

text \<open>
  A small library that satisfies the laws, so that they can hold together, and the properties applied to it. A
  message is its descriptor with the values of the fields that were written; a pool is the list of the names of
  its files.
\<close>

section \<open>Messages\<close>

datatype sample_value =
    Blob_value string
  | Word32_value "32 word"
  | Word64_value "64 word"
  | Bool_value bool
  | Enum_value int
  | Message_value sample_message
and sample_message = Sample descriptor "(field_descriptor \<times> sample_value list) list"

primrec sample_descriptor :: "sample_message \<Rightarrow> descriptor" where
  "sample_descriptor (Sample d cs) = d"

primrec sample_cells :: "sample_message \<Rightarrow> (field_descriptor \<times> sample_value list) list" where
  "sample_cells (Sample d cs) = cs"

definition cell :: "sample_message \<Rightarrow> field_descriptor \<Rightarrow> sample_value list" where
  "cell m f = (case map_of (sample_cells m) f of None \<Rightarrow> [] | Some vs \<Rightarrow> vs)"

definition write_cell :: "sample_message \<Rightarrow> field_descriptor \<Rightarrow> sample_value list \<Rightarrow> sample_message" where
  "write_cell m f vs = Sample (sample_descriptor m) ((f, vs) # sample_cells m)"

definition allowed :: "sample_message \<Rightarrow> field_descriptor \<Rightarrow> cpp_type \<Rightarrow> bool \<Rightarrow> bool" where
  "allowed m f ty rep \<longleftrightarrow>
     f \<in> set (d_fields (sample_descriptor m)) \<and> fd_cpp_type f = ty \<and> fd_is_repeated f = rep"

definition sample_calls ::
  "('v \<Rightarrow> sample_value) \<Rightarrow> (sample_value \<Rightarrow> 'v) \<Rightarrow> 'v \<Rightarrow> cpp_type \<Rightarrow> (sample_message, 'v) accessors" where
  "sample_calls wr rd dflt ty = \<lparr>
     Get = (\<lambda>m f. if allowed m f ty False then Some (case cell m f of [] \<Rightarrow> dflt | x # _ \<Rightarrow> rd x) else None),
     Set = (\<lambda>m f v. if allowed m f ty False then Some (write_cell m f [wr v]) else None),
     GetRepeated = (\<lambda>m f i. if allowed m f ty True \<and> 0 \<le> i \<and> i < int (length (cell m f))
        then Some (rd (cell m f ! nat i)) else None),
     SetRepeated = (\<lambda>m f i v. if allowed m f ty True \<and> 0 \<le> i \<and> i < int (length (cell m f))
        then Some (write_cell m f ((cell m f)[nat i := wr v])) else None),
     Add = (\<lambda>m f v. if allowed m f ty True then Some (write_cell m f (cell m f @ [wr v])) else None)\<rparr>"

fun blob_of :: "sample_value \<Rightarrow> string" where
  "blob_of (Blob_value s) = s" | "blob_of _ = []"

fun word32_of :: "sample_value \<Rightarrow> 32 word" where
  "word32_of (Word32_value w) = w" | "word32_of _ = 0"

fun word64_of :: "sample_value \<Rightarrow> 64 word" where
  "word64_of (Word64_value w) = w" | "word64_of _ = 0"

fun bool_of :: "sample_value \<Rightarrow> bool" where
  "bool_of (Bool_value b) = b" | "bool_of _ = False"

fun enum_of :: "sample_value \<Rightarrow> int" where
  "enum_of (Enum_value i) = i" | "enum_of _ = 0"

fun message_of :: "sample_value \<Rightarrow> sample_message" where
  "message_of (Message_value m) = m" | "message_of _ = Sample (Descriptor [] [] [] [] [] 0) []"

section \<open>Files\<close>

definition sample_field :: "field_proto \<Rightarrow> field_descriptor" where
  "sample_field fp = \<lparr>fd_number = fp_number fp, fd_name = fp_name fp, fd_type = fp_type fp,
     fd_cpp_type = cpp_type_of (fp_type fp), fd_is_repeated = (fp_label fp = LABEL_REPEATED), fd_is_map = False,
     fd_message_type = fp_type_name fp, fd_enum_type = \<lparr>ed_full_name = fp_type_name fp, ed_values = []\<rparr>\<rparr>"

definition sample_enum :: "string \<Rightarrow> enum_proto \<Rightarrow> enum_descriptor" where
  "sample_enum scope ep = \<lparr>ed_full_name = qualified_name scope (ep_name ep),
     ed_values = map (\<lambda>v. \<lparr>evd_name = evp_name v, evd_number = evp_number v\<rparr>) (ep_value ep)\<rparr>"

fun sample_message_type :: "string \<Rightarrow> descriptor_proto \<Rightarrow> descriptor" where
  "sample_message_type scope (Message_Proto nm fs ns es) =
     (let full = qualified_name scope nm
      in Descriptor nm full (map sample_field fs) (map (sample_message_type full) ns) (map (sample_enum full) es) 0)"

definition sample_build ::
  "string list \<Rightarrow> file_proto \<Rightarrow> string list \<times> file_descriptor option \<times> build_report list" where
  "sample_build pool fdp = (fpr_name fdp # pool,
     Some \<lparr>f_message_types = map (sample_message_type (fpr_package fdp)) (fpr_message_type fdp),
       f_enum_types = map (sample_enum (fpr_package fdp)) (fpr_enum_type fdp)\<rparr>, [])"

section \<open>The library\<close>

definition sample_pb :: "(sample_message, string list) protobuf" where
  "sample_pb = \<lparr>
     FindFieldByNumber = (\<lambda>d n. find (\<lambda>f. fd_number f = n) (d_fields d)),
     FindFieldByName = (\<lambda>d s. find (\<lambda>f. fd_name f = s) (d_fields d)),
     FindValueByNumber = (\<lambda>e n. find (\<lambda>v. evd_number v = n) (ed_values e)),
     FindValueByName = (\<lambda>e s. find (\<lambda>v. evd_name v = s) (ed_values e)),
     cpp_type_name = (\<lambda>f. case protobuf_ccptype_to_type (fd_cpp_type f) of
        Some blob \<Rightarrow> ''string'' | Some t \<Rightarrow> type_name t | None \<Rightarrow> ''double''),
     GetDescriptor = sample_descriptor,
     GetTypeName = (\<lambda>m. d_full_name (sample_descriptor m)),
     New = (\<lambda>m. Sample (sample_descriptor m) []),
     CopyFrom = (\<lambda>x m. m),
     FieldSize = (\<lambda>m f. if f \<in> set (d_fields (sample_descriptor m)) \<and> fd_is_repeated f
        then Some (int (length (cell m f))) else None),
     HasField = (\<lambda>m f. if f \<in> set (d_fields (sample_descriptor m)) \<and> \<not> fd_is_repeated f
        then Some (cell m f \<noteq> []) else None),
     String_calls = sample_calls Blob_value blob_of [] CPPTYPE_STRING,
     Int32_calls = sample_calls Word32_value word32_of 0 CPPTYPE_INT32,
     UInt32_calls = sample_calls Word32_value word32_of 0 CPPTYPE_UINT32,
     Int64_calls = sample_calls Word64_value word64_of 0 CPPTYPE_INT64,
     UInt64_calls = sample_calls Word64_value word64_of 0 CPPTYPE_UINT64,
     Bool_calls = sample_calls Bool_value bool_of False CPPTYPE_BOOL,
     EnumValue_calls = sample_calls Enum_value enum_of 0 CPPTYPE_ENUM,
     GetMessage = (\<lambda>m f. if allowed m f CPPTYPE_MESSAGE False
        then Some (case cell m f of [] \<Rightarrow> Sample (Descriptor [] (fd_message_type f) [] [] [] 0) [] | x # _ \<Rightarrow> message_of x)
        else None),
     SetAllocatedMessage = (\<lambda>m sub f. if allowed m f CPPTYPE_MESSAGE False
        then Some (write_cell m f [Message_value sub]) else None),
     GetRepeatedMessage = (\<lambda>m f i. if allowed m f CPPTYPE_MESSAGE True \<and> 0 \<le> i \<and> i < int (length (cell m f))
        then Some (message_of (cell m f ! nat i)) else None),
     MutableRepeatedMessage = (\<lambda>m f i g. if allowed m f CPPTYPE_MESSAGE True \<and> 0 \<le> i \<and> i < int (length (cell m f))
        then Some (write_cell m f ((cell m f)[nat i := Message_value (g (message_of (cell m f ! nat i)))])) else None),
     AddAllocatedMessage = (\<lambda>m f sub. if allowed m f CPPTYPE_MESSAGE True
        then Some (write_cell m f (cell m f @ [Message_value sub])) else None),
     SerializeToString = (\<lambda>m. ([], False)),
     ParseFromString = (\<lambda>m s. (m, False)),
     MessageToJsonString = (\<lambda>m. ([], False)),
     JsonStringToMessage = (\<lambda>s m. (m, False)),
     DebugString = (\<lambda>m. []),
     GetPrototype = (\<lambda>d. Sample d []),
     NewPool = [],
     FindFileByName = (\<lambda>p s. s \<in> set p),
     BuildFileCollectingErrors = sample_build,
     Tokenizer = (\<lambda>s. []),
     Parse = (\<lambda>s f. (f, [])),
     FileToJsonString = (\<lambda>f. ([], False)),
     JsonStringToFile = (\<lambda>s f. (f, False))\<rparr>"

lemma cell_write [simp]:
  "cell (write_cell m f vs) g = (if g = f then vs else cell m g)"
  "sample_descriptor (write_cell m f vs) = sample_descriptor m"
  by (simp_all add: cell_def write_cell_def)

lemma allowed_write [simp]: "allowed (write_cell m f vs) g ty rep = allowed m g ty rep"
  by (simp add: allowed_def)

lemma on_field_sample: "on_field sample_pb m f ty rep = allowed m f ty rep"
  by (simp add: on_field_def allowed_def sample_pb_def)

lemma same_calls_write: "g \<noteq> f \<Longrightarrow> same_calls (sample_calls wr rd dflt ty) m (write_cell m f vs) g"
  by (simp add: same_calls_def sample_calls_def cong: if_cong)

lemma same_except_write: "same_except sample_pb m (write_cell m f vs) f"
  by (simp add: same_except_def sample_pb_def same_calls_write cong: if_cong)

lemma holds_values_sample:
  assumes "allowed m f ty True"
  shows "holds_values sample_pb (sample_calls wr rd dflt ty) m f xs \<longleftrightarrow> xs = map rd (cell m f)"
proof -
  have "FieldSize sample_pb m f = Some (int (length (cell m f)))"
    using assms by (simp add: sample_pb_def allowed_def)
  moreover have "GetRepeated (sample_calls wr rd dflt ty) m f (int i) = Some (rd (cell m f ! i))" if "i < length (cell m f)" for i
    using that assms by (simp add: sample_calls_def)
  ultimately show ?thesis by (auto simp: holds_values_def list_eq_iff_nth_eq)
qed

lemma scalar_laws_sample:
  assumes "\<And>v. rd (wr v) = v"
  shows "scalar_laws sample_pb (sample_calls wr rd dflt ty) ty"
proof -
  have "single_laws sample_pb (sample_calls wr rd dflt ty) ty"
    unfolding single_laws_def on_field_sample
    using assms same_except_write by (auto simp: sample_calls_def)
  moreover have "repeated_laws sample_pb (sample_calls wr rd dflt ty) ty"
    unfolding repeated_laws_def on_field_sample
    using assms same_except_write
    by (auto simp: holds_values_sample) (auto simp: sample_calls_def holds_values_sample [unfolded sample_calls_def] map_update)
  ultimately show ?thesis by (simp add: scalar_laws_def)
qed

lemma lookup_laws_sample: "lookup_laws sample_pb"
  by (simp add: lookup_laws_def sample_pb_def)

lemma reflection_laws_sample: "reflection_laws sample_pb"
proof -
  have "String_calls sample_pb = sample_calls Blob_value blob_of [] CPPTYPE_STRING"
    "Int32_calls sample_pb = sample_calls Word32_value word32_of 0 CPPTYPE_INT32"
    "UInt32_calls sample_pb = sample_calls Word32_value word32_of 0 CPPTYPE_UINT32"
    "Int64_calls sample_pb = sample_calls Word64_value word64_of 0 CPPTYPE_INT64"
    "UInt64_calls sample_pb = sample_calls Word64_value word64_of 0 CPPTYPE_UINT64"
    "Bool_calls sample_pb = sample_calls Bool_value bool_of False CPPTYPE_BOOL"
    "EnumValue_calls sample_pb = sample_calls Enum_value enum_of 0 CPPTYPE_ENUM"
    by (simp_all add: sample_pb_def)
  then show ?thesis unfolding reflection_laws_def by (simp add: lookup_laws_sample scalar_laws_sample)
qed

lemma message_laws_sample: "message_laws sample_pb"
proof -
  have "\<forall>m f. on_field sample_pb m f CPPTYPE_MESSAGE False \<longrightarrow>
        (\<exists>b. HasField sample_pb m f = Some b) \<and> (\<exists>x. GetMessage sample_pb m f = Some x) \<and>
        (\<forall>sub. d_full_name (GetDescriptor sample_pb sub) = fd_message_type f \<longrightarrow>
           (\<exists>m'. SetAllocatedMessage sample_pb m sub f = Some m' \<and> HasField sample_pb m' f = Some True \<and>
              GetMessage sample_pb m' f = Some sub \<and> same_except sample_pb m m' f))"
    unfolding on_field_sample using same_except_write
    by (auto simp: sample_pb_def allowed_def)
  then show ?thesis by (simp add: message_laws_def) (simp add: sample_pb_def)
qed

lemma sample_coherent: "d \<in> set (flat (sample_message_type scope dp)) \<Longrightarrow> coherent_fields d"
proof (induction scope dp arbitrary: d rule: sample_message_type.induct)
  case (1 scope nm fs ns es)
  then show ?case by (auto simp: Let_def coherent_fields_def sample_field_def)
qed

lemma pool_laws_sample: "pool_laws sample_pb"
  unfolding pool_laws_def using sample_coherent
  by (auto simp: sample_pb_def sample_build_def file_messages_def)

lemma build_laws_sample: "build_laws sample_pb"
proof -
  have "built_message scope dp (sample_message_type scope dp)" for scope dp
    by (cases dp) (auto simp: built_message_def Let_def list_all2_conv_all_nth built_field_def sample_field_def)
  then show ?thesis
    by (auto simp: build_laws_def sample_pb_def sample_build_def list_all2_conv_all_nth)
qed

section \<open>The properties on the sample library\<close>

text \<open>A message type with a blob, a list of numbers and a message field, and a schema that describes its scalar fields.\<close>

definition peer_infos :: "field_info list" where
  "peer_infos =
     [\<lparr>fi_tag = 1, fi_type = blob, fi_name = ''address'', fi_fully_qualified_type = [], fi_is_repeated = False\<rparr>,
      \<lparr>fi_tag = 2, fi_type = uint32, fi_name = ''ports'', fi_fully_qualified_type = [], fi_is_repeated = True\<rparr>]"

definition peer_schema :: protobuf_schema where
  "peer_schema = the (build_message ''peer'' peer_infos new_schema)"

definition peer_factory :: "(sample_message, string list) protobuf_factory" where
  "peer_factory = fst (the (import_schema sample_pb peer_schema ''peers'' ''net'' (new_factory sample_pb)))"

definition link_field :: field_descriptor where
  "link_field = \<lparr>fd_number = 1, fd_name = ''next'', fd_type = TYPE_MESSAGE, fd_cpp_type = CPPTYPE_MESSAGE,
     fd_is_repeated = False, fd_is_map = False, fd_message_type = ''net.peer'',
     fd_enum_type = \<lparr>ed_full_name = [], ed_values = []\<rparr>\<rparr>"

definition link_message :: sample_message where
  "link_message = Sample (Descriptor ''link'' ''link'' [link_field] [] [] 0) []"

definition peer_message :: sample_message where
  "peer_message = Sample (sample_message_type ''net'' (Message_Proto ''peer'' (map written_field peer_infos) [] [])) []"

lemma peer_infos_buildable: "\<forall>fi \<in> set peer_infos. buildable fi"
  by (simp add: peer_infos_def buildable_def)

lemma peer_schema_built:
  "build_message ''peer'' peer_infos new_schema = Some peer_schema \<and>
   ps_file_descriptor_proto peer_schema = (ps_file_descriptor_proto new_schema)
     \<lparr>fpr_message_type := [Message_Proto ''peer'' (map written_field peer_infos) [] []]\<rparr>"
  using build_message_file [OF peer_infos_buildable, of "''peer''" new_schema]
  by (auto simp: peer_schema_def new_schema_def new_file_proto_def)

lemma peer_factory_imported:
  "\<exists>s'. import_schema sample_pb peer_schema ''peers'' ''net'' (new_factory sample_pb) = Some (peer_factory, s', return ())"
proof -
  have "\<not> contain_invalid_data (sample_message_type ''net'' (Message_Proto ''peer'' (map written_field peer_infos) [] []))"
    by (simp add: peer_infos_def written_field_def set_label_def new_field_def sample_field_def unsupported_field_def Let_def)
  then have "\<exists>fa' s'. import_schema sample_pb peer_schema ''peers'' ''net'' (new_factory sample_pb) = Some (fa', s', return ())"
    by (simp add: import_schema_def import_from_file_proto_def peer_schema_built sample_pb_def new_factory_def
        sample_build_def new_schema_def new_file_proto_def proto_errors_new_def Let_def del: sample_message_type.simps)
  then show ?thesis by (auto simp: peer_factory_def)
qed

lemma peer_factory_schemas:
  "length (fa_schemas peer_factory) = 1 \<and> get_schema_id peer_factory ''net.peer'' = return 0"
proof -
  obtain s' where "import_schema sample_pb peer_schema ''peers'' ''net'' (new_factory sample_pb) = Some (peer_factory, s', return ())"
    using peer_factory_imported by blast
  from import_schema_file [OF this] obtain fdp' where
    "import_from_file_proto sample_pb (ps_file_descriptor_proto peer_schema) ''peers'' ''net'' (new_factory sample_pb) =
       Some (peer_factory, fdp', return ())"
    by blast
  with pool_laws_sample show ?thesis
  proof (cases rule: import_cases)
    case (imported p fd)
    have "BuildFileCollectingErrors sample_pb = sample_build" by (simp add: sample_pb_def)
    with imported(2) have "f_message_types fd =
        [sample_message_type ''net'' (Message_Proto ''peer'' (map written_field peer_infos) [] [])]"
      by (auto simp: sample_build_def peer_schema_built new_schema_def new_file_proto_def simp del: sample_message_type.simps)
    then show ?thesis
      by (simp add: imported(4) new_factory_def import_message_fold get_schema_id_return qualified_name_def Let_def)
  qed simp
qed

lemma peer_factory_reachable: "factory_reachable sample_pb peer_factory"
  using peer_factory_imported factory_reachable.intros by blast

theorem accessors_type_safe_witness:
  "reflection_laws sample_pb \<and>
   get_int32 sample_pb 1 \<lparr>pm_m = Some peer_message, pm_schema_id = 0\<rparr> = Some (throw (Invalid_argument ''Field is not int32!'')) \<and>
   type_safe sample_pb CPPTYPE_INT32 (set_int32 sample_pb) (get_int32 sample_pb) (set_repeated_int32 sample_pb)
     (get_repeated_int32 sample_pb)"
proof -
  have "get_int32 sample_pb 1 \<lparr>pm_m = Some peer_message, pm_schema_id = 0\<rparr> = Some (throw (Invalid_argument ''Field is not int32!''))"
    by (simp add: get_int32_def get_single_def single_field_def find_field_def sample_pb_def peer_message_def
        peer_infos_def written_field_def set_label_def new_field_def sample_field_def Let_def)
  with accessors_type_safe [OF reflection_laws_sample] reflection_laws_sample show ?thesis by simp
qed

theorem set_get_round_trip_witness:
  "reflection_laws sample_pb \<and>
   (\<exists>pm'. set_blob sample_pb 1 ''host'' \<lparr>pm_m = Some peer_message, pm_schema_id = 0\<rparr> = succeed pm' \<and>
      get_blob sample_pb 1 pm' = succeed ''host'')"
proof -
  have "field_of sample_pb peer_message 1 = Some (sample_field (written_field (hd peer_infos)))"
    by (simp add: field_of_def sample_pb_def peer_message_def peer_infos_def written_field_def set_label_def
        new_field_def sample_field_def Let_def)
  moreover have "fd_cpp_type (sample_field (written_field (hd peer_infos))) = CPPTYPE_STRING"
    "\<not> fd_is_repeated (sample_field (written_field (hd peer_infos)))"
    by (simp_all add: peer_infos_def written_field_def set_label_def new_field_def sample_field_def)
  moreover note conjunct1 [OF set_get_round_trip [OF reflection_laws_sample], unfolded stores_def, rule_format,
      of "\<lparr>pm_m = Some peer_message, pm_schema_id = 0\<rparr>" peer_message 1 "sample_field (written_field (hd peer_infos))" "''host''"]
  ultimately show ?thesis using reflection_laws_sample by auto
qed

theorem repeated_fields_are_lists_witness:
  "reflection_laws sample_pb \<and>
   implements_list sample_pb CPPTYPE_UINT32 (\<lambda>_ _. True) (set_repeated_uint32 sample_pb) (get_repeated_uint32 sample_pb) \<and>
   (\<exists>f. field_of sample_pb peer_message 2 = Some f \<and> fd_cpp_type f = CPPTYPE_UINT32 \<and> fd_is_repeated f)"
proof -
  have "\<exists>f. field_of sample_pb peer_message 2 = Some f \<and> fd_cpp_type f = CPPTYPE_UINT32 \<and> fd_is_repeated f"
    by (simp add: field_of_def sample_pb_def peer_message_def peer_infos_def written_field_def set_label_def
        new_field_def sample_field_def Let_def)
  with repeated_fields_are_lists [OF reflection_laws_sample] reflection_laws_sample show ?thesis by simp
qed

theorem message_round_trip_witness:
  "lookup_laws sample_pb \<and> message_laws sample_pb \<and>
   (\<exists>pm'. set_message sample_pb 1 \<lparr>pm_m = Some peer_message, pm_schema_id = 0\<rparr> \<lparr>pm_m = Some link_message, pm_schema_id = 0\<rparr> = succeed pm')"
proof -
  have "field_of sample_pb link_message 1 = Some link_field"
    by (simp add: field_of_def sample_pb_def link_message_def link_field_def)
  moreover have "d_full_name (GetDescriptor sample_pb peer_message) = fd_message_type link_field"
    by (simp add: sample_pb_def peer_message_def link_field_def qualified_name_def Let_def)
  ultimately show ?thesis
    using message_round_trip [OF lookup_laws_sample message_laws_sample, of "\<lparr>pm_m = Some link_message, pm_schema_id = 0\<rparr>"
      link_message "\<lparr>pm_m = Some peer_message, pm_schema_id = 0\<rparr>" peer_message 1 link_field]
      lookup_laws_sample message_laws_sample
    by (auto simp: link_field_def)
qed

theorem factory_names_and_numbers_witness:
  "pool_laws sample_pb \<and> factory_reachable sample_pb peer_factory \<and>
   get_schema_id peer_factory ''net.peer'' = return 0 \<and> get_schema_name sample_pb peer_factory 0 = succeed ''net.peer'' \<and>
   (\<exists>pm. new_message_by_name sample_pb peer_factory ''net.peer'' = succeed pm \<and>
      get_message_type sample_pb pm = succeed ''net.peer'')"
  using factory_names_and_numbers [OF pool_laws_sample peer_factory_reachable] pool_laws_sample peer_factory_reachable
    peer_factory_schemas
  by blast

theorem import_appends_messages_witness:
  "\<exists>s'. import_schema sample_pb peer_schema ''peers'' ''net'' (new_factory sample_pb) = Some (peer_factory, s', return ()) \<and>
     get_schemas_number peer_factory = 1"
proof -
  obtain s' where "import_schema sample_pb peer_schema ''peers'' ''net'' (new_factory sample_pb) = Some (peer_factory, s', return ())"
    using peer_factory_imported by blast
  moreover from import_appends_messages [OF pool_laws_sample this] have "get_schemas_number peer_factory = 1"
    by (auto simp: sample_pb_def sample_build_def new_factory_def peer_schema_built new_schema_def new_file_proto_def
        file_messages_def get_schemas_number_def Let_def)
  ultimately show ?thesis by blast
qed

theorem failed_import_adds_nothing_witness:
  "pool_laws sample_pb \<and>
   (\<exists>fa' s' r. import_schema sample_pb peer_schema ''peers'' ''net'' peer_factory = Some (fa', s', r) \<and>
      (r = return () \<or> (\<exists>p. fa' = peer_factory\<lparr>fa_pool := p\<rparr>)))"
  using failed_import_adds_nothing [OF pool_laws_sample, of peer_schema "''peers''" "''net''" peer_factory] pool_laws_sample
  by blast

theorem field_info_supported_witness:
  "pool_laws sample_pb \<and> factory_reachable sample_pb peer_factory \<and> 0 < get_schemas_number peer_factory \<and>
   (\<exists>n. get_fields_number sample_pb peer_factory 0 = succeed n)"
proof -
  have "0 < get_schemas_number peer_factory" by (simp add: get_schemas_number_def peer_factory_schemas)
  with field_info_supported [OF pool_laws_sample peer_factory_reachable this] pool_laws_sample peer_factory_reachable
  show ?thesis by blast
qed

theorem schema_round_trip_witness:
  "pool_laws sample_pb \<and> build_laws sample_pb \<and> list_all buildable peer_infos \<and>
   (\<exists>i. get_schema_id peer_factory ''net.peer'' = return i \<and> get_fields_number sample_pb peer_factory i = succeed 2)"
proof -
  obtain s' where "import_schema sample_pb peer_schema ''peers'' ''net'' (new_factory sample_pb) = Some (peer_factory, s', return ())"
    using peer_factory_imported by blast
  from schema_round_trip [OF pool_laws_sample build_laws_sample peer_infos_buildable conjunct1 [OF peer_schema_built] this]
  show ?thesis
    using pool_laws_sample build_laws_sample peer_infos_buildable [folded list_all_iff]
    by (auto simp: qualified_name_def peer_infos_def numeral_2_eq_2)
qed

text \<open>A schema with a field of an unsupported type: the import throws and the name stays taken.\<close>

definition bad_schema :: protobuf_schema where
  "bad_schema = \<lparr>ps_file_descriptor_proto = new_file_proto\<lparr>fpr_message_type := [Message_Proto ''bad'' [new_field] [] []]\<rparr>,
     ps_messages = [], ps_enums = []\<rparr>"

theorem refused_file_blocks_its_name_witness:
  "\<exists>fa' s' e s3. import_schema sample_pb bad_schema ''f'' [] (new_factory sample_pb) = Some (fa', s', throw e) \<and>
     import_schema sample_pb peer_schema ''f'' [] fa' = Some (fa', s3, throw (Runtime_error ''File with name <f> already exists.''))"
proof -
  have "\<exists>fa' s' e. import_schema sample_pb bad_schema ''f'' [] (new_factory sample_pb) = Some (fa', s', throw e)"
    by (simp add: import_schema_def import_from_file_proto_def bad_schema_def new_file_proto_def new_field_def
        sample_pb_def new_factory_def sample_build_def proto_errors_new_def sample_field_def unsupported_field_def Let_def)
  then obtain fa' s' e where bad: "import_schema sample_pb bad_schema ''f'' [] (new_factory sample_pb) = Some (fa', s', throw e)"
    by blast
  obtain p fd where build: "BuildFileCollectingErrors sample_pb (fa_pool (new_factory sample_pb))
       ((ps_file_descriptor_proto bad_schema)\<lparr>fpr_package := [], fpr_name := ''f''\<rparr>) = (p, fd, [])"
    by (simp add: sample_pb_def sample_build_def)
  have "\<not> FindFileByName sample_pb (fa_pool (new_factory sample_pb)) ''f''"
    "\<forall>dep \<in> set (fpr_dependency (ps_file_descriptor_proto bad_schema)). FindFileByName sample_pb (fa_pool (new_factory sample_pb)) dep"
    by (simp_all add: sample_pb_def new_factory_def bad_schema_def new_file_proto_def)
  from refused_file_blocks_its_name [OF pool_laws_sample bad build this, of peer_schema "[]"] bad show ?thesis by auto
qed

end
