(* ===== verification/State_Persistent.thy ===== *)
theory State_Persistent
  imports State_Impl Blobstore
begin

text \<open>
  The trie of \<^verbatim>\<open>core/state/state_persistent.cc\<close>: the algorithm of \<open>State_Impl\<close> with the nodes in a persistent
  vector and their strings and parents in a blob store, of which a node keeps the identifiers. The vector is the
  list of its objects, which is what \<open>Persistent_Vector\<close> shows of it; an access past its end, which reads or writes bytes
  of the file that hold no object, counts as undefined. The functions of \<^verbatim>\<open>blobstore\<close> are not virtual:
  through the pointer \<^verbatim>\<open>bs\<close> of that type the in-memory store is used, whatever the class of the object.

  A store only grows, and a call that meets undefined behaviour may have stored before. So an operation is a
  function from the state to an optional result and the state that was reached: \<open>(None, s)\<close> is undefined behaviour met
  in the state \<open>s\<close>. This theory holds the definitions.
\<close>

section \<open>State\<close>

record pnode =
  pn_parent :: nat
  pn_prefix :: nat
  pn_hash :: nat
  pn_value :: nat
  pn_children :: "char \<Rightarrow> nat"

record state_persistent =
  tp_bs :: blobstore
  tp_nodes :: "pnode list"
  tp_backup :: "(nat \<times> pnode) list"
  tp_free_locations :: "nat set"
  tp_nodes_current_state :: nat
  tp_permanent_nodes_count :: nat

definition new_pnode :: pnode where
  "new_pnode = \<lparr>pn_parent = 0, pn_prefix = 0, pn_hash = 0, pn_value = 0, pn_children = (\<lambda>_. 0)\<rparr>"

type_synonym 'a run = "state_persistent \<Rightarrow> 'a option \<times> state_persistent"

definition result :: "'a \<Rightarrow> 'a run" where
  "result x s = (Some x, s)"

definition after :: "'a run \<Rightarrow> ('a \<Rightarrow> 'b run) \<Rightarrow> 'b run" where
  "after m f s = (case m s of (None, s') \<Rightarrow> (None, s') | (Some x, s') \<Rightarrow> f x s')"

text \<open>Reading, which leaves the state as it is, and changing it in a way that cannot fail.\<close>

definition reading :: "(state_persistent \<Rightarrow> 'a option) \<Rightarrow> 'a run" where
  "reading f s = (f s, s)"

definition changing :: "(state_persistent \<Rightarrow> state_persistent) \<Rightarrow> unit run" where
  "changing f s = (Some (), f s)"

lemma after_cong [fundef_cong]:
  "s = s' \<Longrightarrow> m s' = m' s' \<Longrightarrow> (\<And>x t. m' s' = (Some x, t) \<Longrightarrow> f x t = f' x t) \<Longrightarrow> after m f s = after m' f' s'"
  by (auto simp: after_def split: option.splits prod.splits)

section \<open>Nodes\<close>

definition get_parent :: "blobstore \<Rightarrow> pnode \<Rightarrow> nat option" where
  "get_parent b n = do {
     (sz, p) \<leftarrow> blob_get_ptr b (pn_parent n);
     if p + 4 \<le> 4 * b_capacity b then Some (le_value (mem_read (b_storage b) p 4)) else None }"

definition get_prefix :: "blobstore \<Rightarrow> pnode \<Rightarrow> string option" where
  "get_prefix b n = blob_fetch b (pn_prefix n)"

definition get_hash :: "blobstore \<Rightarrow> pnode \<Rightarrow> string option" where
  "get_hash b n = blob_fetch b (pn_hash n)"

definition get_value :: "blobstore \<Rightarrow> pnode \<Rightarrow> string option" where
  "get_value b n = blob_fetch b (pn_value n)"

definition get_child :: "char \<Rightarrow> pnode \<Rightarrow> nat" where
  "get_child c n = pn_children n c"

definition pchild_bytes :: "pnode \<Rightarrow> char list" where
  "pchild_bytes n = filter (\<lambda>c. get_child c n \<noteq> 0) Enum.enum"

text \<open>The node at an index, and one of its members.\<close>

definition node_at :: "nat \<Rightarrow> pnode run" where
  "node_at i = reading (\<lambda>s. vec_get (tp_nodes s) i)"

definition member_at :: "(blobstore \<Rightarrow> pnode \<Rightarrow> 'a option) \<Rightarrow> nat \<Rightarrow> 'a run" where
  "member_at get i = reading (\<lambda>s. vec_get (tp_nodes s) i \<bind> get (tp_bs s))"

definition store_blob :: "string \<Rightarrow> nat run" where
  "store_blob d s = (case blob_store (tp_bs s) d of None \<Rightarrow> (None, s) | Some (b, i) \<Rightarrow> (Some i, s\<lparr>tp_bs := b\<rparr>))"

definition upd_pnode :: "nat \<Rightarrow> (pnode \<Rightarrow> pnode) \<Rightarrow> unit run" where
  "upd_pnode i f s = (case vec_get (tp_nodes s) i of
     None \<Rightarrow> (None, s) | Some n \<Rightarrow> (Some (), s\<lparr>tp_nodes := (tp_nodes s)[i := f n]\<rparr>))"

text \<open>The setters of the node at an index. The identifier of a parent is cut to 32 bits.\<close>

definition set_parent :: "nat \<Rightarrow> nat \<Rightarrow> unit run" where
  "set_parent i parent =
     after (store_blob (le_bytes 4 parent)) (\<lambda>d. upd_pnode i (\<lambda>n. n\<lparr>pn_parent := d mod 2 ^ 32\<rparr>))"

definition set_prefix :: "nat \<Rightarrow> string \<Rightarrow> unit run" where
  "set_prefix i pre = after (store_blob pre) (\<lambda>d. upd_pnode i (\<lambda>n. n\<lparr>pn_prefix := d\<rparr>))"

definition set_hash :: "nat \<Rightarrow> string \<Rightarrow> unit run" where
  "set_hash i h = after (store_blob h) (\<lambda>d. upd_pnode i (\<lambda>n. n\<lparr>pn_hash := d\<rparr>))"

definition set_value :: "nat \<Rightarrow> string \<Rightarrow> unit run" where
  "set_value i v = after (store_blob v) (\<lambda>d. upd_pnode i (\<lambda>n. n\<lparr>pn_value := d\<rparr>))"

definition set_child :: "nat \<Rightarrow> char \<Rightarrow> nat \<Rightarrow> unit run" where
  "set_child i c v = upd_pnode i (\<lambda>n. n\<lparr>pn_children := (pn_children n)(c := v)\<rparr>)"

section \<open>Private operations\<close>

function p_backup_nodes :: "nat \<Rightarrow> unit run" where
  "p_backup_nodes cur_node s =
     (case vec_get (tp_nodes s) cur_node of
        None \<Rightarrow> (None, s)
      | Some n \<Rightarrow>
          if map_of (tp_backup s) cur_node = None then
            let s' = s\<lparr>tp_backup := (cur_node, n) # tp_backup s\<rparr>
            in if cur_node \<noteq> 0 \<and> cur_node < tp_permanent_nodes_count s
               then (case get_parent (tp_bs s) n of None \<Rightarrow> (None, s') | Some p \<Rightarrow> p_backup_nodes p s')
               else (Some (), s')
          else (Some (), s))"
  by pat_completeness auto
termination
proof (relation "measure (\<lambda>(i, s). card ({..<tp_permanent_nodes_count s} - fst ` set (tp_backup s)))")
  fix i n p and s s' :: state_persistent
  assume none: "map_of (tp_backup s) i = None" and s': "s' = s\<lparr>tp_backup := (i, n) # tp_backup s\<rparr>"
    and i: "i \<noteq> 0 \<and> i < tp_permanent_nodes_count s"
  have "i \<notin> fst ` set (tp_backup s)" using none by (simp add: map_of_eq_None_iff)
  with i have "{..<tp_permanent_nodes_count s'} - fst ` set (tp_backup s')
      \<subset> {..<tp_permanent_nodes_count s} - fst ` set (tp_backup s)"
    by (auto simp: s')
  then show "((p, s'), i, s) \<in> measure (\<lambda>(i, s). card ({..<tp_permanent_nodes_count s} - fst ` set (tp_backup s)))"
    by (simp add: psubset_card_mono)
qed auto

declare p_backup_nodes.simps [simp del]

definition p_take_location :: "nat run" where
  "p_take_location s =
     (if tp_free_locations s = {} then (Some (length (tp_nodes s)), s\<lparr>tp_nodes := tp_nodes s @ [new_pnode]\<rparr>)
      else let location = Min (tp_free_locations s)
           in after (p_backup_nodes location) (\<lambda>_.
              after (upd_pnode location (\<lambda>_. new_pnode)) (\<lambda>_.
              after (changing (\<lambda>s. s\<lparr>tp_free_locations := tp_free_locations s - {location}\<rparr>)) (\<lambda>_.
              result location))) s)"

definition p_add_node :: "nat \<Rightarrow> char \<Rightarrow> nat run" where
  "p_add_node from edge =
     after p_take_location (\<lambda>new_index.
     after (set_child from edge new_index) (\<lambda>_.
     after (set_parent new_index from) (\<lambda>_.
     after (set_prefix new_index [edge]) (\<lambda>_.
     result new_index))))"

definition p_child_hashes :: "pnode \<Rightarrow> state_persistent \<Rightarrow> string list option" where
  "p_child_hashes n s = those (map (\<lambda>c. vec_get (tp_nodes s) (get_child c n) \<bind> get_hash (tp_bs s)) (pchild_bytes n))"

text \<open>
  The recursion to the root ends exactly when the parents lead to the root without a cycle, and then its depth is
  at most the number of nodes, the fuel the callers give it.
\<close>

fun p_calculate_hash :: "nat \<Rightarrow> hash_function \<Rightarrow> nat \<Rightarrow> unit run" where
  "p_calculate_hash 0 H cur_node = reading (\<lambda>_. None)"
| "p_calculate_hash (Suc fuel) H cur_node =
     after (node_at cur_node) (\<lambda>n.
     if cur_node = 0 \<and> pchild_bytes n = [] then set_hash cur_node []
     else
       after (member_at get_value cur_node) (\<lambda>v.
       after (member_at get_prefix cur_node) (\<lambda>pre.
       after (reading (p_child_hashes n)) (\<lambda>hs.
       after (set_hash cur_node (H (v @ pre @ concat hs))) (\<lambda>_.
       if cur_node \<noteq> 0 then after (member_at get_parent cur_node) (p_calculate_hash fuel H)
       else result ())))))"

definition p_hash_up :: "hash_function \<Rightarrow> nat \<Rightarrow> unit run" where
  "p_hash_up H cur_node s = p_calculate_hash (length (tp_nodes s)) H cur_node s"

fun p_subtrie_mark_free :: "nat \<Rightarrow> pnode list \<Rightarrow> nat \<Rightarrow> nat set \<Rightarrow> nat set option" where
  "p_subtrie_mark_free 0 ns cur_node free = None"
| "p_subtrie_mark_free (Suc fuel) ns cur_node free = do {
     n \<leftarrow> vec_get ns cur_node;
     fold (\<lambda>c acc. do { free \<leftarrow> acc; p_subtrie_mark_free fuel ns (get_child c n) free })
       (pchild_bytes n) (Some (insert cur_node free)) }"

function p_get_node_index_loop :: "blobstore \<Rightarrow> pnode list \<Rightarrow> string \<Rightarrow> nat \<Rightarrow> nat \<Rightarrow> bool \<Rightarrow> int option" where
  "p_get_node_index_loop b ns path cur_node i key_ended_at_edge =
     (if i < length path then do {
        n \<leftarrow> vec_get ns cur_node;
        pre \<leftarrow> get_prefix b n;
        if length pre \<le> 1 then
          (if get_child (path ! i) n = 0 then Some (- 1)
           else p_get_node_index_loop b ns path (get_child (path ! i) n) (Suc i) True)
        else if length pre - 1 < length path - i then do {
          sub \<leftarrow> (if i = 0 then None else substr path (i - 1) (length pre));
          if pre = sub then
            let i' = i + (length pre - 1) in
            (if get_child (path ! i') n \<noteq> 0
             then p_get_node_index_loop b ns path (get_child (path ! i') n) (Suc i') True
             else Some (- 1))
          else Some (- 1) }
        else if length pre - 1 = length path - i then do {
          sub \<leftarrow> (if i = 0 then None else substr path (i - 1) (length path));
          (if pre = sub then Some (int cur_node) else Some (- 1)) }
        else Some (- 1) }
      else if key_ended_at_edge then do {
        n \<leftarrow> vec_get ns cur_node;
        pre \<leftarrow> get_prefix b n;
        (if length pre \<noteq> 1 then Some (- 1) else Some (int cur_node)) }
      else Some (int cur_node))"
  by pat_completeness auto
termination
  by (relation "measure (\<lambda>(b, ns, path, cur, i, e). length path - i)") auto

declare p_get_node_index_loop.simps [simp del]

definition p_get_node_index :: "string \<Rightarrow> int run" where
  "p_get_node_index path = reading (\<lambda>s. p_get_node_index_loop (tp_bs s) (tp_nodes s) path 0 0 False)"

section \<open>Public operations\<close>

text \<open>The constructor, for a store and a vector that are new.\<close>

definition state_persistent_new :: "hash_function \<Rightarrow> memory \<Rightarrow> unit option \<times> state_persistent" where
  "state_persistent_new H junk =
     after (store_blob []) (\<lambda>_.
     after (changing (\<lambda>s. s\<lparr>tp_nodes := tp_nodes s @ [new_pnode], tp_nodes_current_state := 1\<rparr>)) (\<lambda>_.
     after (p_hash_up H 0) (\<lambda>_.
     changing (\<lambda>s. s\<lparr>tp_permanent_nodes_count := 1\<rparr>))))
     \<lparr>tp_bs = blobstore_new junk, tp_nodes = [], tp_backup = [], tp_free_locations = {},
       tp_nodes_current_state = 0, tp_permanent_nodes_count = 0\<rparr>"

definition p_get :: "string \<Rightarrow> string run" where
  "p_get key = after (p_get_node_index key) (\<lambda>i.
     if i = - 1 then result [] else member_at get_value (nat i))"

definition p_get_node_hash :: "string \<Rightarrow> string run" where
  "p_get_node_hash path = after (p_get_node_index path) (\<lambda>i.
     if i = - 1 then result [] else member_at get_hash (nat i))"

definition p_get_node_children :: "string \<Rightarrow> string list throws run" where
  "p_get_node_children path = after (p_get_node_index path) (\<lambda>i.
     if i = - 1 then result (throw (Out_of_range ''No node at this path''))
     else after (node_at (nat i)) (\<lambda>n.
       after (reading (\<lambda>s. those (map (\<lambda>c. vec_get (tp_nodes s) (get_child c n) \<bind> get_prefix (tp_bs s)) (pchild_bytes n))))
         (\<lambda>ps. result (return ps))))"

text \<open>Splitting an edge, the same code at two places.\<close>

definition p_split_edge :: "hash_function \<Rightarrow> nat \<Rightarrow> nat \<Rightarrow> nat run" where
  "p_split_edge H cur_node cur_prefix_index =
     after (member_at get_prefix cur_node) (\<lambda>pre.
     after (p_backup_nodes cur_node) (\<lambda>_.
     after (member_at get_parent cur_node) (\<lambda>parent.
     after (p_add_node parent (char0 pre)) (\<lambda>split_node.
     after (set_parent cur_node split_node) (\<lambda>_.
     after (set_child split_node (char0 (drop cur_prefix_index pre)) cur_node) (\<lambda>_.
     after (set_prefix split_node (take cur_prefix_index pre)) (\<lambda>_.
     after (set_prefix cur_node (drop cur_prefix_index pre)) (\<lambda>_.
     after (p_hash_up H cur_node) (\<lambda>_.
     result split_node)))))))))"

fun p_set_loop :: "hash_function \<Rightarrow> nat \<Rightarrow> nat \<Rightarrow> nat \<Rightarrow> string \<Rightarrow> (nat \<times> nat \<times> nat) run" where
  "p_set_loop H cur_node cur_prefix_index i [] = result (cur_node, cur_prefix_index, i)"
| "p_set_loop H cur_node cur_prefix_index i (path_element # rest) =
     after (node_at cur_node) (\<lambda>n.
     after (member_at get_prefix cur_node) (\<lambda>pre.
     if cur_prefix_index = length pre then
       (if get_child path_element n \<noteq> 0 then p_set_loop H (get_child path_element n) 1 (Suc i) rest
        else after (member_at get_value cur_node) (\<lambda>v.
          if pchild_bytes n \<noteq> [] \<or> v \<noteq> [] \<or> cur_node = 0 then
            after (p_backup_nodes cur_node) (\<lambda>_.
            after (p_add_node cur_node path_element) (\<lambda>cur_node.
            p_set_loop H cur_node 1 (Suc i) rest))
          else
            after (set_prefix cur_node (pre @ path_element # rest)) (\<lambda>_.
            result (cur_node, cur_prefix_index, i))))
     else if path_element \<noteq> char0 (drop cur_prefix_index pre) then
       after (p_split_edge H cur_node cur_prefix_index) (\<lambda>split_node.
       after (p_add_node split_node path_element) (\<lambda>cur_node.
       p_set_loop H cur_node 1 (Suc i) rest))
     else p_set_loop H cur_node (Suc cur_prefix_index) (Suc i) rest))"

definition p_split_at_end :: "hash_function \<Rightarrow> string \<Rightarrow> nat \<times> nat \<times> nat \<Rightarrow> nat run" where
  "p_split_at_end H key = (\<lambda>(cur_node, cur_prefix_index, i).
     after (member_at get_prefix cur_node) (\<lambda>pre.
     if length pre \<noteq> cur_prefix_index \<and> i = length key
     then p_split_edge H cur_node cur_prefix_index
     else result cur_node))"

text \<open>Other than \<^verbatim>\<open>state_impl::set\<close>, an empty value does nothing.\<close>

definition p_set :: "hash_function \<Rightarrow> string \<Rightarrow> string \<Rightarrow> unit run" where
  "p_set H key v =
     (if v = [] then result ()
      else after (p_set_loop H 0 0 0 key) (\<lambda>r.
        after (p_split_at_end H key r) (\<lambda>cur_node.
        after (p_backup_nodes cur_node) (\<lambda>_.
        after (set_value cur_node v) (\<lambda>_.
        p_hash_up H cur_node)))))"

definition p_free_location :: "nat \<Rightarrow> unit run" where
  "p_free_location i = changing (\<lambda>s. s\<lparr>tp_free_locations := insert i (tp_free_locations s)\<rparr>)"

definition p_merge_with_child :: "nat \<Rightarrow> nat \<Rightarrow> nat run" where
  "p_merge_with_child cur_node child =
     after (member_at get_parent cur_node) (\<lambda>parent.
     after (p_backup_nodes child) (\<lambda>_.
     after (member_at get_prefix child) (\<lambda>child_prefix.
     after (member_at get_prefix cur_node) (\<lambda>pre.
     after (set_prefix child (pre @ child_prefix)) (\<lambda>_.
     after (set_child parent (char0 pre) child) (\<lambda>_.
     after (set_parent child parent) (\<lambda>_.
     after (p_free_location cur_node) (\<lambda>_.
     result child))))))))"

definition p_merge_if_single :: "nat \<Rightarrow> nat run" where
  "p_merge_if_single cur_node =
     after (node_at cur_node) (\<lambda>n.
     after (member_at get_value cur_node) (\<lambda>v.
     (case pchild_bytes n of
        [c] \<Rightarrow> if v = [] \<and> cur_node \<noteq> 0 then p_merge_with_child cur_node (get_child c n) else result cur_node
      | _ \<Rightarrow> result cur_node)))"

definition p_unlink_node :: "nat \<Rightarrow> nat run" where
  "p_unlink_node cur_node =
     after (member_at get_parent cur_node) (\<lambda>parent.
     after (member_at get_prefix cur_node) (\<lambda>pre.
     after (set_child parent (char0 pre) 0) (\<lambda>_.
     after (p_free_location cur_node) (\<lambda>_.
     p_merge_if_single parent))))"

definition p_no_set_node :: "string \<Rightarrow> string \<Rightarrow> exn" where
  "p_no_set_node operation path = Out_of_range (''In '' @ operation @ '': No set node at path: '' @ bin2hex path)"

definition p_erase :: "hash_function \<Rightarrow> string \<Rightarrow> unit throws run" where
  "p_erase H path =
     after (p_get_node_index path) (\<lambda>cur.
     if cur = - 1 then result (throw (p_no_set_node ''erase'' path))
     else let cur_node = nat cur in
       after (member_at get_value cur_node) (\<lambda>v.
       if v = [] then result (throw (p_no_set_node ''erase'' path))
       else
         after (p_backup_nodes cur_node) (\<lambda>_.
         after (node_at cur_node) (\<lambda>n.
         after (case pchild_bytes n of
                  [] \<Rightarrow> p_unlink_node cur_node
                | [c] \<Rightarrow> p_merge_with_child cur_node (get_child c n)
                | _ \<Rightarrow> after (set_value cur_node []) (\<lambda>_. result cur_node)) (\<lambda>cur_node.
         after (p_hash_up H cur_node) (\<lambda>_.
         result (return ())))))))"

definition p_delete_node_tree :: "hash_function \<Rightarrow> string \<Rightarrow> unit throws run" where
  "p_delete_node_tree H path =
     after (p_get_node_index path) (\<lambda>cur.
     if cur = - 1 then result (throw (p_no_set_node ''delete_node_tree'' path))
     else let cur_node = nat cur in
       after (member_at get_value cur_node) (\<lambda>v.
       if v = [] then result (throw (p_no_set_node ''delete_node_tree'' path))
       else
         after (member_at get_parent cur_node) (\<lambda>parent.
         after (p_backup_nodes parent) (\<lambda>_.
         after (reading (\<lambda>s. p_subtrie_mark_free (length (tp_nodes s)) (tp_nodes s) cur_node (tp_free_locations s))) (\<lambda>free.
         after (changing (\<lambda>s. s\<lparr>tp_free_locations := free\<rparr>)) (\<lambda>_.
         after (p_unlink_node cur_node) (\<lambda>cur_node.
         after (p_hash_up H cur_node) (\<lambda>_.
         result (return ())))))))))"

text \<open>The loop of \<open>commit_changes\<close>, on the vector; it reads the store and does not change it.\<close>

function p_move_loop :: "blobstore \<Rightarrow> nat list \<Rightarrow> pnode list \<Rightarrow> nat \<Rightarrow> (nat list \<times> pnode list \<times> nat) option" where
  "p_move_loop b fl ns last_element =
     (if fl = [] \<or> hd fl = last fl then Some (fl, ns, last_element)
      else if last_element = last fl then p_move_loop b (butlast fl) ns (last_element - 1)
      else do {
        n \<leftarrow> vec_get ns last_element;
        ns \<leftarrow> vec_set ns (hd fl) n;
        parent \<leftarrow> get_parent b n;
        pre \<leftarrow> get_prefix b n;
        m \<leftarrow> vec_get ns parent;
        ns \<leftarrow> vec_set ns parent (m\<lparr>pn_children := (pn_children m)(char0 pre := hd fl)\<rparr>);
        p_move_loop b (tl fl) ns (last_element - 1) })"
  by pat_completeness auto
termination
  by (relation "measure (length \<circ> fst \<circ> snd)") auto

declare p_move_loop.simps [simp del]

definition p_commit_changes :: "unit run" where
  "p_commit_changes =
     after (changing (\<lambda>s. s\<lparr>tp_backup := []\<rparr>)) (\<lambda>_ s.
     if tp_free_locations s = {} then (Some (), s\<lparr>tp_permanent_nodes_count := length (tp_nodes s)\<rparr>)
     else after (reading (\<lambda>s. do {
         (fl, ns, last_element) \<leftarrow>
           p_move_loop (tp_bs s) (sorted_list_of_set (tp_free_locations s)) (tp_nodes s) (length (tp_nodes s) - 1);
         n \<leftarrow> vec_get ns last_element;
         vec_set ns (hd fl) n })) (\<lambda>ns.
       changing (\<lambda>s. let ns = take (length ns - card (tp_free_locations s)) ns
         in s\<lparr>tp_nodes := ns, tp_permanent_nodes_count := length ns, tp_free_locations := {}\<rparr>)) s)"

text \<open>The vector's \<open>resize\<close> only moves its end; beyond the objects that were written the contents are unspecified.\<close>

definition p_resize :: "pnode list \<Rightarrow> nat \<Rightarrow> pnode list option" where
  "p_resize ns k = (if k \<le> length ns then Some (take k ns) else None)"

definition p_discard_changes :: "unit run" where
  "p_discard_changes =
     after (reading (\<lambda>s. do {
       ns \<leftarrow> fold (\<lambda>(i, n) acc. do { ns \<leftarrow> acc; vec_set ns i n }) (tp_backup s) (Some (tp_nodes s));
       p_resize ns (tp_permanent_nodes_count s) })) (\<lambda>ns.
     changing (\<lambda>s. s\<lparr>tp_nodes := ns, tp_free_locations := {}\<rparr>))"

definition p_size :: "state_persistent \<Rightarrow> nat" where
  "p_size s = length (tp_nodes s)"

end
