(* ===== verification/Persistent_Relation.thy ===== *)
theory Persistent_Relation
  imports State_Persistent
begin

text \<open>
  How a persistent trie relates to an in-memory one: every node of the one reads, through the blob store, as the
  node of the other. With it a calculus of simulation: the persistent operation follows the in-memory one as
  long as the store stays below a bound on its size.
\<close>

section \<open>Limits\<close>

text \<open>
  The store has \<^verbatim>\<open>2^28\<close> words before it grows for the first time. A run stays in \<open>room\<close> while it has written fewer
  than \<^verbatim>\<open>2^26\<close> words. A text of the trie then has at most \<^verbatim>\<open>2^28\<close> bytes, and so the concatenation of two
  of them, or of one and a key of that size, still fits.
\<close>

definition next_word :: "state_persistent \<Rightarrow> nat" where
  "next_word ps = b_next_free (tp_bs ps)"

definition in_room :: "state_persistent \<Rightarrow> bool" where
  "in_room ps \<longleftrightarrow> next_word ps < 2 ^ 26"

definition storable :: "string \<Rightarrow> bool" where
  "storable d \<longleftrightarrow> length d \<le> 2 ^ 28"

text \<open>A run never gives words of the store back.\<close>

definition appends :: "'a run \<Rightarrow> bool" where
  "appends m \<longleftrightarrow> (\<forall>s. next_word s \<le> next_word (snd (m s)))"

named_theorems appends_intros \<open>the runs that only append to the store\<close>

lemma appendsD: "appends m \<Longrightarrow> next_word s \<le> next_word (snd (m s))"
  by (simp add: appends_def)

lemma appends_result [appends_intros]: "appends (result x)"
  by (simp add: appends_def result_def)

lemma appends_reading [appends_intros]: "appends (reading f)"
  by (simp add: appends_def reading_def)

lemma appends_changing: "(\<And>s. next_word (f s) = next_word s) \<Longrightarrow> appends (changing f)"
  by (simp add: appends_def changing_def)

lemma appends_after [appends_intros]: "appends m \<Longrightarrow> (\<And>x. appends (f x)) \<Longrightarrow> appends (after m f)"
  by (fastforce simp: appends_def after_def split: option.splits prod.splits intro: order_trans)

lemma appends_if [appends_intros]: "appends m \<Longrightarrow> appends m' \<Longrightarrow> appends (if b then m else m')"
  by simp

lemma blob_store_appends: "blob_store b d = Some (b', i) \<Longrightarrow> b_next_free b \<le> b_next_free b'"
  by (auto simp: blob_store_def create_blob_def Let_def bind_eq_Some_conv split: if_splits)

lemma appends_store_blob [appends_intros]: "appends (store_blob d)"
  by (auto simp: appends_def store_blob_def next_word_def split: option.splits dest: blob_store_appends)

lemma appends_upd_pnode [appends_intros]: "appends (upd_pnode i f)"
  by (auto simp: appends_def upd_pnode_def next_word_def split: option.splits)

lemma appends_members [appends_intros]:
  "appends (node_at i)" "appends (member_at g i)" "appends (set_parent i p)" "appends (set_prefix i d)"
  "appends (set_hash i d)" "appends (set_value i d)" "appends (set_child i c v)" "appends (p_get_node_index path)"
  unfolding node_at_def member_at_def set_parent_def set_prefix_def set_hash_def set_value_def set_child_def
    p_get_node_index_def
  by (intro appends_intros)+

section \<open>The relation\<close>

type_synonym blobs = "(nat \<times> string) list"

definition node_rel :: "blobs \<Rightarrow> pnode \<Rightarrow> node \<Rightarrow> bool" where
  "node_rel bs pn n \<longleftrightarrow>
     (pn_parent pn = 0 \<and> n_parent n = 0 \<or> (pn_parent pn, le_bytes 4 (n_parent n)) \<in> set bs \<and> n_parent n < 2 ^ 32) \<and>
     (pn_prefix pn, n_prefix n) \<in> set bs \<and> (pn_hash pn, n_hash n) \<in> set bs \<and> (pn_value pn, n_value n) \<in> set bs \<and>
     pn_children pn = n_children n"

text \<open>
  The first two blobs of a store are empty: the one the constructor stores, which stands for the strings of a new
  node, and the hash of the empty trie. The parent of a new node is read from the word behind the first one, which
  is the size of the second: zero.
\<close>

definition store_ok :: "blobstore \<Rightarrow> blobs \<Rightarrow> bool" where
  "store_ok b bs \<longleftrightarrow> blob_holds b bs \<and> 2 ^ 28 \<le> b_capacity b \<and> (\<exists>r. bs = (0, []) # (1, []) # r)"

text \<open>
  A new node stores its parent and its label, so there are not more nodes than words. The slack \<open>k\<close> counts the
  node that was pushed and has not yet stored them.
\<close>

definition rel :: "nat \<Rightarrow> state_persistent \<Rightarrow> state_impl \<Rightarrow> bool" where
  "rel k ps s \<longleftrightarrow> (\<exists>bs. store_ok (tp_bs ps) bs \<and> list_all2 (node_rel bs) (tp_nodes ps) (nodes s) \<and>
     list_all2 (rel_prod (=) (node_rel bs)) (tp_backup ps) (backup s)) \<and>
     tp_free_locations ps = free_locations s \<and> tp_permanent_nodes_count ps = permanent_nodes_count s \<and>
     length (nodes s) \<le> next_word ps + k \<and> k \<le> 1"

lemma relE:
  assumes "rel k ps s"
  obtains bs where "store_ok (tp_bs ps) bs" "list_all2 (node_rel bs) (tp_nodes ps) (nodes s)"
    "list_all2 (rel_prod (=) (node_rel bs)) (tp_backup ps) (backup s)"
    "tp_free_locations ps = free_locations s" "tp_permanent_nodes_count ps = permanent_nodes_count s"
    "length (nodes s) \<le> next_word ps + k" "k \<le> 1"
  using assms by (auto simp: rel_def)

lemma rel_mono: "rel 0 ps s \<Longrightarrow> rel 1 ps s"
  by (auto simp: rel_def)

lemma rel_length: "rel k ps s \<Longrightarrow> length (tp_nodes ps) = length (nodes s)"
  by (auto simp: rel_def dest: list_all2_lengthD)

lemma node_rel_mono: "node_rel bs pn n \<Longrightarrow> set bs \<subseteq> set bs' \<Longrightarrow> node_rel bs' pn n"
  by (auto simp: node_rel_def)

subsection \<open>Reading\<close>

lemma fetch_blob: "store_ok b bs \<Longrightarrow> (i, d) \<in> set bs \<Longrightarrow> blob_fetch b i = Some d"
  using mem.fetch_holds [of b bs i d] by (simp add: store_ok_def)

lemma get_parent_blob:
  assumes "store_ok b bs" "node_rel bs pn n"
  shows "get_parent b pn = Some (n_parent n)"
proof (cases "pn_parent pn = 0 \<and> n_parent n = 0")
  case True
  obtain r where r: "bs = (0, []) # (1, []) # r" using assms(1) by (auto simp: store_ok_def)
  have "read32 (b_storage b) 1 = 0"
    using assms(1) layout_member [of "b_storage b" 0 bs "b_next_free b" 1 "[]"] by (auto simp: store_ok_def blob_holds_def r)
  with True assms(1) show ?thesis
    by (simp add: get_parent_def blob_get_ptr_def store_ok_def read32_def)
next
  case False
  then have m: "(pn_parent pn, le_bytes 4 (n_parent n)) \<in> set bs" "n_parent n < 2 ^ 32"
    using assms(2) by (auto simp: node_rel_def)
  have l: "pn_parent pn + size_in_int32 4 + 1 \<le> b_next_free b" "b_next_free b \<le> b_capacity b"
    "mem_read (b_storage b) (4 * (pn_parent pn + 1)) 4 = le_bytes 4 (n_parent n)"
    using assms(1) layout_member [of "b_storage b" 0 bs "b_next_free b", OF _ m(1)]
    by (auto simp: store_ok_def blob_holds_def)
  have "4 * (pn_parent pn + 1) + 4 \<le> 4 * b_capacity b" using l by (simp add: size_in_int32_def)
  moreover have "pn_parent pn + 1 < b_capacity b" using assms(1) m(1) by (auto simp: store_ok_def blob_holds_def)
  moreover have "le_value (le_bytes 4 (n_parent n)) = n_parent n" using m(2) by (simp add: le_value_bytes)
  ultimately show ?thesis using l(3) by (simp add: get_parent_def blob_get_ptr_def del: mult_Suc_right)
qed

lemma rel_node:
  assumes "rel k ps s" "vec_get (nodes s) i = Some n"
  obtains pn where "vec_get (tp_nodes ps) i = Some pn" "get_parent (tp_bs ps) pn = Some (n_parent n)"
    "get_prefix (tp_bs ps) pn = Some (n_prefix n)" "get_hash (tp_bs ps) pn = Some (n_hash n)"
    "get_value (tp_bs ps) pn = Some (n_value n)" "pn_children pn = n_children n"
proof -
  obtain bs where bs: "store_ok (tp_bs ps) bs" "list_all2 (node_rel bs) (tp_nodes ps) (nodes s)"
    using assms(1) by (auto simp: rel_def)
  have i: "i < length (nodes s)" "n = nodes s ! i" using assms(2) by (auto simp: vec_get_Some_iff)
  then have pn: "i < length (tp_nodes ps)" "node_rel bs (tp_nodes ps ! i) n"
    using bs(2) by (simp_all add: list_all2_conv_all_nth)
  then show thesis
    using that [of "tp_nodes ps ! i"] get_parent_blob [OF bs(1) pn(2)] fetch_blob [OF bs(1)]
    by (auto simp: node_rel_def get_prefix_def get_hash_def get_value_def)
qed

lemma pchild_bytes_eq: "pn_children pn = n_children n \<Longrightarrow> pchild_bytes pn = child_bytes n"
  by (simp add: pchild_bytes_def child_bytes_def get_child_def)

section \<open>Simulation\<close>

text \<open>
  Whenever the in-memory operation returns, the persistent one returns with a related result, unless it has
  left its room.
\<close>

definition simulates ::
  "(state_persistent \<Rightarrow> 'a \<Rightarrow> 'b \<Rightarrow> bool) \<Rightarrow> 'a option \<times> state_persistent \<Rightarrow> 'b option \<Rightarrow> bool" where
  "simulates Q r y \<longleftrightarrow> (\<forall>y'. y = Some y' \<longrightarrow> in_room (snd r) \<longrightarrow> (\<exists>a. fst r = Some a \<and> Q (snd r) a y'))"

lemma simulates_None [simp]: "simulates Q r None"
  by (simp add: simulates_def)

lemma simulates_result: "Q ps a y \<Longrightarrow> simulates Q (result a ps) (Some y)"
  by (simp add: simulates_def result_def)

lemma simulates_weaken: "simulates Q r y \<Longrightarrow> (\<And>ps a z. y = Some z \<Longrightarrow> Q ps a z \<Longrightarrow> Q' ps a z) \<Longrightarrow> simulates Q' r y"
  by (auto simp: simulates_def)

lemma simulates_after:
  assumes "simulates Q (m ps) y" "\<And>ps1 a y1. y = Some y1 \<Longrightarrow> Q ps1 a y1 \<Longrightarrow> simulates Q' (f a ps1) (g y1)" "\<And>a. appends (f a)"
  shows "simulates Q' (after m f ps) (y \<bind> g)"
  unfolding simulates_def
proof (intro allI impI)
  fix z assume z: "y \<bind> g = Some z" and room: "in_room (snd (after m f ps))"
  obtain y1 where y1: "y = Some y1" "g y1 = Some z" using z by (auto simp: bind_eq_Some_conv)
  obtain v ps1 where m: "m ps = (v, ps1)" by (cases "m ps")
  have "in_room ps1"
  proof (cases v)
    case None
    with room m show ?thesis by (simp add: after_def)
  next
    case (Some a)
    then show ?thesis using room m appendsD [OF assms(3), of ps1 a] by (simp add: after_def in_room_def)
  qed
  with assms(1) y1 m obtain a where a: "v = Some a" "Q ps1 a y1" by (auto simp: simulates_def)
  with assms(2) [OF y1(1) a(2)] y1(2) room m show "\<exists>a. fst (after m f ps) = Some a \<and> Q' (snd (after m f ps)) a z"
    by (auto simp: simulates_def after_def)
qed

text \<open>The persistent side goes first, without a step of the other side.\<close>

lemma after_member [simp]:
  "vec_get (tp_nodes ps) i = Some pn \<Longrightarrow> g (tp_bs ps) pn = Some x \<Longrightarrow> after (member_at g i) f ps = f x ps"
  "vec_get (tp_nodes ps) i = Some pn \<Longrightarrow> after (node_at i) f ps = f pn ps"
  by (simp_all add: after_def member_at_def node_at_def reading_def)

lemma after_reading: "h ps = Some x \<Longrightarrow> after (reading h) f ps = f x ps"
  by (simp add: after_def reading_def)

lemma after_changing: "after (changing h) f ps = f () (h ps)"
  by (simp add: after_def changing_def)

text \<open>The in-memory side goes first.\<close>

lemma simulates_bind: "(\<And>x. y = Some x \<Longrightarrow> simulates Q r (g x)) \<Longrightarrow> simulates Q r (y \<bind> g)"
  by (cases y) simp_all

text \<open>Both sides branch.\<close>

lemma simulates_if:
  "(b \<Longrightarrow> simulates Q (m ps) y) \<Longrightarrow> (\<not> b \<Longrightarrow> simulates Q (m' ps) y') \<Longrightarrow>
    simulates Q ((if b then m else m') ps) (if b then y else y')"
  by simp

text \<open>What is known of a state in room may be used before it has been reached.\<close>

lemma simulates_room: "appends m \<Longrightarrow> (in_room ps \<Longrightarrow> simulates Q (m ps) y) \<Longrightarrow> simulates Q (m ps) y"
  by (auto simp: simulates_def in_room_def dest: appendsD intro: le_less_trans)

lemma blob_length: "store_ok b bs \<Longrightarrow> (i, d) \<in> set bs \<Longrightarrow> length d \<le> 4 * b_next_free b"
  using layout_member [of "b_storage b" 0 bs "b_next_free b" i d]
  by (auto simp: store_ok_def blob_holds_def size_in_int32_def split: if_splits)

lemma room_prefix:
  assumes "in_room ps" "rel k ps s" "vec_get (nodes s) i = Some n"
  shows "storable (n_prefix n)"
proof (rule relE [OF assms(2)])
  fix bs assume bs: "store_ok (tp_bs ps) bs" "list_all2 (node_rel bs) (tp_nodes ps) (nodes s)"
  have i: "i < length (nodes s)" "n = nodes s ! i" using assms(3) by (auto simp: vec_get_Some_iff)
  with bs(2) have "node_rel bs (tp_nodes ps ! i) n" by (simp add: list_all2_conv_all_nth)
  then have "length (n_prefix n) \<le> 4 * next_word ps" using blob_length [OF bs(1)] by (auto simp: node_rel_def next_word_def)
  with assms(1) show ?thesis by (simp add: storable_def in_room_def)
qed

lemma room_index: "in_room ps \<Longrightarrow> rel k ps s \<Longrightarrow> i < length (nodes s) \<Longrightarrow> i < 2 ^ 32"
  by (auto simp: in_room_def rel_def)

section \<open>Storing\<close>

lemma store_simulates:
  assumes "store_ok (tp_bs ps) bs" "length d \<le> 2 ^ 29" "in_room (snd (store_blob d ps))"
  shows "\<exists>b i. store_blob d ps = (Some i, ps\<lparr>tp_bs := b\<rparr>) \<and> i < 2 ^ 32 \<and> store_ok b (bs @ [(i, d)]) \<and>
    next_word ps < b_next_free b"
proof -
  let ?b = "tp_bs ps"
  have room: "b_next_free ?b < 2 ^ 26"
    using assms(3) appendsD [OF appends_store_blob, of ps d] by (simp add: in_room_def next_word_def)
  moreover have "size_in_int32 (length d) \<le> 2 ^ 27"
    using assms(2) by (intro size_in_int32_le) simp
  moreover have "2 ^ 28 \<le> b_capacity ?b" "blob_holds ?b bs" using assms(1) by (simp_all add: store_ok_def)
  ultimately have "fits (b_next_free ?b) (b_capacity ?b) (length d)"
    using assms(2) by (simp add: fits_def)
  from blob_store_holds [OF \<open>blob_holds ?b bs\<close> this] obtain b' where
    b': "blob_store ?b d = Some (b', b_next_free ?b)" "blob_holds b' (bs @ [(b_next_free ?b, d)])"
    by blast
  have "b_capacity ?b \<le> b_capacity b'" "b_next_free ?b < b_next_free b'"
    using b'(1) by (auto simp: blob_store_def create_blob_def Let_def bind_eq_Some_conv split: if_splits)
  with b' assms(1) room show ?thesis
    by (intro exI [of _ b'] exI [of _ "b_next_free ?b"]) (auto simp: store_blob_def store_ok_def next_word_def)
qed

text \<open>Storing a text and changing one node.\<close>

lemma store_upd_simulates:
  assumes rel: "rel k ps s" and d: "length d \<le> 2 ^ 29"
    and node: "\<And>bs pn n i. vec_get (nodes s) j = Some n \<Longrightarrow> node_rel bs pn n \<Longrightarrow> i < 2 ^ 32 \<Longrightarrow>
        (i, d) \<in> set bs \<Longrightarrow> node_rel bs (g i pn) (f n)"
  shows "simulates (\<lambda>ps' _ s'. rel 0 ps' s' \<and> j < length (nodes s) \<and> s' = s\<lparr>nodes := (nodes s)[j := f (nodes s ! j)]\<rparr>)
    (after (store_blob d) (\<lambda>i. upd_pnode j (g i)) ps) (upd_node j f s)"
  unfolding simulates_def
proof (intro allI impI)
  fix s' assume u: "upd_node j f s = Some s'" and room: "in_room (snd (after (store_blob d) (\<lambda>i. upd_pnode j (g i)) ps))"
  obtain n where n: "vec_get (nodes s) j = Some n" "s' = s\<lparr>nodes := (nodes s)[j := f n]\<rparr>"
    using u by (auto simp: upd_node_def bind_eq_Some_conv)
  then have j: "j < length (nodes s)" "n = nodes s ! j" by (auto simp: vec_get_Some_iff)
  obtain bs where bs: "store_ok (tp_bs ps) bs" "list_all2 (node_rel bs) (tp_nodes ps) (nodes s)"
      "list_all2 (rel_prod (=) (node_rel bs)) (tp_backup ps) (backup s)"
    and other: "tp_free_locations ps = free_locations s" "tp_permanent_nodes_count ps = permanent_nodes_count s"
      "length (nodes s) \<le> next_word ps + k" "k \<le> 1"
    by (rule relE [OF rel])
  have "in_room (snd (store_blob d ps))"
    using room appendsD [OF appends_upd_pnode] unfolding after_def in_room_def
    by (auto split: option.splits prod.splits intro: le_less_trans)
  from store_simulates [OF bs(1) d this] obtain b i where
    b: "store_blob d ps = (Some i, ps\<lparr>tp_bs := b\<rparr>)" "i < 2 ^ 32" "store_ok b (bs @ [(i, d)])" "next_word ps < b_next_free b"
    by blast
  let ?bs = "bs @ [(i, d)]"
  have mono: "list_all2 (node_rel ?bs) (tp_nodes ps) (nodes s)" "list_all2 (rel_prod (=) (node_rel ?bs)) (tp_backup ps) (backup s)"
    using bs(2,3) by (auto elim!: list_all2_mono prod.rel_mono_strong node_rel_mono)
  have len: "length (tp_nodes ps) = length (nodes s)" by (rule rel_length [OF rel])
  let ?pn = "tp_nodes ps ! j"
  have pn: "node_rel ?bs ?pn n" using mono(1) j by (simp add: list_all2_conv_all_nth)
  then have "node_rel ?bs (g i ?pn) (f n)" using node [OF n(1), of ?bs ?pn i] b(2) by simp
  then have "list_all2 (node_rel ?bs) ((tp_nodes ps)[j := g i ?pn]) ((nodes s)[j := f n])"
    using mono(1) by (simp add: list_all2_update_cong)
  then have "rel 0 (ps\<lparr>tp_bs := b, tp_nodes := (tp_nodes ps)[j := g i ?pn]\<rparr>) s'"
    using b(3,4) mono(2) other by (auto simp: rel_def n(2) next_word_def)
  moreover have "after (store_blob d) (\<lambda>i. upd_pnode j (g i)) ps =
      (Some (), ps\<lparr>tp_bs := b, tp_nodes := (tp_nodes ps)[j := g i ?pn]\<rparr>)"
    using b(1) j len by (simp add: after_def upd_pnode_def)
  ultimately show "\<exists>a. fst (after (store_blob d) (\<lambda>i. upd_pnode j (g i)) ps) = Some a \<and>
      rel 0 (snd (after (store_blob d) (\<lambda>i. upd_pnode j (g i)) ps)) s' \<and> j < length (nodes s) \<and>
      s' = s\<lparr>nodes := (nodes s)[j := f (nodes s ! j)]\<rparr>"
    using j n(2) by simp
qed

end
