(* ===== verification/Persistent_Simulation.thy ===== *)
theory Persistent_Simulation
  imports Persistent_Relation
begin

text \<open>The private operations of the persistent trie follow those of the in-memory trie.\<close>

section \<open>Setters\<close>

text \<open>The state after one node was changed.\<close>

definition changed :: "nat \<Rightarrow> (node \<Rightarrow> node) \<Rightarrow> state_impl \<Rightarrow> state_impl" where
  "changed j f s = s\<lparr>nodes := (nodes s)[j := f (nodes s ! j)]\<rparr>"

lemma changed_sel [simp]:
  "length (nodes (changed j f s)) = length (nodes s)" "backup (changed j f s) = backup s"
  "free_locations (changed j f s) = free_locations s" "permanent_nodes_count (changed j f s) = permanent_nodes_count s"
  by (simp_all add: changed_def)

lemma vec_get_changed: "vec_get (nodes (changed j f s)) i =
    (if i = j then map_option f (vec_get (nodes s) i) else vec_get (nodes s) i)"
  by (simp add: changed_def vec_get_def)

abbreviation writes :: "nat \<Rightarrow> nat \<Rightarrow> (node \<Rightarrow> node) \<Rightarrow> state_impl \<Rightarrow> state_persistent \<Rightarrow> unit \<Rightarrow> state_impl \<Rightarrow> bool" where
  "writes k j f s \<equiv> \<lambda>ps' _ s'. rel k ps' s' \<and> j < length (nodes s) \<and> s' = changed j f s"

lemmas store_upd = store_upd_simulates [folded changed_def]

lemma sim_set_prefix:
  assumes "rel k ps s" "\<And>n. vec_get (nodes s) j = Some n \<Longrightarrow> f n = n\<lparr>n_prefix := d\<rparr>" "length d \<le> 2 ^ 29"
  shows "simulates (writes 0 j f s) (set_prefix j d ps) (upd_node j f s)"
  unfolding set_prefix_def by (rule store_upd [OF assms(1,3)]) (simp add: assms(2) node_rel_def)

lemma storable_29: "storable d \<Longrightarrow> length d \<le> 2 ^ 29"
  by (simp add: storable_def)

lemma sim_set_hash:
  assumes "rel k ps s" "storable d" "\<And>n. vec_get (nodes s) j = Some n \<Longrightarrow> f n = n\<lparr>n_hash := d\<rparr>"
  shows "simulates (writes 0 j f s) (set_hash j d ps) (upd_node j f s)"
  unfolding set_hash_def by (rule store_upd [OF assms(1) storable_29 [OF assms(2)]]) (simp add: assms(3) node_rel_def)

lemma sim_set_value:
  assumes "rel k ps s" "storable d" "\<And>n. vec_get (nodes s) j = Some n \<Longrightarrow> f n = n\<lparr>n_value := d\<rparr>"
  shows "simulates (writes 0 j f s) (set_value j d ps) (upd_node j f s)"
  unfolding set_value_def by (rule store_upd [OF assms(1) storable_29 [OF assms(2)]]) (simp add: assms(3) node_rel_def)

lemma sim_set_parent:
  assumes "rel k ps s" "p < length (nodes s)" "\<And>n. vec_get (nodes s) j = Some n \<Longrightarrow> f n = n\<lparr>n_parent := p\<rparr>"
  shows "simulates (writes 0 j f s) (set_parent j p ps) (upd_node j f s)"
proof (rule simulates_room, rule appends_members)
  assume "in_room ps"
  from room_index [OF this assms(1,2)] show "simulates (writes 0 j f s) (set_parent j p ps) (upd_node j f s)"
    unfolding set_parent_def by (intro store_upd [OF assms(1)]) (simp_all add: assms(3) node_rel_def)
qed

lemma sim_upd_pnode:
  assumes "rel k ps s"
    "\<And>bs pn n. store_ok (tp_bs ps) bs \<Longrightarrow> vec_get (nodes s) j = Some n \<Longrightarrow> node_rel bs pn n \<Longrightarrow> node_rel bs (g pn) (f n)"
  shows "simulates (writes k j f s) (upd_pnode j g ps) (upd_node j f s)"
  unfolding simulates_def
proof (intro allI impI)
  fix s' assume u: "upd_node j f s = Some s'"
  obtain bs where bs: "store_ok (tp_bs ps) bs" "list_all2 (node_rel bs) (tp_nodes ps) (nodes s)"
      "list_all2 (rel_prod (=) (node_rel bs)) (tp_backup ps) (backup s)"
    and other: "tp_free_locations ps = free_locations s" "tp_permanent_nodes_count ps = permanent_nodes_count s"
      "length (nodes s) \<le> next_word ps + k" "k \<le> 1"
    by (rule relE [OF assms(1)])
  have j: "j < length (nodes s)" "s' = changed j f s"
    using u by (auto simp: upd_node_def bind_eq_Some_conv vec_get_Some_iff changed_def)
  have len: "length (tp_nodes ps) = length (nodes s)" by (rule rel_length [OF assms(1)])
  have "node_rel bs (g (tp_nodes ps ! j)) (f (nodes s ! j))"
    using assms(2) [OF bs(1), of "nodes s ! j" "tp_nodes ps ! j"] bs(2) j by (simp add: list_all2_conv_all_nth)
  then have "list_all2 (node_rel bs) ((tp_nodes ps)[j := g (tp_nodes ps ! j)]) (nodes s')"
    using bs(2) by (simp add: j(2) changed_def list_all2_update_cong)
  then have "rel k (ps\<lparr>tp_nodes := (tp_nodes ps)[j := g (tp_nodes ps ! j)]\<rparr>) s'"
    using bs other j(2) by (auto simp: rel_def next_word_def)
  then show "\<exists>a. fst (upd_pnode j g ps) = Some a \<and> writes k j f s (snd (upd_pnode j g ps)) a s'"
    using j len by (simp add: upd_pnode_def)
qed

lemma sim_set_child:
  assumes "rel k ps s" "\<And>n. vec_get (nodes s) j = Some n \<Longrightarrow> f n = n\<lparr>n_children := (n_children n)(c := v)\<rparr>"
  shows "simulates (writes k j f s) (set_child j c v ps) (upd_node j f s)"
  unfolding set_child_def
  by (rule sim_upd_pnode [OF assms(1)]) (simp add: assms(2) node_rel_def)

section \<open>Backups\<close>

lemma p_backup_appends: "next_word s \<le> next_word (snd (p_backup_nodes i s))"
proof (induction i s rule: p_backup_nodes.induct)
  case (1 i s)
  then show ?case
    by (subst p_backup_nodes.simps) (auto simp: Let_def next_word_def split: option.splits)
qed

lemma appends_backup [appends_intros]: "appends (p_backup_nodes i)"
  by (simp add: appends_def p_backup_appends)

text \<open>A backup changes nothing but the backup.\<close>

abbreviation backs :: "nat \<Rightarrow> state_impl \<Rightarrow> state_persistent \<Rightarrow> unit \<Rightarrow> state_impl \<Rightarrow> bool" where
  "backs k s \<equiv> \<lambda>ps' _ s'. rel k ps' s' \<and> nodes s' = nodes s \<and> free_locations s' = free_locations s"

lemma sim_backup: "rel k ps s \<Longrightarrow> simulates (backs k s) (p_backup_nodes i ps) (backup_nodes s i)"
proof (induction s i arbitrary: ps rule: backup_nodes.induct)
  case (1 s i)
  show ?case
  proof (cases "i < length (nodes s)")
    case False
    then show ?thesis by (subst backup_nodes.simps) simp
  next
    case i: True
    obtain bs where bs: "store_ok (tp_bs ps) bs" "list_all2 (node_rel bs) (tp_nodes ps) (nodes s)"
        "list_all2 (rel_prod (=) (node_rel bs)) (tp_backup ps) (backup s)"
      using "1.prems" by (auto simp: rel_def)
    have perm: "tp_permanent_nodes_count ps = permanent_nodes_count s" using "1.prems" by (simp add: rel_def)
    have keys: "map fst (tp_backup ps) = map fst (backup s)"
      using bs(3) by (induction rule: list_all2_induct) auto
    have none: "(map_of (tp_backup ps) i = None) = (map_of (backup s) i = None)"
      unfolding map_of_eq_None_iff using arg_cong [OF keys, of set] by simp
    obtain pn where pn: "vec_get (tp_nodes ps) i = Some pn" "get_parent (tp_bs ps) pn = Some (n_parent (nodes s ! i))"
      using rel_node [OF "1.prems", of i "nodes s ! i"] i by auto
    have "node_rel bs pn (nodes s ! i)"
      using bs(2) i pn(1) by (auto simp: list_all2_conv_all_nth vec_get_Some_iff)
    then have bk: "rel k (ps\<lparr>tp_backup := (i, pn) # tp_backup ps\<rparr>) (s\<lparr>backup := (i, nodes s ! i) # backup s\<rparr>)"
      using "1.prems" bs by (auto simp: rel_def next_word_def)
    consider (old) "map_of (backup s) i \<noteq> None"
      | (stop) "map_of (backup s) i = None" "\<not> (i \<noteq> 0 \<and> i < permanent_nodes_count s)"
      | (up) "map_of (backup s) i = None" "i \<noteq> 0 \<and> i < permanent_nodes_count s"
      by blast
    then show ?thesis
    proof cases
      case old
      have "backup_nodes s i = Some s" using old i by (subst backup_nodes.simps) auto
      moreover have "p_backup_nodes i ps = (Some (), ps)"
        using old none pn(1) by (subst p_backup_nodes.simps) auto
      ultimately show ?thesis using "1.prems" by (simp add: simulates_def)
    next
      case stop
      have "backup_nodes s i = Some (s\<lparr>backup := (i, nodes s ! i) # backup s\<rparr>)"
        using stop i by (subst backup_nodes.simps) (auto simp: Let_def)
      moreover have "p_backup_nodes i ps = (Some (), ps\<lparr>tp_backup := (i, pn) # tp_backup ps\<rparr>)"
        using stop none pn(1) perm by (subst p_backup_nodes.simps) (auto simp: Let_def)
      ultimately show ?thesis using bk by (simp add: simulates_def)
    next
      case up
      have "backup_nodes s i = backup_nodes (s\<lparr>backup := (i, nodes s ! i) # backup s\<rparr>) (n_parent (nodes s ! i))"
        using up i by (subst backup_nodes.simps) (simp add: Let_def)
      moreover have "p_backup_nodes i ps = p_backup_nodes (n_parent (nodes s ! i)) (ps\<lparr>tp_backup := (i, pn) # tp_backup ps\<rparr>)"
        using up none pn perm by (subst p_backup_nodes.simps) (simp add: Let_def)
      ultimately show ?thesis using "1.IH" [OF i up(1) refl up(2) bk] by simp
    qed
  qed
qed

section \<open>New nodes\<close>

lemma node_rel_new: "store_ok b bs \<Longrightarrow> node_rel bs new_pnode new_node"
  by (auto simp: store_ok_def node_rel_def new_pnode_def new_node_def)

lemma appends_take_location [appends_intros]: "appends p_take_location"
proof -
  have "next_word s \<le> next_word (snd (p_take_location s))" for s
  proof (cases "tp_free_locations s = {}")
    case True
    then show ?thesis by (simp add: p_take_location_def next_word_def)
  next
    case False
    have "appends (after (p_backup_nodes l) (\<lambda>_. after (upd_pnode l (\<lambda>_. new_pnode)) (\<lambda>_.
        after (changing (\<lambda>s. s\<lparr>tp_free_locations := tp_free_locations s - {l}\<rparr>)) (\<lambda>_. result l))))" for l
      by (intro appends_intros appends_changing) (simp add: next_word_def)
    with False show ?thesis by (simp add: p_take_location_def Let_def appendsD)
  qed
  then show ?thesis by (simp add: appends_def)
qed

text \<open>A state with a valid index.\<close>

abbreviation at_index :: "nat \<Rightarrow> state_persistent \<Rightarrow> nat \<Rightarrow> state_impl \<times> nat \<Rightarrow> bool" where
  "at_index k \<equiv> \<lambda>ps' i y. rel k ps' (fst y) \<and> i = snd y \<and> i < length (nodes (fst y))"

lemma sim_take_location:
  assumes "rel 0 ps s"
  shows "simulates (at_index 1) (p_take_location ps) (take_location s)"
proof (cases "free_locations s = {}")
  case True
  obtain bs where bs: "store_ok (tp_bs ps) bs" "list_all2 (node_rel bs) (tp_nodes ps) (nodes s)"
      "list_all2 (rel_prod (=) (node_rel bs)) (tp_backup ps) (backup s)"
    and other: "tp_free_locations ps = free_locations s" "tp_permanent_nodes_count ps = permanent_nodes_count s"
      "length (nodes s) \<le> next_word ps + 0"
    by (rule relE [OF assms])
  have "list_all2 (node_rel bs) (tp_nodes ps @ [new_pnode]) (nodes s @ [new_node])"
    using bs(2) node_rel_new [OF bs(1)] by (intro list_all2_appendI) simp_all
  then have "rel 1 (ps\<lparr>tp_nodes := tp_nodes ps @ [new_pnode]\<rparr>) (s\<lparr>nodes := nodes s @ [new_node]\<rparr>)"
    using bs other by (auto simp: rel_def next_word_def)
  then show ?thesis
    using True other rel_length [OF assms] by (simp add: take_location_def p_take_location_def simulates_def)
next
  case False
  let ?l = "Min (free_locations s)"
  let ?cut = "\<lambda>s. s\<lparr>free_locations := free_locations s - {?l}\<rparr>"
  let ?pcut = "\<lambda>s. s\<lparr>tp_free_locations := tp_free_locations s - {?l}\<rparr>"
  have free: "tp_free_locations ps = free_locations s" using assms by (simp add: rel_def)
  have *: "take_location s = backup_nodes s ?l \<bind> (\<lambda>s. upd_node ?l (\<lambda>_. new_node) s \<bind> (\<lambda>s. Some (?cut s, ?l)))"
    using False
    by (auto simp: take_location_def Let_def upd_node_def vec_set_def vec_get_def intro!: Option.bind_cong split: if_splits)
  have end_chain: "appends (after (changing ?pcut) (\<lambda>_. result ?l))"
    by (intro appends_intros appends_changing) (simp add: next_word_def)
  have "simulates (at_index 1)
    (after (p_backup_nodes ?l) (\<lambda>_. after (upd_pnode ?l (\<lambda>_. new_pnode)) (\<lambda>_. after (changing ?pcut) (\<lambda>_. result ?l))) ps)
    (backup_nodes s ?l \<bind> (\<lambda>s. upd_node ?l (\<lambda>_. new_node) s \<bind> (\<lambda>s. Some (?cut s, ?l))))"
  proof (rule simulates_after, rule sim_backup [OF assms])
    fix ps1 a s1 assume b: "backs 0 s ps1 a s1"
    have upd: "simulates (writes 0 ?l (\<lambda>_. new_node) s1) (upd_pnode ?l (\<lambda>_. new_pnode) ps1) (upd_node ?l (\<lambda>_. new_node) s1)"
      by (rule sim_upd_pnode) (use b node_rel_new in auto)
    show "simulates (at_index 1) (after (upd_pnode ?l (\<lambda>_. new_pnode)) (\<lambda>_. after (changing ?pcut) (\<lambda>_. result ?l)) ps1)
      (upd_node ?l (\<lambda>_. new_node) s1 \<bind> (\<lambda>s. Some (?cut s, ?l)))"
      by (rule simulates_after, rule upd)
        (use b end_chain in \<open>auto simp: after_changing rel_def intro!: simulates_result simp: next_word_def\<close>)
  qed (intro appends_intros end_chain)
  then show ?thesis using False free by (simp add: * p_take_location_def Let_def)
qed

lemma appends_add_node [appends_intros]: "appends (p_add_node from c)"
  unfolding p_add_node_def by (intro appends_intros)

section \<open>Chains\<close>

text \<open>The same steps as the heads of a chain, in the form in which the operations use them.\<close>

lemma chain_upd:
  assumes "simulates (writes k j f s) (m ps) (upd_node j f s)"
    "\<And>ps1. rel k ps1 (changed j f s) \<Longrightarrow> j < length (nodes s) \<Longrightarrow> simulates Q (g () ps1) (h (changed j f s))" "appends (g ())"
  shows "simulates Q (after m g ps) (upd_node j f s \<bind> h)"
  by (rule simulates_after, rule assms(1)) (use assms(2,3) in auto)

lemmas chain_prefix = chain_upd [where m = "set_prefix j d" for j d, OF sim_set_prefix]
lemmas chain_hash = chain_upd [where m = "set_hash j d" for j d, OF sim_set_hash]
lemmas chain_value = chain_upd [where m = "set_value j d" for j d, OF sim_set_value]
lemmas chain_parent = chain_upd [where m = "set_parent j d" for j d, OF sim_set_parent]
lemmas chain_child = chain_upd [where m = "set_child j c v" for j c v, OF sim_set_child]

lemma chain_backup:
  assumes "rel k ps s"
    "\<And>ps1 s1. rel k ps1 s1 \<Longrightarrow> nodes s1 = nodes s \<Longrightarrow> simulates Q (g () ps1) (h s1)" "appends (g ())"
  shows "simulates Q (after (p_backup_nodes i) g ps) (backup_nodes s i \<bind> h)"
  by (rule simulates_after, rule sim_backup [OF assms(1)]) (use assms(2,3) in auto)

lemma chain_at_index:
  assumes "simulates (at_index k) (m ps) y"
    "\<And>ps1 s1 i. rel k ps1 s1 \<Longrightarrow> i < length (nodes s1) \<Longrightarrow> simulates Q (g i ps1) (h (s1, i))" "\<And>i. appends (g i)"
  shows "simulates Q (after m g ps) (y \<bind> h)"
  by (rule simulates_after, rule assms(1)) (use assms(2,3) in auto)

lemma chain_read:
  assumes "rel k ps s" "vec_get (nodes s) i = Some n"
  shows chain_get_value: "simulates Q (g (n_value n) ps) y \<Longrightarrow> simulates Q (after (member_at get_value i) g ps) y"
    and chain_get_prefix: "simulates Q (g (n_prefix n) ps) y \<Longrightarrow> simulates Q (after (member_at get_prefix i) g ps) y"
    and chain_get_hash: "simulates Q (g (n_hash n) ps) y \<Longrightarrow> simulates Q (after (member_at get_hash i) g ps) y"
    and chain_get_parent: "simulates Q (g' (n_parent n) ps) y \<Longrightarrow> simulates Q (after (member_at get_parent i) g' ps) y"
    and chain_node: "(\<And>pn. pn_children pn = n_children n \<Longrightarrow> simulates Q (g'' pn ps) y) \<Longrightarrow> simulates Q (after (node_at i) g'' ps) y"
  by (rule_tac [!] rel_node [OF assms]) (simp_all add: after_def member_at_def node_at_def reading_def)

lemma sim_add_node:
  assumes "rel 0 ps s"
  shows "simulates (at_index 0) (p_add_node from c ps) (add_node s from c)"
  unfolding p_add_node_def add_node_def
  apply (rule chain_at_index, rule sim_take_location [OF assms])
   apply (simp only: prod.case)
   apply (rule chain_child, assumption, rule refl)
    apply (rule chain_parent, assumption, simp, rule refl)
     apply (rule chain_prefix, assumption, rule refl, simp)
      apply (rule simulates_result)
      apply simp
     apply (intro appends_intros)+
  done

section \<open>Hashes\<close>

definition parent_of :: "state_impl \<Rightarrow> nat \<Rightarrow> nat" where
  "parent_of s i = n_parent (nodes s ! i)"

text \<open>\<open>d\<close> steps lead from \<open>i\<close> to the root, inside the vector.\<close>

definition leads_up :: "state_impl \<Rightarrow> nat \<Rightarrow> nat \<Rightarrow> bool" where
  "leads_up s i d \<longleftrightarrow> (parent_of s ^^ d) i = 0 \<and> (\<forall>j \<le> d. (parent_of s ^^ j) i < length (nodes s))"

lemma parent_of_changed: "(\<And>n. n_parent (f n) = n_parent n) \<Longrightarrow> parent_of (changed i f s) = parent_of s"
  by (rule ext) (metis changed_def length_list_update linorder_not_less list_update_beyond nth_list_update nth_list_update_neq
      parent_of_def state_impl.select_convs(1) state_impl.surjective state_impl.update_convs(1))

lemma leads_up_changed: "(\<And>n. n_parent (f n) = n_parent n) \<Longrightarrow> leads_up (changed i f s) = leads_up s"
  by (auto simp: leads_up_def parent_of_changed fun_eq_iff)

lemma leads_up_step:
  assumes "leads_up s (parent_of s i) d" "i < length (nodes s)"
  shows "leads_up s i (Suc d)"
proof -
  have "(parent_of s ^^ j) i < length (nodes s)" if "j \<le> Suc d" for j
    using assms that by (cases j) (auto simp: leads_up_def funpow_swap1)
  then show ?thesis using assms by (auto simp: leads_up_def funpow_swap1)
qed

lemma leads_up_Suc: "leads_up s i (Suc d) \<Longrightarrow> leads_up s (parent_of s i) d"
  by (force simp: leads_up_def funpow_Suc_right simp del: funpow.simps(2) dest: spec [where x = "Suc j" for j])

lemma upd_node_changed: "upd_node i f s = Some s' \<longleftrightarrow> i < length (nodes s) \<and> s' = changed i f s"
  by (auto simp: upd_node_def bind_eq_Some_conv vec_get_Some_iff changed_def)

lemma calculate_hash_leads_up: "calculate_hash H s i = Some s' \<Longrightarrow> \<exists>d. leads_up s i d"
proof (induction H s i s' rule: calculate_hash.raw_induct [rotated, consumes 1, case_names step])
  case (step calc H s i s')
  then obtain n where n: "i < length (nodes s)" "n = nodes s ! i"
    by (auto simp: bind_eq_Some_conv vec_get_Some_iff)
  show ?case
  proof (cases "i = 0")
    case True
    with n show ?thesis by (intro exI [of _ 0]) (simp add: leads_up_def)
  next
    case False
    with step.hyps n obtain h where "calc H (changed i (\<lambda>n. n\<lparr>n_hash := h\<rparr>) s) (n_parent n) = Some s'"
      by (auto simp: bind_eq_Some_conv upd_node_changed)
    from step.IH [OF this] obtain d where "leads_up s (parent_of s i) d"
      using n(2) by (auto simp: leads_up_changed parent_of_def)
    from leads_up_step [OF this n(1)] show ?thesis by blast
  qed
qed

lemma leads_up_short: "leads_up s i d \<Longrightarrow> \<exists>d < length (nodes s). leads_up s i d"
proof -
  assume "leads_up s i d"
  define m where "m = (LEAST d. (parent_of s ^^ d) i = 0)"
  let ?f = "\<lambda>j. (parent_of s ^^ j) i"
  have m0: "?f m = 0" and le: "m \<le> d"
    unfolding m_def using \<open>leads_up s i d\<close> by (auto simp: leads_up_def intro: LeastI Least_le)
  have least: "?f j \<noteq> 0" if "j < m" for j using not_less_Least that by (auto simp: m_def)
  have "inj_on ?f {..m}"
  proof (rule linorder_inj_onI)
    fix a b assume ab: "a < b" "a \<in> {..m}" "b \<in> {..m}"
    show "?f a \<noteq> ?f b"
    proof
      assume "?f a = ?f b"
      then have "?f (m - b + a) = ?f (m - b + b)" by (simp add: funpow_add)
      with m0 ab have "?f (m - b + a) = 0" by simp
      moreover have "m - b + a < m" using ab by auto
      ultimately show False using least by blast
    qed
  qed auto
  moreover have "?f ` {..m} \<subseteq> {..<length (nodes s)}"
    using \<open>leads_up s i d\<close> le by (auto simp: leads_up_def)
  ultimately have "card {..m} \<le> card {..<length (nodes s)}" by (metis card_inj_on_le finite_lessThan)
  then have "m < length (nodes s)" by simp
  moreover have "leads_up s i m" using \<open>leads_up s i d\<close> le m0 by (auto simp: leads_up_def)
  ultimately show ?thesis by blast
qed

lemma appends_calculate_hash: "appends (p_calculate_hash fuel H i)"
proof (induction fuel arbitrary: i)
  case (Suc fuel)
  show ?case by (simp only: p_calculate_hash.simps) (intro appends_intros Suc)
qed (simp add: appends_reading)

lemma appends_hash_up [appends_intros]: "appends (p_hash_up H i)"
  using appends_calculate_hash by (auto simp: appends_def p_hash_up_def)

lemma sim_child_hashes:
  assumes "rel k ps s" "pn_children pn = n_children n" "hash_input (nodes s) n = Some input"
  shows "\<exists>hs. p_child_hashes pn ps = Some hs \<and> input = n_value n @ n_prefix n @ concat hs"
proof -
  let ?h = "\<lambda>c. map_option n_hash (vec_get (nodes s) (n_children n c))"
  let ?p = "\<lambda>c. vec_get (tp_nodes ps) (n_children n c) \<bind> get_hash (tp_bs ps)"
  obtain hs where hs: "those (map ?h (child_bytes n)) = Some hs" "input = n_value n @ n_prefix n @ concat hs"
    using assms(3) by (auto simp: hash_input_def bind_eq_Some_conv)
  have "?p c = Some h" if "?h c = Some h" for c h
    using that rel_node [OF assms(1)] by (auto simp: bind_eq_Some_conv elim: rel_node [OF assms(1)])
  then have "those (map ?h cs) = Some hs \<Longrightarrow> those (map ?p cs) = Some hs" for cs hs
  proof (induction cs arbitrary: hs)
    case (Cons c cs)
    then show ?case by (auto split: option.splits simp del: map_option_eq_Some)
  qed simp
  with hs assms(2) show ?thesis by (simp add: p_child_hashes_def get_child_def pchild_bytes_eq)
qed

abbreviation hashes :: "state_impl \<Rightarrow> state_persistent \<Rightarrow> unit \<Rightarrow> state_impl \<Rightarrow> bool" where
  "hashes s \<equiv> \<lambda>ps' _ s'. rel 0 ps' s' \<and> length (nodes s') = length (nodes s)"

lemma sim_calculate_hash:
  assumes H: "\<And>x. storable (H x)"
  shows "rel 0 ps s \<Longrightarrow> leads_up s i d \<Longrightarrow> d < fuel \<Longrightarrow>
    simulates (hashes s) (p_calculate_hash fuel H i ps) (calculate_hash H s i)"
proof (induction fuel arbitrary: ps s i d)
  case (Suc fuel)
  show ?case
  proof (cases "vec_get (nodes s) i")
    case None
    then show ?thesis by (subst calculate_hash.simps) simp
  next
    case (Some n)
    obtain pn where pn: "vec_get (tp_nodes ps) i = Some pn" "get_parent (tp_bs ps) pn = Some (n_parent n)"
        "get_prefix (tp_bs ps) pn = Some (n_prefix n)" "get_value (tp_bs ps) pn = Some (n_value n)"
        "pn_children pn = n_children n"
      by (rule rel_node [OF Suc.prems(1) Some])
    note bytes = pchild_bytes_eq [OF pn(5)]
    show ?thesis
    proof (cases "i = 0 \<and> child_bytes n = []")
      case True
      have "simulates (writes 0 i (\<lambda>n. n\<lparr>n_hash := []\<rparr>) s) (set_hash i [] ps) (upd_node i (\<lambda>n. n\<lparr>n_hash := []\<rparr>) s)"
        by (rule sim_set_hash [OF Suc.prems(1)]) (simp_all add: storable_def)
      then have "simulates (hashes s) (set_hash i [] ps) (upd_node i (\<lambda>n. n\<lparr>n_hash := []\<rparr>) s)"
        by (rule simulates_weaken) auto
      then show ?thesis
        using True Some pn(1) bytes by (subst calculate_hash.simps) (auto simp del: p_backup_nodes.simps)
    next
      case False
      have "simulates (hashes s)
          (after (member_at get_value i) (\<lambda>v. after (member_at get_prefix i) (\<lambda>pre. after (reading (p_child_hashes pn)) (\<lambda>hs.
             after (set_hash i (H (v @ pre @ concat hs))) (\<lambda>_.
               if i \<noteq> 0 then after (member_at get_parent i) (p_calculate_hash fuel H) else result ())))) ps)
          (hash_input (nodes s) n \<bind> (\<lambda>input. upd_node i (\<lambda>n. n\<lparr>n_hash := H input\<rparr>) s \<bind>
            (\<lambda>s. if i \<noteq> 0 then calculate_hash H s (n_parent n) else Some s)))"
      proof (rule simulates_bind)
        fix input assume "hash_input (nodes s) n = Some input"
        from sim_child_hashes [OF Suc.prems(1) pn(5) this] obtain hs where
          hs: "p_child_hashes pn ps = Some hs" "input = n_value n @ n_prefix n @ concat hs" by blast
        let ?f = "\<lambda>n. n\<lparr>n_hash := H input\<rparr>"
        have "simulates (hashes s)
            (after (set_hash i (H input)) (\<lambda>_. if i \<noteq> 0 then after (member_at get_parent i) (p_calculate_hash fuel H) else result ()) ps)
            (upd_node i ?f s \<bind> (\<lambda>s. if i \<noteq> 0 then calculate_hash H s (n_parent n) else Some s))"
        proof (rule simulates_after, rule sim_set_hash [OF Suc.prems(1) H])
          fix ps1 a s1 assume w: "writes 0 i ?f s ps1 a s1"
          show "simulates (hashes s) ((if i \<noteq> 0 then after (member_at get_parent i) (p_calculate_hash fuel H) else result ()) ps1)
             (if i \<noteq> 0 then calculate_hash H s1 (n_parent n) else Some s1)"
          proof (cases "i = 0")
            case True
            then show ?thesis using w by (auto simp: simulates_def result_def)
          next
            case nz: False
            then obtain d' where d': "d = Suc d'" using Suc.prems(2) by (cases d) (auto simp: leads_up_def)
            have "n = nodes s ! i" using Some by (simp add: vec_get_Some_iff)
            then have "leads_up s1 (n_parent n) d'"
              using w leads_up_Suc [OF Suc.prems(2) [unfolded d']] by (simp add: leads_up_changed parent_of_def)
            with Suc.IH [of ps1 s1 "n_parent n" d'] w Suc.prems(3) d'
            have "simulates (hashes s1) (p_calculate_hash fuel H (n_parent n) ps1) (calculate_hash H s1 (n_parent n))" by auto
            then have "simulates (hashes s) (p_calculate_hash fuel H (n_parent n) ps1) (calculate_hash H s1 (n_parent n))"
              by (rule simulates_weaken) (use w in simp)
            moreover have "vec_get (nodes s1) i = Some (?f n)" using w Some by (auto simp: vec_get_changed)
            ultimately show ?thesis using nz w chain_get_parent [of 0 ps1 s1 i "?f n"] by auto
          qed
        qed (auto intro!: appends_intros appends_calculate_hash)
        then show "simulates (hashes s)
          (after (member_at get_value i) (\<lambda>v. after (member_at get_prefix i) (\<lambda>pre. after (reading (p_child_hashes pn)) (\<lambda>hs.
             after (set_hash i (H (v @ pre @ concat hs))) (\<lambda>_.
               if i \<noteq> 0 then after (member_at get_parent i) (p_calculate_hash fuel H) else result ())))) ps)
          (upd_node i ?f s \<bind> (\<lambda>s. if i \<noteq> 0 then calculate_hash H s (n_parent n) else Some s))"
          unfolding hs(2)
          by - (rule chain_get_value [OF Suc.prems(1) Some], rule chain_get_prefix [OF Suc.prems(1) Some],
            subst after_reading, rule hs(1), assumption)
      qed
      moreover have "\<not> (i = 0 \<and> pchild_bytes pn = [])" using False bytes by simp
      ultimately show ?thesis using False Some pn(1)
        by (subst calculate_hash.simps) (simp only: p_calculate_hash.simps after_member(2) bind.bind_lunit if_False)
    qed
  qed
qed simp

lemma sim_hash_up:
  assumes "rel 0 ps s" "\<And>x. storable (H x)"
  shows "simulates (hashes s) (p_hash_up H i ps) (calculate_hash H s i)"
proof (cases "calculate_hash H s i")
  case (Some s')
  from leads_up_short calculate_hash_leads_up [OF this] obtain d where "leads_up s i d" "d < length (nodes s)" by blast
  then show ?thesis
    using sim_calculate_hash [OF assms(2,1)] rel_length [OF assms(1)] by (simp add: p_hash_up_def)
qed simp

lemma chain_hash_up:
  assumes "rel 0 ps s" "\<And>x. storable (H x)"
    "\<And>ps1 s1. rel 0 ps1 s1 \<Longrightarrow> length (nodes s1) = length (nodes s) \<Longrightarrow> simulates Q (g () ps1) (h s1)" "appends (g ())"
  shows "simulates Q (after (p_hash_up H i) g ps) (calculate_hash H s i \<bind> h)"
  by (rule simulates_after, rule sim_hash_up [OF assms(1,2)]) (use assms(3,4) in auto)

end
