(* ===== verification/Persistent_Operations.thy ===== *)
theory Persistent_Operations
  imports Persistent_Simulation State_Session
begin

text \<open>
  The public operations of the persistent trie follow those of the in-memory trie, each by a chain of the steps
  of \<open>Persistent_Simulation\<close>.
\<close>

section \<open>Lookup\<close>

lemma get_prefix_rel:
  assumes "rel k ps s" "vec_get (nodes s) i = Some n"
  obtains pn where "vec_get (tp_nodes ps) i = Some pn" "get_prefix (tp_bs ps) pn = Some (n_prefix n)"
    "pn_children pn = n_children n"
  using rel_node [OF assms] by blast

lemma p_get_node_index_loop_eq:
  "rel k ps s \<Longrightarrow> get_node_index_loop (nodes s) path cur i e = Some x \<Longrightarrow>
    p_get_node_index_loop (tp_bs ps) (tp_nodes ps) path cur i e = Some x"
proof (induction "nodes s" path cur i e rule: get_node_index_loop.induct)
  case (1 path cur i e)
  show ?case
  proof (cases "i < length path \<or> e")
    case False
    with "1.prems"(2) show ?thesis
      by (subst p_get_node_index_loop.simps, subst (asm) get_node_index_loop.simps) simp
  next
    case True
    with "1.prems"(2) obtain n where n: "vec_get (nodes s) cur = Some n"
      by (subst (asm) get_node_index_loop.simps) (auto simp: bind_eq_Some_conv split: if_splits)
    obtain pn where pn: "vec_get (tp_nodes ps) cur = Some pn" "get_prefix (tp_bs ps) pn = Some (n_prefix n)"
        "pn_children pn = n_children n"
      by (rule get_prefix_rel [OF "1.prems"(1) n])
    note step = "1.prems"(2) [unfolded get_node_index_loop.simps [of "nodes s" path cur i e] n bind.bind_lunit]
    note goal = p_get_node_index_loop.simps [of "tp_bs ps" "tp_nodes ps" path cur i e, unfolded pn(1,2) bind.bind_lunit get_child_def pn(3)]
    consider (over) "\<not> i < length path" | (short) "i < length path" "length (n_prefix n) \<le> 1"
      | (inside) "i < length path" "\<not> length (n_prefix n) \<le> 1" "length (n_prefix n) - 1 < length path - i"
      | (last) "i < length path" "\<not> length (n_prefix n) \<le> 1" "\<not> length (n_prefix n) - 1 < length path - i"
      by blast
    then show ?thesis
    proof cases
      case over
      with step True show ?thesis unfolding goal by simp
    next
      case short
      with step "1.hyps"(1) [OF short(1) n short(2) _ "1.prems"(1)] show ?thesis
        by (simp add: goal split: if_splits)
    next
      case inside
      obtain sub where sub: "(if i = 0 then None else substr path (i - 1) (length (n_prefix n))) = Some sub"
        using step inside by (auto simp: bind_eq_Some_conv)
      from step inside sub "1.hyps"(2) [OF inside(1) n inside(2,3) sub _ refl _ "1.prems"(1)] show ?thesis
        by (simp add: goal Let_def split: if_splits)
    next
      case last
      with step show ?thesis by (simp add: goal split: if_splits)
    qed
  qed
qed

lemma p_get_node_index_eq:
  "rel k ps s \<Longrightarrow> get_node_index s path = Some x \<Longrightarrow> p_get_node_index path ps = (Some x, ps)"
  by (simp add: p_get_node_index_def reading_def get_node_index_def p_get_node_index_loop_eq)

lemma chain_index:
  assumes "rel k ps s" "\<And>i. get_node_index s path = Some i \<Longrightarrow> simulates Q (g i ps) (h i)"
  shows "simulates Q (after (p_get_node_index path) g ps) (get_node_index s path \<bind> h)"
  by (rule simulates_bind) (use assms p_get_node_index_eq in \<open>auto simp: after_def\<close>)

text \<open>A result that is the same on both sides, and the state as it was.\<close>

abbreviation same :: "state_persistent \<Rightarrow> state_persistent \<Rightarrow> 'a \<Rightarrow> 'a \<Rightarrow> bool" where
  "same ps \<equiv> \<lambda>ps' x y. x = y \<and> ps' = ps"

lemma sim_member:
  assumes "rel k ps s"
  shows "simulates (same ps) (member_at get_value i ps) (vec_get (nodes s) i \<bind> (\<lambda>n. Some (n_value n)))"
    "simulates (same ps) (member_at get_hash i ps) (vec_get (nodes s) i \<bind> (\<lambda>n. Some (n_hash n)))"
  by (rule simulates_bind, rule rel_node [OF assms], assumption, simp add: simulates_def member_at_def reading_def)+

lemma sim_get: "rel k ps s \<Longrightarrow> simulates (same ps) (p_get key ps) (state_get s key)"
  unfolding p_get_def state_get_def
  by (rule chain_index, assumption) (simp add: sim_member simulates_result)

lemma sim_get_node_hash: "rel k ps s \<Longrightarrow> simulates (same ps) (p_get_node_hash key ps) (get_node_hash s key)"
  unfolding p_get_node_hash_def get_node_hash_def
  by (rule chain_index, assumption) (simp add: sim_member simulates_result)

lemma those_map_imp: "those (map f xs) = Some ys \<Longrightarrow> (\<And>x y. f x = Some y \<Longrightarrow> g x = Some y) \<Longrightarrow> those (map g xs) = Some ys"
  by (induction xs arbitrary: ys) (auto split: option.splits)

lemma sim_get_node_children:
  "rel k ps s \<Longrightarrow> simulates (same ps) (p_get_node_children key ps) (get_node_children s key)"
  unfolding p_get_node_children_def get_node_children_def
proof (rule chain_index, assumption)
  fix i assume rel: "rel k ps s"
  show "simulates (same ps)
      ((if i = - 1 then result (throw (Out_of_range ''No node at this path''))
        else after (node_at (nat i)) (\<lambda>n. after (reading (\<lambda>s. those (map (\<lambda>c. vec_get (tp_nodes s) (get_child c n) \<bind>
          get_prefix (tp_bs s)) (pchild_bytes n)))) (\<lambda>ps. result (return ps)))) ps)
      (if i = - 1 then Some (throw (Out_of_range ''No node at this path''))
       else do { n \<leftarrow> vec_get (nodes s) (nat i);
         ps \<leftarrow> those (map (\<lambda>c. map_option n_prefix (vec_get (nodes s) (n_children n c))) (child_bytes n));
         Some (return ps) })"
  proof (cases "i = - 1")
    case False
    have "simulates (same ps)
        (after (node_at (nat i)) (\<lambda>n. after (reading (\<lambda>s. those (map (\<lambda>c. vec_get (tp_nodes s) (get_child c n) \<bind>
          get_prefix (tp_bs s)) (pchild_bytes n)))) (\<lambda>ps. result (return ps))) ps)
        (do { n \<leftarrow> vec_get (nodes s) (nat i);
          ps \<leftarrow> those (map (\<lambda>c. map_option n_prefix (vec_get (nodes s) (n_children n c))) (child_bytes n));
          Some (return ps) })"
    proof (rule simulates_bind, rule chain_node [OF rel], assumption, rule simulates_bind)
      fix n and pn :: pnode and ls assume pn: "pn_children pn = n_children n"
        and ls: "those (map (\<lambda>c. map_option n_prefix (vec_get (nodes s) (n_children n c))) (child_bytes n)) = Some ls"
      have "those (map (\<lambda>c. vec_get (tp_nodes ps) (get_child c pn) \<bind> get_prefix (tp_bs ps)) (pchild_bytes pn)) = Some ls"
        unfolding pchild_bytes_eq [OF pn]
        by (rule those_map_imp [OF ls]) (auto simp: pn get_child_def elim!: get_prefix_rel [OF rel])
      then show "simulates (same ps)
          (after (reading (\<lambda>s. those (map (\<lambda>c. vec_get (tp_nodes s) (get_child c pn) \<bind> get_prefix (tp_bs s)) (pchild_bytes pn))))
            (\<lambda>ps. result (return ps)) ps) (Some (return ls))"
        by (simp add: after_reading simulates_def result_def)
    qed
    with False show ?thesis by simp
  qed (simp add: simulates_def result_def)
qed

section \<open>Setting\<close>

lemma appends_split_edge [appends_intros]: "appends (p_split_edge H i j)"
  unfolding p_split_edge_def by (intro appends_intros)

lemma sim_split_edge:
  assumes "rel 0 ps s" "\<And>x. storable (H x)"
  shows "simulates (at_index 0) (p_split_edge H cur pos ps) (split_edge H s cur pos)"
proof (rule simulates_room, rule appends_split_edge)
  assume room: "in_room ps"
  show ?thesis
    unfolding p_split_edge_def split_edge_def
  proof (rule simulates_bind)
    fix n assume n: "vec_get (nodes s) cur = Some n"
    have len: "length (n_prefix n) \<le> 2 ^ 29" using room_prefix [OF room assms(1) n] by (simp add: storable_def)
    show "simulates (at_index 0)
      (after (member_at get_prefix cur) (\<lambda>pre. after (p_backup_nodes cur) (\<lambda>_. after (member_at get_parent cur) (\<lambda>parent.
         after (p_add_node parent (char0 pre)) (\<lambda>split. after (set_parent cur split) (\<lambda>_.
         after (set_child split (char0 (drop pos pre)) cur) (\<lambda>_. after (set_prefix split (take pos pre)) (\<lambda>_.
         after (set_prefix cur (drop pos pre)) (\<lambda>_. after (p_hash_up H cur) (\<lambda>_. result split))))))))) ps)
      (do { s \<leftarrow> backup_nodes s cur;
         (s, split) \<leftarrow> add_node s (n_parent n) (char0 (n_prefix n));
         s \<leftarrow> upd_node cur (\<lambda>n. n\<lparr>n_parent := split\<rparr>) s;
         s \<leftarrow> upd_node split (\<lambda>m. m\<lparr>n_children := (n_children m)(char0 (drop pos (n_prefix n)) := cur)\<rparr>) s;
         s \<leftarrow> upd_node split (\<lambda>m. m\<lparr>n_prefix := take pos (n_prefix n)\<rparr>) s;
         s \<leftarrow> upd_node cur (\<lambda>m. m\<lparr>n_prefix := drop pos (n_prefix n)\<rparr>) s;
         s \<leftarrow> calculate_hash H s cur;
         Some (s, split) })"
      apply (rule chain_get_prefix [OF assms(1) n])
      apply (rule chain_backup, rule assms(1))
       apply (rule chain_get_parent, assumption, use n in simp)
       apply (rule chain_at_index, rule sim_add_node, assumption)
        apply (simp only: prod.case)
        apply (rule chain_parent, assumption, assumption, rule refl)
         apply (rule chain_child, assumption, rule refl)
          apply (rule chain_prefix, assumption, rule refl, use len in simp)
           apply (rule chain_prefix, assumption, rule refl, use len in simp)
            apply (rule chain_hash_up, assumption, rule assms(2))
             apply (rule simulates_result, simp)
            apply (intro appends_intros)+
      done
  qed
qed

text \<open>The loop returns the same positions; the state on the other side is a component of the result.\<close>

abbreviation beside :: "state_persistent \<Rightarrow> 'a \<Rightarrow> state_impl \<times> 'a \<Rightarrow> bool" where
  "beside \<equiv> \<lambda>ps' r y. rel 0 ps' (fst y) \<and> r = snd y"

lemma appends_set_loop [appends_intros]: "appends (p_set_loop H cur pos i rest)"
proof (induction rest arbitrary: cur pos i)
  case (Cons x rest)
  show ?case by (simp only: p_set_loop.simps) (intro appends_intros Cons)
qed (simp add: appends_result)

lemma sim_set_loop:
  assumes H: "\<And>x. storable (H x)"
  shows "rel 0 ps s \<Longrightarrow> storable rest \<Longrightarrow>
    simulates beside (p_set_loop H cur pos i rest ps) (set_loop H s cur pos i rest)"
proof (induction rest arbitrary: ps s cur pos i)
  case Nil
  then show ?case by (simp add: simulates_def result_def)
next
  case (Cons x rest)
  have rest: "storable rest" using Cons.prems(2) by (simp add: storable_def)
  note IH = Cons.IH [OF _ rest]
  show ?case
  proof (rule simulates_room, rule appends_set_loop, unfold p_set_loop.simps set_loop.simps, rule simulates_bind)
    fix n assume room: "in_room ps" and n: "vec_get (nodes s) cur = Some n"
    note len = room_prefix [OF room Cons.prems(1) n]
    have grow: "simulates beside (after (p_add_node j x) (\<lambda>cur. p_set_loop H cur 1 (Suc i) rest) ps')
        (add_node s' j x \<bind> (\<lambda>(s, cur). set_loop H s cur 1 (Suc i) rest))" if "rel 0 ps' s'" for j ps' s'
      by (rule chain_at_index, rule sim_add_node [OF that]) (simp_all add: IH appends_set_loop)
    have backed: "simulates beside (after (p_backup_nodes cur) (\<lambda>_. after (p_add_node cur x) (\<lambda>cur. p_set_loop H cur 1 (Suc i) rest)) ps)
        (backup_nodes s cur \<bind> (\<lambda>s. add_node s cur x \<bind> (\<lambda>(s, cur). set_loop H s cur 1 (Suc i) rest)))"
      by (rule chain_backup [OF Cons.prems(1)], erule grow, intro appends_intros)
    have extend: "simulates beside (after (set_prefix cur (n_prefix n @ x # rest)) (\<lambda>_. result (cur, pos, i)) ps)
        (upd_node cur (\<lambda>n. n\<lparr>n_prefix := n_prefix n @ x # rest\<rparr>) s \<bind> (\<lambda>s. Some (s, cur, pos, i)))"
      by (rule chain_prefix [OF Cons.prems(1)])
        (use n len Cons.prems(2) in \<open>auto simp: storable_def simulates_def result_def intro: appends_intros\<close>)
    have split: "simulates beside (after (p_split_edge H cur pos) (\<lambda>j. after (p_add_node j x) (\<lambda>cur. p_set_loop H cur 1 (Suc i) rest)) ps)
        (split_edge H s cur pos \<bind> (\<lambda>(s, j). add_node s j x \<bind> (\<lambda>(s, cur). set_loop H s cur 1 (Suc i) rest)))"
      by (rule chain_at_index, rule sim_split_edge [OF Cons.prems(1) H], simp only: prod.case, erule grow, intro appends_intros)
    show "simulates beside
       (after (node_at cur) (\<lambda>n. after (member_at get_prefix cur) (\<lambda>pre.
         if pos = length pre then
           (if get_child x n \<noteq> 0 then p_set_loop H (get_child x n) 1 (Suc i) rest
            else after (member_at get_value cur) (\<lambda>v.
              if pchild_bytes n \<noteq> [] \<or> v \<noteq> [] \<or> cur = 0 then
                after (p_backup_nodes cur) (\<lambda>_. after (p_add_node cur x) (\<lambda>cur. p_set_loop H cur 1 (Suc i) rest))
              else after (set_prefix cur (pre @ x # rest)) (\<lambda>_. result (cur, pos, i))))
         else if x \<noteq> char0 (drop pos pre) then
           after (p_split_edge H cur pos) (\<lambda>j. after (p_add_node j x) (\<lambda>cur. p_set_loop H cur 1 (Suc i) rest))
         else p_set_loop H cur (Suc pos) (Suc i) rest)) ps)
       (if pos = length (n_prefix n) then
         (if n_children n x \<noteq> 0 then set_loop H s (n_children n x) 1 (Suc i) rest
          else if child_bytes n \<noteq> [] \<or> n_value n \<noteq> [] \<or> cur = 0 then
            backup_nodes s cur \<bind> (\<lambda>s. add_node s cur x \<bind> (\<lambda>(s, cur). set_loop H s cur 1 (Suc i) rest))
          else upd_node cur (\<lambda>n. n\<lparr>n_prefix := n_prefix n @ x # rest\<rparr>) s \<bind> (\<lambda>s. Some (s, cur, pos, i)))
        else if x \<noteq> char0 (drop pos (n_prefix n)) then
          split_edge H s cur pos \<bind> (\<lambda>(s, j). add_node s j x \<bind> (\<lambda>(s, cur). set_loop H s cur 1 (Suc i) rest))
        else set_loop H s cur (Suc pos) (Suc i) rest)"
      apply (rule chain_node [OF Cons.prems(1) n], rule chain_get_prefix [OF Cons.prems(1) n])
      apply (simp only: get_child_def pchild_bytes_eq)
      apply (rule simulates_if, rule simulates_if, rule IH [OF Cons.prems(1)])
       apply (rule chain_get_value [OF Cons.prems(1) n], rule simulates_if, rule backed, rule extend)
      apply (rule simulates_if, rule split, rule IH [OF Cons.prems(1)])
      done
  qed
qed

text \<open>The key that ends inside a label.\<close>

lemma appends_split_at_end [appends_intros]: "appends (p_split_at_end H key r)"
  unfolding p_split_at_end_def by (cases r) (simp, intro appends_intros)

lemma sim_split_at_end:
  assumes "rel 0 ps s" "\<And>x. storable (H x)"
  shows "simulates (at_index 0) (p_split_at_end H key r ps) (split_at_end H key (s, r))"
proof -
  obtain cur pos i where r: "r = (cur, pos, i)" by (cases r)
  show ?thesis
    unfolding r p_split_at_end_def split_at_end_def prod.case
  proof (rule simulates_bind)
    fix n assume n: "vec_get (nodes s) cur = Some n"
    show "simulates (at_index 0)
      (after (member_at get_prefix cur) (\<lambda>pre. if length pre \<noteq> pos \<and> i = length key then p_split_edge H cur pos else result cur) ps)
      (if length (n_prefix n) \<noteq> pos \<and> i = length key then split_edge H s cur pos else Some (s, cur))"
      by (rule chain_get_prefix [OF assms(1) n], rule simulates_if, rule sim_split_edge [OF assms])
        (use n assms(1) in \<open>auto simp: simulates_def result_def vec_get_Some_iff\<close>)
  qed
qed

text \<open>A state beside nothing.\<close>

abbreviation follows :: "state_persistent \<Rightarrow> unit \<Rightarrow> state_impl \<Rightarrow> bool" where
  "follows \<equiv> \<lambda>ps' _ s'. rel 0 ps' s'"

lemma sim_set:
  assumes "rel 0 ps s" "\<And>x. storable (H x)" "storable key" "storable v" "v \<noteq> []"
  shows "simulates follows (p_set H key v ps) (set_node H s key v)"
proof -
  have "simulates follows
      (after (p_set_loop H 0 0 0 key) (\<lambda>r. after (p_split_at_end H key r) (\<lambda>cur. after (p_backup_nodes cur) (\<lambda>_.
        after (set_value cur v) (\<lambda>_. p_hash_up H cur)))) ps)
      (set_loop H s 0 0 0 key \<bind> (\<lambda>r. split_at_end H key r \<bind> (\<lambda>(s, cur). backup_nodes s cur \<bind> (\<lambda>s.
        upd_node cur (\<lambda>n. n\<lparr>n_value := v\<rparr>) s \<bind> (\<lambda>s. calculate_hash H s cur)))))"
  proof (rule simulates_after, rule sim_set_loop [OF assms(2,1,3)])
    fix ps1 and r :: "nat \<times> nat \<times> nat" and y assume "beside ps1 r y"
    then obtain s1 where s1: "y = (s1, r)" "rel 0 ps1 s1" by (cases y) auto
    show "simulates follows
      (after (p_split_at_end H key r) (\<lambda>cur. after (p_backup_nodes cur) (\<lambda>_. after (set_value cur v) (\<lambda>_. p_hash_up H cur))) ps1)
      (split_at_end H key y \<bind> (\<lambda>(s, cur). backup_nodes s cur \<bind> (\<lambda>s.
        upd_node cur (\<lambda>n. n\<lparr>n_value := v\<rparr>) s \<bind> (\<lambda>s. calculate_hash H s cur))))"
      unfolding s1(1)
      apply (rule chain_at_index, rule sim_split_at_end [OF s1(2) assms(2)])
       apply (simp only: prod.case)
       apply (rule chain_backup, assumption)
        apply (rule chain_value, assumption, rule assms(4), rule refl)
         apply (rule simulates_weaken, rule sim_hash_up, assumption, rule assms(2), simp)
        apply (intro appends_intros)+
      done
  qed (intro appends_intros)
  then show ?thesis
    using assms(5) by (simp add: p_set_def set_node_def set_locate_def case_prod_unfold)
qed

section \<open>Removing\<close>

lemma appends_free_location [appends_intros]: "appends (p_free_location i)"
  unfolding p_free_location_def by (rule appends_changing) (simp add: next_word_def)

lemma chain_free:
  assumes "rel k ps s" "\<And>ps1. rel k ps1 (s\<lparr>free_locations := insert i (free_locations s)\<rparr>) \<Longrightarrow> simulates Q (g () ps1) y"
  shows "simulates Q (after (p_free_location i) g ps) y"
proof -
  have "rel k (ps\<lparr>tp_free_locations := insert i (tp_free_locations ps)\<rparr>) (s\<lparr>free_locations := insert i (free_locations s)\<rparr>)"
    using assms(1) by (auto simp: rel_def next_word_def)
  from assms(2) [OF this] show ?thesis by (simp add: p_free_location_def after_changing)
qed

lemma appends_merge_with_child [appends_intros]: "appends (p_merge_with_child i j)"
  unfolding p_merge_with_child_def by (intro appends_intros)

lemma sim_merge_with_child:
  assumes "rel 0 ps s"
  shows "simulates (at_index 0) (p_merge_with_child cur child ps) (merge_with_child s cur child)"
proof (rule simulates_room, rule appends_merge_with_child, unfold p_merge_with_child_def merge_with_child_def, rule simulates_bind)
  fix n assume room: "in_room ps" and n: "vec_get (nodes s) cur = Some n"
  show "simulates (at_index 0)
     (after (member_at get_parent cur) (\<lambda>parent. after (p_backup_nodes child) (\<lambda>_.
      after (member_at get_prefix child) (\<lambda>child_prefix. after (member_at get_prefix cur) (\<lambda>pre.
      after (set_prefix child (pre @ child_prefix)) (\<lambda>_. after (set_child parent (char0 pre) child) (\<lambda>_.
      after (set_parent child parent) (\<lambda>_. after (p_free_location cur) (\<lambda>_. result child)))))))) ps)
     (do { s \<leftarrow> backup_nodes s child;
        s \<leftarrow> upd_node child (\<lambda>m. m\<lparr>n_prefix := n_prefix n @ n_prefix m\<rparr>) s;
        s \<leftarrow> upd_node (n_parent n) (\<lambda>m. m\<lparr>n_children := (n_children m)(char0 (n_prefix n) := child)\<rparr>) s;
        s \<leftarrow> upd_node child (\<lambda>m. m\<lparr>n_parent := n_parent n\<rparr>) s;
        Some (s\<lparr>free_locations := insert cur (free_locations s)\<rparr>, child) })"
  proof (rule chain_get_parent [OF assms n], rule chain_backup, rule assms)
    fix ps1 s1 assume r: "rel 0 ps1 s1" and ns: "nodes s1 = nodes s"
    show "simulates (at_index 0)
       (after (member_at get_prefix child) (\<lambda>child_prefix. after (member_at get_prefix cur) (\<lambda>pre.
        after (set_prefix child (pre @ child_prefix)) (\<lambda>_. after (set_child (n_parent n) (char0 pre) child) (\<lambda>_.
        after (set_parent child (n_parent n)) (\<lambda>_. after (p_free_location cur) (\<lambda>_. result child)))))) ps1)
       (do { s \<leftarrow> upd_node child (\<lambda>m. m\<lparr>n_prefix := n_prefix n @ n_prefix m\<rparr>) s1;
          s \<leftarrow> upd_node (n_parent n) (\<lambda>m. m\<lparr>n_children := (n_children m)(char0 (n_prefix n) := child)\<rparr>) s;
          s \<leftarrow> upd_node child (\<lambda>m. m\<lparr>n_parent := n_parent n\<rparr>) s;
          Some (s\<lparr>free_locations := insert cur (free_locations s)\<rparr>, child) })"
    proof (cases "vec_get (nodes s1) child")
      case None
      then show ?thesis by (simp add: upd_node_def)
    next
      case (Some m)
      have len: "length (n_prefix n @ n_prefix m) \<le> 2 ^ 29"
        using room_prefix [OF room assms n] room_prefix [OF room assms, of child m] Some ns by (simp add: storable_def)
      show ?thesis
        apply (rule chain_get_prefix [OF r Some], rule chain_get_prefix [OF r], use n ns in simp)
        apply (rule chain_prefix, rule r, use Some in simp, rule len)
         apply (rule chain_child, assumption, rule refl)
          apply (rule chain_parent, assumption, simp, rule refl)
           apply (rule chain_free, assumption, rule simulates_result, simp)
          apply (intro appends_intros)+
        done
    qed
  qed (intro appends_intros)
qed

lemma appends_merge_if_single [appends_intros]: "appends (p_merge_if_single i)"
  unfolding p_merge_if_single_def by (intro appends_intros) (auto split: list.splits intro: appends_intros)

lemma sim_merge_if_single:
  assumes "rel 0 ps s"
  shows "simulates (at_index 0) (p_merge_if_single cur ps) (merge_if_single s cur)"
  unfolding p_merge_if_single_def merge_if_single_def
proof (rule simulates_bind)
  fix n assume n: "vec_get (nodes s) cur = Some n"
  have stay: "simulates (at_index 0) (result cur ps) (Some (s, cur))"
    using n assms by (simp add: simulates_def result_def vec_get_Some_iff)
  show "simulates (at_index 0)
     (after (node_at cur) (\<lambda>n. after (member_at get_value cur) (\<lambda>v. case pchild_bytes n of
        [] \<Rightarrow> result cur
      | [c] \<Rightarrow> if v = [] \<and> cur \<noteq> 0 then p_merge_with_child cur (get_child c n) else result cur
      | _ \<Rightarrow> result cur)) ps)
     (case child_bytes n of
        [] \<Rightarrow> Some (s, cur)
      | [c] \<Rightarrow> if n_value n = [] \<and> cur \<noteq> 0 then merge_with_child s cur (n_children n c) else Some (s, cur)
      | _ \<Rightarrow> Some (s, cur))"
    apply (rule chain_node [OF assms n], rule chain_get_value [OF assms n])
    apply (simp only: get_child_def pchild_bytes_eq)
    apply (auto simp: stay sim_merge_with_child [OF assms] split: list.split)
    done
qed

lemma appends_unlink_node [appends_intros]: "appends (p_unlink_node i)"
  unfolding p_unlink_node_def by (intro appends_intros)

lemma sim_unlink_node:
  assumes "rel 0 ps s"
  shows "simulates (at_index 0) (p_unlink_node cur ps) (unlink_node s cur)"
  unfolding p_unlink_node_def unlink_node_def
  apply (rule simulates_bind)
  apply (rule chain_get_parent [OF assms], assumption, rule chain_get_prefix [OF assms], assumption)
  apply (rule chain_child, rule assms, rule refl)
   apply (rule chain_free, assumption, rule sim_merge_if_single, assumption)
  apply (intro appends_intros)
  done

text \<open>
  The two operations that remove a key throw in the same cases, with the state as it was; the texts of the
  exceptions differ.
\<close>

fun removes :: "string \<Rightarrow> string \<Rightarrow> state_impl \<Rightarrow> state_persistent \<Rightarrow> unit throws \<Rightarrow> state_impl throws \<Rightarrow> bool" where
  "removes operation path s ps' (Inl e) (Inl e') \<longleftrightarrow> e = p_no_set_node operation path \<and> e' = no_set_node path \<and> rel 0 ps' s"
| "removes operation path s ps' (Inr _) (Inr s') \<longleftrightarrow> rel 0 ps' s'"
| "removes operation path s ps' _ _ \<longleftrightarrow> False"

lemma removes_throw:
  "rel 0 ps s \<Longrightarrow> simulates (removes operation path s) (result (throw (p_no_set_node operation path)) ps)
    (Some (throw (no_set_node path)))"
  by (simp add: simulates_def result_def)

lemma removes_hash:
  assumes "rel 0 ps1 s1" "\<And>x. storable (H x)"
  shows "simulates (removes operation path s) (after (p_hash_up H i) (\<lambda>_. result (return ())) ps1)
    (calculate_hash H s1 i \<bind> (\<lambda>s. Some (return s)))"
  by (rule chain_hash_up [OF assms]) (auto simp: simulates_def result_def intro: appends_intros)

lemma sim_erase:
  assumes "rel 0 ps s" "\<And>x. storable (H x)"
  shows "simulates (removes ''erase'' path s) (p_erase H path ps) (erase H s path)"
  unfolding p_erase_def erase_def Let_def
proof (rule chain_index, rule assms(1), rule simulates_if, rule removes_throw [OF assms(1)], rule simulates_bind)
  fix i n
  let ?i = "nat i"
  assume n: "vec_get (nodes s) ?i = Some n"
  show "simulates (removes ''erase'' path s)
     (after (member_at get_value ?i) (\<lambda>v. if v = [] then result (throw (p_no_set_node ''erase'' path))
       else after (p_backup_nodes ?i) (\<lambda>_. after (node_at ?i) (\<lambda>n.
         after (case pchild_bytes n of [] \<Rightarrow> p_unlink_node ?i | [c] \<Rightarrow> p_merge_with_child ?i (get_child c n)
           | _ \<Rightarrow> after (set_value ?i []) (\<lambda>_. result ?i)) (\<lambda>cur. after (p_hash_up H cur) (\<lambda>_. result (return ())))))) ps)
     (if n_value n = [] then Some (throw (no_set_node path))
      else backup_nodes s ?i \<bind> (\<lambda>s.
        (case child_bytes n of [] \<Rightarrow> unlink_node s ?i | [c] \<Rightarrow> merge_with_child s ?i (n_children n c)
          | _ \<Rightarrow> upd_node ?i (\<lambda>n. n\<lparr>n_value := []\<rparr>) s \<bind> (\<lambda>s. Some (s, ?i))) \<bind>
        (\<lambda>(s, cur). calculate_hash H s cur \<bind> (\<lambda>s. Some (return s)))))"
  proof (rule chain_get_value [OF assms(1) n], rule simulates_if, rule removes_throw [OF assms(1)], rule chain_backup, rule assms(1))
    fix ps1 s1 assume r: "rel 0 ps1 s1" and ns: "nodes s1 = nodes s"
    have n1: "vec_get (nodes s1) ?i = Some n" using n ns by simp
    have clear: "simulates (at_index 0) (after (set_value ?i []) (\<lambda>_. result ?i) ps1)
        (upd_node ?i (\<lambda>n. n\<lparr>n_value := []\<rparr>) s1 \<bind> (\<lambda>s. Some (s, ?i)))"
      by (rule chain_value [OF r]) (auto simp: storable_def simulates_def result_def intro: appends_intros)
    have pick: "simulates (at_index 0)
        ((case child_bytes n of [] \<Rightarrow> p_unlink_node ?i | [c] \<Rightarrow> p_merge_with_child ?i (n_children n c)
           | _ \<Rightarrow> after (set_value ?i []) (\<lambda>_. result ?i)) ps1)
        (case child_bytes n of [] \<Rightarrow> unlink_node s1 ?i | [c] \<Rightarrow> merge_with_child s1 ?i (n_children n c)
           | _ \<Rightarrow> upd_node ?i (\<lambda>n. n\<lparr>n_value := []\<rparr>) s1 \<bind> (\<lambda>s. Some (s, ?i)))"
      using sim_unlink_node [OF r] sim_merge_with_child [OF r] clear by (auto split: list.split)
    show "simulates (removes ''erase'' path s)
       (after (node_at ?i) (\<lambda>n. after (case pchild_bytes n of [] \<Rightarrow> p_unlink_node ?i | [c] \<Rightarrow> p_merge_with_child ?i (get_child c n)
           | _ \<Rightarrow> after (set_value ?i []) (\<lambda>_. result ?i)) (\<lambda>cur. after (p_hash_up H cur) (\<lambda>_. result (return ())))) ps1)
       ((case child_bytes n of [] \<Rightarrow> unlink_node s1 ?i | [c] \<Rightarrow> merge_with_child s1 ?i (n_children n c)
           | _ \<Rightarrow> upd_node ?i (\<lambda>n. n\<lparr>n_value := []\<rparr>) s1 \<bind> (\<lambda>s. Some (s, ?i))) \<bind>
        (\<lambda>(s, cur). calculate_hash H s cur \<bind> (\<lambda>s. Some (return s))))"
      apply (rule chain_node [OF r n1])
      apply (simp only: get_child_def pchild_bytes_eq)
      apply (rule chain_at_index, rule pick, simp only: prod.case, rule removes_hash, assumption, rule assms(2))
      apply (intro appends_intros)
      done
  qed (auto split: list.split intro!: appends_intros)
qed

lemma p_subtrie_mark_free_eq:
  "list_all2 (\<lambda>pn n. pn_children pn = n_children n) pns ns \<Longrightarrow> p_subtrie_mark_free fuel pns i free = subtrie_mark_free fuel ns i free"
proof (induction fuel arbitrary: i free)
  case (Suc fuel)
  show ?case
  proof (cases "vec_get ns i")
    case None
    with Suc.prems show ?thesis by (auto simp: vec_get_def split: if_splits dest: list_all2_lengthD)
  next
    case (Some n)
    then obtain pn where "vec_get pns i = Some pn" and pn: "pn_children pn = n_children n"
      using Suc.prems by (auto simp: vec_get_def list_all2_conv_all_nth split: if_splits)
    moreover have "p_subtrie_mark_free fuel pns = subtrie_mark_free fuel ns" using Suc by (intro ext)
    ultimately show ?thesis using Some by (simp add: pchild_bytes_eq get_child_def)
  qed
qed simp

lemma sim_delete_node_tree:
  assumes "rel 0 ps s" "\<And>x. storable (H x)"
  shows "simulates (removes ''delete_node_tree'' path s) (p_delete_node_tree H path ps) (delete_node_tree H s path)"
  unfolding p_delete_node_tree_def delete_node_tree_def Let_def
proof (rule chain_index, rule assms(1), rule simulates_if, rule removes_throw [OF assms(1)], rule simulates_bind)
  fix i n
  let ?i = "nat i"
  let ?mark = "\<lambda>s. p_subtrie_mark_free (length (tp_nodes s)) (tp_nodes s) ?i (tp_free_locations s)"
  assume n: "vec_get (nodes s) ?i = Some n"
  show "simulates (removes ''delete_node_tree'' path s)
     (after (member_at get_value ?i) (\<lambda>v. if v = [] then result (throw (p_no_set_node ''delete_node_tree'' path))
       else after (member_at get_parent ?i) (\<lambda>parent. after (p_backup_nodes parent) (\<lambda>_. after (reading ?mark) (\<lambda>free.
         after (changing (\<lambda>s. s\<lparr>tp_free_locations := free\<rparr>)) (\<lambda>_. after (p_unlink_node ?i) (\<lambda>cur.
         after (p_hash_up H cur) (\<lambda>_. result (return ())))))))) ps)
     (if n_value n = [] then Some (throw (no_set_node path))
      else backup_nodes s (n_parent n) \<bind> (\<lambda>s. subtrie_mark_free (length (nodes s)) (nodes s) ?i (free_locations s) \<bind>
        (\<lambda>free. unlink_node (s\<lparr>free_locations := free\<rparr>) ?i \<bind>
        (\<lambda>(s, cur). calculate_hash H s cur \<bind> (\<lambda>s. Some (return s))))))"
  proof (rule chain_get_value [OF assms(1) n], rule simulates_if, rule removes_throw [OF assms(1)],
      rule chain_get_parent [OF assms(1) n], rule chain_backup, rule assms(1), rule simulates_bind)
    fix ps1 s1 free assume r: "rel 0 ps1 s1" and ns: "nodes s1 = nodes s"
      and free: "subtrie_mark_free (length (nodes s1)) (nodes s1) ?i (free_locations s1) = Some free"
    have "list_all2 (\<lambda>pn n. pn_children pn = n_children n) (tp_nodes ps1) (nodes s1)"
      by (rule relE [OF r]) (auto simp: node_rel_def elim: list_all2_mono)
    then have m: "?mark ps1 = Some free"
      using free rel_length [OF r] r by (simp add: p_subtrie_mark_free_eq rel_def)
    have "rel 0 (ps1\<lparr>tp_free_locations := free\<rparr>) (s1\<lparr>free_locations := free\<rparr>)"
      using r by (auto simp: rel_def next_word_def)
    note unlink = sim_unlink_node [OF this]
    show "simulates (removes ''delete_node_tree'' path s)
       (after (reading ?mark) (\<lambda>free. after (changing (\<lambda>s. s\<lparr>tp_free_locations := free\<rparr>)) (\<lambda>_. after (p_unlink_node ?i) (\<lambda>cur.
         after (p_hash_up H cur) (\<lambda>_. result (return ()))))) ps1)
       (unlink_node (s1\<lparr>free_locations := free\<rparr>) ?i \<bind> (\<lambda>(s, cur). calculate_hash H s cur \<bind> (\<lambda>s. Some (return s))))"
      unfolding after_reading [where h = ?mark, OF m] after_changing
      apply (rule chain_at_index, rule unlink, simp only: prod.case, rule removes_hash, assumption, rule assms(2))
      apply (intro appends_intros)
      done
  qed (intro appends_intros appends_changing; simp add: next_word_def)
qed

section \<open>Committing and discarding\<close>

lemma list_all2_vec_get: "list_all2 P xs ys \<Longrightarrow> vec_get ys i = Some y \<Longrightarrow> \<exists>x. vec_get xs i = Some x \<and> P x y"
  by (auto simp: vec_get_Some_iff list_all2_conv_all_nth)

lemma list_all2_vec_set:
  "list_all2 P xs ys \<Longrightarrow> vec_set ys i y = Some ys' \<Longrightarrow> P x y \<Longrightarrow> \<exists>xs'. vec_set xs i x = Some xs' \<and> list_all2 P xs' ys'"
  by (auto simp: vec_set_def list_all2_update_cong split: if_splits dest: list_all2_lengthD)

lemma p_move_loop_rel:
  "store_ok b bs \<Longrightarrow> list_all2 (node_rel bs) pns ns \<Longrightarrow> move_loop fl ns l = Some (fl', ns', l') \<Longrightarrow>
    \<exists>pns'. p_move_loop b fl pns l = Some (fl', pns', l') \<and> list_all2 (node_rel bs) pns' ns' \<and> length ns' = length ns"
proof (induction fl ns l arbitrary: pns rule: move_loop.induct)
  case (1 fl ns l)
  consider (stop) "fl = [] \<or> hd fl = last fl" | (drop) "\<not> (fl = [] \<or> hd fl = last fl)" "l = last fl"
    | (move) "\<not> (fl = [] \<or> hd fl = last fl)" "l \<noteq> last fl"
    by blast
  then show ?case
  proof cases
    case stop
    with 1 show ?thesis by (subst p_move_loop.simps, subst (asm) (2) move_loop.simps) auto
  next
    case drop
    with "1.prems"(3) have "move_loop (butlast fl) ns (l - 1) = Some (fl', ns', l')" by (subst (asm) move_loop.simps) auto
    from "1.IH"(1) [OF drop "1.prems"(1,2) this] drop show ?thesis by (subst p_move_loop.simps) simp
  next
    case move
    obtain n ns1 m ns2 where step: "vec_get ns l = Some n" "vec_set ns (hd fl) n = Some ns1" "vec_get ns1 (n_parent n) = Some m"
        "vec_set ns1 (n_parent n) (m\<lparr>n_children := (n_children m)(char0 (n_prefix n) := hd fl)\<rparr>) = Some ns2"
        "move_loop (tl fl) ns2 (l - 1) = Some (fl', ns', l')"
      using "1.prems"(3) move by (subst (asm) move_loop.simps) (auto simp: bind_eq_Some_conv)
    obtain pn where pn: "vec_get pns l = Some pn" "node_rel bs pn n"
      using list_all2_vec_get [OF "1.prems"(2) step(1)] by blast
    obtain pns1 where pns1: "vec_set pns (hd fl) pn = Some pns1" "list_all2 (node_rel bs) pns1 ns1"
      using list_all2_vec_set [OF "1.prems"(2) step(2) pn(2)] by blast
    obtain pm where pm: "vec_get pns1 (n_parent n) = Some pm" "node_rel bs pm m"
      using list_all2_vec_get [OF pns1(2) step(3)] by blast
    have "node_rel bs (pm\<lparr>pn_children := (pn_children pm)(char0 (n_prefix n) := hd fl)\<rparr>)
        (m\<lparr>n_children := (n_children m)(char0 (n_prefix n) := hd fl)\<rparr>)"
      using pm(2) by (simp add: node_rel_def)
    from list_all2_vec_set [OF pns1(2) step(4) this] obtain pns2 where pns2:
      "vec_set pns1 (n_parent n) (pm\<lparr>pn_children := (pn_children pm)(char0 (n_prefix n) := hd fl)\<rparr>) = Some pns2"
      "list_all2 (node_rel bs) pns2 ns2" by blast
    have "get_parent b pn = Some (n_parent n)" "get_prefix b pn = Some (n_prefix n)"
      using get_parent_blob [OF "1.prems"(1) pn(2)] fetch_blob [OF "1.prems"(1)] pn(2) by (auto simp: get_prefix_def node_rel_def)
    moreover have "length ns2 = length ns" using step(2,4) by (auto simp: vec_set_def split: if_splits)
    moreover note "1.IH"(2) [OF move step(1,2,3,4) "1.prems"(1) pns2(2) step(5)]
    ultimately show ?thesis using move pn(1) pns1(1) pm(1) pns2(1) by (subst p_move_loop.simps) simp
  qed
qed

lemma sim_commit:
  assumes "rel 0 ps s"
  shows "simulates follows (p_commit_changes ps) (commit_changes s)"
proof -
  obtain bs where bs: "store_ok (tp_bs ps) bs" "list_all2 (node_rel bs) (tp_nodes ps) (nodes s)"
    and other: "tp_free_locations ps = free_locations s" "length (nodes s) \<le> next_word ps"
    using assms by (auto simp: rel_def)
  have len: "length (tp_nodes ps) = length (nodes s)" by (rule rel_length [OF assms])
  show ?thesis
  proof (cases "free_locations s = {}")
    case True
    then show ?thesis using bs other len
      by (auto simp: simulates_def commit_changes_def p_commit_changes_def after_changing rel_def next_word_def)
  next
    case False
    show ?thesis
      unfolding simulates_def
    proof (intro allI impI)
      fix s' assume "commit_changes s = Some s'"
      then obtain fl ns l n ns2 where run:
        "move_loop (sorted_list_of_set (free_locations s)) (nodes s) (length (nodes s) - 1) = Some (fl, ns, l)"
        "vec_get ns l = Some n" "vec_set ns (hd fl) n = Some ns2"
        "s' = s\<lparr>backup := [], nodes := take (length ns2 - card (free_locations s)) ns2,
           permanent_nodes_count := length (take (length ns2 - card (free_locations s)) ns2), free_locations := {}\<rparr>"
        using False by (clarsimp simp: commit_changes_def Let_def bind_eq_Some_conv split: if_splits)
      obtain pns where pns: "p_move_loop (tp_bs ps) (sorted_list_of_set (free_locations s)) (tp_nodes ps) (length (nodes s) - 1)
          = Some (fl, pns, l)" "list_all2 (node_rel bs) pns ns" "length ns = length (nodes s)"
        using p_move_loop_rel [OF bs run(1)] by blast
      obtain pn where pn: "vec_get pns l = Some pn" "node_rel bs pn n"
        using list_all2_vec_get [OF pns(2) run(2)] by blast
      obtain pns2 where pns2: "vec_set pns (hd fl) pn = Some pns2" "list_all2 (node_rel bs) pns2 ns2"
        using list_all2_vec_set [OF pns(2) run(3) pn(2)] by blast
      have "length pns2 = length ns2" "length ns2 = length ns"
        using list_all2_lengthD [OF pns2(2)] run(3) by (auto simp: vec_set_def split: if_splits)
      then show "\<exists>a. fst (p_commit_changes ps) = Some a \<and> rel 0 (snd (p_commit_changes ps)) s'"
        using False other bs(1) len pns pn pns2 run(4)
        by (auto simp: p_commit_changes_def after_changing after_def reading_def changing_def rel_def Let_def next_word_def
            intro!: exI [of _ bs] list_all2_takeI)
    qed
  qed
qed

text \<open>Discarding needs that the vector is not shorter than what was committed, which no session breaks.\<close>

lemma fold_restore_rel:
  "list_all2 (rel_prod (=) (node_rel bs)) pbs ibs \<Longrightarrow> list_all2 (node_rel bs) pns ns \<Longrightarrow>
   fold (\<lambda>(i, n) acc. acc \<bind> (\<lambda>ns. vec_set ns i n)) ibs (Some ns) = Some ns' \<Longrightarrow>
   \<exists>pns'. fold (\<lambda>(i, n) acc. acc \<bind> (\<lambda>ns. vec_set ns i n)) pbs (Some pns) = Some pns' \<and> list_all2 (node_rel bs) pns' ns' \<and>
     length ns' = length ns"
proof (induction arbitrary: pns ns rule: list_all2_induct)
  case (Cons x xs y ys)
  obtain i pn n where xy: "x = (i, pn)" "y = (i, n)" "node_rel bs pn n" using Cons.hyps(1) by (cases x; cases y) auto
  have none: "fold (\<lambda>(i, n) acc. acc \<bind> (\<lambda>ns. vec_set ns i n)) zs None = None" for zs :: "(nat \<times> node) list"
    by (induction zs) auto
  obtain ns1 where ns1: "vec_set ns i n = Some ns1" using Cons.prems(2) xy none by (cases "vec_set ns i n") auto
  obtain pns1 where pns1: "vec_set pns i pn = Some pns1" "list_all2 (node_rel bs) pns1 ns1"
    using list_all2_vec_set [OF Cons.prems(1) ns1 xy(3)] by blast
  have "length ns1 = length ns" using ns1 by (auto simp: vec_set_def split: if_splits)
  moreover have "fold (\<lambda>(i, n) acc. acc \<bind> (\<lambda>ns. vec_set ns i n)) ys (Some ns1) = Some ns'"
    using Cons.prems(2) xy ns1 by simp
  ultimately show ?case using Cons.IH [OF pns1(2)] pns1(1) xy by simp
qed simp

lemma sim_discard:
  assumes "rel 0 ps s" "permanent_nodes_count s \<le> length (nodes s)"
  shows "simulates follows (p_discard_changes ps) (discard_changes s)"
  unfolding simulates_def
proof (intro allI impI)
  fix s' assume "discard_changes s = Some s'"
  then obtain ns where ns: "fold (\<lambda>(i, n) acc. acc \<bind> (\<lambda>ns. vec_set ns i n)) (backup s) (Some (nodes s)) = Some ns"
      "s' = s\<lparr>nodes := resize ns (permanent_nodes_count s), free_locations := {}\<rparr>"
    by (auto simp: discard_changes_def bind_eq_Some_conv)
  obtain bs where bs: "store_ok (tp_bs ps) bs" "list_all2 (node_rel bs) (tp_nodes ps) (nodes s)"
      "list_all2 (rel_prod (=) (node_rel bs)) (tp_backup ps) (backup s)"
    and other: "tp_permanent_nodes_count ps = permanent_nodes_count s" "length (nodes s) \<le> next_word ps"
    using assms(1) by (auto simp: rel_def)
  obtain pns where pns: "fold (\<lambda>(i, n) acc. acc \<bind> (\<lambda>ns. vec_set ns i n)) (tp_backup ps) (Some (tp_nodes ps)) = Some pns"
      "list_all2 (node_rel bs) pns ns" "length ns = length (nodes s)"
    using fold_restore_rel [OF bs(3,2) ns(1)] by blast
  have "length pns = length ns" by (rule list_all2_lengthD [OF pns(2)])
  then show "\<exists>a. fst (p_discard_changes ps) = Some a \<and> rel 0 (snd (p_discard_changes ps)) s'"
    using assms(2) bs(1,3) other pns ns(2)
    by (auto simp: p_discard_changes_def after_def reading_def changing_def p_resize_def resize_def rel_def next_word_def
        intro!: exI [of _ bs] list_all2_takeI)
qed

end
