(* ===== verification/Persistent_Properties.thy ===== *)
theory Persistent_Properties
  imports Persistent_Operations
begin

text \<open>
  What sessions with a persistent trie guarantee: as long as the store has room, the trie is the map from keys to
  values that the calls describe, and its hashes are those of the in-memory trie.
\<close>

section \<open>Constructor\<close>

lemma blob_store_step:
  assumes "blob_holds b bs" "b_capacity b = 2 ^ 28" "b_next_free b + size_in_int32 (length d) + 1 < 2 ^ 28" "length d < 2 ^ 32"
  obtains b' where "blob_store b d = Some (b', b_next_free b)" "blob_holds b' (bs @ [(b_next_free b, d)])"
    "b_capacity b' = 2 ^ 28" "b_next_free b' = b_next_free b + size_in_int32 (length d) + 1"
proof -
  have "fits (b_next_free b) (b_capacity b) (length d)" using assms by (simp add: fits_def)
  from blob_store_holds [OF assms(1) this] obtain b' where
    b': "blob_store b d = Some (b', b_next_free b)" "blob_holds b' (bs @ [(b_next_free b, d)])" by blast
  moreover from b'(1) assms(2,3) have "b_capacity b' = 2 ^ 28" "b_next_free b' = b_next_free b + size_in_int32 (length d) + 1"
    by (auto simp: blob_store_def create_blob_def Let_def bind_eq_Some_conv split: if_splits)
  ultimately show thesis by (rule that)
qed

text \<open>The state of a new trie, by its store: the root, whose hash is the second of the two empty blobs.\<close>

definition new_trie :: "blobstore \<Rightarrow> state_persistent" where
  "new_trie b = \<lparr>tp_bs = b, tp_nodes = [new_pnode\<lparr>pn_hash := 1\<rparr>], tp_backup = [], tp_free_locations = {},
     tp_nodes_current_state = 1, tp_permanent_nodes_count = 1\<rparr>"

lemma new_run:
  obtains b where "state_persistent_new H junk = (Some (), new_trie b)" "blob_holds b [(0, []), (1, [])]"
    "b_capacity b = 2 ^ 28" "b_next_free b = 2"
proof -
  have nil: "size_in_int32 0 = 0" by (simp add: size_in_int32_def)
  obtain b1 where b1: "blob_store (blobstore_new junk) [] = Some (b1, 0)" "blob_holds b1 [(0, [])]"
      "b_capacity b1 = 2 ^ 28" "b_next_free b1 = 1"
    by (rule blob_store_step [OF blobstore_new_holds, of junk "[]"]) (auto simp: blobstore_new_def nil)
  obtain b2 where b2: "blob_store b1 [] = Some (b2, 1)" "blob_holds b2 [(0, []), (1, [])]"
      "b_capacity b2 = 2 ^ 28" "b_next_free b2 = 2"
    by (rule blob_store_step [OF b1(2), of "[]"]) (auto simp: b1 nil)
  have "pchild_bytes new_pnode = []" by (simp add: pchild_bytes_def get_child_def new_pnode_def)
  then have "state_persistent_new H junk = (Some (), new_trie b2)"
    using b1(1) b2(1)
    by (simp add: state_persistent_new_def after_def store_blob_def changing_def p_hash_up_def node_at_def reading_def
        set_hash_def upd_pnode_def vec_get_def new_trie_def)
  from that [OF this b2(2-4)] show thesis .
qed

lemma new_rel:
  "\<exists>ps. state_persistent_new H junk = (Some (), ps) \<and> rel 0 ps initial_state \<and> next_word ps = 2"
proof (rule new_run [of H junk])
  fix b assume run: "state_persistent_new H junk = (Some (), new_trie b)"
    and b: "blob_holds b [(0, []), (1, [])]" "b_capacity b = 2 ^ 28" "b_next_free b = 2"
  have "store_ok b [(0, []), (1, [])]" using b by (simp add: store_ok_def)
  moreover have "node_rel [(0, []), (1, [])] (new_pnode\<lparr>pn_hash := 1\<rparr>) new_node"
    by (simp add: node_rel_def new_pnode_def new_node_def)
  ultimately show ?thesis
    unfolding run rel_def initial_state_def new_trie_def by (auto simp: next_word_def b)
qed

section \<open>Sessions\<close>

text \<open>
  The states that calls reach within the room of the store, with the map each stands for and the map of the last
  commit. The conditions on the calls are those of the sessions of \<open>State_Session\<close>.
\<close>

inductive psession ::
  "hash_function \<Rightarrow> state_persistent \<Rightarrow> (string \<Rightarrow> string) \<Rightarrow> (string \<Rightarrow> string) \<Rightarrow> bool" for H where
  new: "state_persistent_new H junk = (Some (), ps) \<Longrightarrow> psession H ps (\<lambda>_. []) (\<lambda>_. [])"
| set: "psession H ps m mc \<Longrightarrow> v \<noteq> [] \<Longrightarrow> storable k \<Longrightarrow> storable v \<Longrightarrow> p_set H k v ps = (Some (), ps') \<Longrightarrow> in_room ps' \<Longrightarrow>
    psession H ps' (m(k := v)) mc"
| erase: "psession H ps m mc \<Longrightarrow> k \<noteq> [] \<or> branching m [] \<Longrightarrow> p_erase H k ps = (Some (return ()), ps') \<Longrightarrow> in_room ps' \<Longrightarrow>
    psession H ps' (m(k := [])) mc"
| delete: "psession H ps m mc \<Longrightarrow> k \<noteq> [] \<Longrightarrow> p_delete_node_tree H k ps = (Some (return ()), ps') \<Longrightarrow> in_room ps' \<Longrightarrow>
    psession H ps' (\<lambda>x. if prefix k x then [] else m x) mc"
| commit: "psession H ps m mc \<Longrightarrow> tp_free_locations ps = {i..<length (tp_nodes ps)} \<Longrightarrow>
    p_commit_changes ps = (Some (), ps') \<Longrightarrow> psession H ps' m m"
| discard: "psession H ps m mc \<Longrightarrow> p_discard_changes ps = (Some (), ps1) \<Longrightarrow> p_commit_changes ps1 = (Some (), ps') \<Longrightarrow>
    psession H ps' mc mc"

text \<open>The in-memory trie after the same calls.\<close>

definition shadow :: "hash_function \<Rightarrow> state_persistent \<Rightarrow> (string \<Rightarrow> string) \<Rightarrow> (string \<Rightarrow> string) \<Rightarrow> state_impl \<Rightarrow> bool" where
  "shadow H ps m mc s \<longleftrightarrow> session H s m mc \<and> rel 0 ps s"

lemma simulatesD: "simulates Q r (Some y) \<Longrightarrow> in_room (snd r) \<Longrightarrow> \<exists>a. fst r = Some a \<and> Q (snd r) a y"
  by (simp add: simulates_def)

lemma shadow_set:
  assumes "shadow H ps m mc s" "\<And>x. storable (H x)" "v \<noteq> []" "storable k" "storable v" "in_room (snd (p_set H k v ps))"
  shows "\<exists>ps' s'. p_set H k v ps = (Some (), ps') \<and> shadow H ps' (m(k := v)) mc s'"
proof -
  obtain s' where s': "set_node H s k v = Some s'"
    using set_node_represents [OF session_represents assms(3), of H s m mc k] assms(1) by (auto simp: shadow_def)
  have "rel 0 ps s" using assms(1) by (simp add: shadow_def)
  from simulatesD [OF sim_set [where H = H, OF this assms(2,4,5,3), unfolded s'] assms(6)]
  have "p_set H k v ps = (Some (), snd (p_set H k v ps))" "rel 0 (snd (p_set H k v ps)) s'"
    by (auto simp: prod_eq_iff)
  moreover have "session H s' (m(k := v)) mc"
    using session.set [of H s m mc v k s'] assms(1,3) s' by (simp add: shadow_def state_set_eq)
  ultimately show ?thesis by (auto simp: shadow_def)
qed

lemma removes_cases:
  assumes "simulates (removes operation k s) r y" "in_room (snd r)"
  shows "y = Some (throw e) \<Longrightarrow> fst r = Some (throw (p_no_set_node operation k)) \<and> rel 0 (snd r) s"
    and "y = Some (return s') \<Longrightarrow> fst r = Some (return ()) \<and> rel 0 (snd r) s'"
  using assms by (auto simp: simulates_def elim: removes.elims)

lemma shadow_erase:
  assumes "shadow H ps m mc s" "\<And>x. storable (H x)" "k \<noteq> [] \<or> branching m []" "in_room (snd (p_erase H k ps))"
  shows "if m k = [] then \<exists>ps'. p_erase H k ps = (Some (throw (p_no_set_node ''erase'' k)), ps') \<and> shadow H ps' m mc s
    else \<exists>ps' s'. p_erase H k ps = (Some (return ()), ps') \<and> shadow H ps' (m(k := [])) mc s'"
proof -
  have r: "represents H s m" using assms(1) session_represents by (auto simp: shadow_def)
  note sim = removes_cases [OF sim_erase [where H = H and path = k, OF _ assms(2)] assms(4), of s]
  show ?thesis
  proof (cases "m k = []")
    case True
    with erase_unset(1) [OF r] sim(1) assms(1) show ?thesis by (auto simp: shadow_def prod_eq_iff)
  next
    case False
    from erase_represents [OF r False assms(3)] obtain s' where s': "erase H s k = Some (return s')" by blast
    with sim(2) assms(1) have "p_erase H k ps = (Some (return ()), snd (p_erase H k ps)) \<and> rel 0 (snd (p_erase H k ps)) s'"
      by (auto simp: shadow_def prod_eq_iff)
    moreover have "session H s' (m(k := [])) mc" using session.erase [OF _ assms(3) s'] assms(1) by (simp add: shadow_def)
    ultimately show ?thesis using False by (auto simp: shadow_def)
  qed
qed

lemma shadow_delete:
  assumes "shadow H ps m mc s" "\<And>x. storable (H x)" "k \<noteq> []" "in_room (snd (p_delete_node_tree H k ps))"
  shows "if m k = [] then \<exists>ps'. p_delete_node_tree H k ps = (Some (throw (p_no_set_node ''delete_node_tree'' k)), ps') \<and>
      shadow H ps' m mc s
    else \<exists>ps' s'. p_delete_node_tree H k ps = (Some (return ()), ps') \<and> shadow H ps' (\<lambda>x. if prefix k x then [] else m x) mc s'"
proof -
  have r: "represents H s m" using assms(1) session_represents by (auto simp: shadow_def)
  note sim = removes_cases [OF sim_delete_node_tree [where H = H and path = k, OF _ assms(2)] assms(4), of s]
  show ?thesis
  proof (cases "m k = []")
    case True
    with erase_unset(2) [OF r] sim(1) assms(1) show ?thesis by (auto simp: shadow_def prod_eq_iff)
  next
    case False
    from delete_node_tree_represents [OF r False assms(3)] obtain s' where s': "delete_node_tree H s k = Some (return s')" by blast
    with sim(2) assms(1) have "p_delete_node_tree H k ps = (Some (return ()), snd (p_delete_node_tree H k ps)) \<and>
        rel 0 (snd (p_delete_node_tree H k ps)) s'"
      by (auto simp: shadow_def prod_eq_iff)
    moreover have "session H s' (\<lambda>x. if prefix k x then [] else m x) mc"
      using session.delete [OF _ assms(3) s'] assms(1) by (simp add: shadow_def)
    ultimately show ?thesis using False by (auto simp: shadow_def)
  qed
qed

lemma commit_keeps_store: "next_word (snd (p_commit_changes ps)) = next_word ps"
  by (auto simp: p_commit_changes_def after_def reading_def changing_def next_word_def Let_def split: option.splits)

lemma discard_keeps_store: "next_word (snd (p_discard_changes ps)) = next_word ps"
  by (auto simp: p_discard_changes_def after_def reading_def changing_def next_word_def split: option.splits)

lemma shadow_commit:
  assumes "shadow H ps m mc s" "in_room ps" "tp_free_locations ps = {i..<length (tp_nodes ps)}"
  shows "\<exists>ps' s'. p_commit_changes ps = (Some (), ps') \<and> shadow H ps' m m s'"
proof -
  let ?k = "min i (length (nodes s))"
  have r: "rel 0 ps s" using assms(1) by (simp add: shadow_def)
  have f: "free_locations s = {i..<length (nodes s)}" using assms(3) r rel_length [OF r] by (simp add: rel_def)
  then have "free_locations s = {?k..<length (nodes s)}" by (auto simp: min_def)
  from commit_tail [OF this] obtain s' where s': "commit_changes s = Some s'" by simp
  have "in_room (snd (p_commit_changes ps))" using assms(2) by (simp add: in_room_def commit_keeps_store)
  from simulatesD [OF sim_commit [OF r, unfolded s'] this] have "fst (p_commit_changes ps) = Some ()" "rel 0 (snd (p_commit_changes ps)) s'"
    by auto
  moreover have "session H s' m m" using session.commit [OF _ f s'] assms(1) unfolding shadow_def by blast
  ultimately show ?thesis by (auto simp: shadow_def prod_eq_iff)
qed

lemma shadow_discard:
  assumes "shadow H ps m mc s" "in_room ps"
  shows "\<exists>ps1 ps' s'. p_discard_changes ps = (Some (), ps1) \<and> p_commit_changes ps1 = (Some (), ps') \<and> shadow H ps' mc mc s'"
proof -
  have r: "rel 0 ps s" and se: "session H s m mc" using assms(1) by (simp_all add: shadow_def)
  obtain c where c: "snap c s" using session_invariant [OF se] by blast
  then have perm: "permanent_nodes_count s \<le> length (nodes s)" by (simp add: snap_def restorable_def)
  obtain s1 where s1: "discard_changes s = Some s1" "free_locations s1 = {}" using discard_restores [OF c] by blast
  obtain s' where s': "commit_changes s1 = Some s'" using s1(2) by (simp add: commit_changes_def Let_def)
  have room: "in_room (snd (p_discard_changes ps))" using assms(2) by (simp add: in_room_def discard_keeps_store)
  from simulatesD [OF sim_discard [OF r perm, unfolded s1(1)] room] obtain ps1 where
    ps1: "p_discard_changes ps = (Some (), ps1)" "rel 0 ps1 s1" by (metis old.unit.exhaust prod.collapse)
  have "in_room (snd (p_commit_changes ps1))" using room ps1(1) by (simp add: in_room_def commit_keeps_store)
  from simulatesD [OF sim_commit [OF ps1(2), unfolded s'] this] have
    "fst (p_commit_changes ps1) = Some ()" "rel 0 (snd (p_commit_changes ps1)) s'" by auto
  moreover have "session H s' mc mc" by (rule session.discard [OF se s1(1) s'])
  ultimately show ?thesis using ps1(1) by (auto simp: shadow_def prod_eq_iff)
qed

lemma psession_shadow:
  assumes "\<And>x. storable (H x)"
  shows "psession H ps m mc \<Longrightarrow> in_room ps \<and> (\<exists>s. shadow H ps m mc s)"
proof (induction rule: psession.induct)
  case (new junk ps)
  with new_rel [of H junk] session.new [OF state_impl_new_initial, of H] show ?case by (auto simp: shadow_def in_room_def)
next
  case (set ps m mc v k ps')
  then obtain s where "shadow H ps m mc s" by blast
  from shadow_set [OF this assms set.hyps(2-4)] set.hyps show ?case by (auto simp del: fun_upd_apply)
next
  case (erase ps m mc k ps')
  then obtain s where "shadow H ps m mc s" by blast
  from shadow_erase [OF this assms erase.hyps(2)] erase.hyps show ?case by (auto simp del: fun_upd_apply split: if_splits)
next
  case (delete ps m mc k ps')
  then obtain s where "shadow H ps m mc s" by blast
  from shadow_delete [OF this assms delete.hyps(2)] delete.hyps show ?case by (auto split: if_splits)
next
  case (commit ps m mc i ps')
  then obtain s where "shadow H ps m mc s" by blast
  from shadow_commit [OF this _ commit.hyps(2)] commit commit_keeps_store [of ps] show ?case by (auto simp: in_room_def)
next
  case (discard ps m mc ps1 ps')
  then obtain s where "shadow H ps m mc s" by blast
  from shadow_discard [OF this] discard commit_keeps_store [of ps1] discard_keeps_store [of ps]
  show ?case by (auto simp: in_room_def)
qed

lemma get_node_hash_defined:
  assumes "represents H s m"
  obtains h where "get_node_hash s k = Some h"
proof -
  obtain p where "state_ok H s p m" using assms by (auto simp: represents_def)
  then have "trie (nd s) (live s) p" by (simp add: state_ok_def)
  then show thesis
    by (cases rule: get_node_index_cases [where k = k]) (auto simp: get_node_hash_def intro: that)
qed

section \<open>A session with one key\<close>

lemma pchild_bytes_0: "pn_children n = (\<lambda>_. 0) \<Longrightarrow> pchild_bytes n = []"
  by (simp add: pchild_bytes_def get_child_def)

lemma pchild_bytes_1: "pn_children n = (\<lambda>_. 0)(CHR ''a'' := Suc 0) \<Longrightarrow> pchild_bytes n = ''a''"
  unfolding pchild_bytes_def get_child_def by (erule ssubst) code_simp

lemma one_key_run:
  assumes b1: "blob_holds b1 [(0, []), (1, [])]" "b_capacity b1 = 2 ^ 28" "b_next_free b1 = 2"
  shows "\<exists>ps. p_set (\<lambda>_. ''h'') ''a'' ''v'' (new_trie b1) = (Some (), ps) \<and> next_word ps = 12"
proof -
  note size = size_in_int32_def
  obtain b2 where b2: "blob_store b1 (le_bytes 4 0) = Some (b2, 2)" "blob_holds b2 [(0, []), (1, []), (2, le_bytes 4 0)]"
      "b_capacity b2 = 2 ^ 28" "b_next_free b2 = 4"
    by (rule blob_store_step [OF b1(1,2), of "le_bytes 4 0"]) (auto simp: b1 size)
  obtain b3 where b3: "blob_store b2 ''a'' = Some (b3, 4)" "blob_holds b3 [(0, []), (1, []), (2, le_bytes 4 0), (4, ''a'')]"
      "b_capacity b3 = 2 ^ 28" "b_next_free b3 = 6"
    by (rule blob_store_step [OF b2(2,3), of "''a''"]) (auto simp: b2 size)
  obtain b4 where b4: "blob_store b3 ''v'' = Some (b4, 6)" "blob_holds b4 [(0, []), (1, []), (2, le_bytes 4 0), (4, ''a''), (6, ''v'')]"
      "b_capacity b4 = 2 ^ 28" "b_next_free b4 = 8"
    by (rule blob_store_step [OF b3(2,3), of "''v''"]) (auto simp: b3 size)
  obtain b5 where b5: "blob_store b4 ''h'' = Some (b5, 8)"
      "blob_holds b5 [(0, []), (1, []), (2, le_bytes 4 0), (4, ''a''), (6, ''v''), (8, ''h'')]"
      "b_capacity b5 = 2 ^ 28" "b_next_free b5 = 10"
    by (rule blob_store_step [OF b4(2,3), of "''h''"]) (auto simp: b4 size)
  obtain b6 where b6: "blob_store b5 ''h'' = Some (b6, 10)" "b_next_free b6 = 12"
    by (rule blob_store_step [OF b5(2,3), of "''h''"]) (auto simp: b5 size)
  have reads: "blob_fetch b1 0 = Some []" "blob_fetch b3 4 = Some ''a''" "blob_fetch b4 6 = Some ''v''" "blob_fetch b4 4 = Some ''a''"
      "blob_fetch b5 0 = Some []" "blob_fetch b5 8 = Some ''h''"
    using mem.fetch_holds [OF b1(1)] mem.fetch_holds [OF b3(2)] mem.fetch_holds [OF b4(2)] mem.fetch_holds [OF b5(2)] by simp_all
  let ?n = "\<lparr>pn_parent = 2, pn_prefix = 4, pn_hash = 8, pn_value = 6, pn_children = (\<lambda>_. 0)\<rparr>"
  have "store_ok b5 [(0, []), (1, []), (2, le_bytes 4 0), (4, ''a''), (6, ''v''), (8, ''h'')]" using b5 by (simp add: store_ok_def)
  from get_parent_blob [OF this, of ?n "\<lparr>n_parent = 0, n_prefix = ''a'', n_hash = ''h'', n_value = ''v'', n_children = (\<lambda>_. 0)\<rparr>"]
  have parent: "get_parent b5 ?n = Some 0" by (simp add: node_rel_def)
  note runs = after_def result_def reading_def changing_def store_blob_def upd_pnode_def member_at_def node_at_def
  note sets = set_parent_def set_prefix_def set_hash_def set_value_def set_child_def get_child_def get_prefix_def get_value_def get_hash_def
  show ?thesis
    by (simp add: new_trie_def p_set_def p_split_at_end_def p_add_node_def p_take_location_def p_backup_nodes.simps
        p_hash_up_def p_child_hashes_def pchild_bytes_0 pchild_bytes_1 new_pnode_def runs sets vec_get_def
        reads parent b1 b2 b3 b4 b5 b6 next_word_def)
qed

lemma new_key:
  obtains ps ps' where "psession (\<lambda>_. ''h'') ps (\<lambda>_. []) (\<lambda>_. [])" "in_room ps"
    "p_set (\<lambda>_. ''h'') ''a'' ''v'' ps = (Some (), ps')" "in_room ps'"
    "psession (\<lambda>_. ''h'') ps' ((\<lambda>_. [])(''a'' := ''v'')) (\<lambda>_. [])"
proof (rule new_run [of "\<lambda>_. ''h''" "\<lambda>_. CHR ''x''"])
  fix b assume run: "state_persistent_new (\<lambda>_. ''h'') (\<lambda>_. CHR ''x'') = (Some (), new_trie b)"
    and b: "blob_holds b [(0, []), (1, [])]" "b_capacity b = 2 ^ 28" "b_next_free b = 2"
  from one_key_run [OF b] obtain ps' where
    ps': "p_set (\<lambda>_. ''h'') ''a'' ''v'' (new_trie b) = (Some (), ps')" "next_word ps' = 12" by blast
  have s: "psession (\<lambda>_. ''h'') (new_trie b) (\<lambda>_. []) (\<lambda>_. [])" by (rule psession.new [OF run])
  have "in_room (new_trie b)" "in_room ps'" using b(3) ps'(2) by (simp_all add: in_room_def next_word_def new_trie_def)
  with that [OF s _ ps'(1)] psession.set [OF s _ _ _ ps'(1)] show thesis by (simp add: storable_def)
qed

section \<open>What sessions guarantee\<close>

lemma psession_reads:
  assumes "psession H ps m mc" and "\<And>x. storable (H x)"
  shows "p_get k ps = (Some (m k), ps)"
proof -
  obtain s where s: "session H s m mc" "rel 0 ps s" and room: "in_room ps"
    using psession_shadow [OF assms(2,1)] by (auto simp: shadow_def)
  have keep: "snd (p_get k ps) = ps"
    by (auto simp: p_get_def after_def p_get_node_index_def reading_def result_def member_at_def split: option.split)
  from sim_get [OF s(2), of k] state_get_represents [OF session_represents [OF s(1)], of k] room keep
  show ?thesis by (auto simp: simulates_def prod_eq_iff)
qed

text \<open>C11: in every state of a session with the persistent trie, \<open>get\<close> returns, for every key, the value the calls so
  far have given it, read back through the blob store, and changes nothing. A session is made of the constructor, \<open>set\<close>
  of a non-empty value, \<open>erase\<close> of a non-empty key (or of the empty one while the root branches), \<open>delete_node_tree\<close> of
  a non-empty key, \<open>commit_changes\<close> when no free location lies before a live node, and \<open>discard_changes\<close> followed at
  once by \<open>commit_changes\<close>, all within the room of the store and with keys, values and hashes whose length fits a
  blob's length word; the other calls break the map as they do in memory.\<close>

theorem persistent_get:
  assumes "psession H ps m mc" and "\<And>x. storable (H x)"
  shows "p_get k ps = (Some (m k), ps)"
  by (rule psession_reads [OF assms])

theorem persistent_get_witness:
  "\<exists>ps. psession (\<lambda>_. ''h'') ps ((\<lambda>_. [])(''a'' := ''v'')) (\<lambda>_. []) \<and>
     p_get ''a'' ps = (Some ''v'', ps) \<and> p_get ''b'' ps = (Some [], ps)"
proof (rule new_key)
  fix ps assume s: "psession (\<lambda>_. ''h'') ps ((\<lambda>_. [])(''a'' := ''v'')) (\<lambda>_. [])"
  have h: "storable ''h''" by (simp add: storable_def)
  from s persistent_get [OF s h, of "''a''"] persistent_get [OF s h, of "''b''"] show ?thesis by auto
qed

text \<open>C12: after any calls that leave the same contents, the persistent trie and the in-memory trie have the same hash
  at every path.\<close>

theorem persistent_hash:
  assumes "psession H ps m mc" and "\<And>x. storable (H x)" and "session H s m mc'"
  shows "p_get_node_hash path ps = (get_node_hash s path, ps)"
proof -
  obtain s1 where s1: "session H s1 m mc" "rel 0 ps s1" and room: "in_room ps"
    using psession_shadow [OF assms(2,1)] by (auto simp: shadow_def)
  have eq: "get_node_hash s path = get_node_hash s1 path"
    by (rule get_node_hash_unique [OF session_represents [OF assms(3)] session_represents [OF s1(1)]])
  have keep: "snd (p_get_node_hash path ps) = ps"
    by (auto simp: p_get_node_hash_def after_def p_get_node_index_def reading_def result_def member_at_def split: option.split)
  obtain h where "get_node_hash s1 path = Some h" by (rule get_node_hash_defined [OF session_represents [OF s1(1)]])
  with sim_get_node_hash [OF s1(2), of path] room keep eq show ?thesis by (auto simp: simulates_def prod_eq_iff)
qed

theorem persistent_hash_witness:
  "\<exists>ps s. psession (\<lambda>_. ''h'') ps ((\<lambda>_. [])(''a'' := ''v'')) (\<lambda>_. []) \<and>
     session (\<lambda>_. ''h'') s ((\<lambda>_. [])(''a'' := ''v'')) (\<lambda>_. []) \<and> p_get_node_hash [] ps = (get_node_hash s [], ps)"
proof (rule new_key)
  fix ps assume p: "psession (\<lambda>_. ''h'') ps ((\<lambda>_. [])(''a'' := ''v'')) (\<lambda>_. [])"
  obtain s where s: "session (\<lambda>_. ''h'') s ((\<lambda>_. [])(''a'' := ''v'')) (\<lambda>_. [])"
    using session_one [of "''v''" "\<lambda>_. ''h''" "''a''"] by auto
  have "storable ''h''" by (simp add: storable_def)
  from p s persistent_hash [OF p this s, of "[]"] show ?thesis by blast
qed

text \<open>C13: in a session with the persistent trie, \<open>set\<close> of a key to a non-empty value returns, unless it runs out of the
  room of the store. Afterwards \<open>get\<close> of the key returns the new value, \<open>get\<close> of every other key what it returned
  before, and the session goes on from there.\<close>

theorem persistent_set:
  assumes "psession H ps m mc" and "\<And>x. storable (H x)" and "v \<noteq> []" and "storable k" and "storable v"
    and "in_room (snd (p_set H k v ps))"
  shows "\<exists>ps'. p_set H k v ps = (Some (), ps') \<and> psession H ps' (m(k := v)) mc \<and>
    fst (p_get k ps') = Some v \<and> (\<forall>x. x \<noteq> k \<longrightarrow> fst (p_get x ps') = fst (p_get x ps))"
proof -
  obtain s where "shadow H ps m mc s" using psession_shadow [OF assms(2,1)] by blast
  from shadow_set [OF this assms(2-6)] obtain ps' where ps': "p_set H k v ps = (Some (), ps')" by blast
  have n: "psession H ps' (m(k := v)) mc" using psession.set [OF assms(1,3-5) ps'] assms(6) ps' by simp
  show ?thesis
    using ps' n by (auto simp: psession_reads [OF n assms(2)] psession_reads [OF assms(1,2)] simp del: split_paired_Ex)
qed

theorem persistent_set_witness:
  "\<exists>ps ps'. psession (\<lambda>_. ''h'') ps (\<lambda>_. []) (\<lambda>_. []) \<and> p_set (\<lambda>_. ''h'') ''a'' ''v'' ps = (Some (), ps') \<and>
     fst (p_get ''a'' ps') = Some ''v'' \<and> fst (p_get ''b'' ps') = fst (p_get ''b'' ps)"
proof (rule new_key)
  fix ps ps' assume s: "psession (\<lambda>_. ''h'') ps (\<lambda>_. []) (\<lambda>_. [])"
    and run: "p_set (\<lambda>_. ''h'') ''a'' ''v'' ps = (Some (), ps')" "in_room ps'"
  have "\<exists>ps'. p_set (\<lambda>_. ''h'') ''a'' ''v'' ps = (Some (), ps') \<and> psession (\<lambda>_. ''h'') ps' ((\<lambda>_. [])(''a'' := ''v'')) (\<lambda>_. []) \<and>
      fst (p_get ''a'' ps') = Some ''v'' \<and> (\<forall>x. x \<noteq> ''a'' \<longrightarrow> fst (p_get x ps') = fst (p_get x ps))"
    by (rule persistent_set [OF s]) (use run in \<open>simp_all add: storable_def\<close>)
  then have "p_set (\<lambda>_. ''h'') ''a'' ''v'' ps = (Some (), ps') \<and> fst (p_get ''a'' ps') = Some ''v'' \<and>
      fst (p_get ''b'' ps') = fst (p_get ''b'' ps)" using run(1) by auto
  with s show ?thesis by blast
qed

text \<open>\<open>erase\<close> unsets exactly its key, and throws for a key without a value, also here.\<close>

theorem persistent_erase:
  assumes "psession H ps m mc" and "\<And>x. storable (H x)" and "k \<noteq> [] \<or> branching m []"
    and "in_room (snd (p_erase H k ps))"
  shows "if m k = [] then fst (p_erase H k ps) = Some (throw (p_no_set_node ''erase'' k))
    else \<exists>ps'. p_erase H k ps = (Some (return ()), ps') \<and> psession H ps' (m(k := [])) mc"
proof -
  obtain s where "shadow H ps m mc s" using psession_shadow [OF assms(2,1)] by blast
  from shadow_erase [OF this assms(2-4)] psession.erase [OF assms(1,3)] assms(4) show ?thesis by auto
qed

text \<open>\<open>discard_changes\<close> followed by a commit always returns and brings back the contents of the last commit.\<close>

theorem persistent_discard:
  assumes "psession H ps m mc" and "\<And>x. storable (H x)"
  shows "\<exists>ps1 ps'. p_discard_changes ps = (Some (), ps1) \<and> p_commit_changes ps1 = (Some (), ps') \<and> psession H ps' mc mc"
proof -
  obtain s where "shadow H ps m mc s" "in_room ps" using psession_shadow [OF assms(2,1)] by blast
  from shadow_discard [OF this] psession.discard [OF assms(1)] show ?thesis by blast
qed

theorem persistent_discard_witness:
  "\<exists>ps ps1 ps'. psession (\<lambda>_. ''h'') ps ((\<lambda>_. [])(''a'' := ''v'')) (\<lambda>_. []) \<and> p_discard_changes ps = (Some (), ps1) \<and>
     p_commit_changes ps1 = (Some (), ps') \<and> psession (\<lambda>_. ''h'') ps' (\<lambda>_. []) (\<lambda>_. [])"
proof (rule new_key)
  fix ps assume s: "psession (\<lambda>_. ''h'') ps ((\<lambda>_. [])(''a'' := ''v'')) (\<lambda>_. [])"
  have "storable ''h''" by (simp add: storable_def)
  from s persistent_discard [OF s this] show ?thesis by blast
qed

section \<open>Where it differs\<close>

text \<open>\<open>set\<close> with the empty value does nothing, where the in-memory trie erases the key.\<close>

lemma persistent_set_empty: "p_set H k [] ps = (Some (), ps)"
  by (simp add: p_set_def result_def)

end
