(* ===== verification/Http_Server.thy ===== *)
theory Http_Server
  imports Texts
begin

text \<open>
  The HTTP server of \<^verbatim>\<open>core/network/http_server.cc\<close>: sessions that read requests from a socket, call the handler with
  the body of each and write its answer. Sockets belong to the asio library: a session waits for one operation at a
  time, and the completion of that operation is an event. The handler is a parameter; it has a state of its own and may throw. An
  exception leaves the callback of the event and ends the thread of the server.

  The text of an answer is a local variable of \<^verbatim>\<open>read_body\<close>, which is destroyed while asio still writes from its buffer. What asio finds
  there is the parameter \<open>taken\<close>, a function of the answer: the answer itself if it takes the bytes before \<^verbatim>\<open>async_write\<close> returns, other
  bytes if it comes back to the buffer later.
\<close>

section \<open>State\<close>

datatype http_status = OK | NO_CONTENT | BAD_REQUEST | UNAUTHORIZED | FORBIDDEN | INTERNAL_SERVER_ERROR
  | NOT_IMPLEMENTED | SERVICE_UNAVAILABLE

type_synonym 'w server_handler = "string \<Rightarrow> 'w \<Rightarrow> (string \<times> http_status \<times> 'w) throws"

record http_session =
  hs_header :: string
  hs_body :: string

text \<open>
  The operation a session waits for: some bytes of a header; bytes of a body of the given size, of which the
  given number is missing; the end of the writing of an answer.
\<close>

datatype pending = Reading_some | Reading_exactly nat nat | Writing string

text \<open>A session that is neither waiting nor deleted stays in memory for ever.\<close>

datatype session_next = Waiting pending | Deleted | Left

datatype io_error = Eof | Other_error

datatype completion = Read_done string | Write_done | Failed io_error

definition kBufferSize :: nat where "kBufferSize = 1024"

definition http_session_new :: http_session where
  "http_session_new = \<lparr>hs_header = [], hs_body = []\<rparr>"

section \<open>Answers\<close>

fun http_status_line :: "http_status \<Rightarrow> string" where
  "http_status_line OK = ''HTTP/1.0 200 OK'' @ crlf"
| "http_status_line NO_CONTENT = ''HTTP/1.0 204 No Content'' @ crlf"
| "http_status_line BAD_REQUEST = ''HTTP/1.0 400 Bad Request'' @ crlf"
| "http_status_line UNAUTHORIZED = ''HTTP/1.0 401 Unauthorized'' @ crlf"
| "http_status_line FORBIDDEN = ''HTTP/1.0 403 Forbidden'' @ crlf"
| "http_status_line INTERNAL_SERVER_ERROR = ''HTTP/1.0 500 Internal Server Error'' @ crlf"
| "http_status_line NOT_IMPLEMENTED = ''HTTP/1.0 501 Not Implemented'' @ crlf"
| "http_status_line SERVICE_UNAVAILABLE = ''HTTP/1.0 503 Service Unavailable'' @ crlf"

definition add_http_header :: "string \<Rightarrow> http_status \<Rightarrow> string" where
  "add_http_header data s = http_status_line s @ ''Access-Control-Allow-Origin: *'' @ crlf @
     ''Content-Length: '' @ to_string (length data) @ crlf @ ''Content-Type: text/plain'' @ crlf @ crlf @ data"

section \<open>Requests\<close>

text \<open>The first line with the size of the body; the size is converted to 32 bits without a sign.\<close>

definition content_length :: "string \<Rightarrow> nat outcome" where
  "content_length header =
     (case find (\<lambda>l. take 16 l = ''Content-Length: '') (lines_of header) of
        None \<Rightarrow> succeed 0
      | Some l \<Rightarrow> and_then (stoi (drop 16 l)) (\<lambda>n. succeed (nat (n mod 2 ^ 32))))"

function read_body :: "'w server_handler \<Rightarrow> (string \<Rightarrow> string) \<Rightarrow> nat \<Rightarrow> http_session \<Rightarrow> 'w \<Rightarrow> (http_session \<times> pending \<times> 'w) outcome" where
  "read_body handle taken body_size s w =
     (let sz = length (hs_body s) in
      if sz < body_size then succeed (s, Reading_exactly (body_size - sz) body_size, w)
      else if sz > body_size then
        read_body handle taken body_size
          (s\<lparr>hs_header := drop body_size (hs_body s), hs_body := take body_size (hs_body s)\<rparr>) w
      else
        and_then (Some (handle (hs_body s) w)) (\<lambda>(data, code, w).
          succeed (s\<lparr>hs_body := []\<rparr>, Writing (taken (add_http_header data code)), w)))"
  by pat_completeness auto
termination
  by (relation "measure (\<lambda>(h, k, n, s, w). length (hs_body s))") auto

declare read_body.simps [simp del]

function read_header ::
  "'w server_handler \<Rightarrow> (string \<Rightarrow> string) \<Rightarrow> http_session \<Rightarrow> 'w \<Rightarrow> (http_session \<times> pending \<times> 'w) outcome" where
  "read_header handle taken s w =
     (case find_sub crlf2 (hs_header s) of
        None \<Rightarrow> succeed (s, Reading_some, w)
      | Some pos \<Rightarrow>
          if pos + 4 < length (hs_header s) then
            read_header handle taken
              (s\<lparr>hs_body := drop (pos + 4) (hs_header s), hs_header := take (pos + 4) (hs_header s)\<rparr>) w
          else
            and_then (content_length (hs_header s)) (\<lambda>body_size.
              let s = s\<lparr>hs_header := []\<rparr>
              in if body_size \<noteq> 0 then read_body handle taken body_size s w else read_header handle taken s w))"
  by pat_completeness auto
termination
proof (relation "measure (\<lambda>(h, k, s, w). length (hs_header s))")
  fix handle :: "'w server_handler" and taken :: "string \<Rightarrow> string" and s :: http_session and w pos and x :: http_session and n
  assume "find_sub crlf2 (hs_header s) = Some pos" "x = s\<lparr>hs_header := []\<rparr>"
  then show "((handle, taken, x, w), handle, taken, s, w) \<in> measure (\<lambda>(h, k, s, w). length (hs_header s))"
    by (auto simp: crlf2_def crlf_def)
qed auto

declare read_header.simps [simp del]

definition session_start :: "'w server_handler \<Rightarrow> (string \<Rightarrow> string) \<Rightarrow> 'w \<Rightarrow> (http_session \<times> pending \<times> 'w) outcome" where
  "session_start handle taken w = read_header handle taken http_session_new w"

text \<open>The callbacks of the operations. At the end of the input a session is not deleted.\<close>

fun session_complete ::
  "'w server_handler \<Rightarrow> (string \<Rightarrow> string) \<Rightarrow> pending \<Rightarrow> completion \<Rightarrow> http_session \<Rightarrow> 'w \<Rightarrow> (http_session \<times> session_next \<times> 'w) outcome" where
  "session_complete handle taken Reading_some (Read_done b) s w =
     and_then (read_header handle taken (s\<lparr>hs_header := hs_header s @ b\<rparr>) w) (\<lambda>(s, p, w). succeed (s, Waiting p, w))"
| "session_complete handle taken (Reading_exactly missing body_size) (Read_done b) s w =
     and_then (read_body handle taken body_size (s\<lparr>hs_body := hs_body s @ b\<rparr>) w) (\<lambda>(s, p, w). succeed (s, Waiting p, w))"
| "session_complete handle taken (Writing r) Write_done s w =
     and_then (read_header handle taken s w) (\<lambda>(s, p, w). succeed (s, Waiting p, w))"
| "session_complete handle taken (Writing r) (Failed e) s w = succeed (s, Deleted, w)"
| "session_complete handle taken p (Failed Eof) s w = succeed (s, Left, w)"
| "session_complete handle taken p (Failed Other_error) s w = succeed (s, Deleted, w)"
| "session_complete handle taken p c s w = None"

section \<open>The server\<close>

text \<open>
  The sessions that wait for an operation, by number; the next number; whether a connection is awaited, with a
  session that is ready for it; whether the thread of the server runs.
\<close>

record 'w http_server =
  sv_sessions :: "nat \<rightharpoonup> http_session \<times> pending"
  sv_next :: nat
  sv_accepting :: bool
  sv_running :: bool
  sv_world :: 'w

datatype server_event = Accepted | Accept_failed | Completed nat completion

definition http_server_new :: "'w \<Rightarrow> 'w http_server" where
  "http_server_new w = \<lparr>sv_sessions = Map.empty, sv_next = 0, sv_accepting = True, sv_running = False, sv_world = w\<rparr>"

definition server_run :: "'w http_server \<Rightarrow> 'w http_server" where
  "server_run v = v\<lparr>sv_running := True\<rparr>"

definition server_stop :: "'w http_server \<Rightarrow> 'w http_server" where
  "server_stop v = v\<lparr>sv_running := False\<rparr>"

text \<open>An exception of a callback is caught around the loop of the thread, which ends with it.\<close>

definition run_session ::
  "nat \<Rightarrow> (http_session \<times> session_next \<times> 'w) outcome \<Rightarrow> 'w http_server \<Rightarrow> 'w http_server option" where
  "run_session i r v =
     (case r of
        None \<Rightarrow> None
      | Some (Inl e) \<Rightarrow> Some (v\<lparr>sv_sessions := (sv_sessions v)(i := None), sv_running := False\<rparr>)
      | Some (Inr (s, Waiting p, w)) \<Rightarrow> Some (v\<lparr>sv_sessions := (sv_sessions v)(i \<mapsto> (s, p)), sv_world := w\<rparr>)
      | Some (Inr (s, _, w)) \<Rightarrow> Some (v\<lparr>sv_sessions := (sv_sessions v)(i := None), sv_world := w\<rparr>))"

definition http_handle_accept :: "'w server_handler \<Rightarrow> (string \<Rightarrow> string) \<Rightarrow> bool \<Rightarrow> 'w http_server \<Rightarrow> 'w http_server option" where
  "http_handle_accept handle taken error v =
     (if \<not> error then
        map_option (\<lambda>v. if sv_running v then v\<lparr>sv_next := sv_next v + 1\<rparr> else v)
          (run_session (sv_next v)
            (and_then (session_start handle taken (sv_world v)) (\<lambda>(s, p, w). succeed (s, Waiting p, w))) v)
      else Some (v\<lparr>sv_accepting := False\<rparr>))"

fun server_step :: "'w server_handler \<Rightarrow> (string \<Rightarrow> string) \<Rightarrow> server_event \<Rightarrow> 'w http_server \<Rightarrow> 'w http_server option" where
  "server_step handle taken Accepted v =
     (if sv_running v \<and> sv_accepting v then http_handle_accept handle taken False v else None)"
| "server_step handle taken Accept_failed v =
     (if sv_running v \<and> sv_accepting v then http_handle_accept handle taken True v else None)"
| "server_step handle taken (Completed i c) v =
     (if sv_running v then
        case sv_sessions v i of None \<Rightarrow> None
        | Some (s, p) \<Rightarrow> run_session i (session_complete handle taken p c s (sv_world v)) v
      else None)"

end
