(* ===== verification/Http_Properties.thy ===== *)
theory Http_Properties
  imports Http_Server
begin

text \<open>
  What clients of the HTTP server can rely on: requests with bodies that follow each other on one connection are
  answered one by one, in whatever pieces they arrive; and requests that break the server.
\<close>

lemma succeed_eq [simp]: "succeed x = succeed y \<longleftrightarrow> x = y"
  by (simp add: succeed_def)

section \<open>Requests and answers\<close>

text \<open>A request with a body: its header ends with the first empty line and has the size of the body.\<close>

fun wf_request :: "string \<times> string \<Rightarrow> bool" where
  "wf_request (h, b) \<longleftrightarrow> find_sub crlf2 h = Some (length h - 4) \<and> content_length h = succeed (length b) \<and> b \<noteq> []"

definition stream_of :: "(string \<times> string) list \<Rightarrow> string" where
  "stream_of rs = concat (map (\<lambda>(h, b). h @ b) rs)"

lemma stream_of_simps [simp]: "stream_of [] = []" "stream_of ((h, b) # rs) = h @ b @ stream_of rs"
  by (simp_all add: stream_of_def)

text \<open>A handler that does not throw, and its answers to one body after the other.\<close>

type_synonym 'w total_handler = "string \<Rightarrow> 'w \<Rightarrow> string \<times> http_status \<times> 'w"

definition total :: "'w total_handler \<Rightarrow> 'w server_handler" where
  "total handle b w = return (handle b w)"

fun answers :: "'w total_handler \<Rightarrow> (string \<Rightarrow> string) \<Rightarrow> string list \<Rightarrow> 'w \<Rightarrow> string list \<times> 'w" where
  "answers handle taken [] w = ([], w)"
| "answers handle taken (b # bs) w =
     (let (data, code, w) = handle b w; (out, w) = answers handle taken bs w in (taken (add_http_header data code) # out, w))"

lemma answers_snoc:
  "answers handle taken bs w = (out, w1) \<Longrightarrow> handle b w1 = (data, code, w2) \<Longrightarrow>
    answers handle taken (bs @ [b]) w = (out @ [taken (add_http_header data code)], w2)"
  by (induction bs arbitrary: w out) (auto split: prod.splits)

lemma length_answers: "length (fst (answers handle taken bs w)) = length bs"
proof (induction bs arbitrary: w)
  case (Cons b bs)
  obtain data code w1 where "handle b w = (data, code, w1)" by (cases "handle b w") auto
  with Cons [of w1] show ?case by (simp add: case_prod_unfold Let_def)
qed simp

section \<open>A conversation\<close>

text \<open>
  A session with what the client has sent and the session has not yet read, and with the answers that were
  written. A read for a header gives some bytes, a read for a body fills the buffer or gives all that is missing.
\<close>

record 'w talk =
  tk_session :: http_session
  tk_pending :: pending
  tk_world :: 'w
  tk_input :: string
  tk_output :: "string list"

inductive talk_step :: "'w total_handler \<Rightarrow> (string \<Rightarrow> string) \<Rightarrow> 'w talk \<Rightarrow> 'w talk \<Rightarrow> bool" for handle taken where
  read_some: "tk_pending c = Reading_some \<Longrightarrow> tk_input c = b @ rest \<Longrightarrow> b \<noteq> [] \<Longrightarrow> length b \<le> kBufferSize \<Longrightarrow>
    session_complete (total handle) taken Reading_some (Read_done b) (tk_session c) (tk_world c) = succeed (s, Waiting p, w) \<Longrightarrow>
    talk_step handle taken c (c\<lparr>tk_session := s, tk_pending := p, tk_world := w, tk_input := rest\<rparr>)"
| read_exactly: "tk_pending c = Reading_exactly n sz \<Longrightarrow> tk_input c = b @ rest \<Longrightarrow> length b = min n kBufferSize \<Longrightarrow>
    session_complete (total handle) taken (Reading_exactly n sz) (Read_done b) (tk_session c) (tk_world c) = succeed (s, Waiting p, w) \<Longrightarrow>
    talk_step handle taken c (c\<lparr>tk_session := s, tk_pending := p, tk_world := w, tk_input := rest\<rparr>)"
| written: "tk_pending c = Writing r \<Longrightarrow>
    session_complete (total handle) taken (Writing r) Write_done (tk_session c) (tk_world c) = succeed (s, Waiting p, w) \<Longrightarrow>
    talk_step handle taken c (c\<lparr>tk_session := s, tk_pending := p, tk_world := w, tk_output := tk_output c @ [r]\<rparr>)"

definition talk_start :: "'w \<Rightarrow> string \<Rightarrow> 'w talk" where
  "talk_start w input = \<lparr>tk_session = http_session_new, tk_pending = Reading_some, tk_world = w, tk_input = input, tk_output = []\<rparr>"

text \<open>
  Where a session stands: some requests are answered, and the others are in what it holds and what is still to come.
\<close>

inductive stands :: "'w total_handler \<Rightarrow> (string \<Rightarrow> string) \<Rightarrow> (string \<times> string) list \<Rightarrow> 'w \<Rightarrow> string \<Rightarrow> string list \<Rightarrow>
    http_session \<times> pending \<times> 'w \<Rightarrow> bool" for handle taken reqs w0 input out where
  idle: "reqs = past @ rest \<Longrightarrow> hs_body s = [] \<Longrightarrow> hs_header s @ input = stream_of rest \<Longrightarrow>
    find_sub crlf2 (hs_header s) = None \<Longrightarrow> answers handle taken (map snd past) w0 = (out, w) \<Longrightarrow>
    stands handle taken reqs w0 input out (s, Reading_some, w)"
| body: "reqs = past @ (h, b) # rest \<Longrightarrow> hs_header s = [] \<Longrightarrow> length (hs_body s) < length b \<Longrightarrow>
    hs_body s @ input = b @ stream_of rest \<Longrightarrow> answers handle taken (map snd past) w0 = (out, w) \<Longrightarrow>
    stands handle taken reqs w0 input out (s, Reading_exactly (length b - length (hs_body s)) (length b), w)"
| writing: "reqs = past @ rest \<Longrightarrow> hs_body s = [] \<Longrightarrow> hs_header s @ input = stream_of rest \<Longrightarrow>
    answers handle taken (map snd past) w0 = (out @ [r], w) \<Longrightarrow> stands handle taken reqs w0 input out (s, Writing r, w)"

lemma read_body_stands:
  assumes "reqs = past @ (h, b) # rest" "hs_header s = []" "hs_body s @ input = b @ stream_of rest"
    "answers handle taken (map snd past) w0 = (out, w)"
  shows "\<exists>r. read_body (total handle) taken (length b) s w = succeed r \<and> stands handle taken reqs w0 input out r"
proof -
  obtain data code w' where run: "handle b w = (data, code, w')" by (cases "handle b w") auto
  have ans: "answers handle taken (map snd (past @ [(h, b)])) w0 = (out @ [taken (add_http_header data code)], w')"
    using answers_snoc [OF assms(4) run] by simp
  have full: "read_body (total handle) taken (length b) (s'\<lparr>hs_body := b\<rparr>) w = succeed (s'\<lparr>hs_body := []\<rparr>, Writing (taken (add_http_header data code)), w')" for s'
    by (subst read_body.simps) (simp add: run total_def)
  have finish: "stands handle taken reqs w0 input out (s'\<lparr>hs_body := []\<rparr>, Writing (taken (add_http_header data code)), w')"
    if "hs_header s' @ input = stream_of rest" for s'
    by (rule stands.writing [where past = "past @ [(h, b)]" and rest = rest]) (use assms(1) that ans in auto)
  consider (less) "length (hs_body s) < length b" | (more) "length (hs_body s) > length b" | (eq) "length (hs_body s) = length b"
    by linarith
  then show ?thesis
  proof cases
    case less
    then have "read_body (total handle) taken (length b) s w = succeed (s, Reading_exactly (length b - length (hs_body s)) (length b), w)"
      by (subst read_body.simps) simp
    with stands.body [OF assms(1,2) less assms(3,4)] show ?thesis by simp
  next
    case more
    then obtain x where x: "hs_body s = b @ x" "x @ input = stream_of rest" using assms(3) by (auto simp: append_eq_append_conv2)
    have "read_body (total handle) taken (length b) s w = read_body (total handle) taken (length b) (s\<lparr>hs_header := x, hs_body := b\<rparr>) w"
      using more x(1) by (subst read_body.simps) simp
    with full [of "s\<lparr>hs_header := x\<rparr>"] finish [of "s\<lparr>hs_header := x\<rparr>"] x(2) show ?thesis by auto
  next
    case eq
    then have "hs_body s = b" "input = stream_of rest" using assms(3) by (auto simp: append_eq_append_conv)
    moreover from this(1) have same: "s\<lparr>hs_body := b\<rparr> = s" by (cases s) simp
    ultimately show ?thesis using full [of s, unfolded same] finish [of s] assms(2) by simp
  qed
qed

lemma read_header_stands:
  assumes "reqs = past @ rest" "hs_body s = []" "hs_header s @ input = stream_of rest" "\<forall>r \<in> set rest. wf_request r"
    "answers handle taken (map snd past) w0 = (out, w)"
  shows "\<exists>r. read_header (total handle) taken s w = succeed r \<and> stands handle taken reqs w0 input out r"
proof (cases "find_sub crlf2 (hs_header s)")
  case None
  then have "read_header (total handle) taken s w = succeed (s, Reading_some, w)" by (subst read_header.simps) simp
  with stands.idle [OF assms(1-3) None assms(5)] show ?thesis by blast
next
  case (Some pos)
  have nil: "find_sub crlf2 [] = None" by (simp add: crlf2_def crlf_def)
  have "rest \<noteq> []" using Some assms(3) nil by auto
  then obtain h b rest' where rest: "rest = (h, b) # rest'" by (cases rest) auto
  then have wf: "find_sub crlf2 h = Some (length h - 4)" "content_length h = succeed (length b)" "b \<noteq> []"
    using assms(4) by auto
  have h4: "length h - 4 + 4 = length h" using find_sub_SomeD [OF wf(1)] by (simp add: crlf2_def crlf_def)
  have "\<not> length (hs_header s) < length h"
  proof
    assume less: "length (hs_header s) < length h"
    then obtain y where "h = hs_header s @ y" using assms(3) rest by (auto simp: append_eq_append_conv2)
    from find_sub_before [OF wf(1) _ this] less h4 Some show False by (simp add: crlf2_def crlf_def)
  qed
  moreover have eq: "hs_header s @ input = h @ b @ stream_of rest'" using assms(3) rest by simp
  then have "take (length h) (hs_header s @ input) = h" by simp
  ultimately have "take (length h) (hs_header s) = h" by simp
  then obtain x where x: "hs_header s = h @ x" by (metis append_take_drop_id)
  with eq have x2: "x @ input = b @ stream_of rest'" by simp
  have pos: "pos = length h - 4" using Some find_sub_append [OF wf(1), of x] x by simp
  let ?s = "s\<lparr>hs_body := x, hs_header := []\<rparr>"
  have parse: "read_header (total handle) taken (s\<lparr>hs_body := y, hs_header := h\<rparr>) w = read_body (total handle) taken (length b) (s\<lparr>hs_body := y, hs_header := []\<rparr>) w" for y
    using wf h4 by (subst read_header.simps) simp
  have "read_header (total handle) taken s w = read_body (total handle) taken (length b) ?s w"
  proof (cases "x = []")
    case True
    then have "s = s\<lparr>hs_body := x, hs_header := h\<rparr>" using assms(2) x by (cases s) simp
    with parse [of x] show ?thesis by metis
  next
    case False
    then have "read_header (total handle) taken s w = read_header (total handle) taken (s\<lparr>hs_body := x, hs_header := h\<rparr>) w"
      using Some pos x h4 by (subst read_header.simps) simp
    with parse [of x] show ?thesis by simp
  qed
  moreover have "\<exists>r. read_body (total handle) taken (length b) ?s w = succeed r \<and> stands handle taken reqs w0 input out r"
    by (rule read_body_stands [where past = past and h = h and rest = rest']) (use assms rest x2 in auto)
  ultimately show ?thesis by simp
qed

lemma stands_some:
  assumes "stands handle taken reqs w0 (b @ rest) out (s, Reading_some, w)" "\<forall>r \<in> set reqs. wf_request r"
  shows "\<exists>s' p' w'. session_complete (total handle) taken Reading_some (Read_done b) s w = succeed (s', Waiting p', w') \<and>
    stands handle taken reqs w0 rest out (s', p', w')"
  using assms(1)
proof cases
  case (idle past later)
  from read_header_stands [of reqs past later "s\<lparr>hs_header := hs_header s @ b\<rparr>" rest handle taken w0 out w] idle assms(2)
  show ?thesis by auto
qed

lemma stands_exactly:
  assumes "stands handle taken reqs w0 (b @ rest) out (s, Reading_exactly n sz, w)"
  shows "\<exists>s' p' w'. session_complete (total handle) taken (Reading_exactly n sz) (Read_done b) s w = succeed (s', Waiting p', w') \<and>
    stands handle taken reqs w0 rest out (s', p', w')"
  using assms
proof cases
  case (body past h b' later)
  from read_body_stands [of reqs past h b' later "s\<lparr>hs_body := hs_body s @ b\<rparr>" rest handle taken w0 out w] body
  show ?thesis by (auto split: prod.split)
qed

lemma stands_written:
  assumes "stands handle taken reqs w0 input out (s, Writing r, w)" "\<forall>r \<in> set reqs. wf_request r"
  shows "\<exists>s' p' w'. session_complete (total handle) taken (Writing r) Write_done s w = succeed (s', Waiting p', w') \<and>
    stands handle taken reqs w0 input (out @ [r]) (s', p', w')"
  using assms(1)
proof cases
  case (writing past later)
  from read_header_stands [of reqs past later s input handle taken w0 "out @ [r]" w] writing assms(2)
  show ?thesis by auto
qed

abbreviation talk_stands :: "'w total_handler \<Rightarrow> (string \<Rightarrow> string) \<Rightarrow> (string \<times> string) list \<Rightarrow> 'w \<Rightarrow> 'w talk \<Rightarrow> bool" where
  "talk_stands handle taken reqs w0 c \<equiv> stands handle taken reqs w0 (tk_input c) (tk_output c) (tk_session c, tk_pending c, tk_world c)"

lemma talk_start_stands: "talk_stands handle taken reqs w0 (talk_start w0 (stream_of reqs))"
  by (rule subst [where P = "\<lambda>p. stands _ _ _ _ _ _ (_, p, _)", of Reading_some])
    (auto simp: talk_start_def http_session_new_def crlf2_def crlf_def intro!: stands.idle [where past = "[]"])

lemma talk_step_stands:
  assumes "talk_step handle taken c c'" "\<forall>r \<in> set reqs. wf_request r" "talk_stands handle taken reqs w0 c"
  shows "talk_stands handle taken reqs w0 c'"
  using assms(1)
proof cases
  case (read_some b rest s p w)
  with stands_some [of handle taken reqs w0 b rest "tk_output c" "tk_session c" "tk_world c"] assms(2,3)
  show ?thesis by (auto simp del: session_complete.simps)
next
  case (read_exactly n sz b rest s p w)
  with stands_exactly [of handle taken reqs w0 b rest "tk_output c" "tk_session c" n sz "tk_world c"] assms(3)
  show ?thesis by (auto simp del: session_complete.simps)
next
  case (written r s p w)
  with stands_written [of handle taken reqs w0 "tk_input c" "tk_output c" "tk_session c" r "tk_world c"] assms(2,3)
  show ?thesis by (auto simp del: session_complete.simps)
qed

section \<open>Properties\<close>

text \<open>No step is missing while something is left to do, and each step reads input or writes an answer.\<close>

lemma talk_progress:
  assumes "talk_stands handle taken reqs w0 c" "\<forall>r \<in> set reqs. wf_request r"
    "\<not> (tk_input c = [] \<and> tk_pending c = Reading_some)"
  shows "\<exists>c'. talk_step handle taken c c'"
  using assms(1)
proof cases
  case (idle past later)
  then obtain x where x: "tk_input c = [hd (tk_input c)] @ x" using assms(3) by (cases "tk_input c") auto
  obtain s' p' w' where "session_complete (total handle) taken Reading_some (Read_done [hd (tk_input c)]) (tk_session c) (tk_world c) =
      succeed (s', Waiting p', w')"
    using stands_some [of handle taken reqs w0 "[hd (tk_input c)]" x "tk_output c" "tk_session c" "tk_world c"] assms(1,2) idle(1) x
    by auto
  from talk_step.read_some [OF idle(1) x _ _ this] show ?thesis by (auto simp: kBufferSize_def)
next
  case (body past h b later)
  let ?n = "length b - length (hs_body (tk_session c))"
  have "?n \<le> length (tk_input c)"
    using arg_cong [OF body(5), of length] by simp
  then have x: "tk_input c = take (min ?n kBufferSize) (tk_input c) @ drop (min ?n kBufferSize) (tk_input c)"
    "length (take (min ?n kBufferSize) (tk_input c)) = min ?n kBufferSize" by simp_all
  obtain s' p' w' where "session_complete (total handle) taken (Reading_exactly ?n (length b)) (Read_done (take (min ?n kBufferSize) (tk_input c)))
      (tk_session c) (tk_world c) = succeed (s', Waiting p', w')"
    using stands_exactly [of handle taken reqs w0 "take (min ?n kBufferSize) (tk_input c)" "drop (min ?n kBufferSize) (tk_input c)"
      "tk_output c" "tk_session c" ?n "length b" "tk_world c"] assms(1) body(1) by auto
  from talk_step.read_exactly [OF body(1) x this] show ?thesis by blast
next
  case (writing past later r)
  then obtain s' p' w' where "session_complete (total handle) taken (Writing r) Write_done (tk_session c) (tk_world c) = succeed (s', Waiting p', w')"
    using stands_written [of handle taken reqs w0 "tk_input c" "tk_output c" "tk_session c" r "tk_world c"] assms(1,2) by auto
  from talk_step.written [OF writing(1) this] show ?thesis by blast
qed

lemma stands_output:
  assumes "stands handle taken reqs w0 input out (s, p, w)"
  shows "length out \<le> length reqs"
proof -
  have len: "answers handle taken (map snd past) w0 = (o', w') \<Longrightarrow> length o' = length past" for past o' w'
    using length_answers [of handle taken "map snd past" w0] by simp
  from assms show ?thesis by cases (auto dest!: len)
qed

definition talk_left :: "(string \<times> string) list \<Rightarrow> 'w talk \<Rightarrow> nat" where
  "talk_left reqs c = length (tk_input c) + (length reqs - length (tk_output c))"

lemma talk_step_left:
  assumes "talk_step handle taken c c'" "\<forall>r \<in> set reqs. wf_request r" "talk_stands handle taken reqs w0 c"
  shows "talk_left reqs c' < talk_left reqs c"
  using assms(1)
proof cases
  case (read_exactly n sz b rest s p w)
  from assms(3) have "0 < n" unfolding read_exactly(2) by cases auto
  with read_exactly show ?thesis by (auto simp: talk_left_def kBufferSize_def min_def split: if_splits)
next
  case (written r s p w)
  have "length (tk_output c') \<le> length reqs" using stands_output [OF talk_step_stands [OF assms]] .
  with written show ?thesis by (auto simp: talk_left_def)
qed (auto simp: talk_left_def)

lemma talk_reach_stands:
  assumes "(talk_step handle taken ^^ n) (talk_start w0 (stream_of reqs)) c" "\<forall>r \<in> set reqs. wf_request r"
  shows "talk_stands handle taken reqs w0 c \<and> n + talk_left reqs c \<le> length (stream_of reqs) + length reqs"
  using assms(1)
proof (induction n arbitrary: c)
  case 0
  then show ?case using talk_start_stands [of handle taken reqs w0] by (auto simp: talk_start_def talk_left_def)
next
  case (Suc n)
  then obtain c1 where c1: "(talk_step handle taken ^^ n) (talk_start w0 (stream_of reqs)) c1" "talk_step handle taken c1 c" by auto
  note IH = Suc.IH [OF c1(1)]
  with talk_step_stands [OF c1(2) assms(2), of w0] talk_step_left [OF c1(2) assms(2), of w0] show ?case by auto
qed

lemma stands_end:
  assumes "stands handle taken reqs w0 [] out (s, Reading_some, w)" "\<forall>r \<in> set reqs. wf_request r"
  shows "answers handle taken (map snd reqs) w0 = (out, w)"
  using assms(1)
proof cases
  case (idle past later)
  have "later = []"
  proof (cases later)
    case (Cons r later')
    obtain h b where r: "r = (h, b)" by (cases r)
    then have "find_sub crlf2 h = Some (length h - 4)" using assms(2) idle(1) Cons by auto
    from find_sub_append [OF this] idle(3,4) Cons r show ?thesis by simp
  qed
  with idle show ?thesis by simp
qed

text \<open>C31: with a handler that does not throw, the server answers requests that have a body and follow each other on one connection:
  in whatever pieces the bytes arrive, the handler gets the bodies in order, and for each answer one text is written, what asio takes
  from the buffer of the answer (\<open>taken\<close>: the answer itself if it is taken before the buffer is destroyed). No exception is thrown, the
  session never waits for bytes that will not come, and it takes at most one step for each byte and each request.\<close>

theorem http_requests_answered:
  assumes "\<forall>r \<in> set reqs. wf_request r" and "(talk_step handle taken ^^ n) (talk_start w0 (stream_of reqs)) c"
  shows "n \<le> length (stream_of reqs) + length reqs \<and>
    (if tk_input c = [] \<and> tk_pending c = Reading_some then answers handle taken (map snd reqs) w0 = (tk_output c, tk_world c)
     else \<exists>c'. talk_step handle taken c c')"
  using talk_reach_stands [OF assms(2,1)] talk_progress [OF _ assms(1), of handle taken w0 c] stands_end [OF _ assms(1), of handle taken w0]
  by auto

text \<open>Two requests and an echoing handler that counts.\<close>

definition sample_requests :: "(string \<times> string) list" where
  "sample_requests = [(''POST / HTTP/1.1'' @ crlf @ ''Content-Length: 2'' @ crlf2, ''ab''),
     (''POST / HTTP/1.1'' @ crlf @ ''Content-Length: 1'' @ crlf2, ''c'')]"

definition sample_handler :: "nat total_handler" where
  "sample_handler b n = (b, OK, n + 1)"

lemma sample_requests_ok: "\<forall>r \<in> set sample_requests. wf_request r"
  by code_simp

theorem http_requests_answered_witness:
  "\<exists>c. (talk_step sample_handler id ^^ 3) (talk_start 0 (stream_of sample_requests)) c \<and> tk_input c = [] \<and>
     tk_pending c = Reading_some \<and> answers sample_handler id [''ab'', ''c''] 0 = (tk_output c, tk_world c)"
proof -
  let ?c0 = "talk_start (0::nat) (stream_of sample_requests)"
  let ?s1 = "\<lparr>hs_header = stream_of (tl sample_requests), hs_body = []\<rparr>"
  let ?c1 = "?c0\<lparr>tk_session := ?s1, tk_pending := Writing (add_http_header ''ab'' OK), tk_world := 1, tk_input := []\<rparr>"
  let ?c2 = "?c1\<lparr>tk_session := http_session_new, tk_pending := Writing (add_http_header ''c'' OK), tk_world := 2,
    tk_output := tk_output ?c1 @ [add_http_header ''ab'' OK]\<rparr>"
  let ?c3 = "?c2\<lparr>tk_session := http_session_new, tk_pending := Reading_some, tk_world := 2,
    tk_output := tk_output ?c2 @ [add_http_header ''c'' OK]\<rparr>"
  have "session_complete (total sample_handler) id Reading_some (Read_done (stream_of sample_requests)) http_session_new 0 =
      succeed (?s1, Waiting (Writing (add_http_header ''ab'' OK)), 1)" by code_simp
  then have 1: "talk_step sample_handler id ?c0 ?c1"
    by (intro talk_step.read_some [where b = "stream_of sample_requests"]) (simp_all add: talk_start_def sample_requests_def crlf2_def crlf_def kBufferSize_def)
  have "session_complete (total sample_handler) id (Writing (add_http_header ''ab'' OK)) Write_done ?s1 1 =
      succeed (http_session_new, Waiting (Writing (add_http_header ''c'' OK)), 2)" by code_simp
  then have 2: "talk_step sample_handler id ?c1 ?c2" by (intro talk_step.written) simp_all
  have "session_complete (total sample_handler) id (Writing (add_http_header ''c'' OK)) Write_done http_session_new 2 =
      succeed (http_session_new, Waiting Reading_some, 2)" by code_simp
  then have 3: "talk_step sample_handler id ?c2 ?c3" by (intro talk_step.written) simp_all
  have run: "(talk_step sample_handler id ^^ 3) ?c0 ?c3"
    unfolding numeral_3_eq_3 using 1 2 3 by (auto simp: relcompp.simps)
  have "map snd sample_requests = [''ab'', ''c'']" by (simp add: sample_requests_def)
  with http_requests_answered [OF sample_requests_ok run] run show ?thesis by (intro exI [of _ ?c3]) (simp add: talk_start_def)
qed

section \<open>Requests that break the server\<close>

text \<open>\<^verbatim>\<open>std::stoi\<close> throws for a size that is no number, and nothing catches the exception before the end of the thread:
  one such request on any connection ends the server for all.\<close>

theorem http_bad_length_stops_server:
  assumes "sv_running v" and "sv_sessions v i = Some (http_session_new, Reading_some)"
  shows "\<exists>v'. server_step handle taken (Completed i (Read_done (''GET /'' @ crlf @ ''Content-Length: x'' @ crlf2))) v = Some v' \<and>
    \<not> sv_running v' \<and> (\<forall>e. server_step handle taken e v' = None)"
proof -
  let ?r = "''GET /'' @ crlf @ ''Content-Length: x'' @ crlf2"
  have 1: "find_sub crlf2 ?r = Some (length ?r - 4)" "4 \<le> length ?r" by code_simp+
  have "content_length ?r = Some (throw (Invalid_argument ''stoi''))" by code_simp
  then have "read_header handle taken (http_session_new\<lparr>hs_header := ?r\<rparr>) (sv_world v) = Some (throw (Invalid_argument ''stoi''))"
    using 1 by (subst read_header.simps) (simp add: and_then_def del: append_Cons)
  then have "session_complete handle taken Reading_some (Read_done ?r) http_session_new (sv_world v) = Some (throw (Invalid_argument ''stoi''))"
    by (simp add: http_session_new_def and_then_def)
  then have "server_step handle taken (Completed i (Read_done ?r)) v = Some (v\<lparr>sv_sessions := (sv_sessions v)(i := None), sv_running := False\<rparr>)"
    using assms by (simp add: run_session_def)
  moreover have "server_step handle taken e (v\<lparr>sv_sessions := (sv_sessions v)(i := None), sv_running := False\<rparr>) = None" for e
    by (cases e) simp_all
  ultimately show ?thesis by auto
qed

theorem http_bad_length_stops_server_witness:
  "\<exists>v v'. server_step (total sample_handler) id Accepted (server_run (http_server_new 0)) = Some v \<and>
     server_step (total sample_handler) id (Completed 0 (Read_done (''GET /'' @ crlf @ ''Content-Length: x'' @ crlf2))) v = Some v' \<and> \<not> sv_running v'"
proof -
  let ?v = "(server_run (http_server_new 0))\<lparr>sv_sessions := [0 \<mapsto> (http_session_new, Reading_some)], sv_next := 1\<rparr> :: nat http_server"
  have "read_header (total sample_handler) id http_session_new 0 = succeed (http_session_new, Reading_some, 0)"
    by (subst read_header.simps) (simp add: http_session_new_def crlf2_def crlf_def)
  then have "server_step (total sample_handler) id Accepted (server_run (http_server_new 0)) = Some ?v"
    by (simp add: server_run_def http_server_new_def http_handle_accept_def session_start_def run_session_def succeed_def)
  with http_bad_length_stops_server [of ?v 0 "total sample_handler" id] show ?thesis by (auto simp: server_run_def http_server_new_def)
qed

text \<open>
  A request without a body must not be followed at once by another one: what was read behind its header is left over
  and never looked at, and when the header of a third request arrives alone the handler is called with the first
  bytes of the second request in the place of the body.
\<close>

lemma http_leftover_taken_for_body:
  "(case session_complete (total (\<lambda>b bs. (b, OK, bs @ [b]))) id Reading_some
       (Read_done (''GET /'' @ crlf2 @ fst (hd sample_requests) @ snd (hd sample_requests))) http_session_new [] of
      Some (Inr (s, Waiting Reading_some, w)) \<Rightarrow>
        map_option (map_sum id (\<lambda>(s, _, w). w))
          (session_complete (total (\<lambda>b bs. (b, OK, bs @ [b]))) id Reading_some (Read_done (fst (hd sample_requests))) s w)
    | _ \<Rightarrow> None) = Some (Inr [''PO''])"
  by code_simp

end
