(* ===== verification/Miner.thy ===== *)
theory Miner
  imports Hex_IO
begin

text \<open>
  The miner of \<^verbatim>\<open>tools/miner\<close>: random private keys are drawn until the public key of one, under a mask, is above a
  difficulty. The elliptic curve library and the random device are parameters: \<open>ec_pubkey_create\<close> gives no key for a
  private key that is not valid, \<open>r\<close> the successive random numbers. Shown: which key is found and what is
  counted, and that the program prints claims for keys that were not found.
\<close>

section \<open>Definitions\<close>

record 'k ec_library =
  ec_pubkey_create :: "string \<Rightarrow> 'k option"
  ec_pubkey_serialize :: "'k \<Rightarrow> string"
  ec_sign_recoverable :: "string \<Rightarrow> string \<Rightarrow> string \<times> nat"

definition byte_xor :: "char \<Rightarrow> char \<Rightarrow> char" where
  "byte_xor a b = char_of (Bit_Operations.xor (of_char a) (of_char b :: nat))"

text \<open>\<^verbatim>\<open>memcmp (a, b, n) < 0\<close> for texts of the same length.\<close>

fun memcmp_less :: "string \<Rightarrow> string \<Rightarrow> bool" where
  "memcmp_less (a # as) (b # bs) = (if a = b then memcmp_less as bs else (of_char a :: nat) < of_char b)"
| "memcmp_less _ _ = False"

definition random_key :: "(nat \<Rightarrow> nat) \<Rightarrow> nat \<Rightarrow> string" where
  "random_key r i = map (\<lambda>j. char_of (r (i + j) mod 256)) [0..<32]"

definition key_after_mask :: "'k ec_library \<Rightarrow> string \<Rightarrow> 'k \<Rightarrow> string" where
  "key_after_mask lib msk k = map2 byte_xor (take 32 (drop 1 (ec_pubkey_serialize lib k))) msk"

text \<open>
  The loop for a number of attempts from the position \<open>i\<close> of the random numbers on: the number of keys
  generated, the buffer of the private key and the position afterwards.
\<close>

fun mine_key_loop :: "'k ec_library \<Rightarrow> (nat \<Rightarrow> nat) \<Rightarrow> string \<Rightarrow> string \<Rightarrow> nat \<Rightarrow> nat \<Rightarrow> nat \<Rightarrow> string \<Rightarrow> nat \<times> string \<times> nat" where
  "mine_key_loop lib r msk difficulty 0 i keys_generated priv_key = (keys_generated, priv_key, i)"
| "mine_key_loop lib r msk difficulty (Suc attempts) i keys_generated priv_key =
     (let priv_key = random_key r i in
      case ec_pubkey_create lib priv_key of
        None \<Rightarrow> mine_key_loop lib r msk difficulty attempts (i + 32) keys_generated priv_key
      | Some k \<Rightarrow>
          if memcmp_less difficulty (key_after_mask lib msk k) then (keys_generated + 1, priv_key, i + 32)
          else mine_key_loop lib r msk difficulty attempts (i + 32) (keys_generated + 1) priv_key)"

text \<open>The limit is decremented before it is compared with zero.\<close>

definition mine_key ::
  "'k ec_library \<Rightarrow> (nat \<Rightarrow> nat) \<Rightarrow> nat \<Rightarrow> string \<Rightarrow> string \<Rightarrow> string \<Rightarrow> int \<Rightarrow> (nat \<times> string \<times> nat) option" where
  "mine_key lib r i msk difficulty priv_key max_attempts =
     (if max_attempts = - (2 ^ 31) then None
      else Some (mine_key_loop lib r msk difficulty (nat (max_attempts - 1)) i 0 priv_key))"

definition sign_hash :: "'k ec_library \<Rightarrow> string \<Rightarrow> string \<Rightarrow> string" where
  "sign_hash lib priv_key msg_hash = (let (sig, v) = ec_sign_recoverable lib msg_hash priv_key in sig @ [char_of ((v + 27) mod 256)])"

text \<open>The length of the serialised key with its first byte is used for the key without it: one byte too many.\<close>

definition gen_pub_key :: "'k ec_library \<Rightarrow> string \<Rightarrow> string option" where
  "gen_pub_key lib priv_key =
     (case ec_pubkey_create lib priv_key of
        None \<Rightarrow> Some []
      | Some k \<Rightarrow> let outLen = 65 in if 1 + outLen \<le> 65 then Some (take outLen (drop 1 (ec_pubkey_serialize lib k))) else None)"

text \<open>The line that is printed for a key, if any.\<close>

definition check_and_sign :: "'k ec_library \<Rightarrow> string \<Rightarrow> string \<Rightarrow> string option" where
  "check_and_sign lib priv_key address =
     (let rsv = sign_hash lib priv_key address in
      case ec_pubkey_create lib priv_key of
        None \<Rightarrow> None
      | Some k \<Rightarrow>
          let pub = ec_pubkey_serialize lib k
          in Some (''koh.claimSlot('' @ [CHR 0x27] @ ''0x'' @ bin2hex (take 32 (drop 1 pub)) @ [CHR 0x27] @ '', '' @
             [CHR 0x27] @ ''0x'' @ bin2hex (take 32 (drop 33 pub)) @ [CHR 0x27] @ '', '' @
             [CHR 0x27] @ ''0x'' @ bin2hex (take 1 (drop 64 rsv)) @ [CHR 0x27] @ '', '' @
             [CHR 0x27] @ ''0x'' @ bin2hex (take 32 rsv) @ [CHR 0x27] @ '', '' @
             [CHR 0x27] @ ''0x'' @ bin2hex (take 32 (drop 32 rsv)) @ [CHR 0x27] @ '')''))"

text \<open>Input into an array of 32 bytes, from its start or up to its end; \<open>None\<close> is a write past the array.\<close>

definition fill_front :: "string \<Rightarrow> string \<Rightarrow> string option" where
  "fill_front arr bin = (if length bin \<le> length arr then Some (bin @ drop (length bin) arr) else None)"

definition fill_back :: "string \<Rightarrow> string \<Rightarrow> string" where
  "fill_back arr bin = take (length arr - length bin) arr @ bin"

text \<open>One round of the loop of the program, with the default limit; the number of keys counts as success.\<close>

definition main_round ::
  "'k ec_library \<Rightarrow> (nat \<Rightarrow> nat) \<Rightarrow> nat \<Rightarrow> string \<Rightarrow> string \<Rightarrow> string \<Rightarrow> string \<Rightarrow> (string option \<times> string \<times> nat) option" where
  "main_round lib r i msk difficulty address priv_key =
     (case mine_key lib r i msk difficulty priv_key 100000 of
        None \<Rightarrow> None
      | Some (mined, priv_key, i) \<Rightarrow>
          Some (if mined \<noteq> 0 then check_and_sign lib priv_key address else None, priv_key, i))"

section \<open>Properties\<close>

definition valid_key :: "'k ec_library \<Rightarrow> string \<Rightarrow> bool" where
  "valid_key lib p \<longleftrightarrow> ec_pubkey_create lib p \<noteq> None"

definition meets :: "'k ec_library \<Rightarrow> string \<Rightarrow> string \<Rightarrow> string \<Rightarrow> bool" where
  "meets lib msk difficulty p \<longleftrightarrow>
     (case ec_pubkey_create lib p of None \<Rightarrow> False | Some k \<Rightarrow> memcmp_less difficulty (key_after_mask lib msk k))"

text \<open>The keys that are tried if none is found.\<close>

definition tried :: "(nat \<Rightarrow> nat) \<Rightarrow> nat \<Rightarrow> nat \<Rightarrow> string list" where
  "tried r i n = map (\<lambda>j. random_key r (i + 32 * j)) [0..<n]"

lemma tried_Suc: "tried r i (Suc n) = random_key r i # tried r (i + 32) n"
proof -
  have "[0..<Suc n] = 0 # map Suc [0..<n]" by (simp add: upt_conv_Cons map_Suc_upt del: upt_Suc)
  then show ?thesis by (simp add: tried_def algebra_simps del: upt_Suc)
qed

lemma mine_key_loop_spec:
  "mine_key_loop lib r msk difficulty n i g p =
     (let ks = tried r i n; bad = takeWhile (\<lambda>k. \<not> meets lib msk difficulty k) ks
      in if length bad < length ks
         then (g + length (filter (valid_key lib) bad) + 1, ks ! length bad, i + 32 * (length bad + 1))
         else (g + length (filter (valid_key lib) ks), last (p # ks), i + 32 * n))"
proof (induction n arbitrary: i g p)
  case 0
  then show ?case by (simp add: tried_def)
next
  case (Suc n)
  show ?case
  proof (cases "ec_pubkey_create lib (random_key r i)")
    case None
    with Suc [of "i + 32" g "random_key r i"] show ?thesis
      by (auto simp: tried_Suc meets_def valid_key_def Let_def algebra_simps)
  next
    case (Some k)
    with Suc [of "i + 32" "g + 1" "random_key r i"] show ?thesis
      by (auto simp: tried_Suc meets_def valid_key_def Let_def algebra_simps)
  qed
qed

text \<open>\<open>mine_key\<close> is a search: it stops at the first of the keys drawn that meets the difficulty, leaves that key in the
  buffer and counts the valid keys up to it; when none of the \<open>max_attempts - 1\<close> keys does, it leaves the last
  one and counts the valid ones, so that the caller cannot tell the two cases apart.\<close>

theorem mine_key_search:
  assumes "- (2 ^ 31) < max_attempts"
  shows "mine_key lib r i msk difficulty p max_attempts =
    (let ks = tried r i (nat (max_attempts - 1)) in
     case find (meets lib msk difficulty) ks of
       Some k \<Rightarrow> let bad = takeWhile (\<lambda>k. \<not> meets lib msk difficulty k) ks
         in Some (length (filter (valid_key lib) bad) + 1, k, i + 32 * (length bad + 1))
     | None \<Rightarrow> Some (length (filter (valid_key lib) ks), last (p # ks), i + 32 * length ks))"
proof -
  have find: "find P ks = (if length (takeWhile (\<lambda>x. \<not> P x) ks) < length ks then Some (ks ! length (takeWhile (\<lambda>x. \<not> P x) ks)) else None)"
    for P and ks :: "string list"
    by (induction ks) auto
  show ?thesis using assms by (simp add: mine_key_def mine_key_loop_spec find Let_def tried_def)
qed

text \<open>A library with one public key, for which every text is a private key.\<close>

definition sample_library :: "unit ec_library" where
  "sample_library = \<lparr>ec_pubkey_create = (\<lambda>_. Some ()), ec_pubkey_serialize = (\<lambda>_. replicate 65 (CHR 0x01)),
     ec_sign_recoverable = (\<lambda>_ _. (replicate 64 (CHR 0x02), 0))\<rparr>"

theorem mine_key_search_witness:
  "mine_key sample_library (\<lambda>_. 7) 0 (replicate 32 (CHR 0x00)) (replicate 32 (CHR 0x00)) [] 3 = Some (1, replicate 32 (CHR 0x07), 32)"
proof -
  let ?m = "replicate 32 (CHR 0x00)"
  have ks: "tried (\<lambda>_. 7) 0 2 = [replicate 32 (CHR 0x07), replicate 32 (CHR 0x07)]" by code_simp
  have "meets sample_library ?m ?m (replicate 32 (CHR 0x07))" by code_simp
  then show ?thesis using mine_key_search [of 3 sample_library "\<lambda>_. 7" 0 ?m ?m "[]"] by (simp add: ks)
qed

lemma memcmp_less_top: "memcmp_less (replicate n (CHR 0xFF)) x = False"
proof (induction n arbitrary: x)
  case (Suc n)
  have "\<not> (255 :: nat) < of_char c" for c
  proof -
    have "(of_char c :: nat) \<in> {0..<256}" unfolding range_nat_of_char [symmetric] by (rule rangeI)
    then have "(of_char c :: nat) < 256" unfolding atLeastLessThan_iff by (rule conjunct2)
    then show ?thesis by linarith
  qed
  then show ?case using Suc by (cases x) auto
qed simp

lemma last_tried: "0 < n \<Longrightarrow> last (p # tried r i n) = random_key r (i + 32 * (n - 1))"
  by (simp add: tried_def last_map)

text \<open>the program takes the number of keys for success: with a difficulty that no key can meet it still prints a claim,
  for the last key it has tried.\<close>

theorem miner_claims_unmined_key:
  assumes "valid_key lib (random_key r (i + 32 * 99998))"
  shows "\<exists>line p j. main_round lib r i msk (replicate 32 (CHR 0xFF)) address priv_key = Some (Some line, p, j) \<and>
    \<not> meets lib msk (replicate 32 (CHR 0xFF)) p"
proof -
  let ?d = "replicate 32 (CHR 0xFF)" and ?p = "random_key r (i + 32 * 99998)"
  have never: "\<not> meets lib msk ?d k" for k
    unfolding meets_def by (simp add: memcmp_less_top split: option.split)
  define n :: nat where "n = 99999"
  define ks where "ks = tried r i n"
  have n: "nat (100000 - 1) = n" by (simp add: n_def)
  have last: "last (priv_key # ks) = ?p" unfolding ks_def by (subst last_tried) (simp_all add: n_def)
  have "ks \<noteq> []" by (simp add: ks_def tried_def n_def)
  then have "?p \<in> set ks" using last last_in_set [of ks] by simp
  then have "filter (valid_key lib) ks \<noteq> []" using assms by (auto simp: filter_empty_conv)
  moreover have "mine_key lib r i msk ?d priv_key 100000 = Some (length (filter (valid_key lib) ks), ?p, i + 32 * n)"
  proof -
    have all: "takeWhile (\<lambda>k. \<not> meets lib msk ?d k) ks = ks" using never by (simp add: takeWhile_eq_all_conv)
    have "mine_key_loop lib r msk ?d n i 0 priv_key = (length (filter (valid_key lib) ks), last (priv_key # ks), i + 32 * n)"
      unfolding mine_key_loop_spec Let_def ks_def [symmetric] all by simp
    then show ?thesis unfolding last mine_key_def n by simp
  qed
  moreover obtain line where "check_and_sign lib ?p address = Some line"
    using assms by (auto simp: valid_key_def check_and_sign_def Let_def)
  ultimately show ?thesis using never by (simp add: main_round_def)
qed

theorem miner_claims_unmined_key_witness:
  "\<exists>line p j. main_round sample_library (\<lambda>_. 7) 0 (replicate 32 (CHR 0x00)) (replicate 32 (CHR 0xFF)) [] [] = Some (Some line, p, j)"
  using miner_claims_unmined_key [of sample_library "\<lambda>_. 7" 0 "replicate 32 (CHR 0x00)" "[]" "[]"]
  by (auto simp: valid_key_def sample_library_def)

end
