(* ===== verification/Tcp.thy ===== *)
theory Tcp
  imports Network Status Texts
begin

text \<open>
  Connections and acceptors over TCP, \<^verbatim>\<open>core/network/tcp_implementation.cc\<close>. The asio library starts operations on
  sockets and calls a function when one is completed; it is seen here through the operations that are pending, the
  completed ones whose functions have not been called, and the events that move an operation from the first list to
  the second. A call of an operation of the library, of the application or of the thread of the library is one step.
  What the application is told is returned by the step; what it does in return is in later steps.
\<close>

section \<open>State\<close>

text \<open>Error codes of the asio library. The message of a code belongs to the library and is a parameter.\<close>

datatype asio_error = Eof | Operation_aborted | Broken_pipe | Already_open | Other_error string

record tcp_connection =
  tc_id :: nat
  tc_handler :: "nat option"
  tc_address :: string
  tc_endpoint :: "string option"
  tc_open :: bool
  tc_state :: conn_state

record tcp_acceptor =
  ta_id :: nat
  ta_handler :: "nat option"
  ta_connections_handler :: "nat option"
  ta_address :: string
  ta_open :: bool
  ta_state :: acc_state

text \<open>
  The functions passed to the library, with the values they have captured: the object, the handler at the time of the
  call, the identifiers, and the buffer. What was asked of the library is kept with them.
\<close>

datatype tcp_callback =
    CB_connect nat "nat option" nat "string option"
  | CB_send nat "nat option" nat nat string
  | CB_read_some nat "nat option" nat nat nat nat
  | CB_read_exactly nat "nat option" nat nat nat nat nat
  | CB_accept nat "nat option" "nat option"

text \<open>
  What an operation completes with: nothing; the number of bytes written; the bytes read; an accepted socket with the address of its
  peer, unless the peer is gone when it is asked for; an error.
\<close>

datatype tcp_result = Established | Wrote nat | Got string | Peer "string option" | Fail asio_error

text \<open>Calls of the handlers of the application.\<close>

datatype tcp_call =
    Tcp_connected nat nat
  | Tcp_disconnected nat nat
  | Tcp_connection_error nat nat status
  | Tcp_message_sent nat nat nat status
  | Tcp_message_received nat nat nat nat nat
  | Tcp_requested nat nat string
  | Tcp_accepted nat nat nat string
  | Tcp_acceptor_error nat nat status

text \<open>
  The static variables with the objects. \<open>tcp_worker\<close> is the pointer to the thread and whether the thread can be
  joined; \<open>tcp_registered\<close> says that both factories of the type \<^verbatim>\<open>tcp\<close> are registered. A buffer has a number.
\<close>

record tcp =
  tcp_initialized :: bool
  tcp_worker :: "bool option"
  tcp_stopped :: bool
  tcp_registered :: bool
  tcp_conns :: "nat \<rightharpoonup> tcp_connection"
  tcp_accs :: "nat \<rightharpoonup> tcp_acceptor"
  tcp_next :: nat
  tcp_pending :: "tcp_callback list"
  tcp_ready :: "(tcp_callback \<times> tcp_result) list"
  tcp_buffers :: "nat \<Rightarrow> string"

type_synonym tcp_op = "(tcp \<times> tcp_call list) outcome"

definition tcp_start :: tcp where
  "tcp_start = \<lparr>tcp_initialized = False, tcp_worker = None, tcp_stopped = False, tcp_registered = False,
     tcp_conns = Map.empty, tcp_accs = Map.empty, tcp_next = 0, tcp_pending = [], tcp_ready = [],
     tcp_buffers = (\<lambda>_. [])\<rparr>"

text \<open>A call of a handler, which must not be a null pointer; one operation after another.\<close>

definition notify :: "nat option \<Rightarrow> (nat \<Rightarrow> tcp_call) \<Rightarrow> tcp \<Rightarrow> tcp_op" where
  "notify h f st = (case h of None \<Rightarrow> None | Some h \<Rightarrow> succeed (st, [f h]))"

definition next_op :: "tcp_op \<Rightarrow> (tcp \<Rightarrow> tcp_op) \<Rightarrow> tcp_op" where
  "next_op m f = and_then m (\<lambda>(st, cs). and_then (f st) (\<lambda>(st, ds). succeed (st, cs @ ds)))"

definition start_op :: "tcp_callback \<Rightarrow> tcp \<Rightarrow> tcp" where
  "start_op cb st = st\<lparr>tcp_pending := tcp_pending st @ [cb]\<rparr>"

fun cb_connection :: "tcp_callback \<Rightarrow> nat option" where
  "cb_connection (CB_connect c h i e) = Some c"
| "cb_connection (CB_send c h i mid m) = Some c"
| "cb_connection (CB_read_some c h i b sz r) = Some c"
| "cb_connection (CB_read_exactly c h i b sz n r) = Some c"
| "cb_connection (CB_accept a h k) = None"

fun cb_acceptor :: "tcp_callback \<Rightarrow> nat option" where
  "cb_acceptor (CB_accept a h k) = Some a"
| "cb_acceptor cb = None"

text \<open>Closing a socket completes its pending operations with an error.\<close>

definition abort_ops :: "(tcp_callback \<Rightarrow> bool) \<Rightarrow> tcp \<Rightarrow> tcp" where
  "abort_ops P st = st\<lparr>tcp_pending := filter (\<lambda>cb. \<not> P cb) (tcp_pending st),
     tcp_ready := tcp_ready st @ map (\<lambda>cb. (cb, Fail Operation_aborted)) (filter P (tcp_pending st))\<rparr>"

definition put_conn :: "nat \<Rightarrow> tcp_connection \<Rightarrow> tcp \<Rightarrow> tcp" where
  "put_conn c k st = st\<lparr>tcp_conns := (tcp_conns st)(c \<mapsto> k)\<rparr>"

definition put_acc :: "nat \<Rightarrow> tcp_acceptor \<Rightarrow> tcp \<Rightarrow> tcp" where
  "put_acc a k st = st\<lparr>tcp_accs := (tcp_accs st)(a \<mapsto> k)\<rparr>"

section \<open>Addresses\<close>

text \<open>
  The regular expression has a host of at least two groups of digits with dots between them, or of at least two groups
  of lower case hexadecimal digits with colons between them, a colon and the digits of a port.
\<close>

definition hex_lower :: "char \<Rightarrow> bool" where
  "hex_lower c = (dec_digit c \<or> (97 \<le> (of_char c :: nat) \<and> (of_char c :: nat) \<le> 102))"

fun split_on :: "char \<Rightarrow> string \<Rightarrow> string list" where
  "split_on d [] = [[]]"
| "split_on d (c # s) = (if c = d then [] # split_on d s else (c # hd (split_on d s)) # tl (split_on d s))"

definition groups_of :: "(char \<Rightarrow> bool) \<Rightarrow> char \<Rightarrow> string \<Rightarrow> bool" where
  "groups_of P d s = (2 \<le> length (split_on d s) \<and> list_all (\<lambda>g. g \<noteq> [] \<and> list_all P g) (split_on d s))"

definition parse_address :: "string \<Rightarrow> string \<times> string" where
  "parse_address address =
     (let port = rev (takeWhile (\<lambda>c. c \<noteq> CHR '':'') (rev address));
          host = rev (drop 1 (dropWhile (\<lambda>c. c \<noteq> CHR '':'') (rev address)))
      in if (groups_of dec_digit (CHR ''.'') host \<or> groups_of hex_lower (CHR '':'') host) \<and>
            port \<noteq> [] \<and> list_all dec_digit port
         then (host, port) else ([], []))"

text \<open>
  What the operating system answers: the endpoint of a host and a port; the errors of opening, binding and listening;
  the address that a bound acceptor has.
\<close>

record tcp_os =
  os_resolve :: "string \<Rightarrow> string \<Rightarrow> asio_error + string"
  os_open :: "asio_error option"
  os_bind :: "string \<Rightarrow> asio_error option"
  os_local :: "asio_error + string"
  os_listen :: "asio_error option"

section \<open>Connections\<close>

definition tcp_connection_new :: "nat \<Rightarrow> string \<Rightarrow> nat option \<Rightarrow> tcp \<Rightarrow> (tcp \<times> nat) outcome" where
  "tcp_connection_new i address handler st =
     (if \<not> tcp_initialized st then Some (throw (Runtime_error ''TCP is not initialized! Call tcp_init() first!''))
      else succeed (put_conn (tcp_next st) \<lparr>tc_id = i, tc_handler = handler, tc_address = address, tc_endpoint = None,
              tc_open = False, tc_state = Invalid_state\<rparr> (st\<lparr>tcp_next := Suc (tcp_next st)\<rparr>), tcp_next st))"

text \<open>The constructor for the socket of an acceptor.\<close>

definition tcp_connection_accepted :: "nat \<Rightarrow> string \<Rightarrow> nat option \<Rightarrow> tcp \<Rightarrow> tcp \<times> nat" where
  "tcp_connection_accepted i address handler st =
     (put_conn (tcp_next st) \<lparr>tc_id = i, tc_handler = handler, tc_address = address, tc_endpoint = None,
        tc_open = True, tc_state = Connected\<rparr> (st\<lparr>tcp_next := Suc (tcp_next st)\<rparr>), tcp_next st)"

text \<open>
  The destructor runs when no pointer is left; a function that captured the object keeps one, so that no
  operation is pending then and closing the socket tells nobody.
\<close>

definition tcp_connection_delete :: "nat \<Rightarrow> tcp \<Rightarrow> tcp" where
  "tcp_connection_delete c st =
     (if list_ex (\<lambda>cb. cb_connection cb = Some c) (tcp_pending st @ map fst (tcp_ready st)) then st
      else st\<lparr>tcp_conns := (tcp_conns st)(c := None)\<rparr>)"

definition tcp_connection_init :: "tcp_os \<Rightarrow> nat \<Rightarrow> tcp \<Rightarrow> (tcp \<times> bool) outcome" where
  "tcp_connection_init os c st =
     (case tcp_conns st c of
        None \<Rightarrow> None
      | Some k \<Rightarrow>
          if tcp_initialized st then
            (case os_resolve os (fst (parse_address (tc_address k))) (snd (parse_address (tc_address k))) of
               Inl e \<Rightarrow> succeed (st, False)
             | Inr ep \<Rightarrow> succeed (put_conn c (k\<lparr>tc_endpoint := Some ep, tc_state := Disconnected\<rparr>) st, True))
          else succeed (st, False))"

definition tcp_connect :: "nat \<Rightarrow> tcp \<Rightarrow> tcp_op" where
  "tcp_connect c st =
     (case tcp_conns st c of
        None \<Rightarrow> None
      | Some k \<Rightarrow>
          if tcp_initialized st then
            (if tc_state k = Disconnected then
               succeed (start_op (CB_connect c (tc_handler k) (tc_id k) (tc_endpoint k))
                 (put_conn c (k\<lparr>tc_state := Connecting, tc_open := True\<rparr>) st), [])
             else succeed (st, []))
          else notify (tc_handler k) (\<lambda>h. Tcp_connection_error h (tc_id k) (status_unknown
                 (tc_address k @ '' -> '' @ ''Not initialized! tcp_init() must be called first''))) st)"

definition tcp_async_send :: "nat \<Rightarrow> string \<Rightarrow> nat \<Rightarrow> tcp \<Rightarrow> tcp_op" where
  "tcp_async_send c message mid st =
     (case tcp_conns st c of
        None \<Rightarrow> None
      | Some k \<Rightarrow>
          let failed = (\<lambda>s. notify (tc_handler k) (\<lambda>h. Tcp_message_sent h (tc_id k) mid s) st) in
          if tcp_initialized st \<and> tc_open k \<and> message \<noteq> [] then
            succeed (start_op (CB_send c (tc_handler k) (tc_id k) mid message) st, [])
          else if \<not> tcp_initialized st then failed (status_internal ''Not initialized'')
          else if message = [] then failed (status_invalid_argument ''Message too short'')
          else failed (status_internal ''Socket closed or not yet connected''))"

definition tcp_async_read :: "nat \<Rightarrow> nat \<Rightarrow> nat \<Rightarrow> nat \<Rightarrow> nat \<Rightarrow> tcp \<Rightarrow> tcp_op" where
  "tcp_async_read c buffer buffer_size num_bytes read_id st =
     (case tcp_conns st c of
        None \<Rightarrow> None
      | Some k \<Rightarrow>
          let failed = (\<lambda>s. notify (tc_handler k) (\<lambda>h. Tcp_connection_error h (tc_id k) s) st) in
          if tcp_initialized st \<and> tc_open k then
            (if num_bytes = 0 then
               succeed (start_op (CB_read_some c (tc_handler k) (tc_id k) buffer buffer_size read_id) st, [])
             else succeed (start_op
               (CB_read_exactly c (tc_handler k) (tc_id k) buffer buffer_size num_bytes read_id) st, []))
          else if \<not> tcp_initialized st then failed (status_internal ''Not initialized'')
          else failed (status_internal ''Socket closed''))"

definition tcp_disconnect :: "nat \<Rightarrow> tcp \<Rightarrow> tcp_op" where
  "tcp_disconnect c st =
     (case tcp_conns st c of
        None \<Rightarrow> None
      | Some k \<Rightarrow>
          if tc_open k then
            notify (tc_handler k) (\<lambda>h. Tcp_disconnected h (tc_id k))
              (abort_ops (\<lambda>cb. cb_connection cb = Some c)
                 (put_conn c (k\<lparr>tc_state := Disconnected, tc_open := False\<rparr>) st))
          else succeed (put_conn c (k\<lparr>tc_state := Disconnected\<rparr>) st, []))"

definition tcp_add_handler :: "nat \<Rightarrow> nat option \<Rightarrow> tcp \<Rightarrow> tcp_op" where
  "tcp_add_handler c handler st =
     (case tcp_conns st c of
        None \<Rightarrow> None
      | Some k \<Rightarrow> succeed (put_conn c (k\<lparr>tc_handler := handler\<rparr>) st, []))"

definition tcp_set_state :: "nat \<Rightarrow> conn_state \<Rightarrow> tcp \<Rightarrow> tcp_op" where
  "tcp_set_state c s st =
     (case tcp_conns st c of
        None \<Rightarrow> None
      | Some k \<Rightarrow> succeed (put_conn c (k\<lparr>tc_state := s\<rparr>) st, []))"

section \<open>Acceptors\<close>

definition tcp_acceptor_new :: "nat \<Rightarrow> string \<Rightarrow> nat option \<Rightarrow> nat option \<Rightarrow> tcp \<Rightarrow> (tcp \<times> nat) outcome" where
  "tcp_acceptor_new i address handler connections_handler st =
     (if \<not> tcp_initialized st then Some (throw (Runtime_error ''TCP is not initialized! Call tcp_init() first!''))
      else succeed (put_acc (tcp_next st) \<lparr>ta_id = i, ta_handler = handler, ta_connections_handler = connections_handler,
              ta_address = address, ta_open = False, ta_state = Acc_invalid_state\<rparr>
              (st\<lparr>tcp_next := Suc (tcp_next st)\<rparr>), tcp_next st))"

definition tcp_acceptor_delete :: "nat \<Rightarrow> tcp \<Rightarrow> tcp" where
  "tcp_acceptor_delete a st =
     (if list_ex (\<lambda>cb. cb_acceptor cb = Some a) (tcp_pending st @ map fst (tcp_ready st)) then st
      else st\<lparr>tcp_accs := (tcp_accs st)(a := None)\<rparr>)"

text \<open>
  Opening, asking for the own address and listening throw an exception on an error; an acceptor that is open
  cannot be opened again. When binding fails the acceptor stays open.
\<close>

definition tcp_acceptor_init :: "(asio_error \<Rightarrow> string) \<Rightarrow> tcp_os \<Rightarrow> nat \<Rightarrow> tcp \<Rightarrow> (tcp \<times> bool) outcome" where
  "tcp_acceptor_init message os a st =
     (case tcp_accs st a of
        None \<Rightarrow> None
      | Some k \<Rightarrow>
          let failed = (\<lambda>e. Some (throw (Runtime_error (message e)))) in
          if tcp_initialized st then
            (case os_resolve os (fst (parse_address (ta_address k))) (snd (parse_address (ta_address k))) of
               Inl e \<Rightarrow> succeed (st, False)
             | Inr ep \<Rightarrow>
                 if ta_open k then failed Already_open
                 else (case os_open os of
                   Some e \<Rightarrow> failed e
                 | None \<Rightarrow>
                     (case os_bind os ep of
                        Some e \<Rightarrow> succeed (put_acc a (k\<lparr>ta_open := True\<rparr>) st, False)
                      | None \<Rightarrow>
                          (case os_local os of
                             Inl e \<Rightarrow> failed e
                           | Inr address \<Rightarrow>
                               (case os_listen os of
                                  Some e \<Rightarrow> failed e
                                | None \<Rightarrow> succeed (put_acc a (k\<lparr>ta_open := True, ta_address := address\<rparr>) st, True))))))
          else succeed (st, False))"

definition tcp_start_accepting :: "nat \<Rightarrow> tcp \<Rightarrow> tcp_op" where
  "tcp_start_accepting a st =
     (case tcp_accs st a of
        None \<Rightarrow> None
      | Some k \<Rightarrow>
          if tcp_initialized st \<and> ta_open k then
            succeed (start_op (CB_accept a (ta_handler k) (ta_connections_handler k))
              (put_acc a (k\<lparr>ta_state := Accepting\<rparr>) st), [])
          else if \<not> tcp_initialized st then
            notify (ta_handler k) (\<lambda>h. Tcp_acceptor_error h (ta_id k) (status_internal ''Not initialized'')) st
          else notify (ta_handler k) (\<lambda>h. Tcp_acceptor_error h (ta_id k) (status_internal ''Acceptor closed!'')) st)"

definition tcp_stop_accepting :: "nat \<Rightarrow> tcp \<Rightarrow> tcp_op" where
  "tcp_stop_accepting a st =
     (case tcp_accs st a of
        None \<Rightarrow> None
      | Some k \<Rightarrow>
          if ta_open k then
            succeed (abort_ops (\<lambda>cb. cb_acceptor cb = Some a) (put_acc a (k\<lparr>ta_open := False\<rparr>) st), [])
          else succeed (st, []))"

definition acc_set_state :: "nat \<Rightarrow> acc_state \<Rightarrow> tcp \<Rightarrow> tcp_op" where
  "acc_set_state a s st =
     (case tcp_accs st a of
        None \<Rightarrow> None
      | Some k \<Rightarrow> succeed (put_acc a (k\<lparr>ta_state := s\<rparr>) st, []))"

section \<open>Completions\<close>

text \<open>
  The functions passed to the library. \<open>answer\<close> is what \<^verbatim>\<open>on_requested\<close> of the application returns: the identifier
  for a connection it accepts. An exception in one of them ends the program.
\<close>

fun tcp_complete ::
  "(asio_error \<Rightarrow> string) \<Rightarrow> (string \<Rightarrow> nat option) \<Rightarrow> tcp_callback \<Rightarrow> tcp_result \<Rightarrow> tcp \<Rightarrow> tcp_op" where
  "tcp_complete message answer (CB_connect c h cid ep) (Fail e) st =
     next_op (tcp_disconnect c st) (notify h (\<lambda>h. Tcp_connection_error h cid (status_unknown (message e))))"
| "tcp_complete message answer (CB_connect c h cid ep) Established st =
     next_op (tcp_set_state c Connected st) (notify h (\<lambda>h. Tcp_connected h cid))"
| "tcp_complete message answer (CB_send c h cid mid m) (Fail e) st =
     (if e = Broken_pipe then
        next_op (notify h (\<lambda>h. Tcp_message_sent h cid mid (status_aborted (message e))) st) (tcp_disconnect c)
      else if e = Operation_aborted then
        notify h (\<lambda>h. Tcp_message_sent h cid mid (status_aborted ''Operation cancelled!'')) st
      else notify h (\<lambda>h. Tcp_message_sent h cid mid (status_unknown (message e))) st)"
| "tcp_complete message answer (CB_send c h cid mid m) (Wrote n) st =
     notify h (\<lambda>h. Tcp_message_sent h cid mid status_ok) st"
| "tcp_complete message answer (CB_read_some c h cid buffer sz rid) (Fail e) st =
     (if e = Eof then
        next_op (notify h (\<lambda>h. Tcp_connection_error h cid (status_aborted ''Peer has closed the connection'')) st)
          (tcp_disconnect c)
      else if e = Operation_aborted then
        notify h (\<lambda>h. Tcp_connection_error h cid (status_aborted ''Operation cancelled!'')) st
      else notify h (\<lambda>h. Tcp_connection_error h cid (status_unknown (message e))) st)"
| "tcp_complete message answer (CB_read_some c h cid buffer sz rid) (Got b) st =
     notify h (\<lambda>h. Tcp_message_received h cid buffer (length b) rid) st"
| "tcp_complete message answer (CB_read_exactly c h cid buffer sz n rid) (Fail e) st =
     (if e = Eof then tcp_disconnect c st
      else if e = Operation_aborted then succeed (st, [])
      else notify h (\<lambda>h. Tcp_connection_error h cid (status_unknown (message e))) st)"
| "tcp_complete message answer (CB_read_exactly c h cid buffer sz n rid) (Got b) st =
     notify h (\<lambda>h. Tcp_message_received h cid buffer (length b) rid) st"
| "tcp_complete message answer (CB_accept a h k) (Peer (Some address)) st =
     (case tcp_accs st a of
        None \<Rightarrow> None
      | Some acc \<Rightarrow>
          next_op (notify h (\<lambda>h. Tcp_requested h (ta_id acc) address) st)
            (\<lambda>st. next_op
               (case answer address of
                  None \<Rightarrow> succeed (st, [])
                | Some cid \<Rightarrow>
                    (case tcp_connection_accepted cid address k st of (st, c) \<Rightarrow>
                       next_op (notify h (\<lambda>h. Tcp_accepted h (ta_id acc) c address) st)
                         (\<lambda>st. case k of None \<Rightarrow> succeed (st, []) | Some k \<Rightarrow> succeed (st, [Tcp_connected k cid]))))
               (tcp_start_accepting a)))"
| "tcp_complete message answer (CB_accept a h k) (Fail e) st =
     (case tcp_accs st a of
        None \<Rightarrow> None
      | Some acc \<Rightarrow>
          next_op (acc_set_state a Not_accepting st)
            (\<lambda>st. if e = Operation_aborted then succeed (st, [])
                  else notify h (\<lambda>h. Tcp_acceptor_error h (ta_id acc) (status_unknown (message e))) st))"
| "tcp_complete message answer cb r st = None"

section \<open>The library\<close>

text \<open>
  What an operation can complete with: a write of some bytes writes at least one; a read of some bytes gives at
  least one and no more than the buffer takes; an exact read gives the number asked for, or as much as the buffer takes.
\<close>

fun result_of :: "tcp_callback \<Rightarrow> tcp_result \<Rightarrow> bool" where
  "result_of cb (Fail e) = True"
| "result_of (CB_connect c h i ep) Established = True"
| "result_of (CB_send c h i mid m) (Wrote n) = (0 < n \<and> n \<le> length m)"
| "result_of (CB_read_some c h i buf sz r) (Got b) = (length b \<le> sz \<and> (sz = 0 \<or> b \<noteq> []))"
| "result_of (CB_read_exactly c h i buf sz n r) (Got b) = (length b = min n sz)"
| "result_of (CB_accept a h k) (Peer p) = True"
| "result_of cb r = False"

fun store_read :: "tcp_callback \<Rightarrow> tcp_result \<Rightarrow> tcp \<Rightarrow> tcp" where
  "store_read (CB_read_some c h i buf sz r) (Got b) st =
     st\<lparr>tcp_buffers := (tcp_buffers st)(buf := b @ drop (length b) (tcp_buffers st buf))\<rparr>"
| "store_read (CB_read_exactly c h i buf sz n r) (Got b) st =
     st\<lparr>tcp_buffers := (tcp_buffers st)(buf := b @ drop (length b) (tcp_buffers st buf))\<rparr>"
| "store_read cb r st = st"

definition finish_op :: "nat \<Rightarrow> tcp_result \<Rightarrow> tcp \<Rightarrow> tcp" where
  "finish_op n r st =
     (if n < length (tcp_pending st) \<and> result_of (tcp_pending st ! n) r
      then let cb = tcp_pending st ! n in
        store_read cb r (st\<lparr>tcp_pending := take n (tcp_pending st) @ drop (Suc n) (tcp_pending st),
          tcp_ready := tcp_ready st @ [(cb, r)]\<rparr>)
      else st)"

text \<open>One thread runs the completed operations in their order, until the library is stopped.\<close>

definition tcp_running :: "tcp \<Rightarrow> bool" where
  "tcp_running st = (tcp_worker st = Some True \<and> \<not> tcp_stopped st)"

definition run_ready :: "(asio_error \<Rightarrow> string) \<Rightarrow> (string \<Rightarrow> nat option) \<Rightarrow> tcp \<Rightarrow> tcp_op" where
  "run_ready message answer st =
     (case tcp_ready st of
        (cb, r) # rs \<Rightarrow>
          if tcp_running st then
            (case tcp_complete message answer cb r (st\<lparr>tcp_ready := rs\<rparr>) of
               Some (Inr x) \<Rightarrow> succeed x | _ \<Rightarrow> None)
          else succeed (st, [])
      | [] \<Rightarrow> succeed (st, []))"

section \<open>Global functions\<close>

definition tcp_init :: "tcp \<Rightarrow> tcp" where
  "tcp_init st =
     (if tcp_initialized st then st
      else st\<lparr>tcp_registered := True, tcp_worker := Some True, tcp_initialized := True\<rparr>)"

text \<open>The pointer to the thread is null before the first start; a thread cannot be joined twice.\<close>

definition tcp_release :: "tcp \<Rightarrow> tcp outcome" where
  "tcp_release st =
     (case tcp_worker st of
        None \<Rightarrow> None
      | Some False \<Rightarrow> Some (throw (Runtime_error ''Invalid argument''))
      | Some True \<Rightarrow> succeed (st\<lparr>tcp_stopped := True, tcp_worker := Some False, tcp_initialized := False\<rparr>))"

section \<open>Runs\<close>

datatype tcp_event =
    Ev_tcp_init
  | Ev_tcp_release
  | Ev_new_connection nat string "nat option"
  | Ev_delete_connection nat
  | Ev_init tcp_os nat
  | Ev_connect nat
  | Ev_send nat string nat
  | Ev_read nat nat nat nat nat
  | Ev_disconnect nat
  | Ev_add_handler nat "nat option"
  | Ev_new_acceptor nat string "nat option" "nat option"
  | Ev_delete_acceptor nat
  | Ev_acceptor_init tcp_os nat
  | Ev_start_accepting nat
  | Ev_stop_accepting nat
  | Ev_finish nat tcp_result
  | Ev_run "string \<Rightarrow> nat option"

fun tcp_step :: "(asio_error \<Rightarrow> string) \<Rightarrow> tcp_event \<Rightarrow> tcp \<Rightarrow> tcp_op" where
  "tcp_step message Ev_tcp_init st = succeed (tcp_init st, [])"
| "tcp_step message Ev_tcp_release st = and_then (tcp_release st) (\<lambda>st. succeed (st, []))"
| "tcp_step message (Ev_new_connection i address h) st =
     and_then (tcp_connection_new i address h st) (\<lambda>(st, c). succeed (st, []))"
| "tcp_step message (Ev_delete_connection c) st = succeed (tcp_connection_delete c st, [])"
| "tcp_step message (Ev_init os c) st = and_then (tcp_connection_init os c st) (\<lambda>(st, b). succeed (st, []))"
| "tcp_step message (Ev_connect c) st = tcp_connect c st"
| "tcp_step message (Ev_send c m mid) st = tcp_async_send c m mid st"
| "tcp_step message (Ev_read c buf sz n r) st = tcp_async_read c buf sz n r st"
| "tcp_step message (Ev_disconnect c) st = tcp_disconnect c st"
| "tcp_step message (Ev_add_handler c h) st = tcp_add_handler c h st"
| "tcp_step message (Ev_new_acceptor i address h k) st =
     and_then (tcp_acceptor_new i address h k st) (\<lambda>(st, a). succeed (st, []))"
| "tcp_step message (Ev_delete_acceptor a) st = succeed (tcp_acceptor_delete a st, [])"
| "tcp_step message (Ev_acceptor_init os a) st =
     and_then (tcp_acceptor_init message os a st) (\<lambda>(st, b). succeed (st, []))"
| "tcp_step message (Ev_start_accepting a) st = tcp_start_accepting a st"
| "tcp_step message (Ev_stop_accepting a) st = tcp_stop_accepting a st"
| "tcp_step message (Ev_finish n r) st = succeed (finish_op n r st, [])"
| "tcp_step message (Ev_run answer) st = run_ready message answer st"

primrec tcp_run :: "(asio_error \<Rightarrow> string) \<Rightarrow> tcp_event list \<Rightarrow> tcp \<Rightarrow> tcp_op" where
  "tcp_run message [] st = succeed (st, [])"
| "tcp_run message (e # es) st = next_op (tcp_step message e st) (tcp_run message es)"

end
