(* ===== verification/Tcp_Address.thy ===== *)
theory Tcp_Address
  imports Tcp
begin

text \<open>
  The parsing of addresses is that of the regular expression in \<^verbatim>\<open>parse_address\<close> of
  \<^verbatim>\<open>core/network/tcp_implementation.cc\<close>, for which this theory has the words that a regular expression matches.
\<close>

datatype rexp = Class "char \<Rightarrow> bool" | Seq rexp rexp | Alt rexp rexp | Plus rexp

inductive matches :: "rexp \<Rightarrow> string \<Rightarrow> bool" where
  m_class: "P c \<Longrightarrow> matches (Class P) [c]"
| m_seq: "matches r s \<Longrightarrow> matches q t \<Longrightarrow> matches (Seq r q) (s @ t)"
| m_left: "matches r s \<Longrightarrow> matches (Alt r q) s"
| m_right: "matches q s \<Longrightarrow> matches (Alt r q) s"
| m_one: "matches r s \<Longrightarrow> matches (Plus r) s"
| m_more: "matches r s \<Longrightarrow> matches (Plus r) t \<Longrightarrow> matches (Plus r) (s @ t)"

inductive_simps matches_class: "matches (Class P) s"
inductive_simps matches_seq: "matches (Seq r q) s"
inductive_simps matches_alt: "matches (Alt r q) s"

text \<open>Groups of one class with a separator after each but the last.\<close>

definition rgx_groups :: "(char \<Rightarrow> bool) \<Rightarrow> char \<Rightarrow> rexp" where
  "rgx_groups P d = Seq (Plus (Seq (Plus (Class P)) (Class ((=) d)))) (Plus (Class P))"

definition rgx_host :: rexp where
  "rgx_host = Alt (rgx_groups dec_digit (CHR ''.'')) (rgx_groups hex_lower (CHR '':''))"

definition rgx_port :: rexp where
  "rgx_port = Plus (Class dec_digit)"

lemma matches_plus_class: "matches (Plus (Class P)) s \<longleftrightarrow> s \<noteq> [] \<and> list_all P s"
proof
  assume "matches (Plus (Class P)) s"
  then show "s \<noteq> [] \<and> list_all P s"
    by (induction "Plus (Class P)" s) (auto simp: matches_class)
next
  assume "s \<noteq> [] \<and> list_all P s"
  then show "matches (Plus (Class P)) s"
  proof (induction s)
    case (Cons c s)
    then have "matches (Class P) [c]" by (simp add: matches_class)
    with Cons show ?case using m_more [of "Class P" "[c]" s] by (cases s) (auto intro: m_one)
  qed simp
qed

lemma split_on_nonempty [simp]: "split_on d s \<noteq> []"
  by (cases s) auto

lemma split_on_append [simp]: "d \<notin> set g \<Longrightarrow> split_on d (g @ d # s) = g # split_on d s"
  by (induction g) auto

lemma split_on_single: "d \<notin> set g \<Longrightarrow> split_on d g = [g]"
  by (induction g) auto

lemma split_on_join: "s = concat (map (\<lambda>g. g @ [d]) (butlast (split_on d s))) @ last (split_on d s)"
proof (induction s)
  case (Cons c s)
  show ?case
  proof (cases "split_on d s")
    case (Cons g gs)
    with Cons.IH show ?thesis by (cases gs) auto
  qed simp
qed simp

lemma class_no_separator: "\<not> P d \<Longrightarrow> list_all P g \<Longrightarrow> d \<notin> set g"
  by (auto simp: list_all_iff)

lemma matches_groups:
  assumes "\<not> P d"
  shows "matches (rgx_groups P d) s \<longleftrightarrow> groups_of P d s"
proof
  let ?g = "Seq (Plus (Class P)) (Class ((=) d))"
  have no: "d \<notin> set g" if "list_all P g" for g using assms that by (rule class_no_separator)
  have first: "split_on d (u @ t) = butlast (split_on d u) @ split_on d t \<and> butlast (split_on d u) \<noteq> [] \<and>
      list_all (\<lambda>g. g \<noteq> [] \<and> list_all P g) (butlast (split_on d u))" if "matches (Plus ?g) u" for u t
    using that
  proof (induction "Plus ?g" u arbitrary: t)
    case (m_one u)
    then obtain g where "u = g @ [d]" "g \<noteq> []" "list_all P g"
      by (auto simp: matches_seq matches_plus_class matches_class)
    with no show ?case by simp
  next
    case (m_more u v)
    then obtain g where g: "u = g @ [d]" "g \<noteq> []" "list_all P g"
      by (auto simp: matches_seq matches_plus_class matches_class)
    with no m_more show ?case by simp
  qed
  assume "matches (rgx_groups P d) s"
  then obtain u t where "s = u @ t" "matches (Plus ?g) u" "t \<noteq> []" "list_all P t"
    by (auto simp: rgx_groups_def matches_seq [of "Plus _"] matches_plus_class)
  with first [of u t] split_on_single [OF no] show "groups_of P d s"
    by (cases "butlast (split_on d u)") (auto simp: groups_of_def)
next
  let ?g = "Seq (Plus (Class P)) (Class ((=) d))"
  have plus: "matches (Plus ?g) (concat (map (\<lambda>g. g @ [d]) gs))"
    if "gs \<noteq> []" "list_all (\<lambda>g. g \<noteq> [] \<and> list_all P g) gs" for gs
    using that
  proof (induction gs)
    case (Cons g gs)
    then have "matches ?g (g @ [d])" by (intro m_seq) (auto simp: matches_plus_class matches_class)
    with Cons show ?case using m_more [of ?g "g @ [d]"] by (cases gs) (auto intro: m_one)
  qed simp
  assume "groups_of P d s"
  then have g: "2 \<le> length (split_on d s)" "list_all (\<lambda>g. g \<noteq> [] \<and> list_all P g) (split_on d s)"
    by (simp_all add: groups_of_def)
  have "butlast (split_on d s) \<noteq> []" using g(1) by (cases "split_on d s") auto
  moreover have "list_all (\<lambda>g. g \<noteq> [] \<and> list_all P g) (butlast (split_on d s))"
    "last (split_on d s) \<noteq> [] \<and> list_all P (last (split_on d s))"
    using g(2) last_in_set [of "split_on d s"] by (auto simp: list_all_iff dest: in_set_butlastD)
  ultimately have "matches (rgx_groups P d)
      (concat (map (\<lambda>g. g @ [d]) (butlast (split_on d s))) @ last (split_on d s))"
    unfolding rgx_groups_def by (intro m_seq plus) (simp_all add: matches_plus_class)
  then show "matches (rgx_groups P d) s" using split_on_join [of s d] by simp
qed

definition address_parts :: "string \<Rightarrow> string \<Rightarrow> string \<Rightarrow> bool" where
  "address_parts a h p = (a = h @ CHR '':'' # p \<and> matches rgx_host h \<and> matches rgx_port p)"

lemma matches_rgx_host:
  "matches rgx_host h \<longleftrightarrow> groups_of dec_digit (CHR ''.'') h \<or> groups_of hex_lower (CHR '':'') h"
  by (simp add: rgx_host_def matches_alt matches_groups dec_digit_def hex_lower_def)

lemma last_colon:
  assumes "CHR '':'' \<notin> set p"
  shows "takeWhile (\<lambda>c. c \<noteq> CHR '':'') (rev (h @ CHR '':'' # p)) = rev p"
    and "dropWhile (\<lambda>c. c \<noteq> CHR '':'') (rev (h @ CHR '':'' # p)) = CHR '':'' # rev h"
  using assms by (auto simp: takeWhile_append dropWhile_append)

lemma parse_address_parts:
  assumes "address_parts a h p"
  shows "parse_address a = (h, p)"
proof -
  from assms have a: "a = h @ CHR '':'' # p" and h: "matches rgx_host h" and p: "p \<noteq> []" "list_all dec_digit p"
    by (auto simp: address_parts_def rgx_port_def matches_plus_class)
  have "CHR '':'' \<notin> set p" using class_no_separator [of dec_digit "CHR '':''" p] p(2) by (simp add: dec_digit_def)
  from last_colon [OF this, of h] show ?thesis
    using h p unfolding a by (simp add: parse_address_def matches_rgx_host del: rev_append)
qed

lemma parse_address_sound:
  assumes "parse_address a \<noteq> ([], [])"
  shows "address_parts a (fst (parse_address a)) (snd (parse_address a))"
proof -
  let ?c = "\<lambda>c. c \<noteq> CHR '':''"
  let ?h = "rev (drop 1 (dropWhile ?c (rev a)))" and ?p = "rev (takeWhile ?c (rev a))"
  have eq: "parse_address a = (?h, ?p)" and h: "matches rgx_host ?h" and p: "matches rgx_port ?p"
    using assms by (auto simp: parse_address_def Let_def matches_rgx_host rgx_port_def matches_plus_class split: if_splits)
  have "?h \<noteq> []" using h by (auto simp: matches_rgx_host groups_of_def)
  then obtain x xs where x: "dropWhile ?c (rev a) = x # xs" by (cases "dropWhile ?c (rev a)") auto
  then have "x = CHR '':''" using hd_dropWhile [of ?c "rev a"] by auto
  have "rev a = takeWhile ?c (rev a) @ CHR '':'' # xs" using takeWhile_dropWhile_id [of ?c "rev a"] x \<open>x = CHR '':''\<close> by simp
  then have "a = rev (takeWhile ?c (rev a) @ CHR '':'' # xs)" by (metis rev_rev_ident)
  then have "a = ?h @ CHR '':'' # ?p" using x by simp
  with eq h p show ?thesis by (simp add: address_parts_def)
qed

text \<open>
  C35: The parsing of an address gives exactly the two groups that the regular expression matches, and two empty texts
  when it does not match.
\<close>

theorem parse_address_regex:
  "parse_address a = (h, p) \<longleftrightarrow>
     (if \<exists>h p. address_parts a h p then address_parts a h p else h = [] \<and> p = [])"
proof (cases "\<exists>h p. address_parts a h p")
  case True
  then obtain h' p' where "address_parts a h' p'" by blast
  then show ?thesis using parse_address_parts [of a] by (metis Pair_inject)
next
  case False
  then have "parse_address a = ([], [])" using parse_address_sound [of a] by blast
  with False show ?thesis by auto
qed

end
