(* ===== verification/Tcp_Defects.thy ===== *)
theory Tcp_Defects
  imports Tcp_Properties
begin

text \<open>
  Where connections and acceptors over TCP do not do what they promise: functions of operations that belong to the
  past act on the present connection, a part of a message counts as the message, and after \<^verbatim>\<open>tcp_release\<close> nothing is
  answered any more, not even when \<^verbatim>\<open>tcp_init\<close> is called again.
\<close>

section \<open>Operations of the past\<close>

text \<open>
  An application that gives up an attempt to connect and starts another one. No operation fails, yet the second attempt is broken off as well:
  the function of the first one, which tells of the interruption, disconnects the connection.
\<close>

theorem reconnect_broken_off:
  assumes "tcp_initialized st" and "tcp_running st" and "tcp_ready st = []"
    and "\<forall>cb \<in> set (tcp_pending st). cb_connection cb \<noteq> Some c"
    and "tcp_conns st c = Some k" and "tc_state k = Disconnected" and "tc_handler k = Some h"
  shows "\<exists>st' k'. tcp_run message [Ev_connect c, Ev_disconnect c, Ev_connect c, Ev_run answer, Ev_run answer] st =
      Some (Inr (st', [Tcp_disconnected h (tc_id k), Tcp_disconnected h (tc_id k),
        Tcp_connection_error h (tc_id k) (status_unknown (message Operation_aborted)),
        Tcp_connection_error h (tc_id k) (status_unknown (message Operation_aborted))])) \<and>
    tcp_conns st' c = Some k' \<and> tc_state k' = Disconnected \<and> \<not> tc_open k'"
proof -
  have "filter (\<lambda>cb. cb_connection cb = Some c) (tcp_pending st) = []"
    "filter (\<lambda>cb. cb_connection cb \<noteq> Some c) (tcp_pending st) = tcp_pending st"
    using assms(4) by (auto simp: filter_empty_conv filter_id_conv)
  with assms show ?thesis by (simp add: sample_defs)
qed

definition sample_reconnect :: tcp where
  "sample_reconnect = tcp_start\<lparr>tcp_initialized := True, tcp_worker := Some True, tcp_next := 1,
     tcp_conns := [0 \<mapsto> \<lparr>tc_id = 5, tc_handler = Some 1, tc_address = ''127.0.0.1:7'', tc_endpoint = Some ''e'',
        tc_open = False, tc_state = Disconnected\<rparr>]\<rparr>"

theorem reconnect_broken_off_witness:
  "\<exists>st' k'. tcp_run (\<lambda>_. ''canceled'') [Ev_connect 0, Ev_disconnect 0, Ev_connect 0, Ev_run (\<lambda>_. None), Ev_run (\<lambda>_. None)]
      sample_reconnect = Some (Inr (st', [Tcp_disconnected 1 5, Tcp_disconnected 1 5,
        Tcp_connection_error 1 5 (status_unknown ''canceled''), Tcp_connection_error 1 5 (status_unknown ''canceled'')])) \<and>
    tcp_conns st' 0 = Some k' \<and> tc_state k' = Disconnected \<and> \<not> tc_open k'"
  using reconnect_broken_off [of sample_reconnect 0
      "\<lparr>tc_id = 5, tc_handler = Some 1, tc_address = ''127.0.0.1:7'', tc_endpoint = Some ''e'', tc_open = False,
        tc_state = Disconnected\<rparr>" 1 "\<lambda>_. ''canceled''" "\<lambda>_. None"]
  by (simp add: sample_reconnect_def tcp_start_def tcp_running_def)

text \<open>
  A connection that is established just before the application disconnects: the function of the attempt then says that
  it is connected. Its socket is closed, what is sent is refused, and \<^verbatim>\<open>connect\<close> does nothing.
\<close>

theorem connected_without_socket:
  assumes "tcp_initialized st" and "tcp_running st" and "tcp_ready st = []" and "tcp_pending st = []"
    and "tcp_conns st c = Some k" and "tc_state k = Disconnected" and "tc_handler k = Some h"
  shows "\<exists>st' k'. tcp_run message [Ev_connect c, Ev_finish 0 Established, Ev_disconnect c, Ev_run answer] st =
      Some (Inr (st', [Tcp_disconnected h (tc_id k), Tcp_connected h (tc_id k)])) \<and>
    tcp_conns st' c = Some k' \<and> tc_state k' = Connected \<and> \<not> tc_open k' \<and>
    tcp_connect c st' = Some (Inr (st', [])) \<and>
    tcp_async_send c (x # m) mid st' = Some (Inr (st', [Tcp_message_sent h (tc_id k) mid
      (status_internal ''Socket closed or not yet connected'')]))"
  using assms by (simp add: sample_defs)

theorem connected_without_socket_witness:
  "\<exists>st' k'. tcp_run (\<lambda>_. ''canceled'') [Ev_connect 0, Ev_finish 0 Established, Ev_disconnect 0, Ev_run (\<lambda>_. None)]
      sample_reconnect = Some (Inr (st', [Tcp_disconnected 1 5, Tcp_connected 1 5])) \<and>
    tcp_conns st' 0 = Some k' \<and> tc_state k' = Connected \<and> \<not> tc_open k'"
  using connected_without_socket [of sample_reconnect 0
      "\<lparr>tc_id = 5, tc_handler = Some 1, tc_address = ''127.0.0.1:7'', tc_endpoint = Some ''e'', tc_open = False,
        tc_state = Disconnected\<rparr>" 1 "\<lambda>_. ''canceled''" "\<lambda>_. None" "CHR ''x''" "[]" 0]
  by (simp add: sample_reconnect_def tcp_start_def tcp_running_def) blast

text \<open>
  A connection that an acceptor made has no endpoint to connect to again: after \<^verbatim>\<open>disconnect\<close> its \<^verbatim>\<open>connect\<close> goes
  to the address that an endpoint has by default.
\<close>

lemma accepted_connection_cannot_reconnect:
  assumes "tcp_connection_accepted i address (Some h) st = (st1, c)" and "tcp_initialized st"
  shows "\<exists>st2 k. tcp_run message [Ev_disconnect c, Ev_connect c] st1 = Some (Inr (st2, [Tcp_disconnected h i])) \<and>
    tcp_conns st2 c = Some k \<and> tc_state k = Connecting \<and> last (tcp_pending st2) = CB_connect c (Some h) i None"
  using assms by (auto simp: tcp_connection_accepted_def sample_defs)

text \<open>
  An acceptor that is stopped while an accepted connection waits for its function stays in the state of accepting:
  the function starts to accept again, which fails without a change of the state.
\<close>

lemma stopped_acceptor_stays_accepting:
  assumes "tcp_initialized st" and "tcp_running st" and "tcp_pending st = []" and "tcp_accs st a = Some k"
    and "ta_open k" and "ta_state k = Accepting" and "ta_handler k = Some h"
    and "tcp_ready st = [(CB_accept a (Some h) l, Peer (Some address))]" and "answer address = None"
  shows "\<exists>st' k'. tcp_run message [Ev_stop_accepting a, Ev_run answer] st = Some (Inr (st',
      [Tcp_requested h (ta_id k) address, Tcp_acceptor_error h (ta_id k) (status_internal ''Acceptor closed!'')])) \<and>
    tcp_accs st' a = Some k' \<and> ta_state k' = Accepting \<and> \<not> ta_open k' \<and> tcp_pending st' = [] \<and> tcp_ready st' = []"
  using assms by (simp add: sample_defs put_acc_def)

text \<open>A peer that is gone when its address is asked for ends the program of the one that accepts it.\<close>

lemma accepted_peer_gone_aborts:
  assumes "tcp_running st" and "tcp_ready st = (CB_accept a h k, Peer None) # rs"
  shows "tcp_step message (Ev_run answer) st = None"
  using assms by (simp add: run_ready_def)

section \<open>Messages in part\<close>

text \<open>A message of which the socket took one byte only is reported as sent; the rest is dropped.\<close>

lemma partial_write_reported_sent:
  assumes "tcp_initialized st" and "tcp_running st" and "tcp_ready st = []" and "tcp_pending st = []"
    and "tcp_conns st c = Some k" and "tc_open k" and "tc_handler k = Some h" and "1 < length m"
  shows "tcp_run message [Ev_send c m mid, Ev_finish 0 (Wrote 1), Ev_run answer] st =
    Some (Inr (st, [Tcp_message_sent h (tc_id k) mid status_ok]))"
proof -
  have "st\<lparr>tcp_pending := [], tcp_ready := []\<rparr> = st" using assms(3,4) by simp
  with assms show ?thesis by (auto simp: sample_defs)
qed

text \<open>An exact read that is broken off, or whose peer closes the connection, is not reported at all.\<close>

lemma exact_read_dropped:
  assumes "tcp_running st" and "tcp_ready st = (CB_read_exactly c h i buf sz n r, Fail Operation_aborted) # rs"
  shows "tcp_step message (Ev_run answer) st = Some (Inr (st\<lparr>tcp_ready := rs\<rparr>, []))"
  using assms by (simp add: run_ready_def succeed_def)

section \<open>After a release\<close>

lemma stopped_step:
  assumes "tcp_stopped st"
  shows "post (\<lambda>st' cs. tcp_stopped st' \<and> answered cs \<subseteq># sent_id e) (tcp_step message e st)"
proof (cases e)
  case (Ev_run answer)
  with assms show ?thesis by (auto simp: run_ready_def tcp_running_def split: list.splits)
next
  case (Ev_finish n r)
  have "tcp_stopped (store_read cb r st) = tcp_stopped st" for cb st
    by (cases "(cb, r, st)" rule: store_read.cases) auto
  with assms Ev_finish show ?thesis by (simp add: finish_op_def Let_def)
qed (use assms in \<open>auto simp: tcp_object_ops tcp_disconnect_def tcp_start_accepting_def put_conn_def put_acc_def start_op_def
    abort_ops_def Let_def split: option.splits sum.splits bool.splits if_splits\<close>)

text \<open>
  The messages that wait when \<^verbatim>\<open>tcp_release\<close> is called are never answered, whatever happens afterwards: the library is stopped and
  \<^verbatim>\<open>tcp_init\<close> does not make it run again.
\<close>

theorem released_never_answered:
  assumes "tcp_release st = Some (Inr st1)" and "tcp_run message es st1 = Some (Inr (st2, cs))"
  shows "outstanding st \<subseteq># outstanding st2 \<and> answered cs \<subseteq># asked es"
proof -
  have "tcp_stopped st1" and o: "outstanding st1 = outstanding st"
    using assms(1) by (auto simp: tcp_release_def succeed_def split: option.splits bool.splits)
  from this(1) assms(2) have a: "answered cs \<subseteq># asked es"
  proof (induction es arbitrary: st1 cs)
    case (Cons e es)
    from Cons.prems(2) obtain st3 as bs where 1: "tcp_step message e st1 = Some (Inr (st3, as))"
        "tcp_run message es st3 = Some (Inr (st2, bs))" "cs = as @ bs"
      by (auto elim: next_op_cases)
    from postD [OF stopped_step [OF Cons.prems(1)] 1(1)] have "tcp_stopped st3" "answered as \<subseteq># sent_id e" by auto
    with Cons.IH [OF _ 1(2)] 1(3) show ?case by (simp add: asked_def subset_mset.add_mono)
  qed (simp add: asked_def succeed_def)
  from a obtain M where "asked es = answered cs + M" by (auto simp: mset_subset_eq_exists_conv)
  with balance_run [OF assms(2)] have "outstanding st2 = M + outstanding st" using o by (simp add: ac_simps)
  with a show ?thesis by simp
qed

theorem released_never_answered_witness:
  "\<exists>st st1 st2 cs. tcp_run (\<lambda>_. ''e'') sample_calls tcp_start = Some (Inr (st, cs)) \<and> tcp_release st = Some (Inr st1) \<and>
     tcp_run (\<lambda>_. ''e'') [Ev_tcp_init, Ev_run (\<lambda>_. None), Ev_run (\<lambda>_. None)] st1 = Some (Inr (st2, [])) \<and>
     tcp_initialized st2 \<and> {#11, 12#} \<subseteq># outstanding st2"
proof -
  from sample_run obtain st cs where r: "tcp_run (\<lambda>_. ''e'') sample_calls tcp_start = Some (Inr (st, cs))"
      "outstanding st = {#11, 12#}" "tcp_running st"
    by blast
  let ?st1 = "st\<lparr>tcp_stopped := True, tcp_worker := Some False, tcp_initialized := False\<rparr>"
  have 1: "tcp_release st = Some (Inr ?st1)" using r(3) by (simp add: tcp_release_def tcp_running_def succeed_def)
  have "run_ready (\<lambda>_. ''e'') f (tcp_init ?st1) = succeed (tcp_init ?st1, [])" for f
    by (simp add: run_ready_def tcp_running_def tcp_init_def split: list.splits)
  then have 2: "tcp_run (\<lambda>_. ''e'') [Ev_tcp_init, Ev_run (\<lambda>_. None), Ev_run (\<lambda>_. None)] ?st1 = Some (Inr (tcp_init ?st1, []))"
    by (simp add: next_op_def succeed_def)
  have "tcp_initialized (tcp_init ?st1)" by (simp add: tcp_init_def)
  with r 1 2 released_never_answered [OF 1 2] show ?thesis by metis
qed

end
