(* ===== verification/Eth_Raw.thy ===== *)
theory Eth_Raw
  imports Eth_Contract Network Texts
begin

text \<open>
  The contracts of \<^verbatim>\<open>core/interop/ethereum/eth_contract_raw.cc\<close>, which send requests over a connection and read the
  answers, HTTP responses in chunks, from what the connection receives. The JSON library and the hash function are
  parameters; the function given with a call has a number. What is asked of the connection and the calls of these functions are
  values that the operations return.
\<close>

section \<open>State\<close>

record raw_contract =
  rc_call_id :: nat
  rc_server :: string
  rc_address :: string
  rc_signatures :: "(string \<times> string \<times> bool) list"
  rc_callbacks :: "(nat \<times> nat) list"
  rc_conn :: bool
  rc_header :: string
  rc_body :: string
  rc_message :: string

datatype raw_action =
    Raw_create string
  | Raw_connect
  | Raw_read nat
  | Raw_send string nat
  | Raw_callback nat status string

definition WAITING_HEADER :: nat where "WAITING_HEADER = 1"

definition WAITING_BODY :: nat where "WAITING_BODY = 2"

definition GAS_LIMIT :: nat where "GAS_LIMIT = 6000000"

text \<open>A number that is not there leaves the variable as it was, with the value \<open>junk\<close>.\<close>

definition hex_to_dec :: "nat \<Rightarrow> string \<Rightarrow> nat" where
  "hex_to_dec junk hex = (if dropWhile is_space hex = [] then junk else hex2dec hex)"

section \<open>Contracts and calls\<close>

definition raw_contract_new :: "(string \<Rightarrow> string) \<Rightarrow> string \<Rightarrow> string \<Rightarrow> (string \<times> string \<times> bool) list \<Rightarrow> raw_contract" where
  "raw_contract_new hash server address signs =
     \<lparr>rc_call_id = 0, rc_server = server, rc_address = address,
      rc_signatures = map (\<lambda>(name, sign, tx). (name, ''0x'' @ take 8 (bin2hex (hash sign)), tx)) signs,
      rc_callbacks = [], rc_conn = False, rc_header = [], rc_body = [], rc_message = []\<rparr>"

definition raw_register_contract ::
  "(string \<Rightarrow> string) \<Rightarrow> (string \<times> raw_contract) list \<Rightarrow> string \<Rightarrow> string \<Rightarrow> (string \<times> string \<times> bool) list \<Rightarrow>
   (string \<times> raw_contract) list" where
  "raw_register_contract hash contracts server address signs =
     (if map_of contracts address \<noteq> None then contracts
      else AList.update address (raw_contract_new hash server address signs) contracts)"

definition raw_get_contract :: "(string \<times> raw_contract) list \<Rightarrow> string \<Rightarrow> raw_contract option" where
  "raw_get_contract contracts address = map_of contracts address"

definition raw_request :: "raw_contract \<Rightarrow> string \<Rightarrow> bool \<Rightarrow> string \<Rightarrow> string \<Rightarrow> nat \<Rightarrow> string" where
  \<open>raw_request s selector tx params from_address i =
     ''{"jsonrpc":"2.0","method":"'' @ (if tx then ''eth_sendTransaction'' else ''eth_call'') @
     ''","params":[{ "to":"'' @ rc_address s @ ''","data":"'' @ selector @ params @ ''","gas":'' @ to_string GAS_LIMIT @
     '',"from":"'' @ from_address @ ''"}'' @ (if tx then [] else '',"latest"'') @ ''],"id":'' @ to_string i @ ''}''\<close>

definition raw_post :: "string \<Rightarrow> string" where
  "raw_post data = ''POST / HTTP/1.1'' @ crlf @ ''Accept: */*'' @ crlf @ ''Content-Type: application/x-www-form-urlencoded'' @
     crlf @ ''Content-Length: '' @ to_string (length data) @ crlf @ crlf @ data"

text \<open>
  \<open>init\<close> is what creating and initialising a connection gives; it may throw, and a null pointer is undefined.
  \<open>state\<close> is the state of the connection.
\<close>

definition raw_call ::
  "raw_contract \<Rightarrow> string \<Rightarrow> string \<Rightarrow> string \<Rightarrow> nat \<Rightarrow> bool outcome \<Rightarrow> conn_state \<Rightarrow> (raw_contract \<times> raw_action list) outcome" where
  "raw_call s from_address fname params callback init state =
     (case map_of (rc_signatures s) fname of
        None \<Rightarrow> succeed (s, [Raw_callback callback (status_invalid_argument ''Function signature is not found!'') []])
      | Some (selector, tx) \<Rightarrow>
          let i = (rc_call_id s + 1) mod 2 ^ 32;
              s = s\<lparr>rc_call_id := i, rc_callbacks := AList.update i callback (rc_callbacks s)\<rparr>;
              req = raw_post (raw_request s selector tx params from_address i);
              send = (if state = Disconnected then [Raw_connect, Raw_read WAITING_HEADER] else []) @ [Raw_send req i]
          in if rc_conn s then succeed (s, send)
             else and_then init (\<lambda>ok.
               if ok then succeed (s\<lparr>rc_conn := True\<rparr>, Raw_create (rc_server s) # send)
               else succeed (s\<lparr>rc_callbacks := []\<rparr>, Raw_create (rc_server s) #
                 map (\<lambda>(i, c). Raw_callback c (status_internal ''Could not connect to server!'') []) (rc_callbacks s))))"

section \<open>Answers\<close>

text \<open>
  The functions that read a response call each other, always last, so that each is a step that says which is next.
\<close>

datatype raw_phase = Read_header | Read_body | Handle_message status

type_synonym raw_result = "(raw_phase option \<times> raw_contract \<times> raw_action list) outcome"

definition raw_async_read :: "nat \<Rightarrow> raw_contract \<Rightarrow> raw_result" where
  "raw_async_read mid s = (if rc_conn s then succeed (None, s, [Raw_read mid]) else None)"

definition json_uint32 :: "json \<Rightarrow> nat outcome" where
  "json_uint32 j = (case j of Number n \<Rightarrow> succeed (nat (n mod 2 ^ 32)) | Bool b \<Rightarrow> succeed (if b then 1 else 0)
     | _ \<Rightarrow> Some (throw (Json_error ''type must be number'')))"

definition raw_answer :: "json \<Rightarrow> nat \<Rightarrow> raw_action list outcome" where
  "raw_answer j callback =
     (case find_key j ''error'' of
        Some obj \<Rightarrow>
          (case find_key obj ''message'' of
             Some m \<Rightarrow> and_then (get_string m) (\<lambda>e. succeed [Raw_callback callback (status_internal e) []])
           | None \<Rightarrow> Some (throw (Json_error ''type must be string'')))
      | None \<Rightarrow>
          (case find_key j ''result'' of
             Some r \<Rightarrow> and_then (get_string r) (\<lambda>t. and_then (data_substr t 2 (length t)) (\<lambda>d.
               succeed [Raw_callback callback status_ok d]))
           | None \<Rightarrow> succeed []))"

definition raw_handle_message :: "json_lib \<Rightarrow> status \<Rightarrow> raw_contract \<Rightarrow> raw_result" where
  "raw_handle_message J st s =
     (if code st \<noteq> OK then succeed (None, s\<lparr>rc_message := []\<rparr>, [])
      else
        (case jparse J (rc_message s) of
           None \<Rightarrow> Some (throw (Json_error (jwhat J (rc_message s))))
         | Some j \<Rightarrow>
             (case find_key j ''id'' of
                None \<Rightarrow> succeed (None, s\<lparr>rc_message := []\<rparr>, [])
              | Some i \<Rightarrow>
                  and_then (json_uint32 i) (\<lambda>call_id.
                    (case map_of (rc_callbacks s) call_id of
                       None \<Rightarrow> succeed (None, s\<lparr>rc_message := []\<rparr>, [])
                     | Some callback \<Rightarrow>
                         and_then (raw_answer j callback) (\<lambda>out.
                           succeed (Some Read_header,
                             s\<lparr>rc_callbacks := AList.delete call_id (rc_callbacks s), rc_message := []\<rparr>, out)))))))"

definition first_line :: "string \<Rightarrow> string" where
  "first_line s = takeWhile (\<lambda>c. c \<noteq> CHR 0x0A) (dropWhile is_space s)"

definition raw_read_header :: "raw_contract \<Rightarrow> raw_result" where
  "raw_read_header s =
     (case find_sub crlf2 (rc_header s) of
        None \<Rightarrow> raw_async_read WAITING_HEADER s
      | Some pos \<Rightarrow>
          if pos + 4 < length (rc_header s) then
            succeed (Some Read_header,
              s\<lparr>rc_body := drop (pos + 4) (rc_header s), rc_header := take (pos + 4) (rc_header s)\<rparr>, [])
          else
            let line = first_line (rc_header s); s = s\<lparr>rc_header := []\<rparr>
            in if line \<noteq> ''HTTP/1.1 200 OK'' @ [CHR 0x0D] then
                 succeed (Some (Handle_message (status_aborted line)), s\<lparr>rc_message := []\<rparr>, [])
               else succeed (Some Read_body, s, []))"

definition raw_read_body :: "nat \<Rightarrow> raw_contract \<Rightarrow> raw_result" where
  "raw_read_body junk s =
     (case find_sub crlf (rc_body s) of
        None \<Rightarrow> raw_async_read WAITING_BODY s
      | Some pos \<Rightarrow>
          if hex_to_dec junk (take pos (rc_body s)) = 0 then
            succeed (Some (Handle_message status_ok), s\<lparr>rc_header := drop (pos + 2) (rc_body s)\<rparr>, [])
          else
            (case find_sub crlf (drop (pos + 2) (rc_body s)) of
               None \<Rightarrow> raw_async_read WAITING_BODY s
             | Some n \<Rightarrow>
                 succeed (Some Read_body, s\<lparr>rc_message := rc_message s @ take n (drop (pos + 2) (rc_body s)),
                   rc_body := drop (pos + 2 + n + 2) (rc_body s)\<rparr>, [])))"

fun raw_step :: "json_lib \<Rightarrow> nat \<Rightarrow> raw_phase \<Rightarrow> raw_contract \<Rightarrow> raw_result" where
  "raw_step J junk Read_header s = raw_read_header s"
| "raw_step J junk Read_body s = raw_read_body junk s"
| "raw_step J junk (Handle_message st) s = raw_handle_message J st s"

partial_function (option) raw_run ::
  "json_lib \<Rightarrow> nat \<Rightarrow> raw_phase \<Rightarrow> raw_contract \<Rightarrow> raw_action list \<Rightarrow> (raw_contract \<times> raw_action list) throws option" where
  "raw_run J junk p s out =
     (case raw_step J junk p s of
        None \<Rightarrow> None
      | Some (Inl e) \<Rightarrow> Some (Inl e)
      | Some (Inr (None, s, as)) \<Rightarrow> Some (Inr (s, out @ as))
      | Some (Inr (Some p, s, as)) \<Rightarrow> raw_run J junk p s (out @ as))"

definition raw_on_message_received ::
  "json_lib \<Rightarrow> nat \<Rightarrow> raw_contract \<Rightarrow> string \<Rightarrow> nat \<Rightarrow> (raw_contract \<times> raw_action list) outcome" where
  "raw_on_message_received J junk s b mid =
     (if mid = WAITING_HEADER then raw_run J junk Read_header (s\<lparr>rc_header := rc_header s @ b\<rparr>) []
      else if mid = WAITING_BODY then raw_run J junk Read_body (s\<lparr>rc_body := rc_body s @ b\<rparr>) []
      else succeed (s, []))"

definition raw_on_connection_error :: "raw_contract \<Rightarrow> status \<Rightarrow> raw_contract" where
  "raw_on_connection_error s st = (if code st = OK then s else s\<lparr>rc_callbacks := []\<rparr>)"

end
