(* ===== verification/Eth_Raw_Properties.thy ===== *)
theory Eth_Raw_Properties
  imports Eth_Raw
begin

text \<open>
  What holds of the contracts over raw connections: reading always comes to an end; a response in chunks is given to
  the function of its call, in whatever pieces it arrives. Also shown: a header that arrives alone after an
  earlier response ends the program, and a response other than success is the last one read.
\<close>

lemma raw_run_step:
  "raw_step J junk p s = Some (Inr (None, s', as)) \<Longrightarrow> raw_run J junk p s out = succeed (s', out @ as)"
  "raw_step J junk p s = Some (Inr (Some p', s', as)) \<Longrightarrow> raw_run J junk p s out = raw_run J junk p' s' (out @ as)"
  "raw_step J junk p s = Some (Inl e) \<Longrightarrow> raw_run J junk p s out = Some (Inl e)"
  by (subst raw_run.simps, simp add: succeed_def)+

lemma succeed_inject [simp]: "succeed x = succeed y \<longleftrightarrow> x = y"
  by (simp add: succeed_def)

section \<open>Reading ends\<close>

text \<open>
  The bytes that can still be looked at, whether there is a message, and the function.
\<close>

fun raw_size :: "raw_phase \<Rightarrow> raw_contract \<Rightarrow> nat" where
  "raw_size Read_body s = length (rc_body s)"
| "raw_size p s = max (length (rc_header s)) (length (rc_body s))"

fun raw_rank :: "raw_phase \<Rightarrow> nat" where
  "raw_rank Read_header = 2"
| "raw_rank Read_body = 1"
| "raw_rank (Handle_message st) = 0"

definition raw_order :: "((raw_phase \<times> raw_contract) \<times> (raw_phase \<times> raw_contract)) set" where
  "raw_order = measures [\<lambda>(p, s). raw_size p s, \<lambda>(p, s). length (take 1 (rc_message s)), \<lambda>(p, s). raw_rank p]"

lemma and_then_SomeD: "and_then m f = Some (Inr y) \<Longrightarrow> \<exists>x. m = Some (Inr x) \<and> f x = Some (Inr y)"
  by (auto simp: and_then_def split: option.splits sum.splits)

lemma raw_step_decreases:
  assumes "jparse J [] = None" and "raw_step J junk p s = Some (Inr (Some p', s', as))"
  shows "((p', s'), (p, s)) \<in> raw_order \<and> rc_conn s' = rc_conn s"
proof (cases p)
  case Read_header
  with assms(2) show ?thesis
    by (auto simp: raw_order_def raw_read_header_def raw_async_read_def succeed_def Let_def crlf2_def crlf_def
        split: option.splits if_splits)
next
  case Read_body
  with assms(2) show ?thesis
    by (auto simp: raw_order_def raw_read_body_def raw_async_read_def succeed_def crlf_def split: option.splits if_splits
        dest!: find_sub_SomeD)
next
  case (Handle_message st)
  with assms have m: "raw_handle_message J st s = Some (Inr (Some p', s', as))" by simp
  then have "rc_message s \<noteq> []" using assms(1) by (auto simp: raw_handle_message_def succeed_def split: if_splits)
  moreover have "p' = Read_header" "\<exists>cs. s' = s\<lparr>rc_callbacks := cs, rc_message := []\<rparr>"
    using m by (auto simp: raw_handle_message_def succeed_def split: if_splits option.splits dest!: and_then_SomeD)
  ultimately show ?thesis using Handle_message by (cases "rc_message s") (auto simp: raw_order_def)
qed

lemma and_then_eq_None: "and_then m f = None \<longleftrightarrow> m = None \<or> (\<exists>x. m = Some (Inr x) \<and> f x = None)"
  by (auto simp: and_then_def split: option.splits sum.splits)

lemma raw_parts_defined: "json_uint32 j \<noteq> None" "get_string j \<noteq> None" "data_substr t i n \<noteq> None" "succeed x \<noteq> None"
  by (auto simp: json_uint32_def get_string_def data_substr_def succeed_def split: json.splits)

lemma raw_answer_defined: "raw_answer j callback \<noteq> None"
  by (simp add: raw_answer_def and_then_eq_None raw_parts_defined split: option.split del: not_None_eq)

lemma raw_handle_message_defined: "raw_handle_message J st s \<noteq> None"
  by (simp add: raw_handle_message_def and_then_eq_None raw_parts_defined raw_answer_defined split: option.split
      del: not_None_eq)

lemma raw_step_defined: "rc_conn s \<Longrightarrow> raw_step J junk p s \<noteq> None"
  using raw_handle_message_defined
  by (cases p) (auto simp: raw_read_header_def raw_read_body_def raw_async_read_def succeed_def Let_def split: option.splits)

text \<open>What the functions ask for: calls of functions on the way, and at the end one read, or nothing and the message is dropped.\<close>

definition is_callback :: "raw_action \<Rightarrow> bool" where
  "is_callback a = (case a of Raw_callback f st d \<Rightarrow> True | _ \<Rightarrow> False)"

definition reads_next :: "raw_contract \<Rightarrow> raw_action list \<Rightarrow> bool" where
  "reads_next s as \<longleftrightarrow> (\<exists>calls. list_all is_callback calls \<and>
     (as = calls @ [Raw_read WAITING_HEADER] \<or> as = calls @ [Raw_read WAITING_BODY] \<or> as = calls \<and> rc_message s = []))"

lemma reads_next_simple [simp]: "reads_next s [Raw_read WAITING_HEADER]" "reads_next s [Raw_read WAITING_BODY]"
  "rc_message s = [] \<Longrightarrow> reads_next s []"
  by (auto simp: reads_next_def intro: exI [of _ "[]"])

lemma reads_next_calls: "list_all is_callback calls \<Longrightarrow> reads_next s as \<Longrightarrow> reads_next s (calls @ as)"
  unfolding reads_next_def by (metis append.assoc list_all_append)

lemma raw_answer_calls: "raw_answer j callback = Some (Inr as) \<Longrightarrow> list_all is_callback as"
  by (auto simp: raw_answer_def succeed_def is_callback_def split: option.splits dest!: and_then_SomeD)

lemma raw_step_actions:
  assumes "raw_step J junk p s = Some (Inr (q, s', as))"
  shows "case q of Some p' \<Rightarrow> list_all is_callback as | None \<Rightarrow> reads_next s' as"
proof (cases p)
  case Read_header
  with assms show ?thesis
    by (auto simp: raw_read_header_def raw_async_read_def succeed_def Let_def split: option.splits if_splits)
next
  case Read_body
  with assms show ?thesis
    by (auto simp: raw_read_body_def raw_async_read_def succeed_def split: option.splits if_splits)
next
  case (Handle_message st)
  with assms show ?thesis
    by (auto simp: raw_handle_message_def succeed_def raw_answer_calls split: if_splits option.splits dest!: and_then_SomeD)
qed

text \<open>
  C34: On a connection, reading ends: the functions that call each other throw an exception, or come to an end after some calls
  of functions that wait for answers, and then either one next read is asked for, of a header or of a body, or none and the
  message is dropped, as after a response other than success or one that answers no call. An empty text is no JSON value.
\<close>

theorem raw_reading_ends:
  assumes "rc_conn s" and "jparse J [] = None"
  shows "(\<exists>e. raw_run J junk p s out = Some (throw e)) \<or>
    (\<exists>s' as. raw_run J junk p s out = succeed (s', out @ as) \<and> reads_next s' as)"
proof -
  have "wf raw_order" by (simp add: raw_order_def)
  then have "rc_conn (snd x) \<Longrightarrow> (\<exists>e. raw_run J junk (fst x) (snd x) out = Some (throw e)) \<or>
      (\<exists>s' as. raw_run J junk (fst x) (snd x) out = succeed (s', out @ as) \<and> reads_next s' as)" for x
  proof (induction x arbitrary: out rule: wf_induct_rule)
    case (less x)
    obtain p s where x: "x = (p, s)" by fastforce
    consider e where "raw_step J junk p s = Some (Inl e)"
      | s' as where "raw_step J junk p s = Some (Inr (None, s', as))"
      | p' s' as where "raw_step J junk p s = Some (Inr (Some p', s', as))"
      using raw_step_defined [of s J junk p] less.prems x by (cases "raw_step J junk p s" rule: option.exhaust [case_names None Some])
        (auto, metis option.exhaust prod_cases3 sum.exhaust)
    then show ?case
    proof cases
      case 1
      with raw_run_step(3) x show ?thesis by fastforce
    next
      case 2
      with raw_run_step(1) [OF 2] raw_step_actions [OF 2] x show ?thesis by auto
    next
      case 3
      from raw_step_decreases [OF assms(2) 3] less.IH [of "(p', s')" "out @ as"] less.prems x
      have IH: "(\<exists>e. raw_run J junk p' s' (out @ as) = Some (throw e)) \<or>
          (\<exists>s'' as'. raw_run J junk p' s' (out @ as) = succeed (s'', (out @ as) @ as') \<and> reads_next s'' as')" by auto
      have "list_all is_callback as" using raw_step_actions [OF 3] by simp
      from IH show ?thesis unfolding x fst_conv snd_conv raw_run_step(2) [OF 3]
        using reads_next_calls [OF \<open>list_all is_callback as\<close>] by (metis append.assoc)
    qed
  qed
  from this [of "(p, s)"] assms(1) show ?thesis by simp
qed


definition simple_json :: json_lib where
  "simple_json = \<lparr>jparse = (\<lambda>s. if s = ''answer'' then
       Some (Object [(''jsonrpc'', Text ''2.0''), (''id'', Number 1), (''result'', Text ''0x2a'')]) else None),
     jwhat = (\<lambda>s. ''parse error''), jdump = (\<lambda>j. [])\<rparr>"

definition waiting_contract :: raw_contract where
  "waiting_contract = \<lparr>rc_call_id = 1, rc_server = ''127.0.0.1:8545'', rc_address = ''0xab'', rc_signatures = [],
     rc_callbacks = [(1, 7)], rc_conn = True, rc_header = [], rc_body = [], rc_message = []\<rparr>"

theorem raw_reading_ends_witness:
  "\<exists>s' as. raw_run simple_json 0 Read_header (waiting_contract\<lparr>rc_header := ''HTTP/1.1 200''\<rparr>) [] = succeed (s', as) \<and> reads_next s' as"
proof -
  let ?s = "waiting_contract\<lparr>rc_header := ''HTTP/1.1 200''\<rparr>"
  have "find_sub crlf2 ''HTTP/1.1 200'' = None" by code_simp
  then have "raw_step simple_json 0 Read_header ?s = Some (Inr (None, ?s, [Raw_read WAITING_HEADER]))"
    by (simp add: raw_read_header_def raw_async_read_def waiting_contract_def succeed_def)
  from raw_run_step(1) [OF this, of "[]"] have no: "raw_run simple_json 0 Read_header ?s [] \<noteq> Some (throw e)" for e
    by (simp add: succeed_def)
  have "rc_conn ?s" "jparse simple_json [] = None" by (simp_all add: waiting_contract_def simple_json_def)
  from raw_reading_ends [OF this, of 0 Read_header "[]"] no show ?thesis by simp
qed

section \<open>Responses in chunks\<close>

definition chunked :: "(string \<times> string) list \<Rightarrow> string" where
  "chunked cs = concat (map (\<lambda>(z, d). z @ crlf @ d @ crlf) cs) @ ''0'' @ crlf @ crlf"

definition payload :: "(string \<times> string) list \<Rightarrow> string" where
  "payload cs = concat (map snd cs)"

text \<open>The size of a chunk is a number other than zero, and neither it nor the data has a carriage return.\<close>

definition wf_chunk :: "nat \<Rightarrow> string \<times> string \<Rightarrow> bool" where
  "wf_chunk junk c = (CHR 0x0D \<notin> set (fst c) \<and> CHR 0x0D \<notin> set (snd c) \<and> hex_to_dec junk (fst c) \<noteq> 0)"

definition ok_header :: "string \<Rightarrow> bool" where
  "ok_header h = (find_sub crlf2 h = Some (length h - 4) \<and> first_line h = ''HTTP/1.1 200 OK'' @ [CHR 0x0D])"

lemma chunked_simps: "chunked [] = ''0'' @ crlf @ crlf" "chunked ((z, d) # cs) = z @ crlf @ d @ crlf @ chunked cs"
  "payload [] = []" "payload ((z, d) # cs) = d @ payload cs"
  by (simp_all add: chunked_def payload_def)

lemma find_crlf: "CHR 0x0D \<notin> set z \<Longrightarrow> find_sub crlf (z @ crlf @ t) = Some (length z)"
  by (induction z) (auto simp: crlf_def)

lemma find_crlf_before:
  assumes "find_sub crlf a = Some i" and "a @ b = z @ crlf @ t" and "CHR 0x0D \<notin> set z"
  shows "i = length z \<and> a = z @ crlf @ drop (length z + 2) a \<and> drop (length z + 2) a @ b = t"
proof -
  have i: "i = length z" using find_sub_append [OF assms(1), of b] find_crlf [OF assms(3), of t] assms(2) by simp
  have "length (z @ crlf) \<le> length a" using find_sub_SomeD [OF assms(1)] i by (simp add: crlf_def)
  moreover have "a @ b = (z @ crlf) @ t" using assms(2) by simp
  ultimately have "a = (z @ crlf) @ drop (length (z @ crlf)) a" "drop (length (z @ crlf)) a @ b = t"
    by (metis append_eq_append_conv_if append_take_drop_id)+
  with i show ?thesis by (simp add: crlf_def)
qed

text \<open>The call that a response answers, and what its function is called with.\<close>

definition answers_call :: "json_lib \<Rightarrow> (string \<times> string) list \<Rightarrow> (nat \<times> nat) list \<Rightarrow> nat \<Rightarrow> raw_action list \<Rightarrow> bool" where
  "answers_call J cs callbacks i acts =
     (\<exists>j n callback. jparse J (payload cs) = Some j \<and> find_key j ''id'' = Some (Number n) \<and> i = nat (n mod 2 ^ 32) \<and>
        map_of callbacks i = Some callback \<and> raw_answer j callback = succeed acts)"

lemma handle_answer:
  assumes "answers_call J cs (rc_callbacks s) i acts" and "rc_message s = payload cs"
  shows "raw_handle_message J status_ok s =
    succeed (Some Read_header, s\<lparr>rc_callbacks := AList.delete i (rc_callbacks s), rc_message := []\<rparr>, acts)"
  using assms by (auto simp: answers_call_def raw_handle_message_def json_uint32_def)

text \<open>Where reading stands in the body of a response, and after it.\<close>

definition in_body :: "(string \<times> string) list \<Rightarrow> string \<Rightarrow> raw_contract \<Rightarrow> raw_contract \<Rightarrow> bool" where
  "in_body cs rest s0 s = (\<exists>past todo. cs = past @ todo \<and> rc_message s = payload past \<and> rc_body s @ rest = chunked todo \<and>
     rc_conn s \<and> rc_callbacks s = rc_callbacks s0 \<and> rest \<noteq> [])"

definition after_body :: "nat \<Rightarrow> string \<Rightarrow> raw_contract \<Rightarrow> raw_contract \<Rightarrow> bool" where
  "after_body i rest s0 s = (rc_header s @ rest = crlf \<and> rc_message s = [] \<and> rc_conn s \<and>
     rc_callbacks s = AList.delete i (rc_callbacks s0))"

lemma no_crlf2_in_crlf:
  assumes "a @ b = crlf"
  shows "find_sub crlf2 a = None"
proof (rule ccontr)
  assume "find_sub crlf2 a \<noteq> None"
  then obtain k where "find_sub crlf2 a = Some k" by auto
  from find_sub_SomeD [OF this] have "4 \<le> length a" by (simp add: crlf2_def crlf_def)
  with arg_cong [OF assms, of length] show False by (simp add: crlf_def)
qed

lemma payload_append: "payload (past @ todo) = payload past @ payload todo"
  by (simp add: payload_def)

lemma run_body:
  assumes "\<forall>c \<in> set cs. wf_chunk junk c" and "answers_call J cs (rc_callbacks s0) i acts"
    and "cs = past @ todo" "rc_message s = payload past" "rc_body s @ rest = chunked todo" "rc_conn s"
    "rc_callbacks s = rc_callbacks s0"
  shows "(\<exists>s'. raw_run J junk Read_body s out = succeed (s', out @ [Raw_read WAITING_BODY]) \<and> in_body cs rest s0 s') \<or>
    (\<exists>s'. raw_run J junk Read_body s out = succeed (s', out @ acts @ [Raw_read WAITING_HEADER]) \<and> after_body i rest s0 s')"
  using assms(3-)
proof (induction todo arbitrary: s past)
  case Nil
  show ?case
  proof (cases "find_sub crlf (rc_body s)")
    case None
    then have "raw_run J junk Read_body s out = succeed (s, out @ [Raw_read WAITING_BODY])"
      using Nil by (intro raw_run_step) (simp add: raw_read_body_def raw_async_read_def succeed_def)
    moreover have "rest \<noteq> []" using None find_crlf [of "''0''" crlf] Nil(3) by (auto simp: chunked_simps)
    ultimately show ?thesis using Nil by (auto simp: in_body_def)
  next
    case (Some pos)
    from find_crlf_before [OF Some, of rest "''0''" crlf] Nil(3)
    have b: "pos = 1" "rc_body s = ''0'' @ crlf @ drop 3 (rc_body s)" "drop 3 (rc_body s) @ rest = crlf"
      by (simp_all add: chunked_simps numeral_3_eq_3)
    have "take pos (rc_body s) = ''0''" using b(1) by (subst b(2)) simp
    moreover have "hex_to_dec junk ''0'' = 0" by code_simp
    ultimately have 1: "raw_step J junk Read_body s = Some (Inr (Some (Handle_message status_ok), s\<lparr>rc_header := drop 3 (rc_body s)\<rparr>, []))"
      using Some b(1) by (simp add: raw_read_body_def succeed_def numeral_3_eq_3)
    let ?s = "s\<lparr>rc_header := drop 3 (rc_body s), rc_callbacks := AList.delete i (rc_callbacks s), rc_message := []\<rparr>"
    have 2: "raw_step J junk (Handle_message status_ok) (s\<lparr>rc_header := drop 3 (rc_body s)\<rparr>) = Some (Inr (Some Read_header, ?s, acts))"
      using handle_answer [of J cs "s\<lparr>rc_header := drop 3 (rc_body s)\<rparr>" i acts] assms(2) Nil by (simp add: succeed_def)
    have 3: "raw_step J junk Read_header ?s = Some (Inr (None, ?s, [Raw_read WAITING_HEADER]))"
      using no_crlf2_in_crlf [OF b(3)] Nil(4) by (simp add: raw_read_header_def raw_async_read_def succeed_def)
    have "raw_run J junk Read_body s out = succeed (?s, out @ acts @ [Raw_read WAITING_HEADER])"
      using raw_run_step(2) [OF 1] raw_run_step(2) [OF 2] raw_run_step(1) [OF 3] by simp
    moreover have "after_body i rest s0 ?s" using b(3) Nil by (simp add: after_body_def)
    ultimately show ?thesis by blast
  qed
next
  case (Cons c todo)
  obtain z d where c: "c = (z, d)" by fastforce
  then have wf: "CHR 0x0D \<notin> set z" "CHR 0x0D \<notin> set d" "hex_to_dec junk z \<noteq> 0"
    using assms(1) Cons.prems(1) by (auto simp: wf_chunk_def)
  have wait: ?case if "raw_step J junk Read_body s = Some (Inr (None, s, [Raw_read WAITING_BODY]))" "rest \<noteq> []"
    using raw_run_step(1) [OF that(1)] that(2) Cons.prems unfolding in_body_def by blast
  show ?case
  proof (cases "find_sub crlf (rc_body s)")
    case None
    moreover have "rest \<noteq> []" using None find_crlf [OF wf(1)] Cons.prems(3) c by (auto simp: chunked_simps)
    ultimately show ?thesis using Cons.prems wait by (simp add: raw_read_body_def raw_async_read_def succeed_def)
  next
    case (Some pos)
    from find_crlf_before [OF Some, of rest z "d @ crlf @ chunked todo"] wf(1) Cons.prems(3) c
    have b: "pos = length z" "rc_body s = z @ crlf @ drop (length z + 2) (rc_body s)"
      "drop (length z + 2) (rc_body s) @ rest = d @ crlf @ chunked todo"
      by (simp_all add: chunked_simps)
    have t: "take pos (rc_body s) = z" using b(1) by (subst b(2)) simp
    show ?thesis
    proof (cases "find_sub crlf (drop (length z + 2) (rc_body s))")
      case None
      moreover have "rest \<noteq> []" using None find_crlf [OF wf(2)] b(3) by auto
      ultimately show ?thesis using Some t b(1) wf(3) Cons.prems wait by (simp add: raw_read_body_def raw_async_read_def succeed_def)
    next
      case (Some n)
      from find_crlf_before [OF Some b(3) wf(2)]
      have e: "n = length d" "drop (length z + 2) (rc_body s) = d @ crlf @ drop (length d + 2) (drop (length z + 2) (rc_body s))"
        "drop (length d + 2) (drop (length z + 2) (rc_body s)) @ rest = chunked todo" by blast+
      have d: "take n (drop (length z + 2) (rc_body s)) = d" using e(1) by (subst e(2)) simp
      let ?s = "s\<lparr>rc_message := rc_message s @ d, rc_body := drop (length d + 2) (drop (length z + 2) (rc_body s))\<rparr>"
      have 1: "raw_step J junk Read_body s = Some (Inr (Some Read_body, ?s, []))"
        using \<open>find_sub crlf (rc_body s) = Some pos\<close> Some t b(1) wf(3) d e(1)
        by (simp add: raw_read_body_def succeed_def ac_simps)
      from Cons.IH [of "past @ [(z, d)]" ?s] e(3) Cons.prems c show ?thesis
        using raw_run_step(2) [OF 1, of out] by (simp add: payload_append chunked_simps)
    qed
  qed
qed


section \<open>Pieces\<close>

text \<open>
  The pieces in which a stream is received: each is given to the contract when it has asked for one, with the
  number of the read. When it has not asked, the rest is never read.
\<close>

definition last_read :: "raw_action list \<Rightarrow> nat option" where
  "last_read as = fold (\<lambda>a r. case a of Raw_read mid \<Rightarrow> Some mid | _ \<Rightarrow> r) as None"

fun raw_feed ::
  "json_lib \<Rightarrow> nat \<Rightarrow> raw_contract \<Rightarrow> nat option \<Rightarrow> string list \<Rightarrow> (raw_contract \<times> nat option \<times> raw_action list) outcome" where
  "raw_feed J junk s (Some mid) (b # bs) =
     and_then (raw_on_message_received J junk s b mid) (\<lambda>(s, as).
       and_then (raw_feed J junk s (last_read as) bs) (\<lambda>(s, m, as'). succeed (s, m, as @ as')))"
| "raw_feed J junk s m bs = succeed (s, m, [])"

definition raw_calls :: "raw_action list \<Rightarrow> raw_action list" where
  "raw_calls as = filter (\<lambda>a. case a of Raw_callback c st d \<Rightarrow> True | _ \<Rightarrow> False) as"

lemma last_read_snoc [simp]: "last_read (as @ [Raw_read mid]) = Some mid" "last_read [Raw_read mid] = Some mid"
  by (simp_all add: last_read_def)

lemma raw_calls_simps [simp]: "raw_calls [] = []" "raw_calls (as @ bs) = raw_calls as @ raw_calls bs"
  "raw_calls [Raw_read mid] = []"
  by (simp_all add: raw_calls_def)

lemma feed_after:
  assumes "after_body i (concat bs) s0 s"
  shows "\<exists>s' as. raw_feed J junk s (Some WAITING_HEADER) bs = succeed (s', Some WAITING_HEADER, as) \<and> raw_calls as = [] \<and>
    after_body i [] s0 s' \<and> rc_body s' = rc_body s"
  using assms
proof (induction bs arbitrary: s)
  case (Cons b bs)
  let ?s = "s\<lparr>rc_header := rc_header s @ b\<rparr>"
  have a: "after_body i (concat bs) s0 ?s" using Cons.prems by (simp add: after_body_def)
  then have "find_sub crlf2 (rc_header s @ b) = None" "rc_conn s"
    using no_crlf2_in_crlf [of "rc_header s @ b" "concat bs"] by (simp_all add: after_body_def)
  then have "raw_step J junk Read_header ?s = Some (Inr (None, ?s, [Raw_read WAITING_HEADER]))"
    by (simp add: raw_read_header_def raw_async_read_def succeed_def)
  from raw_run_step(1) [OF this, of "[]"] have "raw_on_message_received J junk s b WAITING_HEADER = succeed (?s, [Raw_read WAITING_HEADER])"
    by (simp add: raw_on_message_received_def)
  with Cons.IH [OF a] show ?case by (auto simp: raw_calls_def)
qed simp

lemma feed_body:
  assumes "\<forall>c \<in> set cs. wf_chunk junk c" and "answers_call J cs (rc_callbacks s0) i acts" and "raw_calls acts = acts"
    and "in_body cs (concat bs) s0 s"
  shows "\<exists>s' as. raw_feed J junk s (Some WAITING_BODY) bs = succeed (s', Some WAITING_HEADER, as) \<and> raw_calls as = acts \<and>
    after_body i [] s0 s'"
  using assms(4)
proof (induction bs arbitrary: s)
  case Nil
  then show ?case by (simp add: in_body_def)
next
  case (Cons b bs)
  let ?s = "s\<lparr>rc_body := rc_body s @ b\<rparr>"
  have rec: "raw_on_message_received J junk s b WAITING_BODY = raw_run J junk Read_body ?s []"
    by (simp add: raw_on_message_received_def WAITING_BODY_def WAITING_HEADER_def)
  from Cons.prems obtain past todo where "cs = past @ todo" "rc_message ?s = payload past"
      "rc_body ?s @ concat bs = chunked todo" "rc_conn ?s" "rc_callbacks ?s = rc_callbacks s0"
    by (auto simp: in_body_def)
  from run_body [OF assms(1,2) this, of "[]"] consider
      s' where "raw_run J junk Read_body ?s [] = succeed (s', [Raw_read WAITING_BODY])" "in_body cs (concat bs) s0 s'"
    | s' where "raw_run J junk Read_body ?s [] = succeed (s', acts @ [Raw_read WAITING_HEADER])" "after_body i (concat bs) s0 s'"
    by auto
  then show ?case
  proof cases
    case 1
    with Cons.IH [OF 1(2)] rec show ?thesis by (auto simp: raw_calls_def)
  next
    case 2
    with feed_after [OF 2(2), of J junk] rec assms(3) show ?thesis by (auto simp: raw_calls_def)
  qed
qed

text \<open>In the header; a header that arrives without a byte of the body goes on with the body of before.\<close>

lemma run_header:
  assumes "ok_header h" and "\<forall>c \<in> set cs. wf_chunk junk c" and "answers_call J cs (rc_callbacks s0) i acts"
    and "rc_header s @ rest = h @ chunked cs" and "rc_message s = []" "rc_conn s" "rc_callbacks s = rc_callbacks s0"
    and "rc_header s \<noteq> h \<or> rc_body s = []"
  shows "find_sub crlf2 (rc_header s) = None \<and> rest \<noteq> [] \<and>
      raw_run J junk Read_header s [] = succeed (s, [Raw_read WAITING_HEADER]) \<or>
    (\<exists>s'. raw_run J junk Read_header s [] = succeed (s', [Raw_read WAITING_BODY]) \<and> in_body cs rest s0 s') \<or>
    (\<exists>s'. raw_run J junk Read_header s [] = succeed (s', acts @ [Raw_read WAITING_HEADER]) \<and> after_body i rest s0 s')"
proof (cases "find_sub crlf2 (rc_header s)")
  case None
  then have "raw_step J junk Read_header s = Some (Inr (None, s, [Raw_read WAITING_HEADER]))"
    using assms(6) by (simp add: raw_read_header_def raw_async_read_def succeed_def)
  from raw_run_step(1) [OF this, of "[]"] have "raw_run J junk Read_header s [] = succeed (s, [Raw_read WAITING_HEADER])" by simp
  moreover have "rest \<noteq> []"
    using None assms(1,4) find_sub_append [of crlf2 h "length h - 4" "chunked cs"] by (auto simp: ok_header_def)
  ultimately show ?thesis using None by blast
next
  case (Some pos)
  have h: "find_sub crlf2 h = Some (length h - 4)" "length h - 4 + 4 = length h"
    using assms(1) find_sub_SomeD [of crlf2 h "length h - 4"] by (auto simp: ok_header_def crlf2_def crlf_def)
  have "pos = length h - 4"
    using find_sub_append [OF Some, of rest] find_sub_append [OF h(1), of "chunked cs"] assms(4) by simp
  with h(2) have pos: "pos + 4 = length h" by simp
  have "length h \<le> length (rc_header s)" using find_sub_SomeD [OF Some] pos by (simp add: crlf2_def crlf_def)
  then have hd: "rc_header s = h @ drop (length h) (rc_header s)" "drop (length h) (rc_header s) @ rest = chunked cs"
    using assms(4) by (metis append_eq_append_conv_if append_take_drop_id)+
  have body: "raw_run J junk Read_header t [] = raw_run J junk Read_body (t\<lparr>rc_header := []\<rparr>) []"
    if "rc_header t = h" for t
    using raw_run_step(2) [of J junk Read_header t Read_body "t\<lparr>rc_header := []\<rparr>" "[]" "[]"] that h assms(1)
    by (simp add: raw_read_header_def succeed_def ok_header_def)
  let ?t = "s\<lparr>rc_body := drop (length h) (rc_header s), rc_header := []\<rparr>"
  have "raw_run J junk Read_header s [] = raw_run J junk Read_body ?t []"
  proof (cases "length h < length (rc_header s)")
    case True
    let ?u = "s\<lparr>rc_body := drop (length h) (rc_header s), rc_header := take (length h) (rc_header s)\<rparr>"
    have "raw_step J junk Read_header s = Some (Inr (Some Read_header, ?u, []))"
      using Some pos True by (simp add: raw_read_header_def succeed_def)
    moreover have "take (length h) (rc_header s) = h" using hd(1) by (metis append_eq_conv_conj)
    then have "rc_header ?u = h" by simp
    ultimately show ?thesis using raw_run_step(2) [of J junk Read_header s Read_header ?u "[]" "[]"] body [of ?u] by simp
  next
    case False
    with hd(1) have "drop (length h) (rc_header s) = []" "rc_header s = h" by (auto simp: not_less)
    moreover from this(2) have "s\<lparr>rc_body := [], rc_header := []\<rparr> = s\<lparr>rc_header := []\<rparr>" using assms(8) by (cases s) simp
    ultimately show ?thesis using body [of s] by simp
  qed
  with run_body [OF assms(2,3), of "[]" cs ?t rest "[]"] hd(2) assms(5-7) show ?thesis by (simp add: payload_def)
qed


text \<open>
  C18: A successful response (status 200) in chunks, whose sizes and data have no carriage return, and whose text is a JSON value with the
  number of a call that waits and a result or error the contract can read, is given to the function of that call, once, with what the
  chunks hold together, in whatever pieces it arrives, and the contract reads on. What is left of the response of before may precede
  the header. A piece must not end with the header, unless nothing of an earlier body is left.
\<close>

theorem raw_response_delivered:
  assumes "ok_header h" and "\<forall>c \<in> set cs. wf_chunk junk c"
    and "answers_call J cs (rc_callbacks s) i acts" and "raw_calls acts = acts"
    and "rc_header s @ concat bs = h @ chunked cs" and "find_sub crlf2 (rc_header s) = None"
    and "rc_message s = []" and "rc_conn s"
    and "rc_body s = [] \<or> (\<forall>us vs. bs = us @ vs \<longrightarrow> rc_header s @ concat us \<noteq> h)"
  shows "\<exists>s' as. raw_feed J junk s (Some WAITING_HEADER) bs = succeed (s', Some WAITING_HEADER, as) \<and>
    raw_calls as = acts \<and> rc_callbacks s' = AList.delete i (rc_callbacks s) \<and> rc_header s' = crlf \<and> rc_message s' = []"
proof -
  have "\<exists>s' as. raw_feed J junk t (Some WAITING_HEADER) bs = succeed (s', Some WAITING_HEADER, as) \<and> raw_calls as = acts \<and>
      after_body i [] s s'"
    if "rc_header t @ concat bs = h @ chunked cs" "find_sub crlf2 (rc_header t) = None" "rc_message t = []" "rc_conn t"
      "rc_callbacks t = rc_callbacks s" "rc_body t = [] \<or> (\<forall>us vs. bs = us @ vs \<longrightarrow> rc_header t @ concat us \<noteq> h)" for t
    using that
  proof (induction bs arbitrary: t)
    case Nil
    then have "find_sub crlf2 (h @ chunked cs) = None" by simp
    with assms(1) find_sub_append [of crlf2 h "length h - 4" "chunked cs"] show ?case by (simp add: ok_header_def)
  next
    case (Cons b bs)
    let ?t = "t\<lparr>rc_header := rc_header t @ b\<rparr>"
    have rec: "raw_on_message_received J junk t b WAITING_HEADER = raw_run J junk Read_header ?t []"
      by (simp add: raw_on_message_received_def)
    have "rc_header t @ concat (b # us) \<noteq> h" if "rc_body t \<noteq> []" "b # bs = (b # us) @ vs" for us vs
      using Cons.prems(6) that by blast
    then have split: "rc_body ?t = [] \<or> (\<forall>us vs. bs = us @ vs \<longrightarrow> rc_header ?t @ concat us \<noteq> h)"
      by auto
    then have "rc_header ?t \<noteq> h \<or> rc_body ?t = []" by (auto dest: spec [of _ "[]"])
    with run_header [OF assms(1,2,3), of ?t "concat bs"] Cons.prems consider
        "find_sub crlf2 (rc_header ?t) = None" "raw_run J junk Read_header ?t [] = succeed (?t, [Raw_read WAITING_HEADER])"
      | s' where "raw_run J junk Read_header ?t [] = succeed (s', [Raw_read WAITING_BODY])" "in_body cs (concat bs) s s'"
      | s' where "raw_run J junk Read_header ?t [] = succeed (s', acts @ [Raw_read WAITING_HEADER])" "after_body i (concat bs) s s'"
      by auto
    then show ?case
    proof cases
      case 1
      with Cons.IH [of ?t] Cons.prems split rec show ?thesis by (auto simp: raw_calls_def)
    next
      case 2
      with feed_body [OF assms(2,3,4) 2(2)] rec show ?thesis by (auto simp: raw_calls_def)
    next
      case 3
      with feed_after [OF 3(2), of J junk] rec assms(4) show ?thesis by (auto simp: raw_calls_def)
    qed
  qed
  from this [of s] assms show ?thesis by (auto simp: after_body_def)
qed


definition sample_header :: string where
  "sample_header = ''HTTP/1.1 200 OK'' @ crlf @ ''Server: x'' @ crlf2"

lemma sample_header_ok: "ok_header sample_header"
  by code_simp

theorem raw_response_delivered_witness:
  "\<exists>s' as. raw_feed simple_json 0 waiting_contract (Some WAITING_HEADER)
      [take 20 (sample_header @ chunked [(''3'', ''ans''), (''3'', ''wer'')]), drop 20 (sample_header @ chunked [(''3'', ''ans''), (''3'', ''wer'')])] =
      succeed (s', Some WAITING_HEADER, as) \<and> raw_calls as = [Raw_callback 7 status_ok ''2a''] \<and> rc_callbacks s' = [] \<and>
    rc_header s' = crlf \<and> rc_message s' = []"
proof -
  let ?cs = "[(''3'', ''ans''), (''3'', ''wer'')]"
  have 1: "\<forall>c \<in> set ?cs. wf_chunk 0 c" by code_simp
  have 2: "answers_call simple_json ?cs (rc_callbacks waiting_contract) 1 [Raw_callback 7 status_ok ''2a'']"
    by (simp add: answers_call_def simple_json_def payload_def find_key_def waiting_contract_def raw_answer_def get_string_def data_substr_def)
  have 3: "raw_calls [Raw_callback 7 status_ok ''2a''] = [Raw_callback 7 status_ok ''2a'']" by (simp add: raw_calls_def)
  let ?bs = "[take 20 (sample_header @ chunked ?cs), drop 20 (sample_header @ chunked ?cs)]"
  have 4: "rc_header waiting_contract @ concat ?bs = sample_header @ chunked ?cs"
    by (simp add: waiting_contract_def del: take_append drop_append)
  have 5: "find_sub crlf2 (rc_header waiting_contract) = None" "rc_message waiting_contract = []" "rc_conn waiting_contract"
    "rc_body waiting_contract = [] \<or> (\<forall>us vs. ?bs = us @ vs \<longrightarrow> rc_header waiting_contract @ concat us \<noteq> sample_header)"
    by (simp_all add: waiting_contract_def crlf2_def crlf_def)
  have "AList.delete 1 (rc_callbacks waiting_contract) = []" by (simp add: waiting_contract_def)
  with raw_response_delivered [OF sample_header_ok 1 2 3 4 5] show ?thesis by metis
qed

section \<open>Defects\<close>

text \<open>
  The end of a response leaves its last chunk in the buffer of the body. When the header of the next response arrives
  alone, that chunk is taken for its body: the empty message is no JSON value, and the exception leaves the callback of the connection.
\<close>

theorem raw_header_alone_throws:
  assumes "ok_header (rc_header s @ b)" and "rc_body s = ''0'' @ crlf @ crlf" and "rc_message s = []" and "jparse J [] = None"
  shows "raw_on_message_received J junk s b WAITING_HEADER = Some (Inl (Json_error (jwhat J [])))"
proof -
  let ?s = "s\<lparr>rc_header := rc_header s @ b\<rparr>"
  have "find_sub crlf2 (rc_header s @ b) = Some (length (rc_header s @ b) - 4)" "4 \<le> length (rc_header s @ b)"
    using assms(1) find_sub_SomeD [of crlf2 "rc_header s @ b"] by (auto simp: ok_header_def crlf2_def crlf_def)
  then have 1: "raw_step J junk Read_header ?s = Some (Inr (Some Read_body, ?s\<lparr>rc_header := []\<rparr>, []))"
    using assms(1) by (simp add: raw_read_header_def ok_header_def succeed_def)
  have "find_sub crlf (''0'' @ crlf @ crlf) = Some 1" "hex_to_dec junk ''0'' = 0" by code_simp+
  then have 2: "raw_step J junk Read_body (?s\<lparr>rc_header := []\<rparr>) = Some (Inr (Some (Handle_message status_ok),
      ?s\<lparr>rc_header := crlf\<rparr>, []))"
    using assms(2) by (simp add: raw_read_body_def succeed_def crlf_def)
  have 3: "raw_step J junk (Handle_message status_ok) (?s\<lparr>rc_header := crlf\<rparr>) = Some (Inl (Json_error (jwhat J [])))"
    using assms(3,4) by (simp add: raw_handle_message_def)
  show ?thesis using raw_run_step(2) [OF 1] raw_run_step(2) [OF 2] raw_run_step(3) [OF 3]
    by (simp add: raw_on_message_received_def)
qed

theorem raw_header_alone_throws_witness:
  "raw_on_message_received simple_json 0 (waiting_contract\<lparr>rc_header := crlf, rc_body := ''0'' @ crlf @ crlf\<rparr>) sample_header WAITING_HEADER =
     Some (Inl (Json_error ''parse error''))"
proof -
  have "ok_header (crlf @ sample_header)" by code_simp
  then show ?thesis
    using raw_header_alone_throws [of "waiting_contract\<lparr>rc_header := crlf, rc_body := ''0'' @ crlf @ crlf\<rparr>" sample_header simple_json 0]
    by (simp add: waiting_contract_def simple_json_def)
qed

text \<open>
  After a response other than success nothing is read any more: no read is asked for, and no function is called.
\<close>

lemma raw_failure_stops_reading:
  assumes "find_sub crlf2 (rc_header s @ b) = Some (length (rc_header s @ b) - 4)"
    and "first_line (rc_header s @ b) \<noteq> ''HTTP/1.1 200 OK'' @ [CHR 0x0D]"
  shows "raw_on_message_received J junk s b WAITING_HEADER = succeed (s\<lparr>rc_header := [], rc_message := []\<rparr>, [])"
proof -
  let ?s = "s\<lparr>rc_header := rc_header s @ b\<rparr>" and ?e = "status_aborted (first_line (rc_header s @ b))"
  have "4 \<le> length (rc_header s @ b)" using find_sub_SomeD [OF assms(1)] by (simp add: crlf2_def crlf_def)
  then have 1: "raw_step J junk Read_header ?s = Some (Inr (Some (Handle_message ?e), s\<lparr>rc_header := [], rc_message := []\<rparr>, []))"
    using assms by (simp add: raw_read_header_def succeed_def)
  have 2: "raw_step J junk (Handle_message ?e) (s\<lparr>rc_header := [], rc_message := []\<rparr>) =
      Some (Inr (None, s\<lparr>rc_header := [], rc_message := []\<rparr>, []))"
    by (simp add: raw_handle_message_def status_aborted_def succeed_def)
  show ?thesis using raw_run_step(2) [OF 1] raw_run_step(1) [OF 2] by (simp add: raw_on_message_received_def)
qed

text \<open>An error of the connection forgets the calls that wait, without telling their functions.\<close>

lemma raw_error_forgets_calls: "code st \<noteq> OK \<Longrightarrow> rc_callbacks (raw_on_connection_error s st) = []"
  by (simp add: raw_on_connection_error_def)

text \<open>A call that cannot be connected is answered at once, and so are all that wait.\<close>

lemma raw_call_not_connected:
  assumes "map_of (rc_signatures s) fname = Some (selector, tx)" and "\<not> rc_conn s" and "rc_callbacks s = []"
  shows "\<exists>s'. raw_call s from fname params callback (succeed False) state = succeed (s',
      [Raw_create (rc_server s), Raw_callback callback (status_internal ''Could not connect to server!'') []]) \<and>
    rc_callbacks s' = [] \<and> \<not> rc_conn s'"
  using assms by (simp add: raw_call_def Let_def)

end
