(* ===== verification/Lua_Node.thy ===== *)
theory Lua_Node
  imports Node
begin

text \<open>
  Nodes whose behaviour is a Lua script, \<^verbatim>\<open>core/node/lua_node/lua_node.cc\<close>. The Lua library is a parameter: running a
  text and calling a function change the state of the script, may ask something of the node and give a value, an
  error of the script or a C++ exception. A function is a number, \<open>None\<close> is \<^verbatim>\<open>nil\<close>. The virtual functions of the node put tasks
  in its queue, which the update runs until it is empty. Shown: an update that ends has told the script every event once and
  in order; it does end when the script has no errors and the tasks stop coming; an error of the script in an event ends the program.
\<close>

section \<open>The script\<close>

datatype lua_result = Lua_value string | Lua_error string | Lua_exception string

datatype 'm lua_arg = Arg_number nat | Arg_bool bool | Arg_text string | Arg_msg 'm

datatype 'm lua_request = L_send nat 'm nat | L_log string string | L_connect nat | L_disconnect nat

record ('w, 'm) lua_engine =
  le_set_nodeid :: "string \<Rightarrow> 'w \<Rightarrow> 'w"
  le_global :: "'w \<Rightarrow> string \<Rightarrow> nat option"
  le_script :: "string \<Rightarrow> 'w \<Rightarrow> 'w \<times> 'm lua_request list \<times> lua_result"
  le_call :: "nat option \<Rightarrow> 'm lua_arg list \<Rightarrow> 'w \<Rightarrow> 'w \<times> 'm lua_request list \<times> lua_result"
  le_text :: "lua_result \<Rightarrow> string throws"

text \<open>What leaves the node: calls of the script, what the script asks of the node, and values of promises.\<close>

datatype 'm lua_out = Out_call "nat option" "'m lua_arg list" | Out_request "'m lua_request" | Out_promise string

datatype 'm lua_task =
    Task_script string bool
  | Task_msg nat nat 'm
  | Task_sent nat nat bool
  | Task_connected nat
  | Task_disconnected nat

record ('w, 'm) lua_node =
  ln_nodeid :: string
  ln_protoid :: string
  ln_world :: 'w
  ln_on_update :: "nat option"
  ln_on_connected :: "nat option"
  ln_on_disconnected :: "nat option"
  ln_on_msg_sent :: "nat option"
  ln_on_debug_html :: "nat option"
  ln_on_msg :: "nat \<rightharpoonup> nat option"
  ln_on_cmd :: "string \<rightharpoonup> nat"
  ln_tasks :: "'m lua_task list"

fun fresult :: "lua_result \<Rightarrow> string" where
  "fresult (Lua_error e) = e"
| "fresult r = []"

section \<open>Starting\<close>

text \<open>An error of a script is logged; an exception leaves the function.\<close>

fun run_scripts :: "('w, 'm) lua_engine \<Rightarrow> string list \<Rightarrow> 'w \<Rightarrow> ('w \<times> 'm lua_request list) throws" where
  "run_scripts E [] w = return (w, [])"
| "run_scripts E (s # ss) w =
     (case le_script E s w of (w, rs, r) \<Rightarrow>
        (case r of
           Lua_exception e \<Rightarrow> throw (Runtime_error e)
         | _ \<Rightarrow> map_sum id (\<lambda>(w, rs'). (w, rs @ rs')) (run_scripts E ss w)))"

definition init_bindings ::
  "('w, 'm) lua_engine \<Rightarrow> string list \<Rightarrow> string list \<Rightarrow> string list \<Rightarrow> ('w, 'm) lua_node \<Rightarrow>
   (('w, 'm) lua_node \<times> 'm lua_request list) throws" where
  "init_bindings E lua_scripts wire_msgs commands n =
     (case run_scripts E lua_scripts (le_set_nodeid E (ln_nodeid n) (ln_world n)) of
        Inl e \<Rightarrow> throw e
      | Inr (w, rs) \<Rightarrow>
          return (n\<lparr>ln_world := w, ln_on_update := le_global E w ''update'', ln_on_connected := le_global E w ''connected'',
            ln_on_disconnected := le_global E w ''disconnected'', ln_on_msg_sent := le_global E w ''sent'',
            ln_on_debug_html := le_global E w ''debug_html'',
            ln_on_msg := (\<lambda>i. if i < length wire_msgs then Some (le_global E w (''on_'' @ wire_msgs ! i)) else None),
            ln_on_cmd := (\<lambda>c. if c \<in> set commands then le_global E w c else None)\<rparr>, rs))"

text \<open>\<open>values\<close> gives the files in the order of their map.\<close>

definition lua_node_init ::
  "('w, 'm) lua_engine \<Rightarrow> protocols \<Rightarrow> ((string \<rightharpoonup> string) \<Rightarrow> string list) \<Rightarrow> ('w, 'm) lua_node \<Rightarrow>
   (('w, 'm) lua_node \<times> 'm lua_request list) throws" where
  "lua_node_init E ps values n =
     (case get_protocol ps (ln_protoid n) of
        None \<Rightarrow> throw (Invalid_argument (''No such protocol: '' @ ln_protoid n))
      | Some proto \<Rightarrow>
          init_bindings E (values (get_files proto ''lua_scripts'')) (get_wire_msgs proto) (get_commands proto) n)"

definition lua_node_new :: "string \<Rightarrow> string \<Rightarrow> 'w \<Rightarrow> ('w, 'm) lua_node" where
  "lua_node_new i proto w = \<lparr>ln_nodeid = i, ln_protoid = proto, ln_world = w, ln_on_update = None, ln_on_connected = None,
     ln_on_disconnected = None, ln_on_msg_sent = None, ln_on_debug_html = None, ln_on_msg = Map.empty,
     ln_on_cmd = Map.empty, ln_tasks = []\<rparr>"

section \<open>Commands\<close>

text \<open>After an exception the result is empty; \<open>no_result\<close> is what its conversion gives.\<close>

definition lua_process_cmd ::
  "('w, 'm) lua_engine \<Rightarrow> string outcome \<Rightarrow> ('w, 'm) lua_node \<Rightarrow> string \<Rightarrow> string \<Rightarrow>
   (('w, 'm) lua_node \<times> 'm lua_out list \<times> string) outcome" where
  "lua_process_cmd E no_result n cmd m =
     (case ln_on_cmd n cmd of
        None \<Rightarrow> succeed (n, [], [])
      | Some f \<Rightarrow>
          let args = (if m \<noteq> [] then [Arg_text m] else []) in
          (case le_call E (Some f) args (ln_world n) of (w, rs, r) \<Rightarrow>
             let n = n\<lparr>ln_world := w\<rparr>; out = Out_call (Some f) args # map Out_request rs in
             (case r of
                Lua_exception e \<Rightarrow> and_then no_result (\<lambda>t. succeed (n, out, t))
              | Lua_error e \<Rightarrow> succeed (n, out, [])
              | Lua_value v \<Rightarrow> and_then (Some (le_text E r)) (\<lambda>t. succeed (n, out, t)))))"

section \<open>Virtual functions\<close>

definition lua_add_task :: "'m lua_task \<Rightarrow> ('w, 'm) lua_node \<Rightarrow> ('w, 'm) lua_node" where
  "lua_add_task t n = n\<lparr>ln_tasks := ln_tasks n @ [t]\<rparr>"

definition lua_script :: "string \<Rightarrow> bool \<Rightarrow> ('w, 'm) lua_node \<Rightarrow> ('w, 'm) lua_node" where
  "lua_script command with_result n = lua_add_task (Task_script command with_result) n"

text \<open>
  The first byte is a signed \<^verbatim>\<open>char\<close>, converted to 32 bits without a sign for the lookup. A message of another kind ends the
  program; so does \<open>decode\<close>, the function \<^verbatim>\<open>get_wire_msg\<close> of the node, for one it does not know. What \<open>decode\<close> throws leaves
  the function.
\<close>

definition wire_key :: "string \<Rightarrow> nat" where
  "wire_key blob = nat ((case blob of [] \<Rightarrow> 0 | c # _ \<Rightarrow> schar c) mod 2 ^ 32)"

definition lua_on_blob_received ::
  "(string \<Rightarrow> 'm outcome) \<Rightarrow> nat \<Rightarrow> string \<Rightarrow> ('w, 'm) lua_node \<Rightarrow> ('w, 'm) lua_node outcome" where
  "lua_on_blob_received decode p blob n =
     (if ln_on_msg n (wire_key blob) = None then None
      else and_then (decode blob) (\<lambda>m. succeed (lua_add_task (Task_msg (wire_key blob) p m) n)))"

definition lua_on_msg_sent :: "nat \<Rightarrow> nat \<Rightarrow> status \<Rightarrow> ('w, 'm) lua_node \<Rightarrow> ('w, 'm) lua_node" where
  "lua_on_msg_sent c i s n = lua_add_task (Task_sent c i (code s = OK)) n"

definition lua_on_connected :: "nat \<Rightarrow> ('w, 'm) lua_node \<Rightarrow> ('w, 'm) lua_node" where
  "lua_on_connected p n = lua_add_task (Task_connected p) n"

definition lua_on_disconnected :: "nat \<Rightarrow> ('w, 'm) lua_node \<Rightarrow> ('w, 'm) lua_node" where
  "lua_on_disconnected p n = lua_add_task (Task_disconnected p) n"

definition lua_on_error :: "nat \<Rightarrow> string \<Rightarrow> ('w, 'm) lua_node \<Rightarrow> ('w, 'm) lua_node" where
  "lua_on_error p m n = n"

section \<open>Updates\<close>

definition call_event ::
  "('w, 'm) lua_engine \<Rightarrow> nat option \<Rightarrow> 'm lua_arg list \<Rightarrow> ('w, 'm) lua_node \<Rightarrow> ('w, 'm) lua_node \<times> 'm lua_out list \<times> string" where
  "call_event E f args n =
     (case le_call E f args (ln_world n) of (w, rs, r) \<Rightarrow>
        (n\<lparr>ln_world := w\<rparr>, Out_call f args # map Out_request rs, fresult r))"

fun lua_run_task ::
  "('w, 'm) lua_engine \<Rightarrow> 'm lua_task \<Rightarrow> ('w, 'm) lua_node \<Rightarrow> ('w, 'm) lua_node \<times> 'm lua_out list \<times> string" where
  "lua_run_task E (Task_script command with_result) n =
     (case le_script E command (ln_world n) of (w, rs, r) \<Rightarrow>
        (n\<lparr>ln_world := w\<rparr>, map Out_request rs @
           (case r of Lua_exception e \<Rightarrow> []
            | _ \<Rightarrow> (if with_result then (case le_text E r of Inl e \<Rightarrow> [] | Inr t \<Rightarrow> [Out_promise t]) else [])), []))"
| "lua_run_task E (Task_msg wire_id p m) n =
     call_event E (case ln_on_msg n wire_id of Some f \<Rightarrow> f | None \<Rightarrow> None) [Arg_number p, Arg_msg m] n"
| "lua_run_task E (Task_sent c i ok) n = call_event E (ln_on_msg_sent n) [Arg_number c, Arg_number i, Arg_bool ok] n"
| "lua_run_task E (Task_connected p) n = call_event E (ln_on_connected n) [Arg_number p] n"
| "lua_run_task E (Task_disconnected p) n = call_event E (ln_on_disconnected n) [Arg_number p] n"

definition lua_s_update ::
  "('w, 'm) lua_engine \<Rightarrow> nat \<Rightarrow> ('w, 'm) lua_node \<Rightarrow> ('w, 'm) lua_node \<times> 'm lua_out list" where
  "lua_s_update E time n =
     (if ln_on_update n \<noteq> None then
        (case call_event E (ln_on_update n) [Arg_number time] n of (n, out, r) \<Rightarrow> (n, out))
      else (n, []))"

definition lua_s_debug_html ::
  "('w, 'm) lua_engine \<Rightarrow> ('w, 'm) lua_node \<Rightarrow> ('w, 'm) lua_node \<times> 'm lua_out list \<times> string" where
  "lua_s_debug_html E n =
     (case le_call E (ln_on_debug_html n) [] (ln_world n) of (w, rs, r) \<Rightarrow>
        (n\<lparr>ln_world := w\<rparr>, Out_call (ln_on_debug_html n) [] # map Out_request rs,
         (case r of
            Lua_value v \<Rightarrow> (case le_text E r of Inl e \<Rightarrow> [] | Inr t \<Rightarrow> t)
          | Lua_error e \<Rightarrow> ''Invalid or missing debug_html() in script.''
          | Lua_exception e \<Rightarrow> [])))"

text \<open>
  The loop over the tasks in \<^verbatim>\<open>node::process_update\<close>, which goes on until the queue is empty. While a task runs, further tasks come:
  what the script asks of the node may put some there, the report of a message that cannot be sent for instance, and so may
  other threads. \<open>arrivals k\<close> are those that come during the \<open>k\<close>-th call, of which the update function is the first. A task whose
  result is not empty ends the program, which the flag \<open>False\<close> stands for. \<open>None\<close> is an update that never ends.
\<close>

partial_function (option) lua_run_tasks ::
  "('w, 'm) lua_engine \<Rightarrow> (nat \<Rightarrow> 'm lua_task list) \<Rightarrow> nat \<Rightarrow> ('w, 'm) lua_node \<Rightarrow>
   (('w, 'm) lua_node \<times> 'm lua_out list \<times> bool) option" where
  "lua_run_tasks E arrivals k n =
     (case ln_tasks n of
        [] \<Rightarrow> Some (n, [], True)
      | t # ts \<Rightarrow>
          (case lua_run_task E t (n\<lparr>ln_tasks := ts\<rparr>) of (n, out, r) \<Rightarrow>
             if r = [] then
               Option.bind (lua_run_tasks E arrivals (Suc k) (n\<lparr>ln_tasks := ln_tasks n @ arrivals k\<rparr>))
                 (\<lambda>(n, out', ok). Some (n, out @ out', ok))
             else Some (n, out, False)))"

declare lua_run_tasks.simps [code]

definition lua_process_update ::
  "('w, 'm) lua_engine \<Rightarrow> (nat \<Rightarrow> 'm lua_task list) \<Rightarrow> nat \<Rightarrow> ('w, 'm) lua_node \<Rightarrow>
   (('w, 'm) lua_node \<times> 'm lua_out list \<times> bool) option" where
  "lua_process_update E arrivals time n =
     (case lua_s_update E time n of (n, out) \<Rightarrow>
        Option.bind (lua_run_tasks E arrivals 1 (n\<lparr>ln_tasks := ln_tasks n @ arrivals 0\<rparr>))
          (\<lambda>(n, out', ok). Some (n, out @ out', ok)))"

section \<open>Properties\<close>

datatype lua_event = Ev_blob nat string | Ev_sent nat nat status | Ev_connected nat | Ev_disconnected nat | Ev_error nat string

text \<open>The loops that call the handlers catch what they throw.\<close>

definition caught :: "'a \<Rightarrow> 'a outcome \<Rightarrow> 'a option" where
  "caught x r = map_option (\<lambda>r. case r of Inl e \<Rightarrow> x | Inr y \<Rightarrow> y) r"

fun lua_handle :: "(string \<Rightarrow> 'm outcome) \<Rightarrow> lua_event \<Rightarrow> ('w, 'm) lua_node \<Rightarrow> ('w, 'm) lua_node option" where
  "lua_handle decode (Ev_blob p blob) n = caught n (lua_on_blob_received decode p blob n)"
| "lua_handle decode (Ev_sent c i s) n = Some (lua_on_msg_sent c i s n)"
| "lua_handle decode (Ev_connected p) n = Some (lua_on_connected p n)"
| "lua_handle decode (Ev_disconnected p) n = Some (lua_on_disconnected p n)"
| "lua_handle decode (Ev_error p m) n = Some (lua_on_error p m n)"

fun lua_events :: "(string \<Rightarrow> 'm outcome) \<Rightarrow> lua_event list \<Rightarrow> ('w, 'm) lua_node \<Rightarrow> ('w, 'm) lua_node option" where
  "lua_events decode [] n = Some n"
| "lua_events decode (e # es) n = Option.bind (lua_handle decode e n) (lua_events decode es)"

text \<open>The call of the script that an event leads to; a message that cannot be decoded leads to none.\<close>

fun told :: "(string \<Rightarrow> 'm outcome) \<Rightarrow> ('w, 'm) lua_node \<Rightarrow> lua_event \<Rightarrow> 'm lua_out list" where
  "told decode n (Ev_blob p blob) =
     (case decode blob of Some (Inr m) \<Rightarrow> [Out_call (the (ln_on_msg n (wire_key blob))) [Arg_number p, Arg_msg m]] | _ \<Rightarrow> [])"
| "told decode n (Ev_sent c i s) = [Out_call (ln_on_msg_sent n) [Arg_number c, Arg_number i, Arg_bool (code s = OK)]]"
| "told decode n (Ev_connected p) = [Out_call (ln_on_connected n) [Arg_number p]]"
| "told decode n (Ev_disconnected p) = [Out_call (ln_on_disconnected n) [Arg_number p]]"
| "told decode n (Ev_error p m) = []"

text \<open>The calls of the script among what leaves the node, and the one that a task leads to.\<close>

definition script_calls :: "'m lua_out list \<Rightarrow> 'm lua_out list" where
  "script_calls out = filter (\<lambda>x. case x of Out_call f args \<Rightarrow> True | _ \<Rightarrow> False) out"

fun task_call :: "('w, 'm) lua_node \<Rightarrow> 'm lua_task \<Rightarrow> 'm lua_out list" where
  "task_call n (Task_script command with_result) = []"
| "task_call n (Task_msg wire_id p m) =
     [Out_call (case ln_on_msg n wire_id of Some f \<Rightarrow> f | None \<Rightarrow> None) [Arg_number p, Arg_msg m]]"
| "task_call n (Task_sent c i ok) = [Out_call (ln_on_msg_sent n) [Arg_number c, Arg_number i, Arg_bool ok]]"
| "task_call n (Task_connected p) = [Out_call (ln_on_connected n) [Arg_number p]]"
| "task_call n (Task_disconnected p) = [Out_call (ln_on_disconnected n) [Arg_number p]]"

fun task_of :: "(string \<Rightarrow> 'm outcome) \<Rightarrow> lua_event \<Rightarrow> 'm lua_task list" where
  "task_of decode (Ev_blob p blob) = (case decode blob of Some (Inr m) \<Rightarrow> [Task_msg (wire_key blob) p m] | _ \<Rightarrow> [])"
| "task_of decode (Ev_sent c i s) = [Task_sent c i (code s = OK)]"
| "task_of decode (Ev_connected p) = [Task_connected p]"
| "task_of decode (Ev_disconnected p) = [Task_disconnected p]"
| "task_of decode (Ev_error p m) = []"

lemma lua_handle_task:
  assumes "lua_handle decode e n = Some n'"
  shows "n' = n\<lparr>ln_tasks := ln_tasks n @ task_of decode e\<rparr>" and "concat (map (task_call n) (task_of decode e)) = told decode n e"
proof -
  have "n' = n\<lparr>ln_tasks := ln_tasks n @ task_of decode e\<rparr> \<and> concat (map (task_call n) (task_of decode e)) = told decode n e"
    using assms
    by (cases e) (auto simp: lua_on_blob_received_def lua_on_msg_sent_def lua_on_connected_def lua_on_disconnected_def
        lua_on_error_def lua_add_task_def caught_def and_then_def succeed_def split: if_splits option.splits sum.splits)
  then show "n' = n\<lparr>ln_tasks := ln_tasks n @ task_of decode e\<rparr>" "concat (map (task_call n) (task_of decode e)) = told decode n e"
    by auto
qed

lemma node_views [simp]:
  "told decode (n\<lparr>ln_tasks := ts\<rparr>) = told decode n" "told decode (n\<lparr>ln_world := w\<rparr>) = told decode n"
  "task_call (n\<lparr>ln_tasks := ts\<rparr>) = task_call n" "task_call (n\<lparr>ln_world := w\<rparr>) = task_call n"
  by (rule ext, case_tac x; simp split: option.split sum.split)+

lemma lua_events_tasks:
  "lua_events decode es n = Some n' \<Longrightarrow> n' = n\<lparr>ln_tasks := ln_tasks n @ concat (map (task_of decode) es)\<rparr> \<and>
    concat (map (task_call n) (concat (map (task_of decode) es))) = concat (map (told decode n) es)"
proof (induction es arbitrary: n)
  case (Cons e es)
  then obtain n1 where 1: "lua_handle decode e n = Some n1" "lua_events decode es n1 = Some n'"
    by (auto split: Option.bind_splits)
  from Cons.IH [OF 1(2)] lua_handle_task [OF 1(1)] show ?case by simp
qed simp

lemma script_calls_simps [simp]: "script_calls [] = []" "script_calls (a @ b) = script_calls a @ script_calls b"
  "script_calls (Out_call f args # out) = Out_call f args # script_calls out" "script_calls (map Out_request rs) = []"
  "script_calls [Out_promise s] = []"
  by (simp_all add: script_calls_def comp_def)

lemma call_event_calls:
  assumes "call_event E f args n = (n', out, r)"
  shows "script_calls out = [Out_call f args]" "\<exists>w. n' = n\<lparr>ln_world := w\<rparr>" "r = fresult (snd (snd (le_call E f args (ln_world n))))"
  using assms by (auto simp: call_event_def split: prod.splits)

text \<open>One task: it changes the state of the script only and leads to its call.\<close>

lemma run_task_call:
  assumes "lua_run_task E t n = (n', out, r)"
  shows "(\<exists>w. n' = n\<lparr>ln_world := w\<rparr>) \<and> script_calls out = task_call n t"
proof (cases t)
  case (Task_script command with_result)
  with assms show ?thesis by (auto split: prod.splits lua_result.splits sum.splits)
next
  case (Task_msg wire_id p m)
  with assms call_event_calls [of E _ _ n n' out r] show ?thesis by auto
qed (use assms call_event_calls [of E _ _ n n' out r] in auto)

text \<open>Lua functions of the node that are not \<^verbatim>\<open>nil\<close>.\<close>

definition callable :: "('w, 'm) lua_node \<Rightarrow> 'm lua_task \<Rightarrow> bool" where
  "callable n t \<longleftrightarrow> (\<forall>f args. Out_call f args \<in> set (task_call n t) \<longrightarrow> f \<noteq> None)"

definition error_free :: "('w, 'm) lua_engine \<Rightarrow> bool" where
  "error_free E \<longleftrightarrow> (\<forall>f args w. fresult (snd (snd (le_call E (Some f) args w))) = [])"

lemma callable_views [simp]: "callable (n\<lparr>ln_tasks := ts\<rparr>) = callable n" "callable (n\<lparr>ln_world := w\<rparr>) = callable n"
  by (simp_all add: callable_def fun_eq_iff)

lemma run_task_ok:
  assumes "error_free E" and "callable n t"
  shows "snd (snd (lua_run_task E t n)) = []"
proof (cases t)
  case (Task_script command with_result)
  then show ?thesis by (simp split: prod.splits)
qed (use assms in \<open>auto simp: callable_def error_free_def call_event_def case_prod_beta split: option.splits\<close>)

section \<open>The loop\<close>

lemma lua_run_tasks_step:
  assumes "ln_tasks n = t # ts" and "lua_run_task E t (n\<lparr>ln_tasks := ts\<rparr>) = (n1, out, [])"
  shows "lua_run_tasks E arrivals k n = map_option (\<lambda>(n', out', ok). (n', out @ out', ok))
    (lua_run_tasks E arrivals (Suc k) (n1\<lparr>ln_tasks := ln_tasks n1 @ arrivals k\<rparr>))"
  using assms by (subst lua_run_tasks.simps) (auto simp: map_option_case Option.bind_def split: option.splits)

lemma lua_run_tasks_calls:
  assumes "lua_run_tasks E arrivals k n = Some r"
  shows "snd (snd r) \<longrightarrow> (\<exists>l. ln_tasks (fst r) = [] \<and>
    script_calls (fst (snd r)) = concat (map (task_call n) (ln_tasks n @ concat (map arrivals [k..<l]))))"
  using assms
proof (induction E arrivals k n r rule: lua_run_tasks.raw_induct [rotated, consumes 1, case_names step])
  case (step run E arrivals k n r)
  note 1 = step
  show ?case
  proof (cases "ln_tasks n")
    case Nil
    with 1 show ?thesis by (auto intro: exI [of _ k])
  next
    case (Cons t ts)
    let ?n = "n\<lparr>ln_tasks := ts\<rparr>"
    obtain n1 out e where t: "lua_run_task E t ?n = (n1, out, e)" by (cases "lua_run_task E t ?n") auto
    from run_task_call [OF t] obtain w where n1: "n1 = ?n\<lparr>ln_world := w\<rparr>" and out: "script_calls out = task_call n t" by auto
    show ?thesis
    proof (cases "e = []")
      case True
      let ?n1 = "n1\<lparr>ln_tasks := ln_tasks n1 @ arrivals k\<rparr>"
      from 1(2) Cons t True obtain n' out' ok where run: "run E arrivals (Suc k) ?n1 = Some (n', out', ok)" "r = (n', out @ out', ok)"
        by (auto simp: Option.bind_eq_Some_conv)
      show ?thesis
      proof
        assume "snd (snd r)"
        with 1(1) [OF run(1)] run(2) n1 obtain l where l: "ln_tasks n' = []"
          "script_calls out' = concat (map (task_call n) (ts @ arrivals k @ concat (map arrivals [Suc k..<l])))" by auto
        have "[k..<max l (Suc k)] = k # [Suc k..<l]" by (simp add: upt_conv_Cons max_def)
        then show "\<exists>l. ln_tasks (fst r) = [] \<and>
            script_calls (fst (snd r)) = concat (map (task_call n) (ln_tasks n @ concat (map arrivals [k..<l])))"
          using l out run(2) Cons by (intro exI [of _ "max l (Suc k)"]) simp
      qed
    next
      case False
      with 1(2) Cons t show ?thesis by auto
    qed
  qed
qed

lemma lua_run_tasks_returns:
  assumes "error_free E" and "\<And>j. K \<le> j \<Longrightarrow> arrivals j = []" and "\<And>j. list_all (callable n) (arrivals j)"
    and "list_all (callable n) (ln_tasks n)"
  shows "\<exists>n' out. lua_run_tasks E arrivals k n = Some (n', out, True)"
  using assms(3-)
proof (induction "length (ln_tasks n) + (\<Sum>j = k..<K. length (arrivals j))" arbitrary: k n rule: less_induct)
  case less
  show ?case
  proof (cases "ln_tasks n")
    case Nil
    then show ?thesis by (subst lua_run_tasks.simps) simp
  next
    case (Cons t ts)
    let ?n = "n\<lparr>ln_tasks := ts\<rparr>"
    obtain n1 out e where t: "lua_run_task E t ?n = (n1, out, e)" by (cases "lua_run_task E t ?n") auto
    have "e = []" using run_task_ok [OF assms(1), of ?n t] t less.prems(2) Cons by simp
    note step = lua_run_tasks_step [OF Cons, of E n1 out, unfolded t this, OF refl]
    from run_task_call [OF t] obtain w where n1: "n1 = ?n\<lparr>ln_world := w\<rparr>" by auto
    have "length (arrivals k) + (\<Sum>j = Suc k..<K. length (arrivals j)) = (\<Sum>j = k..<K. length (arrivals j))"
      using assms(2) [of k] by (cases "k < K") (simp_all add: sum.atLeast_Suc_lessThan)
    then have "\<exists>n' out. lua_run_tasks E arrivals (Suc k) (n1\<lparr>ln_tasks := ln_tasks n1 @ arrivals k\<rparr>) = Some (n', out, True)"
      by (intro less.hyps) (use less.prems Cons n1 in simp_all)
    with step show ?thesis by auto
  qed
qed

text \<open>The call of the update function.\<close>

definition update_call :: "('w, 'm) lua_node \<Rightarrow> nat \<Rightarrow> 'm lua_out list" where
  "update_call n time = (if ln_on_update n \<noteq> None then [Out_call (ln_on_update n) [Arg_number time]] else [])"

lemma lua_s_update_call:
  obtains w out where "lua_s_update E time n = (n\<lparr>ln_world := w\<rparr>, out)" "script_calls out = update_call n time"
proof (cases "ln_on_update n")
  case None
  with that [of "ln_world n" "[]"] show thesis by (simp add: lua_s_update_def update_call_def)
next
  case (Some f)
  obtain n' out r where r: "call_event E (Some f) [Arg_number time] n = (n', out, r)"
    by (cases "call_event E (Some f) [Arg_number time] n") auto
  with call_event_calls [OF r] Some that show thesis by (auto simp: lua_s_update_def update_call_def)
qed

text \<open>
  C40: Between two updates any events happen, none of which ends the program; \<open>arrivals\<close> are tasks that come while the update runs.
  Whenever the update ends and the program goes on, the script has been called as follows: first the \<^verbatim>\<open>update\<close> function, if there
  is one, then the function of every event that happened before, once, in their order and with the arguments of the event, and then
  those of the tasks that came during the update, in their order; and no task is left. And the update does end so when the
  functions of the script have no errors, none of those to be called is missing (\<^verbatim>\<open>nil\<close>), and from some point on no more tasks come.
\<close>

theorem lua_told_every_event:
  assumes "ln_tasks n = []" and "lua_events decode es n = Some n1"
  shows "(\<forall>n2 out. lua_process_update E arrivals time n1 = Some (n2, out, True) \<longrightarrow>
      ln_tasks n2 = [] \<and> (\<exists>l. script_calls out = update_call n time @ concat (map (told decode n) es) @
        concat (map (task_call n) (concat (map arrivals [0..<l]))))) \<and>
    (error_free E \<and> list_all (callable n) (ln_tasks n1) \<and> (\<forall>j. list_all (callable n) (arrivals j)) \<and> (\<exists>K. \<forall>j\<ge>K. arrivals j = []) \<longrightarrow>
      (\<exists>n2 out. lua_process_update E arrivals time n1 = Some (n2, out, True)))"
proof -
  note ev = lua_events_tasks [OF assms(2), unfolded assms(1) append_Nil]
  let ?ts = "concat (map (task_of decode) es)"
  have n1: "n1 = n\<lparr>ln_tasks := ?ts\<rparr>" using ev by blast
  obtain w out where u: "lua_s_update E time n1 = (n1\<lparr>ln_world := w\<rparr>, out)" "script_calls out = update_call n time"
  proof (rule lua_s_update_call [of E time n1])
    fix w out assume "lua_s_update E time n1 = (n1\<lparr>ln_world := w\<rparr>, out)" "script_calls out = update_call n1 time"
    then show thesis using that by (simp add: n1 update_call_def)
  qed
  let ?n = "n1\<lparr>ln_world := w, ln_tasks := ?ts @ arrivals 0\<rparr>"
  have run: "lua_process_update E arrivals time n1 =
      Option.bind (lua_run_tasks E arrivals 1 ?n) (\<lambda>(n, out', ok). Some (n, out @ out', ok))"
    using u(1) by (simp add: lua_process_update_def n1)
  have "ln_tasks n2 = [] \<and> (\<exists>l. script_calls out2 = update_call n time @ concat (map (told decode n) es) @
        concat (map (task_call n) (concat (map arrivals [0..<l]))))"
    if r: "lua_process_update E arrivals time n1 = Some (n2, out2, True)" for n2 out2
  proof -
    from r run obtain out' where o: "lua_run_tasks E arrivals 1 ?n = Some (n2, out', True)" "out2 = out @ out'"
      by (auto simp: Option.bind_eq_Some_conv)
    from lua_run_tasks_calls [OF o(1)] obtain l where l: "ln_tasks n2 = []"
      "script_calls out' = concat (map (task_call n) ((?ts @ arrivals 0) @ concat (map arrivals [1..<l])))" by (auto simp: n1)
    have "[0..<max l 1] = 0 # [1..<l]" by (simp add: upt_conv_Cons max_def)
    then show ?thesis using l ev u(2) o(2) by (intro conjI exI [of _ "max l 1"]) simp_all
  qed
  moreover have "\<exists>n2 out. lua_process_update E arrivals time n1 = Some (n2, out, True)"
    if "error_free E" "list_all (callable n) (ln_tasks n1)" "\<And>j. list_all (callable n) (arrivals j)" "\<And>j. K \<le> j \<Longrightarrow> arrivals j = []" for K
    using lua_run_tasks_returns [of E K arrivals ?n 1] that run by (auto simp: n1)
  ultimately show ?thesis by blast
qed

text \<open>
  The message with a wire identifier is told to the function of the script that is named after it. An identifier of 128 and more is
  negative as a \<^verbatim>\<open>char\<close>, and an unknown one has no function: both end the program of the node that receives it.
\<close>

theorem lua_wire_dispatch:
  assumes "init_bindings E scripts wire_msgs commands n0 = Inr (n, rs)" and "i < 256"
    and "length wire_msgs < 2 ^ 31" and "decode (char_of i # data) = succeed m"
  shows "lua_on_blob_received decode p (char_of i # data) n =
      (if i < 128 \<and> i < length wire_msgs then succeed (lua_add_task (Task_msg i p m) n) else None) \<and>
    (if i < length wire_msgs then ln_on_msg n i = Some (le_global E (ln_world n) (''on_'' @ wire_msgs ! i))
     else ln_on_msg n i = None)"
proof -
  have msg: "ln_on_msg n = (\<lambda>i. if i < length wire_msgs then Some (le_global E (ln_world n) (''on_'' @ wire_msgs ! i)) else None)"
    using assms(1) by (auto simp: init_bindings_def split: sum.splits)
  have "wire_key (char_of i # data) = (if i < 128 then i else 2 ^ 32 - 256 + i)"
  proof (cases "i < 128")
    case False
    have "(int i - 256) mod 4294967296 = (int i - 256 + 4294967296) mod 4294967296" by (simp only: mod_add_self2)
    also have "\<dots> = int i - 256 + 4294967296" by (rule mod_pos_pos_trivial) (use False assms(2) in simp_all)
    finally have "(int i - 256) mod 4294967296 = int i + 4294967040" by simp
    with False assms(2) show ?thesis by (simp add: wire_key_def schar_def)
  qed (simp add: wire_key_def schar_def)
  with assms(3,4) msg show ?thesis by (auto simp: lua_on_blob_received_def)
qed


text \<open>An error of the script in a task ends the program; the tasks behind it are not run.\<close>

theorem lua_error_ends_program:
  assumes "le_call E (ln_on_connected n) [Arg_number p] (ln_world n) = (w, rs, Lua_error (c # e))"
    and "ln_on_update n = None" and "ln_tasks n = []" and "lua_events decode (Ev_connected p # es) n = Some n1"
  shows "\<exists>n2. lua_process_update E arrivals time n1 =
    Some (n2, Out_call (ln_on_connected n) [Arg_number p] # map Out_request rs, False)"
proof -
  from lua_events_tasks [OF assms(4)] assms(3)
  have n1: "n1 = n\<lparr>ln_tasks := Task_connected p # concat (map (task_of decode) es)\<rparr>" by simp
  have "\<exists>n2. lua_run_tasks E arrivals 1 (n1\<lparr>ln_tasks := ln_tasks n1 @ arrivals 0\<rparr>) =
      Some (n2, Out_call (ln_on_connected n) [Arg_number p] # map Out_request rs, False)"
    using assms(1) by (subst lua_run_tasks.simps) (simp add: n1 call_event_def)
  then show ?thesis using assms(2) by (auto simp: n1 lua_process_update_def lua_s_update_def)
qed

text \<open>An example: the script counts its calls, and a call of \<^verbatim>\<open>nil\<close> is an error.\<close>

definition sample_engine :: "(nat, string) lua_engine" where
  "sample_engine = \<lparr>le_set_nodeid = (\<lambda>i w. w), le_global = (\<lambda>w name. if name = ''connected'' then Some 1 else if name = ''on_Hello'' then Some 2 else None),
     le_script = (\<lambda>s w. (w, [], Lua_value [])),
     le_call = (\<lambda>f args w. case f of None \<Rightarrow> (w, [], Lua_error ''attempt to call a nil value'') | Some f \<Rightarrow> (Suc w, [], Lua_value [])),
     le_text = (\<lambda>r. return [])\<rparr>"

definition sample_lua_node :: "(nat, string) lua_node" where
  "sample_lua_node = (lua_node_new ''n'' ''p'' 0)\<lparr>ln_on_connected := Some 1, ln_on_msg := [0 \<mapsto> Some 2]\<rparr>"

definition late_connection :: "nat \<Rightarrow> string lua_task list" where
  "late_connection k = (if k = 2 then [Task_connected 5] else [])"

theorem lua_told_every_event_witness:
  "\<exists>n1 n2 out l. lua_events succeed [Ev_connected 4, Ev_blob 4 [CHR 0x00, CHR ''x'']] sample_lua_node = Some n1 \<and>
     lua_process_update sample_engine late_connection 9 n1 = Some (n2, out, True) \<and> ln_tasks n2 = [] \<and>
     script_calls out = [Out_call (Some 1) [Arg_number 4], Out_call (Some 2) [Arg_number 4, Arg_msg [CHR 0x00, CHR ''x'']]] @
       concat (map (task_call sample_lua_node) (concat (map late_connection [0..<l])))"
proof -
  let ?es = "[Ev_connected 4, Ev_blob 4 [CHR 0x00, CHR ''x'']]"
  have k: "wire_key [CHR 0x00, CHR ''x''] = 0" by code_simp
  have on: "ln_on_connected sample_lua_node = Some 1" "ln_on_msg sample_lua_node 0 = Some (Some 2)" "ln_on_update sample_lua_node = None"
    by (simp_all add: sample_lua_node_def lua_node_new_def)
  obtain n1 where n1: "lua_events succeed ?es sample_lua_node = Some n1"
    by (simp add: sample_lua_node_def lua_on_connected_def lua_on_blob_received_def lua_add_task_def caught_def succeed_def k)
  have n: "ln_tasks sample_lua_node = []" by (simp add: sample_lua_node_def lua_node_new_def)
  have "ln_tasks n1 = [Task_connected 4, Task_msg 0 4 [CHR 0x00, CHR ''x'']]"
    using lua_events_tasks [OF n1] n k by (simp add: succeed_def)
  then have c: "list_all (callable sample_lua_node) (ln_tasks n1)" by (simp add: callable_def on)
  have a: "\<forall>j. list_all (callable sample_lua_node) (late_connection j)" "\<exists>K. \<forall>j\<ge>K. late_connection j = []"
    by (auto simp: late_connection_def callable_def on intro: exI [of _ 3])
  have "error_free sample_engine" by (simp add: error_free_def sample_engine_def)
  with lua_told_every_event [OF n n1, of sample_engine late_connection 9] c a obtain n2 out l where
    "lua_process_update sample_engine late_connection 9 n1 = Some (n2, out, True)" "ln_tasks n2 = []"
    "script_calls out = update_call sample_lua_node 9 @ concat (map (told succeed sample_lua_node) ?es) @
       concat (map (task_call sample_lua_node) (concat (map late_connection [0..<l])))" by blast
  with n1 show ?thesis
    by (intro exI [of _ n1] exI [of _ n2] exI [of _ out] exI [of _ l]) (simp add: update_call_def on k succeed_def)
qed

theorem lua_wire_dispatch_witness:
  "\<exists>n. init_bindings sample_engine [] [''Hello''] [] sample_lua_node = Inr (n, []) \<and>
     lua_on_blob_received succeed 4 [CHR 0x00, CHR ''x''] n = succeed (lua_add_task (Task_msg 0 4 [CHR 0x00, CHR ''x'']) n) \<and>
     ln_on_msg n 0 = Some (Some 2) \<and> lua_on_blob_received succeed 4 [CHR 0x80] n = None"
proof -
  obtain n where n: "init_bindings sample_engine [] [''Hello''] [] sample_lua_node = Inr (n, [])"
    by (simp add: init_bindings_def)
  have c: "char_of (0 :: nat) = CHR 0x00" "char_of (128 :: nat) = CHR 0x80" by code_simp+
  from lua_wire_dispatch [OF n, of 0 succeed "''x''" _ 4] lua_wire_dispatch [OF n, of 128 succeed "[]" _ 4] n show ?thesis
    by (simp add: c sample_engine_def)
qed

theorem lua_error_ends_program_witness:
  "\<exists>n1 n2. lua_events succeed [Ev_connected 4] sample_lua_node = Some n1 \<and>
     lua_process_update (sample_engine\<lparr>le_call := \<lambda>f args w. (w, [], Lua_error ''attempt to index a nil value'')\<rparr>) (\<lambda>_. []) 9 n1 =
       Some (n2, [Out_call (Some 1) [Arg_number 4]], False)"
proof -
  obtain n1 where n1: "lua_events succeed [Ev_connected 4] sample_lua_node = Some n1"
    by (simp add: sample_lua_node_def lua_on_connected_def)
  let ?E = "sample_engine\<lparr>le_call := \<lambda>f args w. (w, [], Lua_error ''attempt to index a nil value'')\<rparr>"
  from lua_error_ends_program [of ?E sample_lua_node 4 0 "[]" "CHR ''a''" "''ttempt to index a nil value''" succeed "[]" n1 "\<lambda>_. []" 9] n1
  show ?thesis by (simp add: sample_lua_node_def lua_node_new_def)
qed

end
