(* ===== verification/Rpc.thy ===== *)
theory Rpc
  imports Http_Properties Eth_Contract
begin

text \<open>
  The handler of the remote procedure calls of the program and its replacement of texts, \<^verbatim>\<open>core/core.cc\<close>. The JSON library, the
  encoding in base 64 and the Lua script are parameters; a function of the script changes its state and gives an error or a result.
  Shown: the replacement is the one from left to right; a request that is no JSON value ends the server.
\<close>

section \<open>Calls\<close>

type_synonym 'w rpc_script = "string \<Rightarrow> 'w \<Rightarrow> (string \<Rightarrow> 'w \<Rightarrow> 'w \<times> (string + string)) option"

definition rpc_handle ::
  "json_lib \<Rightarrow> (string \<Rightarrow> string) \<Rightarrow> (string \<Rightarrow> string) \<Rightarrow> 'w rpc_script \<Rightarrow> 'w server_handler" where
  "rpc_handle J decode64 encode64 script json_cmd w =
     (case jparse J json_cmd of
        None \<Rightarrow> throw (Json_error (jwhat J json_cmd))
      | Some j \<Rightarrow>
          (case (find_key j ''method'', find_key j ''msg'') of
             (Some (Text m), Some (Text t)) \<Rightarrow>
               let cmd = ''rpc_'' @ m; params = (if t \<noteq> [] then decode64 t else [])
               in (case script cmd w of
                     None \<Rightarrow> return ([], BAD_REQUEST, w)
                   | Some f \<Rightarrow>
                       (case f params w of
                          (w, Inl e) \<Rightarrow> return ([], INTERNAL_SERVER_ERROR, w)
                        | (w, Inr result) \<Rightarrow> return (encode64 result, http_status.OK, w)))
           | (Some _, Some _) \<Rightarrow> throw (Json_error ''type must be string'')
           | _ \<Rightarrow> return ([], BAD_REQUEST, w)))"

section \<open>Replacement\<close>

definition find_text_from :: "string \<Rightarrow> nat \<Rightarrow> string \<Rightarrow> nat option" where
  "find_text_from p pos s = (if pos \<le> length s then map_option (\<lambda>i. pos + i) (find_sub p (drop pos s)) else None)"

partial_function (option) string_replace_loop :: "string \<Rightarrow> string \<Rightarrow> nat \<Rightarrow> string \<Rightarrow> string option" where
  "string_replace_loop old_str new_str pos str =
     (case find_text_from old_str pos str of
        None \<Rightarrow> Some str
      | Some p \<Rightarrow> string_replace_loop old_str new_str (p + length new_str)
          (take p str @ new_str @ drop (p + length old_str) str))"

definition string_replace :: "string \<Rightarrow> string \<Rightarrow> string \<Rightarrow> string option" where
  "string_replace str old_str new_str = string_replace_loop old_str new_str 0 str"

section \<open>Properties\<close>

text \<open>The replacement of a text that is not empty, from left to right.\<close>

function replace_text :: "string \<Rightarrow> string \<Rightarrow> string \<Rightarrow> string" where
  "replace_text p q [] = []"
| "replace_text p q (c # s) =
     (if p \<noteq> [] \<and> prefix p (c # s) then q @ replace_text p q (drop (length p) (c # s)) else c # replace_text p q s)"
  by pat_completeness auto
termination
  by (relation "measure (\<lambda>(p, q, s). length s)") (auto simp: length_greater_0_conv)

lemma replace_none: "p \<noteq> [] \<Longrightarrow> find_sub p s = None \<Longrightarrow> replace_text p q s = s"
  by (induction s) (auto split: if_splits)

lemma replace_some:
  "p \<noteq> [] \<Longrightarrow> find_sub p s = Some i \<Longrightarrow> replace_text p q s = take i s @ q @ replace_text p q (drop (i + length p) s)"
proof (induction s arbitrary: i)
  case (Cons c s)
  show ?case
  proof (cases "prefix p (c # s)")
    case False
    then obtain k where "i = Suc k" "find_sub p s = Some k" using Cons.prems by auto
    with Cons.IH [of k] Cons.prems False show ?thesis by simp
  qed (use Cons.prems in simp)
qed simp

lemma string_replace_loop_eq:
  assumes "p \<noteq> []" and "pos \<le> length str"
  shows "string_replace_loop p q pos str = Some (take pos str @ replace_text p q (drop pos str))"
  using assms(2)
proof (induction "length str - pos" arbitrary: pos str rule: less_induct)
  case less
  show ?case
  proof (cases "find_sub p (drop pos str)")
    case None
    then have "find_text_from p pos str = None" by (simp add: find_text_from_def)
    with replace_none [OF assms(1) None] show ?thesis by (subst string_replace_loop.simps) simp
  next
    case (Some i)
    let ?k = "pos + i" and ?str = "take (pos + i) str @ q @ drop (pos + i + length p) str"
    have i: "i + length p \<le> length str - pos" using find_sub_SomeD [OF Some] by simp
    have "find_text_from p pos str = Some ?k" using Some less.prems by (simp add: find_text_from_def)
    then have "string_replace_loop p q pos str = string_replace_loop p q (?k + length q) ?str"
      by (subst string_replace_loop.simps) simp
    also have "\<dots> = Some (take (?k + length q) ?str @ replace_text p q (drop (?k + length q) ?str))"
    proof (rule less.hyps)
      have "1 \<le> length p" using assms(1) by (cases p) auto
      then show "length ?str - (?k + length q) < length str - pos" "?k + length q \<le> length ?str" using i less.prems by auto
    qed
    also have "\<dots> = Some (take ?k str @ q @ replace_text p q (drop (?k + length p) str))"
    proof -
      have "min (length str) ?k = ?k" using i less.prems by simp
      then show ?thesis by simp
    qed
    also have "\<dots> = Some (take pos str @ replace_text p q (drop pos str))"
    proof -
      have "drop (i + length p) (drop pos str) = drop (?k + length p) str" by (simp add: ac_simps)
      then show ?thesis using replace_some [OF assms(1) Some, of q] by (simp add: take_add)
    qed
    finally show ?thesis .
  qed
qed

text \<open>The loop ends for every text to replace that is not empty, and replaces its occurrences from left to right.\<close>

theorem string_replace_reference:
  assumes "old_str \<noteq> []"
  shows "string_replace str old_str new_str = Some (replace_text old_str new_str str)"
  using string_replace_loop_eq [OF assms, of 0 str new_str] by (simp add: string_replace_def)

theorem string_replace_reference_witness: "string_replace ''@1m@'' ''@'' ''[;'' = Some ''[;1m[;''"
  using string_replace_reference [of "''@''" "''@1m@''" "''[;''"] by simp

text \<open>
  C37: A request whose body is no JSON value makes the handler throw, and nothing catches the exception before the end of the thread: the server ends for
  all connections.
\<close>

theorem rpc_invalid_json_stops_server:
  assumes "sv_running v" and "sv_sessions v i = Some (http_session_new, Reading_some)"
    and "wf_request (h, b)" and "jparse J b = None"
  shows "\<exists>v'. server_step (rpc_handle J decode64 encode64 script) taken (Completed i (Read_done (h @ b))) v = Some v' \<and>
    \<not> sv_running v' \<and> (\<forall>e. server_step (rpc_handle J decode64 encode64 script) taken e v' = None)"
proof -
  let ?H = "rpc_handle J decode64 encode64 script" and ?e = "Some (throw (Json_error (jwhat J b)))"
  from assms(3) have wf: "find_sub crlf2 h = Some (length h - 4)" "content_length h = succeed (length b)" "b \<noteq> []" by auto
  have h4: "length h - 4 + 4 = length h" using find_sub_SomeD [OF wf(1)] by (simp add: crlf2_def crlf_def)
  have "read_header ?H taken (http_session_new\<lparr>hs_header := h @ b\<rparr>) (sv_world v) =
      read_header ?H taken (http_session_new\<lparr>hs_body := b, hs_header := h\<rparr>) (sv_world v)"
    using find_sub_append [OF wf(1), of b] wf(3) h4 by (subst read_header.simps) (simp add: http_session_new_def)
  also have "\<dots> = read_body ?H taken (length b) (http_session_new\<lparr>hs_body := b, hs_header := []\<rparr>) (sv_world v)"
    using wf h4 by (subst read_header.simps) (simp add: http_session_new_def)
  also have "\<dots> = ?e"
    using assms(4) by (subst read_body.simps) (simp add: http_session_new_def rpc_handle_def and_then_def)
  finally have "session_complete ?H taken Reading_some (Read_done (h @ b)) http_session_new (sv_world v) = ?e"
    by (simp add: http_session_new_def and_then_def)
  then have "server_step ?H taken (Completed i (Read_done (h @ b))) v = Some (v\<lparr>sv_sessions := (sv_sessions v)(i := None), sv_running := False\<rparr>)"
    using assms by (simp add: run_session_def)
  moreover have "server_step ?H taken e (v\<lparr>sv_sessions := (sv_sessions v)(i := None), sv_running := False\<rparr>) = None" for e
    by (cases e) simp_all
  ultimately show ?thesis by auto
qed

theorem rpc_invalid_json_stops_server_witness:
  "\<exists>v'. server_step (rpc_handle (echo_json\<lparr>jparse := \<lambda>_. None\<rparr>) id id (\<lambda>_ _. None)) id (Completed 0 (Read_done (fst (hd sample_requests) @ ''ab'')))
     ((server_run (http_server_new (0 :: nat)))\<lparr>sv_sessions := [0 \<mapsto> (http_session_new, Reading_some)]\<rparr>) = Some v' \<and> \<not> sv_running v'"
proof -
  have "wf_request (fst (hd sample_requests), ''ab'')" using sample_requests_ok by (simp add: sample_requests_def)
  then show ?thesis
    using rpc_invalid_json_stops_server [of "(server_run (http_server_new 0))\<lparr>sv_sessions := [0 \<mapsto> (http_session_new, Reading_some)]\<rparr>"
        0 "fst (hd sample_requests)" "''ab''" "echo_json\<lparr>jparse := \<lambda>_. None\<rparr>" id id "\<lambda>_ _. None" id]
    by (auto simp: server_run_def)
qed

end
