(* ===== verification/Spec2Isabelle.thy ===== *)
theory Spec2Isabelle
  imports Hex_IO Status Trie_Links State_Properties Persistent_Vector Blockchain_Properties
    Dummy_State Node_Updater Simulated_Node Simulation_Defects Testnet_Properties
    Eth_Contract Proto_Instance Persistent_Properties Http_Properties Miner
    Tcp_Address Tcp_Defects Eth_Raw_Properties Lua_Node Rpc
begin

text \<open>
  A verification of Automaton Core, \<^verbatim>\<open>src/src/automaton/\<close>: nodes that exchange the messages of smart protocols
  over a network, a Merkle trie for their state, stores in memory and in mapped files, a layer of messages on top
  of protocol buffers, and a client for Ethereum contracts. The definitions follow the C++ code function by function;
  the theorems are about these definitions.

  \<^bold>\<open>Conventions.\<close> A \<^verbatim>\<open>std::string\<close> is a list of bytes. An operation on an object is a function from the state
  of the object, a record with the members of the class, to the state afterwards. \<open>None\<close> stands for a call that
  does not return in a defined way: an access past the end of a vector, a null pointer, a recursion that never
  ends, a failed \<^verbatim>\<open>CHECK\<close>. \<open>Some (Inl e)\<close> stands for the exception \<open>e\<close>, \<open>Some (Inr x)\<close> for the result \<open>x\<close>; an
  operation with one kind of failure has only that layer. Calls that leave the modelled part (handlers of the
  application, sockets) are values that the operation returns. Where a wrap-around of an unsigned integer can be
  reached it is written out; casts to 32 bits of the sizes of containers are the identity below the sizes named in
  the theory. Log output is left out.

  \<^bold>\<open>Theories.\<close>

  \<^item> \<open>Prelude\<close>, \<open>Bytes\<close>: the shared types and exceptions, vectors, decimal and hexadecimal printing; numbers as bytes
    and memory.
  \<^item> \<open>Hex_IO\<close> (\<^verbatim>\<open>core/io/io.cc\<close>, \<^verbatim>\<open>blob.h\<close>) and \<open>Status\<close> (\<^verbatim>\<open>core/common/status.h\<close>): conversions that are inverse to
    each other, and the status values. \<open>Texts\<close>: functions of the C++ library on texts.
  \<^item> \<open>State_Interface\<close>, \<open>Trie_Links\<close>, \<open>State_Impl\<close>, \<open>State_Trie\<close>, \<open>State_Ops\<close>, \<open>State_Lookup\<close>, \<open>State_Update\<close>,
    \<open>State_Remove\<close>, \<open>State_Session\<close>, \<open>State_Properties\<close> (\<^verbatim>\<open>core/state/state_impl.cc\<close>): the Merkle trie. \<open>State_Impl\<close> has
    the operations; the locale \<open>state_contract\<close> of \<open>State_Interface\<close> is what a user relies on. Shown: in every state
    of a session (\<open>State_Session\<close>: the calls within their limits, named there and at each theorem) the trie stands for
    the map of the values set so far; each operation changes that map as promised, which \<open>get\<close> shows, and returns; the hashes are those of a Merkle tree and depend on the map only; \<open>discard_changes\<close>
    restores the last commit. \<open>calculate_hash\<close> is a partial function that is shown to return on these states;
    \<open>subtrie_mark_free\<close> has the number of nodes as fuel, which is enough because no node is its own descendant.
    Also shown: where the promises are broken outside these limits (a commit with a hole before a live node loses a key in every
    such session; a second discard; the empty key).
  \<^item> \<open>Dummy_State\<close> (\<^verbatim>\<open>core/state/dummy_state.cc\<close>): the reference implementation, which agrees with the trie on every
    sequence of calls within the limits of a session but \<open>delete_node_tree\<close>, where they differ.
  \<^item> \<open>Blobstore\<close> (\<^verbatim>\<open>core/storage/blobstore.cc\<close>, \<^verbatim>\<open>persistent_blobstore.cc\<close>) and \<open>Persistent_Vector\<close>
    (\<^verbatim>\<open>persistent_storage.cc\<close>, \<^verbatim>\<open>persistent_vector.h\<close>): stores at the level of bytes in memory. The locales
    \<open>blob_contract\<close> and \<open>vector_contract\<close> state what is stored and read back; both blob stores and the vector are
    instances.
  \<^item> \<open>State_Persistent\<close> (\<^verbatim>\<open>core/state/state_persistent.cc\<close>): the trie with its strings and parents in a blob store. An
    operation is a function to an optional result and the state that was reached, since a call that fails may have
    stored before. \<open>Persistent_Relation\<close> relates it to the in-memory trie and has a calculus of simulation,
    \<open>Persistent_Simulation\<close> and \<open>Persistent_Operations\<close> follow the operations, \<open>Persistent_Properties\<close> has the sessions. Shown:
    as long as fewer than \<^verbatim>\<open>2^26\<close> words were stored, a quarter of the first allocation, and keys, values and
    digests have at most \<^verbatim>\<open>2^28\<close> bytes, no operation is undefined and the trie is the same map with the same
    hashes as the in-memory one. \<open>p_calculate_hash\<close> has the number of nodes as fuel, which is shown to be enough
    whenever the in-memory recursion returns.
  \<^item> \<open>Smart_Protocol\<close> (\<^verbatim>\<open>core/smartproto/smart_protocol.cc\<close>): the registry of protocols and the identifiers of
    messages on the wire.
  \<^item> \<open>Network\<close>, \<open>Simulation\<close>, \<open>Simulation_Properties\<close>, \<open>Simulation_Defects\<close> (\<^verbatim>\<open>core/network/connection.h\<close>,
    \<^verbatim>\<open>acceptor.h\<close>, \<^verbatim>\<open>simulated_connection.cc\<close>): the simulated network as an event queue. Events run by time and, at one
    time, in the order in which they were added, nothing due is left, and running an interval in two steps is running it in
    one; connections lose messages they have acknowledged.
  \<^item> \<open>Tcp\<close>, \<open>Tcp_Properties\<close>, \<open>Tcp_Address\<close>, \<open>Tcp_Defects\<close> (\<^verbatim>\<open>core/network/tcp_implementation.cc\<close>): connections and acceptors
    over TCP. The state has the operations that are pending in the asio library and those that are completed; a step is
    a call of the application, the completion of an operation or the run of its callback. Shown: over any steps each
    message is answered once, and after a connection is closed the callbacks that are left answer what was sent on it; reads
    fit their buffers; addresses are parsed as the regular expression says. Also shown: where callbacks of the past
    break the present connection, and that nothing is answered after a release.
  \<^item> \<open>Http_Server\<close>, \<open>Http_Properties\<close> (\<^verbatim>\<open>core/network/http_server.cc\<close>): the HTTP server. Requests on a connection are answered once
    and in order however they are cut into pieces, with a handler that does not throw. The text that asio writes is a function
    \<open>taken\<close> of the answer, whose buffer is destroyed before the write has ended; a request with a bad size ends the server. \<open>Rpc\<close> (\<^verbatim>\<open>core/core.cc\<close>): its handler of remote procedure calls, which ends the
    server when a request is no JSON value.
  \<^item> \<open>Node\<close>, \<open>Node_Properties\<close>, \<open>Node_Updater\<close> (\<^verbatim>\<open>core/node/node.cc\<close>, \<^verbatim>\<open>node_updater.cc\<close>): peers, framing of messages,
    the handlers called by the network, the registry of nodes, logs and updates. The tasks of a node run as a step relation.
    A message is sent as one frame and decoded with the schema and bytes of the sender, for the first 128 wire messages.
  \<^item> \<open>Lua_Node\<close> (\<^verbatim>\<open>core/node/lua_node/lua_node.cc\<close>): nodes whose behaviour is a script. The script is told every event once, in
    order and by the function named after it, and so are the tasks that come while the update runs (the parameter \<open>arrivals\<close>);
    the loop over the queue is a partial function that ends when the script has no errors and no more tasks come. An error of the
    script ends the program.
  \<^item> \<open>Simulated_Node\<close>: nodes on the simulated network. Whatever the pieces in which a stream of messages of 1 to 256 bytes
    arrives and the order of the steps, a node is given the messages sent to it, in order and unchanged; while one is missing, a
    read or a handler call is in the queues.
  \<^item> \<open>Testnet\<close>, \<open>Testnet_Properties\<close> (\<^verbatim>\<open>core/testnet/testnet.cc\<close>): networks of nodes, their connection graphs, creation
    and destruction, with and without another owner of the network, and when the drawing of random peers ends.
  \<^item> \<open>Blockchain\<close>, \<open>Blockchain_Properties\<close> (\<^verbatim>\<open>examples/node/blockchain_cpp_node\<close>): the blockchain node. Its main chain is a
    chain of valid blocks after any sequence of events, a new head brings the whole branch of its ancestors, and a new peer that answers gets to the same chain.
  \<^item> \<open>Eth_Abi\<close>, \<open>Eth_Abi_Types\<close>, \<open>Eth_Abi_Encode\<close>, \<open>Eth_Abi_Properties\<close> (\<^verbatim>\<open>core/interop/ethereum/eth_helper_functions.h\<close>):
    arguments of contracts. The encoder, which writes into a growing buffer, computes a reference encoding, and the
    decoder inverts it. \<open>Eth_Transaction\<close> (\<^verbatim>\<open>eth_transaction.cc\<close>): RLP, signatures, transactions. \<open>Eth_Contract\<close>
    (\<^verbatim>\<open>eth_contract_curl.cc\<close>): requests and calls of contracts. \<open>Eth_Raw\<close>, \<open>Eth_Raw_Properties\<close>
    (\<^verbatim>\<open>eth_contract_raw.cc\<close>): calls over a connection, whose chunked responses are read in whatever pieces they arrive; the
    functions that call each other are a loop, a partial function that is shown to return: with an exception, one next read, or none and the message dropped.
  \<^item> \<open>Miner\<close> (\<^verbatim>\<open>tools/miner\<close>): the search for keys, as a search in a list, and the loop of the program.
  \<^item> \<open>Proto_Types\<close>, \<open>Proto_Schema\<close>, \<open>Proto_Factory\<close>, \<open>Proto_Msg\<close> (\<^verbatim>\<open>core/data/schema.h\<close>, \<^verbatim>\<open>core/data/protobuf/\<close>): the
    builder of schemas, the factory and the messages over the protocol buffers library, which is a record of
    functions. \<open>Proto_Laws\<close> has the laws of that library; \<open>Proto_Accessors\<close>, \<open>Proto_Import\<close> and \<open>Proto_Round_Trip\<close> show type
    safety, round trips, repeated fields as lists, the invariant of the factory and the way of a description from the
    builder to the factory; \<open>Proto_Instance\<close> has an instance of the laws and applies the theorems to it.

  \<^bold>\<open>Parameters.\<close> Hash functions, the signature library, the JSON parser, big integers, the HTTP transfer, the
  protocol buffers library, the resolver and the error messages of asio, the handlers of the HTTP server, what asio takes from a destroyed buffer, the tasks that come
  while a node runs its own, the Lua library, the reader of files and random numbers are
  arguments of the definitions that use them; what sockets do is an event. A theorem
  that needs something of them has it as a hypothesis, and its witness instantiates it.

  \<^bold>\<open>Not modelled.\<close> Threads other than as an order of steps, and mutexes; the Lua engine and
  its bindings, which register C++ functions with the Lua library; the wrappers of the cryptographic libraries, which only pass calls on; the main
  program but for its handler of remote procedure calls, and its command line;
  tests and examples other than the blockchain node.
\<close>

end
